(* ===== verification/Prelude.thy ===== *)
theory Prelude
  imports Main "HOL-Library.Word"
begin

unbundle bit_operations_syntax

text \<open>
  Shared vocabulary of the development: the Go machine integers as words, byte slices as
  lists of 8-bit words, fallible Go functions as sums (\<open>Inl\<close> holds the error), and the
  generic facts on words, sums and lists that the component theories rely on.
\<close>

section \<open>Go types\<close>

type_synonym u8 = "8 word"
type_synonym u16 = "16 word"
type_synonym u32 = "32 word"
type_synonym u64 = "64 word"
type_synonym bytes = "u8 list"

section \<open>Fallible computations\<close>

text \<open>Sequencing of Go calls that return \<open>(value, error)\<close>: an error ends the caller.\<close>

fun bindR :: "'e + 'a \<Rightarrow> ('a \<Rightarrow> 'e + 'b) \<Rightarrow> 'e + 'b" where
  "bindR (Inl e) f = Inl e"
| "bindR (Inr x) f = f x"

lemma bindR_eq_Inr: "bindR m f = Inr y \<longleftrightarrow> (\<exists>x. m = Inr x \<and> f x = Inr y)"
  by (cases m) auto

lemma bindR_eq_Inl: "bindR m f = Inl e \<longleftrightarrow> m = Inl e \<or> (\<exists>x. m = Inr x \<and> f x = Inl e)"
  by (cases m) auto

lemma bindR_assoc: "bindR (bindR m f) g = bindR m (\<lambda>x. bindR (f x) g)"
  by (cases m) auto

section \<open>Words\<close>

text \<open>Ordered word arithmetic without wrap-around, phrased over \<open>unat\<close>.\<close>

lemmas word_nat = word_le_nat_alt word_less_nat_alt word_unat_eq_iff unat_sub_if' unat_plus_if'

lemma u64_lt: "unat (x :: u64) < 18446744073709551616"
  using unsigned_less [of x, where 'a = nat] by simp

lemma u32_lt: "unat (x :: u32) < 4294967296"
  using unsigned_less [of x, where 'a = nat] by simp

lemma u16_lt: "unat (x :: u16) < 65536"
  using unsigned_less [of x, where 'a = nat] by simp

lemma u8_lt: "unat (x :: u8) < 256"
  using unsigned_less [of x, where 'a = nat] by simp

lemma word_diff_cancel [simp]: "(a - b) - (a - c) = c - b" for a b c :: "'a::len word"
  by simp

text \<open>Single bits: the masks and shifts of the wire formats.\<close>

lemma bit_less_exp:
  fixes w :: "'a::len word"
  assumes "unat w < 2 ^ n" "bit w m"
  shows "m < n"
proof (rule ccontr)
  assume "\<not> m < n"
  then have "unat w < 2 ^ m"
    using assms(1) by (meson le_less_linear less_le_trans not_less power_increasing_iff one_less_numeral_iff semiring_norm(76))
  then have "\<not> bit (unat w) m" by (simp add: bit_iff_odd)
  with assms(2) show False by (simp add: bit_unsigned_iff)
qed

named_theorems bit_consts \<open>bits of the mask constants of the wire formats\<close>

lemma bit_mask_int: "bit (2 ^ k - 1 :: int) n \<longleftrightarrow> n < k"
  using bit_mask_iff [of k n, where 'a = int] by (simp add: mask_eq_exp_minus_1)

lemma bit_int_consts [bit_consts]:
  "bit (0x80 :: int) n \<longleftrightarrow> n = 7"
  "bit (0xc0 :: int) n \<longleftrightarrow> n = 6 \<or> n = 7"
  by (auto simp: bit_numeral_rec bit_1_iff split: nat.splits)

lemma bit_int_masks [bit_consts]:
  "bit (3 :: int) n \<longleftrightarrow> n < 2"
  "bit (7 :: int) n \<longleftrightarrow> n < 3"
  "bit (0xf :: int) n \<longleftrightarrow> n < 4"
  "bit (0x1f :: int) n \<longleftrightarrow> n < 5"
  "bit (0x7f :: int) n \<longleftrightarrow> n < 7"
  "bit (0xff :: int) n \<longleftrightarrow> n < 8"
  "bit (0xfff :: int) n \<longleftrightarrow> n < 12"
  "bit (0x7fff :: int) n \<longleftrightarrow> n < 15"
  using bit_mask_int [of 2 n] bit_mask_int [of 3 n] bit_mask_int [of 4 n] bit_mask_int [of 5 n] bit_mask_int [of 7 n] bit_mask_int [of 8 n]
    bit_mask_int [of 12 n] bit_mask_int [of 15 n] by simp_all

lemma and_gt_0_bit: "w AND 2 ^ n > 0 \<longleftrightarrow> bit w n" for w :: "'a::len word"
  by (simp add: word_gt_0 and_exp_eq_0_iff_not_bit)

lemma u8_masks [simp]:
  fixes x :: u8
  shows "0 < x AND 0x80 \<longleftrightarrow> bit x 7" "0 < x AND 0x40 \<longleftrightarrow> bit x 6" "0 < x AND 0x20 \<longleftrightarrow> bit x 5"
    "0 < x AND 0x10 \<longleftrightarrow> bit x 4" "0 < x AND 8 \<longleftrightarrow> bit x 3" "0 < x AND 4 \<longleftrightarrow> bit x 2"
  using and_gt_0_bit [of x 7] and_gt_0_bit [of x 6] and_gt_0_bit [of x 5] and_gt_0_bit [of x 4]
    and_gt_0_bit [of x 3] and_gt_0_bit [of x 2] by simp_all

section \<open>Lists\<close>

lemma successively_conj_iff:
  "successively (\<lambda>a b. P a b \<and> Q a b) xs \<longleftrightarrow> successively P xs \<and> successively Q xs"
  by (induction xs rule: induct_list012) auto

lemma successively_snoc:
  "successively P (xs @ [x, y]) \<longleftrightarrow> successively P (xs @ [x]) \<and> P x y"
  by (induction xs rule: induct_list012) auto

lemma successively_drop: "successively P xs \<Longrightarrow> successively P (drop n xs)"
proof (induction n arbitrary: xs)
  case (Suc n)
  then show ?case by (cases xs rule: remdups_adj.cases) auto
qed simp

lemma successively_nthD:
  "successively P xs \<Longrightarrow> Suc i < length xs \<Longrightarrow> P (xs ! i) (xs ! Suc i)"
  by (induction xs arbitrary: i rule: induct_list012)
    (auto simp: nth_Cons split: nat.splits)

lemma find_append:
  "find P (xs @ ys) = (case find P xs of None \<Rightarrow> find P ys | Some x \<Rightarrow> Some x)"
  by (induction xs) auto

text \<open>Ring buffers: numbers less than \<open>n\<close> apart have different slots.\<close>

lemma ring_distinct: "a mod n \<noteq> b mod n" if "a < b" "b - a < n" for a b n :: nat
proof
  assume "a mod n = b mod n"
  then have "n dvd b - a" using that by (metis less_imp_le_nat mod_eq_dvd_iff_nat)
  with that show False by (auto dest: dvd_imp_le)
qed

end
