(* ===== verification/RangeMap.thy ===== *)
theory RangeMap
  imports Prelude
begin

text \<open>
  \<^verbatim>\<open>pkg/sfu/utils/rangemap.go\<close>: a bounded list of key ranges with a value each. The last
  range is open ended; excluded keys lie between the end of one range and the start of the
  next. The Go type is generic over \<open>uint32\<close> and \<open>uint64\<close>; the repository instantiates it at
  \<open>uint64\<close> only, which is the instance modelled here. The section "Behaviour" states the
  abstract lookup function the map implements and what every operation does to it.
\<close>

section \<open>Model\<close>

datatype rangeMapErr = errReversedOrder | errKeyNotFound | errKeyTooOld | errKeyExcluded

record rangeVal =
  rv_start :: u64
  rv_end :: u64
  rv_value :: u64

record RangeMap =
  halfRange :: u64
  rm_size :: nat
  ranges :: "rangeVal list"

definition initRanges :: "RangeMap \<Rightarrow> u64 \<Rightarrow> u64 \<Rightarrow> RangeMap" where
  "initRanges r start val =
     r\<lparr>ranges := [\<lparr>rv_start = start, rv_end = 0, rv_value = val\<rparr>]\<rparr>"

definition minRanges :: int where
  "minRanges = 1"

definition NewRangeMap :: "int \<Rightarrow> RangeMap" where
  "NewRangeMap sz =
     initRanges \<lparr>halfRange = push_bit 63 1, rm_size = nat (max sz minRanges), ranges = []\<rparr> 0 0"

definition ClearAndResetValue :: "RangeMap \<Rightarrow> u64 \<Rightarrow> u64 \<Rightarrow> RangeMap" where
  "ClearAndResetValue r start val = initRanges r start val"

text \<open>\<open>prune\<close> keeps the open range and the \<open>size\<close> closed ranges before it.\<close>

definition prune :: "RangeMap \<Rightarrow> RangeMap" where
  "prune r =
     (if length (ranges r) > rm_size r + 1
      then r\<lparr>ranges := drop (length (ranges r) - rm_size r - 1) (ranges r)\<rparr>
      else r)"

text \<open>
  The slice is never empty (\<open>rm_inv\<close> below), so \<open>r.ranges[len(r.ranges)-1]\<close> is its last
  element; the other elements are \<open>butlast\<close>.
\<close>

definition DecValue :: "RangeMap \<Rightarrow> u64 \<Rightarrow> u64 \<Rightarrow> RangeMap" where
  "DecValue r end dec =
     (let lr = last (ranges r); front = butlast (ranges r) in
      if rv_start lr > end
      then r\<lparr>ranges := front @ [lr\<lparr>rv_value := rv_value lr - dec\<rparr>]\<rparr>
      else prune (r\<lparr>ranges := front @ [lr\<lparr>rv_end := end\<rparr>] @
             [\<lparr>rv_start = end + 1, rv_end = 0, rv_value = rv_value lr - dec\<rparr>]\<rparr>))"

definition ExcludeRange :: "RangeMap \<Rightarrow> u64 \<Rightarrow> u64 \<Rightarrow> rangeMapErr + RangeMap" where
  "ExcludeRange r startInclusive endExclusive =
     (if endExclusive = startInclusive \<or> endExclusive - startInclusive > halfRange r
      then Inl errReversedOrder
      else
        let lr = last (ranges r); front = butlast (ranges r) in
        if rv_start lr > startInclusive then Inl errReversedOrder
        else
          let newValue = rv_value lr + (endExclusive - startInclusive) in
          if rv_start lr = startInclusive
          then Inr (r\<lparr>ranges := front @ [lr\<lparr>rv_start := endExclusive, rv_value := newValue\<rparr>]\<rparr>)
          else Inr (prune (r\<lparr>ranges := front @ [lr\<lparr>rv_end := startInclusive - 1\<rparr>] @
                 [\<lparr>rv_start = endExclusive, rv_end = 0, rv_value = newValue\<rparr>]\<rparr>)))"

text \<open>
  The loop of \<open>GetValue\<close>: \<open>getValueLoop hr rs n key\<close> runs the iterations
  \<open>idx = n - 1, \<dots>, 0\<close>.
\<close>

fun getValueLoop :: "u64 \<Rightarrow> rangeVal list \<Rightarrow> nat \<Rightarrow> u64 \<Rightarrow> rangeMapErr + u64" where
  "getValueLoop hr rs 0 key = Inl errKeyNotFound"
| "getValueLoop hr rs (Suc idx) key =
     (let rv = rs ! idx in
      if idx \<noteq> length rs - 1 \<and> key - rv_start rv < hr \<and> rv_end rv - key < hr
      then Inr (rv_value rv)
      else if idx > 0 \<and>
        (let rvPrev = rs ! (idx - 1);
             beforeDiff = key - rv_end rvPrev;
             afterDiff = rv_start rv - key
         in beforeDiff > 0 \<and> beforeDiff < hr \<and> afterDiff > 0 \<and> afterDiff < hr)
      then Inl errKeyExcluded
      else getValueLoop hr rs idx key)"

definition GetValue :: "RangeMap \<Rightarrow> u64 \<Rightarrow> rangeMapErr + u64" where
  "GetValue r key =
     (let rs = ranges r; numRanges = length rs in
      if numRanges \<noteq> 0 \<and> key \<ge> rv_start (rs ! (numRanges - 1))
      then Inr (rv_value (rs ! (numRanges - 1)))
      else if numRanges \<noteq> 0 \<and> key < rv_start (rs ! 0)
      then Inl errKeyTooOld
      else getValueLoop (halfRange r) rs numRanges key)"

section \<open>Invariant and abstract lookup\<close>

text \<open>Neighbouring ranges: the first one is closed, not empty, and ends before the next.\<close>

definition ordered_pair :: "rangeVal \<Rightarrow> rangeVal \<Rightarrow> bool" where
  "ordered_pair a b \<longleftrightarrow> rv_start a \<le> rv_end a \<and> rv_end a < rv_start b"

definition rm_inv :: "RangeMap \<Rightarrow> bool" where
  "rm_inv r \<longleftrightarrow> ranges r \<noteq> [] \<and> halfRange r = 2 ^ 63 \<and> 1 \<le> rm_size r \<and>
     length (ranges r) \<le> rm_size r + 1 \<and> successively ordered_pair (ranges r)"

text \<open>
  The window the map remembers spans less than half of the key space, so that the modular
  comparisons of \<open>GetValue\<close> are comparisons of numbers.
\<close>

definition rm_span :: "RangeMap \<Rightarrow> bool" where
  "rm_span r \<longleftrightarrow>
     unat (rv_start (last (ranges r))) - unat (rv_start (hd (ranges r))) < 2 ^ 63"

text \<open>What a lookup means: the range that holds the key decides.\<close>

definition in_range :: "u64 \<Rightarrow> rangeVal \<Rightarrow> bool" where
  "in_range key rv \<longleftrightarrow> rv_start rv \<le> key \<and> key \<le> rv_end rv"

definition rm_lookup :: "rangeVal list \<Rightarrow> u64 \<Rightarrow> rangeMapErr + u64" where
  "rm_lookup rs key =
     (if rv_start (last rs) \<le> key then Inr (rv_value (last rs))
      else if key < rv_start (hd rs) then Inl errKeyTooOld
      else case find (in_range key) (butlast rs) of
             Some rv \<Rightarrow> Inr (rv_value rv)
           | None \<Rightarrow> Inl errKeyExcluded)"

section \<open>Behaviour\<close>

subsection \<open>Ordering of the ranges\<close>

lemma ordered_nth:
  assumes "successively ordered_pair rs" "i < j" "j < length rs"
  shows "rv_start (rs ! i) \<le> rv_end (rs ! i) \<and> rv_end (rs ! i) < rv_start (rs ! j)"
  using assms(2,3)
proof (induction j)
  case (Suc j)
  have step: "rv_start (rs ! j) \<le> rv_end (rs ! j)" "rv_end (rs ! j) < rv_start (rs ! Suc j)"
    using successively_nthD [OF assms(1) Suc.prems(2)] by (auto simp: ordered_pair_def)
  show ?case
  proof (cases "i = j")
    case True
    with step show ?thesis by simp
  next
    case False
    with Suc have "rv_start (rs ! i) \<le> rv_end (rs ! i) \<and> rv_end (rs ! i) < rv_start (rs ! j)"
      by simp
    with step show ?thesis by (meson le_less_trans less_le_trans less_imp_le)
  qed
qed simp

lemma ordered_start_mono:
  assumes "successively ordered_pair rs" "i \<le> j" "j < length rs"
  shows "rv_start (rs ! i) \<le> rv_start (rs ! j)"
  using assms ordered_nth [of rs i j]
  by (cases "i = j") (auto dest: order.trans less_imp_le)

lemma find_in_range:
  assumes ord: "successively ordered_pair rs" and i: "i < length rs - 1"
    and hit: "in_range key (rs ! i)"
  shows "find (in_range key) (butlast rs) = Some (rs ! i)"
proof -
  have "\<not> in_range key (rs ! j)" if "j < i" for j
    using ordered_nth [OF ord that] i hit by (force simp: in_range_def)
  then show ?thesis
    using i hit by (auto simp: find_Some_iff nth_butlast intro!: exI [of _ i])
qed

lemma find_in_gap:
  assumes ord: "successively ordered_pair rs" and i: "0 < i" "i < length rs"
    and gap: "rv_end (rs ! (i - 1)) < key" "key < rv_start (rs ! i)"
  shows "find (in_range key) (butlast rs) = None"
proof -
  have "\<not> in_range key (rs ! j)" if j: "j < length rs - 1" for j
  proof (cases "j < i")
    case True
    have "rv_end (rs ! j) \<le> rv_end (rs ! (i - 1))"
    proof (cases "j = i - 1")
      case False
      then have "rv_end (rs ! j) < rv_start (rs ! (i - 1))"
        using ordered_nth [OF ord, of j "i - 1"] True i by simp
      also have "\<dots> \<le> rv_end (rs ! (i - 1))"
        using ordered_nth [OF ord, of "i - 1" i] i by simp
      finally show ?thesis by simp
    qed simp
    then show ?thesis using gap by (auto simp: in_range_def)
  next
    case False
    then have "rv_start (rs ! i) \<le> rv_start (rs ! j)"
      using ordered_start_mono [OF ord] j by simp
    then show ?thesis using gap by (auto simp: in_range_def)
  qed
  then show ?thesis by (auto simp: find_None_iff in_set_conv_nth nth_butlast)
qed

subsection \<open>GetValue implements the abstract lookup\<close>

lemma mod_cmp:
  fixes a b :: u64
  assumes "lo \<le> unat a" "unat a \<le> hi" "lo \<le> unat b" "unat b \<le> hi" "hi - lo < 2 ^ 63"
  shows "a - b < 2 ^ 63 \<longleftrightarrow> b \<le> a"
  using assms by (auto simp: word_nat)

text \<open>Starts and ends of the ranges stay inside the window from the first to the open start.\<close>

lemma window_bounds:
  assumes ord: "successively ordered_pair rs" and idx: "idx < length rs"
  shows "unat (rv_start (hd rs)) \<le> unat (rv_start (rs ! idx))"
    and "unat (rv_start (rs ! idx)) \<le> unat (rv_start (last rs))"
    and "idx < length rs - 1 \<Longrightarrow> unat (rv_start (hd rs)) \<le> unat (rv_end (rs ! idx))"
    and "idx < length rs - 1 \<Longrightarrow> unat (rv_end (rs ! idx)) \<le> unat (rv_start (last rs))"
proof -
  have ne: "rs \<noteq> []" using idx by auto
  have h: "hd rs = rs ! 0" and l: "last rs = rs ! (length rs - 1)"
    using ne by (simp_all add: hd_conv_nth last_conv_nth)
  show a: "unat (rv_start (hd rs)) \<le> unat (rv_start (rs ! idx))"
    using ordered_start_mono [OF ord, of 0 idx] idx by (simp add: h word_le_nat_alt)
  show "unat (rv_start (rs ! idx)) \<le> unat (rv_start (last rs))"
    using ordered_start_mono [OF ord, of idx "length rs - 1"] idx by (simp add: l word_le_nat_alt)
  assume i: "idx < length rs - 1"
  then have o: "rv_start (rs ! idx) \<le> rv_end (rs ! idx)" "rv_end (rs ! idx) < rv_start (last rs)"
    using ordered_nth [OF ord i] by (simp_all add: l)
  show "unat (rv_start (hd rs)) \<le> unat (rv_end (rs ! idx))"
    using a o(1) by (simp add: word_le_nat_alt)
  show "unat (rv_end (rs ! idx)) \<le> unat (rv_start (last rs))"
    using o(2) by (simp add: word_less_nat_alt)
qed

lemma getValueLoop_correct:
  assumes ord: "successively ordered_pair rs"
    and span: "unat (rv_start (last rs)) - unat (rv_start (hd rs)) < 2 ^ 63"
    and lo: "rv_start (hd rs) \<le> key" and hi: "key < rv_start (last rs)"
    and idx: "idx < length rs"
    and at: "if idx = length rs - 1 then key < rv_start (rs ! idx) else key \<le> rv_end (rs ! idx)"
  shows "getValueLoop (2 ^ 63) rs (Suc idx) key =
    (case find (in_range key) (butlast rs) of Some rv \<Rightarrow> Inr (rv_value rv) | None \<Rightarrow> Inl errKeyExcluded)"
  using idx at
proof (induction idx)
  case 0
  have k: "unat (rv_start (hd rs)) \<le> unat key" "unat key \<le> unat (rv_start (last rs))"
    using lo hi by (simp_all add: word_le_nat_alt word_less_nat_alt)
  have ne: "rs \<noteq> []" using 0 by auto
  have len: "length rs \<noteq> 1" using 0 lo ne by (auto simp: hd_conv_nth)
  then have i: "0 < length rs - 1" using ne by (cases rs) auto
  have hit: "in_range key (rs ! 0)" using 0 i lo ne by (auto simp: in_range_def hd_conv_nth)
  note cmp = mod_cmp [OF _ _ _ _ span] and b = window_bounds [OF ord, of 0]
  have "key - rv_start (rs ! 0) < 2 ^ 63" "rv_end (rs ! 0) - key < 2 ^ 63"
    using cmp [of key "rv_start (rs ! 0)"] cmp [of "rv_end (rs ! 0)" key] hit k b i ne
    by (simp_all add: in_range_def)
  then show ?case
    using find_in_range [OF ord i hit] i by simp
next
  case (Suc idx)
  have k: "unat (rv_start (hd rs)) \<le> unat key" "unat key \<le> unat (rv_start (last rs))"
    using lo hi by (simp_all add: word_le_nat_alt word_less_nat_alt)
  note cmp = mod_cmp [OF _ _ _ _ span]
  note b = window_bounds [OF ord Suc.prems(1)] window_bounds [OF ord, of idx]
  have s1: "key - rv_start (rs ! Suc idx) < 2 ^ 63 \<longleftrightarrow> rv_start (rs ! Suc idx) \<le> key"
    using cmp k b by blast
  show ?case
  proof (cases "Suc idx < length rs - 1 \<and> in_range key (rs ! Suc idx)")
    case True
    then have "rv_end (rs ! Suc idx) - key < 2 ^ 63" "key - rv_start (rs ! Suc idx) < 2 ^ 63"
      using s1 cmp [of "rv_end (rs ! Suc idx)" key] k b by (simp_all add: in_range_def)
    then show ?thesis
      using True find_in_range [OF ord, of "Suc idx" key] by simp
  next
    case False
    have below: "key < rv_start (rs ! Suc idx)"
      using Suc.prems False by (auto simp: in_range_def split: if_splits)
    have i: "idx < length rs - 1" using Suc.prems(1) by simp
    have "rv_start (rs ! Suc idx) - key < 2 ^ 63"
      using cmp [of "rv_start (rs ! Suc idx)" key] k b below by simp
    moreover have "key - rv_end (rs ! idx) < 2 ^ 63 \<longleftrightarrow> rv_end (rs ! idx) \<le> key"
      using cmp [of key "rv_end (rs ! idx)"] k b i by simp
    moreover have "key - rv_end (rs ! idx) > 0 \<longleftrightarrow> key \<noteq> rv_end (rs ! idx)"
      "rv_start (rs ! Suc idx) - key > 0"
      using below by (auto simp: word_neq_0_conv [symmetric])
    ultimately have step: "getValueLoop (2 ^ 63) rs (Suc (Suc idx)) key =
        (if rv_end (rs ! idx) < key then Inl errKeyExcluded
         else getValueLoop (2 ^ 63) rs (Suc idx) key)"
      using s1 below by (simp del: getValueLoop.simps(2) add: getValueLoop.simps(2) [of _ _ "Suc idx"])
        (auto simp: order_less_le)
    show ?thesis
    proof (cases "rv_end (rs ! idx) < key")
      case True
      then show ?thesis
        using step find_in_gap [OF ord, of "Suc idx" key] Suc.prems(1) below by simp
    next
      case False
      then show ?thesis using step Suc.IH i by simp
    qed
  qed
qed

lemma GetValue_lookup:
  assumes "rm_inv r" "rm_span r"
  shows "GetValue r key = rm_lookup (ranges r) key"
proof -
  obtain n where n: "length (ranges r) = Suc n" and ne: "ranges r \<noteq> []"
    using assms by (cases "ranges r") (auto simp: rm_inv_def)
  have ends: "hd (ranges r) = ranges r ! 0" "last (ranges r) = ranges r ! n"
    using ne n by (simp_all add: hd_conv_nth last_conv_nth)
  show ?thesis
  proof (cases "rv_start (hd (ranges r)) \<le> key \<and> key < rv_start (last (ranges r))")
    case True
    then have "getValueLoop (2 ^ 63) (ranges r) (Suc n) key =
        (case find (in_range key) (butlast (ranges r)) of
           Some rv \<Rightarrow> Inr (rv_value rv) | None \<Rightarrow> Inl errKeyExcluded)"
      using assms n ends by (intro getValueLoop_correct) (auto simp: rm_inv_def rm_span_def)
    then show ?thesis
      using True assms n ends
      by (auto simp: GetValue_def rm_lookup_def rm_inv_def Let_def simp del: getValueLoop.simps)
  next
    case False
    then show ?thesis
      using n ends by (auto simp: GetValue_def rm_lookup_def Let_def not_le)
  qed
qed

subsection \<open>Constructors and pruning\<close>

abbreviation open_start :: "RangeMap \<Rightarrow> u64" where
  "open_start r \<equiv> rv_start (last (ranges r))"

abbreviation open_value :: "RangeMap \<Rightarrow> u64" where
  "open_value r \<equiv> rv_value (last (ranges r))"

abbreviation oldest_start :: "RangeMap \<Rightarrow> u64" where
  "oldest_start r \<equiv> rv_start (hd (ranges r))"

lemma NewRangeMap_inv: "rm_inv (NewRangeMap sz) \<and> rm_span (NewRangeMap sz)"
  by (auto simp: NewRangeMap_def initRanges_def minRanges_def rm_inv_def rm_span_def)

lemma ClearAndResetValue_inv:
  "rm_inv r \<Longrightarrow> rm_inv (ClearAndResetValue r k v) \<and> rm_span (ClearAndResetValue r k v)"
  by (auto simp: ClearAndResetValue_def initRanges_def rm_inv_def rm_span_def)

lemma prune_simps [simp]:
  "halfRange (prune r) = halfRange r" "rm_size (prune r) = rm_size r"
  by (simp_all add: prune_def)

lemma ranges_prune: "\<exists>n. ranges (prune r) = drop n (ranges r) \<and> (ranges r \<noteq> [] \<longrightarrow> n < length (ranges r))"
  by (cases "length (ranges r) > rm_size r + 1")
    (auto simp: prune_def intro: exI [of _ "length (ranges r) - rm_size r - 1"] exI [of _ "0::nat"])

lemma length_prune: "length (ranges (prune r)) \<le> rm_size r + 1"
  by (auto simp: prune_def)

lemma last_prune [simp]: "ranges r \<noteq> [] \<Longrightarrow> last (ranges (prune r)) = last (ranges r)"
  using ranges_prune [of r] by (auto simp: last_drop)

lemma prune_inv:
  assumes "ranges r \<noteq> []" "halfRange r = 2 ^ 63" "1 \<le> rm_size r"
    "successively ordered_pair (ranges r)"
  shows "rm_inv (prune r)"
  using assms ranges_prune [of r] length_prune [of r] by (auto simp: rm_inv_def successively_drop)

text \<open>Forgetting old ranges only turns lookups before the oldest remaining start into misses.\<close>

lemma rm_lookup_drop:
  assumes ord: "successively ordered_pair rs" and n: "n < length rs"
  shows "rm_lookup (drop n rs) k =
    (if k < rv_start (hd (drop n rs)) then Inl errKeyTooOld else rm_lookup rs k)"
proof -
  have ne: "rs \<noteq> []" using n by auto
  have h: "hd (drop n rs) = rs ! n" "hd rs = rs ! 0" and l: "last (drop n rs) = last rs"
    using n ne by (auto simp: hd_drop_conv_nth hd_conv_nth last_drop)
  have mono: "rv_start (rs ! 0) \<le> rv_start (rs ! n)" "rv_start (rs ! n) \<le> rv_start (last rs)"
    using ordered_start_mono [OF ord, of 0 n] ordered_start_mono [OF ord, of n "length rs - 1"] n ne
    by (simp_all add: last_conv_nth)
  have "find (in_range k) (butlast (drop n rs)) = find (in_range k) (butlast rs)"
    if k: "rv_start (rs ! n) \<le> k"
  proof -
    have "\<not> in_range k (rs ! i)" if "i < n" for i
      using ordered_nth [OF ord that n] k by (auto simp: in_range_def)
    then have "find (in_range k) (take n (butlast rs)) = None"
      by (auto simp: find_None_iff in_set_conv_nth nth_butlast)
    then have "find (in_range k) (take n (butlast rs) @ drop n (butlast rs)) =
        find (in_range k) (drop n (butlast rs))"
      by (simp only: find_append option.case)
    then show ?thesis by (simp add: butlast_drop)
  qed
  then show ?thesis using mono by (auto simp: rm_lookup_def h l)
qed

lemma rm_lookup_prune:
  assumes "successively ordered_pair (ranges r)" "ranges r \<noteq> []"
  shows "rm_lookup (ranges (prune r)) k =
    (if k < oldest_start (prune r) then Inl errKeyTooOld else rm_lookup (ranges r) k)"
  using ranges_prune [of r] assms by (auto simp: rm_lookup_drop)

subsection \<open>Closing the open range\<close>

lemma find_front_None:
  assumes ord: "successively ordered_pair (front @ [x])" and k: "rv_start x \<le> k"
  shows "find (in_range k) front = None"
proof -
  have "\<not> in_range k (front ! i)" if "i < length front" for i
    using ordered_nth [OF ord that] that k by (auto simp: in_range_def nth_append)
  then show ?thesis by (auto simp: find_None_iff in_set_conv_nth)
qed

lemma ordered_replace_last:
  assumes "successively ordered_pair (front @ [x])" "rv_start x \<le> rv_start y"
  shows "successively ordered_pair (front @ [y])"
  using assms by (cases front rule: rev_cases)
    (auto simp: successively_append_iff ordered_pair_def dest: less_le_trans)

lemma rm_lookup_close:
  assumes ord: "successively ordered_pair (front @ [lr])"
    and c: "rv_start lr \<le> e" and o: "e < rv_start b"
  shows "successively ordered_pair (front @ [lr\<lparr>rv_end := e\<rparr>, b])"
    and "rm_lookup (front @ [lr\<lparr>rv_end := e\<rparr>, b]) k =
      (if rv_start b \<le> k then Inr (rv_value b)
       else if e < k then Inl errKeyExcluded
       else rm_lookup (front @ [lr]) k)"
proof -
  show ord': "successively ordered_pair (front @ [lr\<lparr>rv_end := e\<rparr>, b])"
    using ordered_replace_last [OF ord, of "lr\<lparr>rv_end := e\<rparr>"] c o
    by (simp add: successively_snoc ordered_pair_def)
  have h: "rv_start (hd (front @ [lr\<lparr>rv_end := e\<rparr>, b])) = rv_start (hd (front @ [lr]))"
    by (cases front) auto
  have "rv_start (hd (front @ [lr])) \<le> rv_start lr"
    using ordered_start_mono [OF ord, of 0 "length front"] by (cases front) (auto simp: nth_append)
  then show "rm_lookup (front @ [lr\<lparr>rv_end := e\<rparr>, b]) k =
      (if rv_start b \<le> k then Inr (rv_value b)
       else if e < k then Inl errKeyExcluded
       else rm_lookup (front @ [lr]) k)"
    using c o find_front_None [OF ord, of k] find_front_None [OF ord]
    by (auto simp: rm_lookup_def h butlast_append find_append in_range_def not_le not_less
        split: option.splits)
qed

subsection \<open>Effect of the update operations on lookups\<close>

lemma rm_inv_split:
  assumes "rm_inv r"
  obtains front lr where "ranges r = front @ [lr]" "successively ordered_pair (front @ [lr])"
    "halfRange r = 2 ^ 63" "1 \<le> rm_size r" "length front \<le> rm_size r"
proof -
  have "ranges r = butlast (ranges r) @ [last (ranges r)]"
    using assms by (simp add: rm_inv_def)
  then show ?thesis
    using that [of "butlast (ranges r)" "last (ranges r)"] assms by (auto simp: rm_inv_def)
qed

lemma rm_lookup_open: "open_start r \<le> k \<Longrightarrow> rm_lookup (ranges r) k = Inr (open_value r)"
  by (simp add: rm_lookup_def)

lemma rm_lookup_raise_start:
  assumes ord: "successively ordered_pair (front @ [lr])" and e: "rv_start lr < rv_start b"
  shows "rm_lookup (front @ [b]) k =
    (if rv_start b \<le> k then Inr (rv_value b)
     else if k < rv_start (hd (front @ [b])) then Inl errKeyTooOld
     else if rv_start lr \<le> k then Inl errKeyExcluded
     else rm_lookup (front @ [lr]) k)"
  using e find_front_None [OF ord, of k]
  by (cases front) (auto simp: rm_lookup_def butlast_append)

lemma ExcludeRange_ok_iff:
  assumes "rm_inv r" "s < e"
  shows "(\<exists>r'. ExcludeRange r s e = Inr r') \<longleftrightarrow> e - s \<le> 2 ^ 63 \<and> open_start r \<le> s"
  using assms by (auto simp: ExcludeRange_def Let_def rm_inv_def not_less)

lemma ExcludeRange_lookup:
  assumes inv: "rm_inv r" and se: "s < e" and ok: "ExcludeRange r s e = Inr r'"
  shows "rm_inv r'" and "open_start r' = e" and "open_value r' = open_value r + (e - s)"
    and "rm_lookup (ranges r') k =
      (if e \<le> k then Inr (open_value r + (e - s))
       else if k < oldest_start r' then Inl errKeyTooOld
       else if s \<le> k then Inl errKeyExcluded
       else rm_lookup (ranges r) k)"
proof -
  obtain front lr where r: "ranges r = front @ [lr]" and ord: "successively ordered_pair (front @ [lr])"
    and size: "halfRange r = 2 ^ 63" "1 \<le> rm_size r" "length front \<le> rm_size r"
    using inv by (rule rm_inv_split)
  have le: "rv_start lr \<le> s" using ok se r by (auto simp: ExcludeRange_def Let_def split: if_splits)
  let ?nv = "rv_value lr + (e - s)"
  have "rm_inv r' \<and> open_start r' = e \<and> open_value r' = ?nv \<and> rm_lookup (ranges r') k =
      (if e \<le> k then Inr ?nv else if k < oldest_start r' then Inl errKeyTooOld
       else if s \<le> k then Inl errKeyExcluded else rm_lookup (ranges r) k)"
  proof (cases "rv_start lr = s")
    case True
    define b where "b = lr\<lparr>rv_start := e, rv_value := ?nv\<rparr>"
    have r': "r' = r\<lparr>ranges := front @ [b]\<rparr>"
      using ok se r True by (auto simp: ExcludeRange_def Let_def b_def split: if_splits)
    have "successively ordered_pair (front @ [b])"
      using ord by (rule ordered_replace_last) (use se le in \<open>simp add: b_def\<close>)
    then show ?thesis
      using rm_lookup_raise_start [OF ord, of b k] se True r size
      by (auto simp: r' b_def rm_inv_def)
  next
    case False
    define b where "b = \<lparr>rv_start = e, rv_end = 0, rv_value = ?nv\<rparr>"
    define q where "q = r\<lparr>ranges := front @ [lr\<lparr>rv_end := s - 1\<rparr>, b]\<rparr>"
    have r': "r' = prune q"
      using ok se r False by (auto simp: ExcludeRange_def Let_def b_def q_def split: if_splits)
    have c: "rv_start lr \<le> s - 1" "s - 1 < rv_start b" "s - 1 < k \<longleftrightarrow> s \<le> k"
      using le False se by (auto simp: b_def word_nat split: if_splits)
    note cl = rm_lookup_close [OF ord c(1,2)]
    have "rm_inv (prune q)" using cl(1) size by (intro prune_inv) (auto simp: q_def)
    moreover have "rm_lookup (ranges (prune q)) k =
        (if k < oldest_start (prune q) then Inl errKeyTooOld else rm_lookup (ranges q) k)"
      using cl(1) by (intro rm_lookup_prune) (auto simp: q_def)
    moreover have "open_start (prune q) = e" "open_value (prune q) = ?nv"
      by (simp_all add: q_def b_def)
    moreover have "oldest_start (prune q) \<le> e"
      using calculation(1,3) ordered_start_mono [of "ranges (prune q)" 0 "length (ranges (prune q)) - 1"]
      by (auto simp: rm_inv_def hd_conv_nth last_conv_nth)
    ultimately show ?thesis
      using cl(2) [of k] c(3) r by (auto simp: r' q_def b_def)
  qed
  then show "rm_inv r'" and "open_start r' = e" and "open_value r' = open_value r + (e - s)"
    and "rm_lookup (ranges r') k =
      (if e \<le> k then Inr (open_value r + (e - s))
       else if k < oldest_start r' then Inl errKeyTooOld
       else if s \<le> k then Inl errKeyExcluded
       else rm_lookup (ranges r) k)"
    using r by simp_all
qed

lemma oldest_le_open: "rm_inv r \<Longrightarrow> oldest_start r \<le> open_start r"
  using ordered_start_mono [of "ranges r" 0 "length (ranges r) - 1"]
  by (auto simp: rm_inv_def hd_conv_nth last_conv_nth)

lemma DecValue_lookup:
  fixes r :: RangeMap and "end" dec :: u64
  assumes inv: "rm_inv r" and top: "end \<noteq> - 1"
  defines "r' \<equiv> DecValue r end dec"
  shows "rm_inv r'" and "open_start r' = max (open_start r) (end + 1)"
    and "open_value r' = open_value r - dec"
    and "rm_lookup (ranges r') k =
      (if end < k \<and> open_start r \<le> k then Inr (open_value r - dec)
       else if k < oldest_start r' then Inl errKeyTooOld
       else rm_lookup (ranges r) k)"
proof -
  obtain front lr where r: "ranges r = front @ [lr]" and ord: "successively ordered_pair (front @ [lr])"
    and size: "halfRange r = 2 ^ 63" "1 \<le> rm_size r" "length front \<le> rm_size r"
    using inv by (rule rm_inv_split)
  have t: "end < end + 1" and t1: "end + 1 \<le> j \<longleftrightarrow> end < j" for j
    using top inc_less_eq_iff [of "end" "end + 1"] by (simp_all add: inc_less_eq_iff)
  have "rm_inv r' \<and> open_start r' = max (rv_start lr) (end + 1) \<and> open_value r' = rv_value lr - dec \<and>
      rm_lookup (ranges r') k =
      (if end < k \<and> rv_start lr \<le> k then Inr (rv_value lr - dec)
       else if k < oldest_start r' then Inl errKeyTooOld else rm_lookup (ranges r) k)"
  proof (cases "rv_start lr > end")
    case True
    define b where "b = lr\<lparr>rv_value := rv_value lr - dec\<rparr>"
    have r': "r' = r\<lparr>ranges := front @ [b]\<rparr>" using True r by (simp add: r'_def DecValue_def b_def)
    have "successively ordered_pair (front @ [b])"
      using ord by (rule ordered_replace_last) (simp add: b_def)
    then show ?thesis
      using True size r t1 [of "rv_start lr"] find_front_None [OF ord, of k]
      by (cases front) (auto simp: r' b_def rm_inv_def rm_lookup_def butlast_append max_def)
  next
    case False
    define b where "b = \<lparr>rv_start = end + 1, rv_end = 0, rv_value = rv_value lr - dec\<rparr>"
    define q where "q = r\<lparr>ranges := front @ [lr\<lparr>rv_end := end\<rparr>, b]\<rparr>"
    have r': "r' = prune q" using False r by (simp add: r'_def DecValue_def Let_def q_def b_def)
    have c: "rv_start lr \<le> end" "end < rv_start b" using False t by (auto simp: b_def)
    note cl = rm_lookup_close [OF ord c]
    have i: "rm_inv (prune q)" using cl(1) size by (intro prune_inv) (auto simp: q_def)
    have "rm_lookup (ranges (prune q)) k =
        (if k < oldest_start (prune q) then Inl errKeyTooOld else rm_lookup (ranges q) k)"
      using cl(1) by (intro rm_lookup_prune) (auto simp: q_def)
    moreover have "open_start (prune q) = end + 1" "open_value (prune q) = rv_value lr - dec"
      by (simp_all add: q_def b_def)
    moreover have "oldest_start (prune q) \<le> end + 1"
      using oldest_le_open [OF i] calculation(2) by simp
    ultimately show ?thesis
      using cl(2) [of k] c t t1 [of k] i r
      by (auto simp: r' q_def b_def max_def not_less dest: order.strict_trans2)
  qed
  then show "rm_inv r'" and "open_start r' = max (open_start r) (end + 1)"
    and "open_value r' = open_value r - dec"
    and "rm_lookup (ranges r') k =
      (if end < k \<and> open_start r \<le> k then Inr (open_value r - dec)
       else if k < oldest_start r' then Inl errKeyTooOld
       else rm_lookup (ranges r) k)"
    using r by simp_all
qed

subsection \<open>Order of the translated keys\<close>

text \<open>
  The clients translate a key \<open>k\<close> to \<open>k - GetValue k\<close>. \<open>rm_mono\<close> says that translated keys grow
  along the ranges; it is kept as long as the translated numbers do not pass the end of
  \<open>uint64\<close>.
\<close>

definition out_pair :: "rangeVal \<Rightarrow> rangeVal \<Rightarrow> bool" where
  "out_pair a b \<longleftrightarrow> rv_start a - rv_value a \<le> rv_end a - rv_value a \<and>
     rv_end a - rv_value a < rv_start b - rv_value b"

definition rm_mono :: "RangeMap \<Rightarrow> bool" where
  "rm_mono r \<longleftrightarrow> successively out_pair (ranges r)"

lemma out_pair_cong: "rv_start y - rv_value y = rv_start x - rv_value x \<Longrightarrow> out_pair a y = out_pair a x"
  by (simp add: out_pair_def)

lemma out_mono_replace_last:
  assumes "successively out_pair (front @ [x])" "rv_start x - rv_value x \<le> rv_start y - rv_value y"
  shows "successively out_pair (front @ [y])"
  using assms by (cases front rule: rev_cases)
    (auto simp: successively_append_iff out_pair_def dest: less_le_trans)

lemma out_mono_nth:
  assumes ord: "successively out_pair rs" "i < j" "j < length rs"
  shows "rv_end (rs ! i) - rv_value (rs ! i) < rv_start (rs ! j) - rv_value (rs ! j)"
  using assms(2,3)
proof (induction j)
  case (Suc j)
  have step: "out_pair (rs ! j) (rs ! Suc j)"
    using successively_nthD [OF ord(1) Suc.prems(2)] .
  show ?case
  proof (cases "i = j")
    case False
    with Suc have "rv_end (rs ! i) - rv_value (rs ! i) < rv_start (rs ! j) - rv_value (rs ! j)"
      by simp
    with step show ?thesis unfolding out_pair_def by (meson less_le_trans less_trans le_less_trans)
  qed (use step in \<open>simp add: out_pair_def\<close>)
qed simp

text \<open>Shifting an ordered interval that does not wrap keeps its order.\<close>

lemma shift_order:
  fixes a b c v :: u64
  assumes "a \<le> b" "b \<le> c" "a - v \<le> c - v"
  shows "a - v \<le> b - v" "b - v \<le> c - v" "a < b \<Longrightarrow> a - v < b - v" "b < c \<Longrightarrow> b - v < c - v"
  using assms u64_lt [of a] u64_lt [of b] u64_lt [of c] u64_lt [of v]
  by (auto simp: word_nat split: if_splits)

lemma rm_mono_drop: "rm_mono r \<Longrightarrow> rm_mono (prune r)"
  using ranges_prune [of r] by (auto simp: rm_mono_def successively_drop)

lemma ExcludeRange_mono:
  assumes inv: "rm_inv r" and mono: "rm_mono r" and se: "s < e" and ok: "ExcludeRange r s e = Inr r'"
    and nw: "open_start r - open_value r \<le> s - open_value r"
  shows "rm_mono r'"
proof -
  obtain front lr where r: "ranges r = front @ [lr]" using inv by (rule rm_inv_split)
  have m: "successively out_pair (front @ [lr])" using mono r by (simp add: rm_mono_def)
  have le: "rv_start lr \<le> s" using ok se r by (auto simp: ExcludeRange_def Let_def split: if_splits)
  show ?thesis
  proof (cases "rv_start lr = s")
    case True
    then have "r' = r\<lparr>ranges := front @ [lr\<lparr>rv_start := e, rv_value := rv_value lr + (e - s)\<rparr>]\<rparr>"
      using ok se r by (auto simp: ExcludeRange_def Let_def split: if_splits)
    then show ?thesis
      using out_mono_replace_last [OF m] True by (simp add: rm_mono_def)
  next
    case False
    have o: "rv_start lr - rv_value lr \<le> s - 1 - rv_value lr" "s - 1 - rv_value lr < s - rv_value lr"
      using shift_order [of "rv_start lr" "s - 1" s "rv_value lr"] le False nw r
      by (auto simp: word_nat split: if_splits)
    define b where "b = \<lparr>rv_start = e, rv_end = 0, rv_value = rv_value lr + (e - s)\<rparr>"
    have r': "r' = prune (r\<lparr>ranges := front @ [lr\<lparr>rv_end := s - 1\<rparr>, b]\<rparr>)"
      using ok se r False by (auto simp: ExcludeRange_def Let_def b_def split: if_splits)
    have "successively out_pair (front @ [lr\<lparr>rv_end := s - 1\<rparr>, b])"
      using out_mono_replace_last [OF m, of "lr\<lparr>rv_end := s - 1\<rparr>"] o
      by (simp add: successively_snoc out_pair_def b_def)
    then show ?thesis unfolding r' by (intro rm_mono_drop) (simp add: rm_mono_def)
  qed
qed

lemma DecValue_mono:
  assumes inv: "rm_inv r" and mono: "rm_mono r" and top: "end \<noteq> - 1"
    and nw: "open_start r - open_value r \<le> max (open_start r) (end + 1) - open_value r"
    and pad: "unat (max (open_start r) (end + 1) - open_value r) + unat dec < 2 ^ 64"
  shows "rm_mono (DecValue r end dec)"
proof -
  obtain front lr where r: "ranges r = front @ [lr]" using inv by (rule rm_inv_split)
  have m: "successively out_pair (front @ [lr])" using mono r by (simp add: rm_mono_def)
  have t: "end < end + 1" and t1: "end + 1 \<le> j \<longleftrightarrow> end < j" for j
    using top inc_less_eq_iff [of "end" "end + 1"] by (simp_all add: inc_less_eq_iff)
  show ?thesis
  proof (cases "rv_start lr > end")
    case True
    then have mx: "max (rv_start lr) (end + 1) = rv_start lr" using t1 by (simp add: max_absorb1)
    have "rv_start lr - rv_value lr \<le> rv_start lr - rv_value lr + dec"
      using pad mx r by (simp add: word_nat)
    then show ?thesis
      using out_mono_replace_last [OF m, of "lr\<lparr>rv_value := rv_value lr - dec\<rparr>"] True r
      by (simp add: rm_mono_def DecValue_def algebra_simps)
  next
    case False
    then have mx: "max (rv_start lr) (end + 1) = end + 1" using t by (intro max_absorb2) simp
    define b where "b = \<lparr>rv_start = end + 1, rv_end = 0, rv_value = rv_value lr - dec\<rparr>"
    have r': "DecValue r end dec = prune (r\<lparr>ranges := front @ [lr\<lparr>rv_end := end\<rparr>, b]\<rparr>)"
      using False r by (simp add: DecValue_def Let_def b_def)
    have o: "rv_start lr - rv_value lr \<le> end - rv_value lr" "end - rv_value lr < end + 1 - rv_value lr"
      using shift_order [of "rv_start lr" "end" "end + 1" "rv_value lr"] False t nw mx r by auto
    moreover have "end + 1 - rv_value lr \<le> end + 1 - rv_value lr + dec"
      using pad mx r by (simp add: word_nat)
    ultimately have "out_pair (lr\<lparr>rv_end := end\<rparr>) b"
      by (simp add: out_pair_def b_def diff_diff_eq2 diff_add_eq)
    then have "successively out_pair (front @ [lr\<lparr>rv_end := end\<rparr>, b])"
      using out_mono_replace_last [OF m, of "lr\<lparr>rv_end := end\<rparr>"] by (simp add: successively_snoc)
    then show ?thesis unfolding r' by (intro rm_mono_drop) (simp add: rm_mono_def)
  qed
qed

text \<open>A successful lookup is decided by one range, identified by its index.\<close>

lemma rm_lookup_Inr:
  assumes "rs \<noteq> []" "rm_lookup rs k = Inr v"
  obtains i where "i < length rs" "v = rv_value (rs ! i)" "rv_start (rs ! i) \<le> k"
    "i = length rs - 1 \<or> k \<le> rv_end (rs ! i)"
proof (cases "rv_start (last rs) \<le> k")
  case True
  then show ?thesis
    using that [of "length rs - 1"] assms by (auto simp: rm_lookup_def last_conv_nth)
next
  case False
  then obtain rv where f: "find (in_range k) (butlast rs) = Some rv" and v: "v = rv_value rv"
    using assms by (auto simp: rm_lookup_def split: if_splits option.splits)
  then obtain i where "i < length (butlast rs)" "in_range k (butlast rs ! i)" "rv = butlast rs ! i"
    by (auto simp: find_Some_iff)
  then show ?thesis
    using that [of i] v by (auto simp: in_range_def nth_butlast)
qed

lemma translated_order:
  assumes inv: "rm_inv r" and mono: "rm_mono r" and lt: "k1 < k2"
    and l1: "rm_lookup (ranges r) k1 = Inr v1" and l2: "rm_lookup (ranges r) k2 = Inr v2"
    and nw: "open_start r \<le> k2 \<Longrightarrow> open_start r - open_value r \<le> k2 - open_value r"
  shows "k1 - v1 < k2 - v2"
proof -
  let ?rs = "ranges r"
  have ne: "?rs \<noteq> []" and ord: "successively ordered_pair ?rs" and out: "successively out_pair ?rs"
    using inv mono by (auto simp: rm_inv_def rm_mono_def)
  obtain i where i: "i < length ?rs" "v1 = rv_value (?rs ! i)" "rv_start (?rs ! i) \<le> k1"
    "i = length ?rs - 1 \<or> k1 \<le> rv_end (?rs ! i)" using rm_lookup_Inr [OF ne l1] .
  obtain j where j: "j < length ?rs" "v2 = rv_value (?rs ! j)" "rv_start (?rs ! j) \<le> k2"
    "j = length ?rs - 1 \<or> k2 \<le> rv_end (?rs ! j)" using rm_lookup_Inr [OF ne l2] .
  have top: "\<exists>t. k2 \<le> t \<and> rv_start (?rs ! j) - v2 \<le> t - v2"
  proof (cases "j = length ?rs - 1")
    case True
    then show ?thesis using nw j ne by (auto simp: last_conv_nth)
  next
    case False
    then have "out_pair (?rs ! j) (?rs ! Suc j)"
      using successively_nthD [OF out, of j] j(1) by simp
    then show ?thesis using j False by (auto simp: out_pair_def)
  qed
  then have s2: "rv_start (?rs ! j) - v2 \<le> k2 - v2" using shift_order(1) j(3) by blast
  show ?thesis
  proof (cases i j rule: linorder_cases)
    case less
    then have i': "i \<noteq> length ?rs - 1" using j(1) by simp
    then have "out_pair (?rs ! i) (?rs ! Suc i)"
      using successively_nthD [OF out, of i] i(1) by simp
    then have "k1 - v1 \<le> rv_end (?rs ! i) - v1"
      using shift_order(2) [of "rv_start (?rs ! i)" k1 "rv_end (?rs ! i)" v1] i i'
      by (auto simp: out_pair_def)
    also have "\<dots> < rv_start (?rs ! j) - v2" using out_mono_nth [OF out less j(1)] i j by simp
    finally show ?thesis using s2 by simp
  next
    case equal
    then show ?thesis
      using shift_order(4) [of "rv_start (?rs ! j)" k1 k2 v2] s2 i j lt by simp
  next
    case greater
    then have "k2 \<le> rv_end (?rs ! j)" using i(1) j(4) by auto
    also have "\<dots> < rv_start (?rs ! i)" using ordered_nth [OF ord greater i(1)] by simp
    finally show ?thesis using i(3) lt by simp
  qed
qed

section \<open>Interface for the clients\<close>

text \<open>
  The RTP munger and the sequencer only append to the map: they look at keys in its open
  tail, exclude the newest keys and lower the tail's value. These are the laws they use.
\<close>

locale offset_map =
  fixes inv :: "'m \<Rightarrow> bool"
    and lookup :: "'m \<Rightarrow> u64 \<Rightarrow> rangeMapErr + u64"
    and reset :: "'m \<Rightarrow> u64 \<Rightarrow> u64 \<Rightarrow> 'm"
    and exclude :: "'m \<Rightarrow> u64 \<Rightarrow> u64 \<Rightarrow> rangeMapErr + 'm"
    and lower :: "'m \<Rightarrow> u64 \<Rightarrow> u64 \<Rightarrow> 'm"
    and tail_from :: "'m \<Rightarrow> u64"
    and tail_val :: "'m \<Rightarrow> u64"
  assumes reset_tail: "inv m \<Longrightarrow> inv (reset m k v) \<and> tail_from (reset m k v) = k \<and> tail_val (reset m k v) = v"
    and lookup_tail: "inv m \<Longrightarrow> tail_from m \<le> k \<Longrightarrow> lookup m k = Inr (tail_val m)"
    and exclude_ok: "inv m \<Longrightarrow> s < e \<Longrightarrow> e - s \<le> 2 ^ 63 \<Longrightarrow> tail_from m \<le> s \<Longrightarrow> \<exists>m'. exclude m s e = Inr m'"
    and exclude_tail: "inv m \<Longrightarrow> s < e \<Longrightarrow> exclude m s e = Inr m' \<Longrightarrow>
      inv m' \<and> tail_from m' = e \<and> tail_val m' = tail_val m + (e - s)"
    and lower_tail: "inv m \<Longrightarrow> h \<noteq> - 1 \<Longrightarrow>
      inv (lower m h d) \<and> tail_from (lower m h d) = max (tail_from m) (h + 1) \<and>
      tail_val (lower m h d) = tail_val m - d"
begin

lemma exclude_one:
  assumes "inv m" "tail_from m \<le> h" "h \<noteq> - 1"
  obtains m' where "exclude m h (h + 1) = Inr m'" "inv m'" "tail_from m' = h + 1"
    "tail_val m' = tail_val m + 1" "lookup m' (h + 1) = Inr (tail_val m + 1)"
proof -
  have lt: "h < h + 1" using assms(3) inc_less_eq_iff [of h "h + 1"] by simp
  obtain m' where m': "exclude m h (h + 1) = Inr m'"
    using exclude_ok [OF assms(1) lt _ assms(2)] by auto
  show ?thesis using that [OF m'] exclude_tail [OF assms(1) lt m'] lookup_tail [of m' "h + 1"] by simp
qed

lemma lower_lookup:
  assumes "inv m" "tail_from m \<le> h + 1" "h \<noteq> - 1"
  shows "lookup (lower m h d) (h + 1) = Inr (tail_val m - d)"
  using lower_tail [OF assms(1,3), of d] lookup_tail [of "lower m h d" "h + 1"] assms(2)
  by (simp add: max_absorb2)

end

interpretation rm: offset_map rm_inv GetValue ClearAndResetValue ExcludeRange DecValue
  "\<lambda>r. open_start r" "\<lambda>r. open_value r"
proof unfold_locales
  fix m k v assume "rm_inv m"
  then show "rm_inv (ClearAndResetValue m k v) \<and> open_start (ClearAndResetValue m k v) = k \<and>
      open_value (ClearAndResetValue m k v) = v"
    using ClearAndResetValue_inv [of m k v] by (simp add: ClearAndResetValue_def initRanges_def)
next
  fix m k assume "rm_inv m" "open_start m \<le> k"
  then show "GetValue m k = Inr (open_value m)"
    by (auto simp: GetValue_def rm_inv_def Let_def last_conv_nth)
next
  fix m s e assume "rm_inv m" "s < e" "e - s \<le> 2 ^ 63" "open_start m \<le> s"
  then show "\<exists>m'. ExcludeRange m s e = Inr m'" using ExcludeRange_ok_iff by blast
next
  fix m s e m' assume "rm_inv m" "s < e" "ExcludeRange m s e = Inr m'"
  then show "rm_inv m' \<and> open_start m' = e \<and> open_value m' = open_value m + (e - s)"
    using ExcludeRange_lookup by blast
next
  fix m and h d :: u64 assume "rm_inv m" "h \<noteq> - 1"
  then show "rm_inv (DecValue m h d) \<and> open_start (DecValue m h d) = max (open_start m) (h + 1) \<and>
      open_value (DecValue m h d) = open_value m - d"
    using DecValue_lookup by blast
qed

section \<open>Reachable maps\<close>

text \<open>
  The states a map can reach from its constructor. The guards say that the caller excludes a
  proper range and that translated keys stay within \<open>uint64\<close>.
\<close>

inductive rm_step :: "RangeMap \<Rightarrow> RangeMap \<Rightarrow> bool" where
  reset: "rm_step r (ClearAndResetValue r k v)"
| exclude: "s < e \<Longrightarrow> ExcludeRange r s e = Inr r' \<Longrightarrow>
     open_start r - open_value r \<le> s - open_value r \<Longrightarrow> rm_step r r'"
| dec: "h \<noteq> - 1 \<Longrightarrow>
     open_start r - open_value r \<le> max (open_start r) (h + 1) - open_value r \<Longrightarrow>
     unat (max (open_start r) (h + 1) - open_value r) + unat d < 2 ^ 64 \<Longrightarrow>
     rm_step r (DecValue r h d)"

inductive rm_reachable :: "RangeMap \<Rightarrow> bool" where
  new: "rm_reachable (NewRangeMap sz)"
| step: "rm_reachable r \<Longrightarrow> rm_step r r' \<Longrightarrow> rm_reachable r'"

lemma rm_step_inv: "rm_step r r' \<Longrightarrow> rm_inv r \<Longrightarrow> rm_mono r \<Longrightarrow> rm_inv r' \<and> rm_mono r'"
proof (induction rule: rm_step.induct)
  case (reset r k v)
  then show ?case
    by (simp add: rm.reset_tail rm_mono_def ClearAndResetValue_def initRanges_def rm_inv_def)
next
  case (exclude s e r r')
  then show ?case using rm.exclude_tail ExcludeRange_mono by blast
next
  case (dec h r d)
  then show ?case using rm.lower_tail DecValue_mono by blast
qed

lemma rm_reachable_inv: "rm_reachable r \<Longrightarrow> rm_inv r \<and> rm_mono r"
proof (induction rule: rm_reachable.induct)
  case (new sz)
  show ?case using NewRangeMap_inv [of sz]
    by (simp add: rm_mono_def NewRangeMap_def initRanges_def)
qed (use rm_step_inv in blast)

text \<open>A concrete run for the witnesses: offset 3 from key 10 on, then 20 to 24 excluded.\<close>

definition rm_demo0 :: RangeMap where
  "rm_demo0 = ClearAndResetValue (NewRangeMap 100) 10 3"

definition rm_demo1 :: RangeMap where
  "rm_demo1 = \<lparr>halfRange = push_bit 63 1, rm_size = 100,
     ranges = [\<lparr>rv_start = 10, rv_end = 19, rv_value = 3\<rparr>, \<lparr>rv_start = 25, rv_end = 0, rv_value = 8\<rparr>]\<rparr>"

lemma rm_demo_exclude: "ExcludeRange rm_demo0 20 25 = Inr rm_demo1"
  by (simp add: rm_demo0_def rm_demo1_def NewRangeMap_def minRanges_def initRanges_def
      ClearAndResetValue_def ExcludeRange_def prune_def)

lemma rm_demo_reachable: "rm_reachable rm_demo0" "rm_reachable rm_demo1"
proof -
  show r0: "rm_reachable rm_demo0"
    unfolding rm_demo0_def by (rule rm_reachable.step [OF rm_reachable.new rm_step.reset])
  have "(20 :: u64) < 25" by simp
  moreover have "open_start rm_demo0 - open_value rm_demo0 \<le> 20 - open_value rm_demo0"
    by (simp add: rm_demo0_def ClearAndResetValue_def initRanges_def)
  ultimately have "rm_step rm_demo0 rm_demo1"
    using rm_demo_exclude by (intro rm_step.exclude)
  then show "rm_reachable rm_demo1" by (rule rm_reachable.step [OF r0])
qed

lemma rm_demo_span: "rm_span rm_demo0" "rm_span rm_demo1"
  by (simp_all add: rm_span_def rm_demo0_def rm_demo1_def ClearAndResetValue_def initRanges_def)

section \<open>Properties\<close>

text \<open>
  On every reachable map whose remembered window spans less than half of the key space,
  \<open>GetValue\<close> computes the abstract lookup (the value of the one range that holds the key, "too
  old" before the first range, "excluded" in a gap), although it compares keys by wrapping
  subtraction; it never answers \<open>errKeyNotFound\<close>.
\<close>

theorem GetValue_refines_lookup:
  assumes "rm_reachable r" "rm_span r"
  shows "GetValue r key = rm_lookup (ranges r) key \<and> GetValue r key \<noteq> Inl errKeyNotFound \<and>
    length (ranges r) \<le> rm_size r + 1"
  using GetValue_lookup [of r key] rm_reachable_inv [of r] assms
  by (auto simp: rm_lookup_def rm_inv_def split: option.splits)

theorem GetValue_refines_lookup_witness:
  "rm_span rm_demo1 \<and> GetValue rm_demo1 22 = rm_lookup (ranges rm_demo1) 22 \<and>
    GetValue rm_demo1 22 = Inl errKeyExcluded"
  using GetValue_refines_lookup [OF rm_demo_reachable(2) rm_demo_span(2), of 22] rm_demo_span(2)
  by (simp add: rm_lookup_def rm_demo1_def in_range_def)

text \<open>
  Excluding \<open>[s, e)\<close> from a reachable map raises the offset of every later key by the size
  of the excluded range, makes the excluded keys fail, and leaves the lookups of earlier keys
  unchanged unless their range was pruned (then they are too old).
\<close>

theorem ExcludeRange_effect:
  assumes "rm_reachable r" "rm_span r" "rm_span r'" "s < e" "ExcludeRange r s e = Inr r'"
  shows "\<exists>v. GetValue r s = Inr v \<and>
    (\<forall>k. GetValue r' k =
      (if e \<le> k then Inr (v + (e - s))
       else if k < rv_start (hd (ranges r')) then Inl errKeyTooOld
       else if s \<le> k then Inl errKeyExcluded
       else GetValue r k))"
proof -
  have inv: "rm_inv r" using rm_reachable_inv assms(1) by blast
  note ex = ExcludeRange_lookup [OF inv assms(4,5)]
  have "open_start r \<le> s" using ExcludeRange_ok_iff [OF inv assms(4)] assms(5) by blast
  then have "GetValue r s = Inr (open_value r)" by (rule rm.lookup_tail [OF inv])
  then show ?thesis
    using ex(4) GetValue_lookup [OF inv assms(2)] GetValue_lookup [OF ex(1) assms(3)] by simp
qed

theorem ExcludeRange_effect_witness:
  "ExcludeRange rm_demo0 20 25 = Inr rm_demo1 \<and> (\<exists>v. GetValue rm_demo0 20 = Inr v \<and>
    GetValue rm_demo1 26 = Inr (v + 5) \<and> GetValue rm_demo1 21 = Inl errKeyExcluded)"
  using ExcludeRange_effect [OF rm_demo_reachable(1) rm_demo_span, OF _ rm_demo_exclude]
  by (auto simp: rm_demo_exclude rm_demo1_def)

text \<open>
  Translation by the map is strictly increasing: of two keys that have a value, the larger
  one is translated to the larger number. So no two incoming sequence numbers share an
  outgoing one.
\<close>

theorem translation_strictly_increasing:
  assumes "rm_reachable r" "rm_span r" "k1 < k2"
    and "GetValue r k1 = Inr v1" "GetValue r k2 = Inr v2"
    and "rv_start (last (ranges r)) \<le> k2 \<Longrightarrow>
      rv_start (last (ranges r)) - rv_value (last (ranges r)) \<le> k2 - rv_value (last (ranges r))"
  shows "k1 - v1 < k2 - v2"
proof -
  have inv: "rm_inv r" "rm_mono r" using rm_reachable_inv assms(1) by auto
  show ?thesis
    using translated_order [OF inv assms(3)] assms GetValue_lookup [OF inv(1) assms(2)] by simp
qed

theorem translation_strictly_increasing_witness:
  "GetValue rm_demo1 12 = Inr 3 \<and> GetValue rm_demo1 30 = Inr 8 \<and> (12 :: u64) - 3 < 30 - 8"
proof -
  have v: "GetValue rm_demo1 12 = Inr 3" "GetValue rm_demo1 30 = Inr 8"
    by code_simp+
  have "(12 :: u64) - 3 < 30 - 8"
    by (rule translation_strictly_increasing [OF rm_demo_reachable(2) rm_demo_span(2) _ v])
      (simp_all add: rm_demo1_def)
  with v show ?thesis by simp
qed

end
