(* ===== verification/OffsetTail.thy ===== *)
theory OffsetTail
  imports RangeMap
begin

text \<open>
  The way the RTP munger (\<^verbatim>\<open>pkg/sfu/rtpmunger.go\<close>) and the sequencer
  (\<^verbatim>\<open>pkg/sfu/sequencer.go\<close>) use a range map: beside the map they keep the highest key \<open>h\<close> seen
  and the offset of key \<open>h + 1\<close>. The predicate \<open>mcore\<close> says that the three agree and that
  translated keys do not wrap; the lemmas say which updates keep it.
\<close>

lemma unat_add_u64: "unat a + unat b < 2 ^ 64 \<Longrightarrow> unat (a + b) = unat a + unat b" for a b :: u64
  by (simp add: unat_plus_if')

lemma uint_sum_unat:
  fixes a b :: u64
  assumes "uint a + uint b < 2 ^ 63 - 1"
  shows "unat a + unat b < 2 ^ 63 - 1"
proof -
  have "uint a + uint b < 9223372036854775807" using assms by simp
  then have "unat a + unat b < 9223372036854775807"
    using uint_ge_0 [of a] uint_ge_0 [of b] unfolding unat_eq_nat_uint by linarith
  then show ?thesis by simp
qed

text \<open>
  The range map and the offset cached from it agree, and translated numbers do not wrap: \<open>h\<close> is
  the highest incoming sequence number and \<open>h + 1 - off\<close> the number of the next in-order packet.
\<close>

definition mcore :: "RangeMap \<Rightarrow> u64 \<Rightarrow> u64 \<Rightarrow> bool" where
  "mcore m h off \<longleftrightarrow> rm_reachable m \<and> open_start m \<le> h + 1 \<and> off = open_value m \<and>
     h < 2 ^ 63 - 1 \<and> h + 1 - off \<le> 2 ^ 63 \<and> open_start m - off \<le> h + 1 - off"

lemma mcoreD:
  assumes "mcore m h off"
  shows "rm_inv m" "rm_mono m" "h \<noteq> - 1" "h < h + 1" "GetValue m (h + 1) = Inr off" "rm_span m"
proof -
  show inv: "rm_inv m" "rm_mono m" using assms rm_reachable_inv by (auto simp: mcore_def)
  have h: "unat h < 2 ^ 63 - 1" using assms by (simp add: mcore_def word_less_nat_alt)
  then show "h \<noteq> - 1" by (auto simp: unsigned_minus_1_eq_mask mask_eq_exp_minus_1)
  then show "h < h + 1" using inc_less_eq_iff [of h "h + 1"] by simp
  show "GetValue m (h + 1) = Inr off" using assms rm.lookup_tail [OF inv(1)] by (simp add: mcore_def)
  have "open_start m \<le> h + 1" using assms by (simp add: mcore_def)
  then have "unat (open_start m) < 2 ^ 63" using h by (simp add: word_nat)
  then show "rm_span m" by (simp add: rm_span_def)
qed

lemma mcore_reset:
  assumes "rm_reachable m" "0 < s" "s < 2 ^ 63 - 1" "s - v \<le> 2 ^ 63"
  shows "mcore (ClearAndResetValue m s v) (s - 1) v"
proof -
  have inv: "rm_inv m" using assms(1) rm_reachable_inv by blast
  have "rm_reachable (ClearAndResetValue m s v)"
    by (rule rm_reachable.step [OF assms(1) rm_step.reset])
  moreover have "s - 1 < 2 ^ 63 - 1" using assms(2,3) by (simp add: word_nat)
  ultimately show ?thesis using rm.reset_tail [OF inv, of s v] assms(4) by (simp add: mcore_def)
qed

lemma mcore_advance:
  assumes c: "mcore m h off" and k: "h \<le> k" "unat k + unat (h + 1 - off) < 2 ^ 63 - 1"
  shows "mcore m k off"
proof -
  have le: "open_start m \<le> h + 1" "open_start m - off \<le> h + 1 - off" "unat h < 2 ^ 63 - 1"
    using c unfolding mcore_def word_less_nat_alt by auto
  have hk: "h + 1 \<le> k + 1" using k by (simp add: word_nat)
  moreover have "h + 1 - off \<le> k + 1 - off" and bd: "k + 1 - off \<le> 2 ^ 63"
  proof -
    have e: "k + 1 - off = (h + 1 - off) + (k - h)" by simp
    have "unat (k - h) = unat k - unat h" using k(1) by (rule unat_sub)
    then have "unat (k + 1 - off) = unat (h + 1 - off) + (unat k - unat h)"
      unfolding e using k(2) by (subst unat_add_u64) simp_all
    then show "h + 1 - off \<le> k + 1 - off" "k + 1 - off \<le> 2 ^ 63"
      using k by (simp_all add: word_le_nat_alt)
  qed
  moreover have "k < 2 ^ 63 - 1" using k by (simp add: word_less_nat_alt)
  ultimately show ?thesis using c le by (auto simp: mcore_def)
qed

lemma mcore_exclude_range:
  assumes c: "mcore m h off" and o: "open_start m \<le> s" "s \<le> h"
  obtains m' where "ExcludeRange m s (h + 1) = Inr m'" "mcore m' h (off + (h + 1 - s))"
proof -
  note d = mcoreD [OF c]
  have lt: "s < h + 1" using o d(4) by simp
  have h: "unat h < 2 ^ 63 - 1" using c unfolding mcore_def word_less_nat_alt by simp
  have half: "h + 1 - s \<le> 2 ^ 63" using h lt by (simp add: word_nat)
  obtain m' where m': "ExcludeRange m s (h + 1) = Inr m'"
    using rm.exclude_ok [OF d(1) lt half o(1)] by blast
  note t = rm.exclude_tail [OF d(1) lt m']
  have off: "off = open_value m" and so: "open_start m - off \<le> h + 1 - off" "h + 1 - off \<le> 2 ^ 63"
    using c unfolding mcore_def by blast+
  have nw: "open_start m - off \<le> s - off" "s - off < h + 1 - off"
    using shift_order [OF o(1) less_imp_le [OF lt] so(1)] lt by simp_all
  have "rm_step m m'" using nw m' off lt by (intro rm_step.exclude [of s "h + 1"]) auto
  then have "rm_reachable m'" using c rm_reachable.step by (auto simp: mcore_def)
  moreover have e: "h + 1 - (off + (h + 1 - s)) = s - off" by simp
  moreover have "s - off \<le> 2 ^ 63" using nw(2) so(2) by simp
  ultimately have "mcore m' h (off + (h + 1 - s))" using t off c by (simp add: mcore_def)
  then show ?thesis using that m' by blast
qed

lemma mcore_exclude:
  assumes c: "mcore m h off" and o: "open_start m \<le> h"
  obtains m' where "ExcludeRange m h (h + 1) = Inr m'" "mcore m' h (off + 1)"
  using mcore_exclude_range [OF c o] by auto

text \<open>Translation below the tail: numbers before \<open>h + 1\<close> are translated before its translation.\<close>

lemma mcore_translated:
  assumes c: "mcore m h off" and k: "k \<le> h" and v: "GetValue m k = Inr v"
  shows "k - v < h + 1 - off"
proof -
  note d = mcoreD [OF c]
  have lt: "k < h + 1" using k d(4) by simp
  have g: "GetValue m = rm_lookup (ranges m)" using GetValue_lookup [OF d(1,6)] by blast
  show ?thesis
    using translated_order [OF d(1,2) lt] v d(5) c unfolding g mcore_def by auto
qed

lemma mcore_dec:
  assumes c: "mcore m h off" and d: "unat (h + 1 - off) + unat d < 2 ^ 63"
  shows "mcore (DecValue m h d) h (off - d)"
proof -
  note D = mcoreD [OF c]
  have off: "off = open_value m" and o: "open_start m \<le> h + 1" "open_start m - off \<le> h + 1 - off"
    using c unfolding mcore_def by blast+
  have mx: "max (open_start m) (h + 1) = h + 1" using o by (simp add: max_def)
  have "rm_step m (DecValue m h d)"
    using o(2) off d by (intro rm_step.dec [OF D(3)]) (simp_all add: mx)
  then have "rm_reachable (DecValue m h d)" using c rm_reachable.step by (auto simp: mcore_def)
  moreover have "h + 1 - (off - d) \<le> 2 ^ 63"
  proof -
    have e: "h + 1 - (off - d) = (h + 1 - off) + d" by simp
    have "unat (h + 1 - off + d) = unat (h + 1 - off) + unat d" using d by (intro unat_add_u64) simp
    then show ?thesis unfolding e using d by (simp add: word_le_nat_alt)
  qed
  ultimately show ?thesis
    using rm.lower_tail [OF D(1,3), of d] off c mx by (simp add: mcore_def)
qed

end
