(* ===== verification/Sequencer.thy ===== *)
theory Sequencer
  imports OffsetTail
begin

text \<open>
  \<^verbatim>\<open>pkg/sfu/sequencer.go\<close>: the ring buffer of packet metadata from which NACKs are answered. The
  slot of an outgoing sequence number is its value adjusted by the number of padding packets
  before it (kept in a range map for video), modulo the size. Time is passed in as nanoseconds;
  \<open>size\<close> is positive (the constructor returns nil for 0). Log calls are left out.
\<close>

section \<open>Model\<close>

definition defaultRtt :: u32 where "defaultRtt = 70"
definition ignoreRetransmission :: u32 where "ignoreRetransmission = 100"
definition maxAck :: u8 where "maxAck = 3"

record packetMeta =
  sourceSeqNo :: u64
  targetSeqNo :: u16
  timestamp :: u32
  marker :: bool
  lastNack :: u32
  nacked :: u8
  layer :: int
  codecBytes :: bytes
  numCodecBytesIn :: u8
  numCodecBytesOut :: u8
  codecBytesSlice :: bytes
  ddBytes :: bytes
  ddBytesSize :: u8
  ddBytesSlice :: bytes
  actBytes :: bytes

record extPacketMeta =
  epm_packetMeta :: packetMeta
  epm_extSequenceNumber :: u64
  epm_extTimestamp :: u64

record sequencer =
  sq_size :: nat
  sq_startTime :: int
  sq_initialized :: bool
  sq_extStartSN :: u64
  sq_extHighestSN :: u64
  sq_snOffset :: u64
  sq_extHighestTS :: u64
  sq_meta :: "packetMeta list"
  sq_snRangeMap :: "RangeMap option"
  sq_rtt :: u32

definition packetMeta_zero :: packetMeta where
  "packetMeta_zero = \<lparr>sourceSeqNo = 0, targetSeqNo = 0, timestamp = 0, marker = False, lastNack = 0,
     nacked = 0, layer = 0, codecBytes = replicate 8 0, numCodecBytesIn = 0, numCodecBytesOut = 0,
     codecBytesSlice = [], ddBytes = replicate 8 0, ddBytesSize = 0, ddBytesSlice = [], actBytes = []\<rparr>"

definition newSequencer :: "nat \<Rightarrow> bool \<Rightarrow> int \<Rightarrow> sequencer option" where
  "newSequencer sz maybeSparse now =
     (if sz = 0 then None
      else Some \<lparr>sq_size = sz, sq_startTime = now, sq_initialized = False, sq_extStartSN = 0,
        sq_extHighestSN = 0, sq_snOffset = 0, sq_extHighestTS = 0,
        sq_meta = replicate sz packetMeta_zero,
        sq_snRangeMap = (if maybeSparse then Some (NewRangeMap (int ((sz + 1) div 2))) else None),
        sq_rtt = defaultRtt\<rparr>)"

definition setRTT :: "sequencer \<Rightarrow> u32 \<Rightarrow> sequencer" where
  "setRTT s rtt = s\<lparr>sq_rtt := (if rtt = 0 then defaultRtt else rtt)\<rparr>"

text \<open>Integer division of Go truncates towards zero.\<close>

definition truncDiv :: "int \<Rightarrow> int \<Rightarrow> int" where
  "truncDiv a b = (if 0 \<le> a then a div b else - ((- a) div b))"

definition getRefTime :: "sequencer \<Rightarrow> int \<Rightarrow> u32" where
  "getRefTime s at = word_of_int (truncDiv (at - sq_startTime s) 1000000)"

definition updateSNOffset :: "sequencer \<Rightarrow> sequencer" where
  "updateSNOffset s =
     (case sq_snRangeMap s of None \<Rightarrow> s
      | Some m \<Rightarrow> (case GetValue m (sq_extHighestSN s + 1) of
          Inl _ \<Rightarrow> s | Inr snOffset \<Rightarrow> s\<lparr>sq_snOffset := snOffset\<rparr>))"

definition invalidateSlot :: "sequencer \<Rightarrow> nat \<Rightarrow> sequencer" where
  "invalidateSlot s slot =
     (if slot \<ge> length (sq_meta s) then s
      else s\<lparr>sq_meta := (sq_meta s)[slot := packetMeta_zero]\<rparr>)"

definition isInvalidSlot :: "sequencer \<Rightarrow> nat \<Rightarrow> bool" where
  "isInvalidSlot s slot \<longleftrightarrow> slot \<ge> length (sq_meta s) \<or>
     (let meta = sq_meta s ! slot in sourceSeqNo meta = 0 \<and> targetSeqNo meta = 0 \<and> lastNack meta = 0)"

definition slotOf :: "sequencer \<Rightarrow> u64 \<Rightarrow> nat" where
  "slotOf s esn = unat (esn mod of_nat (sq_size s))"

text \<open>
  The loop that invalidates missing numbers from \<open>esn\<close> up to the new one; \<open>n\<close> is the number of
  iterations left before \<open>numInvalidated\<close> reaches the size.
\<close>

fun invalidateLoop :: "nat \<Rightarrow> u64 \<Rightarrow> u64 \<Rightarrow> sequencer \<Rightarrow> sequencer" where
  "invalidateLoop 0 esn end s = s"
| "invalidateLoop (Suc n) esn end s =
     (if esn = end then s else invalidateLoop n (esn + 1) end (invalidateSlot s (slotOf s esn)))"

text \<open>An eight byte array with \<open>bs\<close> copied to its front, and the slice that is used when it does not fit.\<close>

definition fixedBytes :: "bytes \<Rightarrow> bytes" where
  "fixedBytes bs = (if length bs > 8 then replicate 8 0 else bs @ replicate (8 - length bs) 0)"

definition overflowBytes :: "bytes \<Rightarrow> bytes" where
  "overflowBytes bs = (if length bs > 8 then bs else [])"

definition pushMeta :: "sequencer \<Rightarrow> int \<Rightarrow> u64 \<Rightarrow> u64 \<Rightarrow> u64 \<Rightarrow> bool \<Rightarrow> int \<Rightarrow> bytes \<Rightarrow> int \<Rightarrow> bytes \<Rightarrow>
    bytes \<Rightarrow> packetMeta" where
  "pushMeta s packetTime extIncomingSN extModifiedSN extModifiedTS mark lay cb numIn db ab =
     \<lparr>sourceSeqNo = extIncomingSN, targetSeqNo = ucast extModifiedSN, timestamp = ucast extModifiedTS,
      marker = mark, lastNack = getRefTime s packetTime, nacked = 0, layer = lay,
      codecBytes = fixedBytes cb, numCodecBytesIn = word_of_int numIn,
      numCodecBytesOut = of_nat (length cb), codecBytesSlice = overflowBytes cb,
      ddBytes = fixedBytes db, ddBytesSize = of_nat (length db), ddBytesSlice = overflowBytes db,
      actBytes = ab\<rparr>"

text \<open>The first packet initialises the sequencer.\<close>

definition seq_init :: "sequencer \<Rightarrow> u64 \<Rightarrow> u64 \<Rightarrow> sequencer" where
  "seq_init s extModifiedSN extModifiedTS =
     (if \<not> sq_initialized s
      then updateSNOffset (s\<lparr>sq_initialized := True, sq_extStartSN := extModifiedSN,
             sq_extHighestSN := extModifiedSN, sq_extHighestTS := extModifiedTS\<rparr>)
      else s)"

text \<open>\<open>extModifiedSNAdjusted\<close>; nothing when the offset of a late packet is not known.\<close>

definition adjustSN :: "sequencer \<Rightarrow> u64 \<Rightarrow> u64 option" where
  "adjustSN s extModifiedSN =
     (if extModifiedSN < sq_extHighestSN s then
        (case sq_snRangeMap s of
           Some m \<Rightarrow> (case GetValue m extModifiedSN of
               Inl _ \<Rightarrow> None | Inr snOffset \<Rightarrow> Some (extModifiedSN - snOffset))
         | None \<Rightarrow> Some (extModifiedSN - sq_snOffset s))
      else Some (extModifiedSN - sq_snOffset s))"

definition seq_push :: "sequencer \<Rightarrow> int \<Rightarrow> u64 \<Rightarrow> u64 \<Rightarrow> u64 \<Rightarrow> bool \<Rightarrow> int \<Rightarrow> bytes \<Rightarrow> int \<Rightarrow> bytes \<Rightarrow>
    bytes \<Rightarrow> sequencer" where
  "seq_push s packetTime extIncomingSN extModifiedSN extModifiedTS mark lay cb numIn db ab =
     (let s = seq_init s extModifiedSN extModifiedTS in
      if extModifiedSN < sq_extStartSN s then s
      else
        let extHighestSNAdjusted = sq_extHighestSN s - sq_snOffset s in
        case adjustSN s extModifiedSN of None \<Rightarrow> s
        | Some extModifiedSNAdjusted \<Rightarrow>
          if sint (extModifiedSNAdjusted - extHighestSNAdjusted) \<le> - int (sq_size s) then s
          else
            let s = (if extModifiedSNAdjusted > extHighestSNAdjusted
                     then invalidateLoop (sq_size s) (extHighestSNAdjusted + 1) extModifiedSNAdjusted s
                     else s);
                s = s\<lparr>sq_meta := (sq_meta s)[slotOf s extModifiedSNAdjusted :=
                       pushMeta s packetTime extIncomingSN extModifiedSN extModifiedTS mark lay cb
                         numIn db ab]\<rparr>;
                s = (if extModifiedSN > sq_extHighestSN s then s\<lparr>sq_extHighestSN := extModifiedSN\<rparr> else s);
                s = (if extModifiedTS > sq_extHighestTS s then s\<lparr>sq_extHighestTS := extModifiedTS\<rparr> else s)
            in s)"

text \<open>The loop over an exclusion range that lies before the highest number.\<close>

definition invalidateOld :: "RangeMap \<Rightarrow> u64 \<Rightarrow> sequencer \<Rightarrow> sequencer" where
  "invalidateOld m esn s =
     (let diff = sint (esn - sq_extHighestSN s) in
      if diff \<ge> 0 \<or> diff < - int (sq_size s) then s
      else case GetValue m esn of Inl _ \<Rightarrow> s
           | Inr snOffset \<Rightarrow> invalidateSlot s (slotOf s (esn - snOffset)))"

definition pushPadding :: "sequencer \<Rightarrow> u64 \<Rightarrow> u64 \<Rightarrow> sequencer" where
  "pushPadding s extStartSNInclusive extEndSNInclusive =
     (case sq_snRangeMap s of None \<Rightarrow> s
      | Some m \<Rightarrow>
        if \<not> sq_initialized s then s
        else if extStartSNInclusive \<le> sq_extHighestSN s then
          fold (\<lambda>i. invalidateOld m (extStartSNInclusive + of_nat i))
            [0..<unat (extEndSNInclusive + 1 - extStartSNInclusive)] s
        else case ExcludeRange m extStartSNInclusive (extEndSNInclusive + 1) of
          Inl _ \<Rightarrow> s
        | Inr m' \<Rightarrow> updateSNOffset (s\<lparr>sq_snRangeMap := Some m', sq_extHighestSN := extEndSNInclusive\<rparr>))"

text \<open>The timestamp of a stored packet, extended with the high half of the highest one.\<close>

definition extendTS :: "sequencer \<Rightarrow> u32 \<Rightarrow> u64" where
  "extendTS s ts =
     (let extTS = ucast ts + (sq_extHighestTS s AND 0xFFFFFFFF00000000) in
      if ts > ucast (sq_extHighestTS s) then extTS - push_bit 32 1 else extTS)"

definition offsetOf :: "sequencer \<Rightarrow> u64 \<Rightarrow> u64 option" where
  "offsetOf s extSN =
     (case sq_snRangeMap s of None \<Rightarrow> Some 0
      | Some m \<Rightarrow> (case GetValue m extSN of Inl _ \<Rightarrow> None | Inr v \<Rightarrow> Some v))"

definition lookupExtPacketMeta :: "sequencer \<Rightarrow> u64 \<Rightarrow> extPacketMeta option" where
  "lookupExtPacketMeta s extSN =
     (if \<not> sq_initialized s then None
      else case offsetOf s extSN of None \<Rightarrow> None
      | Some snOffset \<Rightarrow>
        let extSNAdjusted = extSN - snOffset;
            extHighestSNAdjusted = sq_extHighestSN s - sq_snOffset s in
        if extHighestSNAdjusted - extSNAdjusted \<ge> of_nat (sq_size s) then None
        else
          let slot = slotOf s extSNAdjusted; meta = sq_meta s ! slot in
          if isInvalidSlot s slot then None
          else Some \<lparr>epm_packetMeta = meta, epm_extSequenceNumber = extSN,
                     epm_extTimestamp = extendTS s (timestamp meta)\<rparr>)"

text \<open>The extended sequence number that a 16-bit NACK stands for.\<close>

definition extendSN :: "sequencer \<Rightarrow> u16 \<Rightarrow> u64" where
  "extendSN s sn =
     (let extSN = ucast sn + (sq_extHighestSN s AND 0xFFFFFFFFFFFF0000) in
      if sn > ucast (sq_extHighestSN s) then extSN - push_bit 16 1 else extSN)"

text \<open>
  One iteration of \<open>getExtPacketMetas\<close>. The minimum is taken over two unsigned numbers that
  \<open>float64\<close> represents exactly.
\<close>

definition nackOne :: "u32 \<Rightarrow> u16 \<Rightarrow> sequencer \<Rightarrow> sequencer \<times> extPacketMeta option" where
  "nackOne refTime sn s =
     (if ucast (sq_extHighestSN s) - sn > (push_bit 15 1 :: u16) then (s, None)
      else
        let extSN = extendSN s sn in
        case offsetOf s extSN of None \<Rightarrow> (s, None)
        | Some snOffset \<Rightarrow>
          let extSNAdjusted = extSN - snOffset;
              extHighestSNAdjusted = sq_extHighestSN s - sq_snOffset s in
          if extHighestSNAdjusted - extSNAdjusted \<ge> of_nat (sq_size s) then (s, None)
          else
            let slot = slotOf s extSNAdjusted; meta = sq_meta s ! slot in
            if targetSeqNo meta \<noteq> sn \<or> isInvalidSlot s slot then (s, None)
            else if nacked meta < maxAck \<and>
              refTime - lastNack meta > min ignoreRetransmission (2 * sq_rtt s)
            then
              let meta = meta\<lparr>nacked := nacked meta + 1, lastNack := refTime\<rparr> in
              (s\<lparr>sq_meta := (sq_meta s)[slot := meta]\<rparr>,
               Some \<lparr>epm_packetMeta = meta, epm_extSequenceNumber = extSN,
                     epm_extTimestamp = extendTS s (timestamp meta)\<rparr>)
            else (s, None))"

fun nackLoop :: "u32 \<Rightarrow> u16 list \<Rightarrow> sequencer \<Rightarrow> sequencer \<times> extPacketMeta list" where
  "nackLoop refTime [] s = (s, [])"
| "nackLoop refTime (sn # seqNo) s =
     (let (s, r) = nackOne refTime sn s; (s, rs) = nackLoop refTime seqNo s
      in (s, case r of None \<Rightarrow> rs | Some epm \<Rightarrow> epm # rs))"

definition getExtPacketMetas :: "sequencer \<Rightarrow> int \<Rightarrow> u16 list \<Rightarrow> sequencer \<times> extPacketMeta list" where
  "getExtPacketMetas s now seqNo =
     (if \<not> sq_initialized s then (s, []) else nackLoop (getRefTime s now) seqNo s)"

text \<open>How the down track reads the stored codec and dependency descriptor bytes back.\<close>

definition metaCodecBytes :: "packetMeta \<Rightarrow> bytes" where
  "metaCodecBytes m = (if length (codecBytesSlice m) \<noteq> 0 then codecBytesSlice m
     else take (unat (numCodecBytesOut m)) (codecBytes m))"

definition metaDdBytes :: "packetMeta \<Rightarrow> bytes" where
  "metaDdBytes m = (if length (ddBytesSlice m) \<noteq> 0 then ddBytesSlice m
     else take (unat (ddBytesSize m)) (ddBytes m))"

section \<open>Invariant\<close>

abbreviation hadj :: "sequencer \<Rightarrow> u64" where
  "hadj s \<equiv> sq_extHighestSN s - sq_snOffset s"

definition offset_inv :: "sequencer \<Rightarrow> bool" where
  "offset_inv s \<longleftrightarrow> unat (hadj s) < 2 ^ 63 \<and>
     (case sq_snRangeMap s of None \<Rightarrow> sq_snOffset s = 0 \<and> sq_extHighestSN s < 2 ^ 63 - 1
      | Some m \<Rightarrow> mcore m (sq_extHighestSN s) (sq_snOffset s))"

lemma offset_inv_cong:
  "sq_extHighestSN s = sq_extHighestSN s' \<Longrightarrow> sq_snOffset s = sq_snOffset s' \<Longrightarrow>
   sq_snRangeMap s = sq_snRangeMap s' \<Longrightarrow> offset_inv s \<longleftrightarrow> offset_inv s'"
  by (simp add: offset_inv_def cong: option.case_cong)

definition fresh_inv :: "sequencer \<Rightarrow> bool" where
  "fresh_inv s \<longleftrightarrow> sq_snOffset s = 0 \<and>
     (case sq_snRangeMap s of None \<Rightarrow> True | Some m \<Rightarrow> \<exists>n. m = NewRangeMap n)"

definition nack_ok :: "packetMeta list \<Rightarrow> bool" where
  "nack_ok ms \<longleftrightarrow> (\<forall>m\<in>set ms. nacked m \<le> maxAck)"

definition seq_inv :: "sequencer \<Rightarrow> bool" where
  "seq_inv s \<longleftrightarrow> 0 < sq_size s \<and> sq_size s < 2 ^ 31 \<and> length (sq_meta s) = sq_size s \<and>
     nack_ok (sq_meta s) \<and>
     (if sq_initialized s then offset_inv s else fresh_inv s)"

lemma slotOf_less: "0 < sq_size s \<Longrightarrow> sq_size s < 2 ^ 31 \<Longrightarrow> slotOf s x = unat x mod sq_size s"
  by (simp add: slotOf_def unat_mod unat_of_nat)

lemma slotOf_bound: "0 < sq_size s \<Longrightarrow> sq_size s < 2 ^ 31 \<Longrightarrow> slotOf s x < sq_size s"
  by (simp add: slotOf_less)

text \<open>Everything but the metadata is untouched by an invalidation.\<close>

lemma invalidateSlot_sel [simp]:
  "sq_size (invalidateSlot s i) = sq_size s" "sq_initialized (invalidateSlot s i) = sq_initialized s"
  "sq_extHighestSN (invalidateSlot s i) = sq_extHighestSN s" "sq_snOffset (invalidateSlot s i) = sq_snOffset s"
  "sq_snRangeMap (invalidateSlot s i) = sq_snRangeMap s" "sq_startTime (invalidateSlot s i) = sq_startTime s"
  "sq_extHighestTS (invalidateSlot s i) = sq_extHighestTS s"
  "sq_meta (invalidateSlot s i) = (sq_meta s)[i := packetMeta_zero]"
  "slotOf (invalidateSlot s i) = slotOf s"
  by (auto simp: invalidateSlot_def slotOf_def fun_eq_iff list_update_beyond)

lemma invalidateLoop_sel [simp]:
  "sq_size (invalidateLoop n esn end s) = sq_size s"
  "sq_initialized (invalidateLoop n esn end s) = sq_initialized s"
  "sq_extHighestSN (invalidateLoop n esn end s) = sq_extHighestSN s"
  "sq_snOffset (invalidateLoop n esn end s) = sq_snOffset s"
  "sq_snRangeMap (invalidateLoop n esn end s) = sq_snRangeMap s"
  "sq_startTime (invalidateLoop n esn end s) = sq_startTime s"
  "sq_extHighestTS (invalidateLoop n esn end s) = sq_extHighestTS s"
  "length (sq_meta (invalidateLoop n esn end s)) = length (sq_meta s)"
  by (induction n arbitrary: esn s) auto

lemma packetMeta_zero_nacked [simp]: "nacked packetMeta_zero \<le> maxAck"
  by (simp add: packetMeta_zero_def)

lemma nack_ok_update: "nack_ok ms \<Longrightarrow> nacked x \<le> maxAck \<Longrightarrow> nack_ok (ms[i := x])"
  using set_update_subset_insert [of ms i x] by (auto simp: nack_ok_def)

lemma invalidateLoop_nack_ok: "nack_ok (sq_meta s) \<Longrightarrow> nack_ok (sq_meta (invalidateLoop n esn end s))"
  by (induction n arbitrary: esn s) (simp_all add: nack_ok_update)

text \<open>A slot outside the invalidated stretch keeps its content.\<close>

lemma invalidateLoop_keeps:
  assumes "\<And>j. j < n \<Longrightarrow> j < unat (end - esn) \<Longrightarrow> slotOf s (esn + of_nat j) \<noteq> i"
  shows "sq_meta (invalidateLoop n esn end s) ! i = sq_meta s ! i"
  using assms
proof (induction n arbitrary: esn s)
  case (Suc n)
  show ?case
  proof (cases "esn = end")
    case False
    then have u: "unat (end - esn) = Suc (unat (end - (esn + 1)))"
      using unatSuc [of "end - (esn + 1)"] by simp
    have "slotOf s (esn + 1 + of_nat j) \<noteq> i" if "j < n" "j < unat (end - (esn + 1))" for j
      using Suc.prems [of "Suc j"] that u by (simp add: algebra_simps)
    then have "sq_meta (invalidateLoop n (esn + 1) end (invalidateSlot s (slotOf s esn))) ! i =
        sq_meta (invalidateSlot s (slotOf s esn)) ! i"
      by (intro Suc.IH) simp
    moreover have "slotOf s esn \<noteq> i" using Suc.prems [of 0] u by simp
    ultimately show ?thesis using False by simp
  qed simp
qed simp

subsection \<open>Offsets\<close>

lemma updateSNOffset_sel [simp]:
  "sq_size (updateSNOffset s) = sq_size s" "sq_initialized (updateSNOffset s) = sq_initialized s"
  "sq_extHighestSN (updateSNOffset s) = sq_extHighestSN s" "sq_snRangeMap (updateSNOffset s) = sq_snRangeMap s"
  "sq_meta (updateSNOffset s) = sq_meta s" "sq_extHighestTS (updateSNOffset s) = sq_extHighestTS s"
  "sq_extStartSN (updateSNOffset s) = sq_extStartSN s" "sq_rtt (updateSNOffset s) = sq_rtt s"
  by (auto simp: updateSNOffset_def split: option.splits sum.splits)

lemma updateSNOffset_core:
  assumes "sq_snRangeMap s = Some m" "mcore m (sq_extHighestSN s) off"
  shows "sq_snOffset (updateSNOffset s) = off"
  using mcoreD(5) [OF assms(2)] by (simp add: updateSNOffset_def assms(1))

lemma mcore_new:
  assumes "h < 2 ^ 63 - 1"
  shows "mcore (NewRangeMap n) h 0"
proof -
  have "h + 1 \<le> 2 ^ 63" using assms by (simp add: word_nat)
  then show ?thesis
    using rm_reachable.new [of n] assms by (simp add: mcore_def) (simp add: NewRangeMap_def initRanges_def)
qed

lemma seq_init_inv:
  assumes inv: "seq_inv s" and sn: "sn < 2 ^ 63 - 1"
  shows "seq_inv (seq_init s sn ts) \<and> sq_initialized (seq_init s sn ts)"
proof (cases "sq_initialized s")
  case True
  then show ?thesis using inv by (simp add: seq_init_def)
next
  case False
  let ?s = "s\<lparr>sq_initialized := True, sq_extStartSN := sn, sq_extHighestSN := sn, sq_extHighestTS := ts\<rparr>"
  have u: "unat sn < 2 ^ 63" using sn by (simp add: word_less_nat_alt)
  have "sq_snOffset (updateSNOffset ?s) = 0 \<and> (case sq_snRangeMap s of None \<Rightarrow> True | Some m \<Rightarrow> mcore m sn 0)"
  proof (cases "sq_snRangeMap s")
    case None
    then show ?thesis using inv False by (simp add: seq_inv_def fresh_inv_def updateSNOffset_def)
  next
    case (Some m)
    then obtain n where "m = NewRangeMap n" using inv False by (auto simp: seq_inv_def fresh_inv_def)
    then have c: "mcore m sn 0" using mcore_new [OF sn] by simp
    then show ?thesis using updateSNOffset_core [of ?s m 0] Some by simp
  qed
  then have "offset_inv (updateSNOffset ?s)"
    using u sn by (auto simp: offset_inv_def split: option.splits)
  then show ?thesis using inv False by (simp add: seq_inv_def seq_init_def)
qed

text \<open>Adjusted numbers of known packets lie at or below the adjusted highest one.\<close>

lemma offsetOf_le:
  assumes "offset_inv s" "k \<le> sq_extHighestSN s" "offsetOf s k = Some v"
  shows "k - v \<le> hadj s"
proof (cases "sq_snRangeMap s")
  case None
  then show ?thesis using assms by (simp add: offset_inv_def offsetOf_def)
next
  case (Some m)
  then have c: "mcore m (sq_extHighestSN s) (sq_snOffset s)" and v: "GetValue m k = Inr v"
    using assms by (auto simp: offset_inv_def offsetOf_def split: sum.splits)
  have "k - v < hadj s + 1" using mcore_translated [OF c assms(2) v] by (simp add: algebra_simps)
  moreover have "unat (hadj s + 1) = unat (hadj s) + 1"
    using assms(1) by (subst unat_add_u64) (simp_all add: offset_inv_def)
  ultimately show ?thesis by (simp add: word_less_nat_alt word_le_nat_alt)
qed

text \<open>\<open>push\<close> and the lookups use the same offset for a packet that is not newer.\<close>

lemma adjustSN_offsetOf:
  assumes "offset_inv s" "k \<noteq> sq_extHighestSN s \<or> offsetOf s k = Some (sq_snOffset s)"
    and "k \<le> sq_extHighestSN s"
  shows "adjustSN s k = map_option (\<lambda>v. k - v) (offsetOf s k)"
  using assms
  by (auto simp: adjustSN_def offsetOf_def offset_inv_def split: option.splits sum.splits)

subsection \<open>push\<close>

text \<open>The packet is recorded in the slot of \<open>a\<close>.\<close>

definition accepts :: "sequencer \<Rightarrow> u64 \<Rightarrow> u64 \<Rightarrow> bool" where
  "accepts s sn a \<longleftrightarrow> sq_extStartSN s \<le> sn \<and> adjustSN s sn = Some a \<and> - int (sq_size s) < sint (a - hadj s)"

definition invalidated :: "sequencer \<Rightarrow> u64 \<Rightarrow> sequencer" where
  "invalidated s a = (if a > hadj s then invalidateLoop (sq_size s) (hadj s + 1) a s else s)"

lemma invalidated_sel [simp]:
  "sq_size (invalidated s a) = sq_size s" "sq_initialized (invalidated s a) = sq_initialized s"
  "sq_extHighestSN (invalidated s a) = sq_extHighestSN s" "sq_snOffset (invalidated s a) = sq_snOffset s"
  "sq_snRangeMap (invalidated s a) = sq_snRangeMap s" "sq_startTime (invalidated s a) = sq_startTime s"
  "sq_extHighestTS (invalidated s a) = sq_extHighestTS s"
  "length (sq_meta (invalidated s a)) = length (sq_meta s)"
  by (simp_all add: invalidated_def)

lemma slotOf_cong: "sq_size s = sq_size s' \<Longrightarrow> slotOf s = slotOf s'"
  by (simp add: slotOf_def fun_eq_iff)

lemma getRefTime_cong: "sq_startTime s = sq_startTime s' \<Longrightarrow> getRefTime s = getRefTime s'"
  by (simp add: getRefTime_def fun_eq_iff)

lemma pushMeta_invalidated [simp]: "pushMeta (invalidated s a) = pushMeta s"
  by (simp add: pushMeta_def fun_eq_iff getRefTime_cong [of "invalidated s a" s])

lemma seq_push_reject:
  assumes "\<not> (\<exists>a. accepts (seq_init s sn ts) sn a)"
  shows "seq_push s t src sn ts mark lay cb ni db ab = seq_init s sn ts"
  using assms by (auto simp: seq_push_def Let_def accepts_def not_less not_le split: option.splits)

lemma seq_push_accept:
  fixes s :: sequencer and t ni lay :: int and src sn ts :: u64 and mark :: bool and cb db ab :: bytes
  defines "s1 \<equiv> seq_init s sn ts"
  assumes acc: "accepts s1 sn a"
  defines "s' \<equiv> seq_push s t src sn ts mark lay cb ni db ab"
  shows "sq_size s' = sq_size s1" "sq_initialized s' = sq_initialized s1"
    "sq_extHighestSN s' = max (sq_extHighestSN s1) sn" "sq_snOffset s' = sq_snOffset s1"
    "sq_snRangeMap s' = sq_snRangeMap s1" "sq_extHighestTS s' = max (sq_extHighestTS s1) ts"
    "sq_meta s' = (sq_meta (invalidated s1 a))[slotOf s1 a := pushMeta s1 t src sn ts mark lay cb ni db ab]"
proof -
  let ?i = "invalidated s1 a"
  let ?s2 = "?i\<lparr>sq_meta := (sq_meta ?i)[slotOf s1 a := pushMeta s1 t src sn ts mark lay cb ni db ab]\<rparr>"
  let ?s3 = "if sn > sq_extHighestSN ?s2 then ?s2\<lparr>sq_extHighestSN := sn\<rparr> else ?s2"
  have nlt: "\<not> sn < sq_extStartSN s1" "\<not> sint (a - hadj s1) \<le> - int (sq_size s1)"
    and ad: "adjustSN s1 sn = Some a" using acc by (auto simp: accepts_def)
  have sl: "slotOf ?i = slotOf s1" by (rule slotOf_cong) simp
  have s': "s' = (if ts > sq_extHighestTS ?s3 then ?s3\<lparr>sq_extHighestTS := ts\<rparr> else ?s3)"
    unfolding s'_def seq_push_def s1_def [symmetric] Let_def if_not_P [OF nlt(1)] ad option.case(2)
      if_not_P [OF nlt(2)] invalidated_def [symmetric] sl pushMeta_invalidated
    by (rule refl)
  show "sq_size s' = sq_size s1" "sq_initialized s' = sq_initialized s1"
    "sq_extHighestSN s' = max (sq_extHighestSN s1) sn" "sq_snOffset s' = sq_snOffset s1"
    "sq_snRangeMap s' = sq_snRangeMap s1" "sq_extHighestTS s' = max (sq_extHighestTS s1) ts"
    "sq_meta s' = (sq_meta ?i)[slotOf s1 a := pushMeta s1 t src sn ts mark lay cb ni db ab]"
    unfolding s' by (auto simp: max_def)
qed

text \<open>Sequence numbers stay below \<open>2 ^ 63\<close>.\<close>

definition push_ok :: "sequencer \<Rightarrow> u64 \<Rightarrow> bool" where
  "push_ok s sn \<longleftrightarrow> sn < 2 ^ 63 - 1 \<and>
     (sq_initialized s \<longrightarrow> uint sn + uint (sq_extHighestSN s + 1 - sq_snOffset s) < 2 ^ 63 - 1)"

lemma offset_inv_advance:
  assumes inv: "offset_inv s" and k: "sq_extHighestSN s \<le> k"
    and b: "unat k + unat (sq_extHighestSN s + 1 - sq_snOffset s) < 2 ^ 63 - 1"
  shows "offset_inv (s\<lparr>sq_extHighestSN := k\<rparr>)"
proof -
  let ?h = "sq_extHighestSN s" and ?o = "sq_snOffset s"
  have h: "unat (hadj s) < 2 ^ 63" using inv by (simp add: offset_inv_def)
  then have e1: "unat (hadj s + 1) = unat (hadj s) + 1" by (subst unat_add_u64) simp_all
  have "unat (k - ?h) = unat k - unat ?h" using k by (rule unat_sub)
  moreover have "k - ?o = hadj s + (k - ?h)" by simp
  moreover have "?h + 1 - ?o = hadj s + 1" by simp
  ultimately have "unat (k - ?o) = unat (hadj s) + (unat k - unat ?h)"
    using b e1 by (simp only:) (subst unat_add_u64, simp_all)
  then have "unat (k - ?o) < 2 ^ 63"
    using b e1 unfolding \<open>?h + 1 - ?o = hadj s + 1\<close> by simp
  moreover have "k < 2 ^ 63 - 1" using b by (simp add: word_less_nat_alt)
  moreover have "mcore m k ?o" if "mcore m ?h ?o" for m using mcore_advance [OF that k b] .
  ultimately show ?thesis using inv by (auto simp: offset_inv_def split: option.splits)
qed

lemma seq_push_inv:
  assumes inv: "seq_inv s" and ok: "push_ok s sn"
  shows "seq_inv (seq_push s t src sn ts mark lay cb ni db ab)"
proof -
  define s1 where "s1 = seq_init s sn ts"
  have i1: "seq_inv s1" "sq_initialized s1"
    using seq_init_inv [OF inv] ok by (simp_all add: s1_def push_ok_def)
  show ?thesis
  proof (cases "\<exists>a. accepts s1 sn a")
    case False
    then show ?thesis using seq_push_reject [of s sn ts] i1 by (simp add: s1_def)
  next
    case True
    then obtain a where acc: "accepts s1 sn a" by blast
    let ?s' = "seq_push s t src sn ts mark lay cb ni db ab"
    note S = seq_push_accept [OF acc [unfolded s1_def], of t src mark lay cb ni db ab, folded s1_def]
    have "offset_inv (s1\<lparr>sq_extHighestSN := max (sq_extHighestSN s1) sn\<rparr>)"
    proof (cases "sn \<le> sq_extHighestSN s1")
      case True
      then show ?thesis using i1 by (simp add: seq_inv_def max_absorb1 offset_inv_def)
    next
      case False
      then have ini: "sq_initialized s"
        by (cases "sq_initialized s") (simp_all add: s1_def seq_init_def)
      then have "s1 = s" by (simp add: s1_def seq_init_def)
      then show ?thesis
        using offset_inv_advance [of s1 sn] i1 False ok ini uint_sum_unat
        by (simp add: seq_inv_def push_ok_def max_absorb2)
    qed
    then have "offset_inv ?s'" by (rule offset_inv_cong [THEN iffD1, rotated -1]) (simp_all add: S)
    moreover have "nack_ok (sq_meta ?s')"
    proof -
      have "nack_ok (sq_meta (invalidated s1 a))"
        using i1 by (simp add: invalidated_def seq_inv_def invalidateLoop_nack_ok)
      then show ?thesis unfolding S(7) by (rule nack_ok_update) (simp add: pushMeta_def)
    qed
    ultimately show ?thesis using i1 S by (simp add: seq_inv_def)
  qed
qed

subsection \<open>pushPadding\<close>

lemma seq_inv_meta:
  assumes "seq_inv s" "length ms = sq_size s" "nack_ok ms"
  shows "seq_inv (s\<lparr>sq_meta := ms\<rparr>)"
proof -
  have "offset_inv (s\<lparr>sq_meta := ms\<rparr>) = offset_inv s" by (rule offset_inv_cong) simp_all
  moreover have "fresh_inv (s\<lparr>sq_meta := ms\<rparr>) = fresh_inv s" by (simp add: fresh_inv_def)
  ultimately show ?thesis using assms by (simp add: seq_inv_def)
qed

lemma invalidateOld_inv:
  assumes inv: "seq_inv s"
  shows "seq_inv (invalidateOld m esn s)" "sq_initialized (invalidateOld m esn s) = sq_initialized s"
proof -
  have "seq_inv (s\<lparr>sq_meta := (sq_meta s)[i := packetMeta_zero]\<rparr>)" for i
    using inv by (intro seq_inv_meta) (simp_all add: seq_inv_def nack_ok_update)
  then have "seq_inv (invalidateSlot s i)" for i using inv by (simp add: invalidateSlot_def)
  then show "seq_inv (invalidateOld m esn s)"
    using inv by (auto simp: invalidateOld_def Let_def split: sum.split)
  show "sq_initialized (invalidateOld m esn s) = sq_initialized s"
    by (auto simp: invalidateOld_def Let_def split: sum.split)
qed

lemma fold_inv: "(\<And>x s. P s \<Longrightarrow> P (f x s)) \<Longrightarrow> P s \<Longrightarrow> P (fold f xs s)"
  by (induction xs arbitrary: s) auto

definition padding_ok :: "sequencer \<Rightarrow> u64 \<Rightarrow> u64 \<Rightarrow> bool" where
  "padding_ok s start end \<longleftrightarrow> start \<le> end \<and>
     uint end + uint (sq_extHighestSN s + 1 - sq_snOffset s) < 2 ^ 63 - 1"

lemma padding_new:
  assumes inv: "offset_inv s" and ok: "padding_ok s start end" and gt: "sq_extHighestSN s < start"
    and m: "sq_snRangeMap s = Some m"
  obtains m' where "ExcludeRange m start (end + 1) = Inr m'"
    "mcore m' end (sq_snOffset s + (end + 1 - start))"
    "offset_inv (s\<lparr>sq_snRangeMap := Some m', sq_extHighestSN := end,
       sq_snOffset := sq_snOffset s + (end + 1 - start)\<rparr>)"
proof -
  let ?h = "sq_extHighestSN s" and ?o = "sq_snOffset s"
  have c: "mcore m ?h ?o" using inv m by (simp add: offset_inv_def)
  note d = mcoreD [OF c]
  have b: "unat end + unat (?h + 1 - ?o) < 2 ^ 63 - 1" using ok uint_sum_unat by (auto simp: padding_ok_def)
  have le: "start \<le> end" "?h \<le> end" using ok gt by (auto simp: padding_ok_def)
  have "?h + 1 \<le> start" using gt by (rule inc_le)
  then have os: "open_start m \<le> start" using c by (auto simp: mcore_def)
  have ce: "mcore m end ?o" by (rule mcore_advance [OF c le(2) b])
  obtain m' where m': "ExcludeRange m start (end + 1) = Inr m'" "mcore m' end (?o + (end + 1 - start))"
    using mcore_exclude_range [OF ce os le(1)] by blast
  have b': "unat (start - 1) + unat (?h + 1 - ?o) < 2 ^ 63 - 1" and ge: "?h \<le> start - 1"
    using b le gt by (auto simp: word_nat split: if_splits)
  have "offset_inv (s\<lparr>sq_extHighestSN := start - 1\<rparr>)" by (rule offset_inv_advance [OF inv ge b'])
  then have "unat (start - 1 - ?o) < 2 ^ 63" by (simp add: offset_inv_def)
  moreover have "end - (?o + (end + 1 - start)) = start - 1 - ?o" by simp
  ultimately show ?thesis using m' by (intro that) (simp_all add: offset_inv_def)
qed

lemma pushPadding_inv:
  assumes inv: "seq_inv s" and ok: "padding_ok s start end"
  shows "seq_inv (pushPadding s start end)"
proof (cases "sq_snRangeMap s")
  case None
  then show ?thesis using inv by (simp add: pushPadding_def)
next
  case (Some m)
  show ?thesis
  proof (cases "sq_initialized s \<and> sq_extHighestSN s < start")
    case False
    then show ?thesis
      using inv Some by (auto simp: pushPadding_def intro!: fold_inv [of seq_inv] invalidateOld_inv)
  next
    case True
    then have oi: "offset_inv s" using inv by (simp add: seq_inv_def)
    obtain m' where m': "ExcludeRange m start (end + 1) = Inr m'"
      "mcore m' end (sq_snOffset s + (end + 1 - start))"
      "offset_inv (s\<lparr>sq_snRangeMap := Some m', sq_extHighestSN := end,
         sq_snOffset := sq_snOffset s + (end + 1 - start)\<rparr>)"
      using padding_new [OF oi ok _ Some] True by blast
    let ?s = "s\<lparr>sq_snRangeMap := Some m', sq_extHighestSN := end\<rparr>"
    have p: "pushPadding s start end = updateSNOffset ?s"
      using True Some m'(1) by (auto simp: pushPadding_def)
    have "sq_snOffset (updateSNOffset ?s) = sq_snOffset s + (end + 1 - start)"
      using updateSNOffset_core [of ?s m'] m'(2) by simp
    then have "offset_inv (updateSNOffset ?s)"
      using m'(3) by (intro offset_inv_cong [THEN iffD1, OF _ _ _ m'(3)]) simp_all
    then show ?thesis unfolding p using inv True by (simp add: seq_inv_def)
  qed
qed

section \<open>Answering NACKs\<close>

text \<open>The slot a NACK refers to.\<close>

definition nackSlot :: "sequencer \<Rightarrow> u16 \<Rightarrow> nat" where
  "nackSlot s sn = slotOf s (extendSN s sn - the (offsetOf s (extendSN s sn)))"

lemma nackSlot_meta [simp]: "nackSlot (s\<lparr>sq_meta := ms\<rparr>) = nackSlot s"
  by (simp add: nackSlot_def slotOf_def extendSN_def offsetOf_def fun_eq_iff Let_def)

definition nack_due :: "u32 \<Rightarrow> u32 \<Rightarrow> packetMeta \<Rightarrow> bool" where
  "nack_due refTime rtt m \<longleftrightarrow> nacked m < maxAck \<and> refTime - lastNack m > min ignoreRetransmission (2 * rtt)"

lemma nack_due_fresh: "nack_due refTime rtt m \<Longrightarrow> lastNack m \<noteq> refTime"
  by (auto simp: nack_due_def ignoreRetransmission_def)

lemma nackOne_cases:
  assumes "nackOne refTime sn s = (s', r)"
  obtains "r = None" "s' = s"
  | slot meta where "slot = nackSlot s sn" "slot < length (sq_meta s)" "meta = sq_meta s ! slot"
      "targetSeqNo meta = sn" "nack_due refTime (sq_rtt s) meta"
      "s' = s\<lparr>sq_meta := (sq_meta s)[slot := meta\<lparr>nacked := nacked meta + 1, lastNack := refTime\<rparr>]\<rparr>"
      "r = Some \<lparr>epm_packetMeta = meta\<lparr>nacked := nacked meta + 1, lastNack := refTime\<rparr>,
        epm_extSequenceNumber = extendSN s sn, epm_extTimestamp = extendTS s (timestamp meta)\<rparr>"
proof (cases "(push_bit 15 1 :: u16) < ucast (sq_extHighestSN s) - sn \<or> offsetOf s (extendSN s sn) = None")
  case True
  then have "nackOne refTime sn s = (s, None)"
    by (cases "(push_bit 15 1 :: u16) < ucast (sq_extHighestSN s) - sn") (simp_all add: nackOne_def Let_def)
  then show ?thesis using assms that(1) by simp
next
  case False
  then obtain off where off: "offsetOf s (extendSN s sn) = Some off" by auto
  define slot where "slot = slotOf s (extendSN s sn - off)"
  define meta where "meta = sq_meta s ! slot"
  let ?old = "of_nat (sq_size s) \<le> hadj s - (extendSN s sn - off)"
  let ?bad = "targetSeqNo meta \<noteq> sn \<or> isInvalidSlot s slot"
  let ?due = "nacked meta < maxAck \<and> refTime - lastNack meta > min ignoreRetransmission (2 * sq_rtt s)"
  have n: "nackOne refTime sn s = (if ?old \<or> ?bad \<or> \<not> ?due then (s, None)
      else (s\<lparr>sq_meta := (sq_meta s)[slot := meta\<lparr>nacked := nacked meta + 1, lastNack := refTime\<rparr>]\<rparr>,
        Some \<lparr>epm_packetMeta = meta\<lparr>nacked := nacked meta + 1, lastNack := refTime\<rparr>,
          epm_extSequenceNumber = extendSN s sn, epm_extTimestamp = extendTS s (timestamp meta)\<rparr>))"
    using False off unfolding nackOne_def Let_def slot_def [symmetric] meta_def [symmetric]
    by (simp add: slot_def [symmetric] meta_def [symmetric])
  show ?thesis
  proof (cases "?old \<or> ?bad \<or> \<not> ?due")
    case True
    then show ?thesis using assms n that(1) by (simp del: min_less_iff_conj)
  next
    case no: False
    then have "slot < length (sq_meta s)" by (simp add: isInvalidSlot_def)
    moreover have "slot = nackSlot s sn" by (simp add: slot_def nackSlot_def off)
    ultimately show ?thesis
      using assms no n meta_def by (intro that(2) [of slot meta]) (auto simp: nack_due_def)
  qed
qed

lemma nackOne_inv:
  assumes inv: "seq_inv s" and n: "nackOne refTime sn s = (s', r)"
  shows "seq_inv s'"
proof (cases rule: nackOne_cases [OF n])
  case (2 slot meta)
  have "nacked meta < maxAck" using 2(5) by (simp add: nack_due_def)
  then have "nacked meta + 1 \<le> maxAck" by (rule inc_le)
  then show ?thesis
    unfolding 2(6) using inv by (intro seq_inv_meta nack_ok_update) (simp_all add: seq_inv_def)
qed (use inv in simp)

lemma nackLoop_inv: "seq_inv s \<Longrightarrow> seq_inv (fst (nackLoop refTime sns s))"
proof (induction sns arbitrary: s)
  case (Cons sn sns)
  obtain s1 r where n: "nackOne refTime sn s = (s1, r)" by fastforce
  have "seq_inv s1" by (rule nackOne_inv [OF Cons.prems n])
  from Cons.IH [OF this] show ?case by (cases "nackLoop refTime sns s1") (simp add: n Let_def)
qed simp

section \<open>Extending truncated numbers\<close>

lemma div_step:
  fixes x h m :: nat
  assumes "x \<le> h" "h - x < m"
  shows "h div m * m = x div m * m + (if h mod m < x mod m then m else 0)"
proof -
  have m: "0 < m" using assms by simp
  have x: "x = x div m * m + x mod m" and h: "h = h div m * m + h mod m" by simp_all
  have bx: "x mod m < m" "h mod m < m" using m by simp_all
  have le: "x div m \<le> h div m" using assms by (simp add: div_le_mono)
  have "h div m \<le> x div m + 1"
  proof (rule ccontr)
    assume "\<not> ?thesis"
    then have "(x div m + 2) * m \<le> h div m * m" by (intro mult_right_mono) simp_all
    then have "x div m * m + 2 * m \<le> h div m * m" by (simp only: distrib_right)
    then have "x + m \<le> h" using x h bx by linarith
    then show False using assms by simp
  qed
  then consider "h div m = x div m" | "h div m = x div m + 1" using le by linarith
  then show ?thesis
  proof cases
    case 1
    have "\<not> h mod m < x mod m"
    proof
      assume "h mod m < x mod m"
      then have "h < x" using x h 1 by (metis add_less_cancel_left)
      then show False using assms by simp
    qed
    then show ?thesis using 1 by simp
  next
    case 2
    have "h mod m < x mod m"
    proof (rule ccontr)
      assume "\<not> h mod m < x mod m"
      moreover have "h div m * m = x div m * m + m" using 2 by simp
      ultimately have "x + m \<le> h" using x h by linarith
      then show False using assms by simp
    qed
    then show ?thesis using 2 by simp
  qed
qed

lemma extend_low:
  fixes x h :: u64
  assumes "x \<le> h" "unat h - unat x < 2 ^ n" "n < 64"
  shows "take_bit n x + push_bit n (drop_bit n h) - (if take_bit n h < take_bit n x then 2 ^ n else 0) = x"
proof -
  have pd: "push_bit n (drop_bit n y) = (of_nat (unat y div 2 ^ n * 2 ^ n) :: u64)" for y :: u64
  proof -
    have "drop_bit n y = (of_nat (unat y div 2 ^ n) :: u64)" by (simp flip: unat_drop_bit_eq drop_bit_eq_div)
    then show ?thesis by (simp add: push_bit_eq_mult)
  qed
  have tk: "unat (take_bit n y) = unat y mod 2 ^ n" for y :: u64
    by (simp only: unsigned_take_bit_eq) (simp add: take_bit_eq_mod)
  have cmp: "take_bit n h < take_bit n x \<longleftrightarrow> unat h mod 2 ^ n < unat x mod 2 ^ n"
    by (simp add: word_less_nat_alt tk)
  have "unat h div 2 ^ n * 2 ^ n = unat x div 2 ^ n * 2 ^ n + (if unat h mod 2 ^ n < unat x mod 2 ^ n then 2 ^ n else 0)"
    using assms by (intro div_step) (simp_all add: word_le_nat_alt)
  then have "push_bit n (drop_bit n h) = push_bit n (drop_bit n x) +
      (if take_bit n h < take_bit n x then 2 ^ n else 0)"
    unfolding pd cmp by (simp split: if_split)
  then show ?thesis using bits_ident [of n x] by (simp add: algebra_simps)
qed

lemma and_high_mask:
  fixes h :: u64
  shows "h AND 0xFFFFFFFF00000000 = push_bit 32 (drop_bit 32 h)"
    "h AND 0xFFFFFFFFFFFF0000 = push_bit 16 (drop_bit 16 h)"
proof -
  have c: "(0xFFFFFFFF00000000 :: u64) = NOT (mask 32)" "(0xFFFFFFFFFFFF0000 :: u64) = NOT (mask 16)"
    by (simp_all add: mask_eq_exp_minus_1)
  show "h AND 0xFFFFFFFF00000000 = push_bit 32 (drop_bit 32 h)"
    "h AND 0xFFFFFFFFFFFF0000 = push_bit 16 (drop_bit 16 h)"
    unfolding c by (rule bit_word_eqI; auto simp: bit_simps)+
qed

lemma extendTS_exact:
  assumes "ts \<le> sq_extHighestTS s" "unat (sq_extHighestTS s) - unat ts < 2 ^ 32"
  shows "extendTS s (ucast ts) = ts"
proof -
  have u: "ucast (ucast x :: u32) = take_bit 32 x" for x :: u64
    by (rule bit_word_eqI) (auto simp: bit_simps)
  have c: "(ucast y :: u32) < ucast x \<longleftrightarrow> take_bit 32 y < take_bit 32 x" for x y :: u64
    by (simp add: word_less_nat_alt unsigned_ucast_eq unsigned_take_bit_eq)
  show ?thesis
    using extend_low [OF assms]
    by (simp add: extendTS_def and_high_mask u c Let_def split: if_splits)
qed

lemma extendSN_exact:
  assumes "k \<le> sq_extHighestSN s" "unat (sq_extHighestSN s) - unat k < 2 ^ 16"
  shows "extendSN s (ucast k) = k"
proof -
  have u: "ucast (ucast x :: u16) = take_bit 16 x" for x :: u64
    by (rule bit_word_eqI) (auto simp: bit_simps)
  have c: "(ucast y :: u16) < ucast x \<longleftrightarrow> take_bit 16 y < take_bit 16 x" for x y :: u64
    by (simp add: word_less_nat_alt unsigned_ucast_eq unsigned_take_bit_eq)
  show ?thesis
    using extend_low [OF assms]
    by (simp add: extendSN_def and_high_mask u c Let_def split: if_splits)
qed

section \<open>Reachable sequencers\<close>

inductive seq_reachable :: "sequencer \<Rightarrow> bool" where
  new: "sz < 2 ^ 31 \<Longrightarrow> newSequencer sz sparse now = Some s \<Longrightarrow> seq_reachable s"
| push: "seq_reachable s \<Longrightarrow> push_ok s sn \<Longrightarrow> seq_reachable (seq_push s t src sn ts mark lay cb ni db ab)"
| padding: "seq_reachable s \<Longrightarrow> padding_ok s start end \<Longrightarrow> seq_reachable (pushPadding s start end)"
| nacks: "seq_reachable s \<Longrightarrow> seq_reachable (fst (getExtPacketMetas s now sns))"
| rtt: "seq_reachable s \<Longrightarrow> seq_reachable (setRTT s rtt)"

lemma seq_reachable_inv: "seq_reachable s \<Longrightarrow> seq_inv s"
proof (induction rule: seq_reachable.induct)
  case (new sz sparse now s)
  then show ?case
    by (auto simp: newSequencer_def seq_inv_def fresh_inv_def nack_ok_def split: if_splits)
next
  case (rtt s rtt)
  have "offset_inv (setRTT s rtt) = offset_inv s" by (rule offset_inv_cong) (simp_all add: setRTT_def)
  moreover have "fresh_inv (setRTT s rtt) = fresh_inv s" by (simp add: setRTT_def fresh_inv_def)
  ultimately show ?case using rtt by (simp add: seq_inv_def) (simp add: setRTT_def)
next
  case (nacks s now sns)
  then show ?case by (simp add: getExtPacketMetas_def nackLoop_inv)
qed (use seq_push_inv pushPadding_inv in auto)

section \<open>Round trip\<close>

lemma bytes_back:
  "length bs < 256 \<Longrightarrow> (if length (overflowBytes bs) \<noteq> 0 then overflowBytes bs
     else take (unat (of_nat (length bs) :: u8)) (fixedBytes bs)) = bs"
  by (auto simp: overflowBytes_def fixedBytes_def unat_of_nat)

lemma pushMeta_bytes:
  assumes "length cb < 256" "length db < 256"
  shows "metaCodecBytes (pushMeta s t src sn ts mark lay cb ni db ab) = cb"
    "metaDdBytes (pushMeta s t src sn ts mark lay cb ni db ab) = db"
  unfolding metaCodecBytes_def metaDdBytes_def pushMeta_def packetMeta.simps
  by (rule bytes_back [OF assms(1)], rule bytes_back [OF assms(2)])

lemma sint_neg:
  fixes a h :: u64
  assumes "a \<le> h" "unat h < 2 ^ 63"
  shows "sint (a - h) = - int (unat (h - a))"
proof -
  have u: "uint h < 2 ^ 63"
    using assms(2) uint_ge_0 [of h] unfolding unat_eq_nat_uint by (metis nat_less_numeral_power_cancel_iff)
  have le: "uint a \<le> uint h" using assms(1) by (simp add: word_le_def)
  have "signed_take_bit 63 (uint a - uint h) = uint a - uint h"
    using u le uint_ge_0 [of a] uint_ge_0 [of h] by (intro signed_take_bit_int_eq_self) linarith+
  moreover have "sint (a - h) = signed_take_bit 63 (take_bit 64 (uint a - uint h))"
    by (simp add: sint_uint uint_word_ariths take_bit_eq_mod)
  ultimately have "sint (a - h) = uint a - uint h" by (simp add: signed_take_bit_take_bit)
  moreover have "int (unat (h - a)) = uint h - uint a" using le by (simp add: uint_sub_if')
  ultimately show ?thesis by simp
qed

lemma offsetOf_new:
  assumes "offset_inv s" "sq_extHighestSN s < k"
  shows "offsetOf s k = Some (sq_snOffset s)"
proof (cases "sq_snRangeMap s")
  case None
  then show ?thesis using assms by (simp add: offset_inv_def offsetOf_def)
next
  case (Some m)
  then have c: "mcore m (sq_extHighestSN s) (sq_snOffset s)" using assms by (simp add: offset_inv_def)
  have "sq_extHighestSN s + 1 \<le> k" using assms(2) by (rule inc_le)
  then have "open_start m \<le> k" using c by (auto simp: mcore_def)
  then have "GetValue m k = Inr (open_value m)" by (rule rm.lookup_tail [OF mcoreD(1) [OF c]])
  then show ?thesis using c Some by (simp add: offsetOf_def mcore_def)
qed

lemma offsetOf_cong: "sq_snRangeMap s = sq_snRangeMap s' \<Longrightarrow> offsetOf s = offsetOf s'"
  by (simp add: offsetOf_def fun_eq_iff)

text \<open>A recorded packet, new or late, can be looked up under its outgoing number.\<close>

lemma push_lookup:
  fixes t ni lay :: int and mark :: bool and cb db ab :: bytes
  assumes inv: "seq_inv s" and ok: "push_ok s sn" and acc: "accepts (seq_init s sn ts) sn a"
    and nd: "sq_initialized s \<Longrightarrow> sn \<noteq> sq_extHighestSN s" and src: "src \<noteq> 0"
  defines "s' \<equiv> seq_push s t src sn ts mark lay cb ni db ab"
  shows "lookupExtPacketMeta s' sn =
    Some \<lparr>epm_packetMeta = pushMeta (seq_init s sn ts) t src sn ts mark lay cb ni db ab,
      epm_extSequenceNumber = sn, epm_extTimestamp = extendTS s' (ucast ts)\<rparr>"
proof -
  define s1 where "s1 = seq_init s sn ts"
  have i1: "seq_inv s1" "sq_initialized s1"
    using seq_init_inv [OF inv] ok by (simp_all add: s1_def push_ok_def)
  then have oi: "offset_inv s1" and sz: "0 < sq_size s1" "sq_size s1 < 2 ^ 31" "length (sq_meta s1) = sq_size s1"
    and hb: "unat (hadj s1) < 2 ^ 63" by (auto simp: seq_inv_def offset_inv_def)
  note S = seq_push_accept [OF acc, of t src mark lay cb ni db ab, folded s1_def s'_def]
  have ac: "adjustSN s1 sn = Some a" "- int (sq_size s1) < sint (a - hadj s1)"
    using acc by (simp_all add: accepts_def s1_def)
  have key: "\<exists>v. offsetOf s1 sn = Some v \<and> a = sn - v \<and> hadj s' - a < of_nat (sq_size s1)"
  proof (cases "sq_extHighestSN s1 < sn")
    case True
    then have "hadj s' = sn - sq_snOffset s1" using S by (simp add: max_absorb2)
    moreover have "a = sn - sq_snOffset s1" 
      using ac(1) less_not_sym [OF True] by (simp only: adjustSN_def if_False option.inject)
    moreover have "(0 :: u64) < of_nat (sq_size s1)" using sz by (simp add: word_less_nat_alt unat_of_nat)
    ultimately show ?thesis using offsetOf_new [OF oi True] by auto
  next
    case False
    then have le: "sn \<le> sq_extHighestSN s1" by simp
    have "sn \<noteq> sq_extHighestSN s1 \<or> offsetOf s1 sn = Some (sq_snOffset s1)"
    proof (cases "sq_initialized s")
      case True
      then show ?thesis using nd by (simp add: s1_def seq_init_def)
    next
      case False
      then have fr: "fresh_inv s" "sq_snRangeMap s1 = sq_snRangeMap s" "sq_extHighestSN s1 = sn"
        using inv by (simp_all add: seq_inv_def s1_def seq_init_def)
      show ?thesis
      proof (cases "sq_snRangeMap s")
        case None
        then show ?thesis using fr oi by (simp add: offsetOf_def offset_inv_def)
      next
        case (Some m)
        then obtain n where "m = NewRangeMap n" using fr(1) by (auto simp: fresh_inv_def)
        then have "open_start m \<le> sn" by (simp add: NewRangeMap_def initRanges_def)
        moreover have c: "mcore m sn (sq_snOffset s1)" using oi fr Some by (simp add: offset_inv_def)
        ultimately have "GetValue m sn = Inr (sq_snOffset s1)"
          using rm.lookup_tail [OF mcoreD(1) [OF c]] by (simp add: mcore_def)
        then show ?thesis using fr Some by (simp add: offsetOf_def)
      qed
    qed
    then have "map_option ((-) sn) (offsetOf s1 sn) = Some a"
      using adjustSN_offsetOf [OF oi _ le] ac(1) by simp
    then obtain v where v: "offsetOf s1 sn = Some v" "a = sn - v" by (auto simp: map_option_eq_Some)
    have al: "a \<le> hadj s1" using offsetOf_le [OF oi le v(1)] v(2) by simp
    have "int (unat (hadj s1 - a)) < int (sq_size s1)" using sint_neg [OF al hb] ac(2) by linarith
    then have "unat (hadj s1 - a) < sq_size s1" by (simp only: of_nat_less_iff)
    then have "hadj s1 - a < of_nat (sq_size s1)" using sz by (simp add: word_less_nat_alt unat_of_nat)
    moreover have "hadj s' = hadj s1" using S le by (simp add: max_absorb1)
    ultimately show ?thesis using v by simp
  qed
  have sl: "slotOf s' = slotOf s1" by (rule slotOf_cong) (simp add: S)
  have len: "slotOf s1 a < length (sq_meta (invalidated s1 a))" using slotOf_bound [OF sz(1,2)] sz(3) by simp
  have at: "sq_meta s' ! slotOf s1 a = pushMeta s1 t src sn ts mark lay cb ni db ab"
    unfolding S(7) using len by simp
  have "\<not> isInvalidSlot s' (slotOf s1 a)"
    using len src at by (simp add: isInvalidSlot_def S(7) pushMeta_def)
  moreover have "offsetOf s' = offsetOf s1" by (rule offsetOf_cong) (simp add: S)
  ultimately show ?thesis
    using key at S(1,2) i1(2) sl
    by (auto simp: lookupExtPacketMeta_def Let_def s1_def [symmetric] not_le pushMeta_def)
qed

text \<open>Recording a newer packet leaves every packet that stays in the window alone.\<close>

lemma window_slot:
  assumes sz: "0 < sq_size s" "sq_size s < 2 ^ 31" and b: "b < x" "unat x - unat b < sq_size s"
  shows "slotOf s x \<noteq> slotOf s b"
proof
  assume "slotOf s x = slotOf s b"
  then have "unat x mod sq_size s = unat b mod sq_size s" by (simp add: slotOf_less [OF sz])
  then have "sq_size s dvd unat x - unat b" 
    using mod_eq_dvd_iff_nat [of "unat b" "unat x" "sq_size s"] b(1) by (simp add: word_less_nat_alt)
  moreover have "0 < unat x - unat b" using b(1) by (simp add: word_less_nat_alt)
  ultimately show False using b(2) by (simp add: nat_dvd_not_less)
qed

lemma push_keeps_slot:
  assumes inv: "seq_inv s" "sq_initialized s" and acc: "accepts s sn a" and new: "sq_extHighestSN s < sn"
    and ok: "push_ok s sn" and c: "c \<le> hadj s" and win: "unat a - unat c < sq_size s"
  shows "sq_meta (seq_push s t src sn ts mark lay cb ni db ab) ! slotOf s c = sq_meta s ! slotOf s c"
proof -
  have s1: "seq_init s sn ts = s" using inv by (simp add: seq_init_def)
  note S = seq_push_accept [of s sn ts a t src mark lay cb ni db ab, unfolded s1, OF acc]
  have oi: "offset_inv s" and sz: "0 < sq_size s" "sq_size s < 2 ^ 31" using inv by (auto simp: seq_inv_def)
  have hb: "unat (hadj s) < 2 ^ 63" using oi by (simp add: offset_inv_def)
  have a: "a = sn - sq_snOffset s"
    using acc less_not_sym [OF new] by (auto simp: accepts_def adjustSN_def)
  have b: "unat sn + unat (sq_extHighestSN s + 1 - sq_snOffset s) < 2 ^ 63 - 1"
    using ok inv uint_sum_unat by (simp add: push_ok_def)
  have "offset_inv (s\<lparr>sq_extHighestSN := sn\<rparr>)" using offset_inv_advance [OF oi _ b] new by simp
  then have ab: "unat a < 2 ^ 63" using a by (simp add: offset_inv_def)
  have ah: "a = hadj s + (sn - sq_extHighestSN s)" by (simp add: a)
  have "unat (sn - sq_extHighestSN s) = unat sn - unat (sq_extHighestSN s)"
    using new by (intro unat_sub) simp
  moreover have "unat sn < 2 ^ 63" using b by simp
  ultimately have ua: "unat a = unat (hadj s) + (unat sn - unat (sq_extHighestSN s))"
    unfolding ah using hb by (subst unat_add_u64) simp_all
  have gt: "hadj s < a" using ua new by (simp add: word_less_nat_alt)
  have "slotOf s (hadj s + 1 + of_nat j) \<noteq> slotOf s c" if "j < unat (a - (hadj s + 1))" for j
  proof -
    have h1: "unat (hadj s + 1) = unat (hadj s) + 1" using hb by (subst unat_add_u64) simp_all
    have "unat (a - (hadj s + 1)) = unat a - unat (hadj s + 1)" using gt inc_le by (intro unat_sub) blast
    then have j: "unat (hadj s) + 1 + j < unat a" using that h1 by simp
    then have "unat (hadj s + 1 + of_nat j) = unat (hadj s) + 1 + j"
      using h1 ab by (subst unat_add_u64) (simp_all add: unat_of_nat)
    then show ?thesis
      using c j win by (intro window_slot [OF sz]) (simp_all add: word_less_nat_alt word_le_nat_alt)
  qed
  then have "sq_meta (invalidated s a) ! slotOf s c = sq_meta s ! slotOf s c"
    using gt by (simp add: invalidated_def) (intro invalidateLoop_keeps, blast)
  moreover have "slotOf s a \<noteq> slotOf s c"
    using c gt win by (intro window_slot [OF sz]) auto
  ultimately show ?thesis unfolding S(7) by simp
qed

section \<open>One call answers each packet at most once\<close>

lemma nackLoop_spec:
  assumes "nackLoop refTime sns s = (s', rs)"
  shows "distinct (map (\<lambda>e. targetSeqNo (epm_packetMeta e)) rs) \<and> sq_rtt s' = sq_rtt s \<and>
    (\<forall>e\<in>set rs. let sn = targetSeqNo (epm_packetMeta e); m = sq_meta s ! nackSlot s sn in
      sn \<in> set sns \<and> nackSlot s sn < length (sq_meta s) \<and> nack_due refTime (sq_rtt s) m \<and>
      epm_packetMeta e = m\<lparr>nacked := nacked m + 1, lastNack := refTime\<rparr>)"
  using assms
proof (induction sns arbitrary: s s' rs)
  case (Cons sn sns)
  obtain s1 r where n: "nackOne refTime sn s = (s1, r)" by fastforce
  obtain s2 rs1 where l: "nackLoop refTime sns s1 = (s2, rs1)" by fastforce
  note IH = Cons.IH [OF l]
  have out: "s' = s2" "rs = (case r of None \<Rightarrow> rs1 | Some e \<Rightarrow> e # rs1)"
    using Cons.prems n l by (simp_all add: Let_def)
  show ?case
  proof (cases rule: nackOne_cases [OF n])
    case 1
    then show ?thesis using IH out by (auto simp: Let_def)
  next
    case (2 slot meta)
    let ?m = "meta\<lparr>nacked := nacked meta + 1, lastNack := refTime\<rparr>"
    have s1: "sq_meta s1 = (sq_meta s)[slot := ?m]" "nackSlot s1 = nackSlot s" "sq_rtt s1 = sq_rtt s"
      unfolding 2(6) by simp_all
    have new: "nackSlot s k \<noteq> slot" if "nack_due refTime (sq_rtt s) (sq_meta s1 ! nackSlot s k)" for k
      using nack_due_fresh [OF that] 2(2) by (auto simp: s1(1))
    have rest: "nackSlot s (targetSeqNo (epm_packetMeta e)) \<noteq> slot \<and>
        sq_meta s1 ! nackSlot s (targetSeqNo (epm_packetMeta e)) = sq_meta s ! nackSlot s (targetSeqNo (epm_packetMeta e))"
      if "e \<in> set rs1" for e
    proof -
      have "nack_due refTime (sq_rtt s) (sq_meta s1 ! nackSlot s (targetSeqNo (epm_packetMeta e)))"
        using IH that by (simp add: Let_def s1)
      from new [OF this] show ?thesis by (simp add: s1(1))
    qed
    have "sn \<notin> (\<lambda>e. targetSeqNo (epm_packetMeta e)) ` set rs1" using rest 2(1) by auto
    then show ?thesis
      using IH out 2 rest by (auto simp: Let_def s1)
  qed
qed simp

section \<open>Properties\<close>

definition demo_seq0 :: sequencer where
  "demo_seq0 = the (newSequencer 8 True 0)"

definition demo_seq1 :: sequencer where
  "demo_seq1 = seq_push demo_seq0 5000000 50 1000 90000 True 0 [1, 2, 3] 2 [] []"

definition demo_seq2 :: sequencer where
  "demo_seq2 = pushPadding demo_seq1 1001 1003"

lemma demo_seq_reachable: "seq_reachable demo_seq0" "seq_reachable demo_seq1" "seq_reachable demo_seq2"
proof -
  have "(8 :: nat) < 2 ^ 31" by simp
  then show r0: "seq_reachable demo_seq0"
    unfolding demo_seq0_def by (rule seq_reachable.new [of 8 True 0]) (simp add: newSequencer_def)
  have "push_ok demo_seq0 1000" by code_simp
  then show r1: "seq_reachable demo_seq1" unfolding demo_seq1_def by (rule seq_reachable.push [OF r0])
  have "padding_ok demo_seq1 1001 1003" by code_simp
  then show "seq_reachable demo_seq2" unfolding demo_seq2_def by (rule seq_reachable.padding [OF r1])
qed



text \<open>
  The window is kept: recording a newer packet does not disturb any stored packet whose
  adjusted number is less than \<open>size\<close> behind the new one; the same metadata is found for it as
  before, although the slots of the numbers skipped in between are invalidated.
\<close>

theorem push_keeps_window:
  assumes "seq_reachable s" "sq_initialized s" "push_ok s sn" "accepts s sn a" "sq_extHighestSN s < sn"
    and "k \<le> sq_extHighestSN s" "lookupExtPacketMeta s k = Some e" "offsetOf s k = Some v"
    and "unat a - unat (k - v) < sq_size s"
    and "s' = seq_push s t src sn ts mark lay cb ni db ab"
  shows "\<exists>e'. lookupExtPacketMeta s' k = Some e' \<and> epm_packetMeta e' = epm_packetMeta e"
proof -
  have inv: "seq_inv s" by (rule seq_reachable_inv [OF assms(1)])
  then have oi: "offset_inv s" and sz: "0 < sq_size s" "sq_size s < 2 ^ 31" "length (sq_meta s) = sq_size s"
    using assms(2) by (auto simp: seq_inv_def)
  have s1: "seq_init s sn ts = s" using assms(2) by (simp add: seq_init_def)
  note S = seq_push_accept [of s sn ts a t src mark lay cb ni db ab, unfolded s1, OF assms(4), folded assms(10)]
  have c: "k - v \<le> hadj s" by (rule offsetOf_le [OF oi assms(6,8)])
  have keep: "sq_meta s' ! slotOf s (k - v) = sq_meta s ! slotOf s (k - v)"
    using push_keeps_slot [OF inv assms(2,4,5,3) c assms(9)] assms(10) by simp
  have a: "a = sn - sq_snOffset s"
    using assms(4) less_not_sym [OF assms(5)] by (auto simp: accepts_def adjustSN_def)
  have "hadj s' = a" using S assms(5) a by (simp add: max_absorb2)
  moreover have "a - (k - v) < of_nat (sq_size s)"
  proof (cases "k - v \<le> a")
    case True
    then show ?thesis using assms(9) sz by (simp add: word_less_nat_alt unat_sub unat_of_nat)
  next
    case False
    have b: "unat sn + unat (sq_extHighestSN s + 1 - sq_snOffset s) < 2 ^ 63 - 1"
      using assms(2,3) uint_sum_unat by (simp add: push_ok_def)
    have "offset_inv (s\<lparr>sq_extHighestSN := sn\<rparr>)" using offset_inv_advance [OF oi _ b] assms(5) by simp
    moreover have "offsetOf (s\<lparr>sq_extHighestSN := sn\<rparr>) k = Some v" using assms(8) by (simp add: offsetOf_def)
    ultimately have "k - v \<le> a" using offsetOf_le [of "s\<lparr>sq_extHighestSN := sn\<rparr>" k v] assms(5,6) a by simp
    then show ?thesis using False by simp
  qed
  moreover have "slotOf s' = slotOf s" "offsetOf s' = offsetOf s"
    by (rule slotOf_cong, simp add: S) (rule offsetOf_cong, simp add: S)
  moreover have "slotOf s (k - v) < length (sq_meta s')"
    using slotOf_bound [OF sz(1,2)] sz(3) S(7) by simp
  ultimately show ?thesis
    using assms(2,7,8) keep S(1,2) sz(3)
    by (auto simp: lookupExtPacketMeta_def Let_def isInvalidSlot_def not_le S(7) split: if_splits)
qed

theorem push_keeps_window_witness:
  "\<exists>e e'. lookupExtPacketMeta demo_seq2 1000 = Some e \<and>
     lookupExtPacketMeta (seq_push demo_seq2 6000000 51 1006 93000 False 1 [] 1 [] []) 1000 = Some e' \<and>
     epm_packetMeta e' = epm_packetMeta e"
proof -
  have p: "sq_initialized demo_seq2" "push_ok demo_seq2 1006" "accepts demo_seq2 1006 1003"
    "sq_extHighestSN demo_seq2 < 1006" "1000 \<le> sq_extHighestSN demo_seq2" "offsetOf demo_seq2 1000 = Some 0"
    "unat (1003 :: u64) - unat (1000 - 0 :: u64) < sq_size demo_seq2"
    by code_simp+
  have "lookupExtPacketMeta demo_seq2 1000 \<noteq> None" by code_simp
  then obtain e where e: "lookupExtPacketMeta demo_seq2 1000 = Some e" by blast
  show ?thesis
    using push_keeps_window [OF demo_seq_reachable(3) p(1-5) e p(6,7) refl, of 6000000 51 93000 False 1 "[]" 1 "[]" "[]"] e
    by blast
qed

text \<open>
  C23: NACK policy: every packet returned for a NACK was requested, had been retransmitted fewer
  than \<open>maxAck = 3\<close> times and last more than \<open>min(100 ms, 2 rtt)\<close> ago; its counter is raised by
  one; one call never returns the same packet twice, even when it is requested twice; and no
  counter in the sequencer ever exceeds \<open>maxAck\<close>.
\<close>

theorem nack_policy:
  assumes "seq_reachable s" "getExtPacketMetas s now sns = (s', rs)"
  shows "distinct (map (\<lambda>e. targetSeqNo (epm_packetMeta e)) rs) \<and>
    (\<forall>e\<in>set rs. targetSeqNo (epm_packetMeta e) \<in> set sns \<and>
      (\<exists>m\<in>set (sq_meta s). epm_packetMeta e = m\<lparr>nacked := nacked m + 1, lastNack := getRefTime s now\<rparr> \<and>
        nacked m < 3 \<and> min 100 (2 * sq_rtt s) < getRefTime s now - lastNack m)) \<and>
    (\<forall>m\<in>set (sq_meta s'). nacked m \<le> 3)"
proof -
  have "seq_reachable (fst (getExtPacketMetas s now sns))" by (rule seq_reachable.nacks [OF assms(1)])
  then have "seq_inv s'" using seq_reachable_inv assms(2) by simp
  then have "\<forall>m\<in>set (sq_meta s'). nacked m \<le> 3" by (simp add: seq_inv_def nack_ok_def maxAck_def)
  moreover have "rs = [] \<or> nackLoop (getRefTime s now) sns s = (s', rs)"
    using assms(2) by (auto simp: getExtPacketMetas_def split: if_splits)
  ultimately show ?thesis
    using nackLoop_spec [of "getRefTime s now" sns s s' rs]
    by (auto simp: Let_def nack_due_def maxAck_def ignoreRetransmission_def intro!: bexI [OF _ nth_mem])
qed

theorem nack_policy_witness:
  "\<exists>s' e. getExtPacketMetas demo_seq2 500000000 [1000, 1000, 1002] = (s', [e]) \<and>
     targetSeqNo (epm_packetMeta e) = 1000 \<and> (\<forall>m\<in>set (sq_meta s'). nacked m \<le> 3)"
proof -
  have "map (\<lambda>e. targetSeqNo (epm_packetMeta e)) (snd (getExtPacketMetas demo_seq2 500000000 [1000, 1000, 1002])) = [1000]"
    by code_simp
  then obtain s' e where r: "getExtPacketMetas demo_seq2 500000000 [1000, 1000, 1002] = (s', [e])"
    "targetSeqNo (epm_packetMeta e) = 1000"
    by (cases "getExtPacketMetas demo_seq2 500000000 [1000, 1000, 1002]") auto
  then show ?thesis using nack_policy [OF demo_seq_reachable(3) r(1)] by auto
qed

end
