(* ===== verification/Vp8_Descriptor.thy ===== *)
theory Vp8_Descriptor
  imports Prelude
begin

text \<open>
  \<^verbatim>\<open>pkg/sfu/buffer/helpers.go\<close>, the VP8 payload descriptor: the struct \<open>VP8\<close>, its parser
  \<open>Unmarshal\<close> and its printer \<open>Marshal\<close>/\<open>MarshalTo\<close>. A slice access outside the slice, which
  panics in Go, is the error value \<open>vp8Panic\<close>.
\<close>

section \<open>Model\<close>

datatype vp8Err = errShortPacket | errNilPacket | errInvalidPacket | vp8Panic

record VP8 =
  vp8_FirstByte :: u8
  vp8_S :: bool
  vp8_I :: bool
  vp8_M :: bool
  vp8_PictureID :: u16
  vp8_L :: bool
  vp8_TL0PICIDX :: u8
  vp8_T :: bool
  vp8_TID :: u8
  vp8_Y :: bool
  vp8_K :: bool
  vp8_KEYIDX :: u8
  vp8_HeaderSize :: int
  vp8_IsKeyFrame :: bool

text \<open>The zero value of the struct, on which the buffer calls \<open>Unmarshal\<close>.\<close>

definition VP8_zero :: VP8 where
  "VP8_zero = \<lparr>vp8_FirstByte = 0, vp8_S = False, vp8_I = False, vp8_M = False, vp8_PictureID = 0,
     vp8_L = False, vp8_TL0PICIDX = 0, vp8_T = False, vp8_TID = 0, vp8_Y = False, vp8_K = False,
     vp8_KEYIDX = 0, vp8_HeaderSize = 0, vp8_IsKeyFrame = False\<rparr>"

subsection \<open>Unmarshal\<close>

text \<open>
  The parser updates its receiver as it goes, also when it then fails. Each stage takes the
  receiver, the payload and the index of the last byte read and returns the receiver with the
  new index or the error.
\<close>

definition readPictureID :: "VP8 \<Rightarrow> bytes \<Rightarrow> nat \<Rightarrow> VP8 \<times> (vp8Err + nat)" where
  "readPictureID v p idx =
     (if \<not> vp8_I v then (v, Inr idx)
      else let idx = idx + 1 in
        if length p < idx + 1 then (v, Inl errShortPacket)
        else
          let pid = p ! idx AND 0x7f; v = v\<lparr>vp8_M := (p ! idx AND 0x80) > 0\<rparr> in
          if vp8_M v then
            let idx = idx + 1 in
            if length p < idx + 1 then (v, Inl errShortPacket)
            else (v\<lparr>vp8_PictureID := push_bit 8 (ucast pid) OR ucast (p ! idx)\<rparr>, Inr idx)
          else (v\<lparr>vp8_PictureID := ucast pid\<rparr>, Inr idx))"

definition readTL0PICIDX :: "VP8 \<Rightarrow> bytes \<Rightarrow> nat \<Rightarrow> VP8 \<times> (vp8Err + nat)" where
  "readTL0PICIDX v p idx =
     (if \<not> vp8_L v then (v, Inr idx)
      else let idx = idx + 1 in
        if length p < idx + 1 then (v, Inl errShortPacket)
        else (v\<lparr>vp8_TL0PICIDX := p ! idx\<rparr>, Inr idx))"

definition readTidKeyIdx :: "VP8 \<Rightarrow> bytes \<Rightarrow> nat \<Rightarrow> VP8 \<times> (vp8Err + nat)" where
  "readTidKeyIdx v p idx =
     (if \<not> (vp8_T v \<or> vp8_K v) then (v, Inr idx)
      else let idx = idx + 1 in
        if length p < idx + 1 then (v, Inl errShortPacket)
        else
          let v = (if vp8_T v
                   then v\<lparr>vp8_TID := drop_bit 6 (p ! idx AND 0xc0), vp8_Y := (p ! idx AND 0x20) > 0\<rparr>
                   else v);
              v = (if vp8_K v then v\<lparr>vp8_KEYIDX := p ! idx AND 0x1f\<rparr> else v)
          in (v, Inr idx))"

definition readKeyFrameBit :: "VP8 \<Rightarrow> bytes \<Rightarrow> nat \<Rightarrow> VP8 \<times> vp8Err option" where
  "readKeyFrameBit v p idx =
     (let idx = idx + 1 in
      if length p < idx + 1 then (v, Some errShortPacket)
      else (v\<lparr>vp8_IsKeyFrame := (p ! idx AND 0x01) = 0 \<and> vp8_S v, vp8_HeaderSize := int idx\<rparr>, None))"

definition vp8_Unmarshal :: "VP8 \<Rightarrow> bytes option \<Rightarrow> VP8 \<times> vp8Err option" where
  "vp8_Unmarshal v payload =
     (case payload of None \<Rightarrow> (v, Some errNilPacket)
      | Some p \<Rightarrow>
        if length p < 1 then (v, Some errShortPacket)
        else
          let v = v\<lparr>vp8_FirstByte := p ! 0, vp8_S := (p ! 0 AND 0x10) > 0\<rparr> in
          if (p ! 0 AND 0x80) > 0 then
            if length p < 2 then (v, Some errShortPacket)
            else
              let v = v\<lparr>vp8_I := (p ! 1 AND 0x80) > 0, vp8_L := (p ! 1 AND 0x40) > 0,
                        vp8_T := (p ! 1 AND 0x20) > 0, vp8_K := (p ! 1 AND 0x10) > 0\<rparr> in
              if vp8_L v \<and> \<not> vp8_T v then (v, Some errInvalidPacket)
              else case readPictureID v p 1 of
                (v, Inl e) \<Rightarrow> (v, Some e)
              | (v, Inr idx) \<Rightarrow>
                (case readTL0PICIDX v p idx of
                  (v, Inl e) \<Rightarrow> (v, Some e)
                | (v, Inr idx) \<Rightarrow>
                  (case readTidKeyIdx v p idx of
                    (v, Inl e) \<Rightarrow> (v, Some e)
                  | (v, Inr idx) \<Rightarrow> readKeyFrameBit v p idx))
          else readKeyFrameBit v p 0)"

subsection \<open>Marshal\<close>

text \<open>A write \<open>buf[i] = b\<close>.\<close>

definition setByte :: "bytes \<Rightarrow> nat \<Rightarrow> u8 \<Rightarrow> vp8Err + bytes" where
  "setByte buf i b = (if i < length buf then Inr (buf[i := b]) else Inl vp8Panic)"

definition marshalPictureID :: "VP8 \<Rightarrow> bytes \<Rightarrow> nat \<Rightarrow> u8 \<Rightarrow> vp8Err + (bytes \<times> nat \<times> u8)" where
  "marshalPictureID v buf idx xval =
     (if \<not> vp8_I v then Inr (buf, idx, xval)
      else let xval = xval OR push_bit 7 1 in
        if vp8_M v then
          bindR (setByte buf idx (0x80 OR ucast (drop_bit 8 (vp8_PictureID v) AND 0x7f))) (\<lambda>buf.
          bindR (setByte buf (idx + 1) (ucast (vp8_PictureID v AND 0xff))) (\<lambda>buf.
          Inr (buf, idx + 2, xval)))
        else
          bindR (setByte buf idx (ucast (vp8_PictureID v))) (\<lambda>buf. Inr (buf, idx + 1, xval)))"

definition marshalTL0PICIDX :: "VP8 \<Rightarrow> bytes \<Rightarrow> nat \<Rightarrow> u8 \<Rightarrow> vp8Err + (bytes \<times> nat \<times> u8)" where
  "marshalTL0PICIDX v buf idx xval =
     (if \<not> vp8_L v then Inr (buf, idx, xval)
      else bindR (setByte buf idx (vp8_TL0PICIDX v)) (\<lambda>buf. Inr (buf, idx + 1, xval OR push_bit 6 1)))"

definition marshalTidKeyIdx :: "VP8 \<Rightarrow> bytes \<Rightarrow> nat \<Rightarrow> u8 \<Rightarrow> vp8Err + (bytes \<times> nat \<times> u8)" where
  "marshalTidKeyIdx v buf idx xval =
     (if \<not> (vp8_T v \<or> vp8_K v) then Inr (buf, idx, xval)
      else
        let b = (if vp8_T v
                 then push_bit 6 (vp8_TID v) OR (if vp8_Y v then push_bit 5 1 else 0) else 0);
            b = (if vp8_K v then b OR (vp8_KEYIDX v AND 0x1f) else b);
            xval = (if vp8_T v then xval OR push_bit 5 1 else xval);
            xval = (if vp8_K v then xval OR push_bit 4 1 else xval)
        in bindR (setByte buf idx b) (\<lambda>buf. Inr (buf, idx + 1, xval)))"

definition vp8_MarshalTo :: "VP8 \<Rightarrow> bytes \<Rightarrow> vp8Err + (bytes \<times> nat)" where
  "vp8_MarshalTo v buf =
     (if int (length buf) < vp8_HeaderSize v then Inl errShortPacket
      else
        bindR (setByte buf 0 (vp8_FirstByte v)) (\<lambda>buf.
        if vp8_I v \<or> vp8_L v \<or> vp8_T v \<or> vp8_K v then
          bindR (setByte buf 0 (buf ! 0 OR 0x80)) (\<lambda>buf.
          bindR (marshalPictureID v buf 2 0) (\<lambda>(buf, idx, xval).
          bindR (marshalTL0PICIDX v buf idx xval) (\<lambda>(buf, idx, xval).
          bindR (marshalTidKeyIdx v buf idx xval) (\<lambda>(buf, idx, xval).
          bindR (setByte buf 1 xval) (\<lambda>buf. Inr (buf, idx))))))
        else
          bindR (setByte buf 0 (buf ! 0 AND NOT 0x80)) (\<lambda>buf. Inr (buf, 1))))"

definition vp8_Marshal :: "VP8 \<Rightarrow> vp8Err + bytes" where
  "vp8_Marshal v =
     (if vp8_HeaderSize v < 0 then Inl vp8Panic
      else bindR (vp8_MarshalTo v (replicate (nat (vp8_HeaderSize v)) 0)) (\<lambda>(buf, n).
        Inr (take n buf)))"

definition VPxPictureIdSizeDiff :: "bool \<Rightarrow> bool \<Rightarrow> int" where
  "VPxPictureIdSizeDiff mBit1 mBit2 = (if mBit1 = mBit2 then 0 else if mBit1 then 1 else - 1)"

section \<open>The bytes a descriptor stands for\<close>

definition vp8_ext :: "VP8 \<Rightarrow> bool" where
  "vp8_ext v \<longleftrightarrow> vp8_I v \<or> vp8_L v \<or> vp8_T v \<or> vp8_K v"

definition vp8_size :: "VP8 \<Rightarrow> nat" where
  "vp8_size v =
     (if vp8_ext v
      then 2 + (if vp8_I v then if vp8_M v then 2 else 1 else 0) + (if vp8_L v then 1 else 0) +
        (if vp8_T v \<or> vp8_K v then 1 else 0)
      else 1)"

definition flag :: "nat \<Rightarrow> bool \<Rightarrow> u8" where
  "flag n b = (if b then push_bit n 1 else 0)"

definition pid_bytes :: "VP8 \<Rightarrow> bytes" where
  "pid_bytes v =
     (if vp8_I v
      then if vp8_M v
        then [0x80 OR ucast (drop_bit 8 (vp8_PictureID v) AND 0x7f), ucast (vp8_PictureID v AND 0xff)]
        else [ucast (vp8_PictureID v)]
      else [])"

definition tl0_bytes :: "VP8 \<Rightarrow> bytes" where
  "tl0_bytes v = (if vp8_L v then [vp8_TL0PICIDX v] else [])"

definition tidkey_byte :: "VP8 \<Rightarrow> u8" where
  "tidkey_byte v = (if vp8_T v then push_bit 6 (vp8_TID v) OR flag 5 (vp8_Y v) else 0) OR
     (if vp8_K v then vp8_KEYIDX v AND 0x1f else 0)"

definition tidkey_bytes :: "VP8 \<Rightarrow> bytes" where
  "tidkey_bytes v = (if vp8_T v \<or> vp8_K v then [tidkey_byte v] else [])"

definition ext_byte :: "VP8 \<Rightarrow> u8" where
  "ext_byte v = flag 7 (vp8_I v) OR flag 6 (vp8_L v) OR flag 5 (vp8_T v) OR flag 4 (vp8_K v)"

definition vp8_bytes :: "VP8 \<Rightarrow> bytes" where
  "vp8_bytes v =
     (if vp8_ext v
      then [vp8_FirstByte v OR 0x80, ext_byte v] @ pid_bytes v @ tl0_bytes v @ tidkey_bytes v
      else [vp8_FirstByte v AND NOT 0x80])"

lemma length_vp8_bytes: "length (vp8_bytes v) = vp8_size v"
  by (auto simp: vp8_bytes_def vp8_size_def vp8_ext_def pid_bytes_def tl0_bytes_def tidkey_bytes_def)

lemma setByte_at: "i = length pre \<Longrightarrow> setByte (pre @ b # z) i c = Inr (pre @ c # z)"
  by (simp add: setByte_def)

lemma length_2_conv: "length xs = 2 \<longleftrightarrow> (\<exists>a b. xs = [a, b])"
  by (cases xs rule: remdups_adj.cases) auto

lemma marshalPictureID_bytes:
  assumes "idx = length pre" "length mid = length (pid_bytes v)"
  shows "marshalPictureID v (pre @ mid @ z) idx x =
    Inr (pre @ pid_bytes v @ z, idx + length (pid_bytes v), x OR flag 7 (vp8_I v))"
proof -
  have snd: "setByte (pre @ c # b # z) (Suc (length pre)) d = Inr (pre @ c # d # z)" for b c d
    using setByte_at [of "Suc (length pre)" "pre @ [c]" b z d] by simp
  show ?thesis
    using assms
    by (auto simp: marshalPictureID_def pid_bytes_def flag_def Let_def length_Suc_conv setByte_at snd)
qed

lemma marshalTL0PICIDX_bytes:
  assumes "idx = length pre" "length mid = length (tl0_bytes v)"
  shows "marshalTL0PICIDX v (pre @ mid @ z) idx x =
    Inr (pre @ tl0_bytes v @ z, idx + length (tl0_bytes v), x OR flag 6 (vp8_L v))"
  using assms by (auto simp: marshalTL0PICIDX_def tl0_bytes_def flag_def length_Suc_conv setByte_at)

lemma marshalTidKeyIdx_bytes:
  assumes "idx = length pre" "length mid = length (tidkey_bytes v)"
  shows "marshalTidKeyIdx v (pre @ mid @ z) idx x =
    Inr (pre @ tidkey_bytes v @ z, idx + length (tidkey_bytes v),
      x OR flag 5 (vp8_T v) OR flag 4 (vp8_K v))"
  using assms
  by (auto simp: marshalTidKeyIdx_def tidkey_bytes_def tidkey_byte_def flag_def length_Suc_conv
      setByte_at or.assoc)

lemma MarshalTo_bytes:
  assumes "length mid = vp8_size v" "vp8_HeaderSize v \<le> int (length (mid @ z))"
  shows "vp8_MarshalTo v (mid @ z) = Inr (vp8_bytes v @ z, vp8_size v)"
proof (cases "vp8_ext v")
  case False
  then obtain b where "mid = [b]" using assms(1) by (auto simp: vp8_size_def length_Suc_conv)
  then show ?thesis
    using False assms(2)
    by (simp add: vp8_MarshalTo_def vp8_bytes_def vp8_ext_def vp8_size_def setByte_def)
next
  case True
  let ?f = "vp8_FirstByte v OR 0x80"
  have "length mid = 2 + length (pid_bytes v @ tl0_bytes v @ tidkey_bytes v)"
    using assms(1) True length_vp8_bytes [of v] by (simp add: vp8_bytes_def)
  then obtain a b m where mid: "mid = a # b # m"
    and lm: "length m = length (pid_bytes v) + (length (tl0_bytes v) + length (tidkey_bytes v))"
    by (auto simp: length_Suc_conv numeral_2_eq_2)
  define m1 m2 m3 where "m1 = take (length (pid_bytes v)) m"
    and "m2 = take (length (tl0_bytes v)) (drop (length (pid_bytes v)) m)"
    and "m3 = drop (length (tl0_bytes v)) (drop (length (pid_bytes v)) m)"
  have m: "m = m1 @ m2 @ m3" "length m1 = length (pid_bytes v)" "length m2 = length (tl0_bytes v)"
    "length m3 = length (tidkey_bytes v)"
    using lm by (simp_all add: m1_def m2_def m3_def del: drop_drop)
  have p: "marshalPictureID v (?f # b # m @ z) 2 0 =
      Inr ([?f, b] @ pid_bytes v @ m2 @ m3 @ z, 2 + length (pid_bytes v), flag 7 (vp8_I v))"
    using marshalPictureID_bytes [of 2 "[?f, b]" m1 v "m2 @ m3 @ z" 0] m by simp
  have l: "marshalTL0PICIDX v ([?f, b] @ pid_bytes v @ m2 @ m3 @ z) (2 + length (pid_bytes v)) x =
      Inr ([?f, b] @ pid_bytes v @ tl0_bytes v @ m3 @ z,
        2 + length (pid_bytes v) + length (tl0_bytes v), x OR flag 6 (vp8_L v))" for x
    using marshalTL0PICIDX_bytes [of _ "[?f, b] @ pid_bytes v" m2 v "m3 @ z" x] m by simp
  have t: "marshalTidKeyIdx v ([?f, b] @ pid_bytes v @ tl0_bytes v @ m3 @ z)
      (2 + length (pid_bytes v) + length (tl0_bytes v)) x =
      Inr ([?f, b] @ pid_bytes v @ tl0_bytes v @ tidkey_bytes v @ z,
        2 + length (pid_bytes v) + length (tl0_bytes v) + length (tidkey_bytes v),
        x OR flag 5 (vp8_T v) OR flag 4 (vp8_K v))" for x
    using marshalTidKeyIdx_bytes [of _ "[?f, b] @ pid_bytes v @ tl0_bytes v" m3 v z x] m by simp
  have size: "2 + length (pid_bytes v) + length (tl0_bytes v) + length (tidkey_bytes v) = vp8_size v"
    using True length_vp8_bytes [of v] by (simp add: vp8_bytes_def)
  show ?thesis
    using True assms(2)
    by (simp add: vp8_MarshalTo_def mid setByte_def vp8_ext_def [symmetric] p l [simplified] t [simplified]
        size [simplified] vp8_bytes_def ext_byte_def or.assoc)
qed

lemma Marshal_bytes:
  assumes "int (vp8_size v) \<le> vp8_HeaderSize v"
  shows "vp8_Marshal v = Inr (vp8_bytes v)"
proof -
  define n where "n = nat (vp8_HeaderSize v)"
  have n: "vp8_size v \<le> n" and hs: "vp8_HeaderSize v = int n" using assms by (auto simp: n_def)
  have "replicate n (0 :: u8) = replicate (vp8_size v) 0 @ replicate (n - vp8_size v) 0"
    using n by (simp flip: replicate_add)
  then show ?thesis
    using MarshalTo_bytes [of "replicate (vp8_size v) 0" v "replicate (n - vp8_size v) 0"] n
    by (simp add: vp8_Marshal_def hs length_vp8_bytes)
qed

section \<open>Parsing what was printed\<close>

text \<open>The descriptors that a VP8 packet can carry, as the parser stores them.\<close>

definition vp8_wf :: "VP8 \<Rightarrow> bool" where
  "vp8_wf v \<longleftrightarrow> (vp8_L v \<longrightarrow> vp8_T v) \<and>
     (if vp8_I v then vp8_PictureID v < (if vp8_M v then 0x8000 else 0x80)
      else \<not> vp8_M v \<and> vp8_PictureID v = 0) \<and>
     (\<not> vp8_L v \<longrightarrow> vp8_TL0PICIDX v = 0) \<and>
     (if vp8_T v then vp8_TID v < 4 else vp8_TID v = 0 \<and> \<not> vp8_Y v) \<and>
     (if vp8_K v then vp8_KEYIDX v < 32 else vp8_KEYIDX v = 0) \<and>
     vp8_HeaderSize v = int (vp8_size v) \<and>
     vp8_S v = bit (vp8_FirstByte v) 4 \<and> bit (vp8_FirstByte v) 7 = vp8_ext v"

lemma bit_flag [simp]: "n < 8 \<Longrightarrow> bit (flag n b) m \<longleftrightarrow> b \<and> m = n"
  by (auto simp: flag_def bit_simps)

lemma or_first: "bit x 7 \<Longrightarrow> x OR 0x80 = x" for x :: u8
  by (rule bit_word_eqI) (auto simp: bit_simps bit_consts)

lemma and_not_first: "\<not> bit x 7 \<Longrightarrow> x AND NOT 0x80 = x" for x :: u8
  by (rule bit_word_eqI) (auto simp: bit_simps bit_consts)

lemma pid15:
  fixes P :: u16
  assumes "P < 0x8000"
  shows "push_bit 8 (ucast ((0x80 OR ucast (drop_bit 8 P AND 0x7f)) AND 0x7f :: u8)) OR
    ucast (ucast (P AND 0xff) :: u8) = P"
proof (rule bit_word_eqI)
  have "unat P < 2 ^ 15" using assms by (simp add: word_less_nat_alt)
  then have b: "bit P n \<Longrightarrow> n < 15" for n by (rule bit_less_exp)
  show "bit (push_bit 8 (ucast ((0x80 OR ucast (drop_bit 8 P AND 0x7f)) AND 0x7f :: u8)) OR
      ucast (ucast (P AND 0xff) :: u8) :: u16) n = bit P n" if "n < LENGTH(16)" for n
    using that b [of n] by (cases "n < 8") (auto simp: bit_simps bit_consts)
qed

lemma pid7:
  fixes P :: u16
  assumes "P < 0x80"
  shows "ucast (ucast P AND 0x7f :: u8) = P" "\<not> bit (ucast P :: u8) 7"
proof -
  have "unat P < 2 ^ 7" using assms by (simp add: word_less_nat_alt)
  then have b: "bit P n \<Longrightarrow> n < 7" for n by (rule bit_less_exp)
  show "ucast (ucast P AND 0x7f :: u8) = P"
    by (rule bit_word_eqI) (use b in \<open>fastforce simp: bit_simps bit_consts\<close>)
  show "\<not> bit (ucast P :: u8) 7" using b [of 7] by (auto simp: bit_simps)
qed

lemma tid_key:
  fixes t k :: u8
  assumes "t < 4" "k < 32"
  shows "drop_bit 6 ((push_bit 6 t OR flag 5 y OR (k AND 0x1f)) AND 0xc0) = t"
    "bit (push_bit 6 t OR flag 5 y OR (k AND 0x1f)) 5 = y"
    "(push_bit 6 t OR flag 5 y OR (k AND 0x1f)) AND 0x1f = k"
proof -
  have "unat t < 2 ^ 2" "unat k < 2 ^ 5" using assms by (simp_all add: word_less_nat_alt)
  then have t: "bit t n \<Longrightarrow> n < 2" and k: "bit k n \<Longrightarrow> n < 5" for n by (auto intro: bit_less_exp)
  show "drop_bit 6 ((push_bit 6 t OR flag 5 y OR (k AND 0x1f)) AND 0xc0) = t"
  proof (rule bit_word_eqI)
    show "bit (drop_bit 6 ((push_bit 6 t OR flag 5 y OR (k AND 0x1f)) AND 0xc0)) n = bit t n" for n
      using t [of n] by (auto simp: bit_simps bit_consts)
  qed
  show "bit (push_bit 6 t OR flag 5 y OR (k AND 0x1f)) 5 = y"
    by (simp add: bit_simps bit_consts)
  show "(push_bit 6 t OR flag 5 y OR (k AND 0x1f)) AND 0x1f = k"
    by (rule bit_word_eqI) (use k in \<open>fastforce simp: bit_simps bit_consts\<close>)
qed

text \<open>The stages of the parser, one byte group each.\<close>

lemma readPictureID_bytes:
  assumes "vp8_wf v" "Suc idx = length pre" "vp8_I w = vp8_I v" "vp8_M w = False" "vp8_PictureID w = 0"
  shows "readPictureID w (pre @ pid_bytes v @ z) idx =
    (w\<lparr>vp8_M := vp8_M v, vp8_PictureID := vp8_PictureID v\<rparr>, Inr (idx + length (pid_bytes v)))"
proof -
  have b: "bit (0x80 OR x :: u8) 7" for x by (simp add: bit_simps)
  have n: "(pre @ x # y # z) ! Suc (length pre) = y" for x y by (simp add: nth_append)
  have pid: "vp8_I v \<Longrightarrow> vp8_M v \<Longrightarrow> vp8_PictureID v < 0x8000"
    "vp8_I v \<Longrightarrow> \<not> vp8_M v \<Longrightarrow> vp8_PictureID v < 0x80"
    "\<not> vp8_I v \<Longrightarrow> \<not> vp8_M v \<and> vp8_PictureID v = 0"
    using assms(1) by (auto simp: vp8_wf_def)
  show ?thesis
  proof (cases "vp8_I v")
    case True
    then show ?thesis
      using assms(2-5) pid(1,2) pid15 [of "vp8_PictureID v"] pid7 [of "vp8_PictureID v"]
      by (cases "vp8_M v") (simp_all add: readPictureID_def pid_bytes_def Let_def n b)
  next
    case False
    then show ?thesis using assms(3-5) pid(3) by (simp add: readPictureID_def pid_bytes_def)
  qed
qed

lemma readTL0PICIDX_bytes:
  assumes "vp8_wf v" "Suc idx = length pre" "vp8_L w = vp8_L v" "vp8_TL0PICIDX w = 0"
  shows "readTL0PICIDX w (pre @ tl0_bytes v @ z) idx =
    (w\<lparr>vp8_TL0PICIDX := vp8_TL0PICIDX v\<rparr>, Inr (idx + length (tl0_bytes v)))"
  using assms by (auto simp: readTL0PICIDX_def tl0_bytes_def vp8_wf_def Let_def nth_append)

lemma readTidKeyIdx_bytes:
  assumes "vp8_wf v" "Suc idx = length pre" "vp8_T w = vp8_T v" "vp8_K w = vp8_K v"
    "vp8_TID w = 0" "vp8_Y w = False" "vp8_KEYIDX w = 0"
  shows "readTidKeyIdx w (pre @ tidkey_bytes v @ z) idx =
    (w\<lparr>vp8_TID := vp8_TID v, vp8_Y := vp8_Y v, vp8_KEYIDX := vp8_KEYIDX v\<rparr>,
     Inr (idx + length (tidkey_bytes v)))"
proof -
  define t k where "t = (if vp8_T v then vp8_TID v else 0)" and "k = (if vp8_K v then vp8_KEYIDX v else 0)"
  have tk: "t < 4" "k < 32" using assms(1) by (auto simp: t_def k_def vp8_wf_def split: if_splits)
  have "tidkey_byte v = push_bit 6 t OR flag 5 (vp8_Y v) OR (k AND 0x1f)"
    using assms(1) by (auto simp: tidkey_byte_def t_def k_def vp8_wf_def flag_def or.assoc split: if_splits)
  note tid_key [OF tk, of "vp8_Y v", folded this]
  then show ?thesis
    using assms
    by (auto simp: readTidKeyIdx_def tidkey_bytes_def vp8_wf_def Let_def t_def k_def split: if_splits)
qed

lemma Unmarshal_bytes:
  assumes wf: "vp8_wf v"
  shows "vp8_Unmarshal VP8_zero (Some (vp8_bytes v @ b # rest)) =
    (v\<lparr>vp8_IsKeyFrame := (b AND 1) = 0 \<and> vp8_S v\<rparr>, None)"
proof (cases "vp8_ext v")
  case False
  then have "vp8_FirstByte v AND NOT 0x80 = vp8_FirstByte v" "\<not> bit (vp8_FirstByte v) 7"
    using wf and_not_first [of "vp8_FirstByte v"] by (simp_all add: vp8_wf_def)
  then show ?thesis
    using wf False
    by (cases v) (auto simp: vp8_Unmarshal_def vp8_bytes_def vp8_wf_def readKeyFrameBit_def Let_def VP8_zero_def
        vp8_ext_def vp8_size_def)
next
  case True
  let ?f = "vp8_FirstByte v" and ?x = "ext_byte v"
  let ?p = "pid_bytes v" and ?l = "tl0_bytes v" and ?t = "tidkey_bytes v"
  let ?in = "?f # ?x # ?p @ ?l @ ?t @ b # rest"
  have f: "?f OR 0x80 = ?f" "bit ?f 7" "bit ?f 4 = vp8_S v"
    using True wf or_first [of ?f] by (simp_all add: vp8_wf_def)
  have x: "bit ?x 7 = vp8_I v" "bit ?x 6 = vp8_L v" "bit ?x 5 = vp8_T v" "bit ?x 4 = vp8_K v"
    by (simp_all add: ext_byte_def bit_simps)
  define w where "w = VP8_zero\<lparr>vp8_FirstByte := ?f, vp8_S := vp8_S v, vp8_I := vp8_I v,
    vp8_L := vp8_L v, vp8_T := vp8_T v, vp8_K := vp8_K v\<rparr>"
  define w1 where "w1 = w\<lparr>vp8_M := vp8_M v, vp8_PictureID := vp8_PictureID v\<rparr>"
  define w2 where "w2 = w1\<lparr>vp8_TL0PICIDX := vp8_TL0PICIDX v\<rparr>"
  define w3 where "w3 = w2\<lparr>vp8_TID := vp8_TID v, vp8_Y := vp8_Y v, vp8_KEYIDX := vp8_KEYIDX v\<rparr>"
  have 1: "readPictureID w ?in 1 = (w1, Inr (1 + length ?p))"
    using readPictureID_bytes [OF wf, of 1 "[?f, ?x]" w "?l @ ?t @ b # rest"]
    by (simp add: w_def w1_def VP8_zero_def)
  have 2: "readTL0PICIDX w1 ?in (1 + length ?p) = (w2, Inr (1 + length (?p @ ?l)))"
    using readTL0PICIDX_bytes [OF wf, of "1 + length ?p" "?f # ?x # ?p" w1 "?t @ b # rest"]
    by (simp add: w_def w1_def w2_def VP8_zero_def)
  have 3: "readTidKeyIdx w2 ?in (1 + length (?p @ ?l)) = (w3, Inr (1 + length (?p @ ?l @ ?t)))"
    using readTidKeyIdx_bytes [OF wf, of "1 + length (?p @ ?l)" "?f # ?x # ?p @ ?l" w2 "b # rest"]
    by (simp add: w_def w1_def w2_def w3_def VP8_zero_def)
  have at: "?in ! (2 + length (?p @ ?l @ ?t)) = b"
    using nth_append_length [of "?f # ?x # ?p @ ?l @ ?t" b rest] by simp
  have size: "vp8_HeaderSize v = int (2 + length (?p @ ?l @ ?t))"
    using wf True length_vp8_bytes [of v] by (simp add: vp8_wf_def vp8_bytes_def)
  have "readKeyFrameBit w3 ?in (1 + length (?p @ ?l @ ?t)) =
      (w3\<lparr>vp8_IsKeyFrame := (b AND 1) = 0 \<and> vp8_S w3,
          vp8_HeaderSize := int (2 + length (?p @ ?l @ ?t))\<rparr>, None)"
    using at by (simp add: readKeyFrameBit_def Let_def)
  also have "w3\<lparr>vp8_IsKeyFrame := (b AND 1) = 0 \<and> vp8_S w3,
      vp8_HeaderSize := int (2 + length (?p @ ?l @ ?t))\<rparr> =
      v\<lparr>vp8_IsKeyFrame := (b AND 1) = 0 \<and> vp8_S v\<rparr>"
    using size by (simp add: w_def w1_def w2_def w3_def VP8_zero_def)
  finally have 4: "readKeyFrameBit w3 ?in (1 + length (?p @ ?l @ ?t)) =
      (v\<lparr>vp8_IsKeyFrame := (b AND 1) = 0 \<and> vp8_S v\<rparr>, None)" .
  have lt: "\<not> (vp8_L v \<and> \<not> vp8_T v)" using wf by (auto simp: vp8_wf_def)
  have "vp8_bytes v @ b # rest = ?in" using True f by (simp add: vp8_bytes_def)
  then show ?thesis
    using lt 1 2 3 4 f x
    by (simp add: vp8_Unmarshal_def Let_def w_def [symmetric])
qed

section \<open>What a successful parse guarantees\<close>

definition vp8_parsed :: "VP8 \<Rightarrow> bool" where
  "vp8_parsed v \<longleftrightarrow> (vp8_L v \<longrightarrow> vp8_T v) \<and>
     (if vp8_I v then vp8_PictureID v < (if vp8_M v then 0x8000 else 0x80)
      else \<not> vp8_M v \<and> vp8_PictureID v = 0) \<and>
     (\<not> vp8_L v \<longrightarrow> vp8_TL0PICIDX v = 0) \<and>
     (if vp8_T v then vp8_TID v < 4 else vp8_TID v = 0 \<and> \<not> vp8_Y v) \<and>
     (if vp8_K v then vp8_KEYIDX v < 32 else vp8_KEYIDX v = 0) \<and>
     vp8_S v = bit (vp8_FirstByte v) 4 \<and> (vp8_ext v \<longrightarrow> bit (vp8_FirstByte v) 7) \<and>
     vp8_HeaderSize v = (if bit (vp8_FirstByte v) 7 \<and> \<not> vp8_ext v then 2 else int (vp8_size v))"

lemma and_mask_less_u8 [simp]:
  fixes x :: u8
  shows "x AND 0x1f < 0x20" "x AND 3 < 4"
  using and_mask_less' [of 5 x] and_mask_less' [of 2 x] by (simp_all add: mask_eq_exp_minus_1)

lemma pid_read_bounds:
  fixes a b :: u8
  shows "(push_bit 8 (ucast (a AND 0x7f)) OR ucast b :: u16) < 0x8000" "(ucast (a AND 0x7f) :: u16) < 0x80"
proof -
  have "(push_bit 8 (ucast (a AND 0x7f)) OR ucast b :: u16) AND mask 15 =
      (push_bit 8 (ucast (a AND 0x7f)) OR ucast b :: u16)"
    by (rule bit_word_eqI) (auto simp: bit_simps bit_consts dest: bit_imp_le_length)
  then show "(push_bit 8 (ucast (a AND 0x7f)) OR ucast b :: u16) < 0x8000"
    using mask_eq_iff_w2p [of 15 "push_bit 8 (ucast (a AND 0x7f)) OR ucast b :: u16"]
    by (simp add: word_size)
  have "(ucast (a AND 0x7f) :: u16) AND mask 7 = ucast (a AND 0x7f)"
    by (rule bit_word_eqI) (auto simp: bit_simps bit_consts)
  then show "(ucast (a AND 0x7f) :: u16) < 0x80"
    using mask_eq_iff_w2p [of 7 "ucast (a AND 0x7f) :: u16"] by (simp add: word_size)
qed

lemma readPictureID_ok:
  assumes "readPictureID w p idx = (w', Inr idx')" "idx < length p" "\<not> vp8_M w" "vp8_PictureID w = 0"
  shows "w' = w\<lparr>vp8_M := vp8_M w', vp8_PictureID := vp8_PictureID w'\<rparr>"
    "if vp8_I w then vp8_PictureID w' < (if vp8_M w' then 0x8000 else 0x80)
     else \<not> vp8_M w' \<and> vp8_PictureID w' = 0"
    "idx' = idx + (if vp8_I w then if vp8_M w' then 2 else 1 else 0)" "idx' < length p"
  using assms by (auto simp: readPictureID_def pid_read_bounds Let_def split: if_splits)

lemma readTL0PICIDX_ok:
  assumes "readTL0PICIDX w p idx = (w', Inr idx')" "idx < length p" "vp8_TL0PICIDX w = 0"
  shows "w' = w\<lparr>vp8_TL0PICIDX := vp8_TL0PICIDX w'\<rparr>" "\<not> vp8_L w \<longrightarrow> vp8_TL0PICIDX w' = 0"
    "idx' = idx + (if vp8_L w then 1 else 0)" "idx' < length p"
  using assms by (auto simp: readTL0PICIDX_def Let_def split: if_splits)

lemma readTidKeyIdx_ok:
  assumes "readTidKeyIdx w p idx = (w', Inr idx')" "idx < length p"
    "vp8_TID w = 0" "\<not> vp8_Y w" "vp8_KEYIDX w = 0"
  shows "w' = w\<lparr>vp8_TID := vp8_TID w', vp8_Y := vp8_Y w', vp8_KEYIDX := vp8_KEYIDX w'\<rparr>"
    "if vp8_T w then vp8_TID w' < 4 else vp8_TID w' = 0 \<and> \<not> vp8_Y w'"
    "if vp8_K w then vp8_KEYIDX w' < 32 else vp8_KEYIDX w' = 0"
    "idx' = idx + (if vp8_T w \<or> vp8_K w then 1 else 0)" "idx' < length p"
proof -
  define b where "b = p ! Suc idx"
  define u where "u = (if vp8_T w then w\<lparr>vp8_TID := drop_bit 6 b AND 3, vp8_Y := bit b 5\<rparr> else w)"
  have w': "w' = (if vp8_T w \<or> vp8_K w then if vp8_K w then u\<lparr>vp8_KEYIDX := b AND 0x1f\<rparr> else u else w)"
    and i: "idx' = idx + (if vp8_T w \<or> vp8_K w then 1 else 0)" "idx' < length p"
    using assms(1,2) by (auto simp: readTidKeyIdx_def Let_def u_def b_def split: if_splits)
  show "idx' = idx + (if vp8_T w \<or> vp8_K w then 1 else 0)" "idx' < length p" by (fact i)+
  show "w' = w\<lparr>vp8_TID := vp8_TID w', vp8_Y := vp8_Y w', vp8_KEYIDX := vp8_KEYIDX w'\<rparr>"
    by (rule VP8.equality) (simp_all add: w' u_def)
  show "if vp8_T w then vp8_TID w' < 4 else vp8_TID w' = 0 \<and> \<not> vp8_Y w'"
    using assms(3,4) by (simp add: w' u_def)
  show "if vp8_K w then vp8_KEYIDX w' < 32 else vp8_KEYIDX w' = 0"
    using assms(5) by (simp add: w' u_def)
qed

lemma Unmarshal_parsed:
  assumes ok: "vp8_Unmarshal VP8_zero (Some p) = (v, None)"
  shows "vp8_parsed v \<and> vp8_HeaderSize v < int (length p)"
proof -
  have len: "0 < length p" using ok by (auto simp: vp8_Unmarshal_def)
  define w0 where "w0 = VP8_zero\<lparr>vp8_FirstByte := p ! 0, vp8_S := bit (p ! 0) 4\<rparr>"
  show ?thesis
  proof (cases "bit (p ! 0) 7")
    case False
    then have "readKeyFrameBit w0 p 0 = (v, None)"
      using ok len by (simp add: vp8_Unmarshal_def w0_def)
    then show ?thesis
      using False by (auto simp: readKeyFrameBit_def w0_def VP8_zero_def vp8_parsed_def vp8_ext_def
          vp8_size_def split: if_splits)
  next
    case True
    define w where "w = w0\<lparr>vp8_I := bit (p ! 1) 7, vp8_L := bit (p ! 1) 6, vp8_T := bit (p ! 1) 5,
      vp8_K := bit (p ! 1) 4\<rparr>"
    have w: "\<not> vp8_M w" "vp8_PictureID w = 0" "vp8_TL0PICIDX w = 0" "vp8_TID w = 0" "\<not> vp8_Y w"
      "vp8_KEYIDX w = 0" "vp8_FirstByte w = p ! 0" "vp8_S w = bit (p ! 0) 4"
      by (simp_all add: w_def w0_def VP8_zero_def)
    have len2: "1 < length p"
      using ok True len by (cases "length p < 2") (auto simp: vp8_Unmarshal_def)
    have step: "(if vp8_L w \<and> \<not> vp8_T w then (w, Some errInvalidPacket)
        else case readPictureID w p 1 of (v, Inl e) \<Rightarrow> (v, Some e)
          | (v, Inr idx) \<Rightarrow> (case readTL0PICIDX v p idx of (v, Inl e) \<Rightarrow> (v, Some e)
          | (v, Inr idx) \<Rightarrow> (case readTidKeyIdx v p idx of (v, Inl e) \<Rightarrow> (v, Some e)
          | (v, Inr idx) \<Rightarrow> readKeyFrameBit v p idx))) = (v, None)"
    proof -
      have "p \<noteq> []" "\<not> length p < 2" using len2 by auto
      then show ?thesis
        using ok True unfolding w_def w0_def
        by (simp add: vp8_Unmarshal_def Let_def del: One_nat_def split del: if_split)
    qed
    then have lt: "vp8_L w \<longrightarrow> vp8_T w" by (auto split: if_splits)
    obtain w1 i1 w2 i2 w3 i3 where r: "readPictureID w p 1 = (w1, Inr i1)"
      "readTL0PICIDX w1 p i1 = (w2, Inr i2)" "readTidKeyIdx w2 p i2 = (w3, Inr i3)"
      and k: "readKeyFrameBit w3 p i3 = (v, None)"
      using step by (auto split: prod.splits sum.splits if_splits)
    note 1 = readPictureID_ok [OF r(1) len2 w(1,2)]
    obtain m pid where w1: "w1 = w\<lparr>vp8_M := m, vp8_PictureID := pid\<rparr>" using 1(1) by blast
    have "vp8_TL0PICIDX w1 = 0" using w by (simp add: w1)
    note 2 = readTL0PICIDX_ok [OF r(2) 1(4) this]
    obtain tl where w2: "w2 = w1\<lparr>vp8_TL0PICIDX := tl\<rparr>" using 2(1) by blast
    have "vp8_TID w2 = 0" "\<not> vp8_Y w2" "vp8_KEYIDX w2 = 0" using w by (simp_all add: w1 w2)
    note 3 = readTidKeyIdx_ok [OF r(3) 2(4) this]
    obtain tid y key where w3: "w3 = w2\<lparr>vp8_TID := tid, vp8_Y := y, vp8_KEYIDX := key\<rparr>"
      using 3(1) by blast
    from k have v: "v = w3\<lparr>vp8_IsKeyFrame := (p ! Suc i3 AND 1) = 0 \<and> vp8_S w3,
        vp8_HeaderSize := int (Suc i3)\<rparr>" and i: "Suc i3 < length p"
      by (auto simp: readKeyFrameBit_def Let_def split: if_splits)
    have size: "vp8_ext v \<longrightarrow> Suc i3 = vp8_size v" "\<not> vp8_ext v \<longrightarrow> Suc i3 = 2"
      using 1(3) 2(3) 3(4)
      by (cases "vp8_I w"; cases "vp8_L w"; cases "vp8_T w"; cases "vp8_K w";
          simp add: v w1 w2 w3 vp8_ext_def vp8_size_def)+
    have "vp8_HeaderSize v = int (Suc i3)" "bit (vp8_FirstByte v) 7"
      using True w by (simp_all add: v w1 w2 w3)
    then have hs: "vp8_HeaderSize v = (if bit (vp8_FirstByte v) 7 \<and> \<not> vp8_ext v then 2 else int (vp8_size v))"
      using size by (cases "vp8_ext v") simp_all
    have "vp8_parsed v"
      unfolding vp8_parsed_def hs using 1(2) 2(2) 3(2,3) w lt True
      by (cases "vp8_I w"; cases "vp8_T w"; cases "vp8_K w"; simp add: v w1 w2 w3)
    then show ?thesis using i by (simp add: v)
  qed
qed

lemma parsed_wf: "vp8_parsed v \<Longrightarrow> vp8_ext v = bit (vp8_FirstByte v) 7 \<Longrightarrow> vp8_wf v"
  by (auto simp: vp8_parsed_def vp8_wf_def)

lemma parsed_size:
  assumes "vp8_parsed v"
  shows "int (vp8_size v) \<le> vp8_HeaderSize v" "1 \<le> vp8_HeaderSize v" "vp8_HeaderSize v \<le> 6"
  using assms by (auto simp: vp8_parsed_def vp8_size_def)

section \<open>Properties\<close>

text \<open>
  Round trip of the VP8 payload descriptor: every well-formed descriptor is marshalled to
  exactly \<open>HeaderSize\<close> bytes, and parsing these bytes followed by any VP8 payload gives the
  descriptor back, with the key frame flag taken from the first payload byte.
\<close>

theorem vp8_marshal_unmarshal:
  assumes "vp8_wf v"
  shows "\<exists>hdr. vp8_Marshal v = Inr hdr \<and> int (length hdr) = vp8_HeaderSize v \<and>
    (\<forall>b rest. vp8_Unmarshal VP8_zero (Some (hdr @ b # rest)) =
      (v\<lparr>vp8_IsKeyFrame := (b AND 1) = 0 \<and> vp8_S v\<rparr>, None))"
  using Marshal_bytes [of v] Unmarshal_bytes [OF assms] length_vp8_bytes [of v] assms
  by (auto simp: vp8_wf_def)

definition vp8_demo :: VP8 where
  "vp8_demo = \<lparr>vp8_FirstByte = 0x90, vp8_S = True, vp8_I = True, vp8_M = True, vp8_PictureID = 0x1234,
     vp8_L = True, vp8_TL0PICIDX = 7, vp8_T = True, vp8_TID = 2, vp8_Y = True, vp8_K = True,
     vp8_KEYIDX = 19, vp8_HeaderSize = 6, vp8_IsKeyFrame = True\<rparr>"

lemma vp8_demo_wf: "vp8_wf vp8_demo"
  by (simp add: vp8_wf_def vp8_demo_def vp8_size_def vp8_ext_def)

theorem vp8_marshal_unmarshal_witness:
  "vp8_wf vp8_demo \<and> vp8_Marshal vp8_demo = Inr [0x90, 0xf0, 0x92, 0x34, 7, 0xb3] \<and>
   vp8_Unmarshal VP8_zero (Some [0x90, 0xf0, 0x92, 0x34, 7, 0xb3, 0x10]) = (vp8_demo, None)"
proof -
  have "vp8_bytes vp8_demo = [0x90, 0xf0, 0x92, 0x34, 7, 0xb3]" by code_simp
  then have m: "vp8_Marshal vp8_demo = Inr [0x90, 0xf0, 0x92, 0x34, 7, 0xb3]"
    using Marshal_bytes [of vp8_demo] vp8_demo_wf by (simp add: vp8_wf_def)
  then show ?thesis
    using vp8_marshal_unmarshal [OF vp8_demo_wf] vp8_demo_wf
    by (auto simp: vp8_demo_def)
qed

text \<open>
  C40: Bounds of the VP8 parser: after a successful parse the header has 1 to 6 bytes and leaves
  at least one payload byte, every field is within its bit width, and marshalling the parsed
  descriptor succeeds (no short buffer, no out-of-range write) with a header that is not longer.
\<close>

theorem vp8_unmarshal_bounds:
  assumes "vp8_Unmarshal VP8_zero (Some p) = (v, None)"
  shows "1 \<le> vp8_HeaderSize v \<and> vp8_HeaderSize v \<le> 6 \<and> vp8_HeaderSize v < int (length p) \<and>
    vp8_PictureID v < 0x8000 \<and> (\<not> vp8_M v \<longrightarrow> vp8_PictureID v < 0x80) \<and> vp8_TID v < 4 \<and>
    vp8_KEYIDX v < 32 \<and> (\<exists>hdr. vp8_Marshal v = Inr hdr \<and> int (length hdr) \<le> vp8_HeaderSize v)"
proof -
  have p: "vp8_parsed v" "vp8_HeaderSize v < int (length p)" using Unmarshal_parsed [OF assms] by auto
  have lt: "P < 0x80 \<Longrightarrow> P < 0x8000" for P :: u16 by (simp add: word_less_nat_alt)
  have "vp8_PictureID v < 0x8000 \<and> (\<not> vp8_M v \<longrightarrow> vp8_PictureID v < 0x80) \<and> vp8_TID v < 4 \<and> vp8_KEYIDX v < 32"
    using p(1) lt [of "vp8_PictureID v"]
    by (cases "vp8_I v"; cases "vp8_T v"; cases "vp8_K v") (simp_all add: vp8_parsed_def split: if_splits)
  then show ?thesis
    using parsed_size [OF p(1)] p(2) Marshal_bytes [of v] length_vp8_bytes [of v] by auto
qed

theorem vp8_unmarshal_bounds_witness:
  "vp8_Unmarshal VP8_zero (Some [0x90, 0xf0, 0x92, 0x34, 7, 0xb3, 0x10]) = (vp8_demo, None) \<and>
   vp8_HeaderSize vp8_demo < 7 \<and> (\<exists>hdr. vp8_Marshal vp8_demo = Inr hdr)"
proof -
  have u: "vp8_Unmarshal VP8_zero (Some [0x90, 0xf0, 0x92, 0x34, 7, 0xb3, 0x10]) = (vp8_demo, None)"
    by code_simp
  then show ?thesis using vp8_unmarshal_bounds [OF u] by auto
qed

end
