(* ===== verification/Packets.thy ===== *)
theory Packets
  imports Vp8_Descriptor
begin

text \<open>
  The data that flows between the components: video layers
  (\<^verbatim>\<open>pkg/sfu/buffer/videolayer.go\<close>), dependency descriptors
  (\<^verbatim>\<open>pkg/sfu/rtpextension/dependencydescriptor/dependencydescriptorextension.go\<close> and
  \<^verbatim>\<open>pkg/sfu/buffer/dependencydescriptorparser.go\<close>) and the parsed packet \<open>ExtPacket\<close> of
  \<^verbatim>\<open>pkg/sfu/buffer/buffer_base.go\<close>. Go \<open>int\<close> and \<open>int32\<close> fields that only hold small counts
  and layer numbers are \<open>int\<close> or \<open>nat\<close>; pointers that may be nil are options.
\<close>

section \<open>Video layers\<close>

record VideoLayer =
  Spatial :: int
  Temporal :: int

definition InvalidLayerSpatial :: int where "InvalidLayerSpatial = - 1"
definition InvalidLayerTemporal :: int where "InvalidLayerTemporal = - 1"
definition DefaultMaxLayerSpatial :: int where "DefaultMaxLayerSpatial = 2"
definition DefaultMaxLayerTemporal :: int where "DefaultMaxLayerTemporal = 3"

definition InvalidLayer :: VideoLayer where
  "InvalidLayer = \<lparr>Spatial = InvalidLayerSpatial, Temporal = InvalidLayerTemporal\<rparr>"

definition DefaultMaxLayer :: VideoLayer where
  "DefaultMaxLayer = \<lparr>Spatial = DefaultMaxLayerSpatial, Temporal = DefaultMaxLayerTemporal\<rparr>"

definition GreaterThan :: "VideoLayer \<Rightarrow> VideoLayer \<Rightarrow> bool" where
  "GreaterThan v v2 \<longleftrightarrow>
     Spatial v > Spatial v2 \<or> (Spatial v = Spatial v2 \<and> Temporal v > Temporal v2)"

definition SpatialGreaterThanOrEqual :: "VideoLayer \<Rightarrow> VideoLayer \<Rightarrow> bool" where
  "SpatialGreaterThanOrEqual v v2 \<longleftrightarrow> Spatial v \<ge> Spatial v2"

definition layer_IsValid :: "VideoLayer \<Rightarrow> bool" where
  "layer_IsValid v \<longleftrightarrow> Spatial v \<noteq> InvalidLayerSpatial \<and> Temporal v \<noteq> InvalidLayerTemporal"

lemmas layer_consts = InvalidLayerSpatial_def InvalidLayerTemporal_def DefaultMaxLayerSpatial_def
  DefaultMaxLayerTemporal_def InvalidLayer_def DefaultMaxLayer_def

lemma InvalidLayer_sel [simp]:
  "Spatial InvalidLayer = - 1" "Temporal InvalidLayer = - 1" "\<not> layer_IsValid InvalidLayer"
  by (simp_all add: layer_consts layer_IsValid_def)

text \<open>\<open>GreaterThan\<close> is the strict lexicographic order.\<close>

lemma GreaterThan_irrefl [simp]: "\<not> GreaterThan v v"
  by (simp add: GreaterThan_def)

lemma GreaterThan_trans: "GreaterThan a b \<Longrightarrow> GreaterThan b c \<Longrightarrow> GreaterThan a c"
  by (auto simp: GreaterThan_def)

lemma GreaterThan_total: "GreaterThan a b \<or> a = b \<or> GreaterThan b a"
  by (cases a; cases b) (auto simp: GreaterThan_def)

section \<open>Dependency descriptors\<close>

datatype DecodeTargetIndication =
  DecodeTargetNotPresent | DecodeTargetDiscardable | DecodeTargetSwitch | DecodeTargetRequired

record FrameDependencyTemplate =
  SpatialId :: nat
  TemporalId :: nat
  DecodeTargetIndications :: "DecodeTargetIndication list"
  FrameDiffs :: "int list"
  ChainDiffs :: "int list"

record RenderResolution =
  Width :: nat
  Height :: nat

record FrameDependencyStructure =
  StructureId :: nat
  NumDecodeTargets :: nat
  NumChains :: nat
  DecodeTargetProtectedByChain :: "nat list"
  Resolutions :: "RenderResolution list"
  Templates :: "FrameDependencyTemplate list"

record DependencyDescriptor =
  FirstPacketInFrame :: bool
  LastPacketInFrame :: bool
  FrameNumber :: u16
  FrameDependencies :: "FrameDependencyTemplate option"
  Resolution :: "RenderResolution option"
  ActiveDecodeTargetsBitmask :: "u32 option"
  AttachedStructure :: "FrameDependencyStructure option"

record DependencyDescriptorDecodeTarget =
  dt_Target :: nat
  dt_Layer :: VideoLayer

record ExtDependencyDescriptor =
  edd_Descriptor :: DependencyDescriptor
  edd_DecodeTargets :: "DependencyDescriptorDecodeTarget list"
  edd_StructureUpdated :: bool
  edd_ActiveDecodeTargetsUpdated :: bool
  edd_Integrity :: bool
  edd_ExtFrameNum :: u64
  edd_ExtKeyFrameNum :: u64
  edd_RestartGeneration :: int

section \<open>Packets\<close>

text \<open>
  The fields of the RTP packet and of the VP9 payload header that the modelled code reads. Both
  types come from the pion libraries; they are plain data here.
\<close>

record RtpPacket =
  rtp_SequenceNumber :: u16
  rtp_Timestamp :: u32
  rtp_Marker :: bool
  rtp_SSRC :: u32
  rtp_PayloadType :: u8
  rtp_Payload :: bytes

record VP9Packet =
  vp9_P :: bool
  vp9_B :: bool
  vp9_E :: bool
  vp9_U :: bool

datatype codecPayload = PayloadNone | PayloadVP8 VP8 | PayloadVP9 VP9Packet

record ExtPacket =
  ep_VideoLayer :: VideoLayer
  ep_Arrival :: int
  ep_ExtSequenceNumber :: u64
  ep_ExtTimestamp :: u64
  ep_Packet :: RtpPacket
  ep_Payload :: codecPayload
  ep_IsKeyFrame :: bool
  ep_DependencyDescriptor :: "ExtDependencyDescriptor option"
  ep_IsOutOfOrder :: bool

end
