(* ===== verification/Decision_Cache.thy ===== *)
theory Decision_Cache
  imports Packets
begin

text \<open>
  \<^verbatim>\<open>pkg/sfu/videolayerselector/selectordecisioncache.go\<close> and \<^verbatim>\<open>framechain.go\<close>: the ring of forwarding
  decisions, two bits per frame, and the frame chains that watch it. A chain registers a callback for a frame that has not
  arrived yet. The chains live in a store, a list indexed by their identity, and a callback is the identity of the chain whose
  \<open>OnExpectFrameChanged\<close> it calls; the operations that run callbacks therefore change the cache and the store together.
\<close>

section \<open>Model\<close>

subsection \<open>Frame chains\<close>

datatype selectorDecision =
  selectorDecisionMissing | selectorDecisionDropped | selectorDecisionForwarded | selectorDecisionUnknown

record FrameChain =
  fch_broken :: bool
  fch_chainIdx :: nat
  fch_active :: bool
  fch_updatingActive :: bool
  fch_expectFrames :: "u64 list"

definition NewFrameChain :: "nat \<Rightarrow> FrameChain" where
  "NewFrameChain chainIdx =
     \<lparr>fch_broken = True, fch_chainIdx = chainIdx, fch_active = False, fch_updatingActive = False, fch_expectFrames = []\<rparr>"

text \<open>The first occurrence is overwritten by the last element, and the slice shrinks by one.\<close>

fun indexOf :: "'a \<Rightarrow> 'a list \<Rightarrow> nat option" where
  "indexOf x [] = None"
| "indexOf x (y # ys) = (if x = y then Some 0 else map_option Suc (indexOf x ys))"

definition swapRemove :: "nat \<Rightarrow> 'a list \<Rightarrow> 'a list" where
  "swapRemove i xs = butlast (xs[i := last xs])"

definition OnExpectFrameChanged :: "u64 \<Rightarrow> selectorDecision \<Rightarrow> FrameChain \<Rightarrow> FrameChain" where
  "OnExpectFrameChanged frameNum decision fc =
     (if fch_broken fc then fc
      else case indexOf frameNum (fch_expectFrames fc) of
          None \<Rightarrow> fc
        | Some i \<Rightarrow>
          let fc = (if decision \<noteq> selectorDecisionForwarded then fc\<lparr>fch_broken := True\<rparr> else fc)
          in fc\<lparr>fch_expectFrames := swapRemove i (fch_expectFrames fc)\<rparr>)"

definition BeginUpdateActive :: "FrameChain \<Rightarrow> FrameChain" where
  "BeginUpdateActive fc = fc\<lparr>fch_updatingActive := False\<rparr>"

definition chain_UpdateActive :: "bool \<Rightarrow> FrameChain \<Rightarrow> FrameChain" where
  "chain_UpdateActive active fc = fc\<lparr>fch_updatingActive := fch_updatingActive fc \<or> active\<rparr>"

definition EndUpdateActive :: "FrameChain \<Rightarrow> FrameChain" where
  "EndUpdateActive fc =
     (let active = fch_updatingActive fc; fc = fc\<lparr>fch_updatingActive := False\<rparr> in
      if active = fch_active fc then fc
      else
        let fc = (if \<not> fch_active fc then fc\<lparr>fch_broken := True\<rparr> else fc)
        in fc\<lparr>fch_active := active\<rparr>)"

subsection \<open>Decision cache\<close>

type_synonym chainId = nat

record SelectorDecisionCache =
  sc_initialized :: bool
  sc_base :: u64
  sc_last :: u64
  sc_masks :: "u64 list"
  sc_numEntries :: u64
  sc_numNackEntries :: u64
  sc_onExpect :: "(u64 \<times> chainId list) list"

type_synonym decisions = "SelectorDecisionCache \<times> FrameChain list"

definition NewSelectorDecisionCache :: "u64 \<Rightarrow> u64 \<Rightarrow> SelectorDecisionCache" where
  "NewSelectorDecisionCache maxNumElements numNackEntries =
     (let numElements = (maxNumElements * 2 + 63) div 64
      in \<lparr>sc_initialized = False, sc_base = 0, sc_last = 0, sc_masks = replicate (unat numElements) 0,
          sc_numEntries = numElements * 32, sc_numNackEntries = numNackEntries, sc_onExpect = []\<rparr>)"

definition sdCode :: "selectorDecision \<Rightarrow> u64" where
  "sdCode sd = (case sd of selectorDecisionMissing \<Rightarrow> 0 | selectorDecisionDropped \<Rightarrow> 1
     | selectorDecisionForwarded \<Rightarrow> 2 | selectorDecisionUnknown \<Rightarrow> 3)"

definition sdOf :: "u64 \<Rightarrow> selectorDecision" where
  "sdOf w = (if w = 0 then selectorDecisionMissing else if w = 1 then selectorDecisionDropped
     else if w = 2 then selectorDecisionForwarded else selectorDecisionUnknown)"

definition sc_getPos :: "SelectorDecisionCache \<Rightarrow> u64 \<Rightarrow> nat \<times> nat" where
  "sc_getPos s entity =
     (let offset = (entity - sc_base s) mod sc_numEntries s
      in (unat (drop_bit 5 offset), unat (offset AND 0x1F) * 2))"

definition getEntity :: "SelectorDecisionCache \<Rightarrow> u64 \<Rightarrow> selectorDecision" where
  "getEntity s entity =
     (case sc_getPos s entity of (index, bitpos) \<Rightarrow> sdOf (drop_bit bitpos (sc_masks s ! index) AND 3))"

text \<open>The callbacks registered for a frame run in the order of their registration.\<close>

definition runCallbacks :: "u64 \<Rightarrow> selectorDecision \<Rightarrow> chainId list \<Rightarrow> FrameChain list \<Rightarrow> FrameChain list" where
  "runCallbacks entity sd fns store =
     fold (\<lambda>f store. store[f := OnExpectFrameChanged entity sd (store ! f)]) fns store"

definition setMask :: "u64 \<Rightarrow> selectorDecision \<Rightarrow> SelectorDecisionCache \<Rightarrow> SelectorDecisionCache" where
  "setMask entity sd s =
     (case sc_getPos s entity of (index, bitpos) \<Rightarrow>
        s\<lparr>sc_masks := (sc_masks s)[index :=
            (sc_masks s ! index AND NOT (push_bit bitpos 3)) OR push_bit bitpos (sdCode sd AND 3)]\<rparr>)"

definition setEntity :: "u64 \<Rightarrow> selectorDecision \<Rightarrow> decisions \<Rightarrow> decisions" where
  "setEntity entity sd = (\<lambda>(s, store).
     let s = setMask entity sd s in
     if sd \<noteq> selectorDecisionUnknown then
       case map_of (sc_onExpect s) entity of
         None \<Rightarrow> (s, store)
       | Some fns \<Rightarrow>
         (s\<lparr>sc_onExpect := filter (\<lambda>(e, _). e \<noteq> entity) (sc_onExpect s)\<rparr>, runCallbacks entity sd fns store)
     else (s, store))"

definition setEntityIfUnknown :: "u64 \<Rightarrow> selectorDecision \<Rightarrow> decisions \<Rightarrow> decisions" where
  "setEntityIfUnknown entity sd ds =
     (if getEntity (fst ds) entity = selectorDecisionUnknown then setEntity entity sd ds else ds)"

text \<open>The range of frames that leave the window of retransmissions.\<close>

definition missingFrom :: "SelectorDecisionCache \<Rightarrow> u64 \<Rightarrow> u64" where
  "missingFrom s n = (if n > sc_numNackEntries s + sc_base s then n - sc_numNackEntries s else sc_base s)"

text \<open>
  The callbacks of frames that have left the ring. A Go map is visited in an unspecified order; here it is the order of
  the association list, which is arbitrary in the statements.
\<close>

definition expireCallbacks :: "decisions \<Rightarrow> decisions" where
  "expireCallbacks = (\<lambda>(s, store).
     (s\<lparr>sc_onExpect := filter (\<lambda>(e, _). \<not> e + sc_numEntries s < sc_last s) (sc_onExpect s)\<rparr>,
      fold (\<lambda>(e, fns). runCallbacks e selectorDecisionMissing fns)
        (filter (\<lambda>(e, _). e + sc_numEntries s < sc_last s) (sc_onExpect s)) store))"

definition addEntity :: "u64 \<Rightarrow> selectorDecision \<Rightarrow> decisions \<Rightarrow> decisions" where
  "addEntity entity sd = (\<lambda>(s, store).
     if \<not> sc_initialized s then
       setEntity entity sd (s\<lparr>sc_initialized := True, sc_base := entity, sc_last := entity\<rparr>, store)
     else if entity \<le> sc_base s then (s, store)
     else if entity \<le> sc_last s then setEntity entity sd (s, store)
     else
       let ds = fold (\<lambda>e. setEntity (of_nat e) selectorDecisionUnknown) [unat (sc_last s) + 1..<unat entity] (s, store);
           missingStart = missingFrom s (sc_last s);
           missingEnd = missingFrom s entity;
           ds = fold (\<lambda>e. setEntityIfUnknown (of_nat e) selectorDecisionMissing) [unat missingStart..<unat missingEnd] ds;
           (s, store) = setEntity entity sd ds
       in expireCallbacks (s\<lparr>sc_last := entity\<rparr>, store))"

definition AddForwarded :: "u64 \<Rightarrow> decisions \<Rightarrow> decisions" where
  "AddForwarded entity = addEntity entity selectorDecisionForwarded"

definition AddDropped :: "u64 \<Rightarrow> decisions \<Rightarrow> decisions" where
  "AddDropped entity = addEntity entity selectorDecisionDropped"

text \<open>The second component tells whether the error of a too old frame is returned.\<close>

definition GetDecision :: "SelectorDecisionCache \<Rightarrow> u64 \<Rightarrow> selectorDecision \<times> bool" where
  "GetDecision s entity =
     (if \<not> sc_initialized s \<or> entity < sc_base s then (selectorDecisionMissing, False)
      else if entity > sc_last s then (selectorDecisionUnknown, False)
      else if sc_last s - entity \<ge> sc_numEntries s then (selectorDecisionMissing, True)
      else (getEntity s entity, False))"

definition expectAdd :: "u64 \<Rightarrow> chainId \<Rightarrow> (u64 \<times> chainId list) list \<Rightarrow> (u64 \<times> chainId list) list" where
  "expectAdd entity f m =
     (case map_of m entity of
        None \<Rightarrow> m @ [(entity, [f])]
      | Some _ \<Rightarrow> map (\<lambda>(e, fns). if e = entity then (e, fns @ [f]) else (e, fns)) m)"

definition ExpectDecision :: "u64 \<Rightarrow> chainId \<Rightarrow> SelectorDecisionCache \<Rightarrow> SelectorDecisionCache \<times> bool" where
  "ExpectDecision entity f s =
     (if \<not> sc_initialized s \<or> entity < sc_base s then (s, False)
      else if entity < sc_last s \<and> sc_last s - entity \<ge> sc_numEntries s then (s, False)
      else (s\<lparr>sc_onExpect := expectAdd entity f (sc_onExpect s)\<rparr>, True))"

subsection \<open>Chains on frames\<close>

definition chain_OnFrame :: "chainId \<Rightarrow> u64 \<Rightarrow> FrameDependencyTemplate \<Rightarrow> decisions \<Rightarrow> decisions \<times> bool" where
  "chain_OnFrame cid extFrameNum fd = (\<lambda>(s, store).
     let fc = store ! cid in
     if \<not> fch_active fc then ((s, store), False)
     else if length (ChainDiffs fd) \<le> fch_chainIdx fc then ((s, store), fch_broken fc)
     else if ChainDiffs fd ! fch_chainIdx fc = 0 then
       ((s, store[cid := fc\<lparr>fch_broken := False, fch_expectFrames := []\<rparr>]), True)
     else if fch_broken fc then ((s, store), False)
     else
       let prevFrameInChain = extFrameNum - of_int (ChainDiffs fd ! fch_chainIdx fc);
           (s, fc, intact) =
             (case fst (GetDecision s prevFrameInChain) of
                selectorDecisionForwarded \<Rightarrow> (s, fc, True)
              | selectorDecisionUnknown \<Rightarrow>
                  (case ExpectDecision prevFrameInChain cid s of (s, ok) \<Rightarrow>
                     if ok then (s, fc\<lparr>fch_expectFrames := fch_expectFrames fc @ [prevFrameInChain]\<rparr>, True)
                     else (s, fc, False))
              | _ \<Rightarrow> (s, fc, False));
           fc = (if \<not> intact then fc\<lparr>fch_broken := True\<rparr> else fc)
       in ((s, store[cid := fc]), intact))"

section \<open>The packed ring\<close>

lemma sdOf_sdCode [simp]: "sdOf (sdCode sd AND 3) = sd"
  by (cases sd) (simp_all add: sdCode_def sdOf_def)

definition slotAt :: "u64 list \<Rightarrow> nat \<Rightarrow> selectorDecision" where
  "slotAt masks k = sdOf (drop_bit (2 * (k mod 32)) (masks ! (k div 32)) AND 3)"

lemma two_bits_same:
  fixes w c :: u64
  assumes "p < 63"
  shows "drop_bit p ((w AND NOT (push_bit p 3)) OR push_bit p (c AND 3)) AND 3 = c AND 3"
proof (rule bit_word_eqI)
  fix n :: nat
  show "bit (drop_bit p ((w AND NOT (push_bit p 3)) OR push_bit p (c AND 3)) AND 3) n = bit (c AND 3) n"
  proof (cases "n < 2")
    case True
    then have "p + n < 64" using assms by linarith
    then show ?thesis using True by (auto simp: bit_simps bit_consts)
  qed (simp add: bit_simps bit_consts)
qed

lemma two_bits_other:
  fixes w c :: u64
  assumes "q + 1 < p \<or> p + 1 < q"
  shows "drop_bit q ((w AND NOT (push_bit p 3)) OR push_bit p (c AND 3)) AND 3 = drop_bit q w AND 3"
proof (rule bit_word_eqI)
  fix n :: nat
  show "bit (drop_bit q ((w AND NOT (push_bit p 3)) OR push_bit p (c AND 3)) AND 3) n = bit (drop_bit q w AND 3) n"
  proof (cases "n < 2")
    case True
    then have "\<not> (p \<le> q + n \<and> q + n - p < 2)" using assms by linarith
    then show ?thesis using True by (auto simp: bit_simps bit_consts dest: bit_imp_le_length)
  qed (simp add: bit_simps bit_consts)
qed

definition sc_wf :: "SelectorDecisionCache \<Rightarrow> bool" where
  "sc_wf s \<longleftrightarrow> unat (sc_numEntries s) = 32 * length (sc_masks s) \<and> sc_masks s \<noteq> []"

definition sc_idx :: "SelectorDecisionCache \<Rightarrow> u64 \<Rightarrow> nat" where
  "sc_idx s e = (unat e - unat (sc_base s)) mod unat (sc_numEntries s)"

lemma sc_getPos_idx:
  assumes "sc_base s \<le> e"
  shows "sc_getPos s e = (sc_idx s e div 32, 2 * (sc_idx s e mod 32))"
proof -
  have "unat ((e - sc_base s) mod sc_numEntries s) = sc_idx s e"
    using assms by (simp add: sc_idx_def unat_mod unat_sub)
  moreover have "x AND 0x1F = x mod 32" for x :: u64
    using take_bit_eq_mod [of 5 x] by (simp add: take_bit_eq_mask mask_eq_exp_minus_1)
  ultimately show ?thesis by (simp add: sc_getPos_def Let_def drop_bit_eq_div unat_div unat_mod)
qed

lemma sc_idx_less: "sc_wf s \<Longrightarrow> sc_idx s e < 32 * length (sc_masks s)"
  unfolding sc_wf_def sc_idx_def by (metis length_greater_0_conv mod_less_divisor nat_0_less_mult_iff zero_less_numeral)

lemma getEntity_slot: "sc_base s \<le> e \<Longrightarrow> getEntity s e = slotAt (sc_masks s) (sc_idx s e)"
  by (simp add: getEntity_def sc_getPos_idx slotAt_def)

lemma setMask_sel [simp]:
  "sc_initialized (setMask e sd s) = sc_initialized s" "sc_base (setMask e sd s) = sc_base s"
  "sc_last (setMask e sd s) = sc_last s" "sc_numEntries (setMask e sd s) = sc_numEntries s"
  "sc_numNackEntries (setMask e sd s) = sc_numNackEntries s" "sc_onExpect (setMask e sd s) = sc_onExpect s"
  "length (sc_masks (setMask e sd s)) = length (sc_masks s)"
  by (simp_all add: setMask_def split: prod.split)

lemma slot_setMask:
  assumes wf: "sc_wf s" and e: "sc_base s \<le> e" and k: "k < 32 * length (sc_masks s)"
  shows "slotAt (sc_masks (setMask e sd s)) k = (if k = sc_idx s e then sd else slotAt (sc_masks s) k)"
proof -
  let ?x = "sc_idx s e"
  have x: "?x div 32 < length (sc_masks s)" "k div 32 < length (sc_masks s)" using sc_idx_less [OF wf, of e] k by auto
  have eq: "k = ?x \<longleftrightarrow> k div 32 = ?x div 32 \<and> k mod 32 = ?x mod 32" by (metis div_mult_mod_eq)
  have p: "2 * (?x mod 32) < 63" using mod_less_divisor [of 32 ?x] by linarith
  show ?thesis
  proof (cases "k div 32 = ?x div 32")
    case True
    show ?thesis
    proof (cases "k mod 32 = ?x mod 32")
      case same: True
      then show ?thesis using x True two_bits_same [OF p]
        by (simp add: setMask_def sc_getPos_idx [OF e] slotAt_def eq)
    next
      case False
      then have "2 * (k mod 32) + 1 < 2 * (?x mod 32) \<or> 2 * (?x mod 32) + 1 < 2 * (k mod 32)" by linarith
      then show ?thesis using x True False two_bits_other
        by (simp add: setMask_def sc_getPos_idx [OF e] slotAt_def eq)
    qed
  qed (use x in \<open>auto simp: setMask_def sc_getPos_idx [OF e] slotAt_def eq\<close>)
qed

lemma sc_wf_setMask [simp]: "sc_wf (setMask e sd s) \<longleftrightarrow> sc_wf s"
  unfolding sc_wf_def by (metis length_0_conv setMask_sel(4,7))

lemma sc_idx_cong: "sc_base s' = sc_base s \<Longrightarrow> sc_numEntries s' = sc_numEntries s \<Longrightarrow> sc_idx s' e = sc_idx s e"
  by (simp add: sc_idx_def)

lemma getEntity_setMask:
  assumes "sc_wf s" "sc_base s \<le> e" "sc_base s \<le> x"
  shows "getEntity (setMask e sd s) x = (if sc_idx s x = sc_idx s e then sd else getEntity s x)"
  using assms slot_setMask [OF assms(1,2) sc_idx_less [OF assms(1)], of sd x]
  by (simp add: getEntity_slot sc_idx_cong [of "setMask e sd s" s])

subsection \<open>Loops over the ring\<close>

lemma setEntity_fst:
  "sc_masks (fst (setEntity e sd ds)) = sc_masks (setMask e sd (fst ds))"
  "sc_base (fst (setEntity e sd ds)) = sc_base (fst ds)" "sc_last (fst (setEntity e sd ds)) = sc_last (fst ds)"
  "sc_numEntries (fst (setEntity e sd ds)) = sc_numEntries (fst ds)"
  "sc_numNackEntries (fst (setEntity e sd ds)) = sc_numNackEntries (fst ds)"
  "sc_initialized (fst (setEntity e sd ds)) = sc_initialized (fst ds)"
  by (cases ds; simp add: setEntity_def Let_def split: option.split)+

lemma setEntityIfUnknown_fst:
  "sc_base (fst (setEntityIfUnknown e sd ds)) = sc_base (fst ds)"
  "sc_last (fst (setEntityIfUnknown e sd ds)) = sc_last (fst ds)"
  "sc_numEntries (fst (setEntityIfUnknown e sd ds)) = sc_numEntries (fst ds)"
  "sc_numNackEntries (fst (setEntityIfUnknown e sd ds)) = sc_numNackEntries (fst ds)"
  "sc_initialized (fst (setEntityIfUnknown e sd ds)) = sc_initialized (fst ds)"
  by (simp_all add: setEntityIfUnknown_def setEntity_fst)

text \<open>Two caches of the same ring: everything but the decisions and the callbacks agrees.\<close>

definition same_ring :: "SelectorDecisionCache \<Rightarrow> SelectorDecisionCache \<Rightarrow> bool" where
  "same_ring s s' \<longleftrightarrow> sc_base s' = sc_base s \<and> sc_last s' = sc_last s \<and> sc_numEntries s' = sc_numEntries s \<and>
     sc_numNackEntries s' = sc_numNackEntries s \<and> sc_initialized s' = sc_initialized s \<and> sc_wf s'"

lemma same_ring_refl: "sc_wf s \<Longrightarrow> same_ring s s"
  by (simp add: same_ring_def)

lemma same_ring_trans: "same_ring s s' \<Longrightarrow> same_ring s' s'' \<Longrightarrow> same_ring s s''"
  by (simp add: same_ring_def)

lemma same_ring_wf: "same_ring s s' \<Longrightarrow> sc_wf s'"
  by (simp add: same_ring_def)

lemma same_ring_idx: "same_ring s s' \<Longrightarrow> sc_idx s' e = sc_idx s e"
  by (simp add: same_ring_def sc_idx_def)

lemma same_ring_setEntity: "sc_wf (fst ds) \<Longrightarrow> same_ring (fst ds) (fst (setEntity e sd ds))"
  unfolding same_ring_def sc_wf_def
  by (simp add: setEntity_fst) (metis length_0_conv setMask_sel(7))

lemma same_ring_setEntityIfUnknown: "sc_wf (fst ds) \<Longrightarrow> same_ring (fst ds) (fst (setEntityIfUnknown e sd ds))"
  by (simp add: setEntityIfUnknown_def same_ring_setEntity same_ring_refl)

lemma getEntity_setEntity:
  assumes "sc_wf (fst ds)" "sc_base (fst ds) \<le> e" "sc_base (fst ds) \<le> x"
  shows "getEntity (fst (setEntity e sd ds)) x = (if sc_idx (fst ds) x = sc_idx (fst ds) e then sd else getEntity (fst ds) x)"
  using getEntity_setMask [OF assms, of sd]
  by (simp add: getEntity_def sc_getPos_def setEntity_fst)

lemma same_ring_fold:
  assumes "\<And>e ds. sc_wf (fst ds) \<Longrightarrow> same_ring (fst ds) (fst (f e ds))" "sc_wf (fst ds)"
  shows "same_ring (fst ds) (fst (fold f es ds))"
  using assms(2)
proof (induction es arbitrary: ds)
  case Nil
  then show ?case by (simp add: same_ring_refl)
next
  case (Cons e es)
  have "same_ring (fst ds) (fst (f e ds))" using assms(1) Cons.prems .
  then show ?case using Cons.IH [of "f e ds"] by (auto dest: same_ring_wf intro: same_ring_trans)
qed

lemma getEntity_fold_unknown:
  assumes "sc_wf (fst ds)" "\<forall>e \<in> set es. sc_base (fst ds) \<le> of_nat e" "sc_base (fst ds) \<le> x"
  shows "getEntity (fst (fold (\<lambda>e. setEntity (of_nat e) selectorDecisionUnknown) es ds)) x =
    (if \<exists>e \<in> set es. sc_idx (fst ds) x = sc_idx (fst ds) (of_nat e) then selectorDecisionUnknown else getEntity (fst ds) x)"
  using assms
proof (induction es arbitrary: ds)
  case (Cons e es)
  have r: "same_ring (fst ds) (fst (setEntity (of_nat e) selectorDecisionUnknown ds))"
    using same_ring_setEntity Cons.prems(1) .
  then show ?case
    using Cons.IH [of "setEntity (of_nat e) selectorDecisionUnknown ds"] Cons.prems
    by (auto simp: getEntity_setEntity same_ring_idx [OF r] same_ring_wf [OF r] setEntity_fst)
qed simp

lemma getEntity_fold_missing:
  assumes "sc_wf (fst ds)" "\<forall>e \<in> set es. sc_base (fst ds) \<le> of_nat e" "sc_base (fst ds) \<le> x"
  shows "getEntity (fst (fold (\<lambda>e. setEntityIfUnknown (of_nat e) selectorDecisionMissing) es ds)) x =
    (if (\<exists>e \<in> set es. sc_idx (fst ds) x = sc_idx (fst ds) (of_nat e)) \<and> getEntity (fst ds) x = selectorDecisionUnknown
     then selectorDecisionMissing else getEntity (fst ds) x)"
  using assms
proof (induction es arbitrary: ds)
  case (Cons e es)
  let ?ds = "setEntityIfUnknown (of_nat e) selectorDecisionMissing ds"
  have r: "same_ring (fst ds) (fst ?ds)" using same_ring_setEntityIfUnknown Cons.prems(1) .
  have same: "sc_idx (fst ds) x = sc_idx (fst ds) (of_nat e) \<Longrightarrow> getEntity (fst ds) x = getEntity (fst ds) (of_nat e)"
    using Cons.prems by (simp add: getEntity_slot)
  have one: "getEntity (fst ?ds) x = (if sc_idx (fst ds) x = sc_idx (fst ds) (of_nat e) \<and> getEntity (fst ds) x = selectorDecisionUnknown
      then selectorDecisionMissing else getEntity (fst ds) x)"
    using Cons.prems same by (auto simp: setEntityIfUnknown_def getEntity_setEntity)
  show ?case
    using Cons.IH [of ?ds] Cons.prems
    by (auto simp: one same_ring_idx [OF r] same_ring_wf [OF r] setEntityIfUnknown_fst)
qed simp

lemma sc_idx_distinct:
  assumes "sc_base s \<le> x" "x < y" "unat y - unat x < unat (sc_numEntries s)"
  shows "sc_idx s x \<noteq> sc_idx s y"
  unfolding sc_idx_def using assms by (intro ring_distinct) (auto simp: word_le_nat_alt word_less_nat_alt)

lemma sc_idx_window:
  assumes "sc_base s \<le> x" "sc_base s \<le> y" "x \<le> l" "y \<le> l"
    and "unat l - unat x < unat (sc_numEntries s)" "unat l - unat y < unat (sc_numEntries s)"
  shows "sc_idx s x = sc_idx s y \<longleftrightarrow> x = y"
proof -
  have "sc_idx s a \<noteq> sc_idx s b" if "sc_base s \<le> a" "a < b" "b \<le> l" "unat l - unat a < unat (sc_numEntries s)" for a b
  proof -
    have "unat b - unat a < unat (sc_numEntries s)" using that by (auto simp: word_le_nat_alt)
    then show ?thesis using that by (intro sc_idx_distinct) auto
  qed
  from this [of x y] this [of y x] show ?thesis using assms by (metis linorder_neqE)
qed

subsection \<open>Adding a decision\<close>

text \<open>Frame numbers count from 16 bit values, so that the sum in \<open>addEntity\<close> does not wrap.\<close>

definition no_wrap :: "SelectorDecisionCache \<Rightarrow> bool" where
  "no_wrap s \<longleftrightarrow> unat (sc_numNackEntries s) + unat (sc_base s) < 2 ^ 64"

lemma missingFrom_unat:
  assumes "no_wrap s" "sc_base s \<le> n"
  shows "unat (missingFrom s n) = max (unat (sc_base s)) (unat n - unat (sc_numNackEntries s))"
  using assms by (auto simp: missingFrom_def no_wrap_def word_nat)

lemma getEntity_last [simp]: "getEntity (s\<lparr>sc_last := l\<rparr>) x = getEntity s x"
  by (simp add: getEntity_def sc_getPos_def)

lemma getEntity_expect [simp]: "getEntity (s\<lparr>sc_onExpect := m\<rparr>) x = getEntity s x"
  by (simp add: getEntity_def sc_getPos_def)

text \<open>The ring after a newer frame, before the callbacks of the frames that left the ring.\<close>

definition newerRing :: "u64 \<Rightarrow> selectorDecision \<Rightarrow> decisions \<Rightarrow> decisions" where
  "newerRing entity sd ds =
     setEntity entity sd
       (fold (\<lambda>e. setEntityIfUnknown (of_nat e) selectorDecisionMissing)
          [unat (missingFrom (fst ds) (sc_last (fst ds)))..<unat (missingFrom (fst ds) entity)]
          (fold (\<lambda>e. setEntity (of_nat e) selectorDecisionUnknown) [unat (sc_last (fst ds)) + 1..<unat entity] ds))"

lemma addEntity_newer:
  assumes "sc_initialized s" "sc_base s \<le> sc_last s" "sc_last s < entity"
  shows "addEntity entity sd (s, store) =
    expireCallbacks (case newerRing entity sd (s, store) of (s, store) \<Rightarrow> (s\<lparr>sc_last := entity\<rparr>, store))"
proof -
  have "\<not> entity \<le> sc_base s" "\<not> entity \<le> sc_last s" using assms by auto
  then show ?thesis using assms(1) by (simp add: addEntity_def newerRing_def Let_def case_prod_beta)
qed

lemma of_nat_range:
  fixes a b :: u64
  assumes "unat a \<le> e" "e < unat b"
  shows "a \<le> of_nat e" "unat (of_nat e :: u64) = e"
proof -
  have "e < 2 ^ 64" using assms u64_lt [of b] by simp
  then show "unat (of_nat e :: u64) = e" by (simp add: unat_of_nat take_bit_nat_eq_self)
  then show "a \<le> of_nat e" using assms by (simp add: word_le_nat_alt)
qed

lemma newerRing_same:
  assumes "sc_wf (fst ds)"
  shows "same_ring (fst ds) (fst (newerRing entity sd ds))"
proof -
  let ?u = "\<lambda>e. setEntity (of_nat e) selectorDecisionUnknown" and ?m = "\<lambda>e. setEntityIfUnknown (of_nat e) selectorDecisionMissing"
  have u: "same_ring (fst ds) (fst (fold ?u es ds))" for es by (rule same_ring_fold) (simp_all add: same_ring_setEntity assms)
  have m: "same_ring (fst ds) (fst (fold ?m es' (fold ?u es ds)))" for es es'
    by (rule same_ring_trans [OF u same_ring_fold]) (auto intro: same_ring_setEntityIfUnknown same_ring_wf [OF u])
  show ?thesis unfolding newerRing_def
    by (rule same_ring_trans [OF m same_ring_setEntity]) (rule same_ring_wf [OF m])
qed

lemma getEntity_newerRing:
  assumes wf: "sc_wf (fst ds)" and nw: "no_wrap (fst ds)" and bl: "sc_base (fst ds) \<le> sc_last (fst ds)" "sc_last (fst ds) < entity"
    and x: "sc_base (fst ds) \<le> x" "x \<le> entity" "unat entity - unat x < unat (sc_numEntries (fst ds))"
  defines "ms \<equiv> missingFrom (fst ds) (sc_last (fst ds))" and "me \<equiv> missingFrom (fst ds) entity"
  defines "d \<equiv> (if x \<le> sc_last (fst ds) then getEntity (fst ds) x else selectorDecisionUnknown)"
  shows "getEntity (fst (newerRing entity sd ds)) x =
    (if x = entity then sd
     else if (\<exists>y. ms \<le> y \<and> y < me \<and> sc_idx (fst ds) x = sc_idx (fst ds) y) \<and> d = selectorDecisionUnknown
     then selectorDecisionMissing else d)"
proof -
  let ?s = "fst ds"
  let ?u = "fold (\<lambda>e. setEntity (of_nat e) selectorDecisionUnknown) [unat (sc_last ?s) + 1..<unat entity] ds"
  let ?m = "fold (\<lambda>e. setEntityIfUnknown (of_nat e) selectorDecisionMissing) [unat ms..<unat me] ?u"
  have u: "same_ring ?s (fst ?u)" by (rule same_ring_fold) (simp_all add: same_ring_setEntity wf)
  have m: "same_ring ?s (fst ?m)"
    by (rule same_ring_trans [OF u same_ring_fold]) (rule same_ring_setEntityIfUnknown, assumption, rule same_ring_wf [OF u])
  have base: "sc_base (fst ?u) = sc_base ?s" "sc_base (fst ?m) = sc_base ?s" using u m by (auto simp: same_ring_def)
  have U: "getEntity (fst ?u) x = d" if "x \<noteq> entity"
  proof -
    have "(\<exists>e \<in> set [unat (sc_last ?s) + 1..<unat entity]. sc_idx ?s x = sc_idx ?s (of_nat e)) \<longleftrightarrow> \<not> x \<le> sc_last ?s"
    proof
      assume "\<exists>e \<in> set [unat (sc_last ?s) + 1..<unat entity]. sc_idx ?s x = sc_idx ?s (of_nat e)"
      then obtain e where e: "unat (sc_last ?s) < e" "e < unat entity" "sc_idx ?s x = sc_idx ?s (of_nat e)" by (auto simp: Suc_le_eq)
      note v = of_nat_range [OF less_imp_le e(2), OF e(1)]
      show "\<not> x \<le> sc_last ?s"
      proof
        assume "x \<le> sc_last ?s"
        then have "x < of_nat e" "unat (of_nat e :: u64) - unat x < unat (sc_numEntries ?s)"
          using e v x by (auto simp: word_le_nat_alt word_less_nat_alt)
        then show False using sc_idx_distinct [OF x(1)] e(3) by blast
      qed
    next
      assume "\<not> x \<le> sc_last ?s"
      then show "\<exists>e \<in> set [unat (sc_last ?s) + 1..<unat entity]. sc_idx ?s x = sc_idx ?s (of_nat e)"
        using that x by (intro bexI [of _ "unat x"]) (auto simp: word_le_nat_alt word_unat_eq_iff)
    qed
    moreover have "\<forall>e \<in> set [unat (sc_last ?s) + 1..<unat entity]. sc_base ?s \<le> of_nat e"
    proof
      fix e assume "e \<in> set [unat (sc_last ?s) + 1..<unat entity]"
      then have "sc_last ?s \<le> of_nat e" by (intro of_nat_range(1) [of _ _ entity]) auto
      then show "sc_base ?s \<le> of_nat e" using bl(1) by (rule order_trans [rotated])
    qed
    ultimately show ?thesis using getEntity_fold_unknown [OF wf _ x(1)] by (simp add: d_def)
  qed
  have "\<forall>e \<in> set [unat ms..<unat me]. sc_base (fst ?u) \<le> of_nat e"
  proof
    fix e assume "e \<in> set [unat ms..<unat me]"
    then have "ms \<le> of_nat e" by (intro of_nat_range(1) [of _ _ me]) auto
    moreover have "sc_base ?s \<le> ms" using missingFrom_unat [OF nw bl(1)] by (simp add: ms_def word_le_nat_alt)
    ultimately show "sc_base (fst ?u) \<le> of_nat e" unfolding base by simp
  qed
  then have "getEntity (fst ?m) x = (if (\<exists>e \<in> set [unat ms..<unat me]. sc_idx ?s x = sc_idx ?s (of_nat e)) \<and> d = selectorDecisionUnknown
      then selectorDecisionMissing else d)" if "x \<noteq> entity"
    using getEntity_fold_missing [OF same_ring_wf [OF u], of "[unat ms..<unat me]" x] x(1)
    unfolding base same_ring_idx [OF u] U [OF that] by blast
  moreover have "(\<exists>e \<in> set [unat ms..<unat me]. sc_idx ?s x = sc_idx ?s (of_nat e)) \<longleftrightarrow> (\<exists>y. ms \<le> y \<and> y < me \<and> sc_idx ?s x = sc_idx ?s y)"
  proof
    assume "\<exists>y. ms \<le> y \<and> y < me \<and> sc_idx ?s x = sc_idx ?s y"
    then obtain y where "ms \<le> y" "y < me" "sc_idx ?s x = sc_idx ?s y" by blast
    then show "\<exists>e \<in> set [unat ms..<unat me]. sc_idx ?s x = sc_idx ?s (of_nat e)"
      by (intro bexI [of _ "unat y"]) (auto simp: word_le_nat_alt word_less_nat_alt)
  next
    assume "\<exists>e \<in> set [unat ms..<unat me]. sc_idx ?s x = sc_idx ?s (of_nat e)"
    then obtain e where e: "unat ms \<le> e" "e < unat me" "sc_idx ?s x = sc_idx ?s (of_nat e)" by auto
    then show "\<exists>y. ms \<le> y \<and> y < me \<and> sc_idx ?s x = sc_idx ?s y"
      using of_nat_range [OF e(1,2)] by (intro exI [of _ "of_nat e"]) (simp add: word_less_nat_alt)
  qed
  moreover have "sc_idx ?s x = sc_idx ?s entity \<longleftrightarrow> x = entity"
    using sc_idx_distinct [of ?s x entity] x by (metis order_le_imp_less_or_eq)
  moreover have "sc_base ?s \<le> entity" using bl by simp
  ultimately show ?thesis
    using getEntity_setEntity [OF same_ring_wf [OF m], of entity x sd] x(1)
    unfolding newerRing_def ms_def [symmetric] me_def [symmetric] base same_ring_idx [OF m] by simp
qed

lemma expireCallbacks_fst [simp]:
  "getEntity (fst (expireCallbacks ds)) x = getEntity (fst ds) x"
  "sc_base (fst (expireCallbacks ds)) = sc_base (fst ds)" "sc_last (fst (expireCallbacks ds)) = sc_last (fst ds)"
  "sc_numEntries (fst (expireCallbacks ds)) = sc_numEntries (fst ds)"
  "sc_numNackEntries (fst (expireCallbacks ds)) = sc_numNackEntries (fst ds)"
  "sc_initialized (fst (expireCallbacks ds)) = sc_initialized (fst ds)"
  "sc_masks (fst (expireCallbacks ds)) = sc_masks (fst ds)"
  by (cases ds; simp add: expireCallbacks_def)+

lemma expireCallbacks_wf [simp]: "sc_wf (fst (expireCallbacks ds)) \<longleftrightarrow> sc_wf (fst ds)"
  by (simp add: sc_wf_def)

lemma sc_wf_last [simp]: "sc_wf (s\<lparr>sc_last := l\<rparr>) \<longleftrightarrow> sc_wf s"
  by (simp add: sc_wf_def)

lemma addEntity_newer_fst:
  fixes sd store
  assumes "sc_initialized s" "sc_base s \<le> sc_last s" "sc_last s < entity" "sc_wf s"
  defines "s' \<equiv> fst (addEntity entity sd (s, store))"
  shows "getEntity s' x = getEntity (fst (newerRing entity sd (s, store))) x" "sc_last s' = entity"
    "sc_base s' = sc_base s" "sc_numEntries s' = sc_numEntries s" "sc_numNackEntries s' = sc_numNackEntries s"
    "sc_initialized s'" "sc_wf s'"
  using newerRing_same [of "(s, store)" entity sd] assms(1,4)
  unfolding s'_def addEntity_newer [OF assms(1-3)] same_ring_def by (simp_all add: case_prod_beta)

lemma addEntity_known:
  assumes "sc_initialized s" "sc_base s < entity" "entity \<le> sc_last s"
  shows "addEntity entity sd (s, store) = setEntity entity sd (s, store)"
  using assms by (auto simp: addEntity_def)

lemma GetDecision_window:
  assumes "sc_initialized s" "sc_base s \<le> x" "x \<le> sc_last s" "unat (sc_last s) - unat x < unat (sc_numEntries s)"
  shows "GetDecision s x = (getEntity s x, False)"
proof -
  have "\<not> sc_numEntries s \<le> sc_last s - x" using assms by (simp add: word_le_nat_alt unat_sub)
  then show ?thesis using assms by (auto simp: GetDecision_def)
qed



end
