(* ===== verification/Frame_Chains.thy ===== *)
theory Frame_Chains
  imports Decision_Cache "HOL-Library.Multiset"
begin

text \<open>
  The chains against the decision cache: a chain that is not broken has lost none of the frames it relies on. The proof keeps
  the frames a chain has relied on since it was last intact beside the state of the code.
\<close>

section \<open>Callbacks\<close>

definition callbacks :: "SelectorDecisionCache \<Rightarrow> u64 \<Rightarrow> chainId list" where
  "callbacks s f = (case map_of (sc_onExpect s) f of None \<Rightarrow> [] | Some fns \<Rightarrow> fns)"

lemma indexOf_Some: "indexOf x xs = Some i \<Longrightarrow> i < length xs \<and> xs ! i = x"
  by (induction xs arbitrary: i) (auto split: if_splits)

lemma indexOf_None: "indexOf x xs = None \<longleftrightarrow> x \<notin> set xs"
  by (induction xs) (auto split: if_splits)

lemma mset_swapRemove:
  assumes "i < length xs"
  shows "mset (swapRemove i xs) = mset xs - {#xs ! i#}"
proof -
  have "xs \<noteq> []" using assms by auto
  then obtain ys l where xs: "xs = ys @ [l]" by (cases xs rule: rev_cases) auto
  show ?thesis
  proof (cases "i < length ys")
    case True
    then show ?thesis by (simp add: xs swapRemove_def list_update_append nth_append mset_update)
  next
    case False
    then have "i = length ys" using assms xs by simp
    then show ?thesis by (simp add: xs swapRemove_def)
  qed
qed

text \<open>What one callback does to a chain.\<close>

lemma OnExpect_unbroken:
  assumes "\<not> fch_broken (OnExpectFrameChanged e sd fc)"
  shows "\<not> fch_broken fc"
    "mset (fch_expectFrames (OnExpectFrameChanged e sd fc)) = mset (fch_expectFrames fc) - {#e#}"
    "sd \<noteq> selectorDecisionForwarded \<Longrightarrow> e \<notin> set (fch_expectFrames fc)"
  using assms indexOf_Some [of e "fch_expectFrames fc"]
  by (auto simp: OnExpectFrameChanged_def indexOf_None mset_swapRemove Let_def diff_single_trivial split: option.splits if_splits)

lemma runCallbacks_nth:
  assumes "cid < length store"
  shows "runCallbacks e sd fns store ! cid = (OnExpectFrameChanged e sd ^^ count_list fns cid) (store ! cid)"
  using assms
proof (induction fns arbitrary: store)
  case (Cons f fns)
  let ?store = "store[f := OnExpectFrameChanged e sd (store ! f)]"
  have "runCallbacks e sd (f # fns) store ! cid = runCallbacks e sd fns ?store ! cid" by (simp add: runCallbacks_def)
  also have "\<dots> = (OnExpectFrameChanged e sd ^^ count_list fns cid) (?store ! cid)" using Cons by simp
  finally show ?case using Cons.prems by (auto simp: funpow_swap1)
qed (simp add: runCallbacks_def)

lemma length_runCallbacks [simp]: "length (runCallbacks e sd fns store) = length store"
  by (induction fns arbitrary: store) (simp_all add: runCallbacks_def)

lemma funpow_OnExpect_unbroken:
  assumes "\<not> fch_broken ((OnExpectFrameChanged e sd ^^ n) fc)"
  shows "\<not> fch_broken fc \<and>
    mset (fch_expectFrames ((OnExpectFrameChanged e sd ^^ n) fc)) = mset (fch_expectFrames fc) - replicate_mset n e \<and>
    (0 < n \<longrightarrow> sd \<noteq> selectorDecisionForwarded \<longrightarrow> e \<notin> set (fch_expectFrames fc))"
  using assms
proof (induction n)
  case (Suc n)
  let ?fc = "(OnExpectFrameChanged e sd ^^ n) fc"
  note u = OnExpect_unbroken [of e sd ?fc]
  have "\<not> fch_broken ?fc" using u(1) Suc.prems by simp
  then have ih: "\<not> fch_broken fc" "mset (fch_expectFrames ?fc) = mset (fch_expectFrames fc) - replicate_mset n e"
    "0 < n \<longrightarrow> sd \<noteq> selectorDecisionForwarded \<longrightarrow> e \<notin> set (fch_expectFrames fc)" using Suc.IH by auto
  moreover have "mset (fch_expectFrames ((OnExpectFrameChanged e sd ^^ Suc n) fc)) = mset (fch_expectFrames fc) - replicate_mset (Suc n) e"
    using u(2) Suc.prems ih(2) by simp
  moreover have "e \<notin> set (fch_expectFrames fc)" if "sd \<noteq> selectorDecisionForwarded"
    using that ih(3) u(3) Suc.prems by (cases n) auto
  ultimately show ?case by blast
qed simp

section \<open>Invariant\<close>

text \<open>Every frame a chain waits for has its callback, as often as the chain waits for it.\<close>

definition registered :: "SelectorDecisionCache \<Rightarrow> chainId \<Rightarrow> FrameChain \<Rightarrow> bool" where
  "registered s cid fc \<longleftrightarrow> (\<forall>f. count (mset (fch_expectFrames fc)) f \<le> count_list (callbacks s f) cid)"

text \<open>\<open>F\<close>: the frames decided as forwarded, \<open>R\<close>: the frames the chain relies on.\<close>

definition chain_ok :: "u64 set \<Rightarrow> SelectorDecisionCache \<Rightarrow> u64 set \<Rightarrow> chainId \<Rightarrow> FrameChain \<Rightarrow> bool" where
  "chain_ok F s R cid fc \<longleftrightarrow>
     (fch_broken fc \<or> registered s cid fc \<and> (\<forall>f \<in> R. f \<in> F \<or> f \<in> set (fch_expectFrames fc)))"

definition chains_ok :: "u64 set \<Rightarrow> (chainId \<Rightarrow> u64 set) \<Rightarrow> decisions \<Rightarrow> bool" where
  "chains_ok F R = (\<lambda>(s, store). \<forall>cid < length store. chain_ok F s (R cid) cid (store ! cid))"

lemma chain_ok_mono: "chain_ok F s R cid fc \<Longrightarrow> F \<subseteq> F' \<Longrightarrow> chain_ok F' s R cid fc"
  by (auto simp: chain_ok_def)

lemma callbacks_setMask [simp]: "callbacks (setMask e sd s) f = callbacks s f"
  by (simp add: callbacks_def)

lemma chain_ok_setMask [simp]: "chain_ok F (setMask e sd s) R cid fc \<longleftrightarrow> chain_ok F s R cid fc"
  by (simp add: chain_ok_def registered_def)

text \<open>Running the callbacks of a frame and forgetting them.\<close>

lemma chain_ok_callback:
  assumes ok: "chain_ok F s R cid fc" and F: "sd = selectorDecisionForwarded \<Longrightarrow> e \<in> F"
    and cb: "\<And>f. callbacks s' f = (if f = e then [] else callbacks s f)"
  shows "chain_ok F s' R cid ((OnExpectFrameChanged e sd ^^ count_list (callbacks s e) cid) fc)"
proof (cases "fch_broken ((OnExpectFrameChanged e sd ^^ count_list (callbacks s e) cid) fc)")
  case False
  let ?n = "count_list (callbacks s e) cid" and ?fc = "(OnExpectFrameChanged e sd ^^ count_list (callbacks s e) cid) fc"
  note u = funpow_OnExpect_unbroken [OF False]
  have r: "registered s cid fc" "\<forall>f \<in> R. f \<in> F \<or> f \<in> set (fch_expectFrames fc)" using ok u by (auto simp: chain_ok_def)
  have e0: "count (mset (fch_expectFrames ?fc)) e = 0" using r(1) u by (simp add: registered_def)
  have "registered s' cid ?fc" unfolding registered_def
  proof
    fix f
    show "count (mset (fch_expectFrames ?fc)) f \<le> count_list (callbacks s' f) cid"
    proof (cases "f = e")
      case True
      then show ?thesis using e0 by (metis le0)
    next
      case False
      then show ?thesis using r(1) u cb [of f] by (simp add: registered_def)
    qed
  qed
  moreover have "f \<in> F \<or> f \<in> set (fch_expectFrames ?fc)" if "f \<in> R" for f
  proof (cases "f \<in> F \<or> f \<notin> set (fch_expectFrames fc)")
    case True
    then show ?thesis using r(2) that by blast
  next
    case no: False
    show ?thesis
    proof (cases "f = e")
      case True
      then have "0 < ?n" using r(1) no unfolding registered_def by (metis count_greater_zero_iff less_le_trans set_mset_mset)
      then have "sd = selectorDecisionForwarded" using u no True by blast
      then show ?thesis using F True by simp
    next
      case False
      have "count (mset (fch_expectFrames fc)) f > 0" using no by (simp add: count_greater_zero_iff)
      then have "count (mset (fch_expectFrames ?fc)) f > 0" using u False by simp
      then show ?thesis by (simp add: count_greater_zero_iff)
    qed
  qed
  ultimately show ?thesis by (simp add: chain_ok_def)
qed (simp add: chain_ok_def)

lemma callbacks_remove: "callbacks (s\<lparr>sc_onExpect := filter (\<lambda>(k, _). k \<noteq> e) (sc_onExpect s)\<rparr>) f = (if f = e then [] else callbacks s f)"
proof -
  have "map_of (filter (\<lambda>(k, _). k \<noteq> e) m) f = (if f = e then None else map_of m f)" for m :: "(u64 \<times> chainId list) list"
    by (induction m) auto
  then show ?thesis by (simp add: callbacks_def)
qed

lemma length_setEntity [simp]: "length (snd (setEntity e sd ds)) = length (snd ds)"
  by (cases ds) (simp add: setEntity_def Let_def split: option.split)

lemma chains_ok_setEntity:
  assumes "chains_ok F R ds" "sd = selectorDecisionForwarded \<Longrightarrow> e \<in> F"
  shows "chains_ok F R (setEntity e sd ds)"
proof -
  obtain s store where ds: "ds = (s, store)" by (cases ds)
  show ?thesis
  proof (cases "sd = selectorDecisionUnknown \<or> map_of (sc_onExpect s) e = None")
    case True
    then show ?thesis using assms by (auto simp: ds setEntity_def chains_ok_def Let_def)
  next
    case False
    then obtain fns where fns: "map_of (sc_onExpect s) e = Some fns" "sd \<noteq> selectorDecisionUnknown" by auto
    let ?s = "(setMask e sd s)\<lparr>sc_onExpect := filter (\<lambda>(k, _). k \<noteq> e) (sc_onExpect (setMask e sd s))\<rparr>"
    have "callbacks s e = fns" using fns by (simp add: callbacks_def)
    then have "chain_ok F ?s (R cid) cid (runCallbacks e sd fns store ! cid)" if "cid < length store" for cid
      using chain_ok_callback [of F s "R cid" cid "store ! cid" sd e ?s] assms that
        callbacks_remove [where s = "setMask e sd s" and e = e] by (simp add: runCallbacks_nth chains_ok_def ds del: setMask_sel)
    then show ?thesis using fns by (simp add: ds setEntity_def chains_ok_def Let_def)
  qed
qed

lemma chains_ok_setEntityIfUnknown:
  "chains_ok F R ds \<Longrightarrow> chains_ok F R (setEntityIfUnknown e selectorDecisionMissing ds)"
  by (simp add: setEntityIfUnknown_def) (intro impI chains_ok_setEntity, auto)

lemma chains_ok_fold: "(\<And>e ds. chains_ok F R ds \<Longrightarrow> chains_ok F R (f e ds)) \<Longrightarrow> chains_ok F R ds \<Longrightarrow> chains_ok F R (fold f es ds)"
  by (induction es arbitrary: ds) auto

lemma chains_ok_newerRing:
  assumes "chains_ok F R ds" "sd = selectorDecisionForwarded \<Longrightarrow> e \<in> F"
  shows "chains_ok F R (newerRing e sd ds)"
  unfolding newerRing_def using assms
  by (intro chains_ok_setEntity chains_ok_fold chains_ok_setEntityIfUnknown) auto

lemma chains_ok_last: "chains_ok F R (s\<lparr>sc_last := l\<rparr>, store) \<longleftrightarrow> chains_ok F R (s, store)"
  by (simp add: chains_ok_def chain_ok_def registered_def callbacks_def)

text \<open>Expired callbacks break the chains that still wait.\<close>

lemma fold_missing_unbroken:
  assumes "cid < length store" "\<not> fch_broken (fold (\<lambda>(e, fns). runCallbacks e selectorDecisionMissing fns) m store ! cid)"
  shows "\<not> fch_broken (store ! cid) \<and> (\<forall>(e, fns) \<in> set m. cid \<in> set fns \<longrightarrow> e \<notin> set (fch_expectFrames (store ! cid))) \<and>
    mset (fch_expectFrames (fold (\<lambda>(e, fns). runCallbacks e selectorDecisionMissing fns) m store ! cid)) = mset (fch_expectFrames (store ! cid))"
  using assms
proof (induction m arbitrary: store)
  case (Cons p m)
  obtain e fns where p: "p = (e, fns)" by (cases p)
  let ?store = "runCallbacks e selectorDecisionMissing fns store" and ?n = "count_list fns cid"
  have ih: "\<not> fch_broken (?store ! cid)" "\<forall>(e, fns) \<in> set m. cid \<in> set fns \<longrightarrow> e \<notin> set (fch_expectFrames (?store ! cid))"
    "mset (fch_expectFrames (fold (\<lambda>(e, fns). runCallbacks e selectorDecisionMissing fns) m ?store ! cid)) = mset (fch_expectFrames (?store ! cid))"
    using Cons.IH [of ?store] Cons.prems p by auto
  note u = funpow_OnExpect_unbroken [OF ih(1) [unfolded runCallbacks_nth [OF Cons.prems(1)]]]
  have same: "mset (fch_expectFrames (?store ! cid)) = mset (fch_expectFrames (store ! cid))"
  proof (cases ?n)
    case 0
    then show ?thesis using Cons.prems(1) by (simp add: runCallbacks_nth)
  next
    case (Suc k)
    then have "e \<notin># mset (fch_expectFrames (store ! cid))" using u by simp
    then have c: "count (mset (fch_expectFrames (store ! cid))) e = 0" by (simp only: not_in_iff)
    then have "mset (fch_expectFrames (store ! cid)) - replicate_mset ?n e = mset (fch_expectFrames (store ! cid))"
    proof (intro multiset_eqI)
      fix f
      show "count (mset (fch_expectFrames (store ! cid)) - replicate_mset ?n e) f = count (mset (fch_expectFrames (store ! cid))) f"
        by (cases "f = e") (simp_all only: count_diff count_replicate_mset c if_True if_False diff_zero diff_0_eq_0)
    qed
    then show ?thesis using u Cons.prems(1) by (simp add: runCallbacks_nth)
  qed
  then have "set (fch_expectFrames (?store ! cid)) = set (fch_expectFrames (store ! cid))" by (metis set_mset_mset)
  moreover have "cid \<in> set fns \<Longrightarrow> 0 < ?n" by (metis count_list_0_iff gr0I)
  ultimately show ?case using u ih same p by auto
qed simp

lemma chains_ok_expire:
  assumes "chains_ok F R ds"
  shows "chains_ok F R (expireCallbacks ds)"
proof -
  obtain s store where ds: "ds = (s, store)" by (cases ds)
  let ?old = "\<lambda>e. e + sc_numEntries s < sc_last s"
  let ?m = "filter (\<lambda>(e, _). ?old e) (sc_onExpect s)"
  let ?s = "s\<lparr>sc_onExpect := filter (\<lambda>(e, _). \<not> ?old e) (sc_onExpect s)\<rparr>"
  let ?st = "fold (\<lambda>(e, fns). runCallbacks e selectorDecisionMissing fns) ?m store"
  have len: "length (fold (\<lambda>(e, fns). runCallbacks e selectorDecisionMissing fns) m st) = length st" for m st
    by (induction m arbitrary: st) auto
  have "map_of (filter (\<lambda>(e, _). \<not> P e) m) f = (if P f then None else map_of m f)" for m :: "(u64 \<times> chainId list) list" and P f
    by (induction m) auto
  then have cb: "callbacks ?s f = (if ?old f then [] else callbacks s f)" for f by (simp add: callbacks_def)
  have "chain_ok F ?s (R cid) cid (?st ! cid)" if c: "cid < length store" for cid
  proof (cases "fch_broken (?st ! cid)")
    case False
    note u = fold_missing_unbroken [OF c False]
    have r: "registered s cid (store ! cid)" "\<forall>f \<in> R cid. f \<in> F \<or> f \<in> set (fch_expectFrames (store ! cid))"
      using assms c u by (auto simp: chains_ok_def chain_ok_def ds)
    have "f \<notin> set (fch_expectFrames (store ! cid))" if old: "?old f" for f
    proof
      assume f: "f \<in> set (fch_expectFrames (store ! cid))"
      then have "0 < count_list (callbacks s f) cid"
        using r(1) unfolding registered_def by (metis count_greater_zero_iff less_le_trans set_mset_mset)
      then have "cid \<in> set (callbacks s f)" by (metis count_list_0_iff less_irrefl)
      moreover from this have "(f, callbacks s f) \<in> set (sc_onExpect s)"
        by (auto simp: callbacks_def split: option.splits dest: map_of_SomeD)
      ultimately show False using u f old by auto
    qed
    then have "registered ?s cid (?st ! cid)"
      using r(1) u cb unfolding registered_def by (metis count_mset_0_iff le0)
    moreover have "set (fch_expectFrames (?st ! cid)) = set (fch_expectFrames (store ! cid))" using u by (metis set_mset_mset)
    ultimately show ?thesis using r(2) by (simp add: chain_ok_def)
  qed (simp add: chain_ok_def)
  then show ?thesis by (simp add: ds expireCallbacks_def chains_ok_def len)
qed

section \<open>Forwarded frames\<close>

text \<open>The ring says forwarded only of frames that were decided so.\<close>

definition fwd_ok :: "u64 set \<Rightarrow> SelectorDecisionCache \<Rightarrow> bool" where
  "fwd_ok F s \<longleftrightarrow> sc_wf s \<and> sc_numNackEntries s < 2 ^ 63 \<and>
     (sc_initialized s \<longrightarrow> sc_base s < 2 ^ 63 \<and> sc_base s \<le> sc_last s \<and>
        (\<forall>x. sc_base s \<le> x \<and> x \<le> sc_last s \<and> unat (sc_last s) - unat x < unat (sc_numEntries s) \<and>
             getEntity s x = selectorDecisionForwarded \<longrightarrow> x \<in> F))"

lemma fwd_ok_no_wrap: "fwd_ok F s \<Longrightarrow> sc_initialized s \<Longrightarrow> no_wrap s"
  by (auto simp: fwd_ok_def no_wrap_def word_less_nat_alt)

lemma fwd_ok_GetDecision:
  assumes "fwd_ok F s" "fst (GetDecision s x) = selectorDecisionForwarded"
  shows "x \<in> F"
proof -
  have "sc_initialized s" "sc_base s \<le> x" "x \<le> sc_last s" "\<not> sc_numEntries s \<le> sc_last s - x"
    "getEntity s x = selectorDecisionForwarded"
    using assms(2) by (auto simp: GetDecision_def split: if_splits)
  moreover from this have "unat (sc_last s) - unat x < unat (sc_numEntries s)" by (simp add: word_le_nat_alt unat_sub)
  ultimately show ?thesis using assms(1) by (auto simp: fwd_ok_def)
qed

lemma fwd_ok_first:
  assumes "fwd_ok F s" "\<not> sc_initialized s" "entity < 2 ^ 63" "sd = selectorDecisionForwarded \<Longrightarrow> entity \<in> F"
  shows "fwd_ok F (fst (addEntity entity sd (s, store)))"
proof -
  let ?s = "s\<lparr>sc_initialized := True, sc_base := entity, sc_last := entity\<rparr>"
  have wf: "sc_wf ?s" using assms(1) by (simp add: fwd_ok_def sc_wf_def)
  have r: "same_ring ?s (fst (setEntity entity sd (?s, store)))" using same_ring_setEntity [of "(?s, store)"] wf by simp
  have "getEntity (fst (setEntity entity sd (?s, store))) entity = sd"
    using getEntity_setEntity [of "(?s, store)" entity entity sd] wf by simp
  then show ?thesis using assms r by (auto simp: addEntity_def fwd_ok_def same_ring_def)
qed

lemma fwd_ok_add:
  assumes ok: "fwd_ok F s" and old: "\<not> snd (GetDecision s entity)" and e: "entity < 2 ^ 63"
    and F: "sd = selectorDecisionForwarded \<Longrightarrow> entity \<in> F"
  shows "fwd_ok F (fst (addEntity entity sd (s, store)))"
proof (cases "sc_initialized s")
  case False
  then show ?thesis using fwd_ok_first assms by blast
next
  case True
  have wf: "sc_wf s" and bl: "sc_base s \<le> sc_last s" "sc_base s < 2 ^ 63" "sc_numNackEntries s < 2 ^ 63"
    and f: "\<And>x. sc_base s \<le> x \<Longrightarrow> x \<le> sc_last s \<Longrightarrow> unat (sc_last s) - unat x < unat (sc_numEntries s) \<Longrightarrow>
      getEntity s x = selectorDecisionForwarded \<Longrightarrow> x \<in> F"
    using ok True by (auto simp: fwd_ok_def)
  consider "entity \<le> sc_base s" | "sc_base s < entity" "entity \<le> sc_last s" | "sc_last s < entity" by fastforce
  then show ?thesis
  proof cases
    case 1
    then show ?thesis using ok True by (simp add: addEntity_def)
  next
    case 2
    let ?s = "fst (setEntity entity sd (s, store))"
    have r: "same_ring s ?s" using same_ring_setEntity [of "(s, store)"] wf by simp
    have w: "unat (sc_last s) - unat entity < unat (sc_numEntries s)"
      using old True 2 by (auto simp: GetDecision_def word_le_nat_alt word_less_nat_alt unat_sub split: if_splits)
    have "x \<in> F" if "sc_base s \<le> x" "x \<le> sc_last s" "unat (sc_last s) - unat x < unat (sc_numEntries s)" "getEntity ?s x = selectorDecisionForwarded" for x
      using that f [of x] F getEntity_setEntity [of "(s, store)" entity x sd] wf 2(1)
        sc_idx_window [of s x entity "sc_last s"] w 2(2) by (auto split: if_splits)
    then show ?thesis using r bl True by (auto simp: addEntity_known [OF True 2] fwd_ok_def same_ring_def)
  next
    case 3
    note a = addEntity_newer_fst [OF True bl(1) 3 wf, of sd store]
    have "x \<in> F" if "sc_base s \<le> x" "x \<le> entity" "unat entity - unat x < unat (sc_numEntries s)"
      "getEntity (fst (newerRing entity sd (s, store))) x = selectorDecisionForwarded" for x
    proof (cases "x \<le> sc_last s")
      case True
      then have "unat (sc_last s) - unat x < unat (sc_numEntries s)" using that(3) 3 by (auto simp: word_less_nat_alt)
      then show ?thesis
        using getEntity_newerRing [of "(s, store)" entity x sd] that wf fwd_ok_no_wrap [OF ok \<open>sc_initialized s\<close>] bl(1) 3 f [of x] F True
        by (auto split: if_splits)
    next
      case False
      then show ?thesis
        using getEntity_newerRing [of "(s, store)" entity x sd] that wf fwd_ok_no_wrap [OF ok \<open>sc_initialized s\<close>] bl(1) 3 F
        by (auto split: if_splits)
    qed
    moreover have "sc_base s \<le> entity" using bl(1) 3 by simp
    ultimately show ?thesis using a bl by (auto simp: fwd_ok_def)
  qed
qed

lemma chains_ok_add:
  assumes ok: "chains_ok F R (s, store)" "fwd_ok F s" and F: "sd = selectorDecisionForwarded \<Longrightarrow> entity \<in> F"
  shows "chains_ok F R (addEntity entity sd (s, store))"
proof (cases "sc_initialized s \<and> sc_last s < entity")
  case True
  then have "sc_base s \<le> sc_last s" using ok(2) by (simp add: fwd_ok_def)
  moreover have "chains_ok F R (newerRing entity sd (s, store))" using chains_ok_newerRing ok(1) F .
  ultimately show ?thesis using True by (simp add: addEntity_newer case_prod_beta chains_ok_expire chains_ok_last)
next
  case False
  have "chains_ok F R (s\<lparr>sc_initialized := True, sc_base := entity, sc_last := entity\<rparr>, store)"
    using ok(1) by (simp add: chains_ok_def chain_ok_def registered_def callbacks_def)
  then show ?thesis using False ok(1) chains_ok_setEntity [OF _ F] by (auto simp: addEntity_def not_less)
qed

section \<open>Frames\<close>

lemma callbacks_expectAdd:
  "callbacks (s\<lparr>sc_onExpect := expectAdd e cid (sc_onExpect s)\<rparr>) f = (if f = e then callbacks s f @ [cid] else callbacks s f)"
proof -
  have "map_of (map (\<lambda>(k, fns). if k = e then (k, fns @ [cid]) else (k, fns)) m) f =
      (if f = e then map_option (\<lambda>fns. fns @ [cid]) (map_of m f) else map_of m f)" for m :: "(u64 \<times> chainId list) list"
    by (induction m) auto
  then show ?thesis by (auto simp: callbacks_def expectAdd_def split: option.split)
qed

text \<open>The frames a chain relies on: it starts afresh when it is intact and adds the previous frame of the chain.\<close>

definition relies :: "u64 \<Rightarrow> FrameDependencyTemplate \<Rightarrow> FrameChain \<Rightarrow> u64 set \<Rightarrow> u64 set" where
  "relies extFrameNum fd fc R =
     (if \<not> fch_active fc \<or> length (ChainDiffs fd) \<le> fch_chainIdx fc then R
      else if ChainDiffs fd ! fch_chainIdx fc = 0 then {}
      else insert (extFrameNum - of_int (ChainDiffs fd ! fch_chainIdx fc)) R)"

lemma registered_expect:
  assumes "registered s cid fc" "ExpectDecision p c s = (s', b)"
  shows "registered s' cid fc"
proof -
  have "count_list (callbacks s f) cid \<le> count_list (callbacks s' f) cid" for f
    using assms(2) by (auto simp: ExpectDecision_def callbacks_expectAdd split: if_splits)
  then show ?thesis using assms(1) unfolding registered_def by (meson order_trans)
qed

lemma registered_new:
  assumes "registered s cid fc" "ExpectDecision p cid s = (s', True)"
  shows "registered s' cid (fc\<lparr>fch_expectFrames := fch_expectFrames fc @ [p]\<rparr>)"
  using assms by (auto simp: registered_def ExpectDecision_def callbacks_expectAdd split: if_splits)

lemma chain_ok_expect: "chain_ok F s R cid fc \<Longrightarrow> ExpectDecision p c s = (s', b) \<Longrightarrow> chain_ok F s' R cid fc"
  by (auto simp: chain_ok_def registered_expect)

lemma fwd_ok_expect: "fwd_ok F s \<Longrightarrow> ExpectDecision p c s = (s', b) \<Longrightarrow> fwd_ok F s'"
  by (auto simp: fwd_ok_def ExpectDecision_def sc_wf_def split: if_splits)

lemma OnFrame_ok:
  assumes ok: "chains_ok F R (s, store)" "fwd_ok F s" and c: "cid < length store"
  shows "chains_ok F (R(cid := relies e fd (store ! cid) (R cid))) (fst (chain_OnFrame cid e fd (s, store))) \<and>
    fwd_ok F (fst (fst (chain_OnFrame cid e fd (s, store)))) \<and>
    length (snd (fst (chain_OnFrame cid e fd (s, store)))) = length store"
proof -
  let ?fc = "store ! cid" and ?p = "e - of_int (ChainDiffs fd ! fch_chainIdx (store ! cid))"
  have here: "chain_ok F s (R cid) cid ?fc" and all: "\<And>k. k < length store \<Longrightarrow> chain_ok F s (R k) k (store ! k)"
    using ok(1) c by (auto simp: chains_ok_def)
  have put: "chains_ok F (R(cid := R')) (s', store[cid := fc])"
    if "chain_ok F s' R' cid fc" "\<And>k. k < length store \<Longrightarrow> k \<noteq> cid \<Longrightarrow> chain_ok F s' (R k) k (store ! k)" for R' s' fc
    using that by (auto simp: chains_ok_def nth_list_update)
  have keep: "chains_ok F (R(cid := R')) (s, store)" if "fch_broken ?fc \<or> R' = R cid" for R'
    using that all c by (auto simp: chains_ok_def chain_ok_def)
  consider (off) "\<not> fch_active ?fc \<or> length (ChainDiffs fd) \<le> fch_chainIdx ?fc"
    | (zero) "fch_active ?fc" "\<not> length (ChainDiffs fd) \<le> fch_chainIdx ?fc" "ChainDiffs fd ! fch_chainIdx ?fc = 0"
    | (broken) "fch_active ?fc" "\<not> length (ChainDiffs fd) \<le> fch_chainIdx ?fc" "ChainDiffs fd ! fch_chainIdx ?fc \<noteq> 0" "fch_broken ?fc"
    | (next_frame) "fch_active ?fc" "\<not> length (ChainDiffs fd) \<le> fch_chainIdx ?fc" "ChainDiffs fd ! fch_chainIdx ?fc \<noteq> 0" "\<not> fch_broken ?fc"
    by blast
  then show ?thesis
  proof cases
    case off
    then show ?thesis using ok keep by (auto simp: chain_OnFrame_def relies_def Let_def)
  next
    case zero
    then show ?thesis using ok(2) put [of s "{}"] all by (simp add: chain_OnFrame_def relies_def Let_def chain_ok_def registered_def)
  next
    case broken
    then show ?thesis using ok(2) keep by (simp add: chain_OnFrame_def relies_def Let_def)
  next
    case next_frame
    have brk: "chain_ok F s' R' cid (?fc\<lparr>fch_broken := True\<rparr>)" for s' R' by (simp add: chain_ok_def)
    obtain s' b where ex: "ExpectDecision ?p cid s = (s', b)" by (cases "ExpectDecision ?p cid s")
    have fwd: "chains_ok F (R(cid := insert ?p (R cid))) (s, store)" if "fst (GetDecision s ?p) = selectorDecisionForwarded"
      using put [of s "insert ?p (R cid)" ?fc] all here next_frame fwd_ok_GetDecision [OF ok(2) that] by (auto simp: chain_ok_def)
    have new: "chain_ok F s' (insert ?p (R cid)) cid (?fc\<lparr>fch_expectFrames := fch_expectFrames ?fc @ [?p]\<rparr>)" if b
      using here next_frame registered_new [of s cid ?fc ?p s'] ex that by (auto simp: chain_ok_def)
    show ?thesis
      using next_frame ex put [of s' "insert ?p (R cid)"] put [of s "insert ?p (R cid)"] brk fwd new all ok(2)
        chain_ok_expect [OF _ ex] fwd_ok_expect [OF ok(2) ex]
      by (cases "fst (GetDecision s ?p)"; cases b) (auto simp: chain_OnFrame_def relies_def Let_def)
  qed
qed

section \<open>Runs\<close>

text \<open>
  The calls a selector makes: decisions, which it takes only for frames that are not too old, frames, and changes of the
  activity of a chain.
\<close>

datatype chainOp = Decide u64 bool | Frame chainId u64 FrameDependencyTemplate | Activity chainId bool

fun chainStep :: "chainOp \<Rightarrow> decisions \<times> (chainId \<Rightarrow> u64 set) \<Rightarrow> decisions \<times> (chainId \<Rightarrow> u64 set)" where
  "chainStep (Decide e forwarded) (ds, R) =
     (if snd (GetDecision (fst ds) e) then (ds, R)
      else (if forwarded then AddForwarded e ds else AddDropped e ds, R))"
| "chainStep (Frame cid e fd) (ds, R) =
     (if cid < length (snd ds)
      then (fst (chain_OnFrame cid e fd ds), R(cid := relies e fd (snd ds ! cid) (R cid))) else (ds, R))"
| "chainStep (Activity cid a) ((s, store), R) =
     ((s, store[cid := EndUpdateActive (chain_UpdateActive a (BeginUpdateActive (store ! cid)))]), R)"

definition chainRun :: "nat \<Rightarrow> chainOp list \<Rightarrow> decisions \<times> (chainId \<Rightarrow> u64 set)" where
  "chainRun n ops = fold chainStep ops ((NewSelectorDecisionCache 256 80, map NewFrameChain [0..<n]), \<lambda>_. {})"

lemma length_fold_setEntity [simp]:
  "length (snd (fold (\<lambda>e. setEntity (g e) sd) es ds)) = length (snd ds)"
  "length (snd (fold (\<lambda>e. setEntityIfUnknown (g e) sd) es ds)) = length (snd ds)"
  by (induction es arbitrary: ds) (simp_all add: setEntityIfUnknown_def)

lemma length_addEntity [simp]: "length (snd (addEntity e sd ds)) = length (snd ds)"
proof -
  obtain s store where ds: "ds = (s, store)" by (cases ds)
  have "length (fold (\<lambda>(e, fns). runCallbacks e selectorDecisionMissing fns) m st) = length st" for m st
    by (induction m arbitrary: st) auto
  then have "length (snd (expireCallbacks ds)) = length (snd ds)" for ds by (cases ds) (simp add: expireCallbacks_def)
  then show ?thesis by (simp add: ds addEntity_def Let_def case_prod_beta)
qed

definition run_ok :: "u64 set \<Rightarrow> nat \<Rightarrow> decisions \<times> (chainId \<Rightarrow> u64 set) \<Rightarrow> bool" where
  "run_ok F n = (\<lambda>(ds, R). chains_ok F R ds \<and> fwd_ok F (fst ds) \<and> length (snd ds) = n)"

lemma run_ok_mono:
  assumes "run_ok F n c" "F \<subseteq> F'"
  shows "run_ok F' n c"
proof -
  obtain s store R where c: "c = ((s, store), R)" by (cases c) auto
  have "fwd_ok F' s" using assms c unfolding run_ok_def fwd_ok_def by auto
  then show ?thesis using assms c by (auto simp: run_ok_def chains_ok_def intro: chain_ok_mono)
qed

lemma run_ok_Decide:
  assumes "run_ok F n (ds, R)" "e < 2 ^ 63" "fw \<Longrightarrow> e \<in> F"
  shows "run_ok F n (chainStep (Decide e fw) (ds, R))"
proof -
  obtain s store where ds: "ds = (s, store)" by (cases ds)
  have ok: "chains_ok F R (s, store)" "fwd_ok F s" "length store = n" using assms(1) by (auto simp: run_ok_def ds)
  show ?thesis
  proof (cases "snd (GetDecision s e)")
    case False
    have "run_ok F n (addEntity e sd (s, store), R)" if "sd = selectorDecisionForwarded \<Longrightarrow> e \<in> F" for sd
      using chains_ok_add [OF ok(1,2) that] fwd_ok_add [OF ok(2) False assms(2) that, of sd store] ok(3) by (simp add: run_ok_def)
    from this [of selectorDecisionForwarded] this [of selectorDecisionDropped] show ?thesis
      using False assms(3) by (auto simp: ds AddForwarded_def AddDropped_def)
  qed (use assms(1) ds in simp)
qed

lemma run_ok_Frame:
  assumes "run_ok F n (ds, R)"
  shows "run_ok F n (chainStep (Frame cid e fd) (ds, R))"
  using assms OnFrame_ok [of F R "fst ds" "snd ds" cid e fd] by (auto simp: run_ok_def)

lemma run_ok_Activity:
  assumes "run_ok F n (ds, R)"
  shows "run_ok F n (chainStep (Activity cid a) (ds, R))"
proof -
  obtain s store where ds: "ds = (s, store)" by (cases ds)
  let ?fc = "EndUpdateActive (chain_UpdateActive a (BeginUpdateActive (store ! cid)))"
  have "fch_broken ?fc \<or> fch_broken ?fc = fch_broken (store ! cid) \<and> fch_expectFrames ?fc = fch_expectFrames (store ! cid)"
    by (auto simp: EndUpdateActive_def chain_UpdateActive_def BeginUpdateActive_def Let_def)
  moreover have "chain_ok F s (R cid) cid (store ! cid)" if "cid < length store"
    using assms that by (simp add: run_ok_def chains_ok_def ds)
  ultimately have "chain_ok F s (R cid) cid ?fc" if "cid < length store"
    using that unfolding chain_ok_def registered_def by metis
  then show ?thesis using assms
    by (cases "cid < length store") (auto simp: run_ok_def chains_ok_def ds nth_list_update)
qed

lemma run_ok_run:
  assumes "\<forall>e fw. Decide e fw \<in> set ops \<longrightarrow> e < 2 ^ 63"
  shows "run_ok {e. Decide e True \<in> set ops} n (chainRun n ops)"
  using assms
proof (induction ops rule: rev_induct)
  case Nil
  have "sc_wf (NewSelectorDecisionCache 256 80)" by code_simp
  then have "fwd_ok {} (NewSelectorDecisionCache 256 80)" by (simp add: fwd_ok_def NewSelectorDecisionCache_def Let_def)
  then show ?case by (simp add: chainRun_def run_ok_def chains_ok_def chain_ok_def NewFrameChain_def)
next
  case (snoc op ops)
  let ?F = "{e. Decide e True \<in> set (ops @ [op])}"
  obtain ds R where c: "chainRun n ops = (ds, R)" by (cases "chainRun n ops")
  have "run_ok ?F n (ds, R)"
    using run_ok_mono [OF snoc.IH, of ?F] snoc.prems c by auto
  then have "run_ok ?F n (chainStep op (ds, R))"
    using run_ok_Decide [of ?F n ds R] run_ok_Frame run_ok_Activity snoc.prems by (cases op) auto
  then show ?case using c by (simp add: chainRun_def)
qed

section \<open>Properties\<close>

text \<open>
  C20: a frame chain that is not broken has lost no frame. In every run of decisions, frames and activity changes on the
  chains of a selector, each frame that an unbroken chain has relied on since it was last intact either has been decided as
  forwarded, or is still awaited by the chain and the callback that will break or confirm the chain is registered. The
  callbacks of frames that are dropped, given up as missing or fall out of the ring therefore always break the chains that
  need them.
\<close>

theorem unbroken_chain_complete:
  assumes "\<forall>e fw. Decide e fw \<in> set ops \<longrightarrow> e < 2 ^ 63"
    and "chainRun n ops = ((s, store), R)" "cid < n" "\<not> fch_broken (store ! cid)" "f \<in> R cid"
  shows "Decide f True \<in> set ops \<or> f \<in> set (fch_expectFrames (store ! cid)) \<and> cid \<in> set (callbacks s f)"
proof -
  have "chain_ok {e. Decide e True \<in> set ops} s (R cid) cid (store ! cid)"
    using run_ok_run [OF assms(1), of n] assms(2,3) by (auto simp: run_ok_def chains_ok_def)
  then have r: "registered s cid (store ! cid)" "Decide f True \<in> set ops \<or> f \<in> set (fch_expectFrames (store ! cid))"
    using assms(4,5) by (auto simp: chain_ok_def)
  moreover have "cid \<in> set (callbacks s f)" if "f \<in> set (fch_expectFrames (store ! cid))"
    using r(1) that unfolding registered_def by (metis count_greater_zero_iff count_list_0_iff less_le_trans less_irrefl set_mset_mset)
  ultimately show ?thesis by blast
qed

text \<open>Chain 0 is intact at frame 5; frame 8 relies on frame 7, which has not arrived.\<close>

definition demo_fd :: "int \<Rightarrow> FrameDependencyTemplate" where
  "demo_fd d = \<lparr>SpatialId = 0, TemporalId = 0, DecodeTargetIndications = [DecodeTargetSwitch], FrameDiffs = [], ChainDiffs = [d]\<rparr>"

definition demo_chain_ops :: "chainOp list" where
  "demo_chain_ops = [Activity 0 True, Frame 0 5 (demo_fd 0), Decide 5 True, Frame 0 8 (demo_fd 1), Decide 8 True]"

theorem unbroken_chain_complete_witness:
  "let ((s, store), R) = chainRun 1 demo_chain_ops
   in Decide 7 True \<in> set demo_chain_ops \<or> 7 \<in> set (fch_expectFrames (store ! 0)) \<and> 0 \<in> set (callbacks s 7)"
proof -
  obtain s store R where r: "chainRun 1 demo_chain_ops = ((s, store), R)" by (metis prod.exhaust)
  have "\<not> fch_broken (snd (fst (chainRun 1 demo_chain_ops)) ! 0)" "7 \<in> snd (chainRun 1 demo_chain_ops) 0"
    by code_simp+
  moreover have "\<forall>e fw. Decide e fw \<in> set demo_chain_ops \<longrightarrow> e < 2 ^ 63" by (auto simp: demo_chain_ops_def)
  ultimately show ?thesis using unbroken_chain_complete [OF _ r, of 0 7] r by simp
qed

end
