(* ===== verification/Layer_Selector.thy ===== *)
theory Layer_Selector
  imports Packets
begin

text \<open>
  \<^verbatim>\<open>pkg/sfu/videolayerselector\<close>: the state all video layer selectors share (\<^verbatim>\<open>base.go\<close>), the
  selectors for simulcast (\<^verbatim>\<open>simulcast.go\<close>) and VP9 SVC (\<^verbatim>\<open>vp9.go\<close>) and the temporal layer
  selector of VP8 (\<^verbatim>\<open>temporallayerselector/vp8.go\<close>). A selector embeds a pointer to its \<open>Base\<close>
  and adds no state of its own, so it is a function on the base record.
\<close>

section \<open>Model\<close>

record VideoLayerSelectorResult =
  IsSelected :: bool
  IsRelevant :: bool
  IsSwitching :: bool
  IsResuming :: bool
  RTPMarker :: bool
  DependencyDescriptorExtension :: bytes

definition noResult :: VideoLayerSelectorResult where
  "noResult = \<lparr>IsSelected = False, IsRelevant = False, IsSwitching = False, IsResuming = False,
     RTPMarker = False, DependencyDescriptorExtension = []\<rparr>"

text \<open>The only temporal layer selector that implements the interface is the one for VP8.\<close>

datatype TemporalLayerSelector = TlsVP8

subsection \<open>Base\<close>

record SelBase =
  tls :: "TemporalLayerSelector option"
  maxLayer :: VideoLayer
  maxSeenLayer :: VideoLayer
  targetLayer :: VideoLayer
  previousTargetLayer :: VideoLayer
  requestSpatial :: int
  currentLayer :: VideoLayer
  previousLayer :: VideoLayer

definition NewBase :: SelBase where
  "NewBase = \<lparr>tls = None, maxLayer = InvalidLayer, maxSeenLayer = InvalidLayer, targetLayer = InvalidLayer,
     previousTargetLayer = InvalidLayer, requestSpatial = InvalidLayerSpatial, currentLayer = InvalidLayer,
     previousLayer = InvalidLayer\<rparr>"

definition SetTemporalLayerSelector :: "TemporalLayerSelector option \<Rightarrow> SelBase \<Rightarrow> SelBase" where
  "SetTemporalLayerSelector t b = b\<lparr>tls := t\<rparr>"

definition SetMax :: "VideoLayer \<Rightarrow> SelBase \<Rightarrow> SelBase" where
  "SetMax l b = b\<lparr>maxLayer := l\<rparr>"

definition SetMaxSpatial :: "int \<Rightarrow> SelBase \<Rightarrow> SelBase" where
  "SetMaxSpatial layer b = b\<lparr>maxLayer := (maxLayer b)\<lparr>Spatial := layer\<rparr>\<rparr>"

definition SetMaxTemporal :: "int \<Rightarrow> SelBase \<Rightarrow> SelBase" where
  "SetMaxTemporal layer b = b\<lparr>maxLayer := (maxLayer b)\<lparr>Temporal := layer\<rparr>\<rparr>"

definition SetTarget :: "VideoLayer \<Rightarrow> SelBase \<Rightarrow> SelBase" where
  "SetTarget l b = b\<lparr>previousTargetLayer := l, targetLayer := l\<rparr>"

definition SetRequestSpatial :: "int \<Rightarrow> SelBase \<Rightarrow> SelBase" where
  "SetRequestSpatial layer b = b\<lparr>requestSpatial := layer\<rparr>"

definition CheckSync :: "SelBase \<Rightarrow> bool \<times> int" where
  "CheckSync b = (requestSpatial b = Spatial (currentLayer b), requestSpatial b)"

definition SetMaxSeen :: "VideoLayer \<Rightarrow> SelBase \<Rightarrow> SelBase" where
  "SetMaxSeen l b = b\<lparr>maxSeenLayer := l\<rparr>"

definition SetMaxSeenSpatial :: "int \<Rightarrow> SelBase \<Rightarrow> SelBase" where
  "SetMaxSeenSpatial layer b = b\<lparr>maxSeenLayer := (maxSeenLayer b)\<lparr>Spatial := layer\<rparr>\<rparr>"

definition SetMaxSeenTemporal :: "int \<Rightarrow> SelBase \<Rightarrow> SelBase" where
  "SetMaxSeenTemporal layer b = b\<lparr>maxSeenLayer := (maxSeenLayer b)\<lparr>Temporal := layer\<rparr>\<rparr>"

definition SetCurrent :: "VideoLayer \<Rightarrow> SelBase \<Rightarrow> SelBase" where
  "SetCurrent l b = b\<lparr>currentLayer := l\<rparr>"

definition Rollback :: "SelBase \<Rightarrow> SelBase" where
  "Rollback b = b\<lparr>currentLayer := previousLayer b, targetLayer := previousTargetLayer b\<rparr>"

text \<open>\<open>(this, next)\<close>\<close>

definition tlsVP8_Select :: "ExtPacket \<Rightarrow> int \<Rightarrow> int \<Rightarrow> int \<times> int" where
  "tlsVP8_Select extPkt current target =
     (if current = target then (current, current)
      else case ep_Payload extPkt of
        PayloadVP8 vp8 \<Rightarrow>
          let tid = Temporal (ep_VideoLayer extPkt) in
          if current < target then
            if tid > current \<and> tid \<le> target \<and> vp8_S vp8 then (tid, tid) else (current, current)
          else if rtp_Marker (ep_Packet extPkt) then (current, target) else (current, current)
      | _ \<Rightarrow> (current, current))"

definition SelectTemporal :: "ExtPacket \<Rightarrow> SelBase \<Rightarrow> SelBase \<times> int" where
  "SelectTemporal extPkt b =
     (case tls b of
        Some TlsVP8 \<Rightarrow>
          (case tlsVP8_Select extPkt (Temporal (currentLayer b)) (Temporal (targetLayer b)) of
             (this, next) \<Rightarrow>
               (if next \<noteq> Temporal (currentLayer b) then b\<lparr>currentLayer := (currentLayer b)\<lparr>Temporal := next\<rparr>\<rparr> else b, this))
      | None \<Rightarrow> (b, Temporal (currentLayer b)))"

subsection \<open>Simulcast\<close>

definition lockTarget :: "SelBase \<Rightarrow> SelBase" where
  "lockTarget s =
     (if Spatial (currentLayer s) \<ge> Spatial (maxLayer s) \<or> Spatial (currentLayer s) = Spatial (maxSeenLayer s)
      then s\<lparr>targetLayer := (targetLayer s)\<lparr>Spatial := Spatial (currentLayer s)\<rparr>\<rparr> else s)"

text \<open>The part that looks for a switch towards the target.\<close>

definition simulcastSwitch :: "ExtPacket \<Rightarrow> int \<Rightarrow> SelBase \<Rightarrow> SelBase \<times> VideoLayerSelectorResult" where
  "simulcastSwitch extPkt layer s =
     (if Spatial (currentLayer s) \<noteq> Spatial (targetLayer s) then
        let isActive = layer_IsValid (currentLayer s);
            found = ep_IsKeyFrame extPkt \<and>
              (layer > Spatial (currentLayer s) \<and> layer \<le> Spatial (targetLayer s) \<or>
               layer < Spatial (currentLayer s) \<and> layer \<ge> Spatial (targetLayer s)) in
        if found then
          (lockTarget (s\<lparr>previousLayer := currentLayer s,
             currentLayer := \<lparr>Spatial = layer, Temporal = Temporal (ep_VideoLayer extPkt)\<rparr>,
             previousTargetLayer := targetLayer s\<rparr>),
           noResult\<lparr>IsSwitching := True, IsResuming := \<not> isActive\<rparr>)
        else (s, noResult)
      else (s, noResult))"

text \<open>The part that dials back an overshoot.\<close>

definition simulcastOvershoot ::
  "ExtPacket \<Rightarrow> int \<Rightarrow> SelBase \<times> VideoLayerSelectorResult \<Rightarrow> SelBase \<times> VideoLayerSelectorResult" where
  "simulcastOvershoot extPkt layer = (\<lambda>(s, result).
     if Spatial (currentLayer s) > Spatial (maxLayer s) \<and> layer \<le> Spatial (maxLayer s) \<and> ep_IsKeyFrame extPkt
     then (lockTarget (s\<lparr>previousLayer := currentLayer s, currentLayer := (currentLayer s)\<lparr>Spatial := layer\<rparr>,
             previousTargetLayer := targetLayer s\<rparr>), result\<lparr>IsSwitching := True\<rparr>)
     else (s, result))"

definition simulcast_Select :: "ExtPacket \<Rightarrow> int \<Rightarrow> SelBase \<Rightarrow> SelBase \<times> VideoLayerSelectorResult" where
  "simulcast_Select extPkt layer s =
     (case simulcastOvershoot extPkt layer (simulcastSwitch extPkt layer s) of
        (s, result) \<Rightarrow> (s, result\<lparr>RTPMarker := rtp_Marker (ep_Packet extPkt),
                          IsSelected := (layer = Spatial (currentLayer s)), IsRelevant := False\<rparr>))"

subsection \<open>VP9\<close>

text \<open>The layer the packet is compared with, and the layer the selector moves to.\<close>

definition vp9Layers :: "ExtPacket \<Rightarrow> VP9Packet \<Rightarrow> SelBase \<Rightarrow> VideoLayer \<times> VideoLayer" where
  "vp9Layers extPkt vp9 v =
     (let cur = currentLayer v; target = targetLayer v; pkt = ep_VideoLayer extPkt;
          (c, u) = (cur, cur);
          (c, u) =
            (if Temporal cur \<noteq> Temporal target then
               if Temporal cur < Temporal target then
                 if Temporal pkt > Temporal cur \<and> Temporal pkt \<le> Temporal target \<and> vp9_U vp9 \<and> vp9_B vp9
                 then (c\<lparr>Temporal := Temporal pkt\<rparr>, u\<lparr>Temporal := Temporal pkt\<rparr>) else (c, u)
               else if vp9_E vp9 then (c, u\<lparr>Temporal := Temporal target\<rparr>) else (c, u)
             else (c, u))
      in if Spatial cur \<noteq> Spatial target then
           if Spatial cur < Spatial target then
             if Spatial pkt > Spatial cur \<and> Spatial pkt \<le> Spatial target \<and> \<not> vp9_P vp9 \<and> vp9_B vp9
             then (c\<lparr>Spatial := Spatial pkt\<rparr>, u\<lparr>Spatial := Spatial pkt\<rparr>) else (c, u)
           else if vp9_E vp9 then (c, u\<lparr>Spatial := Spatial target\<rparr>) else (c, u)
         else (c, u))"

definition vp9_Finish :: "ExtPacket \<Rightarrow> VP9Packet \<Rightarrow> VideoLayer \<Rightarrow> SelBase \<times> VideoLayerSelectorResult \<Rightarrow> SelBase \<times> VideoLayerSelectorResult" where
  "vp9_Finish extPkt vp9 cur = (\<lambda>(v, result).
     (v, result\<lparr>RTPMarker := rtp_Marker (ep_Packet extPkt) \<or>
            (vp9_E vp9 \<and> Spatial (ep_VideoLayer extPkt) = Spatial cur \<and>
             (vp9_P vp9 \<or> Spatial (targetLayer v) \<le> Spatial (currentLayer v))),
          IsSelected := \<not> GreaterThan (ep_VideoLayer extPkt) cur, IsRelevant := True\<rparr>))"

definition vp9_Select :: "ExtPacket \<Rightarrow> SelBase \<Rightarrow> SelBase \<times> VideoLayerSelectorResult" where
  "vp9_Select extPkt v =
     (case ep_Payload extPkt of
        PayloadVP9 vp9 \<Rightarrow>
          if currentLayer v \<noteq> targetLayer v then
            if \<not> layer_IsValid (currentLayer v) \<and> \<not> ep_IsKeyFrame extPkt then (v, noResult)
            else
              let (cur, updated) =
                (if \<not> layer_IsValid (currentLayer v) then (currentLayer v, ep_VideoLayer extPkt) else vp9Layers extPkt vp9 v) in
              vp9_Finish extPkt vp9 cur
                (if updated \<noteq> currentLayer v
                 then (v\<lparr>previousLayer := currentLayer v, currentLayer := updated\<rparr>,
                       noResult\<lparr>IsSwitching := True,
                         IsResuming := \<not> layer_IsValid (currentLayer v) \<and> layer_IsValid updated\<rparr>)
                 else (v, noResult))
          else vp9_Finish extPkt vp9 (currentLayer v) (v, noResult)
      | _ \<Rightarrow> (v, noResult))"

text \<open>The null selector uses the \<open>Select\<close> of the base, which selects nothing.\<close>

definition base_Select :: "ExtPacket \<Rightarrow> int \<Rightarrow> SelBase \<Rightarrow> SelBase \<times> VideoLayerSelectorResult" where
  "base_Select extPkt layer b = (b, noResult)"

section \<open>Single steps\<close>

lemma lockTarget_sel [simp]:
  "currentLayer (lockTarget s) = currentLayer s" "previousLayer (lockTarget s) = previousLayer s"
  "maxLayer (lockTarget s) = maxLayer s" "previousTargetLayer (lockTarget s) = previousTargetLayer s"
  "maxSeenLayer (lockTarget s) = maxSeenLayer s" "requestSpatial (lockTarget s) = requestSpatial s"
  "Temporal (targetLayer (lockTarget s)) = Temporal (targetLayer s)"
  by (simp_all add: lockTarget_def)

text \<open>The two parts of the simulcast selector exclude each other.\<close>

lemma simulcast_Select_cases:
  assumes "simulcast_Select p l s = (s', r)"
  obtains (stay) "s' = s" "\<not> IsSwitching r" "IsSelected r \<longleftrightarrow> l = Spatial (currentLayer s)"
  | (switch) t where "ep_IsKeyFrame p" "l \<noteq> Spatial (currentLayer s)"
      "s' = lockTarget (s\<lparr>previousLayer := currentLayer s, currentLayer := \<lparr>Spatial = l, Temporal = t\<rparr>, previousTargetLayer := targetLayer s\<rparr>)"
      "IsSwitching r" "IsSelected r"
      "l > Spatial (currentLayer s) \<and> l \<le> Spatial (targetLayer s) \<or> l < Spatial (currentLayer s) \<and> l \<ge> Spatial (targetLayer s) \<or>
       l < Spatial (currentLayer s) \<and> l \<le> Spatial (maxLayer s)"
proof -
  have upd: "(currentLayer s)\<lparr>Spatial := l\<rparr> = \<lparr>Spatial = l, Temporal = Temporal (currentLayer s)\<rparr>" by simp
  let ?sw = "Spatial (currentLayer s) \<noteq> Spatial (targetLayer s) \<and> ep_IsKeyFrame p \<and>
      (l > Spatial (currentLayer s) \<and> l \<le> Spatial (targetLayer s) \<or> l < Spatial (currentLayer s) \<and> l \<ge> Spatial (targetLayer s))"
  show thesis
  proof (cases ?sw)
    case True
    then show thesis using assms
      by (intro switch [of "Temporal (ep_VideoLayer p)"])
        (auto simp: simulcast_Select_def simulcastSwitch_def simulcastOvershoot_def Let_def split: if_splits)
  next
    case no: False
    show thesis
    proof (cases "Spatial (currentLayer s) > Spatial (maxLayer s) \<and> l \<le> Spatial (maxLayer s) \<and> ep_IsKeyFrame p")
      case True
      then show thesis using assms no
        by (intro switch [of "Temporal (currentLayer s)"])
          (auto simp: simulcast_Select_def simulcastSwitch_def simulcastOvershoot_def Let_def upd split: if_splits)
    next
      case False
      then show thesis using assms no
        by (intro stay) (auto simp: simulcast_Select_def simulcastSwitch_def simulcastOvershoot_def Let_def noResult_def split: if_splits)
    qed
  qed
qed

section \<open>Runs of the simulcast selector\<close>

text \<open>What the forwarder calls on a selector.\<close>

datatype selOp = OpSelect ExtPacket int | OpSelectTemporal ExtPacket | OpRollback
  | OpSetTarget VideoLayer | OpSetMax VideoLayer | OpSetMaxSpatial int | OpSetMaxTemporal int
  | OpSetMaxSeen VideoLayer | OpSetMaxSeenSpatial int | OpSetMaxSeenTemporal int
  | OpSetRequestSpatial int | OpSetTemporalLayerSelector "TemporalLayerSelector option"

fun selStep :: "selOp \<Rightarrow> SelBase \<Rightarrow> SelBase" where
  "selStep (OpSelect p l) s = fst (simulcast_Select p l s)"
| "selStep (OpSelectTemporal p) s = fst (SelectTemporal p s)"
| "selStep OpRollback s = Rollback s"
| "selStep (OpSetTarget l) s = SetTarget l s"
| "selStep (OpSetMax l) s = SetMax l s"
| "selStep (OpSetMaxSpatial n) s = SetMaxSpatial n s"
| "selStep (OpSetMaxTemporal n) s = SetMaxTemporal n s"
| "selStep (OpSetMaxSeen l) s = SetMaxSeen l s"
| "selStep (OpSetMaxSeenSpatial n) s = SetMaxSeenSpatial n s"
| "selStep (OpSetMaxSeenTemporal n) s = SetMaxSeenTemporal n s"
| "selStep (OpSetRequestSpatial n) s = SetRequestSpatial n s"
| "selStep (OpSetTemporalLayerSelector t) s = SetTemporalLayerSelector t s"

definition selRun :: "selOp list \<Rightarrow> SelBase" where
  "selRun ops = fold selStep ops NewBase"

definition keyed :: "selOp list \<Rightarrow> int \<Rightarrow> bool" where
  "keyed ops l \<longleftrightarrow> l = InvalidLayerSpatial \<or> (\<exists>p. OpSelect p l \<in> set ops \<and> ep_IsKeyFrame p)"

lemma keyed_snoc: "keyed ops l \<Longrightarrow> keyed (ops @ [op']) l"
  by (auto simp: keyed_def)

lemma SelectTemporal_spatial:
  "Spatial (currentLayer (fst (SelectTemporal p s))) = Spatial (currentLayer s)"
  "previousLayer (fst (SelectTemporal p s)) = previousLayer s"
  by (auto simp: SelectTemporal_def split: option.splits TemporalLayerSelector.splits prod.splits)

lemma selRun_keyed:
  "keyed ops (Spatial (currentLayer (selRun ops))) \<and> keyed ops (Spatial (previousLayer (selRun ops)))"
proof (induction ops rule: rev_induct)
  case Nil
  show ?case by (simp add: selRun_def NewBase_def keyed_def layer_consts)
next
  case (snoc op' ops)
  have run: "selRun (ops @ [x]) = selStep x (selRun ops)" for x by (simp add: selRun_def)
  note IH = keyed_snoc [OF conjunct1 [OF snoc], of op'] keyed_snoc [OF conjunct2 [OF snoc], of op']
  show ?case
  proof (cases op')
    case (OpSelect p l)
    obtain s' r where sel: "simulcast_Select p l (selRun ops) = (s', r)" by fastforce
    from sel show ?thesis
    proof (cases rule: simulcast_Select_cases)
      case stay
      then show ?thesis using IH OpSelect sel unfolding run by simp
    next
      case (switch t)
      then show ?thesis using IH OpSelect sel unfolding run by (auto simp: keyed_def)
    qed
  qed (use IH in \<open>simp_all add: run SelectTemporal_spatial Rollback_def SetTarget_def SetMax_def SetMaxSpatial_def SetMaxTemporal_def
      SetMaxSeen_def SetMaxSeenSpatial_def SetMaxSeenTemporal_def SetRequestSpatial_def SetTemporalLayerSelector_def\<close>)
qed

section \<open>Properties\<close>


text \<open>A packet for witnesses.\<close>

definition demoPacket :: "bool \<Rightarrow> VideoLayer \<Rightarrow> codecPayload \<Rightarrow> ExtPacket" where
  "demoPacket key layer payload = \<lparr>ep_VideoLayer = layer, ep_Arrival = 0, ep_ExtSequenceNumber = 1, ep_ExtTimestamp = 1,
     ep_Packet = \<lparr>rtp_SequenceNumber = 1, rtp_Timestamp = 1, rtp_Marker = True, rtp_SSRC = 7, rtp_PayloadType = 96, rtp_Payload = []\<rparr>,
     ep_Payload = payload, ep_IsKeyFrame = key, ep_DependencyDescriptor = None, ep_IsOutOfOrder = False\<rparr>"

definition demoOps :: "selOp list" where
  "demoOps = [OpSetMax \<lparr>Spatial = 2, Temporal = 3\<rparr>, OpSetMaxSeen \<lparr>Spatial = 2, Temporal = 3\<rparr>,
     OpSetTarget \<lparr>Spatial = 1, Temporal = 3\<rparr>, OpSelect (demoPacket True \<lparr>Spatial = 0, Temporal = 0\<rparr> PayloadNone) 0]"


text \<open>
  A switch of the simulcast selector happens only on a key frame, goes to the layer of that key frame, selects that very
  packet, moves between the current layer and the target (or back below the maximum), and can be undone: \<open>Rollback\<close> restores
  the current and the target layer of before.
\<close>

theorem simulcast_switch_undone:
  assumes "simulcast_Select p l s = (s', r)" "currentLayer s' \<noteq> currentLayer s \<or> IsSwitching r"
  shows "ep_IsKeyFrame p \<and> Spatial (currentLayer s') = l \<and> IsSelected r \<and> IsSwitching r \<and>
    (min (Spatial (currentLayer s)) (Spatial (targetLayer s)) \<le> l \<and> l \<le> max (Spatial (currentLayer s)) (Spatial (targetLayer s)) \<or>
     l \<le> Spatial (maxLayer s)) \<and>
    currentLayer (Rollback s') = currentLayer s \<and> targetLayer (Rollback s') = targetLayer s"
  using assms(1)
proof (cases rule: simulcast_Select_cases)
  case stay
  then show ?thesis using assms(2) by simp
next
  case (switch t)
  then show ?thesis by (auto simp: Rollback_def)
qed

theorem simulcast_switch_undone_witness:
  "let (s', r) = simulcast_Select (demoPacket True \<lparr>Spatial = 1, Temporal = 0\<rparr> PayloadNone) 1 (selRun demoOps)
   in currentLayer (Rollback s') = currentLayer (selRun demoOps)"
proof -
  let ?p = "demoPacket True \<lparr>Spatial = 1, Temporal = 0\<rparr> PayloadNone"
  have "IsSwitching (snd (simulcast_Select ?p 1 (selRun demoOps)))" by code_simp
  then show ?thesis
    using simulcast_switch_undone [of ?p 1 "selRun demoOps" "fst (simulcast_Select ?p 1 (selRun demoOps))"
        "snd (simulcast_Select ?p 1 (selRun demoOps))"] by (simp add: case_prod_beta)
qed

text \<open>
  The simulcast selector reaches its target: the first key frame of the target's spatial layer is selected, and from then
  on the selector is locked to that layer, with the target unchanged.
\<close>

theorem simulcast_locks_target:
  assumes "simulcast_Select p (Spatial (targetLayer s)) s = (s', r)" "ep_IsKeyFrame p"
  shows "IsSelected r \<and> Spatial (currentLayer s') = Spatial (targetLayer s) \<and>
    targetLayer s' = targetLayer s"
  using assms
  by (auto simp: simulcast_Select_def simulcastSwitch_def simulcastOvershoot_def lockTarget_def Let_def split: if_splits)

theorem simulcast_locks_target_witness:
  "Spatial (currentLayer (fst (simulcast_Select (demoPacket True \<lparr>Spatial = 1, Temporal = 0\<rparr> PayloadNone) 1 (selRun demoOps)))) = 1"
proof -
  have t: "Spatial (targetLayer (selRun demoOps)) = 1" by code_simp
  show ?thesis
    using simulcast_locks_target [of "demoPacket True \<lparr>Spatial = 1, Temporal = 0\<rparr> PayloadNone" "selRun demoOps"
        "fst (simulcast_Select (demoPacket True \<lparr>Spatial = 1, Temporal = 0\<rparr> PayloadNone) 1 (selRun demoOps))"
        "snd (simulcast_Select (demoPacket True \<lparr>Spatial = 1, Temporal = 0\<rparr> PayloadNone) 1 (selRun demoOps))"] t
    by (simp add: demoPacket_def)
qed

text \<open>The VP9 selector, one layer dimension at a time.\<close>

definition upTo :: "bool \<Rightarrow> int \<Rightarrow> int \<Rightarrow> int \<Rightarrow> bool" where
  "upTo ok cur target pkt \<longleftrightarrow> cur < target \<and> cur < pkt \<and> pkt \<le> target \<and> ok"

definition nextDim :: "bool \<Rightarrow> bool \<Rightarrow> int \<Rightarrow> int \<Rightarrow> int \<Rightarrow> int" where
  "nextDim ok e cur target pkt = (if upTo ok cur target pkt then pkt else if target < cur \<and> e then target else cur)"

lemma vp9Layers_dims:
  fixes v :: SelBase
  defines "cur \<equiv> currentLayer v" and "target \<equiv> targetLayer v"
  shows "vp9Layers p vp9 v =
    (\<lparr>Spatial = if upTo (\<not> vp9_P vp9 \<and> vp9_B vp9) (Spatial cur) (Spatial target) (Spatial (ep_VideoLayer p)) then Spatial (ep_VideoLayer p) else Spatial cur,
      Temporal = if upTo (vp9_U vp9 \<and> vp9_B vp9) (Temporal cur) (Temporal target) (Temporal (ep_VideoLayer p)) then Temporal (ep_VideoLayer p) else Temporal cur\<rparr>,
     \<lparr>Spatial = nextDim (\<not> vp9_P vp9 \<and> vp9_B vp9) (vp9_E vp9) (Spatial cur) (Spatial target) (Spatial (ep_VideoLayer p)),
      Temporal = nextDim (vp9_U vp9 \<and> vp9_B vp9) (vp9_E vp9) (Temporal cur) (Temporal target) (Temporal (ep_VideoLayer p))\<rparr>)"
proof -
  obtain a b where c: "currentLayer v = \<lparr>Spatial = a, Temporal = b\<rparr>" by (cases "currentLayer v") auto
  show ?thesis unfolding vp9Layers_def cur_def target_def c Let_def by (simp add: nextDim_def upTo_def)
qed

lemma nextDim_props:
  assumes "n = nextDim ok e cur target pkt"
  shows "cur < n \<Longrightarrow> ok \<and> n = pkt \<and> n \<le> target" "n < cur \<Longrightarrow> e \<and> n = target"
    "(if upTo ok cur target pkt then pkt else cur) = max cur n"
  using assms by (auto simp: nextDim_def upTo_def split: if_splits)

lemma vp9_Select_valid:
  assumes "vp9_Select p v = (v', r)" "ep_Payload p = PayloadVP9 vp9" "layer_IsValid (currentLayer v)"
  shows "currentLayer v' = snd (vp9Layers p vp9 v)" "IsSelected r \<longleftrightarrow> \<not> GreaterThan (ep_VideoLayer p) (fst (vp9Layers p vp9 v))"
    "IsSwitching r \<Longrightarrow> previousLayer v' = currentLayer v"
proof -
  have same: "vp9Layers p vp9 v = (currentLayer v, currentLayer v)" if "currentLayer v = targetLayer v"
    using that by (simp add: vp9Layers_def Let_def)
  show "currentLayer v' = snd (vp9Layers p vp9 v)" "IsSelected r \<longleftrightarrow> \<not> GreaterThan (ep_VideoLayer p) (fst (vp9Layers p vp9 v))"
    "IsSwitching r \<Longrightarrow> previousLayer v' = currentLayer v"
    using assms same
    by (auto simp: vp9_Select_def vp9_Finish_def noResult_def case_prod_beta split: if_splits)
qed

text \<open>
  The VP9 selector changes layers only where the stream allows it: it moves up in temporal layer only at the start of a
  frame that is a switching up point, up in spatial layer only at the start of a frame without inter-picture dependency, in both
  cases to the layer of the packet and never beyond the target; it moves down only at the end of a frame, to the target. A
  selected packet is not above the layer in force for it, and the current layer is restored by \<open>Rollback\<close>.
\<close>

theorem vp9_switch_points:
  assumes "vp9_Select p v = (v', r)" "ep_Payload p = PayloadVP9 vp9" "layer_IsValid (currentLayer v)"
  shows "(Temporal (currentLayer v') > Temporal (currentLayer v) \<longrightarrow> vp9_U vp9 \<and> vp9_B vp9 \<and>
       Temporal (currentLayer v') = Temporal (ep_VideoLayer p) \<and> Temporal (currentLayer v') \<le> Temporal (targetLayer v)) \<and>
    (Spatial (currentLayer v') > Spatial (currentLayer v) \<longrightarrow> \<not> vp9_P vp9 \<and> vp9_B vp9 \<and>
       Spatial (currentLayer v') = Spatial (ep_VideoLayer p) \<and> Spatial (currentLayer v') \<le> Spatial (targetLayer v)) \<and>
    (Temporal (currentLayer v') < Temporal (currentLayer v) \<longrightarrow> vp9_E vp9 \<and> Temporal (currentLayer v') = Temporal (targetLayer v)) \<and>
    (Spatial (currentLayer v') < Spatial (currentLayer v) \<longrightarrow> vp9_E vp9 \<and> Spatial (currentLayer v') = Spatial (targetLayer v)) \<and>
    (IsSelected r \<longleftrightarrow> \<not> GreaterThan (ep_VideoLayer p)
       \<lparr>Spatial = max (Spatial (currentLayer v)) (Spatial (currentLayer v')), Temporal = max (Temporal (currentLayer v)) (Temporal (currentLayer v'))\<rparr>) \<and>
    (IsSwitching r \<longrightarrow> currentLayer (Rollback v') = currentLayer v)"
proof -
  note c = vp9_Select_valid [OF assms] and d = vp9Layers_dims [of p vp9 v]
  have S: "Spatial (currentLayer v') = nextDim (\<not> vp9_P vp9 \<and> vp9_B vp9) (vp9_E vp9) (Spatial (currentLayer v)) (Spatial (targetLayer v)) (Spatial (ep_VideoLayer p))"
    and T: "Temporal (currentLayer v') = nextDim (vp9_U vp9 \<and> vp9_B vp9) (vp9_E vp9) (Temporal (currentLayer v)) (Temporal (targetLayer v)) (Temporal (ep_VideoLayer p))"
    using c(1) d by simp_all
  have "IsSelected r \<longleftrightarrow> \<not> GreaterThan (ep_VideoLayer p)
       \<lparr>Spatial = max (Spatial (currentLayer v)) (Spatial (currentLayer v')), Temporal = max (Temporal (currentLayer v)) (Temporal (currentLayer v'))\<rparr>"
    unfolding c(2) d fst_conv nextDim_props(3) [OF S] nextDim_props(3) [OF T] by (rule refl)
  then show ?thesis using nextDim_props(1,2) [OF S] nextDim_props(1,2) [OF T] c(3) by (auto simp: Rollback_def)
qed

theorem vp9_switch_points_witness:
  "let p = demoPacket False \<lparr>Spatial = 1, Temporal = 0\<rparr> (PayloadVP9 \<lparr>vp9_P = False, vp9_B = True, vp9_E = False, vp9_U = False\<rparr>);
       v = SetTarget \<lparr>Spatial = 2, Temporal = 0\<rparr> (SetCurrent \<lparr>Spatial = 0, Temporal = 0\<rparr> NewBase);
       v' = fst (vp9_Select p v)
   in Spatial (currentLayer v') = 1 \<and> currentLayer (Rollback v') = currentLayer v"
proof -
  let ?q = "\<lparr>vp9_P = False, vp9_B = True, vp9_E = False, vp9_U = False\<rparr>"
  let ?p = "demoPacket False \<lparr>Spatial = 1, Temporal = 0\<rparr> (PayloadVP9 ?q)"
  let ?v = "SetTarget \<lparr>Spatial = 2, Temporal = 0\<rparr> (SetCurrent \<lparr>Spatial = 0, Temporal = 0\<rparr> NewBase)"
  have "Spatial (currentLayer (fst (vp9_Select ?p ?v))) = 1" "IsSwitching (snd (vp9_Select ?p ?v))" "layer_IsValid (currentLayer ?v)"
    "ep_Payload ?p = PayloadVP9 ?q"
    by code_simp+
  then show ?thesis
    using vp9_switch_points [of ?p ?v "fst (vp9_Select ?p ?v)" "snd (vp9_Select ?p ?v)" ?q] by (simp add: Let_def)
qed

text \<open>
  C38: The key frame packet on which an idle VP9 selector resumes is itself not selected: the layer it is compared with is the
  old, invalid one, so every packet of a valid layer is above it.
\<close>

theorem vp9_resume_drops_packet:
  assumes "vp9_Select p v = (v', r)" "ep_Payload p = PayloadVP9 vp9" "ep_IsKeyFrame p"
    "currentLayer v = InvalidLayer" "targetLayer v \<noteq> InvalidLayer" "0 \<le> Spatial (ep_VideoLayer p)" "0 \<le> Temporal (ep_VideoLayer p)"
  shows "currentLayer v' = ep_VideoLayer p \<and> IsSwitching r \<and> IsResuming r \<and> \<not> IsSelected r"
proof -
  have "ep_VideoLayer p \<noteq> InvalidLayer" "layer_IsValid (ep_VideoLayer p)" "GreaterThan (ep_VideoLayer p) InvalidLayer"
    using assms(6,7) by (auto simp: layer_IsValid_def layer_consts GreaterThan_def)
  then show ?thesis using assms by (auto simp: vp9_Select_def vp9_Finish_def)
qed

theorem vp9_resume_drops_packet_witness:
  "\<not> IsSelected (snd (vp9_Select (demoPacket True \<lparr>Spatial = 0, Temporal = 0\<rparr>
      (PayloadVP9 \<lparr>vp9_P = False, vp9_B = True, vp9_E = False, vp9_U = False\<rparr>)) (SetTarget \<lparr>Spatial = 2, Temporal = 0\<rparr> NewBase)))"
  using vp9_resume_drops_packet [OF surjective_pairing, of "demoPacket True \<lparr>Spatial = 0, Temporal = 0\<rparr>
      (PayloadVP9 \<lparr>vp9_P = False, vp9_B = True, vp9_E = False, vp9_U = False\<rparr>)"]
  by (simp add: demoPacket_def SetTarget_def NewBase_def layer_consts)

text \<open>
  The temporal layer of a simulcast VP8 stream goes up only on the first packet of a frame, to that frame's layer and not
  beyond the target, in effect from that packet on; it goes down only with the last packet of a frame, in effect after that
  packet; otherwise it stays, and the layer in force never leaves the interval between the current layer and the target.
\<close>

theorem vp8_temporal_switch:
  assumes "tls b = Some TlsVP8" "SelectTemporal p b = (b', this)"
  shows "(Temporal (currentLayer b') > Temporal (currentLayer b) \<longrightarrow>
       this = Temporal (currentLayer b') \<and> this = Temporal (ep_VideoLayer p) \<and> this \<le> Temporal (targetLayer b) \<and>
       (\<exists>vp8. ep_Payload p = PayloadVP8 vp8 \<and> vp8_S vp8)) \<and>
    (Temporal (currentLayer b') < Temporal (currentLayer b) \<longrightarrow>
       this = Temporal (currentLayer b) \<and> currentLayer b' = (currentLayer b)\<lparr>Temporal := Temporal (targetLayer b)\<rparr> \<and> rtp_Marker (ep_Packet p)) \<and>
    min (Temporal (currentLayer b)) (Temporal (targetLayer b)) \<le> this \<and>
    this \<le> max (Temporal (currentLayer b)) (Temporal (targetLayer b)) \<and>
    Spatial (currentLayer b') = Spatial (currentLayer b)"
  using assms
  by (cases "ep_Payload p") (auto simp: SelectTemporal_def tlsVP8_Select_def Let_def split: if_splits)

theorem vp8_temporal_switch_witness:
  "let b = SetTarget \<lparr>Spatial = 0, Temporal = 2\<rparr> (SetCurrent \<lparr>Spatial = 0, Temporal = 0\<rparr> (SetTemporalLayerSelector (Some TlsVP8) NewBase));
       (b', this) = SelectTemporal (demoPacket False \<lparr>Spatial = 0, Temporal = 1\<rparr> PayloadNone) b
   in this \<le> 2 \<and> Spatial (currentLayer b') = 0"
  using vp8_temporal_switch [OF _ surjective_pairing,
      of "SetTarget \<lparr>Spatial = 0, Temporal = 2\<rparr> (SetCurrent \<lparr>Spatial = 0, Temporal = 0\<rparr> (SetTemporalLayerSelector (Some TlsVP8) NewBase))"
         "demoPacket False \<lparr>Spatial = 0, Temporal = 1\<rparr> PayloadNone"]
  by (auto simp: SetTarget_def SetCurrent_def SetTemporalLayerSelector_def NewBase_def Let_def case_prod_beta)

end
