(* ===== verification/Bitstream.thy ===== *)
theory Bitstream
  imports Prelude
begin

text \<open>
  \<^verbatim>\<open>pkg/sfu/rtpextension/dependencydescriptor/bitstreamreader.go\<close> and
  \<^verbatim>\<open>bitstreamwriter.go\<close>: reading and writing of bit fields in a byte slice. The section
  "Bits" relates both to the sequence of bits of the slice. An access outside the slice, which
  panics in Go, is the error value \<open>bsPanic\<close>.
\<close>

section \<open>Model\<close>

datatype bsErr = errInvalidNumberOfBits | errEOF | errInvalidNumberOfValues |
  errInsufficientSpace | errInvalidArgument | bsPanic

definition byteAt :: "bytes \<Rightarrow> nat \<Rightarrow> bsErr + u8" where
  "byteAt buf i = (if i < length buf then Inr (buf ! i) else Inl bsPanic)"

subsection \<open>Reader\<close>

record BitStreamReader =
  br_buf :: bytes
  br_pos :: nat
  br_remainingBits :: int

definition NewBitStreamReader :: "bytes \<Rightarrow> BitStreamReader" where
  "NewBitStreamReader buf = \<lparr>br_buf = buf, br_pos = 0, br_remainingBits = int (length buf * 8)\<rparr>"

text \<open>The loop over full bytes.\<close>

function readFullBytes :: "bytes \<Rightarrow> nat \<Rightarrow> nat \<Rightarrow> u64 \<Rightarrow> bsErr + (u64 \<times> nat \<times> nat)" where
  "readFullBytes buf pos bits result =
     (if bits \<ge> 8
      then bindR (byteAt buf pos) (\<lambda>b.
        readFullBytes buf (pos + 1) (bits - 8) (result OR push_bit (bits - 8) (ucast b)))
      else Inr (result, pos, bits))"
  by pat_completeness auto
termination by (relation "measure (\<lambda>(_, _, bits, _). bits)") auto

declare readFullBytes.simps [simp del]

definition ReadBits :: "BitStreamReader \<Rightarrow> int \<Rightarrow> BitStreamReader \<times> (bsErr + u64)" where
  "ReadBits b bits =
     (if bits < 0 \<or> bits > 64 then (b, Inl errInvalidNumberOfBits)
      else if br_remainingBits b < bits
      then (b\<lparr>br_remainingBits := br_remainingBits b - bits\<rparr>, Inl errEOF)
      else
        let remainingBitsInFirstByte = nat (br_remainingBits b mod 8);
            b = b\<lparr>br_remainingBits := br_remainingBits b - bits\<rparr>;
            bits = nat bits in
        if bits < remainingBitsInFirstByte then
          let offset = remainingBitsInFirstByte - bits in
          (b, bindR (byteAt (br_buf b) (br_pos b)) (\<lambda>x.
                Inr (ucast (drop_bit offset x AND (push_bit bits 1 - 1)))))
        else
          case (if remainingBitsInFirstByte > 0
                then bindR (byteAt (br_buf b) (br_pos b)) (\<lambda>x.
                  let bits = bits - remainingBitsInFirstByte;
                      mask = push_bit remainingBitsInFirstByte 1 - 1
                  in Inr (push_bit bits (ucast (x AND mask)), br_pos b + 1, bits))
                else Inr (0, br_pos b, bits)) of
            Inl e \<Rightarrow> (b, Inl e)
          | Inr (result, pos, bits) \<Rightarrow>
            (case readFullBytes (br_buf b) pos bits result of
               Inl e \<Rightarrow> (b, Inl e)
             | Inr (result, pos, bits) \<Rightarrow>
               (b\<lparr>br_pos := pos\<rparr>,
                if bits > 0
                then bindR (byteAt (br_buf b) pos) (\<lambda>x. Inr (result OR ucast (drop_bit (8 - bits) x)))
                else Inr result)))"

definition ReadBool :: "BitStreamReader \<Rightarrow> BitStreamReader \<times> (bsErr + bool)" where
  "ReadBool b = (case ReadBits b 1 of (b, r) \<Rightarrow> (b, bindR r (\<lambda>val. Inr (val \<noteq> 0))))"

definition br_Ok :: "BitStreamReader \<Rightarrow> bool" where
  "br_Ok b \<longleftrightarrow> br_remainingBits b \<ge> 0"

definition Invalidate :: "BitStreamReader \<Rightarrow> BitStreamReader" where
  "Invalidate b = b\<lparr>br_remainingBits := - 1\<rparr>"

function bitwidth :: "u32 \<Rightarrow> nat" where
  "bitwidth n = (if n \<noteq> 0 then Suc (bitwidth (drop_bit 1 n)) else 0)"
  by pat_completeness auto
termination
proof (relation "measure unat")
  fix n :: u32 assume "n \<noteq> 0"
  then have "0 < unat n" by (simp add: unat_gt_0)
  then show "(drop_bit 1 n, n) \<in> measure unat" by (simp add: drop_bit_eq_div unat_div)
qed simp

declare bitwidth.simps [simp del]

definition ReadNonSymmetric :: "BitStreamReader \<Rightarrow> u32 \<Rightarrow> BitStreamReader \<times> (bsErr + u32)" where
  "ReadNonSymmetric b numValues =
     (if numValues \<ge> push_bit 31 1 then (b, Inl errInvalidNumberOfValues)
      else
        let width = bitwidth numValues;
            numMinBitsValues = push_bit width 1 - numValues in
        case ReadBits b (int width - 1) of
          (b, Inl e) \<Rightarrow> (b, Inl e)
        | (b, Inr val) \<Rightarrow>
          if val < ucast numMinBitsValues then (b, Inr (ucast val))
          else case ReadBits b 1 of
            (b, Inl e) \<Rightarrow> (b, Inl e)
          | (b, Inr bit') \<Rightarrow> (b, Inr (ucast (push_bit 1 val + bit' - ucast numMinBitsValues))))"

text \<open>Go's \<open>%\<close> takes the sign of the dividend: the remainder is positive only for a positive dividend.\<close>

definition BytesRead :: "BitStreamReader \<Rightarrow> nat" where
  "BytesRead b = (if br_remainingBits b > 0 \<and> br_remainingBits b mod 8 > 0 then br_pos b + 1 else br_pos b)"

subsection \<open>Writer\<close>

record BitStreamWriter =
  bw_buf :: bytes
  bw_pos :: nat
  bw_bitOffset :: nat

definition NewBitStreamWriter :: "bytes \<Rightarrow> BitStreamWriter" where
  "NewBitStreamWriter buf = \<lparr>bw_buf = buf, bw_pos = 0, bw_bitOffset = 0\<rparr>"

definition bw_RemainingBits :: "BitStreamWriter \<Rightarrow> int" where
  "bw_RemainingBits w = (int (length (bw_buf w)) - int (bw_pos w)) * 8 - int (bw_bitOffset w)"

definition writePartialByte :: "u8 \<Rightarrow> nat \<Rightarrow> u8 \<Rightarrow> nat \<Rightarrow> u8" where
  "writePartialByte source sourceBitCount target targetBitOffset =
     (let mask = drop_bit targetBitOffset (push_bit (8 - sourceBitCount) 0xff)
      in (target AND NOT mask) OR drop_bit targetBitOffset source)"

definition consumeBits :: "BitStreamWriter \<Rightarrow> nat \<Rightarrow> bsErr + BitStreamWriter" where
  "consumeBits w bitCount =
     (if int bitCount > bw_RemainingBits w then Inl errInsufficientSpace
      else Inr (w\<lparr>bw_pos := bw_pos w + (bw_bitOffset w + bitCount) div 8,
                  bw_bitOffset := (bw_bitOffset w + bitCount) mod 8\<rparr>))"

text \<open>The loop over full bytes; \<open>i\<close> is the index of the next byte.\<close>

function writeFullBytes :: "bytes \<Rightarrow> nat \<Rightarrow> u64 \<Rightarrow> nat \<Rightarrow> bsErr + (bytes \<times> nat \<times> u64 \<times> nat)" where
  "writeFullBytes buf i val bitCount =
     (if bitCount \<ge> 8
      then if i < length buf
        then writeFullBytes (buf[i := ucast (drop_bit 56 val)]) (i + 1) (push_bit 8 val) (bitCount - 8)
        else Inl bsPanic
      else Inr (buf, i, val, bitCount))"
  by pat_completeness auto
termination by (relation "measure (\<lambda>(_, _, _, bitCount). bitCount)") auto

declare writeFullBytes.simps [simp del]

definition WriteBits :: "BitStreamWriter \<Rightarrow> u64 \<Rightarrow> nat \<Rightarrow> bsErr + BitStreamWriter" where
  "WriteBits w val bitCount =
     (if int bitCount > bw_RemainingBits w then Inl errInsufficientSpace
      else if bitCount > 64 then Inl bsPanic
      else
        let totalBits = bitCount;
            val = push_bit (64 - bitCount) val;
            i = bw_pos w;
            remainingBitsInCurrentByte = 8 - bw_bitOffset w;
            bitsInFirstByte = min bitCount remainingBitsInCurrentByte in
        if i \<ge> length (bw_buf w) then Inl bsPanic
        else
          let buf = (bw_buf w)[i := writePartialByte (ucast (drop_bit 56 val)) bitsInFirstByte
                      (bw_buf w ! i) (bw_bitOffset w)] in
          if bitCount \<le> remainingBitsInCurrentByte then consumeBits (w\<lparr>bw_buf := buf\<rparr>) totalBits
          else
            bindR (writeFullBytes buf (i + 1) (push_bit bitsInFirstByte val) (bitCount - bitsInFirstByte))
              (\<lambda>(buf, i, val, bitCount).
                if bitCount > 0 then
                  if i \<ge> length buf then Inl bsPanic
                  else consumeBits (w\<lparr>bw_buf := buf[i := writePartialByte (ucast (drop_bit 56 val)) bitCount
                         (buf ! i) 0]\<rparr>) totalBits
                else consumeBits (w\<lparr>bw_buf := buf\<rparr>) totalBits))"

definition WriteNonSymmetric :: "BitStreamWriter \<Rightarrow> u32 \<Rightarrow> u32 \<Rightarrow> bsErr + BitStreamWriter" where
  "WriteNonSymmetric w val numValues =
     (if \<not> (val < numValues \<and> numValues \<le> push_bit 31 1) then Inl errInvalidArgument
      else if numValues = 1 then Inr w
      else
        let countBits = bitwidth numValues;
            numMinBitsValues = push_bit countBits 1 - numValues in
        if val < numMinBitsValues then WriteBits w (ucast val) (countBits - 1)
        else WriteBits w (ucast (val + numMinBitsValues)) countBits)"

definition SizeNonSymmetricBits :: "u32 \<Rightarrow> u32 \<Rightarrow> int" where
  "SizeNonSymmetricBits val numValues =
     (let countBits = bitwidth numValues;
          numMinBitsValues = push_bit countBits 1 - numValues
      in if val < numMinBitsValues then int countBits - 1 else int countBits)"

section \<open>Bits\<close>

text \<open>Bit \<open>k\<close> of a byte slice, most significant bit of a byte first.\<close>

definition sbit :: "bytes \<Rightarrow> nat \<Rightarrow> bool" where
  "sbit buf k = bit (buf ! (k div 8)) (7 - k mod 8)"

lemma sbit_at: "j < 8 \<Longrightarrow> sbit buf (8 * p + j) = bit (buf ! p) (7 - j)"
  by (simp add: sbit_def)

text \<open>The \<open>n\<close> low bits of a number, most significant first.\<close>

definition bv :: "nat \<Rightarrow> u64 \<Rightarrow> bool list" where
  "bv n v = map (\<lambda>i. bit v (n - 1 - i)) [0..<n]"

lemma length_bv [simp]: "length (bv n v) = n"
  by (simp add: bv_def)

lemma nth_bv: "i < n \<Longrightarrow> bv n v ! i = bit v (n - 1 - i)"
  by (simp add: bv_def)

subsection \<open>Reading\<close>

text \<open>The position of a reader in bits, and the bits it has left.\<close>

definition rpos :: "BitStreamReader \<Rightarrow> nat" where
  "rpos r = nat (int (8 * length (br_buf r)) - br_remainingBits r)"

definition rok :: "BitStreamReader \<Rightarrow> bool" where
  "rok r \<longleftrightarrow> 0 \<le> br_remainingBits r \<and> br_remainingBits r \<le> int (8 * length (br_buf r)) \<and>
     br_pos r = rpos r div 8"

definition rest :: "BitStreamReader \<Rightarrow> bool list" where
  "rest r = map (sbit (br_buf r)) [rpos r..<8 * length (br_buf r)]"

lemma length_rest: "rok r \<Longrightarrow> int (length (rest r)) = br_remainingBits r"
  by (auto simp: rest_def rok_def rpos_def of_nat_diff nat_le_iff)

lemma readFullBytes_spec:
  assumes "8 * p + n \<le> 8 * length buf" "n \<le> 64"
  shows "\<exists>res. readFullBytes buf p n result = Inr (res, p + n div 8, n mod 8) \<and>
    (\<forall>i. bit res i \<longleftrightarrow> bit result i \<or> n mod 8 \<le> i \<and> i < n \<and> sbit buf (8 * p + n - 1 - i))"
  using assms
proof (induction buf p n result rule: readFullBytes.induct)
  case (1 buf p n result)
  show ?case
  proof (cases "n \<ge> 8")
    case False
    then show ?thesis by (subst readFullBytes.simps) auto
  next
    case True
    then have p: "p < length buf" using 1(2) by simp
    define result' where "result' = result OR push_bit (n - 8) (ucast (buf ! p))"
    have e: "readFullBytes buf p n result = readFullBytes buf (p + 1) (n - 8) result'"
      by (subst readFullBytes.simps) (use True p in \<open>simp add: byteAt_def result'_def\<close>)
    obtain res where r: "readFullBytes buf (p + 1) (n - 8) result' = Inr (res, p + 1 + (n - 8) div 8, (n - 8) mod 8)"
      and b: "\<forall>i. bit res i \<longleftrightarrow> bit result' i \<or> (n - 8) mod 8 \<le> i \<and> i < n - 8 \<and> sbit buf (8 * (p + 1) + (n - 8) - 1 - i)"
    proof -
      have "8 * (p + 1) + (n - 8) \<le> 8 * length buf" "n - 8 \<le> 64" using 1(2,3) True by simp_all
      from 1(1) [OF True this, of "buf ! p", folded result'_def] show ?thesis using that by blast
    qed
    have d: "(n - 8) div 8 = n div 8 - 1" "(n - 8) mod 8 = n mod 8" "1 \<le> n div 8"
    proof -
      obtain c where "n = 8 + c" using True le_Suc_ex by blast
      then show "(n - 8) div 8 = n div 8 - 1" "(n - 8) mod 8 = n mod 8" "1 \<le> n div 8" by simp_all
    qed
    have "bit res i \<longleftrightarrow> bit result i \<or> n mod 8 \<le> i \<and> i < n \<and> sbit buf (8 * p + n - 1 - i)" for i
    proof -
      have top: "bit (push_bit (n - 8) (ucast (buf ! p)) :: u64) i \<longleftrightarrow> i < n \<and> sbit buf (8 * p + n - 1 - i)"
        if "n - 8 \<le> i"
      proof (cases "i < n")
        case True
        have k: "8 * p + n - 1 - i = 8 * p + (n - 1 - i)" "n - 1 - i < 8" "7 - (n - 1 - i) = i - (n - 8)"
          using that True \<open>n \<ge> 8\<close> by auto
        show ?thesis
          unfolding k(1) sbit_at [OF k(2)] k(3) using that True \<open>n \<le> 64\<close> \<open>n \<ge> 8\<close>
          by (auto simp: bit_simps)
      next
        case False
        then have "\<not> bit (buf ! p) (i - (n - 8))" using bit_imp_le_length [of "buf ! p" "i - (n - 8)"] \<open>n \<ge> 8\<close> by auto
        then show ?thesis using False by (simp add: bit_simps)
      qed
      have lo: "8 * (p + 1) + (n - 8) - 1 - i = 8 * p + n - 1 - i" using True by simp
      have m8: "n mod 8 \<le> n - 8" using d(2) mod_less_eq_dividend [of "n - 8" 8] by simp
      show ?thesis
        using b [rule_format, of i] top unfolding result'_def bit_or_iff lo d(2)
        using m8 by (cases "n - 8 \<le> i") (auto simp: bit_simps)
    qed
    then show ?thesis using e r d by auto
  qed
qed

text \<open>What \<open>ReadBits\<close> returns, bit by bit.\<close>

lemma ReadBits_spec:
  assumes ok: "rok r" and n: "n \<le> 64" "int n \<le> br_remainingBits r"
  shows "\<exists>res r'. ReadBits r (int n) = (r', Inr res) \<and> rok r' \<and> br_buf r' = br_buf r \<and>
    br_remainingBits r' = br_remainingBits r - int n \<and>
    (\<forall>i. bit res i \<longleftrightarrow> i < n \<and> sbit (br_buf r) (rpos r + n - 1 - i))"
proof -
  let ?buf = "br_buf r" and ?p = "br_pos r"
  define R P q j where "R = nat (br_remainingBits r mod 8)" and "P = rpos r" and "q = P div 8" and "j = P mod 8"
  define r1 where "r1 = r\<lparr>br_remainingBits := br_remainingBits r - int n\<rparr>"
  have rb: "br_remainingBits r = int (8 * length ?buf) - int P" and p: "?p = q"
    using ok by (auto simp: rok_def rpos_def P_def q_def)
  have nP: "P + n \<le> 8 * length ?buf" using rb n(2) by linarith
  have P: "P = 8 * q + j" "j < 8" by (simp_all add: q_def j_def)
  have R: "R = (if j = 0 then 0 else 8 - j)"
  proof (cases "j = 0")
    case True
    then have "br_remainingBits r = 8 * (int (length ?buf) - int q)" using rb P by simp
    then show ?thesis using True by (simp add: R_def)
  next
    case False
    then have "br_remainingBits r = 8 * (int (length ?buf) - int q - 1) + (8 - int j)" using rb P by simp
    then have "br_remainingBits r mod 8 = (8 - int j) mod 8" by (simp only: mod_mult_self4)
    also have "\<dots> = 8 - int j" by (rule mod_pos_pos_trivial) (use False P(2) in auto)
    finally show ?thesis using False P(2) by (simp add: R_def)
  qed
  have rp1: "rpos r1 = P + n" using rb nP by (simp add: rpos_def r1_def)
  have xq: "byteAt ?buf q = Inr (?buf ! q)" if "P < 8 * length ?buf"
    using that P by (simp add: byteAt_def)
  have start: "\<not> (int n < 0 \<or> int n > 64)" "\<not> br_remainingBits r < int n" using n by auto
  have r1f: "br_buf r1 = ?buf" "br_pos r1 = q" by (simp_all add: r1_def p)
  have RB: "ReadBits r (int n) =
      (if n < R then (r1, bindR (byteAt ?buf q) (\<lambda>x. Inr (ucast (drop_bit (R - n) x AND (push_bit n 1 - 1)))))
       else case (if R > 0
                then bindR (byteAt ?buf q) (\<lambda>x. Inr (push_bit (n - R) (ucast (x AND (push_bit R 1 - 1))), q + 1, n - R))
                else Inr (0, q, n)) of
            Inl e \<Rightarrow> (r1, Inl e)
          | Inr (result, pos, bits) \<Rightarrow>
            (case readFullBytes ?buf pos bits result of
               Inl e \<Rightarrow> (r1, Inl e)
             | Inr (result, pos, bits) \<Rightarrow>
               (r1\<lparr>br_pos := pos\<rparr>,
                if bits > 0
                then bindR (byteAt ?buf pos) (\<lambda>x. Inr (result OR ucast (drop_bit (8 - bits) x)))
                else Inr result)))"
    unfolding ReadBits_def Let_def if_not_P [OF start(1)] if_not_P [OF start(2)] R_def [symmetric] r1_def [symmetric] r1f nat_int
    by (rule refl)
  show ?thesis
  proof (cases "n < R")
    case True
    then have j: "0 < j" "j + n < 8" using R P(2) by (auto split: if_splits)
    let ?res = "ucast (drop_bit (R - n) (?buf ! q) AND (push_bit n 1 - 1)) :: u64"
    have "q < length ?buf" using nP P j by linarith
    then have rb': "ReadBits r (int n) = (r1, Inr ?res)"
      using True RB by (simp add: byteAt_def)
    have b: "bit ?res i \<longleftrightarrow> i < n \<and> sbit ?buf (P + n - 1 - i)" for i
    proof -
      have m: "push_bit n 1 - 1 = (mask n :: u8)" by (simp add: mask_eq_exp_minus_1)
      show ?thesis
      proof (cases "i < n")
        case True
        then have k: "P + n - 1 - i = 8 * q + (j + n - 1 - i)" "j + n - 1 - i < 8" "7 - (j + n - 1 - i) = i + (R - n)"
          using P j R by auto
        show ?thesis unfolding k(1) sbit_at [OF k(2)] k(3) m using True n j
          by (auto simp: bit_simps ac_simps)
      next
        case False
        then show ?thesis unfolding m by (simp add: bit_simps)
      qed
    qed
    have d: "(P + n) div 8 = q" using P j by simp
    have "rok r1"
      unfolding rok_def rp1 d r1f using rb nP by (simp add: r1_def)
    then show ?thesis using rb' b by (auto simp: r1_def P_def)
  next
    case False
    then have nR: "R \<le> n" by simp
    define pos1 where "pos1 = (if R > 0 then q + 1 else q)"
    define res1 where "res1 = (if R > 0 then push_bit (n - R) (ucast (?buf ! q AND (push_bit R 1 - 1))) else 0 :: u64)"
    have e1: "8 * pos1 + (n - R) = P + n" using P R nR by (auto simp: pos1_def)
    have b1: "bit res1 i \<longleftrightarrow> n - R \<le> i \<and> i < n \<and> sbit ?buf (P + n - 1 - i)" for i
    proof (cases "0 < R \<and> n - R \<le> i \<and> i < n")
      case True
      have m: "push_bit R 1 - 1 = (mask R :: u8)" by (simp add: mask_eq_exp_minus_1)
      have k: "P + n - 1 - i = 8 * q + (j + n - 1 - i)" "j + n - 1 - i < 8" "7 - (j + n - 1 - i) = i - (n - R)"
        using P R True nR by (auto split: if_splits)
      show ?thesis unfolding res1_def k(1) sbit_at [OF k(2)] k(3) m using True n nR
        by (auto simp: bit_simps dest: bit_imp_le_length)
    next
      case False
      then have "\<not> bit res1 i"
        using nR n by (auto simp: res1_def bit_simps mask_eq_exp_minus_1 [symmetric])
      then show ?thesis using False nR by auto
    qed
    obtain res2 where f: "readFullBytes ?buf pos1 (n - R) res1 = Inr (res2, pos1 + (n - R) div 8, (n - R) mod 8)"
      and b2: "\<forall>i. bit res2 i \<longleftrightarrow> bit res1 i \<or> (n - R) mod 8 \<le> i \<and> i < n - R \<and> sbit ?buf (8 * pos1 + (n - R) - 1 - i)"
    proof -
      have "8 * pos1 + (n - R) \<le> 8 * length ?buf" "n - R \<le> 64" using e1 nP n(1) by auto
      from readFullBytes_spec [OF this, of res1] show ?thesis using that by blast
    qed
    define pos2 bits2 where "pos2 = pos1 + (n - R) div 8" and "bits2 = (n - R) mod 8"
    have e2: "P + n = 8 * pos2 + bits2" "bits2 < 8" unfolding e1 [symmetric] by (simp_all add: pos2_def bits2_def)
    have fst: "(if R > 0
                then bindR (byteAt ?buf q) (\<lambda>x. Inr (push_bit (n - R) (ucast (x AND (push_bit R 1 - 1))), q + 1, n - R))
                else Inr (0, q, n)) = Inr (res1, pos1, n - R)"
      using xq nP nR by (auto simp: res1_def pos1_def)
    define res3 where "res3 = (if bits2 > 0 then res2 OR ucast (drop_bit (8 - bits2) (?buf ! pos2)) else res2)"
    have at: "bits2 > 0 \<Longrightarrow> byteAt ?buf pos2 = Inr (?buf ! pos2)" using nP e2 by (simp add: byteAt_def)
    have rb': "ReadBits r (int n) = (r1\<lparr>br_pos := pos2\<rparr>, Inr res3)"
      unfolding RB if_not_P [OF False] fst using f at
      by (simp add: pos2_def [symmetric] bits2_def [symmetric] res3_def)
    have b3: "bit res3 i \<longleftrightarrow> i < n \<and> sbit ?buf (P + n - 1 - i)" for i
    proof -
      have lo: "bit (ucast (drop_bit (8 - bits2) (?buf ! pos2)) :: u64) i \<longleftrightarrow> i < bits2 \<and> sbit ?buf (P + n - 1 - i)"
        if "0 < bits2"
      proof (cases "i < bits2")
        case True
        then have k: "P + n - 1 - i = 8 * pos2 + (bits2 - 1 - i)" "bits2 - 1 - i < 8" "7 - (bits2 - 1 - i) = (8 - bits2) + i"
          using e2 by auto
        show ?thesis unfolding k(1) sbit_at [OF k(2)] k(3) using True e2(2) by (auto simp: bit_simps)
      next
        case False
        then show ?thesis using e2(2) by (auto simp: bit_simps dest: bit_imp_le_length)
      qed
      have "bits2 \<le> n - R" by (simp add: bits2_def)
      then show ?thesis
        using b1 [of i] b2 [rule_format, of i] lo nR
        unfolding e1 bits2_def [symmetric] res3_def by (cases "0 < bits2") (auto simp: bit_or_iff)
    qed
    have "rok (r1\<lparr>br_pos := pos2\<rparr>)"
    proof -
      have "rpos (r1\<lparr>br_pos := pos2\<rparr>) = P + n" using rp1 by (simp add: rpos_def)
      moreover have "pos2 = (P + n) div 8" using e2 by simp
      ultimately show ?thesis using rb nP by (simp add: rok_def) (simp add: r1_def)
    qed
    then show ?thesis using rb' b3 by (auto simp: r1_def P_def)
  qed
qed

text \<open>Reading a field that starts the remaining bits.\<close>

lemma bv_eq_take_rest:
  assumes "rok r" "int n \<le> br_remainingBits r"
    and "\<forall>i. bit res i \<longleftrightarrow> i < n \<and> sbit (br_buf r) (rpos r + n - 1 - i)"
  shows "bv n res = take n (rest r)"
proof (rule nth_equalityI)
  have len: "n \<le> length (rest r)" using assms(2) length_rest [OF assms(1)] by linarith
  then show "length (bv n res) = length (take n (rest r))" by simp
  fix i assume i: "i < length (bv n res)"
  then have "i < n" by simp
  moreover have "rpos r + n - 1 - (n - 1 - i) = rpos r + i" using \<open>i < n\<close> by simp
  moreover have "rest r ! i = sbit (br_buf r) (rpos r + i)"
    using len \<open>i < n\<close> by (simp add: rest_def)
  ultimately show "bv n res ! i = take n (rest r) ! i"
    using assms(3) by (simp add: nth_bv)
qed

lemma rest_drop:
  assumes "rok r" "rok r'" "br_buf r' = br_buf r" "br_remainingBits r' = br_remainingBits r - int n"
  shows "rest r' = drop n (rest r)"
proof -
  have "rpos r' = rpos r + n" using assms by (auto simp: rok_def rpos_def)
  then show ?thesis by (simp add: rest_def assms(3) drop_map)
qed

lemma bv_inj:
  assumes "bv n a = bv n b" "unat a < 2 ^ n" "unat b < 2 ^ n"
  shows "a = b"
proof (rule bit_word_eqI)
  fix i :: nat
  have "bit a i = bit b i" if "i < n"
  proof -
    have "n - 1 - (n - 1 - i) = i" "n - 1 - i < n" using that by auto
    then show ?thesis using nth_bv [of "n - 1 - i" n a] nth_bv [of "n - 1 - i" n b] assms(1) by simp
  qed
  moreover have "bit a i \<Longrightarrow> i < n" "bit b i \<Longrightarrow> i < n"
    using bit_less_exp assms(2,3) by blast+
  ultimately show "bit a i = bit b i" by blast
qed

lemma bits_less_exp:
  fixes v :: "'a::len word"
  assumes "\<forall>i. bit v i \<longrightarrow> i < n"
  shows "unat v < 2 ^ n"
proof -
  have "take_bit n v = v" by (rule bit_word_eqI) (use assms in \<open>auto simp: bit_simps\<close>)
  then have "unat v = take_bit n (unat v)" by (metis unsigned_take_bit_eq)
  then show ?thesis using take_bit_nat_less_exp by metis
qed

lemma ReadBits_next:
  assumes "rok r" "n \<le> 64" "n \<le> length (rest r)"
  shows "\<exists>r' v. ReadBits r (int n) = (r', Inr v) \<and> rok r' \<and> bv n v = take n (rest r) \<and>
    unat v < 2 ^ n \<and> rest r' = drop n (rest r) \<and> br_buf r' = br_buf r"
proof -
  have le: "int n \<le> br_remainingBits r" using assms length_rest by fastforce
  obtain v r' where *: "ReadBits r (int n) = (r', Inr v)" "rok r'" "br_buf r' = br_buf r"
    "br_remainingBits r' = br_remainingBits r - int n"
    "\<forall>i. bit v i \<longleftrightarrow> i < n \<and> sbit (br_buf r) (rpos r + n - 1 - i)"
    using ReadBits_spec [OF assms(1,2) le] by blast
  then show ?thesis
    using bv_eq_take_rest [OF assms(1) le *(5)] rest_drop [OF assms(1) *(2-4)] bits_less_exp [of v n] *(3) by auto
qed

lemma ReadBits_field:
  assumes "rok r" "rest r = bv n v @ xs" "n \<le> 64" "unat v < 2 ^ n"
  shows "\<exists>r'. ReadBits r (int n) = (r', Inr v) \<and> rok r' \<and> rest r' = xs \<and> br_buf r' = br_buf r"
proof -
  obtain r' u where *: "ReadBits r (int n) = (r', Inr u)" "rok r'" "bv n u = take n (rest r)"
    "unat u < 2 ^ n" "rest r' = drop n (rest r)" "br_buf r' = br_buf r"
    using ReadBits_next [OF assms(1,3)] assms(2) by auto
  then have "u = v" using bv_inj [of n u v] assms(2,4) by simp
  then show ?thesis using * assms(2) by auto
qed

lemma NewBitStreamReader_rok: "rok (NewBitStreamReader buf)"
  by (simp add: rok_def rpos_def NewBitStreamReader_def)

lemma rest_NewBitStreamReader: "rest (NewBitStreamReader buf) = map (sbit buf) [0..<8 * length buf]"
  by (simp add: rest_def rpos_def NewBitStreamReader_def)

subsection \<open>Writing\<close>

definition wpos :: "BitStreamWriter \<Rightarrow> nat" where
  "wpos w = 8 * bw_pos w + bw_bitOffset w"

definition wok :: "BitStreamWriter \<Rightarrow> bool" where
  "wok w \<longleftrightarrow> bw_bitOffset w < 8 \<and> wpos w \<le> 8 * length (bw_buf w)"

definition written :: "BitStreamWriter \<Rightarrow> bool list" where
  "written w = map (sbit (bw_buf w)) [0..<wpos w]"

lemma sbit_update:
  "i < length buf \<Longrightarrow> sbit (buf[i := b]) k = (if k div 8 = i then bit b (7 - k mod 8) else sbit buf k)"
  by (simp add: sbit_def)

lemma bit_writePartialByte:
  assumes "off < 8" "s \<le> 8 - off" "\<forall>i < 8 - s. off + s < 8 \<longrightarrow> \<not> bit src i" "j < 8"
  shows "bit (writePartialByte src s tgt off) (7 - j) \<longleftrightarrow>
    (if off \<le> j \<and> j < off + s then bit src (7 - (j - off)) else bit tgt (7 - j))"
proof -
  have ff: "bit (0xff :: u8) i \<longleftrightarrow> i < 8" for i
    using bit_mask_iff [of 8 i, where 'a = u8] by (simp add: mask_eq_exp_minus_1)
  show ?thesis
    unfolding writePartialByte_def Let_def using assms
    by (auto simp: bit_simps ff bit_consts add.commute [of _ 7] dest: bit_imp_le_length)
qed

lemma writeFullBytes_spec:
  assumes "8 * i + n \<le> 8 * length buf" "n \<le> 64"
  shows "\<exists>buf'. writeFullBytes buf i val n = Inr (buf', i + n div 8, push_bit (8 * (n div 8)) val, n mod 8) \<and>
    length buf' = length buf \<and>
    (\<forall>k. sbit buf' k = (if 8 * i \<le> k \<and> k < 8 * i + 8 * (n div 8) then bit val (63 - (k - 8 * i)) else sbit buf k))"
  using assms
proof (induction buf i val n rule: writeFullBytes.induct)
  case (1 buf i val n)
  show ?case
  proof (cases "n \<ge> 8")
    case False
    then show ?thesis by (subst writeFullBytes.simps) auto
  next
    case True
    then obtain c where c: "n = 8 + c" using le_Suc_ex by blast
    have i: "i < length buf" using 1(2) True by simp
    let ?buf1 = "buf[i := ucast (drop_bit 56 val)]"
    have e: "writeFullBytes buf i val n = writeFullBytes ?buf1 (i + 1) (push_bit 8 val) (n - 8)"
      by (subst writeFullBytes.simps) (use True i in simp)
    obtain buf' where b: "writeFullBytes ?buf1 (i + 1) (push_bit 8 val) (n - 8) =
        Inr (buf', i + 1 + c div 8, push_bit (8 * (c div 8)) (push_bit 8 val), c mod 8)"
      "length buf' = length ?buf1"
      "\<forall>k. sbit buf' k = (if 8 * (i + 1) \<le> k \<and> k < 8 * (i + 1) + 8 * (c div 8)
          then bit (push_bit 8 val) (63 - (k - 8 * (i + 1))) else sbit ?buf1 k)"
    proof -
      have "8 * (i + 1) + (n - 8) \<le> 8 * length ?buf1" "n - 8 \<le> 64" "n - 8 = c" using 1(2,3) c by simp_all
      with 1(1) [OF True i] show ?thesis using that by auto
    qed
    have cd: "c div 8 \<le> 7" and nd: "n div 8 = 1 + c div 8" using 1(3) c by simp_all
    have "sbit buf' k = (if 8 * i \<le> k \<and> k < 8 * i + 8 * (n div 8) then bit val (63 - (k - 8 * i)) else sbit buf k)" for k
    proof -
      consider "8 * (i + 1) \<le> k" | "k div 8 = i" | "k div 8 \<noteq> i" "k < 8 * (i + 1)" by linarith
      then show ?thesis
      proof cases
        case 1
        then have "k div 8 \<noteq> i" by auto
        with 1 b(3) i cd show ?thesis unfolding nd
          by (auto simp: sbit_update bit_simps)
      next
        case 2
        then have k: "8 * i \<le> k" "k < 8 * (i + 1)" "k mod 8 = k - 8 * i" by (auto simp: minus_mult_div_eq_mod)
        then have "56 + (7 - (k - 8 * i)) = 63 - (k - 8 * i)" by auto
        with k 2 b(3) i show ?thesis unfolding nd by (auto simp: sbit_update bit_simps)
      next
        case 3
        then have "k < 8 * i" by auto
        with 3 b(3) i show ?thesis by (auto simp: sbit_update)
      qed
    qed
    moreover have "push_bit (8 * (c div 8)) (push_bit 8 val) = push_bit (8 * (n div 8)) val"
      unfolding nd by (simp add: push_bit_push_bit add.commute)
    moreover have "c mod 8 = n mod 8" "i + 1 + c div 8 = i + n div 8"
      unfolding nd by (simp_all add: c)
    ultimately show ?thesis using e b by (intro exI [of _ buf']) simp
  qed
qed

text \<open>\<open>WriteBits\<close> sets exactly the next \<open>n\<close> bits of the slice.\<close>

lemma consumeBits_ok:
  assumes "wok w" "wpos w + n \<le> 8 * length (bw_buf w)"
  shows "\<exists>w'. consumeBits w n = Inr w' \<and> wok w' \<and> wpos w' = wpos w + n \<and> bw_buf w' = bw_buf w"
proof -
  have "\<not> int n > bw_RemainingBits w"
    using assms by (auto simp: bw_RemainingBits_def wpos_def algebra_simps)
  moreover have "8 * ((bw_bitOffset w + n) div 8) + (bw_bitOffset w + n) mod 8 = bw_bitOffset w + n" by simp
  ultimately show ?thesis using assms by (auto simp: consumeBits_def wok_def wpos_def)
qed

lemma WriteBits_spec:
  assumes ok: "wok w" and n: "0 < n" "n \<le> 64" "wpos w + n \<le> 8 * length (bw_buf w)"
  shows "\<exists>w'. WriteBits w v n = Inr w' \<and> wok w' \<and> wpos w' = wpos w + n \<and>
    length (bw_buf w') = length (bw_buf w) \<and>
    (\<forall>k. sbit (bw_buf w') k = (if wpos w \<le> k \<and> k < wpos w + n then bit v (n - 1 - (k - wpos w)) else sbit (bw_buf w) k))"
proof -
  define q j V s where "q = bw_pos w" and "j = bw_bitOffset w" and "V = push_bit (64 - n) v" and "s = min n (8 - j)"
  let ?buf = "bw_buf w" and ?P = "wpos w"
  have P: "?P = 8 * q + j" "j < 8" using ok by (simp_all add: wpos_def wok_def q_def j_def)
  have q: "q < length ?buf" using P n by linarith
  have bitV: "t < 64 \<Longrightarrow> bit V (63 - t) \<longleftrightarrow> t < n \<and> bit v (n - 1 - t)" for t
    using n by (auto simp: V_def bit_simps)
  define buf1 where "buf1 = ?buf[q := writePartialByte (ucast (drop_bit 56 V)) s (?buf ! q) j]"
  have l1: "length buf1 = length ?buf" by (simp add: buf1_def)
  have sb1: "sbit buf1 k = (if ?P \<le> k \<and> k < ?P + s then bit V (63 - (k - ?P)) else sbit ?buf k)" for k
  proof (cases "k div 8 = q")
    case True
    define t where "t = k mod 8"
    have k: "k = 8 * q + t" "t < 8" using True by (auto simp: t_def)
    have z: "\<forall>i < 8 - s. j + s < 8 \<longrightarrow> \<not> bit (ucast (drop_bit 56 V) :: u8) i"
    proof (intro allI impI)
      fix i assume "i < 8 - s" "j + s < 8"
      then have "s = n" "63 - (7 - i) = 56 + i" "7 - i < 64" "n \<le> 7 - i" by (auto simp: s_def)
      then show "\<not> bit (ucast (drop_bit 56 V) :: u8) i" using bitV [of "7 - i"] by (auto simp: bit_simps)
    qed
    have "bit (ucast (drop_bit 56 V) :: u8) (7 - (t - j)) = bit V (63 - (t - j))" if "j \<le> t"
    proof -
      have "56 + (7 - (t - j)) = 63 - (t - j)" using k(2) by simp
      then show ?thesis by (auto simp: bit_simps)
    qed
    then have "sbit buf1 (8 * q + t) = (if j \<le> t \<and> t < j + s then bit V (63 - (t - j)) else bit (?buf ! q) (7 - t))"
      using bit_writePartialByte [OF P(2) _ z k(2)] q k(2) by (simp add: sbit_at buf1_def s_def)
    then show ?thesis using k P by (simp add: sbit_at)
  next
    case False
    have "?P \<le> k \<and> k < ?P + s \<Longrightarrow> k div 8 = q" using P by (auto simp: s_def)
    then show ?thesis using False q by (auto simp: buf1_def sbit_update)
  qed
  have guards: "\<not> int n > bw_RemainingBits w" "\<not> n > 64" "\<not> q \<ge> length ?buf"
    using n q by (auto simp: bw_RemainingBits_def wpos_def algebra_simps)
  have WB: "WriteBits w v n =
     (if n \<le> 8 - j then consumeBits (w\<lparr>bw_buf := buf1\<rparr>) n
      else bindR (writeFullBytes buf1 (q + 1) (push_bit s V) (n - s))
              (\<lambda>(buf, i, val, bitCount).
                if bitCount > 0 then
                  if i \<ge> length buf then Inl bsPanic
                  else consumeBits (w\<lparr>bw_buf := buf[i := writePartialByte (ucast (drop_bit 56 val)) bitCount
                         (buf ! i) 0]\<rparr>) n
                else consumeBits (w\<lparr>bw_buf := buf\<rparr>) n))"
    unfolding WriteBits_def Let_def if_not_P [OF guards(1)] if_not_P [OF guards(2)]
      q_def [symmetric] j_def [symmetric] V_def [symmetric] s_def [symmetric] buf1_def [symmetric] if_not_P [OF guards(3)]
    by (rule refl)
  have fin: "\<exists>w'. consumeBits (w\<lparr>bw_buf := buf\<rparr>) n = Inr w' \<and> wok w' \<and> wpos w' = ?P + n \<and>
      length (bw_buf w') = length ?buf \<and>
      (\<forall>k. sbit (bw_buf w') k = (if ?P \<le> k \<and> k < ?P + n then bit v (n - 1 - (k - ?P)) else sbit ?buf k))"
    if "length buf = length ?buf"
      "\<And>k. sbit buf k = (if ?P \<le> k \<and> k < ?P + n then bit V (63 - (k - ?P)) else sbit ?buf k)" for buf
  proof -
    let ?w = "w\<lparr>bw_buf := buf\<rparr>"
    have "wok ?w" "wpos ?w = ?P" "wpos ?w + n \<le> 8 * length (bw_buf ?w)"
      using ok n that(1) by (simp_all add: wok_def wpos_def)
    moreover have "bit V (63 - (k - ?P)) = bit v (n - 1 - (k - ?P))" if "?P \<le> k \<and> k < ?P + n" for k
      using bitV [of "k - ?P"] that n by auto
    ultimately show ?thesis using consumeBits_ok [of ?w n] that by auto
  qed
  show ?thesis
  proof (cases "n \<le> 8 - j")
    case True
    then have "s = n" by (simp add: s_def)
    then show ?thesis unfolding WB if_P [OF True] using fin [of buf1] l1 sb1 by simp
  next
    case False
    then have s: "s = 8 - j" "s \<le> n" "?P + s = 8 * (q + 1)" using P by (auto simp: s_def)
    define m where "m = n - s"
    obtain buf2 where b2: "writeFullBytes buf1 (q + 1) (push_bit s V) m =
        Inr (buf2, q + 1 + m div 8, push_bit (8 * (m div 8)) (push_bit s V), m mod 8)" "length buf2 = length buf1"
      "\<forall>k. sbit buf2 k = (if 8 * (q + 1) \<le> k \<and> k < 8 * (q + 1) + 8 * (m div 8)
           then bit (push_bit s V) (63 - (k - 8 * (q + 1))) else sbit buf1 k)"
    proof -
      have "8 * (q + 1) + m \<le> 8 * length buf1" "m \<le> 64" using s n by (auto simp: m_def l1)
      from writeFullBytes_spec [OF this] show ?thesis using that by blast
    qed
    define a where "a = 8 * (m div 8)"
    have am: "a + m mod 8 = m" "a \<le> m" by (simp_all add: a_def)
    have sb2: "sbit buf2 k = (if ?P \<le> k \<and> k < ?P + s + a then bit V (63 - (k - ?P)) else sbit ?buf k)" for k
    proof -
      have "bit (push_bit s V) (63 - (k - (?P + s))) = bit V (63 - (k - ?P))" if ka: "?P + s \<le> k" "k < ?P + s + a"
      proof -
        obtain u where u: "k = ?P + s + u" using le_Suc_ex [OF ka(1)] ..
        have "u + s < 64" using ka(2) u am(2) n(2) s(2) m_def by linarith
        then have "s \<le> 63 - (k - (?P + s))" "63 - (k - (?P + s)) - s = 63 - (k - ?P)" "63 - (k - (?P + s)) < 64"
          using u by auto
        then show ?thesis by (simp add: bit_simps)
      qed
      then show ?thesis using b2(3)[rule_format, of k] sb1 [of k] unfolding a_def [symmetric] s(3) [symmetric] by auto
    qed
    show ?thesis
    proof (cases "m mod 8 = 0")
      case True
      have "?P + s + a = ?P + n" using True am s(2) m_def by linarith
      then show ?thesis unfolding WB if_not_P [OF False] m_def [symmetric]
        using True b2(1,2) l1 fin [of buf2] sb2 by simp
    next
      case m0: False
      define i V2 where "i = q + 1 + m div 8" and "V2 = push_bit a (push_bit s V)"
      let ?buf3 = "buf2[i := writePartialByte (ucast (drop_bit 56 V2)) (m mod 8) (buf2 ! i) 0]"
      have i8: "8 * i = ?P + s + a" using s by (simp add: i_def a_def)
      have ps: "?P + s + a + m mod 8 = ?P + n" using am s(2) m_def by linarith
      have il: "i < length buf2" using i8 ps n m0 b2(2) l1 by linarith
      have top: "bit (ucast (drop_bit 56 V2) :: u8) (7 - t) = bit V (63 - (s + a + t))" if "t < 8" "s + a + t < 64" for t
      proof -
        have "56 + (7 - t) = 63 - t" "63 - t - a - s = 63 - (s + a + t)" "a \<le> 63 - t" "s \<le> 63 - t - a" using that by auto
        then show ?thesis using that by (auto simp: bit_simps V2_def ac_simps)
      qed
      have z: "\<forall>u < 8 - m mod 8. 0 + m mod 8 < 8 \<longrightarrow> \<not> bit (ucast (drop_bit 56 V2) :: u8) u"
      proof (intro allI impI)
        fix u assume u: "u < 8 - m mod 8"
        have "\<not> bit V (56 + u - a - s)" if "a + s \<le> 56 + u"
        proof -
          have "s + a + (7 - u) < 64" "63 - (s + a + (7 - u)) = 56 + u - a - s" "\<not> s + a + (7 - u) < n"
            using u that ps by auto
          then show ?thesis using bitV by metis
        qed
        then show "\<not> bit (ucast (drop_bit 56 V2) :: u8) u" by (auto simp: bit_simps V2_def)
      qed
      have sb3: "sbit ?buf3 k = (if ?P \<le> k \<and> k < ?P + n then bit V (63 - (k - ?P)) else sbit ?buf k)" for k
      proof (cases "k div 8 = i")
        case True
        define t where "t = k mod 8"
        have k: "k = 8 * i + t" "t < 8" using True by (auto simp: t_def)
        have "sbit ?buf3 (8 * i + t) = (if t < m mod 8 then bit V (63 - (s + a + t)) else bit (buf2 ! i) (7 - t))"
          using bit_writePartialByte [of 0 "m mod 8", OF _ _ z k(2)] il k(2) top [OF k(2)] ps n
          by (auto simp: sbit_at)
        moreover have "bit (buf2 ! i) (7 - t) = sbit ?buf k" 
          unfolding sbit_at [OF k(2), symmetric] k(1) [symmetric] using sb2 [of k] k(1) i8 by simp
        ultimately show ?thesis using k i8 ps by (auto simp: algebra_simps)
      next
        case False
        then have "sbit ?buf3 k = sbit buf2 k" using il by (simp add: sbit_update)
        moreover have "\<not> (8 * i \<le> k \<and> k < 8 * i + m mod 8)" using False by auto
        ultimately show ?thesis using sb2 [of k] i8 ps by auto
      qed
      show ?thesis unfolding WB if_not_P [OF False] m_def [symmetric]
        using m0 b2(1,2) l1 il fin [of ?buf3] sb3 by (simp add: i_def V2_def a_def)
    qed
  qed
qed

lemma length_written [simp]: "length (written w) = wpos w"
  by (simp add: written_def)

lemma written_append:
  assumes "wpos w' = wpos w + n"
    "\<forall>k. sbit (bw_buf w') k = (if wpos w \<le> k \<and> k < wpos w + n then bit v (n - 1 - (k - wpos w)) else sbit (bw_buf w) k)"
  shows "written w' = written w @ bv n v"
proof -
  have "map (sbit (bw_buf w')) [wpos w..<wpos w + n] = bv n v"
  proof (rule nth_equalityI)
    fix i assume "i < length (map (sbit (bw_buf w')) [wpos w..<wpos w + n])"
    then show "map (sbit (bw_buf w')) [wpos w..<wpos w + n] ! i = bv n v ! i"
      using assms(2) [rule_format, of "wpos w + i"] by (simp add: nth_bv)
  qed simp
  moreover have "map (sbit (bw_buf w')) [0..<wpos w] = map (sbit (bw_buf w)) [0..<wpos w]"
    using assms(2) by (intro map_cong) simp_all
  ultimately show ?thesis using assms(1) upt_add_eq_append [of 0 "wpos w" n] by (simp add: written_def)
qed

lemma WriteBits_field:
  assumes "wok w" "0 < n" "n \<le> 64" "length (written w) + n \<le> 8 * length (bw_buf w)"
  shows "\<exists>w'. WriteBits w v n = Inr w' \<and> wok w' \<and> length (bw_buf w') = length (bw_buf w) \<and>
    written w' = written w @ bv n v"
proof -
  obtain w' where w: "WriteBits w v n = Inr w'" "wok w'" "wpos w' = wpos w + n"
    "length (bw_buf w') = length (bw_buf w)"
    "\<forall>k. sbit (bw_buf w') k = (if wpos w \<le> k \<and> k < wpos w + n then bit v (n - 1 - (k - wpos w)) else sbit (bw_buf w) k)"
    using WriteBits_spec [OF assms(1-3)] assms(4) by fastforce
  with written_append [OF w(3,5)] show ?thesis by auto
qed

lemma NewBitStreamWriter_wok: "wok (NewBitStreamWriter buf)" "written (NewBitStreamWriter buf) = []"
  by (simp_all add: wok_def wpos_def written_def NewBitStreamWriter_def)

text \<open>A reader on the slice of a writer sees what was written, then the rest of the slice.\<close>

lemma rest_of_written:
  assumes "wok w"
  shows "\<exists>pad. rest (NewBitStreamReader (bw_buf w)) = written w @ pad"
proof -
  have "[0..<8 * length (bw_buf w)] = [0..<wpos w] @ [wpos w..<8 * length (bw_buf w)]"
    using assms upt_add_eq_append [of 0 "wpos w" "8 * length (bw_buf w) - wpos w"] by (simp add: wok_def)
  then show ?thesis by (simp add: rest_NewBitStreamReader written_def)
qed

subsection \<open>Non-symmetric values\<close>

lemma bitwidth_bounds:
  assumes "n \<noteq> 0"
  shows "0 < bitwidth n \<and> bitwidth n \<le> 32 \<and> 2 ^ (bitwidth n - 1) \<le> unat n \<and> unat n < 2 ^ bitwidth n"
proof -
  have b: "2 ^ bitwidth n \<le> 2 * unat n \<and> unat n < 2 ^ bitwidth n \<and> 0 < bitwidth n"
    using assms
  proof (induction n rule: bitwidth.induct)
    case (1 n)
    have d: "unat (drop_bit 1 n) = unat n div 2" by (simp add: drop_bit_eq_div unat_div)
    have b: "bitwidth n = Suc (bitwidth (drop_bit 1 n))" using 1(2) by (subst bitwidth.simps) simp
    show ?case
    proof (cases "drop_bit 1 n = 0")
      case True
      then have "bitwidth n = 1" unfolding b by (simp add: bitwidth.simps)
      moreover have "unat n < 2" using d True by simp
      moreover have "unat n \<noteq> 0" using 1(2) by (simp add: unat_eq_0)
      ultimately show ?thesis by simp
    next
      case False
      from 1(1) [OF 1(2) False] show ?thesis unfolding b d by simp linarith
    qed
  qed
  have "2 ^ bitwidth n = 2 * (2 :: nat) ^ (bitwidth n - 1)" using b by (cases "bitwidth n") auto
  moreover from this b have "(2::nat) ^ (bitwidth n - 1) < 2 ^ 32" using u32_lt [of n] by auto
  then have "bitwidth n - 1 < 32" using power_less_imp_less_exp [of 2 "bitwidth n - 1" 32] by simp
  ultimately show ?thesis using b by auto
qed

lemma unat_u64_of_u32 [simp]: "unat (ucast (v :: u32) :: u64) = unat v"
  using u32_lt [of v] by (simp add: unsigned_ucast_eq take_bit_nat_eq_self_iff)

lemma ucast_u64_of_u32 [simp]: "ucast (ucast (v :: u32) :: u64) = v"
  by (rule bit_word_eqI) (auto simp: bit_simps)

text \<open>The code word of a value: \<open>width - 1\<close> or \<open>width\<close> bits.\<close>

definition nsMin :: "u32 \<Rightarrow> u32" where
  "nsMin N = push_bit (bitwidth N) 1 - N"

definition nsBits :: "u32 \<Rightarrow> u32 \<Rightarrow> bool list" where
  "nsBits v N = (if v < nsMin N then bv (bitwidth N - 1) (ucast v) else bv (bitwidth N) (ucast (v + nsMin N)))"

lemma nsMin_bounds:
  assumes "N \<noteq> 0" "unat N < 2 ^ 31"
  shows "unat (nsMin N) = 2 ^ bitwidth N - unat N" "unat (nsMin N) \<le> 2 ^ (bitwidth N - 1)" "0 < unat (nsMin N)"
    "bitwidth N \<le> 31"
proof -
  note b = bitwidth_bounds [OF assms(1)]
  have "(2::nat) ^ (bitwidth N - 1) < 2 ^ 31" using b assms(2) by linarith
  then show le: "bitwidth N \<le> 31" using power_less_imp_less_exp [of "2::nat" "bitwidth N - 1" 31] by simp
  have p: "unat (push_bit (bitwidth N) 1 :: u32) = 2 ^ bitwidth N"
    unfolding unsigned_push_bit_eq using le by (simp add: take_bit_nat_eq_self_iff)
  then have "N \<le> push_bit (bitwidth N) 1" using b by (simp add: word_le_nat_alt)
  then show e: "unat (nsMin N) = 2 ^ bitwidth N - unat N" unfolding nsMin_def by (simp only: unat_sub p)
  have "(2::nat) ^ bitwidth N = 2 * 2 ^ (bitwidth N - 1)" using b by (cases "bitwidth N") auto
  then show "unat (nsMin N) \<le> 2 ^ (bitwidth N - 1)" using e b by linarith
  show "0 < unat (nsMin N)" using e b by simp
qed

lemma bv_Suc: "bv (Suc n) x = bv n (drop_bit 1 x) @ bv 1 x"
proof (rule nth_equalityI)
  show "length (bv (Suc n) x) = length (bv n (drop_bit 1 x) @ bv 1 x)" by simp
  fix i assume "i < length (bv (Suc n) x)"
  then consider "i < n" | "i = n" by fastforce
  then show "bv (Suc n) x ! i = (bv n (drop_bit 1 x) @ bv 1 x) ! i"
  proof cases
    case 1
    then have "1 + (n - 1 - i) = n - i" by simp
    then show ?thesis using 1 by (simp add: nth_bv nth_append bit_drop_bit_eq del: drop_bit_Suc One_nat_def)
  qed (simp add: nth_bv nth_append)
qed

lemma ReadNonSymmetric_field:
  assumes r: "rok r" "rest r = nsBits v N @ xs" and v: "v < N" "unat N < 2 ^ 31"
  shows "\<exists>r'. ReadNonSymmetric r N = (r', Inr v) \<and> rok r' \<and> rest r' = xs \<and> br_buf r' = br_buf r"
proof -
  define W k where "W = bitwidth N - 1" and "k = nsMin N"
  have N0: "N \<noteq> 0" using v(1) by auto
  note b = bitwidth_bounds [OF N0] and m = nsMin_bounds [OF N0 v(2)]
  have W: "bitwidth N = Suc W" "int (bitwidth N) - 1 = int W" "W \<le> 30" using b m(4) by (auto simp: W_def)
  have k: "unat k = 2 ^ Suc W - unat N" "unat k \<le> 2 ^ W" "unat N < 2 ^ Suc W"
    using m b by (simp_all add: k_def W_def [symmetric] W(1))
  have ng: "\<not> N \<ge> push_bit 31 1"
    using v(2) by (simp add: not_le word_less_nat_alt)
  note RNS = ReadNonSymmetric_def [of r N, unfolded Let_def if_not_P [OF ng] W(2), folded nsMin_def, folded k_def]
  show ?thesis
  proof (cases "v < k")
    case True
    have lt: "unat (ucast v :: u64) < 2 ^ W" using True k by (simp add: word_less_nat_alt)
    have "rest r = bv W (ucast v) @ xs" using r(2) True by (simp add: nsBits_def W k_def)
    then obtain r' where r': "ReadBits r (int W) = (r', Inr (ucast v))" "rok r'" "rest r' = xs" "br_buf r' = br_buf r"
      using ReadBits_field [OF r(1) _ _ lt] W(3) by fastforce
    moreover have "(ucast v :: u64) < ucast k" using True by (simp add: word_less_nat_alt)
    ultimately show ?thesis unfolding RNS by simp
  next
    case False
    define x :: u64 where "x = ucast (v + k)"
    have kv: "unat k \<le> unat v" using False by (simp add: word_less_nat_alt)
    have sum: "unat v + unat k < 2 ^ Suc W" using k v(1) by (simp add: word_less_nat_alt)
    have "(2::nat) ^ Suc W \<le> 2 ^ 31" using W(3) by (intro power_increasing) auto
    then have lt: "unat v + unat k < 2 ^ 31" using sum by linarith
    then have x: "unat x = unat v + unat k"
      unfolding x_def unat_u64_of_u32 by (simp add: unat_plus_if')
    have xb: "rest r = bv W (drop_bit 1 x) @ bv 1 x @ xs"
      using r(2) False bv_Suc [of W x] by (simp add: nsBits_def W x_def k_def)
    have d: "unat (drop_bit 1 x) = unat x div 2" by (simp add: drop_bit_eq_div unat_div)
    then have "unat (drop_bit 1 x) < 2 ^ W" using x sum by simp
    then obtain r1 where r1: "ReadBits r (int W) = (r1, Inr (drop_bit 1 x))" "rok r1" "rest r1 = bv 1 x @ xs" "br_buf r1 = br_buf r"
      using ReadBits_field [OF r(1) xb] W(3) by fastforce
    have one: "bv 1 x = bv 1 (take_bit 1 x)" by (rule nth_equalityI) (simp_all add: nth_bv bit_simps bit_0)
    have "unat (take_bit 1 x) < 2 ^ 1" by (rule bits_less_exp) (simp only: bit_take_bit_iff, simp)
    then obtain r2 where r2: "ReadBits r1 1 = (r2, Inr (take_bit 1 x))" "rok r2" "rest r2 = xs" "br_buf r2 = br_buf r1"
      using ReadBits_field [OF r1(2) r1(3) [unfolded one]] by fastforce
    have nk: "\<not> drop_bit 1 x < ucast k" unfolding word_less_nat_alt d x using kv by simp
    have "push_bit 1 (drop_bit 1 x) + take_bit 1 x = x" by (rule bits_ident)
    moreover have "ucast (x - ucast k) = v"
    proof -
      have "unat (x - ucast k) = unat v" using x by (simp add: unat_sub word_le_nat_alt)
      then have "x - ucast k = ucast v" by (simp add: word_unat_eq_iff)
      then show ?thesis by simp
    qed
    ultimately show ?thesis unfolding RNS using r1 r2 nk by simp
  qed
qed

lemma WriteNonSymmetric_field:
  assumes "wok w" "v < N" "unat N < 2 ^ 31" "length (written w) + length (nsBits v N) \<le> 8 * length (bw_buf w)"
  shows "\<exists>w'. WriteNonSymmetric w v N = Inr w' \<and> wok w' \<and> length (bw_buf w') = length (bw_buf w) \<and>
    written w' = written w @ nsBits v N"
proof -
  have N0: "N \<noteq> 0" using assms(2) by auto
  note b = bitwidth_bounds [OF N0] and m = nsMin_bounds [OF N0 assms(3)]
  have g: "\<not> \<not> (v < N \<and> N \<le> push_bit 31 1)" using assms(2,3) by (simp add: word_le_nat_alt)
  have bw1: "bitwidth 1 = 1" by (simp add: bitwidth.simps [of 1] bitwidth.simps [of 0])
  show ?thesis
  proof (cases "N = 1")
    case True
    then have "v = 0" using assms(2) by (simp add: word_less_nat_alt unat_eq_0)
    moreover have "0 < nsMin 1" using m(3) True by (simp add: word_less_nat_alt)
    ultimately show ?thesis unfolding WriteNonSymmetric_def if_not_P [OF g]
      using True assms(1) by (simp add: nsBits_def bw1 bv_def)
  next
    case False
    have "bitwidth N \<noteq> 1"
    proof
      assume "bitwidth N = 1"
      with b have "unat N = 1" by auto
      with False show False by (simp add: word_unat_eq_iff)
    qed
    then have bN: "0 < bitwidth N - 1" "bitwidth N \<le> 31" using b m(4) by auto
    note W = WriteNonSymmetric_def [of w v N, unfolded Let_def if_not_P [OF g] if_not_P [OF False], folded nsMin_def]
    show ?thesis
      unfolding W using assms(1,4) bN WriteBits_field [of w "bitwidth N - 1" "ucast v"]
        WriteBits_field [of w "bitwidth N" "ucast (v + nsMin N)"]
      by (simp add: nsBits_def split: if_splits)
  qed
qed

lemma length_nsBits: "N \<noteq> 0 \<Longrightarrow> int (length (nsBits v N)) = SizeNonSymmetricBits v N"
  using bitwidth_bounds [of N] by (auto simp: nsBits_def SizeNonSymmetricBits_def Let_def nsMin_def)

section \<open>Properties\<close>

text \<open>
  \<open>ReadBits\<close> with \<open>n\<close> in the documented range 0 to 64 returns exactly the next \<open>n\<close> bits of the
  slice, most significant first and as a number below \<open>2 ^ n\<close>, and moves past them; when fewer than \<open>n\<close>
  bits are left it reports the end of the data and leaves the reader in the failed state. It never reads outside the
  slice.
\<close>

theorem read_bits_next:
  assumes "rok r" "n \<le> 64"
  shows "if n \<le> length (rest r)
    then \<exists>r' v. ReadBits r (int n) = (r', Inr v) \<and> rok r' \<and> bv n v = take n (rest r) \<and> unat v < 2 ^ n \<and> rest r' = drop n (rest r) \<and> br_buf r' = br_buf r
    else snd (ReadBits r (int n)) = Inl errEOF \<and> \<not> br_Ok (fst (ReadBits r (int n)))"
proof (cases "n \<le> length (rest r)")
  case True
  then show ?thesis using ReadBits_next [OF assms] by simp
next
  case False
  then have "br_remainingBits r < int n" using length_rest [OF assms(1)] by linarith
  then show ?thesis using False assms(2) by (simp add: ReadBits_def br_Ok_def)
qed

theorem read_bits_next_witness:
  "\<exists>r' v. ReadBits (NewBitStreamReader [0xa5, 0x0f]) (int 11) = (r', Inr v) \<and>
     bv 11 v = take 11 (rest (NewBitStreamReader [0xa5, 0x0f]))"
  using read_bits_next [OF NewBitStreamReader_rok, of 11 "[0xa5, 0x0f]"]
  by (auto simp: rest_NewBitStreamReader)

text \<open>
  A value below \<open>N\<close> written with \<open>WriteNonSymmetric\<close> occupies exactly the number of bits that
  \<open>SizeNonSymmetricBits\<close> announces, the writer keeps everything written before, and \<open>ReadNonSymmetric\<close>
  on these bits returns the value and stops right after it.
\<close>

theorem nonsymmetric_round_trip:
  assumes "wok w" "v < N" "unat N < 2 ^ 31" "int (length (written w)) + SizeNonSymmetricBits v N \<le> int (8 * length (bw_buf w))"
  shows "\<exists>w' bs. WriteNonSymmetric w v N = Inr w' \<and> wok w' \<and> written w' = written w @ bs \<and>
    int (length bs) = SizeNonSymmetricBits v N \<and>
    (\<forall>r xs. rok r \<and> rest r = bs @ xs \<longrightarrow>
       (\<exists>r'. ReadNonSymmetric r N = (r', Inr v) \<and> rok r' \<and> rest r' = xs))"
proof -
  have N: "N \<noteq> 0" using assms(2) by auto
  note len = length_nsBits [OF N, of v]
  have "length (written w) + length (nsBits v N) \<le> 8 * length (bw_buf w)" using assms(4) len by linarith
  from WriteNonSymmetric_field [OF assms(1-3) this] ReadNonSymmetric_field [OF _ _ assms(2,3)] len
  show ?thesis by blast
qed

theorem nonsymmetric_round_trip_witness:
  "\<exists>w'. WriteNonSymmetric (NewBitStreamWriter [0, 0]) 3 5 = Inr w' \<and>
     (\<exists>r'. ReadNonSymmetric (NewBitStreamReader (bw_buf w')) 5 = (r', Inr 3))"
proof -
  have "SizeNonSymmetricBits 3 5 = 3" by code_simp
  then obtain w' bs where w: "WriteNonSymmetric (NewBitStreamWriter [0, 0]) 3 5 = Inr w'" "wok w'" "written w' = bs"
    "\<forall>r xs. rok r \<and> rest r = bs @ xs \<longrightarrow> (\<exists>r'. ReadNonSymmetric r 5 = (r', Inr 3) \<and> rok r' \<and> rest r' = xs)"
    using nonsymmetric_round_trip [of "NewBitStreamWriter [0, 0]" 3 5] NewBitStreamWriter_wok
    by (auto simp: NewBitStreamWriter_def wpos_def)
  then show ?thesis using rest_of_written [OF w(2)] NewBitStreamReader_rok by blast
qed

end
