(* ===== verification/Dependency_Descriptor.thy ===== *)
theory Dependency_Descriptor
  imports Bitstream Packets
begin

text \<open>
  The dependency descriptor RTP header extension:
  \<^verbatim>\<open>pkg/sfu/rtpextension/dependencydescriptor/dependencydescriptorreader.go\<close> (parsing),
  \<^verbatim>\<open>dependencydescriptorwriter.go\<close> (template choice, size, writing) and the marshalling entry points of
  \<^verbatim>\<open>dependencydescriptorextension.go\<close>.

  The reader and writer objects are records; the bit stream they hold is threaded separately through every
  call. When a read fails the error ends the parse and the half-filled descriptor is dropped, as the only
  caller does. A nil slice and an empty slice are the same list: the writer only sees descriptors whose
  slices were made by \<open>Clone\<close>, which are never nil.
\<close>

section \<open>Model\<close>

datatype ddErr = bitErr bsErr
  | ErrDDReaderNoStructure | ErrDDReaderTemplateWithoutStructure | ErrDDReaderTooManyTemplates
  | ErrDDReaderTooManyTemporalLayers | ErrDDReaderTooManySpatialLayers | ErrDDReaderInvalidTemplateIndex
  | ErrDDReaderInvalidSpatialLayer | ErrDDReaderNumDTIMismatch | ErrDDReaderNumChainDiffsMismatch
  | errNoTemplateFound | errInvalidStructure | errInvalidTemplates | errInvalidNextLayerIdc
  | ddPanic

abbreviation (input) MaxSpatialIds :: nat where "MaxSpatialIds \<equiv> 4"
abbreviation (input) MaxTemporalIds :: nat where "MaxTemporalIds \<equiv> 8"
abbreviation (input) MaxDecodeTargets :: nat where "MaxDecodeTargets \<equiv> 32"
abbreviation (input) MaxTemplates :: nat where "MaxTemplates \<equiv> 64"

fun dtiOf :: "u64 \<Rightarrow> DecodeTargetIndication" where
  "dtiOf v = (if v = 0 then DecodeTargetNotPresent else if v = 1 then DecodeTargetDiscardable
     else if v = 2 then DecodeTargetSwitch else DecodeTargetRequired)"

fun dtiVal :: "DecodeTargetIndication \<Rightarrow> u64" where
  "dtiVal DecodeTargetNotPresent = 0"
| "dtiVal DecodeTargetDiscardable = 1"
| "dtiVal DecodeTargetSwitch = 2"
| "dtiVal DecodeTargetRequired = 3"

definition Clone :: "FrameDependencyTemplate \<Rightarrow> FrameDependencyTemplate" where
  "Clone t = \<lparr>SpatialId = SpatialId t, TemporalId = TemporalId t,
     DecodeTargetIndications = DecodeTargetIndications t, FrameDiffs = FrameDiffs t, ChainDiffs = ChainDiffs t\<rparr>"

text \<open>\<open>nextLayerIdcType\<close>\<close>

abbreviation (input) sameLayer :: nat where "sameLayer \<equiv> 0"
abbreviation (input) nextTemporalLayer :: nat where "nextTemporalLayer \<equiv> 1"
abbreviation (input) nextSpatialLayer :: nat where "nextSpatialLayer \<equiv> 2"
abbreviation (input) noMoreLayer :: nat where "noMoreLayer \<equiv> 3"
abbreviation (input) invalidLayer :: nat where "invalidLayer \<equiv> 4"

subsection \<open>Parsers over a bit stream\<close>

type_synonym 'a bitParser = "BitStreamReader \<Rightarrow> BitStreamReader \<times> (ddErr + 'a)"

definition retP :: "'a \<Rightarrow> 'a bitParser" where
  "retP x r = (r, Inr x)"

definition failP :: "ddErr \<Rightarrow> 'a bitParser" where
  "failP e r = (r, Inl e)"

definition bindP :: "'a bitParser \<Rightarrow> ('a \<Rightarrow> 'b bitParser) \<Rightarrow> 'b bitParser" where
  "bindP m f r = (case m r of (r, Inl e) \<Rightarrow> (r, Inl e) | (r, Inr x) \<Rightarrow> f x r)"

definition readBits :: "int \<Rightarrow> u64 bitParser" where
  "readBits n r = (case ReadBits r n of (r, x) \<Rightarrow> (r, map_sum bitErr id x))"

definition readBool :: "bool bitParser" where
  "readBool r = (case ReadBool r of (r, x) \<Rightarrow> (r, map_sum bitErr id x))"

definition readNonSymmetric :: "u32 \<Rightarrow> u32 bitParser" where
  "readNonSymmetric N r = (case ReadNonSymmetric r N of (r, x) \<Rightarrow> (r, map_sum bitErr id x))"

definition invalidateP :: "ddErr \<Rightarrow> 'a bitParser" where
  "invalidateP e r = (Invalidate r, Inl e)"

text \<open>A counted loop that collects what its body reads.\<close>

primrec readN :: "nat \<Rightarrow> 'a bitParser \<Rightarrow> 'a list bitParser" where
  "readN 0 p = retP []"
| "readN (Suc n) p = bindP p (\<lambda>x. bindP (readN n p) (\<lambda>xs. retP (x # xs)))"

text \<open>A loop over the templates of the attached structure.\<close>

primrec readEach :: "('a \<Rightarrow> 'a bitParser) \<Rightarrow> 'a list \<Rightarrow> 'a list bitParser" where
  "readEach p [] = retP []"
| "readEach p (t # ts) = bindP (p t) (\<lambda>t. bindP (readEach p ts) (\<lambda>ts. retP (t # ts)))"

subsection \<open>Reader\<close>

record DependencyDescriptorReader =
  rd_descriptor :: DependencyDescriptor
  rd_frameDependencyTemplateId :: nat
  rd_activeDecodeTargetsPresentFlag :: bool
  rd_customDtisFlag :: bool
  rd_customFdiffsFlag :: bool
  rd_customChainsFlag :: bool
  rd_structure :: "FrameDependencyStructure option"

definition NewDependencyDescriptorReader ::
  "FrameDependencyStructure option \<Rightarrow> DependencyDescriptor \<Rightarrow> DependencyDescriptorReader" where
  "NewDependencyDescriptorReader structure descriptor =
     \<lparr>rd_descriptor = descriptor, rd_frameDependencyTemplateId = 0,
      rd_activeDecodeTargetsPresentFlag = False, rd_customDtisFlag = False, rd_customFdiffsFlag = False,
      rd_customChainsFlag = False, rd_structure = structure\<rparr>"

definition readMandatoryFields :: "DependencyDescriptorReader \<Rightarrow> DependencyDescriptorReader bitParser" where
  "readMandatoryFields r =
     bindP readBool (\<lambda>first.
     bindP readBool (\<lambda>lst.
     bindP (readBits 6) (\<lambda>templateID.
     bindP (readBits 16) (\<lambda>frameNumber.
       retP (r\<lparr>rd_descriptor := (rd_descriptor r)\<lparr>FirstPacketInFrame := first, LastPacketInFrame := lst,
                FrameNumber := ucast frameNumber\<rparr>,
              rd_frameDependencyTemplateId := unat templateID\<rparr>)))))"

text \<open>\<open>left\<close> is \<open>MaxTemplates - len(templates)\<close>.\<close>

primrec readTemplateLayersLoop ::
  "nat \<Rightarrow> FrameDependencyTemplate list \<Rightarrow> nat \<Rightarrow> nat \<Rightarrow> FrameDependencyTemplate list bitParser" where
  "readTemplateLayersLoop 0 templates temporalId spatialId = failP ErrDDReaderTooManyTemplates"
| "readTemplateLayersLoop (Suc left) templates temporalId spatialId =
     (let lastTemplate = \<lparr>SpatialId = spatialId, TemporalId = temporalId,
            DecodeTargetIndications = [], FrameDiffs = [], ChainDiffs = []\<rparr>;
          templates = templates @ [lastTemplate] in
      bindP (readBits 2) (\<lambda>idc.
        let nextLayerIdc = unat idc in
        if nextLayerIdc = nextTemporalLayer then
          if temporalId + 1 \<ge> MaxTemporalIds then failP ErrDDReaderTooManyTemporalLayers
          else (\<lambda>r. if br_Ok r then readTemplateLayersLoop left templates (temporalId + 1) spatialId r
                     else retP templates r)
        else if nextLayerIdc = nextSpatialLayer then
          if spatialId + 1 \<ge> MaxSpatialIds then failP ErrDDReaderTooManySpatialLayers
          else (\<lambda>r. if br_Ok r then readTemplateLayersLoop left templates 0 (spatialId + 1) r
                     else retP templates r)
        else if nextLayerIdc \<noteq> noMoreLayer
        then (\<lambda>r. if br_Ok r then readTemplateLayersLoop left templates temporalId spatialId r
                   else retP templates r)
        else retP templates))"

definition readTemplateLayers :: "FrameDependencyStructure \<Rightarrow> FrameDependencyStructure bitParser" where
  "readTemplateLayers s =
     bindP (readTemplateLayersLoop MaxTemplates [] 0 0) (\<lambda>templates. retP (s\<lparr>Templates := templates\<rparr>))"

definition readDti :: "DecodeTargetIndication bitParser" where
  "readDti = bindP (readBits 2) (\<lambda>indication. retP (dtiOf indication))"

definition readTemplateDtis :: "FrameDependencyStructure \<Rightarrow> FrameDependencyStructure bitParser" where
  "readTemplateDtis s =
     bindP (readEach (\<lambda>template.
         bindP (readN (NumDecodeTargets s) readDti) (\<lambda>dtis.
           retP (template\<lparr>DecodeTargetIndications := dtis\<rparr>))) (Templates s))
       (\<lambda>templates. retP (s\<lparr>Templates := templates\<rparr>))"

text \<open>Both loops over frame diffs end because every round consumes bits.\<close>

definition bitsLeft :: "BitStreamReader \<Rightarrow> nat" where
  "bitsLeft r = nat (br_remainingBits r)"

lemma map_sum_eq_Inr: "map_sum f g x = Inr y \<longleftrightarrow> (\<exists>z. x = Inr z \<and> y = g z)"
  by (cases x) auto

lemma ReadBits_consumes:
  assumes "ReadBits r n = (r', Inr v)"
  shows "br_remainingBits r' = br_remainingBits r - n \<and> n \<le> br_remainingBits r \<and> 0 \<le> n"
  using assms by (auto simp: ReadBits_def Let_def split: if_splits sum.splits prod.splits)

lemma readBits_not_increases: "readBits n r = (r', Inr v) \<Longrightarrow> bitsLeft r' \<le> bitsLeft r"
  by (auto simp: readBits_def map_sum_eq_Inr bitsLeft_def split: prod.splits dest: ReadBits_consumes)

lemma readBits_decreases: "readBits n r = (r', Inr v) \<Longrightarrow> 0 < n \<Longrightarrow> bitsLeft r' < bitsLeft r"
  by (auto simp: readBits_def map_sum_eq_Inr bitsLeft_def split: prod.splits dest: ReadBits_consumes)

lemma readBool_decreases: "readBool r = (r', Inr v) \<Longrightarrow> bitsLeft r' < bitsLeft r"
  by (auto simp: readBool_def ReadBool_def map_sum_eq_Inr bindR_eq_Inr bitsLeft_def split: prod.splits dest: ReadBits_consumes)

lemma fdiff_rounds:
  "(r1, Inr b) = readBool r \<Longrightarrow> (r2, Inr y) = readBits n r1 \<Longrightarrow> bitsLeft r2 < bitsLeft r"
  "(r1, Inr x) = readBits 2 r \<Longrightarrow> (r2, Inr y) = readBits n r1 \<Longrightarrow> bitsLeft r2 < bitsLeft r"
  using readBool_decreases [of r r1 b] readBits_decreases [of 2 r r1 x] readBits_not_increases [of n r1 r2 y]
  by (simp_all add: eq_commute [of "(_, _)"])

function readFdiffsLoop :: "int list \<Rightarrow> int list bitParser" where
  "readFdiffsLoop fdiffs r =
     (case readBool r of
        (r, Inl e) \<Rightarrow> (r, Inl e)
      | (r, Inr fdiffFollow) \<Rightarrow>
        if \<not> fdiffFollow then (r, Inr fdiffs)
        else case readBits 4 r of
          (r, Inl e) \<Rightarrow> (r, Inl e)
        | (r, Inr fDiffMinusOne) \<Rightarrow> readFdiffsLoop (fdiffs @ [uint (fDiffMinusOne + 1)]) r)"
  by pat_completeness auto
termination
  by (relation "measure (\<lambda>(_, r). bitsLeft r)") (auto dest: fdiff_rounds)

declare readFdiffsLoop.simps [simp del]

definition readTemplateFdiffs :: "FrameDependencyStructure \<Rightarrow> FrameDependencyStructure bitParser" where
  "readTemplateFdiffs s =
     bindP (readEach (\<lambda>template.
         bindP (readFdiffsLoop (FrameDiffs template)) (\<lambda>fdiffs. retP (template\<lparr>FrameDiffs := fdiffs\<rparr>)))
       (Templates s)) (\<lambda>templates. retP (s\<lparr>Templates := templates\<rparr>))"

definition readTemplateChains :: "FrameDependencyStructure \<Rightarrow> FrameDependencyStructure bitParser" where
  "readTemplateChains s =
     bindP (readNonSymmetric (of_nat (NumDecodeTargets s) + 1)) (\<lambda>numChains.
       let s = s\<lparr>NumChains := unat numChains\<rparr> in
       if NumChains s = 0 then retP s
       else
         bindP (readN (NumDecodeTargets s) (bindP (readNonSymmetric (of_nat (NumChains s))) (\<lambda>p. retP (unat p))))
           (\<lambda>protectedBy.
           let s = s\<lparr>DecodeTargetProtectedByChain := DecodeTargetProtectedByChain s @ protectedBy\<rparr> in
           bindP (readEach (\<lambda>template.
               bindP (readN (NumChains s) (bindP (readBits 4) (\<lambda>chainDiff. retP (uint chainDiff)))) (\<lambda>chainDiffs.
                 retP (template\<lparr>ChainDiffs := ChainDiffs template @ chainDiffs\<rparr>))) (Templates s))
             (\<lambda>templates. retP (s\<lparr>Templates := templates\<rparr>))))"

definition readResolution :: "RenderResolution bitParser" where
  "readResolution =
     bindP (readBits 16) (\<lambda>widthMinus1.
     bindP (readBits 16) (\<lambda>heightMinus1.
       retP \<lparr>Width = unat (widthMinus1 + 1), Height = unat (heightMinus1 + 1)\<rparr>))"

definition readResolutions :: "FrameDependencyStructure \<Rightarrow> FrameDependencyStructure bitParser" where
  "readResolutions s =
     (if Templates s = [] then failP ddPanic
      else
        let spatialLayers = SpatialId (last (Templates s)) + 1 in
        bindP (readN spatialLayers readResolution) (\<lambda>rs.
          retP (s\<lparr>Resolutions := Resolutions s @ rs\<rparr>)))"

definition emptyStructure :: FrameDependencyStructure where
  "emptyStructure = \<lparr>StructureId = 0, NumDecodeTargets = 0, NumChains = 0,
     DecodeTargetProtectedByChain = [], Resolutions = [], Templates = []\<rparr>"

definition readTemplateDependencyStructure :: "FrameDependencyStructure bitParser" where
  "readTemplateDependencyStructure =
     bindP (readBits 6) (\<lambda>structureId.
     bindP (readBits 5) (\<lambda>numDecodeTargets.
     bindP (readTemplateLayers (emptyStructure\<lparr>StructureId := unat structureId,
              NumDecodeTargets := unat numDecodeTargets + 1\<rparr>)) (\<lambda>s.
     bindP (readTemplateDtis s) (\<lambda>s.
     bindP (readTemplateFdiffs s) (\<lambda>s.
     bindP (readTemplateChains s) (\<lambda>s.
     bindP readBool (\<lambda>flag.
       if flag then readResolutions s else retP s)))))))"

definition readExtendedFields :: "DependencyDescriptorReader \<Rightarrow> DependencyDescriptorReader bitParser" where
  "readExtendedFields r =
     bindP readBool (\<lambda>templateDependencyStructurePresentFlag.
     bindP readBool (\<lambda>activeDecodeTargetsPresentFlag.
     bindP readBool (\<lambda>customDtisFlag.
     bindP readBool (\<lambda>customFdiffsFlag.
     bindP readBool (\<lambda>customChainsFlag.
       let r = r\<lparr>rd_activeDecodeTargetsPresentFlag := activeDecodeTargetsPresentFlag,
                 rd_customDtisFlag := customDtisFlag, rd_customFdiffsFlag := customFdiffsFlag,
                 rd_customChainsFlag := customChainsFlag\<rparr> in
       if templateDependencyStructurePresentFlag then
         bindP readTemplateDependencyStructure (\<lambda>s.
           retP (r\<lparr>rd_descriptor := (rd_descriptor r)\<lparr>AttachedStructure := Some s,
                    ActiveDecodeTargetsBitmask := Some (ucast (push_bit (NumDecodeTargets s) 1 - 1 :: u64))\<rparr>\<rparr>))
       else retP r)))))"

definition readFrameDtis ::
  "FrameDependencyStructure \<Rightarrow> FrameDependencyTemplate \<Rightarrow> FrameDependencyTemplate bitParser" where
  "readFrameDtis s f =
     (if length (DecodeTargetIndications f) \<noteq> NumDecodeTargets s then failP ErrDDReaderNumDTIMismatch
      else bindP (readN (length (DecodeTargetIndications f)) readDti) (\<lambda>dtis.
        retP (f\<lparr>DecodeTargetIndications := dtis\<rparr>)))"

function readFrameFdiffsLoop :: "int list \<Rightarrow> int list bitParser" where
  "readFrameFdiffsLoop fdiffs r =
     (case readBits 2 r of
        (r, Inl e) \<Rightarrow> (r, Inl e)
      | (r, Inr nexFdiffSize) \<Rightarrow>
        if nexFdiffSize = 0 then (r, Inr fdiffs)
        else case readBits (uint (nexFdiffSize * 4)) r of
          (r, Inl e) \<Rightarrow> (r, Inl e)
        | (r, Inr fDiffMinusOne) \<Rightarrow> readFrameFdiffsLoop (fdiffs @ [uint (fDiffMinusOne + 1)]) r)"
  by pat_completeness auto

termination
  by (relation "measure (\<lambda>(_, r). bitsLeft r)") (auto dest: fdiff_rounds)

declare readFrameFdiffsLoop.simps [simp del]

definition readFrameFdiffs :: "FrameDependencyTemplate \<Rightarrow> FrameDependencyTemplate bitParser" where
  "readFrameFdiffs f = bindP (readFrameFdiffsLoop []) (\<lambda>fdiffs. retP (f\<lparr>FrameDiffs := fdiffs\<rparr>))"

definition readFrameChains ::
  "FrameDependencyStructure \<Rightarrow> FrameDependencyTemplate \<Rightarrow> FrameDependencyTemplate bitParser" where
  "readFrameChains s f =
     (if length (ChainDiffs f) \<noteq> NumChains s then failP ErrDDReaderNumChainDiffsMismatch
      else bindP (readN (length (ChainDiffs f)) (bindP (readBits 8) (\<lambda>chainDiff. retP (uint chainDiff))))
        (\<lambda>chainDiffs. retP (f\<lparr>ChainDiffs := chainDiffs\<rparr>)))"

text \<open>Go's \<open>%\<close> takes the sign of the dividend.\<close>

definition goRem :: "int \<Rightarrow> int \<Rightarrow> int" where
  "goRem a b = (if a \<ge> 0 then a mod b else - ((- a) mod b))"

definition readFrameDependencyDefinition ::
  "FrameDependencyStructure \<Rightarrow> DependencyDescriptorReader \<Rightarrow> DependencyDescriptorReader bitParser" where
  "readFrameDependencyDefinition s r =
     (let templateIndex = goRem (int (rd_frameDependencyTemplateId r) + int MaxTemplates - int (StructureId s)) (int MaxTemplates) in
      if templateIndex \<ge> int (length (Templates s)) then invalidateP ErrDDReaderInvalidTemplateIndex
      else if templateIndex < 0 then failP ddPanic
      else
        bindP (if rd_customDtisFlag r then readFrameDtis s (Clone (Templates s ! nat templateIndex))
               else retP (Clone (Templates s ! nat templateIndex))) (\<lambda>f.
        bindP (if rd_customFdiffsFlag r then readFrameFdiffs f else retP f) (\<lambda>f.
        bindP (if rd_customChainsFlag r then readFrameChains s f else retP f) (\<lambda>f.
          let r = r\<lparr>rd_descriptor := (rd_descriptor r)\<lparr>FrameDependencies := Some f\<rparr>\<rparr> in
          if Resolutions s = []
          then retP (r\<lparr>rd_descriptor := (rd_descriptor r)\<lparr>Resolution := None\<rparr>\<rparr>)
          else if SpatialId f \<ge> length (Resolutions s) then invalidateP ErrDDReaderInvalidSpatialLayer
          else retP (r\<lparr>rd_descriptor := (rd_descriptor r)\<lparr>Resolution := Some (Resolutions s ! SpatialId f)\<rparr>\<rparr>)))))"

definition Parse :: "DependencyDescriptorReader \<Rightarrow> bytes \<Rightarrow> ddErr + nat \<times> DependencyDescriptor" where
  "Parse r buf =
     snd (bindP (readMandatoryFields r) (\<lambda>r.
          bindP (if length buf > 3 then readExtendedFields r else retP r) (\<lambda>r.
          let r = (if AttachedStructure (rd_descriptor r) \<noteq> None
                   then r\<lparr>rd_structure := AttachedStructure (rd_descriptor r)\<rparr> else r) in
          case rd_structure r of
            None \<Rightarrow> invalidateP ErrDDReaderNoStructure
          | Some s \<Rightarrow>
            bindP (if rd_activeDecodeTargetsPresentFlag r
                   then bindP (readBits (int (NumDecodeTargets s))) (\<lambda>bitmask.
                     retP (r\<lparr>rd_descriptor := (rd_descriptor r)\<lparr>ActiveDecodeTargetsBitmask := Some (ucast bitmask)\<rparr>\<rparr>))
                   else retP r) (\<lambda>r.
            bindP (readFrameDependencyDefinition s r) (\<lambda>r. \<lambda>b.
              retP (BytesRead b, rd_descriptor r) b))))
        (NewBitStreamReader buf))"

definition Unmarshal :: "FrameDependencyStructure option \<Rightarrow> DependencyDescriptor \<Rightarrow> bytes \<Rightarrow> ddErr + nat \<times> DependencyDescriptor" where
  "Unmarshal structure descriptor buf = Parse (NewDependencyDescriptorReader structure descriptor) buf"

subsection \<open>Writer\<close>

record TemplateMatch =
  TemplateIdx :: nat
  NeedCustomDtis :: bool
  NeedCustomFdiffs :: bool
  NeedCustomChains :: bool
  ExtraSizeBits :: nat

text \<open>
  The descriptor's \<open>FrameDependencies\<close> is dereferenced by every method; \<open>wr_frame\<close> is that pointer's target.
\<close>

record DependencyDescriptorWriter =
  wr_descriptor :: DependencyDescriptor
  wr_frame :: FrameDependencyTemplate
  wr_structure :: FrameDependencyStructure
  wr_activeChains :: u32
  wr_bestTemplate :: TemplateMatch

definition fdiffExtraBits :: "int \<Rightarrow> nat" where
  "fdiffExtraBits fdiff = (if fdiff \<le> 2 ^ 4 then 4 else if fdiff \<le> 2 ^ 8 then 8 else 12)"

definition calculateMatch ::
  "FrameDependencyTemplate \<Rightarrow> FrameDependencyStructure \<Rightarrow> u32 \<Rightarrow> nat \<Rightarrow> FrameDependencyTemplate \<Rightarrow> TemplateMatch" where
  "calculateMatch f s activeChains idx template =
     (let needCustomFdiffs = (FrameDiffs f \<noteq> FrameDiffs template);
          needCustomDtis = (DecodeTargetIndications f \<noteq> DecodeTargetIndications template);
          needCustomChains = list_ex (\<lambda>i. bit activeChains i \<and>
            (length (ChainDiffs f) \<le> i \<or> length (ChainDiffs template) \<le> i \<or> ChainDiffs f ! i \<noteq> ChainDiffs template ! i))
            [0..<NumChains s];
          extra = (if needCustomFdiffs
            then 2 * (1 + length (FrameDiffs f)) + sum_list (map fdiffExtraBits (FrameDiffs f)) else 0);
          extra = (if needCustomDtis then extra + 2 * length (DecodeTargetIndications f) else extra);
          extra = (if needCustomChains then extra + 8 * NumChains s else extra)
      in \<lparr>TemplateIdx = idx, NeedCustomDtis = needCustomDtis, NeedCustomFdiffs = needCustomFdiffs,
          NeedCustomChains = needCustomChains, ExtraSizeBits = extra\<rparr>)"

definition sameLayerAs :: "FrameDependencyTemplate \<Rightarrow> FrameDependencyTemplate \<Rightarrow> bool" where
  "sameLayerAs f t \<longleftrightarrow> SpatialId f = SpatialId t \<and> TemporalId f = TemporalId t"

primrec firstSameLayerFrom :: "FrameDependencyTemplate \<Rightarrow> nat \<Rightarrow> FrameDependencyTemplate list \<Rightarrow> nat option" where
  "firstSameLayerFrom f i [] = None"
| "firstSameLayerFrom f i (t # ts) = (if sameLayerAs f t then Some i else firstSameLayerFrom f (i + 1) ts)"

primrec lastSameLayerFrom :: "FrameDependencyTemplate \<Rightarrow> nat \<Rightarrow> nat \<Rightarrow> FrameDependencyTemplate list \<Rightarrow> nat" where
  "lastSameLayerFrom f lastIdx i [] = lastIdx"
| "lastSameLayerFrom f lastIdx i (t # ts) =
     lastSameLayerFrom f (if SpatialId f \<noteq> SpatialId t \<or> TemporalId f \<noteq> TemporalId t then i else lastIdx) (i + 1) ts"

definition findBestTemplate ::
  "FrameDependencyTemplate \<Rightarrow> FrameDependencyStructure \<Rightarrow> u32 \<Rightarrow> ddErr + TemplateMatch" where
  "findBestTemplate f s activeChains =
     (case firstSameLayerFrom f 0 (Templates s) of
        None \<Rightarrow> Inl errNoTemplateFound
      | Some firstSameLayerIdx \<Rightarrow>
        let lastSameLayerIdx = lastSameLayerFrom f 0 firstSameLayerIdx (drop firstSameLayerIdx (Templates s)) in
        Inr (foldl (\<lambda>best i.
              let match = calculateMatch f s activeChains i (Templates s ! i)
              in if ExtraSizeBits match < ExtraSizeBits best then match else best)
            (calculateMatch f s activeChains firstSameLayerIdx (Templates s ! firstSameLayerIdx))
            [firstSameLayerIdx + 1..<lastSameLayerIdx + 1]))"

definition hasExtendedFields :: "DependencyDescriptorWriter \<Rightarrow> bool" where
  "hasExtendedFields w \<longleftrightarrow> ExtraSizeBits (wr_bestTemplate w) > 0 \<or>
     AttachedStructure (wr_descriptor w) \<noteq> None \<or> ActiveDecodeTargetsBitmask (wr_descriptor w) \<noteq> None"

definition shouldWriteActiveDecodeTargetsBitmask :: "DependencyDescriptorWriter \<Rightarrow> bool" where
  "shouldWriteActiveDecodeTargetsBitmask w =
     (case ActiveDecodeTargetsBitmask (wr_descriptor w) of
        None \<Rightarrow> False
      | Some mask' \<Rightarrow>
        let allDecodeTargetsBitmask = push_bit (NumDecodeTargets (wr_structure w)) 1 - 1 :: u64 in
        \<not> (AttachedStructure (wr_descriptor w) \<noteq> None \<and> ucast mask' = allDecodeTargetsBitmask))"

definition structureSizeBits :: "FrameDependencyStructure \<Rightarrow> int" where
  "structureSizeBits s =
     11 + int (2 * length (Templates s)) + int (2 * length (Templates s) * NumDecodeTargets s) +
     int (length (Templates s)) + (\<Sum>t\<leftarrow>Templates s. 5 * int (length (FrameDiffs t))) +
     SizeNonSymmetricBits (of_nat (NumChains s)) (of_nat (NumDecodeTargets s + 1)) +
     (if NumChains s > 0
      then (\<Sum>p\<leftarrow>DecodeTargetProtectedByChain s. SizeNonSymmetricBits (of_nat p) (of_nat (NumChains s))) +
           int (4 * length (Templates s) * NumChains s)
      else 0) +
     (1 + 32 * int (length (Resolutions s)))"

definition mandatoryFieldSize :: int where
  "mandatoryFieldSize = 1 + 1 + 6 + 16"

definition ValueSizeBits :: "DependencyDescriptorWriter \<Rightarrow> int" where
  "ValueSizeBits w =
     mandatoryFieldSize + int (ExtraSizeBits (wr_bestTemplate w)) +
     (if hasExtendedFields w then
        5 + (if AttachedStructure (wr_descriptor w) \<noteq> None then structureSizeBits (wr_structure w) else 0) +
        (if shouldWriteActiveDecodeTargetsBitmask w then int (NumDecodeTargets (wr_structure w)) else 0)
      else 0)"

text \<open>Emitters: a write either fails or gives the advanced bit stream.\<close>

type_synonym emitter = "BitStreamWriter \<Rightarrow> ddErr + BitStreamWriter"

definition skipE :: emitter where
  "skipE w = Inr w"

definition thenE :: "emitter \<Rightarrow> emitter \<Rightarrow> emitter" where
  "thenE m k w = bindR (m w) k"

primrec eachE :: "('a \<Rightarrow> emitter) \<Rightarrow> 'a list \<Rightarrow> emitter" where
  "eachE f [] = skipE"
| "eachE f (x # xs) = thenE (f x) (eachE f xs)"

definition writeBits :: "u64 \<Rightarrow> nat \<Rightarrow> emitter" where
  "writeBits val bitCount w = map_sum bitErr id (WriteBits w val bitCount)"

definition writeBool :: "bool \<Rightarrow> emitter" where
  "writeBool val = writeBits (if val then 1 else 0) 1"

definition writeNonSymmetric :: "u32 \<Rightarrow> u32 \<Rightarrow> emitter" where
  "writeNonSymmetric val numValues w = map_sum bitErr id (WriteNonSymmetric w val numValues)"

definition writeMandatoryFields :: "DependencyDescriptorWriter \<Rightarrow> emitter" where
  "writeMandatoryFields w =
     thenE (writeBool (FirstPacketInFrame (wr_descriptor w)))
    (thenE (writeBool (LastPacketInFrame (wr_descriptor w)))
    (thenE (writeBits (of_nat ((TemplateIdx (wr_bestTemplate w) + StructureId (wr_structure w)) mod MaxTemplates)) 6)
           (writeBits (ucast (FrameNumber (wr_descriptor w))) 16)))"

definition getNextLayerIdc :: "FrameDependencyTemplate \<Rightarrow> FrameDependencyTemplate \<Rightarrow> nat" where
  "getNextLayerIdc prevTemplate nextTemplate =
     (if SpatialId nextTemplate = SpatialId prevTemplate \<and> TemporalId nextTemplate = TemporalId prevTemplate then sameLayer
      else if SpatialId nextTemplate = SpatialId prevTemplate \<and> TemporalId nextTemplate = TemporalId prevTemplate + 1 then nextTemporalLayer
      else if SpatialId nextTemplate = SpatialId prevTemplate + 1 \<and> TemporalId nextTemplate = 0 then nextSpatialLayer
      else invalidLayer)"

fun writeNextLayers :: "FrameDependencyTemplate list \<Rightarrow> emitter" where
  "writeNextLayers (p # t # ts) =
     (let nextLayerIdc = getNextLayerIdc p t in
      if nextLayerIdc \<ge> 3 then (\<lambda>w. Inl errInvalidNextLayerIdc)
      else thenE (writeBits (of_nat nextLayerIdc) 2) (writeNextLayers (t # ts)))"
| "writeNextLayers ts = writeBits (of_nat noMoreLayer) 2"

definition writeTemplateLayers :: "FrameDependencyStructure \<Rightarrow> emitter" where
  "writeTemplateLayers s w =
     (if Templates s = [] then Inl ddPanic
      else if \<not> (length (Templates s) \<le> MaxTemplates \<and> SpatialId (hd (Templates s)) = 0 \<and> TemporalId (hd (Templates s)) = 0)
      then Inl errInvalidTemplates
      else writeNextLayers (Templates s) w)"

definition writeDtis :: "DecodeTargetIndication list \<Rightarrow> emitter" where
  "writeDtis = eachE (\<lambda>dti. writeBits (dtiVal dti) 2)"

definition writeTemplateDtis :: "FrameDependencyStructure \<Rightarrow> emitter" where
  "writeTemplateDtis s = eachE (\<lambda>t. writeDtis (DecodeTargetIndications t)) (Templates s)"

definition writeTemplateFdiffs :: "FrameDependencyStructure \<Rightarrow> emitter" where
  "writeTemplateFdiffs s =
     eachE (\<lambda>t. thenE (eachE (\<lambda>fdiff. writeBits (push_bit 4 1 OR word_of_int (fdiff - 1)) (1 + 4)) (FrameDiffs t))
                       (writeBits 0 1)) (Templates s)"

definition writeTemplateChains :: "FrameDependencyStructure \<Rightarrow> emitter" where
  "writeTemplateChains s =
     thenE (writeNonSymmetric (of_nat (NumChains s)) (of_nat (NumDecodeTargets s + 1)))
       (if NumChains s = 0 then skipE
        else thenE (eachE (\<lambda>protectedBy. writeNonSymmetric (of_nat protectedBy) (of_nat (NumChains s)))
                     (DecodeTargetProtectedByChain s))
                   (eachE (\<lambda>t. eachE (\<lambda>chainDiff. writeBits (word_of_int chainDiff) 4) (ChainDiffs t)) (Templates s)))"

definition writeResolutions :: "FrameDependencyStructure \<Rightarrow> emitter" where
  "writeResolutions s =
     eachE (\<lambda>res. thenE (writeBits (of_nat (Width res) - 1) 16) (writeBits (of_nat (Height res) - 1) 16)) (Resolutions s)"

definition writeTemplateDependencyStructure :: "FrameDependencyStructure \<Rightarrow> emitter" where
  "writeTemplateDependencyStructure s =
     (if \<not> (StructureId s < MaxTemplates \<and> NumDecodeTargets s > 0 \<and> NumDecodeTargets s \<le> MaxDecodeTargets)
      then (\<lambda>w. Inl errInvalidStructure)
      else
        thenE (writeBits (of_nat (StructureId s)) 6)
       (thenE (writeBits (of_nat (NumDecodeTargets s - 1)) 5)
       (thenE (writeTemplateLayers s)
       (thenE (writeTemplateDtis s)
       (thenE (writeTemplateFdiffs s)
       (thenE (writeTemplateChains s)
       (thenE (writeBool (Resolutions s \<noteq> []))
              (writeResolutions s))))))))"

definition writeExtendedFields :: "DependencyDescriptorWriter \<Rightarrow> emitter" where
  "writeExtendedFields w =
     (let activeDecodeTargetsPresentFlag = shouldWriteActiveDecodeTargetsBitmask w in
      thenE (writeBool (AttachedStructure (wr_descriptor w) \<noteq> None))
     (thenE (writeBool activeDecodeTargetsPresentFlag)
     (thenE (writeBool (NeedCustomDtis (wr_bestTemplate w)))
     (thenE (writeBool (NeedCustomFdiffs (wr_bestTemplate w)))
     (thenE (writeBool (NeedCustomChains (wr_bestTemplate w)))
     (thenE (if AttachedStructure (wr_descriptor w) \<noteq> None
             then writeTemplateDependencyStructure (wr_structure w) else skipE)
            (if activeDecodeTargetsPresentFlag
             then writeBits (ucast (the (ActiveDecodeTargetsBitmask (wr_descriptor w)))) (NumDecodeTargets (wr_structure w))
             else skipE)))))))"

definition writeFrameDtis :: "FrameDependencyTemplate \<Rightarrow> emitter" where
  "writeFrameDtis f = writeDtis (DecodeTargetIndications f)"

definition writeFrameFdiffs :: "FrameDependencyTemplate \<Rightarrow> emitter" where
  "writeFrameFdiffs f =
     thenE (eachE (\<lambda>fdiff.
         if fdiff \<le> 2 ^ 4 then writeBits (push_bit 4 1 OR word_of_int (fdiff - 1)) (2 + 4)
         else if fdiff \<le> 2 ^ 8 then writeBits (push_bit 8 2 OR word_of_int (fdiff - 1)) (2 + 8)
         else writeBits (push_bit 12 3 OR word_of_int (fdiff - 1)) (2 + 12)) (FrameDiffs f))
       (writeBits 0 2)"

definition writeFrameChains :: "DependencyDescriptorWriter \<Rightarrow> emitter" where
  "writeFrameChains w =
     eachE (\<lambda>i.
         if bit (wr_activeChains w) i then
           if i < length (ChainDiffs (wr_frame w)) then writeBits (word_of_int (ChainDiffs (wr_frame w) ! i)) 8
           else (\<lambda>b. Inl ddPanic)
         else writeBits 0 8) [0..<NumChains (wr_structure w)]"

definition writeFrameDependencyDefinition :: "DependencyDescriptorWriter \<Rightarrow> emitter" where
  "writeFrameDependencyDefinition w =
     thenE (if NeedCustomDtis (wr_bestTemplate w) then writeFrameDtis (wr_frame w) else skipE)
    (thenE (if NeedCustomFdiffs (wr_bestTemplate w) then writeFrameFdiffs (wr_frame w) else skipE)
           (if NeedCustomChains (wr_bestTemplate w) then writeFrameChains w else skipE))"

definition writePadding :: emitter where
  "writePadding b =
     (let remainingBits = nat (bw_RemainingBits b) in
      thenE (if remainingBits mod 64 \<noteq> 0 then writeBits 0 (remainingBits mod 64) else skipE)
            (eachE (\<lambda>i. writeBits 0 64) [0..<remainingBits div 64]) b)"

definition Write :: "DependencyDescriptorWriter \<Rightarrow> emitter" where
  "Write w b =
     bindR (findBestTemplate (wr_frame w) (wr_structure w) (wr_activeChains w)) (\<lambda>best.
       let w = w\<lparr>wr_bestTemplate := best\<rparr> in
       thenE (writeMandatoryFields w)
      (thenE (if hasExtendedFields w then thenE (writeExtendedFields w) (writeFrameDependencyDefinition w) else skipE)
             writePadding) b)"

definition NewDependencyDescriptorWriter ::
  "FrameDependencyStructure option \<Rightarrow> u32 \<Rightarrow> DependencyDescriptor \<Rightarrow> ddErr + DependencyDescriptorWriter" where
  "NewDependencyDescriptorWriter structure activeChains descriptor =
     (case (structure, FrameDependencies descriptor) of
        (Some s, Some f) \<Rightarrow>
          bindR (findBestTemplate f s activeChains) (\<lambda>best.
            Inr \<lparr>wr_descriptor = descriptor, wr_frame = f, wr_structure = s, wr_activeChains = activeChains,
                 wr_bestTemplate = best\<rparr>)
      | _ \<Rightarrow> Inl ddPanic)"

text \<open>\<open>int(math.Ceil(float64(n) / 8))\<close>; the sizes are far below the integers a \<open>float64\<close> holds exactly.\<close>

definition bytesFor :: "int \<Rightarrow> nat" where
  "bytesFor n = nat ((n + 7) div 8)"

definition MarshalWithActiveChains ::
  "FrameDependencyStructure option \<Rightarrow> DependencyDescriptor \<Rightarrow> u32 \<Rightarrow> ddErr + bytes" where
  "MarshalWithActiveChains structure descriptor activeChains =
     bindR (NewDependencyDescriptorWriter structure activeChains descriptor) (\<lambda>writer.
       bindR (Write writer (NewBitStreamWriter (replicate (bytesFor (ValueSizeBits writer)) 0))) (\<lambda>b.
         Inr (bw_buf b)))"

definition Marshal :: "FrameDependencyStructure option \<Rightarrow> DependencyDescriptor \<Rightarrow> ddErr + bytes" where
  "Marshal structure descriptor = MarshalWithActiveChains structure descriptor (NOT 0)"

definition MarshalSizeWithActiveChains :: "DependencyDescriptor \<Rightarrow> u32 \<Rightarrow> ddErr + nat" where
  "MarshalSizeWithActiveChains d activeChains =
     bindR (NewDependencyDescriptorWriter (AttachedStructure d) activeChains d) (\<lambda>writer.
       Inr (bytesFor (ValueSizeBits writer)))"

definition MarshalSize :: "DependencyDescriptor \<Rightarrow> ddErr + nat" where
  "MarshalSize d = MarshalSizeWithActiveChains d (NOT 0)"

end
