(* ===== verification/DD_Selector.thy ===== *)
theory DD_Selector
  imports Frame_Chains Layer_Selector Dependency_Descriptor
begin

text \<open>
  \<^verbatim>\<open>pkg/sfu/videolayerselector/dependencydescriptor.go\<close>, \<^verbatim>\<open>decodetarget.go\<close> and
  \<^verbatim>\<open>framenumberwrapper.go\<close>: the selector for codecs with a dependency descriptor. It owns the decision cache and the
  frame chains; decode targets point to chains by their identity in the store. A nil dereference or an index out of range of
  the Go code is the value \<open>Inl ddsPanic\<close>.
\<close>

section \<open>Model\<close>

datatype ddsErr = ddsPanic

subsection \<open>Frame numbers\<close>

record FrameNumberWrapper =
  fw_offset :: u64
  fw_last :: u64
  fw_inited :: bool

definition fw_UpdateAndGet :: "u64 \<Rightarrow> bool \<Rightarrow> FrameNumberWrapper \<Rightarrow> FrameNumberWrapper \<times> u64" where
  "fw_UpdateAndGet new updateOffset f =
     (if \<not> fw_inited f then (f\<lparr>fw_last := new, fw_inited := True\<rparr>, new)
      else if new \<le> fw_last f then (f, new + fw_offset f)
      else
        let f = (if updateOffset then
                   let new16 = (ucast (new + fw_offset f) :: u16);
                       last16 = ucast (fw_last f + fw_offset f);
                       diff = new16 - last16
                   in if diff > 0x8000 \<or> (diff = 0x8000 \<and> new16 < last16)
                      then f\<lparr>fw_offset := fw_offset f + ucast (65535 - diff + 6000)\<rparr> else f
                 else f)
        in (f\<lparr>fw_last := new\<rparr>, new + fw_offset f))"

subsection \<open>Decode targets\<close>

record DecodeTarget =
  tg_target :: DependencyDescriptorDecodeTarget
  tg_chain :: "chainId option"
  tg_active :: bool

definition NewDecodeTarget :: "DependencyDescriptorDecodeTarget \<Rightarrow> chainId option \<Rightarrow> DecodeTarget" where
  "NewDecodeTarget target chain = \<lparr>tg_target = target, tg_chain = chain, tg_active = False\<rparr>"

definition dt_Valid :: "FrameChain list \<Rightarrow> DecodeTarget \<Rightarrow> bool" where
  "dt_Valid store dt \<longleftrightarrow> (case tg_chain dt of None \<Rightarrow> True | Some c \<Rightarrow> \<not> fch_broken (store ! c))"

definition dt_UpdateActive :: "u32 \<Rightarrow> FrameChain list \<Rightarrow> DecodeTarget \<Rightarrow> FrameChain list \<times> DecodeTarget" where
  "dt_UpdateActive activeBitmask store dt =
     (let active = (activeBitmask AND push_bit (dt_Target (tg_target dt)) 1 \<noteq> 0);
          dt = dt\<lparr>tg_active := active\<rparr>
      in (case tg_chain dt of None \<Rightarrow> store | Some c \<Rightarrow> store[c := chain_UpdateActive active (store ! c)], dt))"

text \<open>The indication of the frame for the target and whether the target is valid; \<open>None\<close> is the error of a too short list.\<close>

definition dt_OnFrame :: "FrameChain list \<Rightarrow> FrameDependencyTemplate \<Rightarrow> DecodeTarget \<Rightarrow> (bool \<times> DecodeTargetIndication) option" where
  "dt_OnFrame store fd dt =
     (if length (DecodeTargetIndications fd) \<le> dt_Target (tg_target dt) then None
      else Some (dt_Valid store dt, DecodeTargetIndications fd ! dt_Target (tg_target dt)))"

text \<open>From \<^verbatim>\<open>pkg/sfu/buffer/dependencydescriptorparser.go\<close>.\<close>

definition GetActiveDecodeTargetBitmask :: "VideoLayer \<Rightarrow> DependencyDescriptorDecodeTarget list \<Rightarrow> u32" where
  "GetActiveDecodeTargetBitmask layer decodeTargets =
     foldl (\<lambda>m dt. if Spatial (dt_Layer dt) \<le> Spatial layer \<and> Temporal (dt_Layer dt) \<le> Temporal layer
               then m OR push_bit (dt_Target dt) 1 else m) 0 decodeTargets"

subsection \<open>Selector\<close>

abbreviation (input) decisionCacheMaxElements :: u64 where "decisionCacheMaxElements \<equiv> 256"
abbreviation (input) decisionCacheNackEntries :: u64 where "decisionCacheNackEntries \<equiv> 80"

record DDSelector =
  ds_base :: SelBase
  ds_decisions :: SelectorDecisionCache
  ds_store :: "FrameChain list"
  ds_previousActiveBitmask :: "u32 option"
  ds_activeBitmask :: "u32 option"
  ds_structure :: "FrameDependencyStructure option"
  ds_extKeyFrameNum :: u64
  ds_keyFrameValid :: bool
  ds_chains :: "chainId list"
  ds_decodeTargets :: "DecodeTarget list"
  ds_fnWrapper :: FrameNumberWrapper
  ds_restartGeneration :: int

definition NewDependencyDescriptor :: DDSelector where
  "NewDependencyDescriptor =
     \<lparr>ds_base = NewBase, ds_decisions = NewSelectorDecisionCache decisionCacheMaxElements decisionCacheNackEntries, ds_store = [],
      ds_previousActiveBitmask = None, ds_activeBitmask = None, ds_structure = None, ds_extKeyFrameNum = 0,
      ds_keyFrameValid = False, ds_chains = [], ds_decodeTargets = [],
      ds_fnWrapper = \<lparr>fw_offset = 0, fw_last = 0, fw_inited = False\<rparr>, ds_restartGeneration = 0\<rparr>"

definition onDecisions :: "(decisions \<Rightarrow> decisions) \<Rightarrow> DDSelector \<Rightarrow> DDSelector" where
  "onDecisions f d = (case f (ds_decisions d, ds_store d) of (c, store) \<Rightarrow> d\<lparr>ds_decisions := c, ds_store := store\<rparr>)"

definition dds_Rollback :: "DDSelector \<Rightarrow> DDSelector" where
  "dds_Rollback d = d\<lparr>ds_activeBitmask := ds_previousActiveBitmask d, ds_base := Rollback (ds_base d)\<rparr>"

definition invalidateKeyFrame :: "DDSelector \<Rightarrow> DDSelector" where
  "invalidateKeyFrame d = d\<lparr>ds_keyFrameValid := False, ds_chains := [], ds_decodeTargets := []\<rparr>"

definition dds_restart :: "int \<Rightarrow> DDSelector \<Rightarrow> DDSelector" where
  "dds_restart generation d =
     (invalidateKeyFrame (d\<lparr>ds_restartGeneration := generation\<rparr>))
       \<lparr>ds_decisions := NewSelectorDecisionCache decisionCacheMaxElements decisionCacheNackEntries\<rparr>"

text \<open>The new chains are allocated at the end of the store. A protecting chain out of range is logged and left out.\<close>

definition newTarget :: "FrameDependencyStructure \<Rightarrow> chainId list \<Rightarrow> DependencyDescriptorDecodeTarget \<Rightarrow> ddsErr + DecodeTarget" where
  "newTarget structure cs dt =
     (if NumChains structure > 0 then
        if length (DecodeTargetProtectedByChain structure) \<le> dt_Target dt then Inl ddsPanic
        else
          let chainIdx = DecodeTargetProtectedByChain structure ! dt_Target dt
          in Inr (NewDecodeTarget dt (if chainIdx \<ge> length cs then None else Some (cs ! chainIdx)))
      else Inr (NewDecodeTarget dt None))"

fun newTargets :: "FrameDependencyStructure \<Rightarrow> chainId list \<Rightarrow> DependencyDescriptorDecodeTarget list \<Rightarrow> ddsErr + DecodeTarget list" where
  "newTargets structure cs [] = Inr []"
| "newTargets structure cs (dt # dts) =
     bindR (newTarget structure cs dt) (\<lambda>t. bindR (newTargets structure cs dts) (\<lambda>ts. Inr (t # ts)))"

definition updateDependencyStructure ::
  "FrameDependencyStructure \<Rightarrow> DependencyDescriptorDecodeTarget list \<Rightarrow> u64 \<Rightarrow> DDSelector \<Rightarrow> ddsErr + DDSelector" where
  "updateDependencyStructure structure decodeTargets extFrameNum d =
     (let n = length (ds_store d);
          d = d\<lparr>ds_structure := Some structure, ds_extKeyFrameNum := extFrameNum, ds_keyFrameValid := True,
                ds_store := ds_store d @ map NewFrameChain [0..<NumChains structure],
                ds_chains := [n..<n + NumChains structure]\<rparr>
      in bindR (newTargets structure (ds_chains d) decodeTargets) (\<lambda>ts. Inr (d\<lparr>ds_decodeTargets := ts\<rparr>)))"

fun updateTargets :: "u32 \<Rightarrow> FrameChain list \<Rightarrow> DecodeTarget list \<Rightarrow> FrameChain list \<times> DecodeTarget list" where
  "updateTargets bitmask store [] = (store, [])"
| "updateTargets bitmask store (dt # dts) =
     (let (store, dt) = dt_UpdateActive bitmask store dt; (store, dts) = updateTargets bitmask store dts in (store, dt # dts))"

definition onChains :: "(FrameChain \<Rightarrow> FrameChain) \<Rightarrow> chainId list \<Rightarrow> FrameChain list \<Rightarrow> FrameChain list" where
  "onChains f cs store = fold (\<lambda>c store. store[c := f (store ! c)]) cs store"

definition updateActiveDecodeTargets :: "u32 \<Rightarrow> DDSelector \<Rightarrow> DDSelector" where
  "updateActiveDecodeTargets bitmask d =
     (let store = onChains BeginUpdateActive (ds_chains d) (ds_store d);
          (store, dts) = updateTargets bitmask store (ds_decodeTargets d);
          store = onChains EndUpdateActive (ds_chains d) store
      in d\<lparr>ds_store := store, ds_decodeTargets := dts\<rparr>)"

definition dds_CheckSync :: "DDSelector \<Rightarrow> bool \<times> int" where
  "dds_CheckSync d =
     (let layer = requestSpatial (ds_base d) in
      if \<not> layer_IsValid (currentLayer (ds_base d)) \<or> \<not> ds_keyFrameValid d then (False, layer)
      else (\<exists>dt \<in> set (ds_decodeTargets d). tg_active dt \<and> Spatial (dt_Layer (tg_target dt)) = layer \<and> dt_Valid (ds_store d) dt, layer))"

subsection \<open>Select\<close>

text \<open>
  The highest valid target: \<open>None\<close> is the error of a target without indication, \<open>Some None\<close> that no target qualifies.
\<close>

fun findTarget :: "VideoLayer \<Rightarrow> FrameChain list \<Rightarrow> FrameDependencyTemplate \<Rightarrow> DecodeTarget list \<Rightarrow>
    (DependencyDescriptorDecodeTarget \<times> DecodeTargetIndication) option option" where
  "findTarget target store fd [] = Some None"
| "findTarget target store fd (dt # dts) =
     (if \<not> tg_active dt \<or> Spatial (dt_Layer (tg_target dt)) > Spatial target \<or> Temporal (dt_Layer (tg_target dt)) > Temporal target
      then findTarget target store fd dts
      else case dt_OnFrame store fd dt of
          None \<Rightarrow> None
        | Some (valid, dti) \<Rightarrow> if valid then Some (Some (tg_target dt, dti)) else findTarget target store fd dts)"

definition isDecodable :: "SelectorDecisionCache \<Rightarrow> u64 \<Rightarrow> FrameDependencyTemplate \<Rightarrow> bool" where
  "isDecodable s extFrameNum fd \<longleftrightarrow>
     (\<forall>fdiff \<in> set (FrameDiffs fd). fdiff = 0 \<or> fst (GetDecision s (extFrameNum - of_int fdiff)) \<noteq> selectorDecisionDropped)"

text \<open>A new structure and new active decode targets, where the packet carries them.\<close>

definition applyStructure :: "ExtDependencyDescriptor \<Rightarrow> DDSelector \<Rightarrow> ddsErr + DDSelector" where
  "applyStructure ddwdt d =
     (if edd_StructureUpdated ddwdt then
        case AttachedStructure (edd_Descriptor ddwdt) of
          None \<Rightarrow> Inl ddsPanic
        | Some st \<Rightarrow> updateDependencyStructure st (edd_DecodeTargets ddwdt) (edd_ExtFrameNum ddwdt) d
      else Inr d)"

definition applyActive :: "ExtDependencyDescriptor \<Rightarrow> DDSelector \<Rightarrow> ddsErr + DDSelector" where
  "applyActive ddwdt d =
     (if edd_ActiveDecodeTargetsUpdated ddwdt then
        case ActiveDecodeTargetsBitmask (edd_Descriptor ddwdt) of
          None \<Rightarrow> Inl ddsPanic
        | Some bitmask \<Rightarrow> Inr (updateActiveDecodeTargets bitmask d)
      else Inr d)"

text \<open>
  The first part of \<open>Select\<close>, up to the frame chains: \<open>Inr (d, None)\<close> is an early return, \<open>Inr (d, Some (x, fd))\<close> goes on.
\<close>

definition selectPrepare :: "ExtPacket \<Rightarrow> DDSelector \<Rightarrow> ddsErr + DDSelector \<times> (ExtDependencyDescriptor \<times> FrameDependencyTemplate) option" where
  "selectPrepare extPkt d =
     (case ep_DependencyDescriptor extPkt of
        None \<Rightarrow> Inr (d, None)
      | Some ddwdt \<Rightarrow>
        let d = (if edd_RestartGeneration ddwdt > ds_restartGeneration d then dds_restart (edd_RestartGeneration ddwdt) d else d);
            ddv = edd_Descriptor ddwdt;
            extFrameNum = edd_ExtFrameNum ddwdt in
        case FrameDependencies ddv of
          None \<Rightarrow> Inl ddsPanic
        | Some fd \<Rightarrow>
          if \<not> ds_keyFrameValid d \<and> AttachedStructure ddv = None then Inr (d, None)
          else if snd (GetDecision (ds_decisions d) extFrameNum) then Inr (d, None)
          else if fst (GetDecision (ds_decisions d) extFrameNum) = selectorDecisionDropped then Inr (d, None)
          else
            bindR (applyStructure ddwdt d) (\<lambda>d.
            if edd_ExtKeyFrameNum ddwdt \<noteq> ds_extKeyFrameNum d
            then Inr (invalidateKeyFrame (onDecisions (AddDropped extFrameNum) d), None)
            else
              bindR (applyActive ddwdt d) (\<lambda>d.
              if length (ChainDiffs fd) \<noteq> length (ds_chains d)
              then Inr (onDecisions (AddDropped extFrameNum) d, None)
              else Inr (onDecisions (fold (\<lambda>c ds. fst (chain_OnFrame c extFrameNum fd ds)) (ds_chains d)) d, Some (ddwdt, fd)))))"

text \<open>The switch to the layer of the chosen target.\<close>

definition selectSwitch :: "VideoLayer \<Rightarrow> ExtDependencyDescriptor \<Rightarrow> DDSelector \<times> VideoLayerSelectorResult \<Rightarrow> DDSelector \<times> VideoLayerSelectorResult" where
  "selectSwitch layer ddwdt = (\<lambda>(d, result).
     if currentLayer (ds_base d) \<noteq> layer then
       (d\<lparr>ds_base := (ds_base d)\<lparr>previousLayer := currentLayer (ds_base d), currentLayer := layer\<rparr>,
          ds_previousActiveBitmask := ds_activeBitmask d,
          ds_activeBitmask := Some (GetActiveDecodeTargetBitmask layer (edd_DecodeTargets ddwdt))\<rparr>,
        result\<lparr>IsSwitching := True, IsResuming := \<not> layer_IsValid (currentLayer (ds_base d)), IsRelevant := True\<rparr>)
     else (d, result))"

text \<open>The descriptor that is sent: the frame number is rewritten and the active decode targets are set.\<close>

definition outgoingDescriptor :: "DependencyDescriptor \<Rightarrow> u16 \<Rightarrow> u32 option \<Rightarrow> DependencyDescriptor" where
  "outgoingDescriptor ddv unWrapFn activeBitmask =
     (let ddv = ddv\<lparr>FrameNumber := unWrapFn\<rparr>
      in if AttachedStructure ddv = None \<and> activeBitmask \<noteq> None then ddv\<lparr>ActiveDecodeTargetsBitmask := activeBitmask\<rparr> else ddv)"

definition selectForward :: "ExtPacket \<Rightarrow> ExtDependencyDescriptor \<Rightarrow> FrameDependencyTemplate \<Rightarrow> VideoLayer \<Rightarrow>
    DDSelector \<times> VideoLayerSelectorResult \<Rightarrow> DDSelector \<times> VideoLayerSelectorResult" where
  "selectForward extPkt ddwdt fd layer dr =
     (let (d, result) = selectSwitch layer ddwdt dr;
          ddv = edd_Descriptor ddwdt;
          extFrameNum = edd_ExtFrameNum ddwdt;
          (fw, fn) = fw_UpdateAndGet extFrameNum (edd_StructureUpdated ddwdt) (ds_fnWrapper d);
          d = d\<lparr>ds_fnWrapper := fw\<rparr> in
      case Marshal (ds_structure d) (outgoingDescriptor ddv (ucast fn) (ds_activeBitmask d)) of
        Inl _ \<Rightarrow> (onDecisions (AddDropped extFrameNum) d, result)
      | Inr bytes \<Rightarrow>
        (if edd_Integrity ddwdt then onDecisions (AddForwarded extFrameNum) d else d,
         result\<lparr>DependencyDescriptorExtension := bytes,
           RTPMarker := rtp_Marker (ep_Packet extPkt) \<or>
             (LastPacketInFrame ddv \<and> Spatial (currentLayer (ds_base d)) = int (SpatialId fd)),
           IsSelected := True\<rparr>))"

definition dds_Select :: "ExtPacket \<Rightarrow> DDSelector \<Rightarrow> ddsErr + DDSelector \<times> VideoLayerSelectorResult" where
  "dds_Select extPkt d =
     (let result = noResult\<lparr>IsRelevant := layer_IsValid (currentLayer (ds_base d))\<rparr> in
      bindR (selectPrepare extPkt d) (\<lambda>(d, go).
        case go of
          None \<Rightarrow> Inr (d, result)
        | Some (ddwdt, fd) \<Rightarrow>
          let extFrameNum = edd_ExtFrameNum ddwdt;
              dropped = Inr (onDecisions (AddDropped extFrameNum) d, result) in
          case findTarget (targetLayer (ds_base d)) (ds_store d) fd (ds_decodeTargets d) of
            None \<Rightarrow> dropped
          | Some None \<Rightarrow> dropped
          | Some (Some (dt, dti)) \<Rightarrow>
            if dti = DecodeTargetNotPresent then dropped
            else if \<not> isDecodable (ds_decisions d) extFrameNum fd then dropped
            else Inr (selectForward extPkt ddwdt fd (dt_Layer dt) (d, result))))"

section \<open>Lemmas\<close>

lemma onDecisions_sel [simp]:
  "ds_base (onDecisions f d) = ds_base d" "ds_chains (onDecisions f d) = ds_chains d"
  "ds_decodeTargets (onDecisions f d) = ds_decodeTargets d" "ds_structure (onDecisions f d) = ds_structure d"
  "ds_extKeyFrameNum (onDecisions f d) = ds_extKeyFrameNum d" "ds_keyFrameValid (onDecisions f d) = ds_keyFrameValid d"
  "ds_fnWrapper (onDecisions f d) = ds_fnWrapper d" "ds_restartGeneration (onDecisions f d) = ds_restartGeneration d"
  "ds_activeBitmask (onDecisions f d) = ds_activeBitmask d"
  "ds_decisions (onDecisions f d) = fst (f (ds_decisions d, ds_store d))" "ds_store (onDecisions f d) = snd (f (ds_decisions d, ds_store d))"
  by (simp_all add: onDecisions_def case_prod_beta)

text \<open>The chosen target is the first one that is active, within the target layer and valid.\<close>

definition eligible :: "VideoLayer \<Rightarrow> DecodeTarget \<Rightarrow> bool" where
  "eligible target dt \<longleftrightarrow> tg_active dt \<and> Spatial (dt_Layer (tg_target dt)) \<le> Spatial target \<and> Temporal (dt_Layer (tg_target dt)) \<le> Temporal target"

lemma findTarget_Some:
  assumes "findTarget target store fd dts = Some (Some (t, dti))"
  shows "\<exists>before dt after. dts = before @ dt # after \<and> tg_target dt = t \<and> eligible target dt \<and> dt_Valid store dt \<and>
    dt_Target t < length (DecodeTargetIndications fd) \<and> dti = DecodeTargetIndications fd ! dt_Target t \<and>
    (\<forall>x \<in> set before. eligible target x \<longrightarrow> \<not> dt_Valid store x)"
  using assms
proof (induction dts)
  case (Cons x dts)
  show ?case
  proof (cases "eligible target x \<and> dt_Valid store x")
    case True
    then show ?thesis using Cons.prems
      by (intro exI [of _ "[]"] exI [of _ x] exI [of _ dts])
        (auto simp: eligible_def dt_OnFrame_def split: if_splits option.splits prod.splits)
  next
    case False
    then have "findTarget target store fd dts = Some (Some (t, dti))"
      using Cons.prems by (auto simp: eligible_def dt_OnFrame_def split: if_splits option.splits prod.splits)
    from Cons.IH [OF this] obtain before dt after where "dts = before @ dt # after"
      "tg_target dt = t \<and> eligible target dt \<and> dt_Valid store dt \<and>
        dt_Target t < length (DecodeTargetIndications fd) \<and> dti = DecodeTargetIndications fd ! dt_Target t \<and>
        (\<forall>x \<in> set before. eligible target x \<longrightarrow> \<not> dt_Valid store x)" by blast
    then show ?thesis using False by (intro exI [of _ "x # before"] exI [of _ dt] exI [of _ after]) auto
  qed
qed simp

lemma selectSwitch_layer:
  "currentLayer (ds_base (fst (selectSwitch layer ddwdt (d, r)))) = layer"
  "targetLayer (ds_base (fst (selectSwitch layer ddwdt (d, r)))) = targetLayer (ds_base d)"
  "ds_decisions (fst (selectSwitch layer ddwdt (d, r))) = ds_decisions d"
  "IsSelected (snd (selectSwitch layer ddwdt (d, r))) = IsSelected r"
  by (simp_all add: selectSwitch_def)

lemma selectForward_layer:
  "currentLayer (ds_base (fst (selectForward p ddwdt fd layer (d, r)))) = layer"
  using selectSwitch_layer(1) [of layer ddwdt d r]
  by (simp add: selectForward_def Let_def case_prod_beta split: sum.split)

lemma updateActiveDecodeTargets_sel:
  "ds_base (updateActiveDecodeTargets m d) = ds_base d" "ds_decisions (updateActiveDecodeTargets m d) = ds_decisions d"
  "ds_chains (updateActiveDecodeTargets m d) = ds_chains d" "ds_extKeyFrameNum (updateActiveDecodeTargets m d) = ds_extKeyFrameNum d"
  by (simp_all add: updateActiveDecodeTargets_def Let_def case_prod_beta)

lemma applyActive_sel:
  assumes "applyActive ddwdt d = Inr d'"
  shows "ds_base d' = ds_base d" "ds_decisions d' = ds_decisions d" "ds_chains d' = ds_chains d" "ds_extKeyFrameNum d' = ds_extKeyFrameNum d"
  using assms by (auto simp: applyActive_def updateActiveDecodeTargets_sel split: if_splits option.splits)

lemma applyStructure_sel:
  assumes "applyStructure ddwdt d = Inr d'"
  shows "ds_base d' = ds_base d" "ds_decisions d' = ds_decisions d" "ds_restartGeneration d' = ds_restartGeneration d"
  using assms by (auto simp: applyStructure_def updateDependencyStructure_def Let_def bindR_eq_Inr split: if_splits option.splits)

lemma selectPrepare_go:
  assumes "selectPrepare p d = Inr (d1, Some (ddwdt, fd))"
  shows "ep_DependencyDescriptor p = Some ddwdt" "FrameDependencies (edd_Descriptor ddwdt) = Some fd"
    "edd_ExtKeyFrameNum ddwdt = ds_extKeyFrameNum d1" "length (ChainDiffs fd) = length (ds_chains d1)"
    "ds_restartGeneration d = edd_RestartGeneration ddwdt \<Longrightarrow> fst (GetDecision (ds_decisions d) (edd_ExtFrameNum ddwdt)) \<noteq> selectorDecisionDropped"
  using assms
  by (auto simp: selectPrepare_def Let_def bindR_eq_Inr applyActive_sel split: option.splits if_splits)

lemma invalidate_restart_base [simp]:
  "ds_base (invalidateKeyFrame d) = ds_base d" "ds_base (dds_restart g d) = ds_base d"
  by (simp_all add: invalidateKeyFrame_def dds_restart_def)

lemma selectPrepare_base:
  assumes "selectPrepare p d = Inr (d1, go)"
  shows "ds_base d1 = ds_base d"
  using assms
  by (auto simp: selectPrepare_def Let_def bindR_eq_Inr applyActive_sel applyStructure_sel split: option.splits if_splits)

text \<open>The ways through \<open>Select\<close>.\<close>

lemma dds_Select_cases:
  assumes "dds_Select p d = Inr (d', r)"
  obtains (early) d1 where "selectPrepare p d = Inr (d1, None)" "d' = d1" "\<not> IsSelected r"
  | (dropped) d1 ddwdt fd where "selectPrepare p d = Inr (d1, Some (ddwdt, fd))" "\<not> IsSelected r"
      "d' = onDecisions (AddDropped (edd_ExtFrameNum ddwdt)) d1"
  | (forward) d1 ddwdt fd dt dti r0 where "selectPrepare p d = Inr (d1, Some (ddwdt, fd))" "\<not> IsSelected r0"
      "findTarget (targetLayer (ds_base d1)) (ds_store d1) fd (ds_decodeTargets d1) = Some (Some (dt, dti))"
      "dti \<noteq> DecodeTargetNotPresent" "isDecodable (ds_decisions d1) (edd_ExtFrameNum ddwdt) fd"
      "(d', r) = selectForward p ddwdt fd (dt_Layer dt) (d1, r0)"
proof -
  from assms obtain d1 go where prep: "selectPrepare p d = Inr (d1, go)"
    by (auto simp: dds_Select_def Let_def bindR_eq_Inr)
  show thesis
  proof (cases go)
    case None
    then show thesis using early [of d1] assms prep by (auto simp: dds_Select_def Let_def noResult_def)
  next
    case (Some x)
    obtain ddwdt fd where go: "go = Some (ddwdt, fd)" using Some by (cases x) auto
    let ?f = "findTarget (targetLayer (ds_base d1)) (ds_store d1) fd (ds_decodeTargets d1)"
    let ?r = "noResult\<lparr>IsRelevant := layer_IsValid (currentLayer (ds_base d))\<rparr>"
    show thesis
    proof (cases "\<exists>dt dti. ?f = Some (Some (dt, dti)) \<and> dti \<noteq> DecodeTargetNotPresent \<and> isDecodable (ds_decisions d1) (edd_ExtFrameNum ddwdt) fd")
      case True
      then obtain dt dti where f: "?f = Some (Some (dt, dti))" "dti \<noteq> DecodeTargetNotPresent" "isDecodable (ds_decisions d1) (edd_ExtFrameNum ddwdt) fd" by blast
      then show thesis using forward [OF prep [unfolded go], of ?r dt dti] assms prep go
        by (simp add: dds_Select_def Let_def noResult_def)
    next
      case False
      then show thesis using dropped [OF prep [unfolded go]] assms prep go
        by (auto simp: dds_Select_def Let_def noResult_def split: option.splits if_splits)
    qed
  qed
qed

lemma selectForward_selected:
  assumes "(d', r) = selectForward p ddwdt fd layer (d1, r0)" "\<not> IsSelected r0" "\<not> IsSelected r"
  shows "ds_decisions d' = fst (AddDropped (edd_ExtFrameNum ddwdt) (ds_decisions d1, ds_store d1))"
    "ds_restartGeneration d' = ds_restartGeneration d1"
  using assms
  by (auto simp: selectForward_def selectSwitch_def Let_def case_prod_beta split: sum.splits if_splits)

subsection \<open>The ring under the chains\<close>

text \<open>Everything of the cache but the callbacks.\<close>

definition sc_core :: "SelectorDecisionCache \<Rightarrow> SelectorDecisionCache" where
  "sc_core s = s\<lparr>sc_onExpect := []\<rparr>"

lemma GetDecision_core: "GetDecision (sc_core s) x = GetDecision s x"
  by (simp add: GetDecision_def sc_core_def)

lemma ExpectDecision_core: "ExpectDecision e c s = (s', b) \<Longrightarrow> sc_core s' = sc_core s"
  by (auto simp: ExpectDecision_def sc_core_def split: if_splits)

lemma chain_OnFrame_core: "sc_core (fst (fst (chain_OnFrame c e fd ds))) = sc_core (fst ds)"
proof -
  obtain s store where ds: "ds = (s, store)" by (cases ds)
  obtain s' b where ex: "ExpectDecision (e - of_int (ChainDiffs fd ! fch_chainIdx (store ! c))) c s = (s', b)"
    by (cases "ExpectDecision (e - of_int (ChainDiffs fd ! fch_chainIdx (store ! c))) c s")
  show ?thesis using ExpectDecision_core [OF ex]
    by (cases "fst (GetDecision s (e - of_int (ChainDiffs fd ! fch_chainIdx (store ! c))))"; cases b)
      (simp_all add: ds chain_OnFrame_def Let_def ex)
qed

lemma fold_OnFrame_core:
  "sc_core (fst (fold (\<lambda>c ds. fst (chain_OnFrame c e fd ds)) cs ds)) = sc_core (fst ds)"
  by (induction cs arbitrary: ds) (simp_all add: chain_OnFrame_core)

lemma selectPrepare_core:
  assumes "selectPrepare p d = Inr (d1, Some (ddwdt, fd))" "ds_restartGeneration d = edd_RestartGeneration ddwdt"
  shows "sc_core (ds_decisions d1) = sc_core (ds_decisions d)" "\<not> snd (GetDecision (ds_decisions d) (edd_ExtFrameNum ddwdt))"
  using assms selectPrepare_go(1) [OF assms(1)]
  by (auto simp: selectPrepare_def Let_def bindR_eq_Inr applyActive_sel applyStructure_sel fold_OnFrame_core split: option.splits if_splits)

lemma GetDecision_added:
  assumes ok: "fwd_ok UNIV s" and e: "sc_initialized s \<Longrightarrow> sc_base s < entity" and old: "\<not> snd (GetDecision s entity)"
  shows "GetDecision (fst (addEntity entity sd (s, store))) entity = (sd, False)"
proof (cases "sc_initialized s")
  case False
  let ?s = "s\<lparr>sc_initialized := True, sc_base := entity, sc_last := entity\<rparr>"
  have wf: "sc_wf ?s" "0 < unat (sc_numEntries ?s)" using ok by (auto simp: fwd_ok_def sc_wf_def)
  have "getEntity (fst (setEntity entity sd (?s, store))) entity = sd"
    using getEntity_setEntity [of "(?s, store)" entity entity sd] wf by simp
  then show ?thesis
    using False wf(2) by (simp add: addEntity_def GetDecision_def setEntity_fst word_le_nat_alt)
next
  case True
  have wf: "sc_wf s" "sc_base s \<le> sc_last s" "0 < unat (sc_numEntries s)" using ok True by (auto simp: fwd_ok_def sc_wf_def)
  have b: "sc_base s < entity" using e True by simp
  show ?thesis
  proof (cases "entity \<le> sc_last s")
    case in_window: True
    have "unat (sc_last s) - unat entity < unat (sc_numEntries s)"
      using old True in_window b by (auto simp: GetDecision_def word_le_nat_alt word_less_nat_alt unat_sub split: if_splits)
    moreover have "getEntity (fst (setEntity entity sd (s, store))) entity = sd"
      using getEntity_setEntity [of "(s, store)" entity entity sd] wf(1) b by simp
    ultimately show ?thesis using GetDecision_window [of "fst (setEntity entity sd (s, store))" entity] True b in_window
      by (simp add: addEntity_known [OF True b in_window] setEntity_fst)
  next
    case False
    then have n: "sc_last s < entity" by simp
    note f = addEntity_newer_fst [OF True wf(2) n wf(1), of sd store]
    have "getEntity (fst (newerRing entity sd (s, store))) entity = sd"
      using getEntity_newerRing [of "(s, store)" entity entity sd] wf fwd_ok_no_wrap [OF ok True] n b by simp
    then show ?thesis using f wf(3) b by (intro trans [OF GetDecision_window]) auto
  qed
qed

lemma fwd_ok_core: "fwd_ok F (sc_core s) \<longleftrightarrow> fwd_ok F s"
  by (simp add: fwd_ok_def sc_core_def sc_wf_def)

lemma take_bit_add_64: "take_bit 16 (take_bit 64 a + take_bit 64 b) = take_bit 16 (a + b)" for a b :: int
proof -
  have "take_bit 16 (take_bit 64 a + take_bit 64 b) = take_bit 16 (take_bit 16 (take_bit 64 a) + take_bit 16 (take_bit 64 b))"
    by (simp only: take_bit_add)
  also have "\<dots> = take_bit 16 (take_bit 16 a + take_bit 16 b)" by simp
  finally show ?thesis by (simp only: take_bit_add)
qed

lemma ucast_u16_add: "(ucast (a + b) :: u16) = ucast a + ucast b" for a b :: u64
  by transfer (simp add: take_bit_add_64)

lemma ucast_u16_u64: "(ucast (ucast x :: u64) :: u16) = x" for x :: u16
  by transfer simp

section \<open>Properties\<close>


text \<open>
  A frame that was examined and not selected stays out: no later packet of it is selected, and such a packet changes nothing,
  until the stream restarts. So the receiver never gets the tail of a frame whose head was withheld.
\<close>

theorem dd_drop_is_final:
  assumes "dds_Select p d = Inr (d', r)" "\<not> IsSelected r" "selectPrepare p d = Inr (d1, Some (ddwdt, fd))"
    and gen: "ds_restartGeneration d = edd_RestartGeneration ddwdt"
    and ring: "fwd_ok UNIV (ds_decisions d)" "sc_initialized (ds_decisions d) \<Longrightarrow> sc_base (ds_decisions d) < edd_ExtFrameNum ddwdt"
    and p2: "ep_DependencyDescriptor p2 = Some ddwdt2" "edd_ExtFrameNum ddwdt2 = edd_ExtFrameNum ddwdt"
      "edd_RestartGeneration ddwdt2 = ds_restartGeneration d'" "FrameDependencies (edd_Descriptor ddwdt2) \<noteq> None"
  shows "\<exists>r2. dds_Select p2 d' = Inr (d', r2) \<and> \<not> IsSelected r2"
proof -
  let ?e = "edd_ExtFrameNum ddwdt"
  have core: "sc_core (ds_decisions d1) = sc_core (ds_decisions d)" "\<not> snd (GetDecision (ds_decisions d) ?e)"
    using selectPrepare_core [OF assms(3) gen] by blast+
  have ring1: "fwd_ok UNIV (ds_decisions d1)" "\<not> snd (GetDecision (ds_decisions d1) ?e)"
    using ring(1) core by (metis fwd_ok_core, metis GetDecision_core)
  have base1: "sc_initialized (ds_decisions d1) \<Longrightarrow> sc_base (ds_decisions d1) < ?e"
    using ring(2) arg_cong [OF core(1), of sc_initialized] arg_cong [OF core(1), of sc_base] by (simp add: sc_core_def)
  have "ds_decisions d' = fst (AddDropped ?e (ds_decisions d1, ds_store d1))"
    using assms(1)
  proof (cases rule: dds_Select_cases)
    case (forward d1' ddwdt' fd' dt dti r0)
    then show ?thesis using selectForward_selected(1) [OF forward(6,2) assms(2)] assms(3) by simp
  qed (use assms(3) in auto)
  then have "GetDecision (ds_decisions d') ?e = (selectorDecisionDropped, False)"
    using GetDecision_added [OF ring1(1) base1 ring1(2), of selectorDecisionDropped "ds_store d1"] by (simp add: AddDropped_def)
  then show ?thesis using p2 by (auto simp: dds_Select_def selectPrepare_def Let_def noResult_def)
qed

text \<open>
  Frame numbers sent to the receiver. Whenever a frame with a new structure follows newer frames than before, its 16 bit
  number is not behind that of the last frame in the order the receiver uses (half of the number space, ties broken by
  value), whatever the jump of the source; when the offset has to grow, the frame is put exactly 5999 ahead. Older and further
  frames keep the offset, so distances are kept.
\<close>

theorem frame_number_not_behind:
  assumes "fw_inited f" "fw_last f < new" "fw_UpdateAndGet new upd f = (f', out)"
  defines "lastOut \<equiv> fw_last f + fw_offset f"
  defines "diff \<equiv> (ucast out - ucast lastOut :: u16)"
  shows "(upd \<longrightarrow> diff < 0x8000 \<or> diff = 0x8000 \<and> (ucast lastOut :: u16) < ucast out) \<and>
    (fw_offset f' \<noteq> fw_offset f \<longrightarrow> upd \<and> diff = 5999) \<and> (\<not> upd \<longrightarrow> fw_offset f' = fw_offset f) \<and>
    out = new + fw_offset f' \<and> fw_last f' = new \<and> (\<forall>x \<le> new. \<forall>u. fw_UpdateAndGet x u f' = (f', x + fw_offset f'))"
proof -
  note hom = ucast_u16_add
  let ?n = "ucast (new + fw_offset f) :: u16" and ?l = "ucast (fw_last f + fw_offset f) :: u16"
  let ?c = "?n - ?l > 0x8000 \<or> (?n - ?l = 0x8000 \<and> ?n < ?l)"
  let ?o = "if upd \<and> ?c then fw_offset f + ucast (65535 - (?n - ?l) + 6000) else fw_offset f"
  have r: "f' = f\<lparr>fw_offset := ?o, fw_last := new\<rparr>" "out = new + ?o"
    using assms(1-3) by (auto simp: fw_UpdateAndGet_def Let_def split: if_splits)
  have grow: "diff = 5999" if "upd \<and> ?c"
  proof -
    have "out = (new + fw_offset f) + ucast (65535 - (?n - ?l) + 6000)" using r(2) that by simp
    then have "(ucast out :: u16) = ?n + (65535 - (?n - ?l) + 6000)" by (simp only: hom ucast_u16_u64)
    then have "diff = 65535 + 6000" by (simp add: diff_def lastOut_def)
    moreover have "(65535 + 6000 :: u16) = 5999" by code_simp
    ultimately show ?thesis by (simp only:)
  qed
  have keep: "diff = ?n - ?l" "(ucast out :: u16) = ?n" if "\<not> (upd \<and> ?c)"
    using that r(2) by (auto simp: diff_def lastOut_def)
  have "diff < 0x8000 \<or> diff = 0x8000 \<and> (ucast lastOut :: u16) < ucast out" if upd
  proof (cases ?c)
    case True
    then show ?thesis using grow that by simp
  next
    case False
    then have "?n - ?l \<le> 0x8000" "?n - ?l = 0x8000 \<Longrightarrow> ?l \<le> ?n" by auto
    moreover have "?l = ?n \<Longrightarrow> ?n - ?l \<noteq> 0x8000" by simp
    ultimately have "?n - ?l < 0x8000 \<or> ?n - ?l = 0x8000 \<and> ?l < ?n" by (metis order_less_le)
    then show ?thesis using keep False unfolding lastOut_def by metis
  qed
  then show ?thesis using r grow assms(1) by (auto simp: fw_UpdateAndGet_def)
qed

theorem frame_number_not_behind_witness:
  "let f = \<lparr>fw_offset = 0, fw_last = 100, fw_inited = True\<rparr>; (f', out) = fw_UpdateAndGet 50000 True f
   in (ucast out - 100 :: u16) = 5999 \<and> out = 50000 + fw_offset f'"
proof -
  define f where "f = \<lparr>fw_offset = 0, fw_last = 100, fw_inited = True\<rparr>"
  obtain f' out where u: "fw_UpdateAndGet 50000 True f = (f', out)" by (cases "fw_UpdateAndGet 50000 True f")
  have "fw_offset (fst (fw_UpdateAndGet 50000 True f)) \<noteq> 0" unfolding f_def by code_simp
  then show ?thesis using frame_number_not_behind [OF _ _ u] u unfolding f_def [symmetric] by (auto simp: f_def)
qed

subsection \<open>Chain identities\<close>

text \<open>The chains of a selector and of its decode targets exist, and decode targets point to chains in force.\<close>

definition dds_wf :: "DDSelector \<Rightarrow> bool" where
  "dds_wf d \<longleftrightarrow> distinct (ds_chains d) \<and> (\<forall>c \<in> set (ds_chains d). c < length (ds_store d)) \<and>
     (\<forall>dt \<in> set (ds_decodeTargets d). \<forall>c. tg_chain dt = Some c \<longrightarrow> c \<in> set (ds_chains d))"

lemma length_onChains [simp]: "length (onChains f cs store) = length store"
  by (induction cs arbitrary: store) (simp_all add: onChains_def)

lemma onChains_nth:
  assumes "distinct cs" "k < length store"
  shows "onChains f cs store ! k = (if k \<in> set cs then f (store ! k) else store ! k)"
  using assms
proof (induction cs arbitrary: store)
  case (Cons c cs)
  have "onChains f (c # cs) store = onChains f cs (store[c := f (store ! c)])" by (simp add: onChains_def)
  then show ?case using Cons by (cases "k = c") auto
qed (simp add: onChains_def)

text \<open>Of the updates of the targets, only the accumulated activity of the chains counts.\<close>

lemma updateTargets_store:
  assumes "k < length store"
  shows "length (fst (updateTargets m store dts)) = length store"
    "fst (updateTargets m store dts) ! k = (store ! k)\<lparr>fch_updatingActive := fch_updatingActive (store ! k) \<or>
       (\<exists>dt \<in> set dts. tg_chain dt = Some k \<and> m AND push_bit (dt_Target (tg_target dt)) 1 \<noteq> 0)\<rparr>"
  using assms
proof (induction dts arbitrary: store)
  case (Cons dt dts)
  {
    case 1
    then show ?case using Cons.IH(1) by (auto simp: Let_def dt_UpdateActive_def case_prod_beta split: option.split)
  next
    case 2
    let ?s = "fst (dt_UpdateActive m store dt)"
    have "k < length ?s" using 2 by (auto simp: dt_UpdateActive_def Let_def split: option.split)
    moreover have "?s ! k = (store ! k)\<lparr>fch_updatingActive := fch_updatingActive (store ! k) \<or>
        (tg_chain dt = Some k \<and> m AND push_bit (dt_Target (tg_target dt)) 1 \<noteq> 0)\<rparr>"
      using 2 by (cases "tg_chain dt = Some k") (auto simp: dt_UpdateActive_def Let_def chain_UpdateActive_def split: option.split)
    ultimately show ?case using Cons.IH(2) [of ?s] by (auto simp: Let_def case_prod_beta)
  }
qed simp_all

lemma updateTargets_targets:
  "map tg_chain (snd (updateTargets m store dts)) = map tg_chain dts"
  "map tg_target (snd (updateTargets m store dts)) = map tg_target dts"
  "dt \<in> set (snd (updateTargets m store dts)) \<Longrightarrow> tg_active dt \<longleftrightarrow> m AND push_bit (dt_Target (tg_target dt)) 1 \<noteq> 0"
  by (induction dts arbitrary: store) (auto simp: Let_def dt_UpdateActive_def case_prod_beta)

lemma and_push_bit_1: "m AND push_bit n 1 \<noteq> 0 \<longleftrightarrow> bit m n" for m :: u32
  using and_gt_0_bit [of m n] by (simp add: word_gt_0)

lemma length_chain_OnFrame [simp]: "length (snd (fst (chain_OnFrame c e fd ds))) = length (snd ds)"
  by (cases ds) (simp add: chain_OnFrame_def Let_def case_prod_beta)

lemma length_fold_OnFrame [simp]:
  "length (snd (fold (\<lambda>c ds. fst (chain_OnFrame c e fd ds)) cs ds)) = length (snd ds)"
  by (induction cs arbitrary: ds) simp_all

lemma dds_wf_onDecisions:
  assumes "dds_wf d" "length (snd (f (ds_decisions d, ds_store d))) = length (ds_store d)"
  shows "dds_wf (onDecisions f d)"
  using assms by (simp add: dds_wf_def)

lemma dds_wf_Add [simp]: "dds_wf d \<Longrightarrow> dds_wf (onDecisions (AddDropped e) d)" "dds_wf d \<Longrightarrow> dds_wf (onDecisions (AddForwarded e) d)"
  by (auto intro!: dds_wf_onDecisions simp: AddDropped_def AddForwarded_def)

lemma dds_wf_invalidate [simp]: "dds_wf (invalidateKeyFrame d)" "dds_wf (dds_restart g d)"
  by (simp_all add: dds_wf_def invalidateKeyFrame_def dds_restart_def)

lemma newTargets_ok:
  assumes "NumChains st > 0 \<longrightarrow> (\<forall>dt \<in> set dts. dt_Target dt < length (DecodeTargetProtectedByChain st))"
  shows "\<exists>ts. newTargets st cs dts = Inr ts"
  using assms by (induction dts) (auto simp: newTarget_def Let_def)

lemma newTargets_chains:
  "newTargets st cs dts = Inr ts \<Longrightarrow> \<forall>t \<in> set ts. \<forall>c. tg_chain t = Some c \<longrightarrow> c \<in> set cs"
  by (induction dts arbitrary: ts)
    (auto simp: bindR_eq_Inr newTarget_def NewDecodeTarget_def Let_def split: if_splits)

lemma dds_wf_structure:
  assumes "updateDependencyStructure st dts e d = Inr d'"
  shows "dds_wf d'"
  using assms newTargets_chains [of st _ dts]
  by (fastforce simp: updateDependencyStructure_def Let_def bindR_eq_Inr dds_wf_def)

lemma dds_wf_updateActive:
  assumes "dds_wf d"
  shows "dds_wf (updateActiveDecodeTargets m d)"
proof -
  let ?s = "onChains BeginUpdateActive (ds_chains d) (ds_store d)"
  have "length (fst (updateTargets m ?s (ds_decodeTargets d))) = length (ds_store d)"
  proof (cases "ds_store d")
    case Nil
    have "length (fst (updateTargets m store dts)) = length store" for store dts
      by (induction dts arbitrary: store) (auto simp: Let_def dt_UpdateActive_def case_prod_beta split: option.split)
    then show ?thesis using Nil by (metis length_onChains)
  next
    case (Cons a list)
    then show ?thesis using updateTargets_store(1) [of 0 ?s m "ds_decodeTargets d"] by simp
  qed
  moreover have "tg_chain ` set (snd (updateTargets m ?s (ds_decodeTargets d))) = tg_chain ` set (ds_decodeTargets d)"
    using updateTargets_targets(1) [of m ?s "ds_decodeTargets d"] by (metis set_map)
  ultimately show ?thesis using assms
    by (auto simp: dds_wf_def updateActiveDecodeTargets_def Let_def case_prod_beta) (metis (no_types, lifting) imageE imageI)
qed

lemma dds_wf_prepare:
  assumes "dds_wf d" "selectPrepare p d = Inr (d1, go)"
  shows "dds_wf d1"
proof -
  have a: "applyActive x d2 = Inr d3 \<Longrightarrow> dds_wf d2 \<Longrightarrow> dds_wf d3" for x d2 d3
    by (auto simp: applyActive_def dds_wf_updateActive split: if_splits option.splits)
  have s: "applyStructure x d2 = Inr d3 \<Longrightarrow> dds_wf d2 \<Longrightarrow> dds_wf d3" for x d2 d3
    by (auto simp: applyStructure_def dds_wf_structure split: if_splits option.splits)
  show ?thesis using assms
    by (auto simp: selectPrepare_def Let_def bindR_eq_Inr split: option.splits if_splits
        dest: s a intro!: dds_wf_onDecisions simp add: AddDropped_def)
qed

lemma dds_wf_forward:
  assumes "dds_wf d"
  shows "dds_wf (fst (selectForward p x fd layer (d, r)))"
proof -
  have "dds_wf (fst (selectSwitch layer x (d, r)))" using assms by (simp add: selectSwitch_def dds_wf_def)
  then have "dds_wf ((fst (selectSwitch layer x (d, r)))\<lparr>ds_fnWrapper := w\<rparr>)" for w by (simp add: dds_wf_def)
  then show ?thesis by (auto simp: selectForward_def Let_def case_prod_beta split: sum.split)
qed

text \<open>What a packet has to satisfy so that \<open>Select\<close> cannot panic.\<close>

definition edd_wf :: "ExtDependencyDescriptor \<Rightarrow> bool" where
  "edd_wf x \<longleftrightarrow> FrameDependencies (edd_Descriptor x) \<noteq> None \<and>
     (edd_StructureUpdated x \<longrightarrow> (\<exists>st. AttachedStructure (edd_Descriptor x) = Some st \<and>
        (NumChains st > 0 \<longrightarrow> (\<forall>dt \<in> set (edd_DecodeTargets x). dt_Target dt < length (DecodeTargetProtectedByChain st))))) \<and>
     (edd_ActiveDecodeTargetsUpdated x \<longrightarrow> ActiveDecodeTargetsBitmask (edd_Descriptor x) \<noteq> None)"

lemma selectPrepare_total:
  assumes "\<And>x. ep_DependencyDescriptor p = Some x \<Longrightarrow> edd_wf x"
  shows "\<exists>d1 go. selectPrepare p d = Inr (d1, go)"
proof -
  have s: "\<exists>d'. applyStructure x d = Inr d'" if w: "edd_wf x" for x d
  proof (cases "edd_StructureUpdated x")
    case True
    then obtain st where st: "AttachedStructure (edd_Descriptor x) = Some st"
      "NumChains st > 0 \<longrightarrow> (\<forall>dt \<in> set (edd_DecodeTargets x). dt_Target dt < length (DecodeTargetProtectedByChain st))"
      using w by (auto simp: edd_wf_def)
    obtain ts where "newTargets st [length (ds_store d)..<length (ds_store d) + NumChains st] (edd_DecodeTargets x) = Inr ts"
      using newTargets_ok [OF st(2)] by blast
    then show ?thesis using True st(1) by (simp add: applyStructure_def updateDependencyStructure_def Let_def)
  qed (simp add: applyStructure_def)
  have a: "\<exists>d'. applyActive x d = Inr d'" if "edd_wf x" for x d
    using that by (auto simp: edd_wf_def applyActive_def)
  show ?thesis
  proof (cases "ep_DependencyDescriptor p")
    case None
    then show ?thesis by (simp add: selectPrepare_def)
  next
    case (Some x)
    note w = assms [OF Some]
    then obtain fd where "FrameDependencies (edd_Descriptor x) = Some fd" by (auto simp: edd_wf_def)
    moreover define d0 where "d0 = (if edd_RestartGeneration x > ds_restartGeneration d then dds_restart (edd_RestartGeneration x) d else d)"
    moreover obtain d2 where "applyStructure x d0 = Inr d2" using s [OF w] by blast
    moreover obtain d3 where "applyActive x d2 = Inr d3" using a [OF w] by blast
    ultimately show ?thesis using Some by (auto simp: selectPrepare_def Let_def)
  qed
qed

text \<open>\<open>Select\<close> does not panic on complete packets and keeps the selector well formed.\<close>

lemma dds_Select_ok:
  assumes "dds_wf d" "\<And>x. ep_DependencyDescriptor p = Some x \<Longrightarrow> edd_wf x"
  shows "\<exists>d' r. dds_Select p d = Inr (d', r) \<and> dds_wf d'"
proof -
  obtain d1 go where prep: "selectPrepare p d = Inr (d1, go)" using selectPrepare_total [OF assms(2)] by blast
  then have "\<exists>x. dds_Select p d = Inr x"
    by (auto simp: dds_Select_def Let_def split: option.split prod.split)
  then obtain d' r where sel: "dds_Select p d = Inr (d', r)" by (metis prod.exhaust)
  have "dds_wf d1" using dds_wf_prepare [OF assms(1) prep] .
  from sel have "dds_wf d'"
  proof (cases rule: dds_Select_cases)
    case (forward d1' x fd dt dti r0)
    then show ?thesis using dds_wf_prepare [OF assms(1) forward(1)] dds_wf_forward [of d1' p x fd "dt_Layer dt" r0] by (metis fst_conv)
  qed (use dds_wf_prepare [OF assms(1)] in auto)
  then show ?thesis using sel by blast
qed

text \<open>
  An update of the active decode targets makes exactly the chains active that protect an active target; a chain that becomes
  active starts broken, so that it has to wait for a frame that restores it, and the other chains keep their state.
\<close>

theorem chain_activity:
  assumes "dds_wf d" "d' = updateActiveDecodeTargets m d" "c \<in> set (ds_chains d)"
  defines "fc \<equiv> ds_store d ! c" and "fc' \<equiv> ds_store d' ! c"
  shows "(fch_active fc' \<longleftrightarrow> (\<exists>dt \<in> set (ds_decodeTargets d). tg_chain dt = Some c \<and> bit m (dt_Target (tg_target dt)))) \<and>
    (fch_active fc' \<and> \<not> fch_active fc \<longrightarrow> fch_broken fc') \<and>
    (\<not> (fch_active fc' \<and> \<not> fch_active fc) \<longrightarrow> fch_broken fc' = fch_broken fc) \<and>
    fch_expectFrames fc' = fch_expectFrames fc \<and>
    (\<forall>dt \<in> set (ds_decodeTargets d'). tg_active dt \<longleftrightarrow> bit m (dt_Target (tg_target dt)))"
proof -
  let ?b = "onChains BeginUpdateActive (ds_chains d) (ds_store d)"
  let ?u = "updateTargets m ?b (ds_decodeTargets d)"
  let ?on = "\<exists>dt \<in> set (ds_decodeTargets d). tg_chain dt = Some c \<and> bit m (dt_Target (tg_target dt))"
  have c: "c < length (ds_store d)" "distinct (ds_chains d)" using assms(1,3) by (auto simp: dds_wf_def)
  have len: "c < length ?b" "length (fst ?u) = length ?b" using c updateTargets_store(1) [of c ?b] by auto
  have "fst ?u ! c = fc\<lparr>fch_updatingActive := ?on\<rparr>"
    using updateTargets_store(2) [OF len(1)] onChains_nth [OF c(2,1)] assms(3) c(1)
    by (simp add: BeginUpdateActive_def fc_def and_push_bit_1 [unfolded push_bit_of_1])
  then have "fc' = EndUpdateActive (fc\<lparr>fch_updatingActive := ?on\<rparr>)"
    using onChains_nth [OF c(2), of c "fst ?u" EndUpdateActive] len c(1) assms(3)
    by (simp add: fc'_def assms(2) updateActiveDecodeTargets_def Let_def case_prod_beta)
  moreover have "\<forall>dt \<in> set (ds_decodeTargets d'). tg_active dt \<longleftrightarrow> bit m (dt_Target (tg_target dt))"
    using updateTargets_targets(3) [of _ m ?b "ds_decodeTargets d"]
    by (simp add: assms(2) updateActiveDecodeTargets_def Let_def case_prod_beta and_push_bit_1 [unfolded push_bit_of_1])
  ultimately show ?thesis by (auto simp: EndUpdateActive_def Let_def)
qed

section \<open>Witnesses\<close>

text \<open>A stream with one decode target protected by one chain: a key frame, and frames that follow in the chain.\<close>

definition demo_template :: "int list \<Rightarrow> int \<Rightarrow> FrameDependencyTemplate" where
  "demo_template fdiffs chain =
     \<lparr>SpatialId = 0, TemporalId = 0, DecodeTargetIndications = [DecodeTargetSwitch], FrameDiffs = fdiffs, ChainDiffs = [chain]\<rparr>"

definition demo_structure :: FrameDependencyStructure where
  "demo_structure = \<lparr>StructureId = 0, NumDecodeTargets = 1, NumChains = 1, DecodeTargetProtectedByChain = [0], Resolutions = [],
     Templates = [demo_template [] 0, demo_template [1] 1]\<rparr>"

definition demo_descriptor :: "u16 \<Rightarrow> FrameDependencyTemplate \<Rightarrow> FrameDependencyStructure option \<Rightarrow> DependencyDescriptor" where
  "demo_descriptor fn fd st = \<lparr>FirstPacketInFrame = True, LastPacketInFrame = True, FrameNumber = fn, FrameDependencies = Some fd,
     Resolution = None, ActiveDecodeTargetsBitmask = (if st = None then None else Some 1), AttachedStructure = st\<rparr>"

definition demo_frame :: "u16 \<Rightarrow> FrameDependencyTemplate \<Rightarrow> FrameDependencyStructure option \<Rightarrow> ExtPacket" where
  "demo_frame fn fd st =
     (demoPacket (st \<noteq> None) \<lparr>Spatial = 0, Temporal = 0\<rparr> PayloadNone)
       \<lparr>ep_DependencyDescriptor := Some \<lparr>edd_Descriptor = demo_descriptor fn fd st,
          edd_DecodeTargets = [\<lparr>dt_Target = 0, dt_Layer = \<lparr>Spatial = 0, Temporal = 0\<rparr>\<rparr>],
          edd_StructureUpdated = (st \<noteq> None), edd_ActiveDecodeTargetsUpdated = (st \<noteq> None), edd_Integrity = True,
          edd_ExtFrameNum = ucast fn, edd_ExtKeyFrameNum = 5, edd_RestartGeneration = 0\<rparr>\<rparr>"

definition demo_selector :: DDSelector where
  "demo_selector = NewDependencyDescriptor\<lparr>ds_base := SetTarget \<lparr>Spatial = 0, Temporal = 0\<rparr> NewBase\<rparr>"

definition demo_key :: ExtPacket where
  "demo_key = demo_frame 5 (demo_template [] 0) (Some demo_structure)"


text \<open>Frame 6 is not present in the decode target.\<close>

definition demo_after_key :: DDSelector where
  "demo_after_key = (case dds_Select demo_key demo_selector of Inr (d, _) \<Rightarrow> d | Inl _ \<Rightarrow> demo_selector)"

definition demo_absent :: ExtPacket where
  "demo_absent = demo_frame 6 ((demo_template [1] 1)\<lparr>DecodeTargetIndications := [DecodeTargetNotPresent]\<rparr>) None"

definition demo_check :: "DDSelector \<Rightarrow> bool" where
  "demo_check d \<longleftrightarrow>
     (case dds_Select demo_absent d of Inl _ \<Rightarrow> False | Inr (d', r) \<Rightarrow> \<not> IsSelected r \<and> ds_restartGeneration d' = 0) \<and>
     (case selectPrepare demo_absent d of Inl _ \<Rightarrow> False | Inr (_, go) \<Rightarrow> go \<noteq> None) \<and>
     sc_numEntries (ds_decisions d) = 256 \<and> length (sc_masks (ds_decisions d)) = 8 \<and>
     sc_numNackEntries (ds_decisions d) = 80 \<and> sc_base (ds_decisions d) = 5 \<and> sc_last (ds_decisions d) = 5 \<and>
     ds_restartGeneration d = 0 \<and> map tg_chain (ds_decodeTargets d) = [Some 0] \<and> ds_chains d = [0] \<and> length (ds_store d) = 1"

lemma demo_checked: "demo_check demo_after_key"
  by code_simp

theorem dd_drop_is_final_witness:
  "\<exists>d' r r2. dds_Select demo_absent demo_after_key = Inr (d', r) \<and> dds_Select demo_absent d' = Inr (d', r2) \<and> \<not> IsSelected r2"
proof -
  note c = demo_checked [unfolded demo_check_def]
  obtain d' r where r: "dds_Select demo_absent demo_after_key = Inr (d', r)" "\<not> IsSelected r" "ds_restartGeneration d' = 0"
    using c by (auto split: sum.splits)
  obtain d1 x fd where prep: "selectPrepare demo_absent demo_after_key = Inr (d1, Some (x, fd))"
    using c by (auto split: sum.splits)
  have x: "ep_DependencyDescriptor demo_absent = Some x" using selectPrepare_go(1) [OF prep] .
  have "fwd_ok UNIV (ds_decisions demo_after_key)" using c by (auto simp: fwd_ok_def sc_wf_def)
  moreover have "edd_ExtFrameNum x = 6" "edd_RestartGeneration x = 0" "FrameDependencies (edd_Descriptor x) \<noteq> None"
    using x by (auto simp: demo_absent_def demo_frame_def demo_descriptor_def demoPacket_def)
  ultimately have "\<exists>r2. dds_Select demo_absent d' = Inr (d', r2) \<and> \<not> IsSelected r2"
    using r(3) c by (intro dd_drop_is_final [OF r(1,2) prep _ _ _ x]) simp_all
  then show ?thesis using r(1) by blast
qed

theorem chain_activity_witness: "\<not> fch_active (ds_store (updateActiveDecodeTargets 0 demo_after_key) ! 0)"
proof -
  have "map tg_chain (ds_decodeTargets demo_after_key) = [Some 0]" "ds_chains demo_after_key = [0]" "length (ds_store demo_after_key) = 1"
    using demo_checked unfolding demo_check_def by blast+
  moreover from this have "dds_wf demo_after_key" by (auto simp: dds_wf_def map_eq_Cons_conv)
  ultimately show ?thesis using chain_activity [of demo_after_key _ 0 0] by simp
qed

end
