(* ===== verification/Frame_Integrity.thy ===== *)
theory Frame_Integrity
  imports Packets
begin

text \<open>
  \<^verbatim>\<open>pkg/sfu/buffer/frameintegrity.go\<close>: the bitmap of received packets, the word-parallel test
  for a run of consecutive packets, and the checker that tells whether all packets of a video frame have arrived.
  The frames of a checker share its packet history, which is passed to their operations here.
\<close>

section \<open>Model\<close>

subsection \<open>Packet history\<close>

record PacketHistory =
  ph_base :: u64
  ph_last :: u64
  ph_bits :: "u64 list"
  ph_packetCount :: nat
  ph_inited :: bool

definition NewPacketHistory :: "nat \<Rightarrow> PacketHistory" where
  "NewPacketHistory packetCount =
     (let packetCount = (packetCount + 63) div 64 * 64
      in \<lparr>ph_base = 0, ph_last = 0, ph_bits = replicate (packetCount div 64) 0, ph_packetCount = packetCount, ph_inited = False\<rparr>)"

definition ph_getPos :: "PacketHistory \<Rightarrow> u64 \<Rightarrow> nat \<times> nat" where
  "ph_getPos ph seq =
     (let idx = (seq - ph_base ph) mod of_nat (ph_packetCount ph)
      in (unat (drop_bit 6 idx), unat (idx mod 64)))"

definition ph_set :: "u64 \<Rightarrow> bool \<Rightarrow> PacketHistory \<Rightarrow> PacketHistory" where
  "ph_set seq received ph =
     (case ph_getPos ph seq of (idx, offset) \<Rightarrow>
        ph\<lparr>ph_bits := (ph_bits ph)[idx :=
             (if \<not> received then ph_bits ph ! idx AND NOT (push_bit offset 1)
              else ph_bits ph ! idx OR push_bit offset 1)]\<rparr>)"

text \<open>The numbers strictly between \<open>last\<close> and the new one are cleared one by one.\<close>

definition ph_AddPacket :: "u64 \<Rightarrow> PacketHistory \<Rightarrow> PacketHistory" where
  "ph_AddPacket extSeq ph =
     (if \<not> ph_inited ph then
        ph_set extSeq True
          (ph\<lparr>ph_inited := True, ph_base := (if extSeq > 100 then extSeq - 100 else 0), ph_last := extSeq\<rparr>)
      else if extSeq \<le> ph_base ph then ph
      else if extSeq \<le> ph_last ph then
        if ph_last ph - extSeq < of_nat (ph_packetCount ph) then ph_set extSeq True ph else ph
      else
        (ph_set extSeq True
          (fold (\<lambda>i. ph_set (of_nat i) False) [unat (ph_last ph) + 1..<unat extSeq] ph))\<lparr>ph_last := extSeq\<rparr>)"

text \<open>
  The loop over full words, which wraps around at the end of the slice. The indices that \<open>getPos\<close> returns are always
  inside the slice; for others the Go code would panic.
\<close>

function consecutiveLoop :: "u64 list \<Rightarrow> nat \<Rightarrow> nat \<Rightarrow> bool" where
  "consecutiveLoop bits i endIndex =
     (if endIndex \<ge> length bits \<or> i > length bits then False
      else if i = endIndex then True
      else if i = length bits then
        if 0 = endIndex then True
        else if bits ! 0 + 1 \<noteq> 0 then False else consecutiveLoop bits 1 endIndex
      else if bits ! i + 1 \<noteq> 0 then False else consecutiveLoop bits (i + 1) endIndex)"
  by pat_completeness auto
termination
  by (relation "measure (\<lambda>(bits, i, endIndex). if i \<le> endIndex then endIndex - i else length bits + endIndex + 1 - i)") auto

declare consecutiveLoop.simps [simp del]

definition PacketsConsecutive :: "PacketHistory \<Rightarrow> u64 \<Rightarrow> u64 \<Rightarrow> bool" where
  "PacketsConsecutive ph start end' =
     (if start > end' then False
      else if end' - start \<ge> of_nat (ph_packetCount ph) then False
      else
        let (startIndex, startOffset) = ph_getPos ph start;
            (endIndex, endOffset) = ph_getPos ph end' in
        if startIndex = endIndex \<and> end' - start \<le> 64 then
          let testBits = push_bit startOffset (push_bit (endOffset - startOffset + 1) 1 - 1)
          in ph_bits ph ! startIndex AND testBits = testBits
        else if drop_bit startOffset (ph_bits ph ! startIndex) + 1 \<noteq> push_bit (64 - startOffset) 1 then False
        else if \<not> consecutiveLoop (ph_bits ph) (startIndex + 1) endIndex then False
        else
          let testBits = push_bit (endOffset + 1) 1 - 1
          in ph_bits ph ! endIndex AND testBits = testBits)"

subsection \<open>Frames\<close>

record FrameEntity =
  fe_startSeq :: "u64 option"
  fe_endSeq :: "u64 option"
  fe_integrity :: bool

definition fe_Reset :: "FrameEntity \<Rightarrow> FrameEntity" where
  "fe_Reset fe = fe\<lparr>fe_integrity := False, fe_startSeq := None, fe_endSeq := None\<rparr>"

definition fe_AddPacket :: "PacketHistory \<Rightarrow> u64 \<Rightarrow> DependencyDescriptor \<Rightarrow> FrameEntity \<Rightarrow> FrameEntity" where
  "fe_AddPacket ph extSeq ddVal fe =
     (if fe_integrity fe then fe
      else
        let fe = (if fe_startSeq fe = None \<and> FirstPacketInFrame ddVal then fe\<lparr>fe_startSeq := Some extSeq\<rparr> else fe);
            fe = (if fe_endSeq fe = None \<and> LastPacketInFrame ddVal then fe\<lparr>fe_endSeq := Some extSeq\<rparr> else fe) in
        case (fe_startSeq fe, fe_endSeq fe) of
          (Some s, Some e) \<Rightarrow> if PacketsConsecutive ph s e then fe\<lparr>fe_integrity := True\<rparr> else fe
        | _ \<Rightarrow> fe)"

record FrameIntegrityChecker =
  fc_frameCount :: nat
  fc_frames :: "FrameEntity list"
  fc_base :: u64
  fc_last :: u64
  fc_pktHistory :: PacketHistory
  fc_inited :: bool

definition NewFrameIntegrityChecker :: "nat \<Rightarrow> nat \<Rightarrow> FrameIntegrityChecker" where
  "NewFrameIntegrityChecker frameCount packetCount =
     \<lparr>fc_frameCount = frameCount,
      fc_frames = replicate frameCount \<lparr>fe_startSeq = None, fe_endSeq = None, fe_integrity = False\<rparr>,
      fc_base = 0, fc_last = 0, fc_pktHistory = NewPacketHistory packetCount, fc_inited = False\<rparr>"

text \<open>The slot of a frame; frame numbers stay far below the range of a signed 64 bit integer above the base.\<close>

definition fc_slot :: "FrameIntegrityChecker \<Rightarrow> u64 \<Rightarrow> nat" where
  "fc_slot fc extFrameNum = unat (extFrameNum - fc_base fc) mod fc_frameCount fc"

definition updFrame :: "(FrameEntity \<Rightarrow> FrameEntity) \<Rightarrow> u64 \<Rightarrow> FrameIntegrityChecker \<Rightarrow> FrameIntegrityChecker" where
  "updFrame f extFrameNum fc =
     fc\<lparr>fc_frames := (fc_frames fc)[fc_slot fc extFrameNum := f (fc_frames fc ! fc_slot fc extFrameNum)]\<rparr>"

definition fc_AddPacket :: "u64 \<Rightarrow> u64 \<Rightarrow> DependencyDescriptor \<Rightarrow> FrameIntegrityChecker \<Rightarrow> FrameIntegrityChecker" where
  "fc_AddPacket extSeq extFrameNum ddVal fc =
     (let fc = fc\<lparr>fc_pktHistory := ph_AddPacket extSeq (fc_pktHistory fc)\<rparr>;
          fc = (if \<not> fc_inited fc then fc\<lparr>fc_inited := True, fc_base := extFrameNum, fc_last := extFrameNum\<rparr> else fc) in
      if extFrameNum < fc_base fc then fc
      else if extFrameNum \<le> fc_last fc then
        if fc_last fc - extFrameNum \<ge> of_nat (fc_frameCount fc) then fc
        else updFrame (fe_AddPacket (fc_pktHistory fc) extSeq ddVal) extFrameNum fc
      else
        let fc = fold (\<lambda>i. updFrame fe_Reset (of_nat i)) [unat (fc_last fc) + 1..<unat extFrameNum + 1] fc;
            fc = updFrame (fe_AddPacket (fc_pktHistory fc) extSeq ddVal) extFrameNum fc
        in fc\<lparr>fc_last := extFrameNum\<rparr>)"

definition FrameIntegrity :: "FrameIntegrityChecker \<Rightarrow> u64 \<Rightarrow> bool" where
  "FrameIntegrity fc extFrameNum =
     (if extFrameNum < fc_base fc \<or> extFrameNum > fc_last fc \<or> fc_last fc - extFrameNum \<ge> of_nat (fc_frameCount fc) then False
      else fe_integrity (fc_frames fc ! fc_slot fc extFrameNum))"

section \<open>The bitmap\<close>

definition fbit :: "u64 list \<Rightarrow> nat \<Rightarrow> bool" where
  "fbit bits k = bit (bits ! (k div 64)) (k mod 64)"

text \<open>Words that are a run of ones.\<close>

lemma full_word: "w + 1 = 0 \<longleftrightarrow> (\<forall>j < 64. bit w j)" for w :: u64
proof -
  have "w + 1 = 0 \<longleftrightarrow> w = - 1" using eq_neg_iff_add_eq_0 [of w 1] by simp
  also have "\<dots> \<longleftrightarrow> (\<forall>j < 64. bit w j)"
  proof
    assume "\<forall>j < 64. bit w j"
    then show "w = - 1" by (intro bit_word_eqI) simp
  qed simp
  finally show ?thesis .
qed

lemma high_ones:
  fixes w :: u64
  assumes "so < 64"
  shows "drop_bit so w + 1 = push_bit (64 - so) 1 \<longleftrightarrow> (\<forall>j. so \<le> j \<and> j < 64 \<longrightarrow> bit w j)"
proof -
  have "drop_bit so w + 1 = push_bit (64 - so) 1 \<longleftrightarrow> drop_bit so w = mask (64 - so)"
    unfolding mask_eq_exp_minus_1 push_bit_of_1 by (auto simp: eq_diff_eq)
  also have "\<dots> \<longleftrightarrow> (\<forall>j. so \<le> j \<and> j < 64 \<longrightarrow> bit w j)"
  proof
    assume "drop_bit so w = mask (64 - so)"
    then have b: "bit w (so + i) \<longleftrightarrow> bit (mask (64 - so) :: u64) i" for i using bit_drop_bit_eq [of so w] by (simp add: fun_eq_iff)
    show "\<forall>j. so \<le> j \<and> j < 64 \<longrightarrow> bit w j"
    proof (intro allI impI)
      fix j assume j: "so \<le> j \<and> j < 64"
      then have "j - so < 64 - so" "j - so < 64" by auto
      then show "bit w j" using b [of "j - so"] j by (simp add: bit_mask_iff)
    qed
  next
    assume "\<forall>j. so \<le> j \<and> j < 64 \<longrightarrow> bit w j"
    then show "drop_bit so w = mask (64 - so)"
      by (intro bit_word_eqI) (auto simp: bit_simps dest: bit_imp_le_length)
  qed
  finally show ?thesis .
qed

lemma ones_at:
  fixes w :: u64
  assumes "so \<le> eo" "eo < 64"
  shows "w AND push_bit so (push_bit (eo - so + 1) 1 - 1) = push_bit so (push_bit (eo - so + 1) 1 - 1) \<longleftrightarrow>
    (\<forall>j. so \<le> j \<and> j \<le> eo \<longrightarrow> bit w j)"
proof -
  define m :: u64 where "m = push_bit so (push_bit (eo - so + 1) 1 - 1)"
  have "m = push_bit so (mask (eo - so + 1))" by (simp add: m_def mask_eq_exp_minus_1)
  then have b: "bit m j \<longleftrightarrow> so \<le> j \<and> j \<le> eo" for j
    using assms by (auto simp: bit_simps)
  have "w AND m = m \<longleftrightarrow> (\<forall>j. bit m j \<longrightarrow> bit w j)"
    by (simp add: bit_eq_iff [of "w AND m"] bit_and_iff) (use bit_imp_le_length [of m] in auto)
  then show ?thesis unfolding m_def [symmetric] b .
qed

subsection \<open>Positions\<close>

definition ph_wf :: "PacketHistory \<Rightarrow> bool" where
  "ph_wf ph \<longleftrightarrow> ph_packetCount ph = 64 * length (ph_bits ph) \<and> 2 \<le> length (ph_bits ph) \<and> ph_packetCount ph < 2 ^ 64"

definition ph_idx :: "PacketHistory \<Rightarrow> u64 \<Rightarrow> nat" where
  "ph_idx ph seq = (unat seq - unat (ph_base ph)) mod ph_packetCount ph"

lemma ph_getPos_idx:
  assumes "ph_wf ph" "ph_base ph \<le> seq"
  shows "ph_getPos ph seq = (ph_idx ph seq div 64, ph_idx ph seq mod 64)"
proof -
  have "unat ((seq - ph_base ph) mod of_nat (ph_packetCount ph)) = ph_idx ph seq"
    using assms take_bit_nat_eq_self [of "ph_packetCount ph" 64] unat_of_nat [of "ph_packetCount ph", where 'a = 64]
    by (simp only: unat_mod ph_wf_def ph_idx_def unat_sub word_le_nat_alt) simp
  then show ?thesis by (simp add: ph_getPos_def Let_def drop_bit_eq_div unat_mod unat_div)
qed

lemma ph_idx_less: "ph_wf ph \<Longrightarrow> ph_idx ph seq < ph_packetCount ph"
  unfolding ph_idx_def ph_wf_def by (rule mod_less_divisor) linarith

lemma ph_idx_add:
  assumes "ph_base ph \<le> s" "s \<le> t"
  shows "ph_idx ph t = (ph_idx ph s + (unat t - unat s)) mod ph_packetCount ph"
proof -
  have "unat t - unat (ph_base ph) = (unat s - unat (ph_base ph)) + (unat t - unat s)"
    using assms by (simp add: word_le_nat_alt)
  then show ?thesis unfolding ph_idx_def by (simp only: mod_add_left_eq)
qed

lemma ph_set_select [simp]:
  "ph_base (ph_set seq r ph) = ph_base ph" "ph_last (ph_set seq r ph) = ph_last ph"
  "ph_packetCount (ph_set seq r ph) = ph_packetCount ph" "ph_inited (ph_set seq r ph) = ph_inited ph"
  "length (ph_bits (ph_set seq r ph)) = length (ph_bits ph)"
  by (simp_all add: ph_set_def split: prod.split)

lemma ph_wf_set [simp]: "ph_wf (ph_set seq r ph) \<longleftrightarrow> ph_wf ph"
  "ph_wf (ph\<lparr>ph_last := x\<rparr>) \<longleftrightarrow> ph_wf ph" "ph_wf (ph\<lparr>ph_inited := i\<rparr>) \<longleftrightarrow> ph_wf ph" "ph_wf (ph\<lparr>ph_base := b\<rparr>) \<longleftrightarrow> ph_wf ph"
  by (simp_all add: ph_wf_def)

lemma ph_idx_set [simp]: "ph_idx (ph_set s r ph) seq = ph_idx ph seq"
  by (simp add: ph_idx_def)

lemma fbit_set:
  assumes wf: "ph_wf ph" and s: "ph_base ph \<le> seq" and k: "k < ph_packetCount ph"
  shows "fbit (ph_bits (ph_set seq r ph)) k \<longleftrightarrow> (if k = ph_idx ph seq then r else fbit (ph_bits ph) k)"
proof -
  let ?x = "ph_idx ph seq"
  have x: "?x div 64 < length (ph_bits ph)" "k div 64 < length (ph_bits ph)"
    using ph_idx_less [OF wf, of seq] k wf by (auto simp: ph_wf_def)
  have eq: "k = ?x \<longleftrightarrow> k div 64 = ?x div 64 \<and> k mod 64 = ?x mod 64" by (metis div_mult_mod_eq)
  have l: "k mod 64 < 64" by simp
  show ?thesis
  proof (cases "k div 64 = ?x div 64")
    case True
    then show ?thesis using x l
      by (auto simp: ph_set_def ph_getPos_idx [OF wf s] fbit_def eq bit_simps simp del: push_bit_of_1)
  next
    case False
    then show ?thesis using x by (auto simp: ph_set_def ph_getPos_idx [OF wf s] fbit_def eq)
  qed
qed

subsection \<open>The word-parallel test\<close>

lemma consecutiveLoop_iff:
  assumes "w < length bits" "i \<le> length bits" "(i + w) mod length bits = e"
  shows "consecutiveLoop bits i e \<longleftrightarrow> (\<forall>t < w. bits ! ((i + t) mod length bits) + 1 = 0)"
  using assms
proof (induction w arbitrary: i)
  case 0
  then show ?case by (cases "i = length bits") (auto simp: consecutiveLoop.simps [of bits _ e] consecutiveLoop.simps [of bits _ 0])
next
  case (Suc w)
  let ?L = "length bits"
  have e: "e < ?L" using Suc.prems mod_less_divisor [of ?L "i + Suc w"] by linarith
  have step: "(\<forall>t < Suc w. bits ! ((i + t) mod ?L) + 1 = 0) \<longleftrightarrow>
      bits ! (i mod ?L) + 1 = 0 \<and> (\<forall>t < w. bits ! ((Suc i + t) mod ?L) + 1 = 0)"
    by (simp add: All_less_Suc2)
  have ne: "i mod ?L \<noteq> e"
  proof
    assume "i mod ?L = e"
    then have "(i + Suc w) mod ?L = i mod ?L" using Suc.prems by simp
    then have "?L dvd Suc w" by (metis add_diff_cancel_left' le_add1 mod_eq_dvd_iff_nat)
    with Suc.prems(1) show False by (auto dest: dvd_imp_le)
  qed
  show ?case
  proof (cases "i = ?L")
    case True
    have "(1 + w) mod ?L = (?L + Suc w) mod ?L" by (metis mod_add_self1 plus_1_eq_Suc)
    then have "(1 + w) mod ?L = e" using Suc.prems True by simp
    then have ih: "consecutiveLoop bits 1 e \<longleftrightarrow> (\<forall>t < w. bits ! ((1 + t) mod ?L) + 1 = 0)"
      using Suc.prems by (intro Suc.IH) auto
    have "bits ! ((Suc i + t) mod ?L) = bits ! ((1 + t) mod ?L)" for t using True by (metis add.assoc mod_add_self1 plus_1_eq_Suc add.commute)
    then show ?thesis using ne e ih unfolding step by (simp add: True consecutiveLoop.simps [of bits ?L e])
  next
    case False
    then have "consecutiveLoop bits (Suc i) e \<longleftrightarrow> (\<forall>t < w. bits ! ((Suc i + t) mod ?L) + 1 = 0)"
      using Suc.prems by (intro Suc.IH) auto
    then show ?thesis using False ne e Suc.prems by (simp add: consecutiveLoop.simps [of bits i] step)
  qed
qed

text \<open>
  In unwrapped positions, a run from \<open>p\<close> to \<open>q\<close> is a tail of the first word, some full words and a head of the last.
\<close>

definition ubit :: "u64 list \<Rightarrow> nat \<Rightarrow> bool" where
  "ubit bits x = bit (bits ! ((x div 64) mod length bits)) (x mod 64)"

lemma fbit_mod: "fbit bits (x mod (64 * length bits)) = ubit bits x"
proof -
  have "x mod (64 * length bits) div 64 = (x div 64) mod length bits" by (simp add: mod_mult2_eq)
  moreover have "x mod (64 * length bits) mod 64 = x mod 64" by (simp add: mod_mult2_eq)
  ultimately show ?thesis by (simp add: fbit_def ubit_def)
qed

lemma mod_le_of_div_eq: "a mod n \<le> b mod n" if "a \<le> b" "a div n = b div n" for a b n :: nat
  using that mult_div_mod_eq [of n a] mult_div_mod_eq [of n b] by (metis add_le_cancel_left)

lemma Suc_mod_neq: "Suc a mod n \<noteq> a" if "a < n" "2 \<le> n"
  using that by (simp add: mod_Suc)

lemma run_split:
  fixes p q :: nat
  assumes "p div 64 < q div 64"
  shows "(\<forall>x. p \<le> x \<and> x \<le> q \<longrightarrow> P (x div 64) (x mod 64)) \<longleftrightarrow>
    (\<forall>j. p mod 64 \<le> j \<and> j < 64 \<longrightarrow> P (p div 64) j) \<and>
    (\<forall>i. p div 64 < i \<and> i < q div 64 \<longrightarrow> (\<forall>j < 64. P i j)) \<and>
    (\<forall>j \<le> q mod 64. P (q div 64) j)" (is "?l = (?a \<and> ?b \<and> ?c)")
proof
  assume l: ?l
  have at: "P i j" if "j < 64" "p \<le> 64 * i + j" "64 * i + j \<le> q" for i j
    using l [rule_format, of "64 * i + j"] that by (simp add: algebra_simps)
  have ?a
  proof (intro allI impI)
    fix j assume j: "p mod 64 \<le> j \<and> j < 64"
    then have "p \<le> 64 * (p div 64) + j" "64 * (p div 64) + j \<le> q"
      using assms mult_div_mod_eq [of 64 p] mult_div_mod_eq [of 64 q] by linarith+
    with j show "P (p div 64) j" by (intro at) auto
  qed
  moreover have ?b
  proof (intro allI impI)
    fix i j :: nat assume "p div 64 < i \<and> i < q div 64" "j < 64"
    then show "P i j" by (intro at) linarith+
  qed
  moreover have ?c
  proof (intro allI impI)
    fix j assume j: "j \<le> q mod 64"
    moreover have "q mod 64 < 64" by simp
    ultimately have "j < 64" "64 * (q div 64) + j \<le> q" using mult_div_mod_eq [of 64 q] by linarith+
    with assms show "P (q div 64) j" by (intro at) linarith+
  qed
  ultimately show "?a \<and> ?b \<and> ?c" by blast
next
  assume r: "?a \<and> ?b \<and> ?c"
  show ?l
  proof (intro allI impI)
    fix x assume x: "p \<le> x \<and> x \<le> q"
    then have "p div 64 \<le> x div 64" "x div 64 \<le> q div 64" by (auto intro: div_le_mono)
    then consider "x div 64 = p div 64" | "p div 64 < x div 64" "x div 64 < q div 64" | "x div 64 = q div 64" by linarith
    then show "P (x div 64) (x mod 64)"
    proof cases
      case 1
      then have "p mod 64 \<le> x mod 64" using x by (simp add: mod_le_of_div_eq)
      then show ?thesis using r 1 by simp
    next
      case 3
      then have "x mod 64 \<le> q mod 64" using x by (simp add: mod_le_of_div_eq)
      then show ?thesis using r 3 by simp
    qed (use r in simp)
  qed
qed

lemma wordwise_run:
  fixes bits :: "u64 list"
  defines "L \<equiv> length bits"
  assumes L: "2 \<le> L" and si: "p div 64 < L" and d: "d < 64 * L"
  defines "q \<equiv> p + d"
  defines "ei \<equiv> (q div 64) mod L"
  shows "(if p div 64 = ei \<and> d \<le> 64 then
        \<forall>j. p mod 64 \<le> j \<and> j \<le> q mod 64 \<longrightarrow> bit (bits ! (p div 64)) j
      else (\<forall>j. p mod 64 \<le> j \<and> j < 64 \<longrightarrow> bit (bits ! (p div 64)) j) \<and>
        consecutiveLoop bits (p div 64 + 1) ei \<and> (\<forall>j. 0 \<le> j \<and> j \<le> q mod 64 \<longrightarrow> bit (bits ! ei) j))
    \<longleftrightarrow> (\<forall>x. p \<le> x \<and> x \<le> q \<longrightarrow> ubit bits x)"
proof (cases "p div 64 = q div 64")
  case True
  then have e: "ei = p div 64" "d \<le> 64" using si by (auto simp: ei_def q_def)
  have "(\<forall>j. p mod 64 \<le> j \<and> j \<le> q mod 64 \<longrightarrow> bit (bits ! (p div 64)) j) \<longleftrightarrow> (\<forall>x. p \<le> x \<and> x \<le> q \<longrightarrow> ubit bits x)"
  proof (intro iffI allI impI)
    fix x assume h: "\<forall>j. p mod 64 \<le> j \<and> j \<le> q mod 64 \<longrightarrow> bit (bits ! (p div 64)) j" and x: "p \<le> x \<and> x \<le> q"
    then have xd: "x div 64 = p div 64" using True by (metis div_le_mono order_antisym)
    then have "p mod 64 \<le> x mod 64" "x mod 64 \<le> q mod 64" using x True by (simp_all add: mod_le_of_div_eq)
    then show "ubit bits x" using h si xd by (simp add: ubit_def L_def)
  next
    fix j assume h: "\<forall>x. p \<le> x \<and> x \<le> q \<longrightarrow> ubit bits x" and j: "p mod 64 \<le> j \<and> j \<le> q mod 64"
    let ?x = "64 * (p div 64) + j"
    have "j < 64" using j by (meson le_less_trans mod_less_divisor zero_less_numeral)
    moreover have "p \<le> ?x" using j by (metis add_left_mono mult_div_mod_eq)
    moreover have "?x \<le> q" using j True by (metis add_left_mono mult_div_mod_eq)
    ultimately show "bit (bits ! (p div 64)) j" using h [rule_format, of ?x] si by (simp add: ubit_def L_def)
  qed
  then show ?thesis using e by simp
next
  case False
  let ?w = "q div 64 - p div 64 - 1"
  have lt: "p div 64 < q div 64" using False by (auto simp: q_def le_neq_trans div_le_mono)
  have up: "q div 64 \<le> p div 64 + L" using d unfolding q_def by linarith
  have "\<not> (p div 64 = ei \<and> d \<le> 64)"
  proof
    assume "p div 64 = ei \<and> d \<le> 64"
    then have "p div 64 = q div 64 mod L" "q div 64 \<le> p div 64 + 1" by (auto simp: ei_def q_def)
    then have "p div 64 + 1 = q div 64" using lt by linarith
    then show False using \<open>p div 64 = q div 64 mod L\<close> Suc_mod_neq [OF si L] by simp
  qed
  moreover have "consecutiveLoop bits (p div 64 + 1) ei \<longleftrightarrow> (\<forall>i. p div 64 < i \<and> i < q div 64 \<longrightarrow> (\<forall>j < 64. bit (bits ! (i mod L)) j))"
  proof -
    have "consecutiveLoop bits (p div 64 + 1) ei \<longleftrightarrow> (\<forall>t < ?w. bits ! ((p div 64 + 1 + t) mod L) + 1 = 0)"
      unfolding L_def using lt up si by (intro consecutiveLoop_iff) (auto simp: L_def ei_def)
    also have "\<dots> \<longleftrightarrow> (\<forall>i. p div 64 < i \<and> i < q div 64 \<longrightarrow> bits ! (i mod L) + 1 = 0)"
    proof (intro iffI allI impI)
      fix i assume "\<forall>t < ?w. bits ! ((p div 64 + 1 + t) mod L) + 1 = 0" "p div 64 < i \<and> i < q div 64"
      then show "bits ! (i mod L) + 1 = 0" by (auto dest!: spec [of _ "i - (p div 64 + 1)"])
    qed auto
    finally show ?thesis by (simp add: full_word)
  qed
  moreover have "p div 64 mod L = p div 64" using si by simp
  moreover have "(\<forall>x. p \<le> x \<and> x \<le> q \<longrightarrow> ubit bits x) = (\<forall>x. p \<le> x \<and> x \<le> q \<longrightarrow> bit (bits ! (x div 64 mod L)) (x mod 64))"
    by (simp add: ubit_def L_def)
  ultimately show ?thesis
    using run_split [OF lt, of "\<lambda>i j. bit (bits ! (i mod L)) j"] by (simp only: if_False ei_def) simp
qed

lemma PacketsConsecutive_bits:
  assumes wf: "ph_wf ph" and b: "ph_base ph \<le> start" and le: "start \<le> end'"
    and d: "unat end' - unat start < ph_packetCount ph"
  shows "PacketsConsecutive ph start end' \<longleftrightarrow>
    (\<forall>x. ph_idx ph start \<le> x \<and> x \<le> ph_idx ph start + (unat end' - unat start) \<longrightarrow> ubit (ph_bits ph) x)"
proof -
  let ?p = "ph_idx ph start" and ?d = "unat end' - unat start" and ?bits = "ph_bits ph"
  let ?L = "length ?bits" and ?q = "ph_idx ph start + (unat end' - unat start)"
  have L: "2 \<le> ?L" and pc: "ph_packetCount ph = 64 * ?L" using wf by (auto simp: ph_wf_def)
  have p: "?p < 64 * ?L" using ph_idx_less [OF wf, of start] pc by simp
  have e: "ph_base ph \<le> end'" using b le by simp
  have "ph_idx ph end' = ?q mod (64 * ?L)"
    using ph_idx_add [OF b le] by (simp add: pc)
  then have pos: "ph_getPos ph start = (?p div 64, ?p mod 64)" "ph_getPos ph end' = (?q div 64 mod ?L, ?q mod 64)"
    using ph_getPos_idx [OF wf b] ph_getPos_idx [OF wf e] by (simp_all add: mod_mult2_eq)
  have size: "\<not> end' < start" "\<not> of_nat (ph_packetCount ph) \<le> end' - start" "end' - start \<le> 64 \<longleftrightarrow> ?d \<le> 64"
    using wf le d take_bit_nat_eq_self [of "ph_packetCount ph" 64] unat_of_nat [of "ph_packetCount ph", where 'a = 64]
    by (auto simp: word_le_nat_alt word_less_nat_alt unat_sub ph_wf_def)
  have one: "?p mod 64 \<le> ?q mod 64" if "?p div 64 = ?q div 64 mod ?L" "?d \<le> 64"
  proof -
    have "?q div 64 = ?p div 64"
    proof (rule ccontr)
      assume "?q div 64 \<noteq> ?p div 64"
      then have "?q div 64 = Suc (?p div 64)" using that(2) by linarith
      moreover have "?p div 64 < ?L" using p by auto
      ultimately show False using that(1) Suc_mod_neq [OF _ L, of "?p div 64"] by metis
    qed
    then show ?thesis by (simp add: mod_le_of_div_eq)
  qed
  have "PacketsConsecutive ph start end' \<longleftrightarrow>
     (if ?p div 64 = ?q div 64 mod ?L \<and> ?d \<le> 64 then
        \<forall>j. ?p mod 64 \<le> j \<and> j \<le> ?q mod 64 \<longrightarrow> bit (?bits ! (?p div 64)) j
      else (\<forall>j. ?p mod 64 \<le> j \<and> j < 64 \<longrightarrow> bit (?bits ! (?p div 64)) j) \<and>
        consecutiveLoop ?bits (?p div 64 + 1) (?q div 64 mod ?L) \<and>
        (\<forall>j. 0 \<le> j \<and> j \<le> ?q mod 64 \<longrightarrow> bit (?bits ! (?q div 64 mod ?L)) j))"
    unfolding PacketsConsecutive_def pos Let_def prod.case if_not_P [OF size(1)] if_not_P [OF size(2)] size(3)
    using ones_at [of "?p mod 64" "?q mod 64"] ones_at [of 0 "?q mod 64"] high_ones [of "?p mod 64"] one
    by simp
  also have "\<dots> \<longleftrightarrow> (\<forall>x. ?p \<le> x \<and> x \<le> ?q \<longrightarrow> ubit ?bits x)"
    using L p d pc by (intro wordwise_run) auto
  finally show ?thesis .
qed

lemma PacketsConsecutive_iff:
  assumes wf: "ph_wf ph" and b: "ph_base ph \<le> start"
  shows "PacketsConsecutive ph start end' \<longleftrightarrow>
    start \<le> end' \<and> unat end' - unat start < ph_packetCount ph \<and>
    (\<forall>s. start \<le> s \<and> s \<le> end' \<longrightarrow> fbit (ph_bits ph) (ph_idx ph s))"
proof (cases "start \<le> end' \<and> unat end' - unat start < ph_packetCount ph")
  case False
  then have "start > end' \<or> of_nat (ph_packetCount ph) \<le> end' - start"
    using wf take_bit_nat_eq_self [of "ph_packetCount ph" 64] unat_of_nat [of "ph_packetCount ph", where 'a = 64]
    by (auto simp: word_le_nat_alt word_less_nat_alt unat_sub ph_wf_def not_le)
  then show ?thesis using False by (auto simp: PacketsConsecutive_def)
next
  case True
  let ?p = "ph_idx ph start" and ?d = "unat end' - unat start" and ?a = "unat start - unat (ph_base ph)"
  have pc: "ph_packetCount ph = 64 * length (ph_bits ph)" using wf by (simp add: ph_wf_def)
  have at: "fbit (ph_bits ph) (ph_idx ph s) = ubit (ph_bits ph) (?p + (unat s - unat start))" if "start \<le> s" for s
  proof -
    have "ph_idx ph s = (?p + (unat s - unat start)) mod (64 * length (ph_bits ph))"
      using ph_idx_add [OF b that] by (simp add: pc)
    then show ?thesis by (simp add: fbit_mod)
  qed
  have "(\<forall>x. ?p \<le> x \<and> x \<le> ?p + ?d \<longrightarrow> ubit (ph_bits ph) x) \<longleftrightarrow>
      (\<forall>s. start \<le> s \<and> s \<le> end' \<longrightarrow> fbit (ph_bits ph) (ph_idx ph s))"
  proof (intro iffI allI impI)
    fix x assume h: "\<forall>s. start \<le> s \<and> s \<le> end' \<longrightarrow> fbit (ph_bits ph) (ph_idx ph s)" and x: "?p \<le> x \<and> x \<le> ?p + ?d"
    from x obtain t where t: "x = ?p + t" "t \<le> ?d" by (auto simp: le_iff_add)
    let ?s = "start + of_nat t"
    have "unat start + t < 2 ^ 64" using t conjunct1 [OF True] u64_lt [of end'] by (simp add: word_le_nat_alt)
    then have u: "unat ?s = unat start + t"
      by (simp add: unat_word_ariths unat_of_nat take_bit_nat_eq_self)
    then have "start \<le> ?s" "?s \<le> end'" using t True by (auto simp: word_le_nat_alt)
    then show "ubit (ph_bits ph) x" using h at [of ?s] u t by simp
  next
    fix s assume h: "\<forall>x. ?p \<le> x \<and> x \<le> ?p + ?d \<longrightarrow> ubit (ph_bits ph) x" and s: "start \<le> s \<and> s \<le> end'"
    then have "unat s - unat start \<le> ?d" by (simp add: word_le_nat_alt diff_le_mono)
    then show "fbit (ph_bits ph) (ph_idx ph s)" using h at s by simp
  qed
  then show ?thesis using True PacketsConsecutive_bits [OF wf b] by blast
qed

section \<open>The history\<close>

lemma ph_idx_distinct:
  assumes "ph_base ph \<le> s" "s < t" "unat t - unat s < ph_packetCount ph"
  shows "ph_idx ph s \<noteq> ph_idx ph t"
  unfolding ph_idx_def using assms by (intro ring_distinct) (auto simp: word_le_nat_alt word_less_nat_alt)

text \<open>What the bitmap says of the packets \<open>R\<close> that have been added: nothing outside the window.\<close>

definition ph_window :: "PacketHistory \<Rightarrow> u64 \<Rightarrow> bool" where
  "ph_window ph s \<longleftrightarrow> ph_base ph < s \<and> s \<le> ph_last ph \<and> unat (ph_last ph) - unat s < ph_packetCount ph"

definition ph_inv :: "u64 set \<Rightarrow> PacketHistory \<Rightarrow> bool" where
  "ph_inv R ph \<longleftrightarrow> ph_wf ph \<and>
     (if ph_inited ph then ph_base ph \<le> ph_last ph \<and> (\<forall>s \<in> R. s \<le> ph_last ph) \<and>
        (\<forall>s. ph_window ph s \<longrightarrow> (fbit (ph_bits ph) (ph_idx ph s) \<longleftrightarrow> s \<in> R))
      else R = {} \<and> (\<forall>k < ph_packetCount ph. \<not> fbit (ph_bits ph) k))"

lemma ph_last_far:
  assumes "ph_wf ph" "x \<le> ph_last ph"
  shows "ph_last ph - x < of_nat (ph_packetCount ph) \<longleftrightarrow> unat (ph_last ph) - unat x < ph_packetCount ph"
  using assms take_bit_nat_eq_self [of "ph_packetCount ph" 64] unat_of_nat [of "ph_packetCount ph", where 'a = 64]
  by (auto simp: word_less_nat_alt unat_sub ph_wf_def)

lemma ph_inv_New:
  assumes "64 < n" "n < 2 ^ 63"
  shows "ph_inv {} (NewPacketHistory n)"
proof -
  have "2 \<le> (n + 63) div 64" "(n + 63) div 64 * 64 < 2 ^ 64" using assms by auto
  then show ?thesis
    by (auto simp: ph_inv_def ph_wf_def NewPacketHistory_def Let_def fbit_def algebra_simps)
qed

lemma ph_clear_select:
  "ph_base (fold (\<lambda>i. ph_set (of_nat i) False) is ph) = ph_base ph"
  "ph_packetCount (fold (\<lambda>i. ph_set (of_nat i) False) is ph) = ph_packetCount ph"
  "ph_inited (fold (\<lambda>i. ph_set (of_nat i) False) is ph) = ph_inited ph"
  "ph_wf (fold (\<lambda>i. ph_set (of_nat i) False) is ph) = ph_wf ph"
  "ph_idx (fold (\<lambda>i. ph_set (of_nat i) False) is ph) t = ph_idx ph t"
  by (induction "is" arbitrary: ph) simp_all

lemma fbit_clear:
  assumes "ph_wf ph" "\<forall>i \<in> set is. ph_base ph \<le> (of_nat i :: u64)" "k < ph_packetCount ph"
  shows "fbit (ph_bits (fold (\<lambda>i. ph_set (of_nat i) False) is ph)) k \<longleftrightarrow>
    fbit (ph_bits ph) k \<and> (\<forall>i \<in> set is. k \<noteq> ph_idx ph (of_nat i))"
  using assms by (induction "is" arbitrary: ph) (auto simp: fbit_set)

lemma ph_inv_forward:
  assumes inv: "ph_inv R ph" and i: "ph_inited ph" and x: "ph_last ph < x"
  shows "ph_inv (insert x R) (ph_AddPacket x ph)"
proof -
  let ?is = "[unat (ph_last ph) + 1..<unat x]"
  let ?c = "fold (\<lambda>i. ph_set (of_nat i) False) ?is ph"
  have wf: "ph_wf ph" and bl: "ph_base ph \<le> ph_last ph" and R: "\<forall>s \<in> R. s \<le> ph_last ph"
    and bit: "\<And>s. ph_window ph s \<Longrightarrow> fbit (ph_bits ph) (ph_idx ph s) \<longleftrightarrow> s \<in> R"
    using inv i by (auto simp: ph_inv_def)
  have bx: "ph_base ph < x" using bl x by simp
  have of_nat_is: "i \<in> set ?is \<longleftrightarrow> ph_last ph < of_nat i \<and> of_nat i < x" if "i < 2 ^ 64" for i
    using that by (auto simp: word_less_nat_alt unat_of_nat take_bit_nat_eq_self)
  have "\<forall>i \<in> set ?is. ph_base ph \<le> of_nat i"
    using bl u64_lt [of x] by (auto simp: word_le_nat_alt unat_of_nat take_bit_nat_eq_self)
  note cl = fbit_clear [OF wf this]
  have Add: "ph_AddPacket x ph = (ph_set x True ?c)\<lparr>ph_last := x\<rparr>"
    using i x bx by (simp add: ph_AddPacket_def not_le)
  have "fbit (ph_bits (ph_set x True ?c)) (ph_idx ph s) \<longleftrightarrow> s = x \<or> s \<in> R"
    if s: "ph_base ph < s" "s \<le> x" "unat x - unat s < ph_packetCount ph" for s
  proof (cases "s = x")
    case True
    then show ?thesis using wf bx by (simp add: fbit_set ph_clear_select ph_idx_less)
  next
    case False
    then have sx: "s < x" using s by simp
    have ne: "ph_idx ph s \<noteq> ph_idx ph x" using s sx by (intro ph_idx_distinct) auto
    have f: "fbit (ph_bits (ph_set x True ?c)) (ph_idx ph s) \<longleftrightarrow>
        fbit (ph_bits ph) (ph_idx ph s) \<and> (\<forall>i \<in> set ?is. ph_idx ph s \<noteq> ph_idx ph (of_nat i))"
      using wf bx ne cl [OF ph_idx_less [OF wf]] by (simp add: fbit_set ph_clear_select ph_idx_less)
    show ?thesis
    proof (cases "s \<le> ph_last ph")
      case True
      have "ph_idx ph s \<noteq> ph_idx ph (of_nat i)" if "i \<in> set ?is" for i
        using that True s u64_lt [of x]
        by (intro ph_idx_distinct) (auto simp: word_le_nat_alt word_less_nat_alt unat_of_nat take_bit_nat_eq_self)
      moreover have "ph_window ph s" using True s x by (auto simp: ph_window_def word_less_nat_alt)
      ultimately show ?thesis using f bit False by auto
    next
      case l: False
      then have "unat s \<in> set ?is" using sx by (auto simp: word_le_nat_alt word_less_nat_alt)
      then have "\<not> fbit (ph_bits (ph_set x True ?c)) (ph_idx ph s)" using f by force
      then show ?thesis using l False R by auto
    qed
  qed
  then show ?thesis
    using wf bx R x i by (auto simp: ph_inv_def Add ph_clear_select ph_window_def ph_idx_def)
qed

lemma ph_inv_AddPacket:
  assumes inv: "ph_inv R ph"
  shows "ph_inv (insert x R) (ph_AddPacket x ph)"
proof (cases "ph_inited ph")
  case False
  let ?b = "if x > 100 then x - 100 else 0"
  let ?ph = "ph\<lparr>ph_inited := True, ph_base := ?b, ph_last := x\<rparr>"
  have b: "?b \<le> x" by (simp add: word_le_nat_alt word_less_nat_alt unat_sub_if')
  have wf: "ph_wf ?ph" and "R = {}" and z: "\<And>k. k < ph_packetCount ph \<Longrightarrow> \<not> fbit (ph_bits ph) k"
    using inv False by (auto simp: ph_inv_def)
  have "fbit (ph_bits (ph_set x True ?ph)) (ph_idx ?ph s) \<longleftrightarrow> s = x" if s: "?b < s" "s \<le> x" "unat x - unat s < ph_packetCount ph" for s
  proof (cases "s = x")
    case True
    then show ?thesis using fbit_set [OF wf, of x "ph_idx ?ph x" True] b ph_idx_less [OF wf, of x] by simp
  next
    case ne: False
    have "ph_idx ?ph s \<noteq> ph_idx ?ph x" using s ne by (intro ph_idx_distinct) auto
    moreover have "\<not> fbit (ph_bits ph) (ph_idx ?ph s)" using ph_idx_less [OF wf, of s] by (intro z) simp
    ultimately show ?thesis using fbit_set [OF wf, of x "ph_idx ?ph s" True] b ph_idx_less [OF wf, of s] ne by simp
  qed
  then show ?thesis using wf b \<open>R = {}\<close> False
    by (auto simp: ph_inv_def ph_AddPacket_def ph_window_def)
next
  case True
  consider "ph_last ph < x" | "x \<le> ph_last ph" "x \<le> ph_base ph \<or> ph_packetCount ph \<le> unat (ph_last ph) - unat x"
    | "x \<le> ph_last ph" "ph_base ph < x" "unat (ph_last ph) - unat x < ph_packetCount ph" by fastforce
  then show ?thesis
  proof cases
    case 1
    then show ?thesis using ph_inv_forward [OF inv True] by simp
  next
    case 2
    then have "ph_AddPacket x ph = ph" using True inv by (auto simp: ph_AddPacket_def ph_inv_def ph_last_far)
    moreover have "\<not> ph_window ph x" using 2 by (auto simp: ph_window_def)
    ultimately show ?thesis using inv 2 True by (auto simp: ph_inv_def)
  next
    case 3
    have wf: "ph_wf ph" using inv by (simp add: ph_inv_def)
    have "ph_AddPacket x ph = ph_set x True ph" using True 3 wf by (auto simp: ph_AddPacket_def ph_last_far)
    moreover have "ph_idx ph s \<noteq> ph_idx ph x" if "ph_window ph s" "s \<noteq> x" for s
    proof (cases "s < x")
      case True
      then have "unat x - unat s < ph_packetCount ph" using that 3 by (auto simp: ph_window_def word_le_nat_alt)
      then show ?thesis using True that by (intro ph_idx_distinct) (auto simp: ph_window_def)
    next
      case False
      then have "x < s" "unat s - unat x < ph_packetCount ph" using that 3 by (auto simp: ph_window_def word_le_nat_alt)
      then show ?thesis using 3 ph_idx_distinct [of ph x s] by fastforce
    qed
    ultimately show ?thesis using inv 3 True wf
      by (auto simp: ph_inv_def fbit_set ph_idx_less ph_window_def)
  qed
qed

lemma ph_inv_fold: "ph_inv R ph \<Longrightarrow> ph_inv (set xs \<union> R) (fold ph_AddPacket xs ph)"
  by (induction xs arbitrary: R ph) (force dest: ph_inv_AddPacket)+

section \<open>Frames\<close>

lemma updFrame_select [simp]:
  "fc_base (updFrame f n fc) = fc_base fc" "fc_last (updFrame f n fc) = fc_last fc"
  "fc_frameCount (updFrame f n fc) = fc_frameCount fc" "fc_pktHistory (updFrame f n fc) = fc_pktHistory fc"
  "fc_inited (updFrame f n fc) = fc_inited fc" "length (fc_frames (updFrame f n fc)) = length (fc_frames fc)"
  "fc_slot (updFrame f n fc) m = fc_slot fc m"
  by (simp_all add: updFrame_def fc_slot_def)

lemma reset_select [simp]:
  "fc_base (fold (\<lambda>i. updFrame fe_Reset (of_nat i)) is fc) = fc_base fc"
  "fc_last (fold (\<lambda>i. updFrame fe_Reset (of_nat i)) is fc) = fc_last fc"
  "fc_frameCount (fold (\<lambda>i. updFrame fe_Reset (of_nat i)) is fc) = fc_frameCount fc"
  "fc_pktHistory (fold (\<lambda>i. updFrame fe_Reset (of_nat i)) is fc) = fc_pktHistory fc"
  "fc_inited (fold (\<lambda>i. updFrame fe_Reset (of_nat i)) is fc) = fc_inited fc"
  "length (fc_frames (fold (\<lambda>i. updFrame fe_Reset (of_nat i)) is fc)) = length (fc_frames fc)"
  "fc_slot (fold (\<lambda>i. updFrame fe_Reset (of_nat i)) is fc) m = fc_slot fc m"
  by (induction "is" arbitrary: fc) simp_all

definition frame_at :: "FrameIntegrityChecker \<Rightarrow> u64 \<Rightarrow> FrameEntity" where
  "frame_at fc f = fc_frames fc ! fc_slot fc f"

definition fc_window :: "FrameIntegrityChecker \<Rightarrow> u64 \<Rightarrow> bool" where
  "fc_window fc f \<longleftrightarrow> fc_base fc \<le> f \<and> f \<le> fc_last fc \<and> unat (fc_last fc) - unat f < fc_frameCount fc"

type_synonym event = "u64 \<times> u64 \<times> DependencyDescriptor"

text \<open>A frame that has a start (an end) got it from one of its packets that was marked as first (last).\<close>

definition fe_from :: "event set \<Rightarrow> u64 \<Rightarrow> FrameEntity \<Rightarrow> bool" where
  "fe_from E f fe \<longleftrightarrow>
     (\<forall>s. fe_startSeq fe = Some s \<longrightarrow> (\<exists>d. (s, f, d) \<in> E \<and> FirstPacketInFrame d)) \<and>
     (\<forall>e. fe_endSeq fe = Some e \<longrightarrow> (\<exists>d. (e, f, d) \<in> E \<and> LastPacketInFrame d))"

definition fc_inv :: "event set \<Rightarrow> FrameIntegrityChecker \<Rightarrow> bool" where
  "fc_inv E fc \<longleftrightarrow> length (fc_frames fc) = fc_frameCount fc \<and> 0 < fc_frameCount fc \<and> fc_frameCount fc < 2 ^ 63 \<and>
     ph_inv (fst ` E) (fc_pktHistory fc) \<and>
     (if fc_inited fc then fc_base fc \<le> fc_last fc \<and> (\<forall>f. fc_window fc f \<longrightarrow> fe_from E f (frame_at fc f))
      else \<forall>fe \<in> set (fc_frames fc). fe_startSeq fe = None \<and> fe_endSeq fe = None \<and> \<not> fe_integrity fe)"

lemma fc_slot_less: "fc_inv E fc \<Longrightarrow> fc_slot fc f < length (fc_frames fc)"
  by (simp add: fc_inv_def fc_slot_def)

lemma frame_at_upd:
  assumes "fc_slot fc f < length (fc_frames fc)"
  shows "frame_at (updFrame g f fc) f' = (if fc_slot fc f' = fc_slot fc f then g (frame_at fc f) else frame_at fc f')"
  using assms by (simp add: frame_at_def updFrame_def fc_slot_def)

lemma fe_Reset_idem [simp]: "fe_Reset (fe_Reset fe) = fe_Reset fe"
  by (simp add: fe_Reset_def)

lemma frame_at_reset:
  assumes "0 < length (fc_frames fc)" "length (fc_frames fc) = fc_frameCount fc"
  shows "frame_at (fold (\<lambda>i. updFrame fe_Reset (of_nat i)) is fc) f =
    (if \<exists>i \<in> set is. fc_slot fc f = fc_slot fc (of_nat i) then fe_Reset (frame_at fc f) else frame_at fc f)"
  using assms
proof (induction "is" arbitrary: fc)
  case (Cons i "is")
  have l: "fc_slot fc (of_nat i) < length (fc_frames fc)" using Cons.prems by (simp add: fc_slot_def)
  have "frame_at (updFrame fe_Reset (of_nat i) fc) f =
      (if fc_slot fc f = fc_slot fc (of_nat i) then fe_Reset (frame_at fc f) else frame_at fc f)"
    by (simp add: frame_at_upd [OF l]) (simp add: frame_at_def)
  then show ?case using Cons by auto
qed simp

lemma fc_slot_distinct:
  assumes "fc_base fc \<le> f" "f < g" "unat g - unat f < fc_frameCount fc"
  shows "fc_slot fc f \<noteq> fc_slot fc g"
proof -
  have "fc_base fc \<le> g" using assms by simp
  then show ?thesis unfolding fc_slot_def using assms
    by (intro ring_distinct) (auto simp: unat_sub word_le_nat_alt word_less_nat_alt)
qed

lemma fc_slot_window:
  assumes "fc_window fc f" "fc_window fc g" "f \<noteq> g"
  shows "fc_slot fc f \<noteq> fc_slot fc g"
proof -
  have "fc_slot fc a \<noteq> fc_slot fc b" if "fc_window fc a" "fc_window fc b" "a < b" for a b
  proof -
    have "unat b - unat a < fc_frameCount fc" using that by (auto simp: fc_window_def word_le_nat_alt)
    then show ?thesis using that by (intro fc_slot_distinct) (auto simp: fc_window_def)
  qed
  from this [of f g] this [of g f] show ?thesis using assms by (metis linorder_neqE)
qed

text \<open>The effect of a packet on its frame.\<close>

lemma fe_AddPacket_from:
  assumes "fe_from E f fe"
  shows "fe_from (insert (x, f, d) E) f (fe_AddPacket ph x d fe)"
  using assms by (auto simp: fe_from_def fe_AddPacket_def Let_def split: option.splits)

lemma fe_AddPacket_integrity:
  assumes "fe_integrity (fe_AddPacket ph x d fe)" "\<not> fe_integrity fe"
  obtains s e where "fe_startSeq (fe_AddPacket ph x d fe) = Some s" "fe_endSeq (fe_AddPacket ph x d fe) = Some e"
    "PacketsConsecutive ph s e"
  using assms by (auto simp: fe_AddPacket_def Let_def split: option.splits if_splits)

lemma fe_from_mono: "fe_from E f fe \<Longrightarrow> E \<subseteq> E' \<Longrightarrow> fe_from E' f fe"
  unfolding fe_from_def by blast

lemma fe_from_Reset [simp]: "fe_from E f (fe_Reset fe)"
  by (simp add: fe_from_def fe_Reset_def)

text \<open>
  The three branches of \<open>AddPacket\<close> on the frames: the packet reaches the frame it belongs to, and the frames that enter
  the window are reset first.
\<close>

definition fc_prepare :: "u64 \<Rightarrow> u64 \<Rightarrow> FrameIntegrityChecker \<Rightarrow> FrameIntegrityChecker" where
  "fc_prepare x f fc =
     (let fc = fc\<lparr>fc_pktHistory := ph_AddPacket x (fc_pktHistory fc)\<rparr>
      in if \<not> fc_inited fc then fc\<lparr>fc_inited := True, fc_base := f, fc_last := f\<rparr> else fc)"

lemma fc_AddPacket_prepare:
  "fc_AddPacket x f d fc =
     (let fc = fc_prepare x f fc in
      if f < fc_base fc then fc
      else if f \<le> fc_last fc then
        if fc_last fc - f \<ge> of_nat (fc_frameCount fc) then fc
        else updFrame (fe_AddPacket (fc_pktHistory fc) x d) f fc
      else (updFrame (fe_AddPacket (fc_pktHistory fc) x d) f
             (fold (\<lambda>i. updFrame fe_Reset (of_nat i)) [unat (fc_last fc) + 1..<unat f + 1] fc))\<lparr>fc_last := f\<rparr>)"
  by (simp add: fc_AddPacket_def fc_prepare_def Let_def)

lemma fc_prepare_inited [simp]: "fc_inited (fc_prepare x f fc)"
  by (simp add: fc_prepare_def Let_def)

lemma fc_inv_prepare:
  assumes "fc_inv E fc"
  shows "fc_inv (insert (x, f, d) E) (fc_prepare x f fc)"
proof (cases "fc_inited fc")
  case True
  then show ?thesis using assms ph_inv_AddPacket [of "fst ` E" "fc_pktHistory fc" x]
    by (auto simp: fc_inv_def fc_prepare_def fc_window_def frame_at_def fc_slot_def intro: fe_from_mono)
next
  case False
  have "fe_from (insert (x, f, d) E) g (fc_frames fc ! (unat (g - f) mod fc_frameCount fc))" for g
    using assms False by (auto simp: fc_inv_def fe_from_def)
  then show ?thesis using assms False ph_inv_AddPacket [of "fst ` E" "fc_pktHistory fc" x]
    by (auto simp: fc_inv_def fc_prepare_def Let_def fc_window_def frame_at_def fc_slot_def)
qed

lemma fc_far:
  assumes "fc_frameCount fc < 2 ^ 63" "f \<le> fc_last fc"
  shows "fc_last fc - f \<ge> of_nat (fc_frameCount fc) \<longleftrightarrow> fc_frameCount fc \<le> unat (fc_last fc) - unat f"
  using assms take_bit_nat_eq_self [of "fc_frameCount fc" 64] unat_of_nat [of "fc_frameCount fc", where 'a = 64]
  by (auto simp: word_le_nat_alt unat_sub)

lemma frame_at_last [simp]: "frame_at (fc\<lparr>fc_last := l\<rparr>) f = frame_at fc f"
  by (simp add: frame_at_def fc_slot_def)

text \<open>What a packet of frame \<open>f\<close> leaves in the slots of the window.\<close>

lemma fc_AddPacket_frames:
  assumes inv: "fc_inv E fc" and p: "p = fc_prepare x f fc" and w: "fc_window (fc_AddPacket x f d fc) g"
  shows "g = f \<and> frame_at (fc_AddPacket x f d fc) g = fe_AddPacket (fc_pktHistory p) x d (frame_at p f) \<and> fc_window p f \<or>
    g = f \<and> frame_at (fc_AddPacket x f d fc) g = fe_AddPacket (fc_pktHistory p) x d (fe_Reset (frame_at p f)) \<and> fc_last p < f \<or>
    g \<noteq> f \<and> frame_at (fc_AddPacket x f d fc) g = frame_at p g \<and> fc_window p g \<or>
    g \<noteq> f \<and> frame_at (fc_AddPacket x f d fc) g = fe_Reset (frame_at p g)"
proof -
  have P: "fc_inv (insert (x, f, d) E) p" using fc_inv_prepare [OF inv] p by simp
  have len: "length (fc_frames p) = fc_frameCount p" "0 < fc_frameCount p" "fc_frameCount p < 2 ^ 63" and bl: "fc_base p \<le> fc_last p"
    using P p by (auto simp: fc_inv_def)
  have sl: "fc_slot p h < length (fc_frames p)" for h using len by (simp add: fc_slot_def)
  consider (old) "f < fc_base p \<or> (f \<le> fc_last p \<and> fc_frameCount p \<le> unat (fc_last p) - unat f)"
    | (known) "fc_window p f" | (new) "fc_last p < f"
    unfolding fc_window_def by (metis linorder_not_less)
  then show ?thesis
  proof cases
    case old
    then have "fc_AddPacket x f d fc = p"
      using len bl by (auto simp: fc_AddPacket_prepare p [symmetric] Let_def fc_far)
    then show ?thesis using w old by (auto simp: fc_window_def)
  next
    case known
    then have A: "fc_AddPacket x f d fc = updFrame (fe_AddPacket (fc_pktHistory p) x d) f p"
      using len by (auto simp: fc_AddPacket_prepare p [symmetric] Let_def fc_far fc_window_def)
    have "fc_slot p g \<noteq> fc_slot p f" if "g \<noteq> f"
      using that w known by (intro fc_slot_window) (auto simp: fc_window_def A)
    then show ?thesis using w known by (auto simp: A frame_at_upd [OF sl] fc_window_def)
  next
    case new
    let ?is = "[unat (fc_last p) + 1..<unat f + 1]"
    let ?r = "fold (\<lambda>i. updFrame fe_Reset (of_nat i)) ?is p"
    have A: "fc_AddPacket x f d fc = (updFrame (fe_AddPacket (fc_pktHistory p) x d) f ?r)\<lparr>fc_last := f\<rparr>"
      using new bl by (auto simp: fc_AddPacket_prepare p [symmetric] Let_def)
    have r: "frame_at ?r h = (if \<exists>i \<in> set ?is. fc_slot p h = fc_slot p (of_nat i) then fe_Reset (frame_at p h) else frame_at p h)" for h
      using len by (intro frame_at_reset) auto
    have f: "frame_at ?r f = fe_Reset (frame_at p f)"
      unfolding r using new by (intro if_P bexI [of _ "unat f"]) (auto simp: word_less_nat_alt)
    have "fc_slot p g \<noteq> fc_slot p f" if "g \<noteq> f"
      using that w by (intro fc_slot_distinct) (auto simp: fc_window_def A)
    moreover have "frame_at ?r g = frame_at p g \<and> fc_window p g \<or> frame_at ?r g = fe_Reset (frame_at p g)"
    proof (cases "g \<le> fc_last p")
      case True
      then have "fc_window p g" using w new by (auto simp: fc_window_def A word_le_nat_alt word_less_nat_alt)
      then show ?thesis unfolding r by metis
    next
      case False
      have "frame_at ?r g = fe_Reset (frame_at p g)"
        unfolding r using False w by (intro if_P bexI [of _ "unat g"]) (auto simp: fc_window_def A word_le_nat_alt)
      then show ?thesis by blast
    qed
    ultimately show ?thesis
      using new f by (auto simp: A frame_at_upd sl)
  qed
qed

lemma fc_AddPacket_select:
  "fc_frameCount (fc_AddPacket x f d fc) = fc_frameCount fc"
  "fc_pktHistory (fc_AddPacket x f d fc) = ph_AddPacket x (fc_pktHistory fc)"
  "fc_inited (fc_AddPacket x f d fc)" "length (fc_frames (fc_AddPacket x f d fc)) = length (fc_frames fc)"
  by (simp_all add: fc_AddPacket_def Let_def)

lemma fc_inv_AddPacket:
  assumes inv: "fc_inv E fc"
  shows "fc_inv (insert (x, f, d) E) (fc_AddPacket x f d fc)"
proof -
  define p where "p = fc_prepare x f fc"
  have P: "fc_inv (insert (x, f, d) E) p" using fc_inv_prepare [OF inv] by (simp add: p_def)
  then have at: "fc_window p g \<Longrightarrow> fe_from (insert (x, f, d) E) g (frame_at p g)" for g
    by (simp add: fc_inv_def p_def)
  have "fe_from (insert (x, f, d) E) g (frame_at (fc_AddPacket x f d fc) g)" if "fc_window (fc_AddPacket x f d fc) g" for g
    using fc_AddPacket_frames [OF inv p_def that] at [of g] fe_AddPacket_from [of "insert (x, f, d) E" f _ x d]
    by (elim disjE) auto
  moreover have "fc_base (fc_AddPacket x f d fc) \<le> fc_last (fc_AddPacket x f d fc)"
    using P by (auto simp: fc_AddPacket_prepare p_def Let_def fc_inv_def)
  ultimately show ?thesis
    using inv P by (auto simp: fc_inv_def fc_AddPacket_select p_def fc_prepare_def Let_def split: if_splits)
qed

abbreviation fc_run :: "nat \<Rightarrow> nat \<Rightarrow> event list \<Rightarrow> FrameIntegrityChecker" where
  "fc_run m n evs \<equiv> fold (\<lambda>(x, f, d). fc_AddPacket x f d) evs (NewFrameIntegrityChecker m n)"

lemma fc_inv_run:
  assumes "0 < m" "m < 2 ^ 63" "64 < n" "n < 2 ^ 63"
  shows "fc_inv (set evs) (fc_run m n evs)"
proof (induction evs rule: rev_induct)
  case Nil
  then show ?case using assms ph_inv_New [of n] by (auto simp: fc_inv_def NewFrameIntegrityChecker_def)
next
  case (snoc ev evs)
  then show ?case by (cases ev) (simp add: fc_inv_AddPacket)
qed

lemma FrameIntegrity_window:
  assumes "fc_inv E fc"
  shows "FrameIntegrity fc f \<longleftrightarrow> fc_window fc f \<and> fe_integrity (frame_at fc f)"
  using assms fc_far [of fc f] by (auto simp: FrameIntegrity_def fc_window_def frame_at_def fc_inv_def not_le not_less)

text \<open>A packet that completes a frame finds both ends known and a consecutive run between them.\<close>

lemma newly_complete:
  assumes inv: "fc_inv E fc" and no: "\<not> FrameIntegrity fc f"
    and w: "fc_window (fc_AddPacket x f d fc) f" "fe_integrity (frame_at (fc_AddPacket x f d fc) f)"
  shows "\<exists>s e. fe_startSeq (frame_at (fc_AddPacket x f d fc) f) = Some s \<and>
    fe_endSeq (frame_at (fc_AddPacket x f d fc) f) = Some e \<and> PacketsConsecutive (ph_AddPacket x (fc_pktHistory fc)) s e"
proof -
  define p where "p = fc_prepare x f fc"
  have ph: "fc_pktHistory p = ph_AddPacket x (fc_pktHistory fc)" by (simp add: p_def fc_prepare_def Let_def)
  have old: "\<not> fe_integrity (frame_at p f)" if "fc_window p f"
  proof (cases "fc_inited fc")
    case True
    then show ?thesis using no that FrameIntegrity_window [OF inv, of f]
      by (simp add: p_def fc_prepare_def Let_def fc_window_def frame_at_def fc_slot_def)
  next
    case False
    then have "\<forall>fe \<in> set (fc_frames fc). \<not> fe_integrity fe" "fc_slot p f < length (fc_frames fc)"
      using inv by (auto simp: fc_inv_def p_def fc_prepare_def Let_def fc_slot_def)
    moreover have "fc_frames p = fc_frames fc" by (simp add: p_def fc_prepare_def Let_def)
    ultimately show ?thesis by (simp add: frame_at_def)
  qed
  have r: "\<not> fe_integrity (fe_Reset fe)" for fe by (simp add: fe_Reset_def)
  obtain fe where "frame_at (fc_AddPacket x f d fc) f = fe_AddPacket (fc_pktHistory p) x d fe" "\<not> fe_integrity fe"
    using fc_AddPacket_frames [OF inv p_def w(1)] old r by auto
  then show ?thesis using w(2) fe_AddPacket_integrity [of "fc_pktHistory p" x d fe] unfolding ph by metis
qed

lemma consecutive_received:
  assumes inv: "ph_inv R ph" and c: "PacketsConsecutive ph s e"
    and "e \<in> R" "ph_base ph < s" "unat (ph_last ph) - unat s < ph_packetCount ph"
  shows "{s..e} \<subseteq> R"
proof
  fix t assume t: "t \<in> {s..e}"
  have i: "ph_inited ph" and wf: "ph_wf ph" using inv assms(3) by (auto simp: ph_inv_def split: if_splits)
  then have "e \<le> ph_last ph" using inv assms(3) by (simp add: ph_inv_def)
  then have "ph_window ph t" using t assms by (auto simp: ph_window_def word_le_nat_alt word_less_nat_alt)
  moreover have "fbit (ph_bits ph) (ph_idx ph t)" using PacketsConsecutive_iff [OF wf] c assms(4) t by simp
  ultimately show "t \<in> R" using inv i by (simp add: ph_inv_def)
qed

section \<open>Properties\<close>

text \<open>
  C28: the word-parallel test of \<open>PacketsConsecutive\<close> (the tail of the first word, the full words in between, with
  wrap-around at the end of the slice, and the head of the last word) is equivalent to testing the bit of every sequence
  number from \<open>start\<close> to \<open>end\<close>, for every well-formed history and every range that starts at or after the base; an
  inverted range and a range of \<open>packetCount\<close> numbers or more are refused.
\<close>

theorem packets_consecutive_equiv:
  assumes "ph_wf ph" "ph_base ph \<le> start"
  shows "PacketsConsecutive ph start end' \<longleftrightarrow>
    start \<le> end' \<and> unat end' - unat start < ph_packetCount ph \<and>
    (\<forall>s. start \<le> s \<and> s \<le> end' \<longrightarrow> (let (i, j) = ph_getPos ph s in bit (ph_bits ph ! i) j))"
proof -
  have "(let (i, j) = ph_getPos ph s in bit (ph_bits ph ! i) j) = fbit (ph_bits ph) (ph_idx ph s)" if "start \<le> s" for s
    using ph_getPos_idx [OF assms(1), of s] assms(2) that by (simp add: fbit_def)
  then show ?thesis using PacketsConsecutive_iff [OF assms] by auto
qed

text \<open>
  The bitmap is a faithful history: after any sequence of \<open>AddPacket\<close> calls, in any order and with any gaps and
  repetitions, a range inside the window of the last \<open>packetCount\<close> numbers above the base is reported as consecutive
  exactly when every one of its packets has been added.
\<close>

theorem packet_history_exact:
  assumes "64 < n" "n < 2 ^ 63" "ph = fold ph_AddPacket xs (NewPacketHistory n)" "xs \<noteq> []"
    and "ph_base ph < start" "start \<le> end'" "end' \<le> ph_last ph" "unat (ph_last ph) - unat start < ph_packetCount ph"
  shows "PacketsConsecutive ph start end' \<longleftrightarrow> {start..end'} \<subseteq> set xs"
proof -
  have inv: "ph_inv (set xs) ph" using ph_inv_fold [OF ph_inv_New [OF assms(1,2)], of xs] assms(3) by simp
  have "ph_inited ph" using inv assms(4) by (auto simp: ph_inv_def split: if_splits)
  then have bit: "ph_window ph s \<Longrightarrow> fbit (ph_bits ph) (ph_idx ph s) \<longleftrightarrow> s \<in> set xs" for s
    using inv by (simp add: ph_inv_def)
  have "ph_window ph s" if "start \<le> s" "s \<le> end'" for s
    using that assms(5-8) by (auto simp: ph_window_def word_le_nat_alt word_less_nat_alt)
  moreover have "unat end' - unat start < ph_packetCount ph" using assms(6-8) by (simp add: word_le_nat_alt)
  moreover have "ph_wf ph" "ph_base ph \<le> start" using inv assms(5) by (auto simp: ph_inv_def)
  ultimately show ?thesis using PacketsConsecutive_iff [of ph start end'] assms(6) bit by auto
qed

text \<open>
  C27: a frame is reported complete only when it is: whatever packets a new checker has seen before, if the packet \<open>x\<close> makes
  frame \<open>f\<close> complete, then a packet of \<open>f\<close> marked as first and a packet of \<open>f\<close> marked as last have been added, and,
  as long as the first one is inside the window of the history, every packet between the two has been added. In particular
  slots that frames further than \<open>frameCount\<close> apart share never leak their marks.
\<close>

theorem frame_complete_sound:
  assumes "0 < m" "m < 2 ^ 63" "64 < n" "n < 2 ^ 63"
    and "\<not> FrameIntegrity (fc_run m n evs) f" "FrameIntegrity (fc_run m n (evs @ [(x, f, d)])) f"
  shows "\<exists>s e. (\<exists>ds. (s, f, ds) \<in> set (evs @ [(x, f, d)]) \<and> FirstPacketInFrame ds) \<and>
    (\<exists>de. (e, f, de) \<in> set (evs @ [(x, f, d)]) \<and> LastPacketInFrame de) \<and> s \<le> e \<and>
    (let ph = fc_pktHistory (fc_run m n (evs @ [(x, f, d)])) in
     ph_base ph < s \<and> unat (ph_last ph) - unat s < ph_packetCount ph \<longrightarrow>
       {s..e} \<subseteq> fst ` set (evs @ [(x, f, d)]))"
proof -
  let ?E = "set (evs @ [(x, f, d)])" and ?fc = "fc_run m n evs" and ?fc' = "fc_run m n (evs @ [(x, f, d)])"
  have inv: "fc_inv (set evs) ?fc" and inv': "fc_inv ?E ?fc'" using fc_inv_run [OF assms(1-4)] by blast+
  have w: "fc_window ?fc' f" "fe_integrity (frame_at ?fc' f)" and i: "fc_inited ?fc'"
    using assms(6) FrameIntegrity_window [OF inv'] by (auto simp: fc_AddPacket_select)
  obtain s e where se: "fe_startSeq (frame_at ?fc' f) = Some s" "fe_endSeq (frame_at ?fc' f) = Some e"
    and c: "PacketsConsecutive (fc_pktHistory ?fc') s e"
    using newly_complete [OF inv assms(5), of x d] w by (auto simp: fc_AddPacket_select)
  have from_E: "fe_from ?E f (frame_at ?fc' f)" using inv' w i unfolding fc_inv_def by simp
  have ph: "ph_inv (fst ` ?E) (fc_pktHistory ?fc')" using inv' unfolding fc_inv_def by blast
  have "{s..e} \<subseteq> fst ` ?E"
    if "ph_base (fc_pktHistory ?fc') < s" "unat (ph_last (fc_pktHistory ?fc')) - unat s < ph_packetCount (fc_pktHistory ?fc')"
    using se c that from_E by (intro consecutive_received [OF ph]) (force simp: fe_from_def)+
  moreover have "s \<le> e" using c by (simp add: PacketsConsecutive_def split: if_splits)
  moreover have "\<exists>ds. (s, f, ds) \<in> ?E \<and> FirstPacketInFrame ds" "\<exists>de. (e, f, de) \<in> ?E \<and> LastPacketInFrame de"
    using from_E se unfolding fe_from_def by blast+
  ultimately show ?thesis unfolding Let_def by blast
qed

theorem packets_consecutive_equiv_witness:
  "PacketsConsecutive (fold ph_AddPacket [500, 501, 502] (NewPacketHistory 128)) 500 502"
proof -
  define ph where "ph = fold ph_AddPacket [500, 501, 502] (NewPacketHistory 128)"
  define got where "got s = (let (i, j) = ph_getPos ph s in bit (ph_bits ph ! i) j)" for s
  have "ph_wf ph" using ph_inv_fold [OF ph_inv_New [of 128], of "[500, 501, 502]"] by (simp add: ph_inv_def ph_def)
  moreover have "ph_base ph \<le> 500" "got 500" "got 501" "got 502" "unat (502 :: u64) - unat (500 :: u64) < ph_packetCount ph"
    unfolding got_def ph_def by code_simp+
  moreover have "s = 500 \<or> s = 501 \<or> s = 502" if "500 \<le> s" "s \<le> 502" for s :: u64
    using that by (auto simp: word_le_nat_alt word_unat_eq_iff)
  ultimately show ?thesis using packets_consecutive_equiv [of ph 500 502] unfolding got_def ph_def [symmetric] by fastforce
qed

theorem packet_history_exact_witness:
  "\<not> PacketsConsecutive (fold ph_AddPacket [500, 503, 501] (NewPacketHistory 128)) 500 503"
proof -
  let ?ph = "fold ph_AddPacket [500, 503, 501] (NewPacketHistory 128)"
  have "ph_base ?ph < 500" "(503 :: u64) \<le> ph_last ?ph" "unat (ph_last ?ph) - unat (500 :: u64) < ph_packetCount ?ph" by code_simp+
  moreover have "\<not> {500..503 :: u64} \<subseteq> set [500, 503, 501]"
  proof
    assume "{500..503 :: u64} \<subseteq> set [500, 503, 501]"
    then have "(502 :: u64) \<in> set [500, 503, 501]" by (rule subsetD) simp
    then show False by simp
  qed
  ultimately show ?thesis using packet_history_exact [of 128 ?ph "[500, 503, 501]" 500 503] by simp
qed

text \<open>Frame 2 has its three packets 5 to 7 in the order first, last, middle.\<close>

definition demo_dd :: "bool \<Rightarrow> bool \<Rightarrow> DependencyDescriptor" where
  "demo_dd isFirst isLast =
     \<lparr>FirstPacketInFrame = isFirst, LastPacketInFrame = isLast, FrameNumber = 7, FrameDependencies = None,
      Resolution = None, ActiveDecodeTargetsBitmask = None, AttachedStructure = None\<rparr>"

theorem frame_complete_sound_witness:
  "\<exists>s e. s \<le> e \<and> (\<exists>d. (s, 2, d) \<in> set ([(5 :: u64, 2 :: u64, demo_dd True False), (7, 2, demo_dd False True)] @ [(6, 2, demo_dd False False)]) \<and>
    FirstPacketInFrame d)"
proof -
  let ?evs = "[(5, 2, demo_dd True False), (7, 2, demo_dd False True)]"
  have "\<not> FrameIntegrity (fc_run 4 128 ?evs) 2" "FrameIntegrity (fc_run 4 128 (?evs @ [(6, 2, demo_dd False False)])) 2"
    by code_simp+
  note r = frame_complete_sound [OF _ _ _ _ this]
  have "(0 :: nat) < 4" "(4 :: nat) < 2 ^ 63" "(64 :: nat) < 128" "(128 :: nat) < 2 ^ 63" by simp_all
  from r [OF this] show ?thesis by blast
qed

end
