(* ===== verification/Dependency_Descriptor_Codec.thy ===== *)
theory Dependency_Descriptor_Codec
  imports Dependency_Descriptor
begin

text \<open>
  Correctness of the dependency descriptor codec: what the writer emits as a list of bits, that
  the reader reads these bits back, that the announced size is the written size, and that every
  structure the reader accepts is well formed. The interface \<open>bit_codec\<close> pairs an emitter with a
  parser; sequences of coded values are handled once inside it.
\<close>

section \<open>Emitters and parsers over bit lists\<close>

definition emits :: "emitter \<Rightarrow> bool list \<Rightarrow> bool" where
  "emits m bs \<longleftrightarrow> (\<forall>w. wok w \<longrightarrow> length (written w) + length bs \<le> 8 * length (bw_buf w) \<longrightarrow>
     (\<exists>w'. m w = Inr w' \<and> wok w' \<and> length (bw_buf w') = length (bw_buf w) \<and> written w' = written w @ bs))"

definition parses :: "'a bitParser \<Rightarrow> bool list \<Rightarrow> 'a \<Rightarrow> bool" where
  "parses p bs x \<longleftrightarrow> (\<forall>r xs. rok r \<longrightarrow> rest r = bs @ xs \<longrightarrow>
     (\<exists>r'. p r = (r', Inr x) \<and> rok r' \<and> rest r' = xs \<and> br_buf r' = br_buf r))"

named_theorems emits_intros \<open>what the emitters write\<close>
named_theorems parses_intros \<open>what the parsers read\<close>

lemma emitsD:
  assumes "emits m bs" "wok w" "length (written w) + length bs \<le> 8 * length (bw_buf w)"
  obtains w' where "m w = Inr w'" "wok w'" "length (bw_buf w') = length (bw_buf w)" "written w' = written w @ bs"
  using assms unfolding emits_def by blast

lemma parsesD:
  assumes "parses p bs x" "rok r" "rest r = bs @ xs"
  obtains r' where "p r = (r', Inr x)" "rok r'" "rest r' = xs" "br_buf r' = br_buf r"
  using assms unfolding parses_def by blast

lemma emits_skip [emits_intros]: "emits skipE []"
  by (simp add: emits_def skipE_def)

lemma emits_then [emits_intros]:
  assumes "emits a bs" "emits b cs"
  shows "emits (thenE a b) (bs @ cs)"
  unfolding emits_def
proof (intro allI impI)
  fix w assume w: "wok w" "length (written w) + length (bs @ cs) \<le> 8 * length (bw_buf w)"
  then have "length (written w) + length bs \<le> 8 * length (bw_buf w)" by simp
  from emitsD [OF assms(1) w(1) this] obtain w1 where 1: "a w = Inr w1" "wok w1"
    "length (bw_buf w1) = length (bw_buf w)" "written w1 = written w @ bs" .
  have "length (written w1) + length cs \<le> 8 * length (bw_buf w1)"
    unfolding 1(3,4) using w(2) by simp
  from emitsD [OF assms(2) 1(2) this] show "\<exists>w'. thenE a b w = Inr w' \<and> wok w' \<and>
      length (bw_buf w') = length (bw_buf w) \<and> written w' = written w @ bs @ cs"
    by (metis 1 append_assoc bindR.simps(2) thenE_def)
qed

lemma emits_each:
  "(\<And>x. x \<in> set xs \<Longrightarrow> emits (f x) (enc x)) \<Longrightarrow> emits (eachE f xs) (concat (map enc xs))"
  by (induction xs) (auto intro: emits_intros)

lemma emits_writeBits [emits_intros]: "0 < n \<Longrightarrow> n \<le> 64 \<Longrightarrow> emits (writeBits v n) (bv n v)"
  unfolding emits_def writeBits_def using WriteBits_field [of _ n v] by fastforce

lemma bv_1: "bv 1 v = [odd v]"
  by (simp add: bv_def bit_0)

lemma emits_writeBool [emits_intros]: "emits (writeBool b) [b]"
  using emits_writeBits [of 1 "if b then 1 else 0"] bv_1 [of "if b then 1 else 0"]
  by (simp add: writeBool_def split: if_splits)

lemma emits_writeNonSymmetric [emits_intros]:
  "v < N \<Longrightarrow> unat N < 2 ^ 31 \<Longrightarrow> emits (writeNonSymmetric v N) (nsBits v N)"
  unfolding emits_def writeNonSymmetric_def using WriteNonSymmetric_field [of _ v N] by fastforce

lemma parses_ret [parses_intros]: "x = y \<Longrightarrow> parses (retP x) [] y"
  by (simp add: parses_def retP_def)

lemma parses_bind:
  assumes "parses p bs x" "parses (f x) cs y"
  shows "parses (bindP p f) (bs @ cs) y"
  unfolding parses_def
proof (intro allI impI)
  fix r xs assume r: "rok r" "rest r = (bs @ cs) @ xs"
  then have "rest r = bs @ (cs @ xs)" by simp
  from parsesD [OF assms(1) r(1) this] obtain r1 where "p r = (r1, Inr x)" "rok r1" "rest r1 = cs @ xs" "br_buf r1 = br_buf r" .
  with parsesD [OF assms(2)] show "\<exists>r'. bindP p f r = (r', Inr y) \<and> rok r' \<and> rest r' = xs \<and> br_buf r' = br_buf r"
    by (auto simp: bindP_def) metis
qed

lemma parses_map: "parses p bs x \<Longrightarrow> y = f x \<Longrightarrow> parses (bindP p (\<lambda>x. retP (f x))) bs y"
  using parses_bind [of p bs x "\<lambda>x. retP (f x)" "[]" y] parses_ret by fastforce

lemma parses_if_ok:
  assumes "parses p bs x"
  shows "parses (\<lambda>r. if br_Ok r then p r else q r) bs x"
proof -
  have "rok r \<Longrightarrow> br_Ok r" for r by (simp add: rok_def br_Ok_def)
  then show ?thesis using assms by (simp add: parses_def)
qed

lemma parses_readBits [parses_intros]:
  "k = int n \<Longrightarrow> n \<le> 64 \<Longrightarrow> unat v < 2 ^ n \<Longrightarrow> parses (readBits k) (bv n v) v"
  unfolding parses_def readBits_def using ReadBits_field [of _ n v] by fastforce

lemma parses_readBool [parses_intros]: "parses readBool [b] b"
  unfolding parses_def
proof (intro allI impI)
  fix r xs assume r: "rok r" "rest r = [b] @ xs"
  define v :: u64 where "v = (if b then 1 else 0)"
  have "bv 1 v = [b]" unfolding bv_1 by (simp add: v_def)
  then have "rest r = bv 1 v @ xs" using r(2) by simp
  moreover have "unat v < 2 ^ 1" by (simp add: v_def)
  ultimately obtain r' where "ReadBits r 1 = (r', Inr v)" "rok r'" "rest r' = xs" "br_buf r' = br_buf r"
    using ReadBits_field [OF r(1), of 1 v xs] by auto
  then show "\<exists>r'. readBool r = (r', Inr b) \<and> rok r' \<and> rest r' = xs \<and> br_buf r' = br_buf r"
    by (simp add: readBool_def ReadBool_def v_def split: if_splits)
qed

lemma parses_readNonSymmetric [parses_intros]:
  "v < N \<Longrightarrow> unat N < 2 ^ 31 \<Longrightarrow> parses (readNonSymmetric N) (nsBits v N) v"
  unfolding parses_def readNonSymmetric_def using ReadNonSymmetric_field [of _ v N] by fastforce

lemma parses_readEach:
  "(\<And>u. u \<in> set us \<Longrightarrow> parses (p (g u)) (enc u) (h u)) \<Longrightarrow>
   parses (readEach p (map g us)) (concat (map enc us)) (map h us)"
proof (induction us)
  case Nil
  then show ?case by (simp add: parses_ret)
next
  case (Cons u us)
  then have 1: "parses (readEach p (map g us)) (concat (map enc us)) (map h us)"
    and 2: "parses (p (g u)) (enc u) (h u)" by simp_all
  show ?case unfolding list.map concat.simps readEach.simps
    by (rule parses_bind [OF 2]) (rule parses_map [OF 1], simp)
qed

section \<open>Codecs\<close>

text \<open>An emitter and a parser of one kind of value: the parser reads what the emitter wrote.\<close>

locale bit_codec =
  fixes enc :: "'a \<Rightarrow> bool list" and put :: "'a \<Rightarrow> emitter" and get :: "'a bitParser" and codable :: "'a \<Rightarrow> bool"
  assumes put: "codable x \<Longrightarrow> emits (put x) (enc x)"
    and get: "codable x \<Longrightarrow> parses get (enc x) x"
begin

lemma put_list: "list_all codable xs \<Longrightarrow> emits (eachE put xs) (concat (map enc xs))"
  by (rule emits_each) (simp add: list_all_iff put)

lemma get_list: "list_all codable xs \<Longrightarrow> n = length xs \<Longrightarrow> parses (readN n get) (concat (map enc xs)) xs"
proof (induction xs arbitrary: n)
  case Nil
  then show ?case by (simp add: parses_ret)
next
  case (Cons x xs)
  then have 1: "parses (readN (length xs) get) (concat (map enc xs)) xs" and 2: "codable x" by simp_all
  have "parses (readN (Suc (length xs)) get) (enc x @ concat (map enc xs)) (x # xs)"
    unfolding readN.simps by (rule parses_bind [OF get [OF 2]]) (rule parses_map [OF 1], simp)
  then show ?case using Cons.prems(2) by simp
qed

end

text \<open>Fields of fixed width that hold integers.\<close>

lemma word_of_int_bound:
  "0 \<le> k \<Longrightarrow> k < 2 ^ n \<Longrightarrow> n < 64 \<Longrightarrow> unat (word_of_int k :: u64) < 2 ^ n \<and> uint (word_of_int k :: u64) = k"
proof -
  assume a: "0 \<le> k" "k < 2 ^ n" "n < 64"
  have "(2::int) ^ n \<le> 2 ^ 64" using a(3) by (intro power_increasing) auto
  then have "uint (word_of_int k :: u64) = k" using a by (simp add: uint_word_of_int_eq take_bit_int_eq_self_iff)
  moreover from this have "int (unat (word_of_int k :: u64)) < 2 ^ n" using a by simp
  ultimately show ?thesis by (metis of_nat_less_iff of_nat_numeral of_nat_power)
qed

lemma field_codec:
  assumes "0 < n" "n < 64" "k = int n"
  shows "bit_codec (\<lambda>d. bv n (word_of_int d)) (\<lambda>d. writeBits (word_of_int d) n)
    (bindP (readBits k) (\<lambda>v. retP (uint v))) (\<lambda>d. 0 \<le> d \<and> d < 2 ^ n)"
proof
  fix d :: int assume d: "0 \<le> d \<and> d < 2 ^ n"
  show "emits (writeBits (word_of_int d) n) (bv n (word_of_int d))" using assms by (simp add: emits_writeBits)
  note b = word_of_int_bound [of d n]
  show "parses (bindP (readBits k) (\<lambda>v. retP (uint v))) (bv n (word_of_int d)) d"
    by (rule parses_map [OF parses_readBits]) (use b d assms in auto)
qed

interpretation chain4: bit_codec "\<lambda>d. bv 4 (word_of_int d)" "\<lambda>d. writeBits (word_of_int d) 4"
    "bindP (readBits 4) (\<lambda>v. retP (uint v))" "\<lambda>d. 0 \<le> d \<and> d < 2 ^ 4"
  by (rule field_codec) simp_all

interpretation chain8: bit_codec "\<lambda>d. bv 8 (word_of_int d)" "\<lambda>d. writeBits (word_of_int d) 8"
    "bindP (readBits 8) (\<lambda>v. retP (uint v))" "\<lambda>d. 0 \<le> d \<and> d < 2 ^ 8"
  by (rule field_codec) simp_all

definition dtiBits :: "DecodeTargetIndication \<Rightarrow> bool list" where
  "dtiBits d = bv 2 (dtiVal d)"

interpretation dti: bit_codec dtiBits "\<lambda>d. writeBits (dtiVal d) 2" readDti "\<lambda>_. True"
proof
  fix d :: DecodeTargetIndication
  show "emits (writeBits (dtiVal d) 2) (dtiBits d)" by (simp add: dtiBits_def emits_writeBits)
  show "parses readDti (dtiBits d) d"
    unfolding readDti_def dtiBits_def by (rule parses_map [OF parses_readBits]) (cases d; simp)+
qed

definition protectedBits :: "nat \<Rightarrow> nat \<Rightarrow> bool list" where
  "protectedBits N p = nsBits (of_nat p) (of_nat N)"

lemma u32_of_nat: "n < 2 ^ 32 \<Longrightarrow> unat (of_nat n :: u32) = n"
  by (simp add: unat_of_nat take_bit_nat_eq_self)

interpretation protected: bit_codec "protectedBits N" "\<lambda>p. writeNonSymmetric (of_nat p) (of_nat N)"
    "bindP (readNonSymmetric (of_nat N)) (\<lambda>p. retP (unat p))" "\<lambda>p. p < N \<and> N \<le> 32" for N
proof
  fix p assume p: "p < N \<and> N \<le> 32"
  then have lt: "(of_nat p :: u32) < of_nat N" "unat (of_nat N :: u32) < 2 ^ 31"
    by (simp_all add: word_less_nat_alt u32_of_nat)
  show "emits (writeNonSymmetric (of_nat p) (of_nat N)) (protectedBits N p)"
    unfolding protectedBits_def by (rule emits_writeNonSymmetric [OF lt])
  show "parses (bindP (readNonSymmetric (of_nat N)) (\<lambda>p. retP (unat p))) (protectedBits N p) p"
    unfolding protectedBits_def
    by (rule parses_map [OF parses_readNonSymmetric [OF lt]]) (use p in \<open>simp add: u32_of_nat\<close>)
qed

definition resolutionBits :: "RenderResolution \<Rightarrow> bool list" where
  "resolutionBits res = bv 16 (of_nat (Width res) - 1) @ bv 16 (of_nat (Height res) - 1)"

definition wfResolution :: "RenderResolution \<Rightarrow> bool" where
  "wfResolution res \<longleftrightarrow> 0 < Width res \<and> Width res \<le> 65536 \<and> 0 < Height res \<and> Height res \<le> 65536"

lemma u64_pred:
  assumes "0 < n" "n \<le> 65536"
  shows "unat (of_nat n - 1 :: u64) < 2 ^ 16" "unat (of_nat n :: u64) = n"
proof -
  have n: "unat (of_nat n :: u64) = n" using assms by (simp add: unat_of_nat take_bit_nat_eq_self)
  then have "(1 :: u64) \<le> of_nat n" using assms by (simp add: word_le_nat_alt)
  then have "unat (of_nat n - 1 :: u64) = n - 1" using n by (simp add: unat_sub)
  then show "unat (of_nat n - 1 :: u64) < 2 ^ 16" using assms by simp
  show "unat (of_nat n :: u64) = n" by (rule n)
qed

interpretation resolution: bit_codec resolutionBits
    "\<lambda>res. thenE (writeBits (of_nat (Width res) - 1) 16) (writeBits (of_nat (Height res) - 1) 16)" readResolution wfResolution
proof
  fix res assume w: "wfResolution res"
  show "emits (thenE (writeBits (of_nat (Width res) - 1) 16) (writeBits (of_nat (Height res) - 1) 16)) (resolutionBits res)"
    unfolding resolutionBits_def by (intro emits_intros) simp_all
  have 1: "parses (readBits 16) (bv 16 (of_nat n - 1)) (of_nat n - 1)" if "0 < n" "n \<le> 65536" for n
    by (rule parses_readBits) (use u64_pred [OF that] in simp_all)
  show "parses readResolution (resolutionBits res) res"
    unfolding readResolution_def resolutionBits_def
    by (rule parses_bind [OF 1 parses_map [OF 1]]) (use w in \<open>simp_all add: wfResolution_def u64_pred\<close>)
qed

section \<open>The dependency structure\<close>

text \<open>Template layers.\<close>

fun layerBits :: "FrameDependencyTemplate list \<Rightarrow> bool list" where
  "layerBits (p # t # ts) = bv 2 (of_nat (getNextLayerIdc p t)) @ layerBits (t # ts)"
| "layerBits ts = bv 2 3"

definition bare :: "FrameDependencyTemplate \<Rightarrow> FrameDependencyTemplate" where
  "bare t = \<lparr>SpatialId = SpatialId t, TemporalId = TemporalId t,
     DecodeTargetIndications = [], FrameDiffs = [], ChainDiffs = []\<rparr>"

definition wfLayers :: "FrameDependencyTemplate list \<Rightarrow> bool" where
  "wfLayers ts \<longleftrightarrow> successively (\<lambda>p t. getNextLayerIdc p t < 3) ts \<and>
     list_all (\<lambda>t. SpatialId t < 4 \<and> TemporalId t < 8) ts"

lemma emits_writeNextLayers:
  "successively (\<lambda>p t. getNextLayerIdc p t < 3) ts \<Longrightarrow> emits (writeNextLayers ts) (layerBits ts)"
proof (induction ts rule: writeNextLayers.induct)
  case (1 p t ts)
  then show ?case by (auto simp: Let_def intro!: emits_then emits_writeBits)
qed (simp_all add: emits_writeBits)

lemma idc_word: "n < 4 \<Longrightarrow> unat (of_nat n :: u64) = n"
  by (simp add: unat_of_nat take_bit_nat_eq_self)

lemma parses_readTemplateLayersLoop:
  "wfLayers (t # ts) \<Longrightarrow> length (t # ts) \<le> left \<Longrightarrow>
   parses (readTemplateLayersLoop left acc (TemporalId t) (SpatialId t)) (layerBits (t # ts)) (acc @ map bare (t # ts))"
proof (induction ts arbitrary: t left acc)
  case Nil
  then obtain n where left: "left = Suc n" by (cases left) auto
  have 3: "parses (readBits 2) (bv 2 3) 3" by (rule parses_readBits) simp_all
  have "parses (readTemplateLayersLoop (Suc n) acc (TemporalId t) (SpatialId t)) (bv 2 3 @ []) (acc @ [bare t])"
    unfolding readTemplateLayersLoop.simps Let_def
    by (rule parses_bind [OF 3]) (simp add: parses_ret bare_def)
  then show ?case by (simp add: left)
next
  case (Cons u ts)
  then obtain n where left: "left = Suc n" by (cases left) auto
  define k where "k = getNextLayerIdc t u"
  have k: "k < 3" and wf: "wfLayers (u # ts)" and b: "SpatialId u < 4" "TemporalId u < 8"
    using Cons.prems by (auto simp: wfLayers_def k_def)
  have r: "parses (readBits 2) (bv 2 (of_nat k)) (of_nat k)" by (rule parses_readBits) (use k idc_word [of k] in simp_all)
  have IH: "parses (readTemplateLayersLoop n (acc @ [bare t]) (TemporalId u) (SpatialId u)) (layerBits (u # ts))
      ((acc @ [bare t]) @ map bare (u # ts))"
    using Cons.prems left wf by (intro Cons.IH) simp_all
  note ok = parses_if_ok [OF IH, of "retP (acc @ [bare t])"]
  have "k = 0 \<and> TemporalId u = TemporalId t \<and> SpatialId u = SpatialId t \<or>
     k = 1 \<and> TemporalId u = TemporalId t + 1 \<and> SpatialId u = SpatialId t \<or>
     k = 2 \<and> TemporalId u = 0 \<and> SpatialId u = SpatialId t + 1"
    using k by (auto simp: k_def getNextLayerIdc_def split: if_splits)
  then have "parses (readTemplateLayersLoop (Suc n) acc (TemporalId t) (SpatialId t)) (bv 2 (of_nat k) @ layerBits (u # ts))
      ((acc @ [bare t]) @ map bare (u # ts))"
    unfolding readTemplateLayersLoop.simps Let_def bare_def [symmetric]
    by (intro parses_bind [OF r]) (use ok b in \<open>auto simp: idc_word cong: if_cong\<close>)
  then show ?case by (simp add: left k_def)
qed

text \<open>Frame diffs of a template and of a frame.\<close>

lemma bv_append:
  assumes "a + b \<le> 64" "unat v < 2 ^ b"
  shows "bv (a + b) (push_bit b u OR v) = bv a u @ bv b v"
proof (rule nth_equalityI)
  fix i assume i: "i < length (bv (a + b) (push_bit b u OR v))"
  show "bv (a + b) (push_bit b u OR v) ! i = (bv a u @ bv b v) ! i"
  proof (cases "i < a")
    case True
    then have "a + b - 1 - i - b = a - 1 - i" "b \<le> a + b - 1 - i" "a + b - 1 - i < 64" using assms(1) by auto
    moreover have "\<not> bit v (a + b - 1 - i)" using bit_less_exp [OF assms(2)] calculation(2) by fastforce
    ultimately show ?thesis using True by (simp add: nth_bv nth_append bit_simps)
  next
    case False
    then have "a + b - 1 - i = b - 1 - (i - a)" "\<not> b \<le> a + b - 1 - i" "i - a < b" using i by auto
    then show ?thesis using False i by (simp add: nth_bv nth_append bit_simps)
  qed
qed simp

definition templateFdiffBits :: "int \<Rightarrow> bool list" where
  "templateFdiffBits d = bv 5 (push_bit 4 1 OR word_of_int (d - 1))"

lemma templateFdiffBits: "1 \<le> d \<Longrightarrow> d \<le> 16 \<Longrightarrow> templateFdiffBits d = [True] @ bv 4 (word_of_int (d - 1))"
  using bv_append [of 1 4 "word_of_int (d - 1)" 1] word_of_int_bound [of "d - 1" 4] bv_1 [of 1]
  by (simp add: templateFdiffBits_def)

lemma uint_fdiff: "1 \<le> d \<Longrightarrow> d \<le> 4096 \<Longrightarrow> uint (word_of_int (d - 1) + 1 :: u64) = d"
  using word_of_int_bound [of d 13] by (simp add: word_of_int_inverse algebra_simps flip: wi_hom_add)

lemma parses_readFdiffsLoop:
  "list_all (\<lambda>d. 1 \<le> d \<and> d \<le> 16) fs \<Longrightarrow>
   parses (readFdiffsLoop acc) (concat (map templateFdiffBits fs) @ [False]) (acc @ fs)"
proof (induction fs arbitrary: acc)
  case Nil
  show ?case unfolding parses_def
  proof (intro allI impI)
    fix r xs assume "rok r" "rest r = (concat (map templateFdiffBits []) @ [False]) @ xs"
    then have "rok r" "rest r = [False] @ xs" by simp_all
    from parsesD [OF parses_readBool this] obtain r' where "readBool r = (r', Inr False)" "rok r'" "rest r' = xs" "br_buf r' = br_buf r" .
    then show "\<exists>r'. readFdiffsLoop acc r = (r', Inr (acc @ [])) \<and> rok r' \<and> rest r' = xs \<and> br_buf r' = br_buf r"
      by (subst readFdiffsLoop.simps) simp
  qed
next
  case (Cons d fs)
  then have d: "1 \<le> d" "d \<le> 16" and fs: "list_all (\<lambda>d. 1 \<le> d \<and> d \<le> 16) fs" by simp_all
  let ?v = "word_of_int (d - 1) :: u64" and ?t = "concat (map templateFdiffBits fs) @ [False]"
  show ?case unfolding parses_def
  proof (intro allI impI)
    fix r xs assume r: "rok r" "rest r = (concat (map templateFdiffBits (d # fs)) @ [False]) @ xs"
    then have "rest r = [True] @ (bv 4 ?v @ ?t @ xs)" using templateFdiffBits [OF d] by simp
    from parsesD [OF parses_readBool r(1) this] obtain r1 where
      1: "readBool r = (r1, Inr True)" "rok r1" "rest r1 = bv 4 ?v @ ?t @ xs" "br_buf r1 = br_buf r" .
    have "parses (readBits 4) (bv 4 ?v) ?v"
      by (rule parses_readBits) (use word_of_int_bound [of "d - 1" 4] d in simp_all)
    from parsesD [OF this 1(2,3)] obtain r2 where
      2: "readBits 4 r1 = (r2, Inr ?v)" "rok r2" "rest r2 = ?t @ xs" "br_buf r2 = br_buf r1" .
    from parsesD [OF Cons.IH [OF fs] 2(2,3)] obtain r3 where
      "readFdiffsLoop (acc @ [d]) r2 = (r3, Inr ((acc @ [d]) @ fs))" "rok r3" "rest r3 = xs" "br_buf r3 = br_buf r2" .
    moreover have "readFdiffsLoop acc r = readFdiffsLoop (acc @ [d]) r2"
      by (subst readFdiffsLoop.simps) (use 1(1) 2(1) uint_fdiff [of d] d in simp)
    ultimately show "\<exists>r'. readFdiffsLoop acc r = (r', Inr (acc @ d # fs)) \<and> rok r' \<and> rest r' = xs \<and> br_buf r' = br_buf r" using 1(4) 2(4) by simp
  qed
qed

text \<open>The whole structure.\<close>

definition wfTemplate :: "FrameDependencyStructure \<Rightarrow> FrameDependencyTemplate \<Rightarrow> bool" where
  "wfTemplate s t \<longleftrightarrow> length (DecodeTargetIndications t) = NumDecodeTargets s \<and>
     list_all (\<lambda>d. 1 \<le> d \<and> d \<le> 16) (FrameDiffs t) \<and>
     length (ChainDiffs t) = NumChains s \<and> list_all (\<lambda>d. 0 \<le> d \<and> d < 2 ^ 4) (ChainDiffs t)"

definition wfStructure :: "FrameDependencyStructure \<Rightarrow> bool" where
  "wfStructure s \<longleftrightarrow> StructureId s < 64 \<and> 0 < NumDecodeTargets s \<and> NumDecodeTargets s \<le> 32 \<and>
     Templates s \<noteq> [] \<and> length (Templates s) \<le> 64 \<and>
     SpatialId (hd (Templates s)) = 0 \<and> TemporalId (hd (Templates s)) = 0 \<and> wfLayers (Templates s) \<and>
     list_all (wfTemplate s) (Templates s) \<and>
     NumChains s \<le> NumDecodeTargets s \<and>
     length (DecodeTargetProtectedByChain s) = (if NumChains s = 0 then 0 else NumDecodeTargets s) \<and>
     list_all (\<lambda>p. p < NumChains s) (DecodeTargetProtectedByChain s) \<and>
     (Resolutions s = [] \<or> length (Resolutions s) = SpatialId (last (Templates s)) + 1) \<and>
     list_all wfResolution (Resolutions s)"

definition templateDtiBits :: "FrameDependencyTemplate \<Rightarrow> bool list" where
  "templateDtiBits t = concat (map dtiBits (DecodeTargetIndications t))"

definition templateFdiffsBits :: "FrameDependencyTemplate \<Rightarrow> bool list" where
  "templateFdiffsBits t = concat (map templateFdiffBits (FrameDiffs t)) @ [False]"

definition templateChainBits :: "FrameDependencyTemplate \<Rightarrow> bool list" where
  "templateChainBits t = concat (map (\<lambda>d. bv 4 (word_of_int d)) (ChainDiffs t))"

definition chainBits :: "FrameDependencyStructure \<Rightarrow> bool list" where
  "chainBits s = nsBits (of_nat (NumChains s)) (of_nat (NumDecodeTargets s + 1)) @
     (if NumChains s = 0 then [] else concat (map (protectedBits (NumChains s)) (DecodeTargetProtectedByChain s)) @
        concat (map templateChainBits (Templates s)))"

definition structureBits :: "FrameDependencyStructure \<Rightarrow> bool list" where
  "structureBits s = bv 6 (of_nat (StructureId s)) @ bv 5 (of_nat (NumDecodeTargets s - 1)) @
     layerBits (Templates s) @ concat (map templateDtiBits (Templates s)) @
     concat (map templateFdiffsBits (Templates s)) @ chainBits s @
     [Resolutions s \<noteq> []] @ concat (map resolutionBits (Resolutions s))"

lemma chain_numbers:
  assumes "wfStructure s"
  shows "(of_nat (NumChains s) :: u32) < of_nat (NumDecodeTargets s + 1)" "unat (of_nat (NumDecodeTargets s + 1) :: u32) < 2 ^ 31"
    "NumChains s \<le> 32" "unat (of_nat (NumChains s) :: u32) = NumChains s"
proof -
  have b: "NumChains s \<le> NumDecodeTargets s" "NumDecodeTargets s \<le> 32" using assms by (auto simp: wfStructure_def)
  have u: "unat (of_nat (NumChains s) :: u32) = NumChains s" "unat (of_nat (NumDecodeTargets s + 1) :: u32) = NumDecodeTargets s + 1"
    by (rule u32_of_nat, use b in simp)+
  show "(of_nat (NumChains s) :: u32) < of_nat (NumDecodeTargets s + 1)" unfolding word_less_nat_alt u using b by simp
  show "unat (of_nat (NumDecodeTargets s + 1) :: u32) < 2 ^ 31" unfolding u using b by simp
  show "NumChains s \<le> 32" "unat (of_nat (NumChains s) :: u32) = NumChains s" using b u by simp_all
qed

lemma emits_chains:
  assumes "wfStructure s"
  shows "emits (writeTemplateChains s) (chainBits s)"
proof -
  note c = chain_numbers [OF assms]
  have "emits (eachE (\<lambda>p. writeNonSymmetric (of_nat p) (of_nat (NumChains s))) (DecodeTargetProtectedByChain s))
      (concat (map (protectedBits (NumChains s)) (DecodeTargetProtectedByChain s)))"
    using assms c(3) by (intro protected.put_list) (auto simp: wfStructure_def list_all_iff)
  moreover have "emits (eachE (\<lambda>t. eachE (\<lambda>d. writeBits (word_of_int d) 4) (ChainDiffs t)) (Templates s))
      (concat (map templateChainBits (Templates s)))"
    unfolding templateChainBits_def
    by (intro emits_each chain4.put_list) (use assms in \<open>auto simp: wfStructure_def wfTemplate_def list_all_iff\<close>)
  ultimately show ?thesis unfolding writeTemplateChains_def chainBits_def
    by (intro emits_then emits_writeNonSymmetric c(1,2)) (auto intro!: emits_then emits_skip)
qed

lemma emits_structure:
  assumes "wfStructure s"
  shows "emits (writeTemplateDependencyStructure s) (structureBits s)"
proof -
  have "emits (writeTemplateLayers s) (layerBits (Templates s))"
    using emits_writeNextLayers [of "Templates s"] assms
    by (auto simp: emits_def writeTemplateLayers_def wfStructure_def wfLayers_def)
  moreover have "emits (writeTemplateDtis s) (concat (map templateDtiBits (Templates s)))"
    unfolding writeTemplateDtis_def writeDtis_def templateDtiBits_def
    by (intro emits_each dti.put_list) (simp add: list_all_iff)
  moreover have "emits (writeTemplateFdiffs s) (concat (map templateFdiffsBits (Templates s)))"
  proof -
    have "emits (writeBits 0 1) [False]" using emits_writeBits [of 1 0] bv_1 [of 0] by simp
    moreover have "emits (writeBits (push_bit 4 1 OR word_of_int (d - 1)) (1 + 4)) (templateFdiffBits d)" for d
      using emits_writeBits [of 5 "push_bit 4 1 OR word_of_int (d - 1)"] by (simp add: templateFdiffBits_def)
    ultimately show ?thesis
      unfolding writeTemplateFdiffs_def templateFdiffsBits_def by (intro emits_each emits_then)
  qed
  moreover have "emits (writeResolutions s) (concat (map resolutionBits (Resolutions s)))"
    unfolding writeResolutions_def
    by (intro resolution.put_list) (use assms in \<open>simp add: wfStructure_def\<close>)
  moreover have g: "\<not> \<not> (StructureId s < MaxTemplates \<and> NumDecodeTargets s > 0 \<and> NumDecodeTargets s \<le> MaxDecodeTargets)"
    using assms by (simp add: wfStructure_def)
  ultimately show ?thesis
    unfolding writeTemplateDependencyStructure_def structureBits_def if_not_P [OF g]
    using emits_chains [OF assms] by (intro emits_then emits_writeBits emits_writeBool; simp)
qed

lemma parses_chains:
  assumes wf: "wfStructure s" and s3: "s3 = s\<lparr>NumChains := 0, DecodeTargetProtectedByChain := [],
      Templates := map (\<lambda>t. t\<lparr>ChainDiffs := []\<rparr>) (Templates s), Resolutions := []\<rparr>"
  shows "parses (readTemplateChains s3) (chainBits s) (s\<lparr>Resolutions := []\<rparr>)"
proof -
  note c = chain_numbers [OF wf]
  have N: "parses (readNonSymmetric (of_nat (NumDecodeTargets s3) + 1))
      (nsBits (of_nat (NumChains s)) (of_nat (NumDecodeTargets s + 1))) (of_nat (NumChains s))"
    using parses_readNonSymmetric [OF c(1,2)] by (simp add: s3 add.commute)
  show ?thesis
  proof (cases "NumChains s = 0")
    case True
    have "map (\<lambda>t. t\<lparr>ChainDiffs := []\<rparr>) (Templates s) = Templates s"
      by (rule map_idI) (use wf True in \<open>auto simp: wfStructure_def wfTemplate_def list_all_iff\<close>)
    then have "s3\<lparr>NumChains := 0\<rparr> = s\<lparr>Resolutions := []\<rparr>"
      using True wf by (simp add: s3 wfStructure_def)
    then have "parses (readTemplateChains s3) (nsBits (of_nat (NumChains s)) (of_nat (NumDecodeTargets s + 1)) @ []) (s\<lparr>Resolutions := []\<rparr>)"
      unfolding readTemplateChains_def by (intro parses_bind [OF N]) (simp add: True parses_ret)
    then show ?thesis by (simp add: chainBits_def True)
  next
    case False
    have P: "parses (readN (NumDecodeTargets s) (bindP (readNonSymmetric (of_nat (NumChains s))) (\<lambda>p. retP (unat p))))
        (concat (map (protectedBits (NumChains s)) (DecodeTargetProtectedByChain s))) (DecodeTargetProtectedByChain s)"
      using wf False c(3) by (intro protected.get_list) (auto simp: wfStructure_def list_all_iff)
    have T: "parses (readEach (\<lambda>template.
               bindP (readN (NumChains s) (bindP (readBits 4) (\<lambda>chainDiff. retP (uint chainDiff)))) (\<lambda>chainDiffs.
                 retP (template\<lparr>ChainDiffs := ChainDiffs template @ chainDiffs\<rparr>)))
          (map (\<lambda>t. t\<lparr>ChainDiffs := []\<rparr>) (Templates s))) (concat (map templateChainBits (Templates s))) (map (\<lambda>t. t) (Templates s))"
      unfolding templateChainBits_def
      by (intro parses_readEach parses_map [OF chain4.get_list])
        (use wf in \<open>auto simp: wfStructure_def wfTemplate_def list_all_iff\<close>)
    show ?thesis
      unfolding readTemplateChains_def chainBits_def
      by (intro parses_bind [OF N])
        (simp add: Let_def c(4) False s3, intro parses_bind [OF P], simp, rule parses_map [OF T], simp)
  qed
qed

lemma parses_structure:
  assumes wf: "wfStructure s"
  shows "parses readTemplateDependencyStructure (structureBits s) s"
proof -
  let ?T = "Templates s" and ?n = "NumDecodeTargets s"
  have b: "StructureId s < 64" "0 < ?n" "?n \<le> 32" using wf by (auto simp: wfStructure_def)
  have id: "parses (readBits 6) (bv 6 (of_nat (StructureId s))) (of_nat (StructureId s))"
    "unat (of_nat (StructureId s) :: u64) = StructureId s"
    using b by (auto intro!: parses_readBits simp: unat_of_nat take_bit_nat_eq_self)
  have n: "parses (readBits 5) (bv 5 (of_nat (?n - 1))) (of_nat (?n - 1))"
    "unat (of_nat (?n - 1) :: u64) + 1 = ?n"
  proof -
    have "unat (of_nat (?n - 1) :: u64) = ?n - 1" using b by (simp only: unat_of_nat) (simp add: take_bit_nat_eq_self)
    then show "unat (of_nat (?n - 1) :: u64) + 1 = ?n" "parses (readBits 5) (bv 5 (of_nat (?n - 1))) (of_nat (?n - 1))"
      using b by (auto intro!: parses_readBits)
  qed
  define s0 where "s0 = emptyStructure\<lparr>StructureId := StructureId s, NumDecodeTargets := ?n\<rparr>"
  define g2 where "g2 t = (bare t)\<lparr>DecodeTargetIndications := DecodeTargetIndications t\<rparr>" for t
  define g3 where "g3 t = t\<lparr>ChainDiffs := []\<rparr>" for t :: FrameDependencyTemplate
  define s1 where "s1 = s0\<lparr>Templates := map bare ?T\<rparr>"
  define s2 where "s2 = s0\<lparr>Templates := map g2 ?T\<rparr>"
  define s3 where "s3 = s0\<lparr>Templates := map g3 ?T\<rparr>"
  have L: "parses (readTemplateLayers s0) (layerBits ?T) s1"
  proof -
    obtain t ts where t: "?T = t # ts" using wf by (cases ?T) (auto simp: wfStructure_def)
    have "parses (readTemplateLayersLoop 64 [] 0 0) (layerBits ?T) (map bare ?T)"
      using parses_readTemplateLayersLoop [of t ts 64 "[]"] wf by (simp add: t wfStructure_def)
    then show ?thesis unfolding readTemplateLayers_def by (rule parses_map) (simp add: s1_def)
  qed
  have D: "parses (readTemplateDtis s1) (concat (map templateDtiBits ?T)) s2"
    unfolding readTemplateDtis_def templateDtiBits_def s1_def
    by (rule parses_map, simp, rule parses_readEach [where h = g2], rule parses_map, rule dti.get_list)
      (use wf in \<open>auto simp: wfStructure_def wfTemplate_def list_all_iff s0_def s2_def g2_def emptyStructure_def\<close>)
  have F: "parses (readTemplateFdiffs s2) (concat (map templateFdiffsBits ?T)) s3"
    unfolding readTemplateFdiffs_def templateFdiffsBits_def s2_def
    by (rule parses_map, simp, rule parses_readEach [where h = g3], rule parses_map, rule parses_readFdiffsLoop)
      (use wf in \<open>auto simp: wfStructure_def wfTemplate_def list_all_iff s0_def s3_def g2_def g3_def bare_def emptyStructure_def\<close>)
  have C: "parses (readTemplateChains s3) (chainBits s) (s\<lparr>Resolutions := []\<rparr>)"
    by (rule parses_chains [OF wf]) (simp add: s3_def s0_def g3_def emptyStructure_def)
  have R: "parses (if Resolutions s \<noteq> [] then readResolutions (s\<lparr>Resolutions := []\<rparr>) else retP (s\<lparr>Resolutions := []\<rparr>))
      (concat (map resolutionBits (Resolutions s))) s"
  proof (cases "Resolutions s = []")
    case True
    then show ?thesis by (simp add: parses_ret)
  next
    case False
    then have "parses (readN (SpatialId (last ?T) + 1) readResolution) (concat (map resolutionBits (Resolutions s))) (Resolutions s)"
      using wf by (intro resolution.get_list) (auto simp: wfStructure_def)
    then show ?thesis using False wf
      by (simp add: readResolutions_def wfStructure_def) (rule parses_map, assumption, simp)
  qed
  show ?thesis
    unfolding readTemplateDependencyStructure_def structureBits_def
    by (intro parses_bind [OF id(1)] parses_bind [OF n(1)], unfold id(2) n(2), fold s0_def)
      (intro parses_bind [OF L] parses_bind [OF D] parses_bind [OF F] parses_bind [OF C] parses_bind [OF parses_readBool] R)
qed

text \<open>The size the writer announces for the structure is the size it writes.\<close>

lemma length_concat_const: "(\<And>x. x \<in> set xs \<Longrightarrow> length (f x) = c) \<Longrightarrow> length (concat (map f xs)) = c * length xs"
  by (induction xs) auto

lemma length_layerBits: "ts \<noteq> [] \<Longrightarrow> length (layerBits ts) = 2 * length ts"
  by (induction ts rule: layerBits.induct) auto

lemma int_length_concat: "int (length (concat (map f xs))) = (\<Sum>x\<leftarrow>xs. int (length (f x)))"
  by (induction xs) auto

lemma structure_size:
  assumes wf: "wfStructure s"
  shows "int (length (structureBits s)) = structureSizeBits s"
proof -
  let ?T = "Templates s" and ?n = "NumDecodeTargets s"
  note c = chain_numbers [OF wf]
  have D: "length (concat (map templateDtiBits ?T)) = 2 * ?n * length ?T"
    by (rule length_concat_const)
      (use wf in \<open>auto simp: wfStructure_def list_all_iff wfTemplate_def templateDtiBits_def dtiBits_def length_concat_const [where c = 2]\<close>)
  have F: "int (length (concat (map templateFdiffsBits ts))) = int (length ts) + (\<Sum>t\<leftarrow>ts. 5 * int (length (FrameDiffs t)))" for ts
    by (induction ts) (simp_all add: templateFdiffsBits_def templateFdiffBits_def length_concat_const [where c = 5])
  have Ch: "length (concat (map templateChainBits ?T)) = 4 * NumChains s * length ?T"
    by (rule length_concat_const)
      (use wf in \<open>auto simp: wfStructure_def list_all_iff wfTemplate_def templateChainBits_def length_concat_const [where c = 4]\<close>)
  have P: "int (length (concat (map (protectedBits (NumChains s)) ps))) =
      (\<Sum>p\<leftarrow>ps. SizeNonSymmetricBits (of_nat p) (of_nat (NumChains s)))" if "NumChains s \<noteq> 0" for ps
  proof -
    have "(of_nat (NumChains s) :: u32) \<noteq> 0" using that c(4) by (metis unat_0)
    then show ?thesis by (simp add: int_length_concat protectedBits_def length_nsBits)
  qed
  have R: "length (concat (map resolutionBits (Resolutions s))) = 32 * length (Resolutions s)"
    by (rule length_concat_const) (simp add: resolutionBits_def)
  have "(of_nat (?n + 1) :: u32) \<noteq> 0" using c(1) by auto
  then have N: "int (length (nsBits (of_nat (NumChains s)) (of_nat (?n + 1)))) = SizeNonSymmetricBits (of_nat (NumChains s)) (of_nat (?n + 1))"
    by (rule length_nsBits)
  have L: "length (layerBits ?T) = 2 * length ?T" using wf by (simp add: wfStructure_def length_layerBits)
  have "int (length (chainBits s)) = SizeNonSymmetricBits (of_nat (NumChains s)) (of_nat (?n + 1)) +
     (if NumChains s > 0
      then (\<Sum>p\<leftarrow>DecodeTargetProtectedByChain s. SizeNonSymmetricBits (of_nat p) (of_nat (NumChains s))) + int (4 * length ?T * NumChains s)
      else 0)"
    unfolding chainBits_def length_append of_nat_add [where 'a = int] N
    using P [of "DecodeTargetProtectedByChain s"] Ch by simp
  then show ?thesis
    unfolding structureSizeBits_def structureBits_def using D F [of ?T] R L
    by (simp add: algebra_simps del: of_nat_Suc)
qed

section \<open>The frame definition\<close>

definition frameFdiffBits :: "int \<Rightarrow> bool list" where
  "frameFdiffBits d = (if d \<le> 2 ^ 4 then bv 2 1 @ bv 4 (word_of_int (d - 1))
     else if d \<le> 2 ^ 8 then bv 2 2 @ bv 8 (word_of_int (d - 1)) else bv 2 3 @ bv 12 (word_of_int (d - 1)))"

definition frameFdiffsBits :: "FrameDependencyTemplate \<Rightarrow> bool list" where
  "frameFdiffsBits f = concat (map frameFdiffBits (FrameDiffs f)) @ bv 2 0"

definition frameChainBits :: "FrameDependencyTemplate \<Rightarrow> bool list" where
  "frameChainBits f = concat (map (\<lambda>d. bv 8 (word_of_int d)) (ChainDiffs f))"

definition frameBits :: "TemplateMatch \<Rightarrow> FrameDependencyTemplate \<Rightarrow> bool list" where
  "frameBits m f = (if NeedCustomDtis m then templateDtiBits f else []) @
     (if NeedCustomFdiffs m then frameFdiffsBits f else []) @ (if NeedCustomChains m then frameChainBits f else [])"

definition wfFrame :: "FrameDependencyStructure \<Rightarrow> FrameDependencyTemplate \<Rightarrow> bool" where
  "wfFrame s f \<longleftrightarrow> length (DecodeTargetIndications f) = NumDecodeTargets s \<and>
     list_all (\<lambda>d. 1 \<le> d \<and> d \<le> 4096) (FrameDiffs f) \<and>
     length (ChainDiffs f) = NumChains s \<and> list_all (\<lambda>d. 0 \<le> d \<and> d < 2 ^ 8) (ChainDiffs f)"

lemma emits_writeFrameFdiffs:
  assumes "list_all (\<lambda>d. 1 \<le> d \<and> d \<le> 4096) (FrameDiffs f)"
  shows "emits (writeFrameFdiffs f) (frameFdiffsBits f)"
proof -
  have e: "emits (writeBits (push_bit b u OR word_of_int (d - 1)) (2 + b)) (bv 2 u @ bv b (word_of_int (d - 1)))"
    if "1 \<le> d" "d \<le> 2 ^ b" "b \<le> 12" for d u b
    using bv_append [of 2 b "word_of_int (d - 1)" u] word_of_int_bound [of "d - 1" b] that
      emits_writeBits [of "2 + b" "push_bit b u OR word_of_int (d - 1)"] by simp
  have "emits (if d \<le> 2 ^ 4 then writeBits (push_bit 4 1 OR word_of_int (d - 1)) (2 + 4)
         else if d \<le> 2 ^ 8 then writeBits (push_bit 8 2 OR word_of_int (d - 1)) (2 + 8)
         else writeBits (push_bit 12 3 OR word_of_int (d - 1)) (2 + 12)) (frameFdiffBits d)" if "d \<in> set (FrameDiffs f)" for d
  proof -
    have "1 \<le> d" "d \<le> 2 ^ 12" using assms that by (auto simp: list_all_iff)
    then show ?thesis using e [of d 4 1] e [of d 8 2] e [of d 12 3] unfolding frameFdiffBits_def
      by (simp only: split: if_split) simp
  qed
  then show ?thesis unfolding writeFrameFdiffs_def frameFdiffsBits_def
    by (intro emits_then emits_each emits_writeBits) simp_all
qed

lemma parses_readFrameFdiffsLoop:
  "list_all (\<lambda>d. 1 \<le> d \<and> d \<le> 4096) fs \<Longrightarrow>
   parses (readFrameFdiffsLoop acc) (concat (map frameFdiffBits fs) @ bv 2 0) (acc @ fs)"
proof (induction fs arbitrary: acc)
  case Nil
  have z: "parses (readBits 2) (bv 2 0) 0" by (rule parses_readBits) simp_all
  show ?case unfolding parses_def
  proof (intro allI impI)
    fix r xs assume "rok r" "rest r = (concat (map frameFdiffBits []) @ bv 2 0) @ xs"
    then have "rok r" "rest r = bv 2 0 @ xs" by simp_all
    from parsesD [OF z this] obtain r' where "readBits 2 r = (r', Inr 0)" "rok r'" "rest r' = xs" "br_buf r' = br_buf r" .
    then show "\<exists>r'. readFrameFdiffsLoop acc r = (r', Inr (acc @ [])) \<and> rok r' \<and> rest r' = xs \<and> br_buf r' = br_buf r"
      by (subst readFrameFdiffsLoop.simps) simp
  qed
next
  case (Cons d fs)
  then have d: "1 \<le> d" "d \<le> 4096" and fs: "list_all (\<lambda>d. 1 \<le> d \<and> d \<le> 4096) fs" by simp_all
  let ?v = "word_of_int (d - 1) :: u64" and ?t = "concat (map frameFdiffBits fs) @ bv 2 0"
  obtain u :: u64 and b where u: "u \<noteq> 0" "uint (u * 4) = int b" "unat u < 2 ^ 2" "d \<le> 2 ^ b" "b \<le> 12"
    "frameFdiffBits d = bv 2 u @ bv b ?v"
  proof -
    consider "d \<le> 2 ^ 4" | "\<not> d \<le> 2 ^ 4" "d \<le> 2 ^ 8" | "\<not> d \<le> 2 ^ 4" "\<not> d \<le> 2 ^ 8" by blast
    then show thesis
      by cases (rule that [of 1 4] that [of 2 8] that [of 3 12]; use d in \<open>simp add: frameFdiffBits_def\<close>)+
  qed
  show ?case unfolding parses_def
  proof (intro allI impI)
    fix r xs assume r: "rok r" "rest r = (concat (map frameFdiffBits (d # fs)) @ bv 2 0) @ xs"
    then have "rest r = bv 2 u @ (bv b ?v @ ?t @ xs)" using u(6) by simp
    from parsesD [OF parses_readBits r(1) this] u(3) obtain r1 where
      1: "readBits 2 r = (r1, Inr u)" "rok r1" "rest r1 = bv b ?v @ ?t @ xs" "br_buf r1 = br_buf r" by auto
    have "parses (readBits (uint (u * 4))) (bv b ?v) ?v"
      by (rule parses_readBits [OF u(2)]) (use word_of_int_bound [of "d - 1" b] d u in simp_all)
    from parsesD [OF this 1(2,3)] obtain r2 where
      2: "readBits (uint (u * 4)) r1 = (r2, Inr ?v)" "rok r2" "rest r2 = ?t @ xs" "br_buf r2 = br_buf r1" .
    from parsesD [OF Cons.IH [OF fs] 2(2,3)] obtain r3 where
      "readFrameFdiffsLoop (acc @ [d]) r2 = (r3, Inr ((acc @ [d]) @ fs))" "rok r3" "rest r3 = xs" "br_buf r3 = br_buf r2" .
    moreover have "readFrameFdiffsLoop acc r = readFrameFdiffsLoop (acc @ [d]) r2"
      by (subst readFrameFdiffsLoop.simps) (use 1(1) 2(1) uint_fdiff [of d] d u(1) in simp)
    ultimately show "\<exists>r'. readFrameFdiffsLoop acc r = (r', Inr (acc @ d # fs)) \<and> rok r' \<and> rest r' = xs \<and> br_buf r' = br_buf r" using 1(4) 2(4) by simp
  qed
qed

text \<open>The match that is chosen is the match of a template of the structure.\<close>

lemma firstSameLayerFrom_Some:
  "firstSameLayerFrom f i ts = Some k \<Longrightarrow> i \<le> k \<and> k < i + length ts \<and> sameLayerAs f (ts ! (k - i))"
proof (induction ts arbitrary: i)
  case (Cons t ts)
  show ?case
  proof (cases "sameLayerAs f t")
    case False
    then have "firstSameLayerFrom f (i + 1) ts = Some k" using Cons.prems by simp
    from Cons.IH [OF this] show ?thesis by (auto simp: nth_Cons' Suc_le_eq)
  qed (use Cons.prems in simp)
qed simp

lemma lastSameLayerFrom_bound:
  "lastSameLayerFrom f l i ts = l \<or> lastSameLayerFrom f l i ts < i + length ts"
proof (induction ts arbitrary: l i)
  case (Cons t ts)
  then show ?case using Cons.IH [of i "i + 1"] Cons.IH [of l "i + 1"] by auto
qed simp

lemma findBestTemplate_match:
  assumes "findBestTemplate f s ac = Inr m"
  shows "TemplateIdx m < length (Templates s) \<and> m = calculateMatch f s ac (TemplateIdx m) (Templates s ! TemplateIdx m)"
proof -
  obtain k where k: "firstSameLayerFrom f 0 (Templates s) = Some k"
    using assms by (auto simp: findBestTemplate_def split: option.splits)
  let ?l = "lastSameLayerFrom f 0 k (drop k (Templates s))"
  let ?ok = "\<lambda>m. TemplateIdx m < length (Templates s) \<and> m = calculateMatch f s ac (TemplateIdx m) (Templates s ! TemplateIdx m)"
  have idx: "TemplateIdx (calculateMatch f s ac i t) = i" for i t by (simp add: calculateMatch_def Let_def)
  have kl: "k < length (Templates s)" using firstSameLayerFrom_Some [OF k] by simp
  have l: "?l < length (Templates s)" using lastSameLayerFrom_bound [of f 0 k "drop k (Templates s)"] kl by auto
  define g where "g = (\<lambda>best i. let match = calculateMatch f s ac i (Templates s ! i)
              in if ExtraSizeBits match < ExtraSizeBits best then match else best)"
  have "?ok (foldl g b is)"
    if "?ok b" "\<forall>i \<in> set is. i < length (Templates s)" for b "is"
    using that by (induction "is" arbitrary: b) (auto simp: g_def Let_def idx)
  moreover have "?ok (calculateMatch f s ac k (Templates s ! k))" using kl by (simp add: idx)
  moreover have "\<forall>i \<in> set [k + 1..<?l + 1]. i < length (Templates s)" using l by auto
  moreover have "m = foldl g (calculateMatch f s ac k (Templates s ! k)) [k + 1..<?l + 1]"
    using assms k unfolding findBestTemplate_def g_def by (simp add: Let_def)
  ultimately show ?thesis by blast
qed

lemma match_fields:
  "NeedCustomFdiffs (calculateMatch f s ac i t) \<longleftrightarrow> FrameDiffs f \<noteq> FrameDiffs t"
  "NeedCustomDtis (calculateMatch f s ac i t) \<longleftrightarrow> DecodeTargetIndications f \<noteq> DecodeTargetIndications t"
  "TemplateIdx (calculateMatch f s ac i t) = i"
  by (simp_all add: calculateMatch_def Let_def)

lemma NOT_0_bit: "i < 32 \<Longrightarrow> bit (NOT 0 :: u32) i"
  by (simp add: bit_simps)

lemma match_chains:
  assumes "NumChains s \<le> 32" "length (ChainDiffs f) = NumChains s" "length (ChainDiffs t) = NumChains s"
  shows "NeedCustomChains (calculateMatch f s (NOT 0) i t) \<longleftrightarrow> ChainDiffs f \<noteq> ChainDiffs t"
proof -
  have "NeedCustomChains (calculateMatch f s (NOT 0) i t) \<longleftrightarrow> (\<exists>j < NumChains s. ChainDiffs f ! j \<noteq> ChainDiffs t ! j)"
    using assms NOT_0_bit by (auto simp: calculateMatch_def Let_def list_ex_iff)
  also have "\<dots> \<longleftrightarrow> ChainDiffs f \<noteq> ChainDiffs t"
    using assms by (auto simp: list_eq_iff_nth_eq)
  finally show ?thesis .
qed

lemma frame_size:
  assumes "m = calculateMatch f s ac i t" "wfFrame s f"
  shows "length (frameBits m f) = ExtraSizeBits m"
proof -
  have F: "length (concat (map frameFdiffBits ds)) = 2 * length ds + sum_list (map fdiffExtraBits ds)" for ds
    by (induction ds) (simp_all add: frameFdiffBits_def fdiffExtraBits_def)
  have D: "length (templateDtiBits f) = 2 * length (DecodeTargetIndications f)"
    unfolding templateDtiBits_def by (rule length_concat_const) (simp add: dtiBits_def)
  have C: "length (frameChainBits f) = 8 * NumChains s"
    using assms(2) by (simp add: frameChainBits_def length_concat_const [where c = 8] wfFrame_def)
  show ?thesis
    using F [of "FrameDiffs f"] D C unfolding assms(1)
    by (simp add: frameBits_def frameFdiffsBits_def calculateMatch_def Let_def del: length_concat)
qed

lemma emits_frame:
  assumes "wr_frame w = f" "wr_structure w = s" "wr_activeChains w = NOT 0" "wfFrame s f" "NumChains s \<le> 32"
  shows "emits (writeFrameDependencyDefinition w) (frameBits (wr_bestTemplate w) f)"
proof -
  have "emits (writeFrameDtis f) (templateDtiBits f)"
    unfolding writeFrameDtis_def writeDtis_def templateDtiBits_def by (rule dti.put_list) (simp add: list_all_iff)
  moreover have "emits (writeFrameFdiffs f) (frameFdiffsBits f)"
    by (rule emits_writeFrameFdiffs) (use assms(4) in \<open>simp add: wfFrame_def\<close>)
  moreover have "emits (writeFrameChains w) (frameChainBits f)"
  proof -
    have "emits (writeFrameChains w) (concat (map (\<lambda>i. bv 8 (word_of_int (ChainDiffs f ! i))) [0..<NumChains s]))"
      unfolding writeFrameChains_def using assms NOT_0_bit
      by (simp del: upt_Suc) (intro emits_each, auto simp: wfFrame_def intro!: emits_writeBits)
    moreover have "map (\<lambda>i. bv 8 (word_of_int (ChainDiffs f ! i)) :: bool list) [0..<NumChains s] =
        map (\<lambda>d. bv 8 (word_of_int d)) (ChainDiffs f)"
      using assms(4) by (intro nth_equalityI) (auto simp: wfFrame_def)
    ultimately show ?thesis by (simp add: frameChainBits_def)
  qed
  ultimately show ?thesis
    unfolding writeFrameDependencyDefinition_def frameBits_def assms(1)
    by (intro emits_then) (auto intro: emits_skip)
qed

lemma wfLayers_spatial_mono:
  assumes "wfLayers ts" "i < length ts"
  shows "SpatialId (ts ! i) \<le> SpatialId (last ts)"
proof -
  have "successively (\<lambda>a b. SpatialId a \<le> SpatialId b) ts"
    using assms(1) unfolding wfLayers_def
    by (auto elim!: successively_mono simp: getNextLayerIdc_def split: if_splits)
  then have "sorted (map SpatialId ts)"
    by (subst (asm) successively_conv_sorted_wrt) (auto simp: sorted_map transp_def)
  then have "map SpatialId ts ! i \<le> map SpatialId ts ! (length ts - 1)"
    using assms(2) by (intro sorted_nth_mono) auto
  moreover have "ts \<noteq> []" using assms(2) by auto
  ultimately show ?thesis using assms(2) by (simp add: last_conv_nth)
qed

definition resolutionOf :: "FrameDependencyStructure \<Rightarrow> FrameDependencyTemplate \<Rightarrow> RenderResolution option" where
  "resolutionOf s f = (if Resolutions s = [] then None else Some (Resolutions s ! SpatialId f))"

lemma template_index:
  assumes "i < 64" "k < 64"
  shows "goRem (int ((i + k) mod 64) + 64 - int k) 64 = int i"
proof (cases "i + k < 64")
  case True
  then show ?thesis using assms by (simp add: goRem_def)
next
  case False
  then have "(i + k) mod 64 = i + k - 64" using assms by (simp add: mod_if)
  then show ?thesis using assms False by (simp add: goRem_def of_nat_diff)
qed

lemma parses_frame:
  assumes wf: "wfStructure s" "wfFrame s f" and t: "i < length (Templates s)" "t = Templates s ! i" "sameLayerAs f t"
    and m: "m = calculateMatch f s (NOT 0) i t"
    and r: "rd_frameDependencyTemplateId r = (i + StructureId s) mod 64"
      "rd_customDtisFlag r = NeedCustomDtis m" "rd_customFdiffsFlag r = NeedCustomFdiffs m" "rd_customChainsFlag r = NeedCustomChains m"
  shows "parses (readFrameDependencyDefinition s r) (frameBits m f)
    (r\<lparr>rd_descriptor := (rd_descriptor r)\<lparr>FrameDependencies := Some f, Resolution := resolutionOf s f\<rparr>\<rparr>)"
proof -
  have "i < 64" "StructureId s < 64" using wf(1) t(1) by (auto simp: wfStructure_def)
  then have idx: "goRem (int (rd_frameDependencyTemplateId r) + int MaxTemplates - int (StructureId s)) (int MaxTemplates) = int i"
    using template_index r(1) by simp
  have wt: "wfTemplate s t" "NumChains s \<le> 32" using wf(1) t chain_numbers(3) [OF wf(1)] by (auto simp: wfStructure_def list_all_iff)
  define f1 where "f1 = t\<lparr>DecodeTargetIndications := DecodeTargetIndications f\<rparr>"
  define f2 where "f2 = f1\<lparr>FrameDiffs := FrameDiffs f\<rparr>"
  have f: "f2\<lparr>ChainDiffs := ChainDiffs f\<rparr> = f" using t(3) by (simp add: f1_def f2_def sameLayerAs_def)
  have cl: "Clone (Templates s ! nat (int i)) = t" by (simp add: Clone_def t(2))
  have D: "parses (if NeedCustomDtis m then readFrameDtis s t else retP t) (if NeedCustomDtis m then templateDtiBits f else []) f1"
  proof (cases "NeedCustomDtis m")
    case True
    have "parses (readN (length (DecodeTargetIndications t)) readDti) (templateDtiBits f) (DecodeTargetIndications f)"
      unfolding templateDtiBits_def using wt(1) wf(2)
      by (intro dti.get_list) (auto simp: list_all_iff wfTemplate_def wfFrame_def)
    then show ?thesis using True wt(1)
      by (simp add: readFrameDtis_def wfTemplate_def) (rule parses_map, assumption, simp add: f1_def)
  qed (simp add: parses_ret f1_def m match_fields)
  have F: "parses (if NeedCustomFdiffs m then readFrameFdiffs f1 else retP f1) (if NeedCustomFdiffs m then frameFdiffsBits f else []) f2"
  proof (cases "NeedCustomFdiffs m")
    case True
    have "parses (readFrameFdiffsLoop []) (frameFdiffsBits f) (FrameDiffs f)"
      using parses_readFrameFdiffsLoop [of "FrameDiffs f" "[]"] wf(2) by (simp add: frameFdiffsBits_def wfFrame_def)
    then show ?thesis using True
      by (simp add: readFrameFdiffs_def) (rule parses_map, assumption, simp add: f2_def)
  qed (simp add: parses_ret f1_def f2_def m match_fields)
  have C: "parses (if NeedCustomChains m then readFrameChains s f2 else retP f2) (if NeedCustomChains m then frameChainBits f else []) f"
  proof (cases "NeedCustomChains m")
    case True
    have "parses (readN (length (ChainDiffs f2)) (bindP (readBits 8) (\<lambda>d. retP (uint d)))) (frameChainBits f) (ChainDiffs f)"
      unfolding frameChainBits_def using wt(1) wf(2)
      by (intro chain8.get_list) (auto simp: f1_def f2_def wfTemplate_def wfFrame_def)
    moreover have "length (ChainDiffs f2) = NumChains s" using wt(1) by (simp add: f1_def f2_def wfTemplate_def)
    ultimately show ?thesis using True f
      by (simp add: readFrameChains_def) (rule parses_map, assumption, simp)
  next
    case False
    then have "ChainDiffs t = ChainDiffs f"
      using match_chains [of s f t i] wt wf(2) by (simp add: m wfTemplate_def wfFrame_def)
    then have cd: "ChainDiffs f = ChainDiffs f2" by (simp add: f1_def f2_def)
    have "f2 = f2\<lparr>ChainDiffs := ChainDiffs f\<rparr>" unfolding cd by simp
    also note f
    finally have "f2 = f" .
    then show ?thesis using False by (simp add: parses_ret)
  qed
  have sp: "SpatialId f < length (Resolutions s)" if "Resolutions s \<noteq> []"
    using wfLayers_spatial_mono [of "Templates s" i] that wf(1) t by (auto simp: wfStructure_def sameLayerAs_def)
  have guard: "\<not> int i \<ge> int (length (Templates s))" "\<not> int i < 0" using t(1) by auto
  show ?thesis
    unfolding readFrameDependencyDefinition_def idx Let_def cl if_not_P [OF guard(1)] if_not_P [OF guard(2)] r(2-4) frameBits_def
    by (intro parses_bind [OF D] parses_bind [OF F] parses_bind [OF C, where cs = "[]", simplified])
      (use sp in \<open>auto simp: resolutionOf_def intro!: parses_ret\<close>)
qed

end
