(* ===== verification/Dependency_Descriptor_Roundtrip.thy ===== *)
theory Dependency_Descriptor_Roundtrip
  imports Dependency_Descriptor_Codec
begin

text \<open>
  The properties of the dependency descriptor codec as a whole: announced and written size,
  marshalling followed by unmarshalling, well-formedness of whatever was parsed, and the template
  choice of the writer.
\<close>

section \<open>The whole message\<close>

definition mandatoryBits :: "DependencyDescriptorWriter \<Rightarrow> bool list" where
  "mandatoryBits w = [FirstPacketInFrame (wr_descriptor w)] @ [LastPacketInFrame (wr_descriptor w)] @
     bv 6 (of_nat ((TemplateIdx (wr_bestTemplate w) + StructureId (wr_structure w)) mod 64)) @
     bv 16 (ucast (FrameNumber (wr_descriptor w)))"

definition extendedBits :: "DependencyDescriptorWriter \<Rightarrow> bool list" where
  "extendedBits w = [AttachedStructure (wr_descriptor w) \<noteq> None] @ [shouldWriteActiveDecodeTargetsBitmask w] @
     [NeedCustomDtis (wr_bestTemplate w)] @ [NeedCustomFdiffs (wr_bestTemplate w)] @ [NeedCustomChains (wr_bestTemplate w)] @
     (if AttachedStructure (wr_descriptor w) \<noteq> None then structureBits (wr_structure w) else []) @
     (if shouldWriteActiveDecodeTargetsBitmask w
      then bv (NumDecodeTargets (wr_structure w)) (ucast (the (ActiveDecodeTargetsBitmask (wr_descriptor w)))) else [])"

definition messageBits :: "DependencyDescriptorWriter \<Rightarrow> bool list" where
  "messageBits w = mandatoryBits w @
     (if hasExtendedFields w then extendedBits w @ frameBits (wr_bestTemplate w) (wr_frame w) else [])"

text \<open>A writer on a well-formed structure whose template was chosen by \<open>findBestTemplate\<close>.\<close>

definition wfWriter :: "DependencyDescriptorWriter \<Rightarrow> bool" where
  "wfWriter w \<longleftrightarrow> wfStructure (wr_structure w) \<and> wfFrame (wr_structure w) (wr_frame w) \<and> wr_activeChains w = NOT 0 \<and>
     findBestTemplate (wr_frame w) (wr_structure w) (wr_activeChains w) = Inr (wr_bestTemplate w)"

lemma emits_message:
  assumes "wfWriter w"
  shows "emits (thenE (writeMandatoryFields w)
     (if hasExtendedFields w then thenE (writeExtendedFields w) (writeFrameDependencyDefinition w) else skipE)) (messageBits w)"
proof -
  let ?s = "wr_structure w"
  have wf: "wfStructure ?s" using assms by (simp add: wfWriter_def)
  have n: "0 < NumDecodeTargets ?s" "NumDecodeTargets ?s \<le> 32" using wf by (auto simp: wfStructure_def)
  have M: "emits (writeMandatoryFields w) (mandatoryBits w)"
    unfolding writeMandatoryFields_def mandatoryBits_def by (intro emits_then emits_writeBool emits_writeBits) simp_all
  have E: "emits (writeExtendedFields w) (extendedBits w)"
    unfolding writeExtendedFields_def extendedBits_def Let_def
    using emits_structure [OF wf] n by (intro emits_then emits_writeBool) (auto intro!: emits_writeBits emits_skip)
  have F: "emits (writeFrameDependencyDefinition w) (frameBits (wr_bestTemplate w) (wr_frame w))"
    using assms chain_numbers(3) [OF wf] by (intro emits_frame [where s = ?s]) (auto simp: wfWriter_def)
  show ?thesis unfolding messageBits_def using emits_then [OF E F]
    by (intro emits_then M) (auto intro: emits_skip)
qed

lemma message_size:
  assumes "wfWriter w"
  shows "int (length (messageBits w)) = ValueSizeBits w"
proof -
  let ?m = "wr_bestTemplate w"
  have "?m = calculateMatch (wr_frame w) (wr_structure w) (NOT 0) (TemplateIdx ?m) (Templates (wr_structure w) ! TemplateIdx ?m)"
    using assms findBestTemplate_match by (fastforce simp: wfWriter_def)
  then have F: "length (frameBits ?m (wr_frame w)) = ExtraSizeBits ?m"
    using frame_size assms by (fastforce simp: wfWriter_def)
  have S: "int (length (structureBits (wr_structure w))) = structureSizeBits (wr_structure w)"
    using structure_size assms by (simp add: wfWriter_def)
  have X: "\<not> hasExtendedFields w \<Longrightarrow> ExtraSizeBits ?m = 0" by (simp add: hasExtendedFields_def)
  show ?thesis using F S X
    by (simp add: messageBits_def mandatoryBits_def extendedBits_def ValueSizeBits_def mandatoryFieldSize_def)
qed

text \<open>Padding fills the slice with zero bits.\<close>

lemma bv_0: "bv n 0 = replicate n False"
  by (rule nth_equalityI) (simp_all add: nth_bv)

lemma emits_zero_words: "emits (eachE (\<lambda>i. writeBits 0 64) xs) (replicate (64 * length xs) False)"
proof (induction xs)
  case (Cons x xs)
  have "emits (writeBits 0 64) (replicate 64 False)" using emits_writeBits [of 64 0] bv_0 [of 64] by simp
  from emits_then [OF this Cons] show ?case by (simp add: replicate_add [symmetric])
qed (simp add: emits_skip)

lemma writePadding_spec:
  assumes "wok w"
  shows "\<exists>w' pad. writePadding w = Inr w' \<and> wok w' \<and> length (bw_buf w') = length (bw_buf w) \<and>
    written w' = written w @ replicate (8 * length (bw_buf w) - length (written w)) False"
proof -
  define n where "n = 8 * length (bw_buf w) - length (written w)"
  have n: "nat (bw_RemainingBits w) = n" "length (written w) + n = 8 * length (bw_buf w)"
    using assms by (auto simp: n_def bw_RemainingBits_def wok_def wpos_def)
  have "emits (if n mod 64 \<noteq> 0 then writeBits 0 (n mod 64) else skipE) (replicate (n mod 64) False)"
    using emits_writeBits [of "n mod 64" 0] bv_0 [of "n mod 64"] emits_skip by auto
  from emits_then [OF this emits_zero_words [of "[0..<n div 64]"]]
  have "emits (thenE (if n mod 64 \<noteq> 0 then writeBits 0 (n mod 64) else skipE) (eachE (\<lambda>i. writeBits 0 64) [0..<n div 64])) (replicate n False)"
    by (simp flip: replicate_add)
  then show ?thesis
    by (rule emitsD [OF _ assms])
      (use n(2) in \<open>auto simp: writePadding_def Let_def n(1) simp flip: n_def\<close>)
qed

lemma thenE_assoc: "thenE a (thenE b c) w = bindR (thenE a b w) c"
  by (cases "a w") (simp_all add: thenE_def)

lemma Write_spec:
  assumes "wfWriter w" "length (messageBits w) \<le> 8 * n"
  shows "\<exists>b. Write w (NewBitStreamWriter (replicate n 0)) = Inr b \<and> wok b \<and> length (bw_buf b) = n \<and>
    written b = messageBits w @ replicate (8 * n - length (messageBits w)) False"
proof -
  let ?b0 = "NewBitStreamWriter (replicate n 0)"
  have b0: "bw_buf ?b0 = replicate n 0" by (simp add: NewBitStreamWriter_def)
  have best: "w\<lparr>wr_bestTemplate := wr_bestTemplate w\<rparr> = w" by simp
  obtain b1 where 1: "thenE (writeMandatoryFields w)
     (if hasExtendedFields w then thenE (writeExtendedFields w) (writeFrameDependencyDefinition w) else skipE) ?b0 = Inr b1"
    "wok b1" "length (bw_buf b1) = n" "written b1 = messageBits w"
    by (rule emitsD [OF emits_message [OF assms(1)], of ?b0])
      (use NewBitStreamWriter_wok [of "replicate n 0"] assms(2) in \<open>simp_all add: b0 wpos_def NewBitStreamWriter_def\<close>)
  obtain b2 where 2: "writePadding b1 = Inr b2" "wok b2" "length (bw_buf b2) = n"
    "written b2 = messageBits w @ replicate (8 * n - length (messageBits w)) False"
    using writePadding_spec [OF 1(2)] 1(3,4) by auto
  have fb: "findBestTemplate (wr_frame w) (wr_structure w) (wr_activeChains w) = Inr (wr_bestTemplate w)"
    using assms(1) unfolding wfWriter_def by blast
  have "Write w ?b0 = Inr b2"
    unfolding Write_def fb bindR.simps Let_def best thenE_assoc 1(1) by (rule 2(1))
  then show ?thesis using 2 by auto
qed

section \<open>Reading it back\<close>

text \<open>
  A descriptor that fits a structure: its frame is well formed for it, its resolution is the one of its layer, and
  an attached structure is the structure itself and comes with a mask of active decode targets.
\<close>

definition wfDescriptor :: "FrameDependencyStructure \<Rightarrow> DependencyDescriptor \<Rightarrow> bool" where
  "wfDescriptor s d \<longleftrightarrow>
     (case FrameDependencies d of None \<Rightarrow> False
      | Some f \<Rightarrow> wfFrame s f \<and> Resolution d = resolutionOf s f) \<and>
     (case ActiveDecodeTargetsBitmask d of None \<Rightarrow> AttachedStructure d = None | Some m \<Rightarrow> unat m < 2 ^ NumDecodeTargets s) \<and>
     (AttachedStructure d = None \<or> AttachedStructure d = Some s)"

definition mandatoryRead :: "DependencyDescriptorWriter \<Rightarrow> DependencyDescriptorReader \<Rightarrow> DependencyDescriptorReader" where
  "mandatoryRead w r = r\<lparr>rd_descriptor := (rd_descriptor r)\<lparr>FirstPacketInFrame := FirstPacketInFrame (wr_descriptor w),
     LastPacketInFrame := LastPacketInFrame (wr_descriptor w), FrameNumber := FrameNumber (wr_descriptor w)\<rparr>,
     rd_frameDependencyTemplateId := (TemplateIdx (wr_bestTemplate w) + StructureId (wr_structure w)) mod 64\<rparr>"

lemma parses_mandatory: "parses (readMandatoryFields r) (mandatoryBits w) (mandatoryRead w r)"
proof -
  let ?k = "(TemplateIdx (wr_bestTemplate w) + StructureId (wr_structure w)) mod 64" and ?n = "FrameNumber (wr_descriptor w)"
  have k: "?k < 64" by simp
  then have u: "unat (of_nat ?k :: u64) = ?k" by (simp add: unat_of_nat take_bit_nat_eq_self)
  have K: "parses (readBits 6) (bv 6 (of_nat ?k)) (of_nat ?k)"
    by (rule parses_readBits) (use u k in simp_all)
  have n: "unat (ucast ?n :: u64) = unat ?n" using u16_lt [of ?n] by (simp add: unsigned_ucast_eq take_bit_nat_eq_self_iff)
  have N: "parses (readBits 16) (bv 16 (ucast ?n)) (ucast ?n)"
    by (rule parses_readBits) (use n u16_lt [of ?n] in simp_all)
  have bk: "ucast (ucast ?n :: u64) = ?n" by (rule bit_word_eqI) (auto simp: bit_simps)
  show ?thesis
    unfolding readMandatoryFields_def mandatoryBits_def
    by (intro parses_bind [OF parses_readBool] parses_bind [OF K]) (rule parses_map [OF N], simp add: mandatoryRead_def u bk)
qed

definition allTargets :: "FrameDependencyStructure \<Rightarrow> u32" where
  "allTargets s = ucast (push_bit (NumDecodeTargets s) 1 - 1 :: u64)"

definition extendedRead :: "DependencyDescriptorWriter \<Rightarrow> DependencyDescriptorReader \<Rightarrow> DependencyDescriptorReader" where
  "extendedRead w r = (let r = r\<lparr>rd_activeDecodeTargetsPresentFlag := shouldWriteActiveDecodeTargetsBitmask w,
       rd_customDtisFlag := NeedCustomDtis (wr_bestTemplate w), rd_customFdiffsFlag := NeedCustomFdiffs (wr_bestTemplate w),
       rd_customChainsFlag := NeedCustomChains (wr_bestTemplate w)\<rparr> in
     if AttachedStructure (wr_descriptor w) \<noteq> None
     then r\<lparr>rd_descriptor := (rd_descriptor r)\<lparr>AttachedStructure := Some (wr_structure w),
            ActiveDecodeTargetsBitmask := Some (allTargets (wr_structure w))\<rparr>\<rparr> else r)"

lemma parses_extended:
  assumes "wfStructure (wr_structure w)"
  shows "parses (readExtendedFields r)
    ([AttachedStructure (wr_descriptor w) \<noteq> None] @ [shouldWriteActiveDecodeTargetsBitmask w] @
     [NeedCustomDtis (wr_bestTemplate w)] @ [NeedCustomFdiffs (wr_bestTemplate w)] @ [NeedCustomChains (wr_bestTemplate w)] @
     (if AttachedStructure (wr_descriptor w) \<noteq> None then structureBits (wr_structure w) else [])) (extendedRead w r)"
  unfolding readExtendedFields_def extendedRead_def
  by (intro parses_bind [OF parses_readBool])
    (auto simp: Let_def allTargets_def intro!: parses_ret parses_map [OF parses_structure [OF assms]])

lemma parses_mask:
  assumes s: "0 < NumDecodeTargets s" "NumDecodeTargets s \<le> 32" and m: "unat m < 2 ^ NumDecodeTargets s"
  shows "parses (bindP (readBits (int (NumDecodeTargets s))) (\<lambda>bitmask.
      retP (r\<lparr>rd_descriptor := (rd_descriptor r)\<lparr>ActiveDecodeTargetsBitmask := Some (ucast bitmask)\<rparr>\<rparr>)))
    (bv (NumDecodeTargets s) (ucast m)) (r\<lparr>rd_descriptor := (rd_descriptor r)\<lparr>ActiveDecodeTargetsBitmask := Some m\<rparr>\<rparr>)"
  by (rule parses_map [OF parses_readBits]) (use s m in simp_all)

lemma BytesRead_end:
  assumes "rok b" "rest b = pad" "length pad < 8"
  shows "BytesRead b = length (br_buf b)"
proof -
  have rem: "br_remainingBits b = int (length pad)" using length_rest [OF assms(1)] assms(2) by simp
  then have p: "br_pos b = (8 * length (br_buf b) - length pad) div 8"
    using assms(1) by (auto simp: rok_def rpos_def nat_diff_distrib)
  show ?thesis
  proof (cases "pad = []")
    case True
    then show ?thesis using rem p by (simp add: BytesRead_def)
  next
    case False
    have "length pad \<le> 8 * length (br_buf b)" using assms(1) rem by (simp add: rok_def)
    then obtain n where n: "length (br_buf b) = Suc n" using False by (cases "length (br_buf b)") auto
    have "8 * length (br_buf b) - length pad = 8 * n + (8 - length pad)" using n assms(3) by simp
    moreover have "(8 * n + (8 - length pad)) div 8 = n" using False by (simp add: div_add1_eq del: div_mult_self1)
    ultimately have "br_pos b = n" unfolding p by (rule ssubst)
    then show ?thesis using rem False assms(3) n by (simp add: BytesRead_def)
  qed
qed

text \<open>
  The message of a writer, read by a reader that knows the structure or is sent it. Bits after the
  message are padding.
\<close>

definition maskBits :: "DependencyDescriptorWriter \<Rightarrow> bool list" where
  "maskBits w = (if shouldWriteActiveDecodeTargetsBitmask w
     then bv (NumDecodeTargets (wr_structure w)) (ucast (the (ActiveDecodeTargetsBitmask (wr_descriptor w)))) else [])"

lemma no_extra_no_custom:
  assumes "m = calculateMatch f s ac i t" "ExtraSizeBits m = 0" "0 < length (DecodeTargetIndications f)"
  shows "\<not> NeedCustomDtis m \<and> \<not> NeedCustomFdiffs m \<and> \<not> NeedCustomChains m"
  using assms by (auto simp: calculateMatch_def Let_def list_ex_iff split: if_splits)

lemma no_extended_no_custom:
  assumes "wfWriter w" "\<not> hasExtendedFields w"
  shows "\<not> NeedCustomDtis (wr_bestTemplate w) \<and> \<not> NeedCustomFdiffs (wr_bestTemplate w) \<and> \<not> NeedCustomChains (wr_bestTemplate w)"
proof (rule no_extra_no_custom)
  let ?m = "wr_bestTemplate w"
  show "?m = calculateMatch (wr_frame w) (wr_structure w) (wr_activeChains w) (TemplateIdx ?m) (Templates (wr_structure w) ! TemplateIdx ?m)"
    using findBestTemplate_match assms(1) unfolding wfWriter_def by blast
qed (use assms in \<open>simp_all add: hasExtendedFields_def wfWriter_def wfFrame_def wfStructure_def\<close>)

lemma bindP_step: "m r = (r', Inr x) \<Longrightarrow> bindP m f r = f x r'"
  by (simp add: bindP_def)

lemma Parse_message:
  assumes w: "wfWriter w" and d: "wfDescriptor (wr_structure w) (wr_descriptor w)" "FrameDependencies (wr_descriptor w) = Some (wr_frame w)"
    and same: "sameLayerAs (wr_frame w) (Templates (wr_structure w) ! TemplateIdx (wr_bestTemplate w))"
    and st: "AttachedStructure (wr_descriptor w) = None \<Longrightarrow> st = Some (wr_structure w)"
    and d0: "AttachedStructure d0 = None" "ActiveDecodeTargetsBitmask d0 = None"
    and buf: "map (sbit buf) [0..<8 * length buf] = messageBits w @ pad" "length pad < 8" "length buf > 3 \<longleftrightarrow> hasExtendedFields w"
  shows "Parse (NewDependencyDescriptorReader st d0) buf = Inr (length buf, wr_descriptor w)"
proof -
  let ?s = "wr_structure w" and ?m = "wr_bestTemplate w" and ?f = "wr_frame w" and ?d = "wr_descriptor w"
  let ?i = "TemplateIdx ?m"
  have wf: "wfStructure ?s" "wfFrame ?s ?f" and fb: "findBestTemplate ?f ?s (NOT 0) = Inr ?m"
    using w unfolding wfWriter_def by auto
  note mt = findBestTemplate_match [OF fb]
  have ndt: "0 < NumDecodeTargets ?s" "NumDecodeTargets ?s \<le> 32" using wf(1) by (auto simp: wfStructure_def)
  define r0 where "r0 = NewDependencyDescriptorReader st d0"
  define r1 where "r1 = mandatoryRead w r0"
  define r2 where "r2 = (if hasExtendedFields w then extendedRead w r1 else r1)"
  define r2' where "r2' = (if AttachedStructure (rd_descriptor r2) \<noteq> None then r2\<lparr>rd_structure := AttachedStructure (rd_descriptor r2)\<rparr> else r2)"
  define r3 where "r3 = (if rd_activeDecodeTargetsPresentFlag r2'
      then r2'\<lparr>rd_descriptor := (rd_descriptor r2')\<lparr>ActiveDecodeTargetsBitmask := ActiveDecodeTargetsBitmask ?d\<rparr>\<rparr> else r2')"
  define r4 where "r4 = r3\<lparr>rd_descriptor := (rd_descriptor r3)\<lparr>FrameDependencies := Some ?f, Resolution := resolutionOf ?s ?f\<rparr>\<rparr>"
  have hasA: "AttachedStructure ?d \<noteq> None \<Longrightarrow> hasExtendedFields w" by (simp add: hasExtendedFields_def)
  have should: "shouldWriteActiveDecodeTargetsBitmask w \<Longrightarrow> hasExtendedFields w"
    by (auto simp: hasExtendedFields_def shouldWriteActiveDecodeTargetsBitmask_def split: option.splits)
  have flag: "rd_activeDecodeTargetsPresentFlag r2' = shouldWriteActiveDecodeTargetsBitmask w"
    using should by (auto simp: r2'_def r2_def r1_def r0_def extendedRead_def mandatoryRead_def NewDependencyDescriptorReader_def Let_def)
  have str: "rd_structure r2' = Some ?s"
    using st hasA d0 by (auto simp: r2'_def r2_def r1_def r0_def extendedRead_def mandatoryRead_def NewDependencyDescriptorReader_def Let_def)
  have flags: "rd_customDtisFlag r3 = NeedCustomDtis ?m" "rd_customFdiffsFlag r3 = NeedCustomFdiffs ?m" "rd_customChainsFlag r3 = NeedCustomChains ?m"
      "rd_frameDependencyTemplateId r3 = (?i + StructureId ?s) mod 64"
    using no_extended_no_custom [OF w]
    by (auto simp: r3_def r2'_def r2_def r1_def r0_def extendedRead_def mandatoryRead_def NewDependencyDescriptorReader_def Let_def)
  have P1: "parses (readMandatoryFields r0) (mandatoryBits w) r1" unfolding r1_def by (rule parses_mandatory)
  let ?ext = "if hasExtendedFields w then [AttachedStructure ?d \<noteq> None] @ [shouldWriteActiveDecodeTargetsBitmask w] @
     [NeedCustomDtis ?m] @ [NeedCustomFdiffs ?m] @ [NeedCustomChains ?m] @
     (if AttachedStructure ?d \<noteq> None then structureBits ?s else []) else []"
  have P2: "parses (if length buf > 3 then readExtendedFields r1 else retP r1) ?ext r2"
    unfolding buf(3) r2_def using parses_extended [OF wf(1), of r1] by (auto intro: parses_ret)
  let ?M3 = "if rd_activeDecodeTargetsPresentFlag r2' then bindP (readBits (int (NumDecodeTargets ?s))) (\<lambda>bitmask.
      retP (r2'\<lparr>rd_descriptor := (rd_descriptor r2')\<lparr>ActiveDecodeTargetsBitmask := Some (ucast bitmask)\<rparr>\<rparr>)) else retP r2'"
  have P3: "parses ?M3 (maskBits w) r3"
  proof (cases "shouldWriteActiveDecodeTargetsBitmask w")
    case True
    then obtain m where m: "ActiveDecodeTargetsBitmask ?d = Some m"
      by (auto simp: shouldWriteActiveDecodeTargetsBitmask_def split: option.splits)
    then have "unat m < 2 ^ NumDecodeTargets ?s" using d(1) by (simp add: wfDescriptor_def)
    from parses_mask [OF ndt this] True show ?thesis unfolding flag r3_def maskBits_def m by simp
  qed (simp add: flag r3_def maskBits_def parses_ret)
  have P4: "parses (readFrameDependencyDefinition ?s r3) (frameBits ?m ?f) r4"
    unfolding r4_def using mt flags by (intro parses_frame [OF wf _ refl same]) auto
  have bits: "messageBits w = mandatoryBits w @ ?ext @ maskBits w @ frameBits ?m ?f"
    using should no_extended_no_custom [OF w] by (auto simp: messageBits_def extendedBits_def maskBits_def frameBits_def)
  obtain b1 where 1: "readMandatoryFields r0 (NewBitStreamReader buf) = (b1, Inr r1)" "rok b1" "rest b1 = ?ext @ maskBits w @ frameBits ?m ?f @ pad"
      "br_buf b1 = br_buf (NewBitStreamReader buf)"
    by (rule parsesD [OF P1 NewBitStreamReader_rok]) (auto simp: rest_NewBitStreamReader buf(1) bits)
  obtain b2 where 2: "(if length buf > 3 then readExtendedFields r1 else retP r1) b1 = (b2, Inr r2)" "rok b2"
      "rest b2 = maskBits w @ frameBits ?m ?f @ pad" "br_buf b2 = br_buf b1"
    by (rule parsesD [OF P2 1(2,3)])
  obtain b3 where 3: "?M3 b2 = (b3, Inr r3)"
      "rok b3" "rest b3 = frameBits ?m ?f @ pad" "br_buf b3 = br_buf b2"
    by (rule parsesD [OF P3 2(2,3)])
  obtain b4 where 4: "readFrameDependencyDefinition ?s r3 b3 = (b4, Inr r4)" "rok b4" "rest b4 = pad" "br_buf b4 = br_buf b3"
    by (rule parsesD [OF P4 3(2,3)])
  have "Parse r0 buf = Inr (BytesRead b4, rd_descriptor r4)"
    unfolding Parse_def bindP_step [where m = "readMandatoryFields r0", OF 1(1)]
      bindP_step [where m = "if length buf > 3 then readExtendedFields r1 else retP r1", OF 2(1)]
      Let_def r2'_def [symmetric] str option.case
      bindP_step [where m = ?M3, OF 3(1)]
      bindP_step [where m = "readFrameDependencyDefinition ?s r3", OF 4(1)] by (simp add: retP_def)
  moreover have "BytesRead b4 = length buf"
    using BytesRead_end [OF 4(2,3) buf(2)] 1(4) 2(4) 3(4) 4(4) by (simp add: NewBitStreamReader_def)
  moreover have "rd_descriptor r4 = ?d"
  proof (rule DependencyDescriptor.equality)
    note rs = r4_def r3_def flag r2'_def r2_def r1_def r0_def extendedRead_def mandatoryRead_def NewDependencyDescriptorReader_def Let_def
    show "AttachedStructure (rd_descriptor r4) = AttachedStructure ?d"
      using d(1) d0 hasA by (auto simp: rs wfDescriptor_def)
    show "ActiveDecodeTargetsBitmask (rd_descriptor r4) = ActiveDecodeTargetsBitmask ?d"
    proof (cases "shouldWriteActiveDecodeTargetsBitmask w")
      case False
      show ?thesis
      proof (cases "AttachedStructure ?d = None")
        case True
        then have "ActiveDecodeTargetsBitmask ?d = None"
          using False by (simp add: shouldWriteActiveDecodeTargetsBitmask_def split: option.splits)
        then show ?thesis using True False d0 by (simp add: rs)
      next
        case att: False
        then obtain m where m: "ActiveDecodeTargetsBitmask ?d = Some m" using d(1) by (auto simp: wfDescriptor_def split: option.splits)
        then have "ucast m = (push_bit (NumDecodeTargets ?s) 1 - 1 :: u64)"
          using False att by (simp add: shouldWriteActiveDecodeTargetsBitmask_def)
        then have "allTargets ?s = m" unfolding allTargets_def by (metis ucast_u64_of_u32)
        then show ?thesis using m False att hasA by (simp add: rs)
      qed
    qed (use should in \<open>simp add: rs\<close>)
  qed (use d in \<open>simp_all add: r4_def r3_def r2'_def r2_def r1_def r0_def extendedRead_def mandatoryRead_def NewDependencyDescriptorReader_def Let_def wfDescriptor_def\<close>)
  ultimately show ?thesis by (simp add: r0_def)
qed

section \<open>Marshalling\<close>

text \<open>A structure with two temporal layers, one chain and a resolution, and descriptors for it.\<close>

definition exStructure :: FrameDependencyStructure where
  "exStructure = \<lparr>StructureId = 61, NumDecodeTargets = 2, NumChains = 1, DecodeTargetProtectedByChain = [0, 0],
     Resolutions = [\<lparr>Width = 640, Height = 360\<rparr>],
     Templates = [\<lparr>SpatialId = 0, TemporalId = 0, DecodeTargetIndications = [DecodeTargetSwitch, DecodeTargetSwitch],
                    FrameDiffs = [2], ChainDiffs = [2]\<rparr>,
                  \<lparr>SpatialId = 0, TemporalId = 1, DecodeTargetIndications = [DecodeTargetNotPresent, DecodeTargetDiscardable],
                    FrameDiffs = [1], ChainDiffs = [1]\<rparr>]\<rparr>"

lemma exStructure_wf: "wfStructure exStructure"
  by (simp add: wfStructure_def exStructure_def wfLayers_def wfTemplate_def wfResolution_def getNextLayerIdc_def)

definition exDescriptor :: "FrameDependencyTemplate \<Rightarrow> FrameDependencyStructure option \<Rightarrow> u32 option \<Rightarrow> DependencyDescriptor" where
  "exDescriptor f att mask' = \<lparr>FirstPacketInFrame = True, LastPacketInFrame = False, FrameNumber = 0xfffe,
     FrameDependencies = Some f, Resolution = Some \<lparr>Width = 640, Height = 360\<rparr>,
     ActiveDecodeTargetsBitmask = mask', AttachedStructure = att\<rparr>"

definition emptyDescriptor :: DependencyDescriptor where
  "emptyDescriptor = \<lparr>FirstPacketInFrame = False, LastPacketInFrame = False, FrameNumber = 0,
     FrameDependencies = None, Resolution = None, ActiveDecodeTargetsBitmask = None, AttachedStructure = None\<rparr>"

definition exFrame :: FrameDependencyTemplate where
  "exFrame = \<lparr>SpatialId = 0, TemporalId = 1, DecodeTargetIndications = [DecodeTargetNotPresent, DecodeTargetRequired],
     FrameDiffs = [1, 300], ChainDiffs = [200]\<rparr>"

definition exMatch :: TemplateMatch where
  "exMatch = \<lparr>TemplateIdx = 1, NeedCustomDtis = True, NeedCustomFdiffs = True, NeedCustomChains = True, ExtraSizeBits = 34\<rparr>"


lemma bytesFor_bounds: "0 \<le> n \<Longrightarrow> n \<le> int (8 * bytesFor n) \<and> int (8 * bytesFor n) < n + 8"
  by (auto simp: bytesFor_def)

definition writerOf :: "FrameDependencyStructure \<Rightarrow> DependencyDescriptor \<Rightarrow> FrameDependencyTemplate \<Rightarrow> TemplateMatch \<Rightarrow> DependencyDescriptorWriter" where
  "writerOf s d f m = \<lparr>wr_descriptor = d, wr_frame = f, wr_structure = s, wr_activeChains = NOT 0, wr_bestTemplate = m\<rparr>"

lemma Marshal_message:
  assumes "wfStructure s" "wfDescriptor s d" "FrameDependencies d = Some f" "findBestTemplate f s (NOT 0) = Inr m"
  shows "\<exists>buf pad. Marshal (Some s) d = Inr buf \<and> wfWriter (writerOf s d f m) \<and>
    length buf = bytesFor (ValueSizeBits (writerOf s d f m)) \<and> length pad < 8 \<and>
    map (sbit buf) [0..<8 * length buf] = messageBits (writerOf s d f m) @ pad"
proof -
  let ?w = "writerOf s d f m"
  have w: "wfWriter ?w" using assms by (simp add: wfWriter_def writerOf_def wfDescriptor_def)
  note size = message_size [OF w]
  define n where "n = bytesFor (ValueSizeBits ?w)"
  have n: "length (messageBits ?w) \<le> 8 * n" "8 * n - length (messageBits ?w) < 8"
    using bytesFor_bounds [of "ValueSizeBits ?w"] size n_def by linarith+
  obtain b where b: "Write ?w (NewBitStreamWriter (replicate n 0)) = Inr b" "length (bw_buf b) = n"
    "written b = messageBits ?w @ replicate (8 * n - length (messageBits ?w)) False"
    using Write_spec [OF w n(1)] by blast
  have "Marshal (Some s) d = Inr (bw_buf b)"
    using assms(3,4) b(1) by (simp add: Marshal_def MarshalWithActiveChains_def NewDependencyDescriptorWriter_def n_def writerOf_def)
  moreover have "map (sbit (bw_buf b)) [0..<8 * length (bw_buf b)] = written b"
  proof -
    have "length (written b) = 8 * n" using n(1) b(3) by simp
    then show ?thesis using b(2) by (simp add: written_def)
  qed
  ultimately show ?thesis using w b n by (auto simp: n_def)
qed

text \<open>
  C25: Marshalling a descriptor that fits its structure and unmarshalling the bytes, with the structure known to the
  receiver or attached to the packet, gives exactly the descriptor back and consumes exactly the bytes written, in
  every case where the writer picked a template of the frame's own layer.
\<close>

theorem dd_marshal_unmarshal:
  assumes "wfStructure s" "wfDescriptor s d" "FrameDependencies d = Some f"
    "findBestTemplate f s (NOT 0) = Inr m" "sameLayerAs f (Templates s ! TemplateIdx m)"
    "AttachedStructure d = None \<Longrightarrow> st = Some s"
    "AttachedStructure d0 = None" "ActiveDecodeTargetsBitmask d0 = None"
  shows "\<exists>buf. Marshal (Some s) d = Inr buf \<and> Unmarshal st d0 buf = Inr (length buf, d)"
proof -
  let ?w = "writerOf s d f m"
  obtain buf pad where b: "Marshal (Some s) d = Inr buf" "wfWriter ?w" "length buf = bytesFor (ValueSizeBits ?w)" "length pad < 8"
    "map (sbit buf) [0..<8 * length buf] = messageBits ?w @ pad"
    using Marshal_message [OF assms(1-4)] by blast
  have "3 < length buf \<longleftrightarrow> hasExtendedFields ?w"
  proof (cases "hasExtendedFields ?w")
    case True
    have "29 \<le> length (messageBits ?w)" using True by (simp add: messageBits_def mandatoryBits_def extendedBits_def)
    then have "29 \<le> ValueSizeBits ?w" using message_size [OF b(2)] by simp
    then show ?thesis using True b(3) bytesFor_bounds [of "ValueSizeBits ?w"] by linarith
  next
    case False
    then have "ValueSizeBits ?w = 24" by (simp add: ValueSizeBits_def mandatoryFieldSize_def hasExtendedFields_def)
    then show ?thesis using False b(3) by (simp add: bytesFor_def)
  qed
  then have "Parse (NewDependencyDescriptorReader st d0) buf = Inr (length buf, wr_descriptor ?w)"
    using assms by (intro Parse_message [OF b(2) _ _ _ _ _ _ b(5,4)]) (auto simp: writerOf_def)
  then show ?thesis using b(1) by (simp add: Unmarshal_def writerOf_def)
qed

theorem dd_marshal_unmarshal_witness:
  "\<exists>buf. Marshal (Some exStructure) (exDescriptor exFrame (Some exStructure) (Some 2)) = Inr buf \<and>
     Unmarshal None emptyDescriptor buf = Inr (length buf, exDescriptor exFrame (Some exStructure) (Some 2))"
proof (rule dd_marshal_unmarshal)
  show "wfStructure exStructure" by (rule exStructure_wf)
  show "wfDescriptor exStructure (exDescriptor exFrame (Some exStructure) (Some 2))" by code_simp
  show "findBestTemplate exFrame exStructure (NOT 0) = Inr exMatch" by code_simp
  show "sameLayerAs exFrame (Templates exStructure ! TemplateIdx exMatch)" by code_simp
qed (simp_all add: exDescriptor_def emptyDescriptor_def)

text \<open>
  For such a descriptor the writer never runs out of space: the marshalled bytes have the length that
  \<open>ValueSizeBits\<close> announces, rounded up, which is also what \<open>MarshalSize\<close> reports for a descriptor with its structure
  attached.
\<close>

theorem dd_marshal_size:
  assumes "wfStructure s" "wfDescriptor s d" "FrameDependencies d = Some f" "findBestTemplate f s (NOT 0) = Inr m"
  shows "\<exists>buf. Marshal (Some s) d = Inr buf \<and> length buf = bytesFor (ValueSizeBits (writerOf s d f m)) \<and>
    (AttachedStructure d \<noteq> None \<longrightarrow> MarshalSize d = Inr (length buf))"
  using Marshal_message [OF assms] assms(2-4)
  by (fastforce simp: MarshalSize_def MarshalSizeWithActiveChains_def NewDependencyDescriptorWriter_def writerOf_def wfDescriptor_def)

theorem dd_marshal_size_witness:
  "\<exists>buf. Marshal (Some exStructure) (exDescriptor exFrame (Some exStructure) (Some 2)) = Inr buf \<and>
     MarshalSize (exDescriptor exFrame (Some exStructure) (Some 2)) = Inr (length buf)"
proof -
  have "wfStructure exStructure" by (rule exStructure_wf)
  moreover have "wfDescriptor exStructure (exDescriptor exFrame (Some exStructure) (Some 2))" by code_simp
  moreover have "FrameDependencies (exDescriptor exFrame (Some exStructure) (Some 2)) = Some exFrame" by code_simp
  moreover have "findBestTemplate exFrame exStructure (NOT 0) = Inr exMatch" by code_simp
  ultimately show ?thesis using dd_marshal_size [of exStructure _ exFrame exMatch] by (fastforce simp: exDescriptor_def)
qed

section \<open>Choice of a template of another layer\<close>

text \<open>A base-layer frame whose custom fields are those of the template of the next temporal layer.\<close>

definition strayFrame :: FrameDependencyTemplate where
  "strayFrame = \<lparr>SpatialId = 0, TemporalId = 0, DecodeTargetIndications = [DecodeTargetNotPresent, DecodeTargetDiscardable],
     FrameDiffs = [1], ChainDiffs = [1]\<rparr>"

text \<open>
  C39: The search of \<open>findBestTemplate\<close> is not limited to templates of the frame's layer: the second loop moves its end
  to the last template of a different layer. There is a well-formed descriptor of temporal layer 0 for which it picks
  the template of temporal layer 1, so that the receiver decodes a descriptor of the wrong layer.
\<close>

theorem dd_template_of_other_layer:
  "wfStructure exStructure \<and> wfDescriptor exStructure (exDescriptor strayFrame None None) \<and>
   (\<exists>buf d. Marshal (Some exStructure) (exDescriptor strayFrame None None) = Inr buf \<and>
      Unmarshal (Some exStructure) emptyDescriptor buf = Inr (length buf, d) \<and>
      map_option TemporalId (FrameDependencies d) = Some 1 \<and>
      map_option TemporalId (FrameDependencies (exDescriptor strayFrame None None)) = Some 0)"
proof -
  let ?d = "exDescriptor strayFrame None None" and ?buf = "[0xbe, 0xff, 0xfe] :: bytes"
  have "wfStructure exStructure" by (rule exStructure_wf)
  moreover have "wfDescriptor exStructure ?d" by code_simp
  moreover have "Marshal (Some exStructure) ?d = Inr ?buf" by code_simp
  moreover have "Unmarshal (Some exStructure) emptyDescriptor ?buf =
      Inr (3, exDescriptor (strayFrame\<lparr>TemporalId := 1\<rparr>) None None)" by code_simp
  ultimately show ?thesis by (auto simp: exDescriptor_def strayFrame_def)
qed

end
