(* ===== verification/Dependency_Descriptor_Parsed.thy ===== *)
theory Dependency_Descriptor_Parsed
  imports Dependency_Descriptor_Roundtrip
begin

text \<open>
  What is known about a descriptor that was read from arbitrary bytes: whatever the parser accepts is well formed, so
  the rest of the server may rely on the lengths and ranges of its parts.
\<close>

section \<open>Results of parsers\<close>

definition yields :: "'a bitParser \<Rightarrow> ('a \<Rightarrow> bool) \<Rightarrow> bool" where
  "yields p P \<longleftrightarrow> (\<forall>r r' x. rok r \<longrightarrow> p r = (r', Inr x) \<longrightarrow> rok r' \<and> br_buf r' = br_buf r \<and> P x)"

lemma yieldsI:
  "(\<And>r r' x. rok r \<Longrightarrow> p r = (r', Inr x) \<Longrightarrow> rok r' \<and> br_buf r' = br_buf r \<and> P x) \<Longrightarrow> yields p P"
  unfolding yields_def by blast

lemma yieldsD: "yields p P \<Longrightarrow> rok r \<Longrightarrow> p r = (r', Inr x) \<Longrightarrow> rok r' \<and> br_buf r' = br_buf r \<and> P x"
  unfolding yields_def by blast

lemma yields_ret: "P x \<Longrightarrow> yields (retP x) P"
  by (simp add: yields_def retP_def)

lemma yields_fail [simp]: "yields (failP e) P" "yields (invalidateP e) P"
  by (simp_all add: yields_def failP_def invalidateP_def)

lemma yields_bind:
  assumes "yields p P" "\<And>x. P x \<Longrightarrow> yields (f x) Q"
  shows "yields (bindP p f) Q"
proof (rule yieldsI)
  fix r r' y assume r: "rok r" "bindP p f r = (r', Inr y)"
  then obtain r1 x where 1: "p r = (r1, Inr x)" "f x r1 = (r', Inr y)"
    by (auto simp: bindP_def split: prod.splits sum.splits)
  have "rok r1" "br_buf r1 = br_buf r" "P x" using yieldsD [OF assms(1) r(1) 1(1)] by simp_all
  then show "rok r' \<and> br_buf r' = br_buf r \<and> Q y" using yieldsD [OF assms(2) _ 1(2)] by metis
qed

lemma yields_map: "yields p P \<Longrightarrow> (\<And>x. P x \<Longrightarrow> Q (f x)) \<Longrightarrow> yields (bindP p (\<lambda>x. retP (f x))) Q"
  by (erule yields_bind) (simp add: yields_ret)

lemma yields_if_ok: "yields p P \<Longrightarrow> yields q P \<Longrightarrow> yields (\<lambda>r. if br_Ok r then p r else q r) P"
  by (rule yieldsI) (auto dest: yieldsD split: if_splits)

lemma yields_weaken: "yields p P \<Longrightarrow> (\<And>x. P x \<Longrightarrow> Q x) \<Longrightarrow> yields p Q"
  unfolding yields_def by blast

lemma yields_readBits:
  assumes "k = int n" "n \<le> 64"
  shows "yields (readBits k) (\<lambda>v. unat v < 2 ^ n)"
proof (rule yieldsI)
  fix r r' v assume r: "rok r" "readBits k r = (r', Inr v)"
  then have R: "ReadBits r (int n) = (r', Inr v)"
    using assms by (auto simp: readBits_def map_sum_eq_Inr split: prod.splits)
  then have "int n \<le> br_remainingBits r" using ReadBits_consumes by blast
  then have "n \<le> length (rest r)" using length_rest [OF r(1)] by simp
  then show "rok r' \<and> br_buf r' = br_buf r \<and> unat v < 2 ^ n" using ReadBits_next [OF r(1) assms(2)] R by auto
qed

lemma yields_readBool: "yields readBool (\<lambda>_. True)"
proof (rule yieldsI)
  fix r r' b assume r: "rok r" "readBool r = (r', Inr b)"
  then obtain v where "readBits 1 r = (r', Inr v)"
    by (auto simp: readBool_def ReadBool_def readBits_def map_sum_eq_Inr bindR_eq_Inr split: prod.splits)
  then show "rok r' \<and> br_buf r' = br_buf r \<and> True" using yieldsD [OF yields_readBits [of 1 1] r(1)] by simp
qed

lemma yields_readNonSymmetric:
  assumes "N \<noteq> 0" "unat N < 2 ^ 31"
  shows "yields (readNonSymmetric N) (\<lambda>v. v < N)"
proof -
  define W k where "W = bitwidth N - 1" and "k = nsMin N"
  note b = bitwidth_bounds [OF assms(1)] and m = nsMin_bounds [OF assms]
  have W: "bitwidth N = Suc W" "int (bitwidth N) - 1 = int W" "W \<le> 30" using b m(4) by (auto simp: W_def)
  have k: "unat k = 2 ^ Suc W - unat N" "unat k \<le> 2 ^ W" "unat N < 2 ^ Suc W" "2 ^ W \<le> unat N"
    using m b by (simp_all add: k_def W_def [symmetric] W(1))
  have ng: "\<not> N \<ge> push_bit 31 1" using assms(2) by (simp add: not_le word_less_nat_alt)
  have P: "readNonSymmetric N = bindP (readBits (int W)) (\<lambda>val. if val < ucast k then retP (ucast val)
      else bindP (readBits 1) (\<lambda>bit'. retP (ucast (push_bit 1 val + bit' - ucast k))))"
    unfolding readNonSymmetric_def ReadNonSymmetric_def Let_def if_not_P [OF ng] W(2)
    by (rule ext) (auto simp: bindP_def readBits_def retP_def k_def nsMin_def split: prod.splits sum.splits)
  have le: "(2::nat) ^ W \<le> 2 ^ 30" using W(3) by (intro power_increasing) auto
  show ?thesis unfolding P
  proof (rule yields_bind [OF yields_readBits [OF refl]])
    fix val :: u64 assume v: "unat val < 2 ^ W"
    have u: "unat (ucast x :: u32) = unat x" if "unat x < 2 ^ 31" for x :: u64
      using that by (simp add: unsigned_ucast_eq take_bit_nat_eq_self_iff)
    show "yields (if val < ucast k then retP (ucast val) else bindP (readBits 1) (\<lambda>bit'. retP (ucast (push_bit 1 val + bit' - ucast k)))) (\<lambda>v. v < N)"
    proof (cases "val < ucast k")
      case True
      have "unat val < 2 ^ 31" using v le by simp
      then have "ucast val < N" using True k v by (simp add: word_less_nat_alt u)
      then show ?thesis using True by (simp add: yields_ret)
    next
      case False
      then have kv: "unat k \<le> unat val" by (simp add: word_less_nat_alt)
      have res: "ucast (push_bit 1 val + bit' - ucast k) < N" if "unat bit' < 2 ^ 1" for bit'
      proof -
        have p: "unat (push_bit 1 val) = 2 * unat val"
          using v le by (simp add: push_bit_eq_mult unat_word_ariths)
        have s: "unat (push_bit 1 val + bit') = 2 * unat val + unat bit'"
          using p that v le by (simp add: unat_plus_if')
        have "unat (push_bit 1 val + bit' - ucast k) = 2 * unat val + unat bit' - unat k"
          using s kv by (subst unat_sub) (simp_all add: word_le_nat_alt)
        then show ?thesis using kv that v k le by (simp add: word_less_nat_alt u)
      qed
      show ?thesis unfolding if_not_P [OF False]
        by (rule yields_map [OF yields_readBits [of 1 1]]) (simp, simp, rule res)
    qed
  qed (use W in simp)
qed

lemma yields_readN: "yields p P \<Longrightarrow> yields (readN n p) (\<lambda>xs. length xs = n \<and> list_all P xs)"
proof (induction n)
  case 0
  show ?case by (simp add: yields_ret)
next
  case (Suc n)
  show ?case unfolding readN.simps
    by (rule yields_bind [OF Suc.prems], rule yields_map [OF Suc.IH [OF Suc.prems]]) simp
qed

lemma yields_readEach:
  assumes "\<And>t. t \<in> set ts \<Longrightarrow> yields (p t) (P t)"
  shows "yields (readEach p ts) (list_all2 P ts)"
  using assms
proof (induction ts)
  case (Cons t ts)
  have "yields (readEach p ts) (list_all2 P ts)" "yields (p t) (P t)" using Cons by simp_all
  then show ?case unfolding readEach.simps
    by (intro yields_bind [OF \<open>yields (p t) (P t)\<close>] yields_map [OF \<open>yields (readEach p ts) (list_all2 P ts)\<close>]) simp
qed (simp add: yields_ret)

section \<open>Structures\<close>

text \<open>The layers collected so far, and the layer the next template will get.\<close>

definition layersInv :: "nat \<Rightarrow> FrameDependencyTemplate list \<Rightarrow> nat \<Rightarrow> nat \<Rightarrow> bool" where
  "layersInv left ts tid sid \<longleftrightarrow> length ts + left = 64 \<and> tid < 8 \<and> sid < 4 \<and> list_all (\<lambda>t. bare t = t) ts \<and> wfLayers ts \<and>
     (if ts = [] then tid = 0 \<and> sid = 0
      else SpatialId (hd ts) = 0 \<and> TemporalId (hd ts) = 0 \<and>
        (sid = SpatialId (last ts) \<and> (tid = TemporalId (last ts) \<or> tid = TemporalId (last ts) + 1) \<or>
         sid = SpatialId (last ts) + 1 \<and> tid = 0))"

definition layersDone :: "FrameDependencyTemplate list \<Rightarrow> bool" where
  "layersDone ts \<longleftrightarrow> ts \<noteq> [] \<and> length ts \<le> 64 \<and> SpatialId (hd ts) = 0 \<and> TemporalId (hd ts) = 0 \<and> wfLayers ts \<and>
     list_all (\<lambda>t. bare t = t) ts"

lemma wfLayers_snoc:
  "wfLayers (ts @ [t]) \<longleftrightarrow> wfLayers ts \<and> SpatialId t < 4 \<and> TemporalId t < 8 \<and> (ts = [] \<or> getNextLayerIdc (last ts) t < 3)"
  by (auto simp: wfLayers_def successively_append_iff)

lemma layersInv_snoc:
  assumes "layersInv (Suc left) ts tid sid"
  defines "ts' \<equiv> ts @ [\<lparr>SpatialId = sid, TemporalId = tid, DecodeTargetIndications = [], FrameDiffs = [], ChainDiffs = []\<rparr>]"
  shows "layersDone ts'" "layersInv left ts' tid sid"
    "tid + 1 < 8 \<Longrightarrow> layersInv left ts' (tid + 1) sid" "sid + 1 < 4 \<Longrightarrow> layersInv left ts' 0 (sid + 1)"
  using assms(1)
  by (auto simp: ts'_def layersInv_def layersDone_def wfLayers_snoc bare_def getNextLayerIdc_def hd_append split: if_splits)

lemma yields_readTemplateLayersLoop:
  "layersInv left ts tid sid \<Longrightarrow> yields (readTemplateLayersLoop left ts tid sid) layersDone"
proof (induction left arbitrary: ts tid sid)
  case (Suc left)
  note i = layersInv_snoc [OF Suc.prems]
  show ?case unfolding readTemplateLayersLoop.simps Let_def
    by (rule yields_bind [OF yields_readBits [of 2 2]])
      (auto intro!: yields_if_ok yields_ret Suc.IH i)
qed simp

lemma yields_readDti: "yields readDti (\<lambda>_. True)"
  unfolding readDti_def by (rule yields_map [OF yields_readBits [of 2 2]]) simp_all

lemma uint_succ_bound:
  assumes "unat (v :: u64) < 2 ^ n" "n < 64"
  shows "1 \<le> uint (v + 1) \<and> uint (v + 1) \<le> 2 ^ n"
proof -
  have "(2::nat) ^ n < 2 ^ 64" using assms(2) by (intro power_strict_increasing) auto
  then have "unat (v + 1) = unat v + 1" using assms(1) by (simp add: unat_plus_if')
  moreover have "int (unat (v + 1)) = uint (v + 1)" by simp
  moreover have "int (unat v) < 2 ^ n" using assms(1) by (metis of_nat_less_iff of_nat_numeral of_nat_power)
  ultimately show ?thesis by linarith
qed

lemma yields_readFdiffsLoop:
  "list_all (\<lambda>d. 1 \<le> d \<and> d \<le> 16) fs \<Longrightarrow> yields (readFdiffsLoop fs) (list_all (\<lambda>d. 1 \<le> d \<and> d \<le> 16))"
proof (rule yieldsI)
  fix r r' x
  assume "rok r" "readFdiffsLoop fs r = (r', Inr x)" "list_all (\<lambda>d. 1 \<le> d \<and> d \<le> 16) fs"
  then show "rok r' \<and> br_buf r' = br_buf r \<and> list_all (\<lambda>d. 1 \<le> d \<and> d \<le> 16) x"
  proof (induction fs r rule: readFdiffsLoop.induct)
    case (1 fs r)
    obtain r1 b where rb: "readBool r = (r1, Inr b)" using 1(3)
      by (subst (asm) readFdiffsLoop.simps) (auto split: prod.splits sum.splits)
    have r1: "rok r1" "br_buf r1 = br_buf r" using yieldsD [OF yields_readBool 1(2) rb] by simp_all
    show ?case
    proof (cases b)
      case False
      then show ?thesis using 1(3,4) rb r1 by (subst (asm) readFdiffsLoop.simps) simp
    next
      case True
      obtain r2 v where rv: "readBits 4 r1 = (r2, Inr v)" using 1(3) rb True
        by (subst (asm) readFdiffsLoop.simps) (auto split: prod.splits sum.splits)
      have r2: "rok r2" "br_buf r2 = br_buf r1" "unat v < 2 ^ 4" using yieldsD [OF yields_readBits [of 4 4] r1(1) rv] by simp_all
      have "readFdiffsLoop (fs @ [uint (v + 1)]) r2 = (r', Inr x)"
        using 1(3) rb rv True by (subst (asm) readFdiffsLoop.simps) simp
      moreover have "list_all (\<lambda>d. 1 \<le> d \<and> d \<le> 16) (fs @ [uint (v + 1)])" using 1(4) uint_succ_bound [OF r2(3)] by simp
      ultimately show ?thesis using 1(1) [OF rb [symmetric] refl] True rv r1 r2 by auto
    qed
  qed
qed

lemma yields_readFrameFdiffsLoop:
  "list_all (\<lambda>d. 1 \<le> d \<and> d \<le> 4096) fs \<Longrightarrow> yields (readFrameFdiffsLoop fs) (list_all (\<lambda>d. 1 \<le> d \<and> d \<le> 4096))"
proof (rule yieldsI)
  fix r r' x
  assume "rok r" "readFrameFdiffsLoop fs r = (r', Inr x)" "list_all (\<lambda>d. 1 \<le> d \<and> d \<le> 4096) fs"
  then show "rok r' \<and> br_buf r' = br_buf r \<and> list_all (\<lambda>d. 1 \<le> d \<and> d \<le> 4096) x"
  proof (induction fs r rule: readFrameFdiffsLoop.induct)
    case (1 fs r)
    obtain r1 u where rb: "readBits 2 r = (r1, Inr u)" using 1(3)
      by (subst (asm) readFrameFdiffsLoop.simps) (auto split: prod.splits sum.splits)
    have r1: "rok r1" "br_buf r1 = br_buf r" "unat u < 2 ^ 2" using yieldsD [OF yields_readBits [of 2 2] 1(2) rb] by simp_all
    show ?case
    proof (cases "u = 0")
      case True
      then show ?thesis using 1(3,4) rb r1 by (subst (asm) readFrameFdiffsLoop.simps) simp
    next
      case False
      obtain r2 v where rv: "readBits (uint (u * 4)) r1 = (r2, Inr v)" using 1(3) rb False
        by (subst (asm) readFrameFdiffsLoop.simps) (auto split: prod.splits sum.splits)
      have u4: "unat (u * 4) = unat u * 4" using r1(3) by (simp add: unat_word_ariths)
      moreover have "int (unat (u * 4)) = uint (u * 4)" by simp
      ultimately have e: "uint (u * 4) = int (unat u * 4)" by linarith
      have l: "unat u * 4 \<le> 64" using r1(3) by simp
      have r2: "rok r2" "br_buf r2 = br_buf r1" "unat v < 2 ^ (unat u * 4)"
        using yieldsD [OF yields_readBits [OF e l] r1(1) rv] by blast+
      have "(2::nat) ^ (unat u * 4) \<le> 2 ^ 12" using r1(3) by (intro power_increasing) auto
      then have v: "unat v < 2 ^ 12" using r2(3) by linarith
      have "readFrameFdiffsLoop (fs @ [uint (v + 1)]) r2 = (r', Inr x)"
        using 1(3) rb rv False by (subst (asm) readFrameFdiffsLoop.simps) simp
      moreover have "list_all (\<lambda>d. 1 \<le> d \<and> d \<le> 4096) (fs @ [uint (v + 1)])" using 1(4) uint_succ_bound [OF v] by simp
      ultimately show ?thesis using 1(1) [OF rb [symmetric] refl] False rv r1 r2 by auto
    qed
  qed
qed

text \<open>
  The structure grows in stages: every stage fills one field of every template.
\<close>

lemma yields_readTemplateDtis:
  assumes "layersDone (Templates s)"
  shows "yields (readTemplateDtis s) (\<lambda>s'. \<exists>ts. s' = s\<lparr>Templates := ts\<rparr> \<and>
    list_all2 (\<lambda>t t'. \<exists>ds. t' = t\<lparr>DecodeTargetIndications := ds\<rparr> \<and> length ds = NumDecodeTargets s) (Templates s) ts)"
  unfolding readTemplateDtis_def
  by (rule yields_map, rule yields_readEach [where P = "\<lambda>t t'. \<exists>ds. t' = t\<lparr>DecodeTargetIndications := ds\<rparr> \<and> length ds = NumDecodeTargets s"],
      rule yields_map [OF yields_readN [OF yields_readDti]]) auto

lemma yields_readTemplateFdiffs:
  assumes "list_all (\<lambda>t. FrameDiffs t = []) (Templates s)"
  shows "yields (readTemplateFdiffs s) (\<lambda>s'. \<exists>ts. s' = s\<lparr>Templates := ts\<rparr> \<and>
    list_all2 (\<lambda>t t'. \<exists>ds. t' = t\<lparr>FrameDiffs := ds\<rparr> \<and> list_all (\<lambda>d. 1 \<le> d \<and> d \<le> 16) ds) (Templates s) ts)"
  unfolding readTemplateFdiffs_def
  by (rule yields_map, rule yields_readEach [where P = "\<lambda>t t'. \<exists>ds. t' = t\<lparr>FrameDiffs := ds\<rparr> \<and> list_all (\<lambda>d. 1 \<le> d \<and> d \<le> 16) ds"],
      rule yields_map [OF yields_readFdiffsLoop])
    (use assms in \<open>auto simp: list_all_iff\<close>)

lemma yields_int_field:
  assumes "k = int n" "n < 64"
  shows "yields (bindP (readBits k) (\<lambda>v. retP (uint v))) (\<lambda>d. 0 \<le> d \<and> d < 2 ^ n)"
proof -
  have "uint v < 2 ^ n" if "unat v < 2 ^ n" for v :: u64
  proof -
    have "int (unat v) < int (2 ^ n)" using that by (rule of_nat_less_iff [THEN iffD2])
    then show ?thesis by simp
  qed
  then show ?thesis using assms by (intro yields_map [OF yields_readBits [of k n]]) auto
qed

definition chainsOk :: "FrameDependencyStructure \<Rightarrow> FrameDependencyStructure \<Rightarrow> bool" where
  "chainsOk s s' \<longleftrightarrow> (\<exists>n ps ts. s' = s\<lparr>NumChains := n, DecodeTargetProtectedByChain := ps, Templates := ts\<rparr> \<and>
     n \<le> NumDecodeTargets s \<and> length ps = (if n = 0 then 0 else NumDecodeTargets s) \<and> list_all (\<lambda>p. p < n) ps \<and>
     list_all2 (\<lambda>t t'. \<exists>ds. t' = t\<lparr>ChainDiffs := ds\<rparr> \<and> length ds = n \<and> list_all (\<lambda>d. 0 \<le> d \<and> d < 2 ^ 4) ds) (Templates s) ts)"

lemma yields_readTemplateChains:
  assumes t: "list_all (\<lambda>t. ChainDiffs t = []) (Templates s)" and s: "DecodeTargetProtectedByChain s = []"
    and n: "0 < NumDecodeTargets s" "NumDecodeTargets s \<le> 32"
  shows "yields (readTemplateChains s) (chainsOk s)"
proof -
  have N: "unat (of_nat (NumDecodeTargets s) + 1 :: u32) = NumDecodeTargets s + 1"
    using n u32_of_nat [of "NumDecodeTargets s + 1"] by (simp add: add.commute)
  then have N': "(of_nat (NumDecodeTargets s) + 1 :: u32) \<noteq> 0" "unat (of_nat (NumDecodeTargets s) + 1 :: u32) < 2 ^ 31"
    using n by (auto simp flip: unat_eq_0)
  show ?thesis unfolding readTemplateChains_def Let_def
  proof (rule yields_bind [OF yields_readNonSymmetric [OF N']], goal_cases)
    case (1 c)
    then have c: "unat c \<le> NumDecodeTargets s" using N by (simp add: word_less_nat_alt)
    define s1 where "s1 = s\<lparr>NumChains := unat c\<rparr>"
    have P: "yields (bindP (readNonSymmetric (of_nat (unat c))) (\<lambda>p. retP (unat p))) (\<lambda>p. p < unat c)" if "unat c \<noteq> 0"
      using that c n by (intro yields_map [OF yields_readNonSymmetric]) (auto simp: word_less_nat_alt unat_eq_0)
    have rest: "yields (bindP (readEach (\<lambda>template.
               bindP (readN (unat c) (bindP (readBits 4) (\<lambda>chainDiff. retP (uint chainDiff)))) (\<lambda>chainDiffs.
                 retP (template\<lparr>ChainDiffs := ChainDiffs template @ chainDiffs\<rparr>))) (Templates s))
             (\<lambda>templates. retP (s1\<lparr>DecodeTargetProtectedByChain := ps, Templates := templates\<rparr>))) (chainsOk s)"
      if "unat c \<noteq> 0" "length ps = NumDecodeTargets s \<and> list_all (\<lambda>p. p < unat c) ps" for ps
    proof (rule yields_map)
      show "yields (readEach (\<lambda>template. bindP (readN (unat c) (bindP (readBits 4) (\<lambda>chainDiff. retP (uint chainDiff)))) (\<lambda>chainDiffs.
                 retP (template\<lparr>ChainDiffs := ChainDiffs template @ chainDiffs\<rparr>))) (Templates s))
          (list_all2 (\<lambda>t t'. \<exists>ds. t' = t\<lparr>ChainDiffs := ds\<rparr> \<and> length ds = unat c \<and> list_all (\<lambda>d. 0 \<le> d \<and> d < 2 ^ 4) ds) (Templates s))"
        by (rule yields_readEach, rule yields_map [OF yields_readN [OF yields_int_field [of 4 4]]])
          (use t in \<open>auto simp: list_all_iff\<close>)
      show "chainsOk s (s1\<lparr>DecodeTargetProtectedByChain := ps, Templates := ts\<rparr>)"
        if "list_all2 (\<lambda>t t'. \<exists>ds. t' = t\<lparr>ChainDiffs := ds\<rparr> \<and> length ds = unat c \<and> list_all (\<lambda>d. 0 \<le> d \<and> d < 2 ^ 4) ds) (Templates s) ts" for ts
        unfolding chainsOk_def using that \<open>length ps = _ \<and> _\<close> \<open>unat c \<noteq> 0\<close> c
        by (intro exI [of _ "unat c"] exI [of _ ps] exI [of _ ts]) (simp add: s1_def)
    qed
    show ?case
    proof (cases "unat c = 0")
      case True
      have "chainsOk s (s\<lparr>NumChains := 0\<rparr>)" unfolding chainsOk_def using t s
        by (intro exI [of _ 0] exI [of _ "[]"] exI [of _ "Templates s"]) (auto simp: list_all_iff intro!: list.rel_refl_strong)
      then show ?thesis using True by (simp add: yields_ret)
    next
      case False
      show ?thesis using False s rest [OF False] by simp (rule yields_bind [OF yields_readN [OF P [OF False, simplified]]], simp add: s1_def)
    qed
  qed
qed

lemma yields_readResolution: "yields readResolution wfResolution"
proof -
  have b: "0 < unat (v + 1) \<and> unat (v + 1) \<le> 65536" if "unat v < 2 ^ 16" for v :: u64
    using that by (simp add: unat_plus_if')
  show ?thesis unfolding readResolution_def
    by (intro yields_bind [OF yields_readBits [of 16 16]] yields_map [OF yields_readBits [of 16 16]])
      (use b in \<open>auto simp: wfResolution_def\<close>)
qed

lemma layersDone_cong:
  assumes "list_all2 (\<lambda>t t'. SpatialId t' = SpatialId t \<and> TemporalId t' = TemporalId t) ts ts'"
  shows "wfLayers ts' = wfLayers ts" "length ts' = length ts" "ts' = [] \<longleftrightarrow> ts = []"
    "ts \<noteq> [] \<Longrightarrow> SpatialId (hd ts') = SpatialId (hd ts) \<and> TemporalId (hd ts') = TemporalId (hd ts) \<and> SpatialId (last ts') = SpatialId (last ts)"
proof -
  have S: "map SpatialId ts' = map SpatialId ts" and T: "map TemporalId ts' = map TemporalId ts"
    using assms by (induction ts ts' rule: list_all2_induct) auto
  show len: "length ts' = length ts" using assms by (simp add: list_all2_lengthD)
  show "ts' = [] \<longleftrightarrow> ts = []" using len by auto
  have n: "SpatialId (ts' ! i) = SpatialId (ts ! i) \<and> TemporalId (ts' ! i) = TemporalId (ts ! i)" if "i < length ts" for i
    using assms that by (auto simp: list_all2_conv_all_nth)
  show "wfLayers ts' = wfLayers ts"
    using len n by (auto simp: wfLayers_def successively_conv_nth list_all_length getNextLayerIdc_def)
  assume ne: "ts \<noteq> []"
  then have ne': "ts' \<noteq> []" using len by auto
  show "SpatialId (hd ts') = SpatialId (hd ts) \<and> TemporalId (hd ts') = TemporalId (hd ts) \<and> SpatialId (last ts') = SpatialId (last ts)"
    using n [of 0] n [of "length ts - 1"] ne len by (simp add: hd_conv_nth [OF ne] hd_conv_nth [OF ne'] last_conv_nth [OF ne] last_conv_nth [OF ne'])
qed

lemma list_all2_all:
  "list_all2 R ts us \<Longrightarrow> list_all Q ts \<Longrightarrow> (\<And>t u. Q t \<Longrightarrow> R t u \<Longrightarrow> Q' u) \<Longrightarrow> list_all Q' us"
  by (induction ts us rule: list_all2_induct) auto

text \<open>The stages of a structure under construction.\<close>

definition layersOk :: "FrameDependencyTemplate list \<Rightarrow> bool" where
  "layersOk ts \<longleftrightarrow> ts \<noteq> [] \<and> length ts \<le> 64 \<and> SpatialId (hd ts) = 0 \<and> TemporalId (hd ts) = 0 \<and> wfLayers ts"

definition stage2 :: "FrameDependencyStructure \<Rightarrow> FrameDependencyStructure \<Rightarrow> bool" where
  "stage2 s0 s \<longleftrightarrow> s = s0\<lparr>Templates := Templates s\<rparr> \<and> layersOk (Templates s) \<and>
     list_all (\<lambda>t. length (DecodeTargetIndications t) = NumDecodeTargets s0 \<and> FrameDiffs t = [] \<and> ChainDiffs t = []) (Templates s)"

definition stage3 :: "FrameDependencyStructure \<Rightarrow> FrameDependencyStructure \<Rightarrow> bool" where
  "stage3 s0 s \<longleftrightarrow> s = s0\<lparr>Templates := Templates s\<rparr> \<and> layersOk (Templates s) \<and>
     list_all (\<lambda>t. length (DecodeTargetIndications t) = NumDecodeTargets s0 \<and> list_all (\<lambda>d. 1 \<le> d \<and> d \<le> 16) (FrameDiffs t) \<and> ChainDiffs t = []) (Templates s)"

lemma layersOk_step:
  "list_all2 R ts us \<Longrightarrow> layersOk ts \<Longrightarrow> (\<And>t u. R t u \<Longrightarrow> SpatialId u = SpatialId t \<and> TemporalId u = TemporalId t) \<Longrightarrow> layersOk us"
  using layersDone_cong [of ts us] list_all2_mono [of R ts us "\<lambda>t t'. SpatialId t' = SpatialId t \<and> TemporalId t' = TemporalId t"]
  unfolding layersOk_def by (metis (no_types, lifting))

lemma yields_stage2:
  assumes "s1 = s0\<lparr>Templates := ts\<rparr>" "layersDone ts"
  shows "yields (readTemplateDtis s1) (stage2 s0)"
proof (rule yields_weaken [OF yields_readTemplateDtis])
  show "layersDone (Templates s1)" using assms by simp
  fix s assume "\<exists>us. s = s1\<lparr>Templates := us\<rparr> \<and>
    list_all2 (\<lambda>t t'. \<exists>ds. t' = t\<lparr>DecodeTargetIndications := ds\<rparr> \<and> length ds = NumDecodeTargets s1) (Templates s1) us"
  then obtain us where s: "s = s0\<lparr>Templates := us\<rparr>"
    and us: "list_all2 (\<lambda>t t'. \<exists>ds. t' = t\<lparr>DecodeTargetIndications := ds\<rparr> \<and> length ds = NumDecodeTargets s0) ts us"
    using assms by auto
  have "layersOk us" by (rule layersOk_step [OF us]) (use assms(2) in \<open>auto simp: layersDone_def layersOk_def\<close>)
  moreover have nil: "list_all (\<lambda>t. FrameDiffs t = [] \<and> ChainDiffs t = []) ts"
    using assms(2) by (auto simp: layersDone_def list_all_iff bare_def) (metis FrameDependencyTemplate.select_convs)+
  have "list_all (\<lambda>t. length (DecodeTargetIndications t) = NumDecodeTargets s0 \<and> FrameDiffs t = [] \<and> ChainDiffs t = []) us"
    by (rule list_all2_all [OF us nil]) auto
  ultimately show "stage2 s0 s" by (simp add: stage2_def s)
qed

lemma yields_stage3:
  assumes "stage2 s0 s2"
  shows "yields (readTemplateFdiffs s2) (stage3 s0)"
proof (rule yields_weaken [OF yields_readTemplateFdiffs])
  show "list_all (\<lambda>t. FrameDiffs t = []) (Templates s2)" using assms by (auto simp: stage2_def list_all_iff)
  fix s assume "\<exists>us. s = s2\<lparr>Templates := us\<rparr> \<and>
    list_all2 (\<lambda>t t'. \<exists>ds. t' = t\<lparr>FrameDiffs := ds\<rparr> \<and> list_all (\<lambda>d. 1 \<le> d \<and> d \<le> 16) ds) (Templates s2) us"
  then obtain us where s: "s = s2\<lparr>Templates := us\<rparr>"
    and us: "list_all2 (\<lambda>t t'. \<exists>ds. t' = t\<lparr>FrameDiffs := ds\<rparr> \<and> list_all (\<lambda>d. 1 \<le> d \<and> d \<le> 16) ds) (Templates s2) us"
    by blast
  have s0: "s = s0\<lparr>Templates := us\<rparr>" unfolding s using assms by (subst stage2_def [THEN iffD1, THEN conjunct1]) auto
  have "layersOk us" by (rule layersOk_step [OF us]) (use assms in \<open>auto simp: stage2_def\<close>)
  moreover have "list_all (\<lambda>t. length (DecodeTargetIndications t) = NumDecodeTargets s0 \<and> list_all (\<lambda>d. 1 \<le> d \<and> d \<le> 16) (FrameDiffs t) \<and> ChainDiffs t = []) us"
    by (rule list_all2_all [OF us, where Q = "\<lambda>t. length (DecodeTargetIndications t) = NumDecodeTargets s0 \<and> FrameDiffs t = [] \<and> ChainDiffs t = []"])
      (use assms in \<open>auto simp: stage2_def\<close>)
  ultimately show "stage3 s0 s" by (simp add: stage3_def s0)
qed

lemma stage4:
  assumes s0: "s0 = emptyStructure\<lparr>StructureId := i, NumDecodeTargets := n\<rparr>" "i < 64" "0 < n" "n \<le> 32"
    and s3: "stage3 s0 s3" and s: "chainsOk s3 s"
  shows "wfStructure s \<and> Resolutions s = []"
proof -
  have e: "s3 = s0\<lparr>Templates := Templates s3\<rparr>" using s3 by (simp add: stage3_def)
  have n3: "NumDecodeTargets s3 = n" by (subst e) (simp add: s0(1))
  obtain c ps us where c: "s = s3\<lparr>NumChains := c, DecodeTargetProtectedByChain := ps, Templates := us\<rparr>"
     "c \<le> n" "length ps = (if c = 0 then 0 else n)" "list_all (\<lambda>p. p < c) ps"
     and us: "list_all2 (\<lambda>t t'. \<exists>ds. t' = t\<lparr>ChainDiffs := ds\<rparr> \<and> length ds = c \<and> list_all (\<lambda>d. 0 \<le> d \<and> d < 2 ^ 4) ds) (Templates s3) us"
    using s unfolding chainsOk_def n3 by blast
  have s': "s = s0\<lparr>NumChains := c, DecodeTargetProtectedByChain := ps, Templates := us\<rparr>" unfolding c(1) by (subst e) simp
  have "layersOk us" by (rule layersOk_step [OF us]) (use s3 in \<open>auto simp: stage3_def\<close>)
  moreover have "list_all (wfTemplate s) us"
    by (rule list_all2_all [OF us, where Q = "\<lambda>t. length (DecodeTargetIndications t) = n \<and> list_all (\<lambda>d. 1 \<le> d \<and> d \<le> 16) (FrameDiffs t) \<and> ChainDiffs t = []"])
      (use s3 in \<open>auto simp: stage3_def wfTemplate_def s' s0(1) emptyStructure_def\<close>)
  ultimately show ?thesis using c(2-4) s0(2-4)
    by (simp add: wfStructure_def layersOk_def s' s0(1) emptyStructure_def)
qed

lemma wfTemplate_Resolutions [simp]: "wfTemplate (s\<lparr>Resolutions := rs\<rparr>) = wfTemplate s"
  by (rule ext) (simp add: wfTemplate_def)

lemma yields_structure: "yields readTemplateDependencyStructure wfStructure"
  unfolding readTemplateDependencyStructure_def
proof (rule yields_bind [OF yields_readBits [of 6 6]], simp, simp, rule yields_bind [OF yields_readBits [of 5 5]], simp, simp, goal_cases)
  case (1 sid ndt)
  define s0 where "s0 = emptyStructure\<lparr>StructureId := unat sid, NumDecodeTargets := unat ndt + 1\<rparr>"
  have L: "yields (readTemplateLayers s0) (\<lambda>s1. \<exists>ts. s1 = s0\<lparr>Templates := ts\<rparr> \<and> layersDone ts)"
    unfolding readTemplateLayers_def
    by (rule yields_map [OF yields_readTemplateLayersLoop]) (auto simp: layersInv_def wfLayers_def)
  have C: "yields (readTemplateChains s) (chainsOk s)" if "stage3 s0 s" for s
  proof (rule yields_readTemplateChains)
    have e: "s = s0\<lparr>Templates := Templates s\<rparr>" using that by (simp add: stage3_def)
    show "list_all (\<lambda>t. ChainDiffs t = []) (Templates s)" using that by (auto simp: stage3_def list_all_iff)
    show "DecodeTargetProtectedByChain s = []" "0 < NumDecodeTargets s" "NumDecodeTargets s \<le> 32"
      by (subst e, use 1 in \<open>simp add: s0_def emptyStructure_def\<close>)+
  qed
  have R: "yields (if flag then readResolutions s else retP s) wfStructure" if "wfStructure s \<and> Resolutions s = []" for flag s
  proof (cases flag)
    case True
    have "Templates s \<noteq> []" using that by (simp add: wfStructure_def)
    then have "yields (readResolutions s) wfStructure"
      unfolding readResolutions_def Let_def using that
      by (simp del: One_nat_def) (rule yields_map [OF yields_readN [OF yields_readResolution]],
        auto simp: wfStructure_def)
    then show ?thesis using True by simp
  qed (use that in \<open>simp add: yields_ret\<close>)
  show ?case unfolding s0_def [symmetric]
  proof (rule yields_bind [OF L], elim exE conjE)
    fix s1 ts assume "s1 = s0\<lparr>Templates := ts\<rparr>" "layersDone ts"
    note S2 = yields_stage2 [OF this]
    show "yields (bindP (readTemplateDtis s1) (\<lambda>s. bindP (readTemplateFdiffs s) (\<lambda>s. bindP (readTemplateChains s) (\<lambda>s.
      bindP readBool (\<lambda>flag. if flag then readResolutions s else retP s))))) wfStructure"
      by (rule yields_bind [OF S2], rule yields_bind [OF yields_stage3], assumption,
          rule yields_bind [OF C], assumption, rule yields_bind [OF yields_readBool], rule R, rule stage4 [OF s0_def])
        (use 1 in auto)
  qed
qed

section \<open>Descriptors\<close>

lemma wfTemplate_wfFrame: "wfTemplate s t \<Longrightarrow> wfFrame s t"
  by (auto simp: wfTemplate_def wfFrame_def list_all_iff)

lemma yields_frame:
  assumes "wfStructure s"
  shows "yields (readFrameDependencyDefinition s r) (\<lambda>r'. \<exists>f. wfFrame s f \<and>
    rd_descriptor r' = (rd_descriptor r)\<lparr>FrameDependencies := Some f, Resolution := resolutionOf s f\<rparr>)"
proof -
  have T: "wfFrame s (Clone (Templates s ! i))" if "i < length (Templates s)" for i
  proof -
    have "Clone (Templates s ! i) = Templates s ! i" by (simp add: Clone_def)
    then show ?thesis using assms that by (auto simp: wfStructure_def list_all_length intro: wfTemplate_wfFrame)
  qed
  have D: "yields (if c then readFrameDtis s f else retP f) (wfFrame s)" if "wfFrame s f" for c f
    using that by (auto simp: readFrameDtis_def yields_ret wfFrame_def
      intro!: yields_map [OF yields_readN [OF yields_readDti]])
  have F: "yields (if c then readFrameFdiffs f else retP f) (wfFrame s)" if "wfFrame s f" for c f
    using that by (auto simp: readFrameFdiffs_def yields_ret wfFrame_def
      intro!: yields_map [OF yields_readFrameFdiffsLoop])
  have C: "yields (if c then readFrameChains s f else retP f) (wfFrame s)" if "wfFrame s f" for c f
    using that by (auto simp: readFrameChains_def yields_ret wfFrame_def
      intro!: yields_map [OF yields_readN [OF yields_int_field [of 8 8]]])
  define i where "i = goRem (int (rd_frameDependencyTemplateId r) + int MaxTemplates - int (StructureId s)) (int MaxTemplates)"
  have D0: "yields (if rd_customDtisFlag r then readFrameDtis s (Clone (Templates s ! nat i)) else retP (Clone (Templates s ! nat i))) (wfFrame s)"
    if "\<not> int (length (Templates s)) \<le> i" "\<not> i < 0" using that by (intro D T) linarith
  have R: "yields (if Resolutions s = [] then retP (r'\<lparr>rd_descriptor := (rd_descriptor r')\<lparr>Resolution := None\<rparr>\<rparr>)
      else if SpatialId f \<ge> length (Resolutions s) then invalidateP ErrDDReaderInvalidSpatialLayer
      else retP (r'\<lparr>rd_descriptor := (rd_descriptor r')\<lparr>Resolution := Some (Resolutions s ! SpatialId f)\<rparr>\<rparr>))
      (\<lambda>r'. \<exists>f. wfFrame s f \<and> rd_descriptor r' = (rd_descriptor r)\<lparr>FrameDependencies := Some f, Resolution := resolutionOf s f\<rparr>)"
    if "wfFrame s f" "r' = r\<lparr>rd_descriptor := (rd_descriptor r)\<lparr>FrameDependencies := Some f\<rparr>\<rparr>" for f r'
    using that by (auto simp: resolutionOf_def intro!: yields_ret exI [of _ f])
  show ?thesis
    unfolding readFrameDependencyDefinition_def Let_def i_def [symmetric]
    by (cases "int (length (Templates s)) \<le> i"; cases "i < 0")
      (simp_all only: if_True if_False yields_fail, rule yields_bind [OF D0], assumption+,
       rule yields_bind [OF F], assumption, rule yields_bind [OF C], assumption, rule R, assumption, rule refl)
qed

text \<open>Results that are related to the size of the buffer.\<close>

definition yieldsB :: "'a bitParser \<Rightarrow> (nat \<Rightarrow> 'a \<Rightarrow> bool) \<Rightarrow> bool" where
  "yieldsB p P \<longleftrightarrow> (\<forall>r r' x. rok r \<longrightarrow> p r = (r', Inr x) \<longrightarrow> P (length (br_buf r)) x)"

lemma yieldsB_bind:
  assumes "yields p P" "\<And>x. P x \<Longrightarrow> yieldsB (f x) Q"
  shows "yieldsB (bindP p f) Q"
  unfolding yieldsB_def
proof (intro allI impI)
  fix r r' y assume r: "rok r" "bindP p f r = (r', Inr y)"
  then obtain r1 x where 1: "p r = (r1, Inr x)" "f x r1 = (r', Inr y)"
    by (auto simp: bindP_def split: prod.splits sum.splits)
  have "rok r1" "br_buf r1 = br_buf r" "P x" using yieldsD [OF assms(1) r(1) 1(1)] by simp_all
  then show "Q (length (br_buf r)) y" using assms(2) 1(2) unfolding yieldsB_def by metis
qed

lemma BytesRead_bound:
  assumes "rok b"
  shows "BytesRead b \<le> length (br_buf b)"
proof -
  have "br_pos b = rpos b div 8" "rpos b \<le> 8 * length (br_buf b)" using assms by (auto simp: rok_def rpos_def)
  moreover have "rpos b < 8 * length (br_buf b)" if "br_remainingBits b > 0"
    using that assms by (auto simp: rok_def rpos_def)
  ultimately show ?thesis by (auto simp: BytesRead_def)
qed

lemma readMask_bound:
  assumes "n \<le> 32" "unat v < 2 ^ n"
  shows "unat (ucast (v :: u64) :: u32) < 2 ^ n"
  by (rule bits_less_exp) (use bit_less_exp [OF assms(2)] in \<open>auto simp: bit_simps\<close>)

lemma allTargets_bound:
  assumes "n \<le> 32"
  shows "unat (ucast (push_bit n 1 - 1 :: u64) :: u32) < 2 ^ n"
proof -
  have "push_bit n 1 - 1 = (mask n :: u64)" by (simp add: mask_eq_exp_minus_1)
  then show ?thesis by (intro readMask_bound assms bits_less_exp) (simp add: bit_simps)
qed

text \<open>What holds of the reader between the parts of \<open>Parse\<close>, and of its result.\<close>

definition readerOk :: "FrameDependencyStructure option \<Rightarrow> DependencyDescriptorReader \<Rightarrow> bool" where
  "readerOk st r \<longleftrightarrow> (case AttachedStructure (rd_descriptor r) of
      None \<Rightarrow> ActiveDecodeTargetsBitmask (rd_descriptor r) = None \<and> rd_structure r = st
    | Some s \<Rightarrow> wfStructure s \<and> (\<exists>m. ActiveDecodeTargetsBitmask (rd_descriptor r) = Some m \<and> unat m < 2 ^ NumDecodeTargets s))"

definition resultOk :: "FrameDependencyStructure option \<Rightarrow> nat \<Rightarrow> nat \<times> DependencyDescriptor \<Rightarrow> bool" where
  "resultOk st L = (\<lambda>(n, d). \<exists>s. (AttachedStructure d = Some s \<or> AttachedStructure d = None \<and> st = Some s) \<and>
    wfStructure s \<and> wfDescriptor s d \<and> n \<le> L)"

text \<open>The part of \<open>Parse\<close> after the extended fields.\<close>

definition parseTail :: "DependencyDescriptorReader \<Rightarrow> (nat \<times> DependencyDescriptor) bitParser" where
  "parseTail r = (let r = (if AttachedStructure (rd_descriptor r) \<noteq> None
                   then r\<lparr>rd_structure := AttachedStructure (rd_descriptor r)\<rparr> else r) in
          case rd_structure r of
            None \<Rightarrow> invalidateP ErrDDReaderNoStructure
          | Some s \<Rightarrow>
            bindP (if rd_activeDecodeTargetsPresentFlag r
                   then bindP (readBits (int (NumDecodeTargets s))) (\<lambda>bitmask.
                     retP (r\<lparr>rd_descriptor := (rd_descriptor r)\<lparr>ActiveDecodeTargetsBitmask := Some (ucast bitmask)\<rparr>\<rparr>))
                   else retP r) (\<lambda>r.
            bindP (readFrameDependencyDefinition s r) (\<lambda>r. \<lambda>b.
              retP (BytesRead b, rd_descriptor r) b)))"

lemma Parse_parseTail:
  "Parse r buf = snd (bindP (readMandatoryFields r) (\<lambda>r.
     bindP (if length buf > 3 then readExtendedFields r else retP r) parseTail) (NewBitStreamReader buf))"
  by (simp add: Parse_def parseTail_def [abs_def])

lemma yields_extended:
  assumes "readerOk st r"
  shows "yields (readExtendedFields r) (readerOk st)"
proof -
  have A: "readerOk st (r'\<lparr>rd_descriptor := (rd_descriptor r')\<lparr>AttachedStructure := Some s,
      ActiveDecodeTargetsBitmask := Some (ucast (push_bit (NumDecodeTargets s) 1 - 1 :: u64))\<rparr>\<rparr>)" if "wfStructure s" for s r'
  proof -
    have "NumDecodeTargets s \<le> 32" using that by (simp add: wfStructure_def)
    from allTargets_bound [OF this] that show ?thesis by (simp add: readerOk_def)
  qed
  have F: "readerOk st (r\<lparr>rd_activeDecodeTargetsPresentFlag := a, rd_customDtisFlag := b, rd_customFdiffsFlag := c, rd_customChainsFlag := d\<rparr>)" for a b c d
    using assms by (auto simp: readerOk_def split: option.splits)
  show ?thesis unfolding readExtendedFields_def Let_def
    by (intro yields_bind [OF yields_readBool]) (auto simp only: intro!: yields_ret F yields_map [OF yields_structure] A split: if_split)
qed

lemma yields_parseTail:
  assumes ok: "readerOk st r" and st: "\<forall>s. st = Some s \<longrightarrow> wfStructure s"
  shows "yieldsB (parseTail r) (resultOk st)"
proof -
  define r1 where "r1 = (if AttachedStructure (rd_descriptor r) \<noteq> None then r\<lparr>rd_structure := AttachedStructure (rd_descriptor r)\<rparr> else r)"
  show ?thesis
  proof (cases "rd_structure r1")
    case None
    then show ?thesis unfolding parseTail_def Let_def r1_def [symmetric] by (simp add: yieldsB_def invalidateP_def)
  next
    case (Some s)
    have wf: "wfStructure s" and fits: "AttachedStructure (rd_descriptor r1) = Some s \<or> AttachedStructure (rd_descriptor r1) = None \<and> st = Some s"
      and mask: "case ActiveDecodeTargetsBitmask (rd_descriptor r1) of None \<Rightarrow> AttachedStructure (rd_descriptor r1) = None | Some m \<Rightarrow> unat m < 2 ^ NumDecodeTargets s"
      using ok Some st by (auto simp: r1_def readerOk_def split: option.splits if_splits)
    have n: "NumDecodeTargets s \<le> 32" using wf by (simp add: wfStructure_def)
    let ?P = "\<lambda>r2. (case ActiveDecodeTargetsBitmask (rd_descriptor r2) of None \<Rightarrow> AttachedStructure (rd_descriptor r2) = None | Some m \<Rightarrow> unat m < 2 ^ NumDecodeTargets s) \<and>
      AttachedStructure (rd_descriptor r2) = AttachedStructure (rd_descriptor r1)"
    have B: "yields (if rd_activeDecodeTargetsPresentFlag r1
                 then bindP (readBits (int (NumDecodeTargets s))) (\<lambda>bitmask.
                   retP (r1\<lparr>rd_descriptor := (rd_descriptor r1)\<lparr>ActiveDecodeTargetsBitmask := Some (ucast bitmask)\<rparr>\<rparr>))
                 else retP r1) ?P"
      using mask n by (auto intro!: yields_ret yields_map [OF yields_readBits [OF refl]] readMask_bound)
    have last: "yieldsB (\<lambda>b. retP (BytesRead b, rd_descriptor r3) b) (resultOk st)"
      if "?P r2" "\<exists>f. wfFrame s f \<and> rd_descriptor r3 = (rd_descriptor r2)\<lparr>FrameDependencies := Some f, Resolution := resolutionOf s f\<rparr>" for r2 r3
      using that wf fits by (auto simp: yieldsB_def retP_def resultOk_def wfDescriptor_def BytesRead_bound split: option.splits)
    show ?thesis unfolding parseTail_def Let_def r1_def [symmetric] Some option.case
      by (rule yieldsB_bind [OF B], rule yieldsB_bind [OF yields_frame [OF wf]]) (rule last)
  qed
qed

text \<open>Any accepted bytes.\<close>

lemma Unmarshal_wf:
  assumes "Unmarshal st d0 buf = Inr (n, d)" "\<forall>s. st = Some s \<longrightarrow> wfStructure s"
    "AttachedStructure d0 = None" "ActiveDecodeTargetsBitmask d0 = None"
  shows "\<exists>s. (AttachedStructure d = Some s \<or> AttachedStructure d = None \<and> st = Some s) \<and>
    wfStructure s \<and> wfDescriptor s d \<and> n \<le> length buf"
proof -
  have M: "yields (readMandatoryFields (NewDependencyDescriptorReader st d0)) (readerOk st)"
    unfolding readMandatoryFields_def
    by (intro yields_bind [OF yields_readBool] yields_bind [OF yields_readBits [of 6 6]] yields_map [OF yields_readBits [of 16 16]])
      (use assms(3,4) in \<open>simp_all add: readerOk_def NewDependencyDescriptorReader_def\<close>)
  have E: "yields (if length buf > 3 then readExtendedFields r else retP r) (readerOk st)" if "readerOk st r" for r
    using that by (simp add: yields_ret yields_extended)
  have "yieldsB (bindP (readMandatoryFields (NewDependencyDescriptorReader st d0)) (\<lambda>r.
      bindP (if length buf > 3 then readExtendedFields r else retP r) parseTail)) (resultOk st)"
    by (intro yieldsB_bind [OF M] yieldsB_bind [OF E] yields_parseTail [OF _ assms(2)])
  then show ?thesis using assms(1) NewBitStreamReader_rok [of buf]
    unfolding Unmarshal_def Parse_parseTail yieldsB_def resultOk_def by (fastforce simp: NewBitStreamReader_def snd_def split: prod.splits)
qed

text \<open>
  C26: Whatever bytes arrive, a descriptor that \<open>Unmarshal\<close> accepts is well formed for the structure in force (the one
  attached to the packet, or the known one): the structure has 1 to 32 decode targets and 1 to 64 templates in layer
  order, all lists have the announced lengths, all numbers are in range, the frame refers to existing layers, chains and
  resolutions, and no more bytes are consumed than were given.
\<close>

theorem dd_parsed_well_formed:
  assumes "Unmarshal st d0 buf = Inr (n, d)" "\<forall>s. st = Some s \<longrightarrow> wfStructure s"
    "AttachedStructure d0 = None" "ActiveDecodeTargetsBitmask d0 = None"
  shows "\<exists>s. (AttachedStructure d = Some s \<or> AttachedStructure d = None \<and> st = Some s) \<and>
    wfStructure s \<and> wfDescriptor s d \<and> n \<le> length buf"
  using assms by (rule Unmarshal_wf)

theorem dd_parsed_well_formed_witness:
  "\<exists>d. Unmarshal (Some exStructure) emptyDescriptor [0xbe, 0xff, 0xfe] = Inr (3, d) \<and> wfDescriptor exStructure d"
proof -
  let ?d = "exDescriptor (strayFrame\<lparr>TemporalId := 1\<rparr>) None None"
  have "Unmarshal (Some exStructure) emptyDescriptor [0xbe, 0xff, 0xfe] = Inr (3, ?d)" by code_simp
  with dd_parsed_well_formed [OF this] exStructure_wf show ?thesis
    by (auto simp: emptyDescriptor_def exDescriptor_def)
qed

end
