(* ===== verification/DD_Parser.thy ===== *)
theory DD_Parser
  imports DD_Selector Frame_Integrity Dependency_Descriptor_Parsed
begin

text \<open>
  \<^verbatim>\<open>pkg/sfu/buffer/dependencydescriptorparser.go\<close>: from the header extension of a packet to the extended dependency
  descriptor the selectors work on. The wrap-around counters come from a package outside the repository; they are a
  parameter, the operations \<open>WrapAroundOps\<close>, and nothing is assumed of them.
\<close>

section \<open>Model\<close>

subsection \<open>Decode targets of a structure\<close>

text \<open>The layer of a target: the maximum over the templates it is present in; \<open>None\<close> is an index out of range.\<close>

fun targetLayerLoop :: "nat \<Rightarrow> FrameDependencyTemplate list \<Rightarrow> VideoLayer \<Rightarrow> VideoLayer option" where
  "targetLayerLoop target [] layer = Some layer"
| "targetLayerLoop target (t # ts) layer =
     (if length (DecodeTargetIndications t) \<le> target then None
      else if DecodeTargetIndications t ! target \<noteq> DecodeTargetNotPresent then
        let layer = (if Spatial layer < int (SpatialId t) then layer\<lparr>Spatial := int (SpatialId t)\<rparr> else layer);
            layer = (if Temporal layer < int (TemporalId t) then layer\<lparr>Temporal := int (TemporalId t)\<rparr> else layer)
        in targetLayerLoop target ts layer
      else targetLayerLoop target ts layer)"

text \<open>
  \<open>sort.Slice\<close> with the order of \<open>GreaterThan\<close>, as insertion sort, which the standard library uses for short slices; the
  order of targets with equal layers is not specified.
\<close>

definition insertTarget :: "DependencyDescriptorDecodeTarget \<Rightarrow> DependencyDescriptorDecodeTarget list \<Rightarrow> DependencyDescriptorDecodeTarget list" where
  "insertTarget x ys =
     takeWhile (\<lambda>y. \<not> GreaterThan (dt_Layer x) (dt_Layer y)) ys @ x # dropWhile (\<lambda>y. \<not> GreaterThan (dt_Layer x) (dt_Layer y)) ys"

definition sortTargets :: "DependencyDescriptorDecodeTarget list \<Rightarrow> DependencyDescriptorDecodeTarget list" where
  "sortTargets xs = foldl (\<lambda>ys x. insertTarget x ys) [] xs"

fun targetsFrom :: "FrameDependencyStructure \<Rightarrow> nat list \<Rightarrow> DependencyDescriptorDecodeTarget list option" where
  "targetsFrom structure [] = Some []"
| "targetsFrom structure (target # targets) =
     (case targetLayerLoop target (Templates structure) \<lparr>Spatial = 0, Temporal = 0\<rparr> of
        None \<Rightarrow> None
      | Some layer \<Rightarrow> map_option (\<lambda>dts. \<lparr>dt_Target = target, dt_Layer = layer\<rparr> # dts) (targetsFrom structure targets))"

definition ProcessFrameDependencyStructure :: "FrameDependencyStructure \<Rightarrow> DependencyDescriptorDecodeTarget list option" where
  "ProcessFrameDependencyStructure structure =
     map_option sortTargets (targetsFrom structure [0..<NumDecodeTargets structure])"

subsection \<open>Parser\<close>

abbreviation (input) ddRestartThreshold :: int where "ddRestartThreshold \<equiv> 30 * 1000000000"
abbreviation (input) integrityCheckFrame :: nat where "integrityCheckFrame \<equiv> 180"
abbreviation (input) integrityCheckPkt :: nat where "integrityCheckPkt \<equiv> 1024"

datatype ddpErr = ErrDDExtentionNotFound | ErrUnmarshal ddErr | ErrFrameEarlierThanKeyFrame
  | ErrDDStructureAttachedToNonFirstPacket | ddpPanic

record 'w WrapAroundOps =
  wa_New :: 'w
  wa_Update :: "'w \<Rightarrow> u16 \<Rightarrow> 'w \<times> u64"
  wa_UpdateWithOrderKnown :: "'w \<Rightarrow> u16 \<Rightarrow> bool \<Rightarrow> 'w \<times> u64"

record 'w DependencyDescriptorParser =
  pr_structure :: "FrameDependencyStructure option"
  pr_decodeTargets :: "DependencyDescriptorDecodeTarget list"
  pr_seqWrapAround :: 'w
  pr_frameWrapAround :: 'w
  pr_structureExtFrameNum :: u64
  pr_activeDecodeTargetsExtSeq :: u64
  pr_activeDecodeTargetsMask :: u32
  pr_frameChecker :: FrameIntegrityChecker
  pr_ddNotFoundCount :: u32
  pr_restartGeneration :: int
  pr_enableRestart :: bool
  pr_lastPacketAt :: "int option"

definition NewDependencyDescriptorParser :: "'w WrapAroundOps \<Rightarrow> bool \<Rightarrow> 'w DependencyDescriptorParser" where
  "NewDependencyDescriptorParser wa enableRestart =
     \<lparr>pr_structure = None, pr_decodeTargets = [], pr_seqWrapAround = wa_New wa, pr_frameWrapAround = wa_New wa,
      pr_structureExtFrameNum = 0, pr_activeDecodeTargetsExtSeq = 0, pr_activeDecodeTargetsMask = 0,
      pr_frameChecker = NewFrameIntegrityChecker integrityCheckFrame integrityCheckPkt, pr_ddNotFoundCount = 0,
      pr_restartGeneration = 0, pr_enableRestart = enableRestart, pr_lastPacketAt = None\<rparr>"

definition pr_restart :: "'w DependencyDescriptorParser \<Rightarrow> 'w DependencyDescriptorParser" where
  "pr_restart r = r\<lparr>pr_frameChecker := NewFrameIntegrityChecker integrityCheckFrame integrityCheckPkt, pr_structure := None,
     pr_structureExtFrameNum := 0, pr_activeDecodeTargetsExtSeq := 0, pr_activeDecodeTargetsMask := 0, pr_decodeTargets := [],
     pr_restartGeneration := pr_restartGeneration r + 1\<rparr>"

text \<open>The restart check: the second component tells whether the stream restarted.\<close>

definition checkRestart :: "int \<Rightarrow> 'w DependencyDescriptorParser \<Rightarrow> 'w DependencyDescriptorParser \<times> bool" where
  "checkRestart now r =
     (if pr_enableRestart r then
        let (r, restart) =
          (case pr_lastPacketAt r of
             Some t \<Rightarrow> if now - t > ddRestartThreshold then (pr_restart r, True) else (r, False)
           | None \<Rightarrow> (r, False))
        in (r\<lparr>pr_lastPacketAt := Some now\<rparr>, restart)
      else (r, False))"

text \<open>An attached structure.\<close>

definition takeStructure :: "u64 \<Rightarrow> DependencyDescriptor \<Rightarrow> 'w DependencyDescriptorParser \<times> ExtDependencyDescriptor \<Rightarrow>
    ddpErr + 'w DependencyDescriptorParser \<times> ExtDependencyDescriptor" where
  "takeStructure extFN ddVal = (\<lambda>(r, extDD).
     case AttachedStructure ddVal of
       None \<Rightarrow> Inr (r, extDD)
     | Some st \<Rightarrow>
       if \<not> FirstPacketInFrame ddVal then Inl ErrDDStructureAttachedToNonFirstPacket
       else case ProcessFrameDependencyStructure st of
           None \<Rightarrow> Inl ddpPanic
         | Some dts \<Rightarrow>
           Inr (r\<lparr>pr_structure := Some st, pr_decodeTargets := dts, pr_structureExtFrameNum := extFN\<rparr>,
                extDD\<lparr>edd_StructureUpdated := True, edd_ActiveDecodeTargetsUpdated := True\<rparr>))"

text \<open>A bitmask of active decode targets: the last component is the call of \<open>onMaxLayerChanged\<close>, if any.\<close>

definition maxActiveLayer :: "u32 \<Rightarrow> DependencyDescriptorDecodeTarget list \<Rightarrow> int \<times> int" where
  "maxActiveLayer m dts =
     foldl (\<lambda>(maxSpatial, maxTemporal) dt.
       if m AND push_bit (dt_Target dt) 1 \<noteq> 0
       then (if maxSpatial < Spatial (dt_Layer dt) then Spatial (dt_Layer dt) else maxSpatial,
             if maxTemporal < Temporal (dt_Layer dt) then Temporal (dt_Layer dt) else maxTemporal)
       else (maxSpatial, maxTemporal)) (0, 0) dts"

definition takeBitmask :: "u64 \<Rightarrow> DependencyDescriptor \<Rightarrow> 'w DependencyDescriptorParser \<times> ExtDependencyDescriptor \<Rightarrow>
    'w DependencyDescriptorParser \<times> ExtDependencyDescriptor \<times> (int \<times> int) option" where
  "takeBitmask extSeq ddVal = (\<lambda>(r, extDD).
     case ActiveDecodeTargetsBitmask ddVal of
       None \<Rightarrow> (r, extDD, None)
     | Some m \<Rightarrow>
       if extSeq > pr_activeDecodeTargetsExtSeq r then
         let r = r\<lparr>pr_activeDecodeTargetsExtSeq := extSeq\<rparr> in
         if m \<noteq> pr_activeDecodeTargetsMask r then
           (r\<lparr>pr_activeDecodeTargetsMask := m\<rparr>, extDD\<lparr>edd_ActiveDecodeTargetsUpdated := True\<rparr>,
            Some (maxActiveLayer m (pr_decodeTargets r)))
         else (r, extDD, None)
       else (r, extDD, None))"

text \<open>
  \<open>Parse\<close> on the extension bytes (\<open>None\<close> if the packet has no such extension), the sequence number and the time: the new
  state, the extended descriptor or the error, the video layer, and the call of \<open>onMaxLayerChanged\<close>.
\<close>

definition ddp_Parse :: "'w WrapAroundOps \<Rightarrow> int \<Rightarrow> u16 \<Rightarrow> bytes option \<Rightarrow> 'w DependencyDescriptorParser \<Rightarrow>
    'w DependencyDescriptorParser \<times> (ddpErr + ExtDependencyDescriptor) \<times> VideoLayer \<times> (int \<times> int) option" where
  "ddp_Parse wa now sn ddBuf r =
     (let videoLayer = \<lparr>Spatial = 0, Temporal = 0\<rparr> in
      case ddBuf of
        None \<Rightarrow> (r\<lparr>pr_ddNotFoundCount := pr_ddNotFoundCount r + 1\<rparr>, Inl ErrDDExtentionNotFound, videoLayer, None)
      | Some buf \<Rightarrow>
        case Unmarshal (pr_structure r) emptyDescriptor buf of
          Inl e \<Rightarrow> (r, Inl (ErrUnmarshal e), videoLayer, None)
        | Inr (_, ddVal) \<Rightarrow>
          let (r, restart) = checkRestart now r;
              (seqWA, extSeq) = wa_Update wa (pr_seqWrapAround r) sn;
              r = r\<lparr>pr_seqWrapAround := seqWA\<rparr>;
              videoLayer = (case FrameDependencies ddVal of None \<Rightarrow> videoLayer
                | Some fd \<Rightarrow> \<lparr>Spatial = int (SpatialId fd), Temporal = int (TemporalId fd)\<rparr>);
              (frameWA, extFN) = wa_UpdateWithOrderKnown wa (pr_frameWrapAround r) (FrameNumber ddVal) restart;
              r = r\<lparr>pr_frameWrapAround := frameWA\<rparr> in
          if extFN < pr_structureExtFrameNum r then (r, Inl ErrFrameEarlierThanKeyFrame, videoLayer, None)
          else
            let r = r\<lparr>pr_frameChecker := fc_AddPacket extSeq extFN ddVal (pr_frameChecker r)\<rparr>;
                extDD = \<lparr>edd_Descriptor = ddVal, edd_DecodeTargets = [], edd_StructureUpdated = False,
                         edd_ActiveDecodeTargetsUpdated = False, edd_Integrity = FrameIntegrity (pr_frameChecker r) extFN,
                         edd_ExtFrameNum = extFN, edd_ExtKeyFrameNum = 0, edd_RestartGeneration = pr_restartGeneration r\<rparr> in
            case takeStructure extFN ddVal (r, extDD) of
              Inl e \<Rightarrow> (r, Inl e, videoLayer, None)
            | Inr rx \<Rightarrow>
              let (r, extDD, maxLayerChanged) = takeBitmask extSeq ddVal rx
              in (r, Inr (extDD\<lparr>edd_DecodeTargets := pr_decodeTargets r, edd_ExtKeyFrameNum := pr_structureExtFrameNum r\<rparr>),
                  videoLayer, maxLayerChanged))"

definition ExtractDependencyDescriptorVideoSize :: "DependencyDescriptor \<Rightarrow> (u32 \<times> u32) list" where
  "ExtractDependencyDescriptorVideoSize d =
     (case AttachedStructure d of None \<Rightarrow> []
      | Some st \<Rightarrow> map (\<lambda>res. (of_nat (Width res), of_nat (Height res))) (Resolutions st))"

section \<open>Decode targets\<close>

lemma mset_insertTarget: "mset (insertTarget x ys) = add_mset x (mset ys)"
proof -
  have "mset ys = mset (takeWhile (\<lambda>y. \<not> GreaterThan (dt_Layer x) (dt_Layer y)) ys) + mset (dropWhile (\<lambda>y. \<not> GreaterThan (dt_Layer x) (dt_Layer y)) ys)"
    by (metis mset_append takeWhile_dropWhile_id)
  then show ?thesis by (simp add: insertTarget_def)
qed

lemma insertTarget_sorted:
  assumes "sorted_wrt (\<lambda>a b. \<not> GreaterThan (dt_Layer b) (dt_Layer a)) ys"
  shows "sorted_wrt (\<lambda>a b. \<not> GreaterThan (dt_Layer b) (dt_Layer a)) (insertTarget x ys)"
  using assms
proof (induction ys)
  case (Cons y ys)
  show ?case
  proof (cases "GreaterThan (dt_Layer x) (dt_Layer y)")
    case True
    have "\<not> GreaterThan (dt_Layer z) (dt_Layer x)" if "z \<in> set ys" for z
      using that Cons.prems True GreaterThan_trans by fastforce
    moreover have "\<not> GreaterThan (dt_Layer y) (dt_Layer x)" using True GreaterThan_trans GreaterThan_irrefl by blast
    ultimately show ?thesis using Cons.prems True by (auto simp: insertTarget_def)
  next
    case False
    then have "insertTarget x (y # ys) = y # insertTarget x ys" by (simp add: insertTarget_def)
    moreover have "set (insertTarget x ys) = insert x (set ys)" using mset_insertTarget [of x ys] by (metis set_mset_add_mset_insert set_mset_mset)
    ultimately show ?thesis using Cons False by auto
  qed
qed (simp add: insertTarget_def)

lemma sortTargets_props:
  "mset (sortTargets xs) = mset xs" "sorted_wrt (\<lambda>a b. \<not> GreaterThan (dt_Layer b) (dt_Layer a)) (sortTargets xs)"
  by (induction xs rule: rev_induct) (simp_all add: sortTargets_def mset_insertTarget insertTarget_sorted)

text \<open>The layer of a target as a maximum.\<close>

definition presentIn :: "nat \<Rightarrow> FrameDependencyTemplate \<Rightarrow> bool" where
  "presentIn target t \<longleftrightarrow> DecodeTargetIndications t ! target \<noteq> DecodeTargetNotPresent"

lemma targetLayerLoop_max:
  assumes "\<forall>t \<in> set ts. target < length (DecodeTargetIndications t)"
  shows "targetLayerLoop target ts layer =
    Some \<lparr>Spatial = fold max (map (int \<circ> SpatialId) (filter (presentIn target) ts)) (Spatial layer),
          Temporal = fold max (map (int \<circ> TemporalId) (filter (presentIn target) ts)) (Temporal layer)\<rparr>"
  using assms
  by (induction ts arbitrary: layer) (auto simp: presentIn_def Let_def max_def)

lemma targetsFrom_wf:
  assumes "\<forall>t \<in> set (Templates st). \<forall>target \<in> set targets. target < length (DecodeTargetIndications t)"
  shows "targetsFrom st targets = Some (map (\<lambda>target.
    \<lparr>dt_Target = target, dt_Layer = the (targetLayerLoop target (Templates st) \<lparr>Spatial = 0, Temporal = 0\<rparr>)\<rparr>) targets)"
  using assms
proof (induction targets)
  case (Cons a targets)
  then show ?case using targetLayerLoop_max [of "Templates st" a "\<lparr>Spatial = 0, Temporal = 0\<rparr>"] by auto
qed simp

lemma Process_wf:
  assumes "wfStructure st"
  shows "\<exists>dts. ProcessFrameDependencyStructure st = Some dts \<and> mset dts = mset (map (\<lambda>target.
    \<lparr>dt_Target = target, dt_Layer = the (targetLayerLoop target (Templates st) \<lparr>Spatial = 0, Temporal = 0\<rparr>)\<rparr>) [0..<NumDecodeTargets st]) \<and>
    sorted_wrt (\<lambda>a b. \<not> GreaterThan (dt_Layer b) (dt_Layer a)) dts"
proof -
  have "\<forall>t \<in> set (Templates st). \<forall>target \<in> set [0..<NumDecodeTargets st]. target < length (DecodeTargetIndications t)"
    using assms by (auto simp: wfStructure_def wfTemplate_def list_all_iff)
  from targetsFrom_wf [OF this] show ?thesis
    by (simp add: ProcessFrameDependencyStructure_def sortTargets_props del: mset_map)
qed

lemma Process_targets:
  assumes "wfStructure st" "ProcessFrameDependencyStructure st = Some dts" "dt \<in> set dts"
  shows "dt_Target dt < NumDecodeTargets st"
proof -
  have "dt \<in># mset (map (\<lambda>target.
    \<lparr>dt_Target = target, dt_Layer = the (targetLayerLoop target (Templates st) \<lparr>Spatial = 0, Temporal = 0\<rparr>)\<rparr>) [0..<NumDecodeTargets st])"
    using Process_wf [OF assms(1)] assms(2,3) by (metis option.inject set_mset_mset)
  then show ?thesis by auto
qed

section \<open>Invariant of the parser\<close>

definition pr_wf :: "'w DependencyDescriptorParser \<Rightarrow> bool" where
  "pr_wf r \<longleftrightarrow> (case pr_structure r of None \<Rightarrow> pr_decodeTargets r = []
     | Some st \<Rightarrow> wfStructure st \<and> ProcessFrameDependencyStructure st = Some (pr_decodeTargets r))"

lemma pr_wf_checkRestart: "pr_wf r \<Longrightarrow> pr_wf (fst (checkRestart now r))"
  by (auto simp: checkRestart_def pr_restart_def pr_wf_def split: option.split)

lemma takeStructure_wf:
  assumes "pr_wf r" "\<And>st. AttachedStructure d = Some st \<Longrightarrow> wfStructure st"
    "\<not> edd_StructureUpdated x" "\<not> edd_ActiveDecodeTargetsUpdated x"
  shows "takeStructure fn d (r, x) \<noteq> Inl ddpPanic"
    "takeStructure fn d (r, x) = Inr (r', x') \<Longrightarrow> pr_wf r' \<and> edd_Descriptor x' = edd_Descriptor x \<and> edd_ExtFrameNum x' = edd_ExtFrameNum x \<and>
       edd_RestartGeneration x' = edd_RestartGeneration x \<and> pr_restartGeneration r' = pr_restartGeneration r \<and>
       (edd_StructureUpdated x' \<longleftrightarrow> AttachedStructure d \<noteq> None) \<and> (edd_ActiveDecodeTargetsUpdated x' \<longleftrightarrow> AttachedStructure d \<noteq> None) \<and>
       (AttachedStructure d \<noteq> None \<longrightarrow> pr_structure r' = AttachedStructure d \<and> pr_structureExtFrameNum r' = fn) \<and>
       (AttachedStructure d = None \<longrightarrow> pr_structure r' = pr_structure r \<and> pr_structureExtFrameNum r' = pr_structureExtFrameNum r)"
proof -
  have some: "ProcessFrameDependencyStructure st \<noteq> None" if "AttachedStructure d = Some st" for st
    using Process_wf [OF assms(2) [OF that]] by auto
  show "takeStructure fn d (r, x) \<noteq> Inl ddpPanic"
    using some by (auto simp: takeStructure_def split: option.splits if_splits)
  assume "takeStructure fn d (r, x) = Inr (r', x')"
  then show "pr_wf r' \<and> edd_Descriptor x' = edd_Descriptor x \<and> edd_ExtFrameNum x' = edd_ExtFrameNum x \<and>
       edd_RestartGeneration x' = edd_RestartGeneration x \<and> pr_restartGeneration r' = pr_restartGeneration r \<and>
       (edd_StructureUpdated x' \<longleftrightarrow> AttachedStructure d \<noteq> None) \<and> (edd_ActiveDecodeTargetsUpdated x' \<longleftrightarrow> AttachedStructure d \<noteq> None) \<and>
       (AttachedStructure d \<noteq> None \<longrightarrow> pr_structure r' = AttachedStructure d \<and> pr_structureExtFrameNum r' = fn) \<and>
       (AttachedStructure d = None \<longrightarrow> pr_structure r' = pr_structure r \<and> pr_structureExtFrameNum r' = pr_structureExtFrameNum r)"
    using assms by (auto simp: takeStructure_def pr_wf_def split: option.splits if_splits)
qed

lemma takeBitmask_wf:
  assumes "takeBitmask sq d (r, x) = (r', x', c)"
  shows "pr_wf r' = pr_wf r" "pr_structure r' = pr_structure r" "pr_decodeTargets r' = pr_decodeTargets r"
    "pr_structureExtFrameNum r' = pr_structureExtFrameNum r" "pr_restartGeneration r' = pr_restartGeneration r"
    "edd_Descriptor x' = edd_Descriptor x" "edd_ExtFrameNum x' = edd_ExtFrameNum x" "edd_RestartGeneration x' = edd_RestartGeneration x"
    "edd_StructureUpdated x' = edd_StructureUpdated x"
    "edd_ActiveDecodeTargetsUpdated x' \<Longrightarrow> edd_ActiveDecodeTargetsUpdated x \<or> ActiveDecodeTargetsBitmask d \<noteq> None"
  using assms by (auto simp: takeBitmask_def pr_wf_def Let_def split: option.splits if_splits)

text \<open>What a packet contributes when its frame is not older than the structure in force.\<close>

lemma parse_accepted:
  assumes r: "pr_wf r" and d: "wfDescriptor s d" "AttachedStructure d = None \<or> AttachedStructure d = Some s" "wfStructure s"
    and old: "pr_structureExtFrameNum r \<le> fn" and x: "edd_Descriptor x = d" "edd_ExtFrameNum x = fn"
      "\<not> edd_StructureUpdated x" "\<not> edd_ActiveDecodeTargetsUpdated x"
    and take: "takeStructure fn d (r, x) = Inr rx" "takeBitmask sq d rx = (r', x', c)"
  defines "y \<equiv> x'\<lparr>edd_DecodeTargets := pr_decodeTargets r', edd_ExtKeyFrameNum := pr_structureExtFrameNum r'\<rparr>"
  shows "pr_wf r' \<and> edd_wf y \<and> edd_ExtKeyFrameNum y \<le> edd_ExtFrameNum y \<and> (edd_StructureUpdated y \<longrightarrow> edd_ExtKeyFrameNum y = edd_ExtFrameNum y)"
proof -
  obtain r1 x1 where rx: "rx = (r1, x1)" by (cases rx)
  have att: "AttachedStructure d = Some st \<Longrightarrow> wfStructure st" for st using d(2,3) by auto
  note a = takeStructure_wf(2) [OF r att x(3,4) take(1) [unfolded rx]] and b = takeBitmask_wf [OF take(2) [unfolded rx]]
  have wf': "pr_wf r'" using a b(1) by simp
  have "edd_wf y"
  proof -
    have f: "FrameDependencies (edd_Descriptor y) \<noteq> None" and desc: "edd_Descriptor y = d"
      using a b(6) x(1) d(1) by (auto simp: y_def wfDescriptor_def split: option.splits)
    have "dt_Target dt < length (DecodeTargetProtectedByChain s)"
      if "AttachedStructure d = Some s" "NumChains s > 0" "dt \<in> set (pr_decodeTargets r')" for dt
    proof -
      have "ProcessFrameDependencyStructure s = Some (pr_decodeTargets r')"
        using wf' a b(2) that(1) by (auto simp: pr_wf_def)
      from Process_targets [OF d(3) this that(3)] show ?thesis using d(3) that(2) by (simp add: wfStructure_def)
    qed
    moreover have "ActiveDecodeTargetsBitmask d \<noteq> None" if "edd_ActiveDecodeTargetsUpdated y"
      using that b(10) a d(1) by (auto simp: y_def wfDescriptor_def split: option.splits)
    ultimately show ?thesis using f a b(9) d(2) unfolding edd_wf_def desc by (auto simp: y_def)
  qed
  moreover have "edd_ExtKeyFrameNum y \<le> edd_ExtFrameNum y \<and> (edd_StructureUpdated y \<longrightarrow> edd_ExtKeyFrameNum y = edd_ExtFrameNum y)"
    using a b(4,7,9) x(2) old by (auto simp: y_def)
  ultimately show ?thesis using wf' by blast
qed

lemma checkRestart_sel:
  "pr_seqWrapAround (fst (checkRestart now r)) = pr_seqWrapAround r" "pr_frameWrapAround (fst (checkRestart now r)) = pr_frameWrapAround r"
  by (auto simp: checkRestart_def pr_restart_def split: option.split)

text \<open>The parser on a descriptor that could be unmarshalled.\<close>

lemma parse_bytes_wf:
  assumes wf: "pr_wf r" and parse: "ddp_Parse wa now sn (Some buf) r = (r', res, layer, c)"
    and u: "Unmarshal (pr_structure r) emptyDescriptor buf = Inr (n, d)"
    and s: "AttachedStructure d = None \<or> AttachedStructure d = Some s" "wfStructure s" "wfDescriptor s d"
  shows "pr_wf r' \<and> res \<noteq> Inl ddpPanic \<and>
    (\<forall>x. res = Inr x \<longrightarrow> edd_wf x \<and> edd_ExtKeyFrameNum x \<le> edd_ExtFrameNum x \<and>
       (edd_StructureUpdated x \<longrightarrow> edd_ExtKeyFrameNum x = edd_ExtFrameNum x))"
proof -
  obtain r0 restart where c0: "checkRestart now r = (r0, restart)" by (cases "checkRestart now r")
  obtain w1 sq where w1: "wa_Update wa (pr_seqWrapAround r0) sn = (w1, sq)" by (cases "wa_Update wa (pr_seqWrapAround r0) sn")
  obtain w2 fn where w2: "wa_UpdateWithOrderKnown wa (pr_frameWrapAround r0) (FrameNumber d) restart = (w2, fn)"
    by (cases "wa_UpdateWithOrderKnown wa (pr_frameWrapAround r0) (FrameNumber d) restart")
  define r1 where "r1 = r0\<lparr>pr_seqWrapAround := w1, pr_frameWrapAround := w2\<rparr>"
  define r2 where "r2 = r1\<lparr>pr_frameChecker := fc_AddPacket sq fn d (pr_frameChecker r1)\<rparr>"
  define x where "x = \<lparr>edd_Descriptor = d, edd_DecodeTargets = [], edd_StructureUpdated = False,
                       edd_ActiveDecodeTargetsUpdated = False, edd_Integrity = FrameIntegrity (pr_frameChecker r2) fn,
                       edd_ExtFrameNum = fn, edd_ExtKeyFrameNum = 0, edd_RestartGeneration = pr_restartGeneration r2\<rparr>"
  have wf1: "pr_wf r1" "pr_wf r2"
    using pr_wf_checkRestart [OF wf, of now] c0 by (auto simp: r1_def r2_def pr_wf_def split: option.splits)
  have att: "AttachedStructure d = Some st \<Longrightarrow> wfStructure st" for st using s by auto
  have res: "(r', res, c) = (if fn < pr_structureExtFrameNum r1 then (r1, Inl ErrFrameEarlierThanKeyFrame, None) else
      case takeStructure fn d (r2, x) of Inl e \<Rightarrow> (r2, Inl e, None)
      | Inr rx \<Rightarrow> let (r, y, c) = takeBitmask sq d rx in
          (r, Inr (y\<lparr>edd_DecodeTargets := pr_decodeTargets r, edd_ExtKeyFrameNum := pr_structureExtFrameNum r\<rparr>), c))"
    using parse u c0 w1 w2 by (auto simp: ddp_Parse_def r1_def r2_def x_def split: sum.splits prod.splits if_splits)
  show ?thesis
  proof (cases "fn < pr_structureExtFrameNum r1")
    case True
    then show ?thesis using res wf1 by auto
  next
    case False
    show ?thesis
    proof (cases "takeStructure fn d (r2, x)")
      case (Inl e)
      then show ?thesis using res False wf1 takeStructure_wf(1) [where d = d and x = x and fn = fn, OF wf1(2) att] by (auto simp: x_def)
    next
      case (Inr rx)
      obtain r3 y c3 where tb: "takeBitmask sq d rx = (r3, y, c3)" by (cases "takeBitmask sq d rx")
      show ?thesis using parse_accepted [OF wf1(2) s(3) s(1,2) _ _ _ _ _ Inr tb] res False Inr tb
        by (auto simp: x_def r2_def)
    qed
  qed
qed

lemma ddp_Parse_ok:
  assumes "pr_wf r" "ddp_Parse wa now sn ddBuf r = (r', res, layer, c)"
  shows "pr_wf r' \<and> res \<noteq> Inl ddpPanic \<and>
    (\<forall>x. res = Inr x \<longrightarrow> edd_wf x \<and> edd_ExtKeyFrameNum x \<le> edd_ExtFrameNum x \<and>
       (edd_StructureUpdated x \<longrightarrow> edd_ExtKeyFrameNum x = edd_ExtFrameNum x))"
proof (cases "\<exists>buf n d. ddBuf = Some buf \<and> Unmarshal (pr_structure r) emptyDescriptor buf = Inr (n, d)")
  case False
  then show ?thesis using assms by (auto simp: ddp_Parse_def Let_def pr_wf_def split: option.splits sum.splits)
next
  case True
  then obtain buf n d where b: "ddBuf = Some buf" "Unmarshal (pr_structure r) emptyDescriptor buf = Inr (n, d)" by blast
  obtain s where "AttachedStructure d = None \<or> AttachedStructure d = Some s" "wfStructure s" "wfDescriptor s d"
    using Unmarshal_wf [OF b(2)] assms(1) by (auto simp: emptyDescriptor_def pr_wf_def split: option.splits)
  then show ?thesis using parse_bytes_wf [OF assms(1) _ b(2)] assms(2) b(1) by blast
qed

section \<open>Properties\<close>

text \<open>
  Whatever bytes arrive in the header extension, and however the wrap-around counters behave, the parser does not panic and
  stays well formed (its decode targets are those of its structure). A descriptor it returns is complete for the selectors, its
  key frame is not later than its frame, and a packet with a new structure is its own key frame.
\<close>

theorem ddp_parse_wf:
  assumes "pr_wf r" "ddp_Parse wa now sn ddBuf r = (r', res, layer, c)"
  shows "pr_wf r' \<and> res \<noteq> Inl ddpPanic \<and>
    (\<forall>x. res = Inr x \<longrightarrow> edd_wf x \<and> edd_ExtKeyFrameNum x \<le> edd_ExtFrameNum x \<and>
       (edd_StructureUpdated x \<longrightarrow> edd_ExtKeyFrameNum x = edd_ExtFrameNum x))"
  using assms by (rule ddp_Parse_ok)

text \<open>
  The decode targets of a structure. For every well-formed structure the computation succeeds; the result has every target
  once, ordered from the highest layer to the lowest, and the layer of a target is the highest spatial and the highest temporal
  layer among the templates it is present in.
\<close>

theorem decode_targets_of_structure:
  assumes "wfStructure st"
  shows "\<exists>dts. ProcessFrameDependencyStructure st = Some dts \<and>
    mset (map dt_Target dts) = mset [0..<NumDecodeTargets st] \<and>
    sorted_wrt (\<lambda>a b. \<not> GreaterThan (dt_Layer b) (dt_Layer a)) dts \<and>
    (\<forall>dt \<in> set dts. let ts = filter (\<lambda>t. DecodeTargetIndications t ! dt_Target dt \<noteq> DecodeTargetNotPresent) (Templates st) in
       Spatial (dt_Layer dt) = Max (insert 0 (int ` SpatialId ` set ts)) \<and>
       Temporal (dt_Layer dt) = Max (insert 0 (int ` TemporalId ` set ts)))"
proof -
  let ?f = "\<lambda>target. \<lparr>dt_Target = target, dt_Layer = the (targetLayerLoop target (Templates st) \<lparr>Spatial = 0, Temporal = 0\<rparr>)\<rparr>"
  obtain dts where p: "ProcessFrameDependencyStructure st = Some dts" "mset dts = mset (map ?f [0..<NumDecodeTargets st])"
    "sorted_wrt (\<lambda>a b. \<not> GreaterThan (dt_Layer b) (dt_Layer a)) dts"
    using Process_wf [OF assms] by blast
  have "image_mset dt_Target (mset dts) = mset (map dt_Target (map ?f [0..<NumDecodeTargets st]))" unfolding p(2) by (simp add: multiset.map_comp comp_def)
  then have t: "mset (map dt_Target dts) = mset [0..<NumDecodeTargets st]" by (simp add: comp_def)
  have layer: "Spatial (dt_Layer dt) = Max (insert 0 (int ` SpatialId ` set (filter (presentIn (dt_Target dt)) (Templates st)))) \<and>
      Temporal (dt_Layer dt) = Max (insert 0 (int ` TemporalId ` set (filter (presentIn (dt_Target dt)) (Templates st))))"
    if "dt \<in> set dts" for dt
  proof -
    have "dt \<in> set (map ?f [0..<NumDecodeTargets st])" using that p(2) by (metis set_mset_mset)
    then obtain target where dt: "dt = ?f target" "target < NumDecodeTargets st" by auto
    have "\<forall>t \<in> set (Templates st). target < length (DecodeTargetIndications t)"
      using assms dt(2) by (auto simp: wfStructure_def wfTemplate_def list_all_iff)
    from targetLayerLoop_max [OF this, of "\<lparr>Spatial = 0, Temporal = 0\<rparr>"] show ?thesis
      by (simp add: dt Max.set_eq_fold [symmetric, of _ "0 :: int"] image_comp del: Max.set_eq_fold)
  qed
  show ?thesis using p(1,3) t layer by (auto simp: presentIn_def [abs_def] Let_def)
qed

section \<open>Witnesses\<close>

text \<open>A wrap-around counter that never sees a wrap.\<close>

definition demo_wa :: "unit WrapAroundOps" where
  "demo_wa = \<lparr>wa_New = (), wa_Update = (\<lambda>w v. (w, ucast v)), wa_UpdateWithOrderKnown = (\<lambda>w v _. (w, ucast v))\<rparr>"

definition demo_bytes :: bytes where
  "demo_bytes = (case Marshal (Some exStructure) (demo_descriptor 5 (hd (Templates exStructure)) (Some exStructure)) of
     Inr bs \<Rightarrow> bs | Inl _ \<Rightarrow> [])"

lemma pr_wf_New: "pr_wf (NewDependencyDescriptorParser wa e)"
  by (simp add: pr_wf_def NewDependencyDescriptorParser_def)

theorem ddp_parse_wf_witness:
  "case ddp_Parse demo_wa 0 7 (Some demo_bytes) (NewDependencyDescriptorParser demo_wa False) of
     (r', res, _, _) \<Rightarrow> pr_wf r' \<and> (\<exists>x. res = Inr x \<and> edd_wf x \<and> edd_StructureUpdated x)"
proof -
  obtain r' res l c where p: "ddp_Parse demo_wa 0 7 (Some demo_bytes) (NewDependencyDescriptorParser demo_wa False) = (r', res, l, c)"
    by (metis prod_cases4)
  have "case ddp_Parse demo_wa 0 7 (Some demo_bytes) (NewDependencyDescriptorParser demo_wa False) of
      (r', res, _, _) \<Rightarrow> (case res of Inl _ \<Rightarrow> False | Inr x \<Rightarrow> edd_StructureUpdated x)" by code_simp
  then show ?thesis using ddp_parse_wf [OF pr_wf_New p] p by (auto split: sum.splits)
qed

theorem decode_targets_of_structure_witness:
  "\<exists>dts. ProcessFrameDependencyStructure exStructure = Some dts \<and> mset (map dt_Target dts) = mset [0..<NumDecodeTargets exStructure]"
  using decode_targets_of_structure [OF exStructure_wf] by blast

end
