(* ===== verification/RtpMunger.thy ===== *)
theory RtpMunger
  imports OffsetTail Packets
begin

text \<open>
  \<^verbatim>\<open>pkg/sfu/rtpmunger.go\<close>: the translation of incoming extended sequence numbers and timestamps
  to outgoing ones. The sequence number offset of a packet is its value in a range map; dropping
  a packet excludes it from the map, sending padding lowers the value of its tail. Log calls are
  left out; an error that the code only logs leaves the model on the same path as the code.
\<close>

section \<open>Model\<close>

datatype SequenceNumberOrdering =
  SequenceNumberOrderingContiguous | SequenceNumberOrderingOutOfOrder |
  SequenceNumberOrderingGap | SequenceNumberOrderingDuplicate

datatype mungerErr =
  errOutOfOrderSequenceNumberCacheMiss | errPaddingOnlyPacket | errDuplicatePacket |
  errPaddingNotOnFrameBoundary | mungerPanic

definition RtxGateWindow :: u64 where
  "RtxGateWindow = 2000"

record TranslationParamsRTP =
  snOrdering :: SequenceNumberOrdering
  tp_extSequenceNumber :: u64
  tp_extTimestamp :: u64

record SnTs =
  sn_extSequenceNumber :: u64
  sn_extTimestamp :: u64

record RTPMunger =
  extHighestIncomingSN :: u64
  snRangeMap :: RangeMap
  extLastSN :: u64
  extSecondLastSN :: u64
  snOffset :: u64
  extLastTS :: u64
  extSecondLastTS :: u64
  tsOffset :: u64
  lastMarker :: bool
  secondLastMarker :: bool
  extRtxGateSn :: u64
  isInRtxGateRegion :: bool

text \<open>The protobuf message that carries the state of a munger to another node.\<close>

record RTPMungerState =
  st_ExtLastSequenceNumber :: u64
  st_ExtSecondLastSequenceNumber :: u64
  st_ExtLastTimestamp :: u64
  st_ExtSecondLastTimestamp :: u64
  st_LastMarker :: bool
  st_SecondLastMarker :: bool

definition NewRTPMunger :: RTPMunger where
  "NewRTPMunger = \<lparr>extHighestIncomingSN = 0, snRangeMap = NewRangeMap 100, extLastSN = 0,
     extSecondLastSN = 0, snOffset = 0, extLastTS = 0, extSecondLastTS = 0, tsOffset = 0,
     lastMarker = False, secondLastMarker = False, extRtxGateSn = 0, isInRtxGateRegion = False\<rparr>"

definition GetState :: "RTPMunger \<Rightarrow> RTPMungerState" where
  "GetState r = \<lparr>st_ExtLastSequenceNumber = extLastSN r,
     st_ExtSecondLastSequenceNumber = extSecondLastSN r, st_ExtLastTimestamp = extLastTS r,
     st_ExtSecondLastTimestamp = extSecondLastTS r, st_LastMarker = lastMarker r,
     st_SecondLastMarker = secondLastMarker r\<rparr>"

definition GetTSOffset :: "RTPMunger \<Rightarrow> u64" where
  "GetTSOffset r = tsOffset r"

definition SeedState :: "RTPMunger \<Rightarrow> RTPMungerState \<Rightarrow> RTPMunger" where
  "SeedState r state = r\<lparr>extLastSN := st_ExtLastSequenceNumber state,
     extSecondLastSN := st_ExtSecondLastSequenceNumber state,
     extLastTS := st_ExtLastTimestamp state, extSecondLastTS := st_ExtSecondLastTimestamp state,
     lastMarker := st_LastMarker state, secondLastMarker := st_SecondLastMarker state\<rparr>"

text \<open>A failed lookup is logged and returns the zero value, which is stored.\<close>

definition updateSnOffset :: "RTPMunger \<Rightarrow> RTPMunger" where
  "updateSnOffset r = r\<lparr>snOffset :=
     (case GetValue (snRangeMap r) (extHighestIncomingSN r + 1) of Inr v \<Rightarrow> v | Inl _ \<Rightarrow> 0)\<rparr>"

definition SetLastSnTs :: "RTPMunger \<Rightarrow> ExtPacket \<Rightarrow> RTPMunger" where
  "SetLastSnTs r extPkt =
     (let sn = ep_ExtSequenceNumber extPkt;
          r = r\<lparr>extHighestIncomingSN := sn - 1, extLastSN := sn, extSecondLastSN := sn - 1,
                snRangeMap := ClearAndResetValue (snRangeMap r) sn 0\<rparr>;
          r = updateSnOffset r
      in r\<lparr>extLastTS := ep_ExtTimestamp extPkt, extSecondLastTS := ep_ExtTimestamp extPkt,
           tsOffset := 0\<rparr>)"

definition UpdateSnTsOffsets :: "RTPMunger \<Rightarrow> ExtPacket \<Rightarrow> u64 \<Rightarrow> u64 \<Rightarrow> RTPMunger" where
  "UpdateSnTsOffsets r extPkt snAdjust tsAdjust =
     (let sn = ep_ExtSequenceNumber extPkt;
          r = r\<lparr>extHighestIncomingSN := sn - 1,
                snRangeMap := ClearAndResetValue (snRangeMap r) sn (sn - extLastSN r - snAdjust)\<rparr>;
          r = updateSnOffset r
      in r\<lparr>tsOffset := ep_ExtTimestamp extPkt - extLastTS r - tsAdjust\<rparr>)"

text \<open>A failed exclusion is logged and leaves the map unchanged.\<close>

definition excludeHighest :: "RTPMunger \<Rightarrow> RTPMunger" where
  "excludeHighest r =
     (case ExcludeRange (snRangeMap r) (extHighestIncomingSN r) (extHighestIncomingSN r + 1) of
        Inr m \<Rightarrow> r\<lparr>snRangeMap := m\<rparr> | Inl _ \<Rightarrow> r)"

definition PacketDropped :: "RTPMunger \<Rightarrow> ExtPacket \<Rightarrow> RTPMunger" where
  "PacketDropped r extPkt =
     (if extHighestIncomingSN r \<noteq> ep_ExtSequenceNumber extPkt then r
      else
        let r = excludeHighest r;
            r = r\<lparr>extLastSN := extSecondLastSN r\<rparr>;
            r = updateSnOffset r
        in r\<lparr>extLastTS := extSecondLastTS r, lastMarker := secondLastMarker r\<rparr>)"

definition updateInOrder :: "RTPMunger \<Rightarrow> ExtPacket \<Rightarrow> bool \<Rightarrow> SequenceNumberOrdering \<Rightarrow>
    RTPMunger \<times> TranslationParamsRTP" where
  "updateInOrder r extPkt marker ordr =
     (let extMungedSN = ep_ExtSequenceNumber extPkt - snOffset r;
          extMungedTS = ep_ExtTimestamp extPkt - tsOffset r;
          r = r\<lparr>extHighestIncomingSN := ep_ExtSequenceNumber extPkt,
                extSecondLastSN := extLastSN r, extLastSN := extMungedSN,
                extSecondLastTS := extLastTS r, extLastTS := extMungedTS,
                secondLastMarker := lastMarker r, lastMarker := marker\<rparr>;
          r = (if ep_IsKeyFrame extPkt
               then r\<lparr>extRtxGateSn := extMungedSN, isInRtxGateRegion := True\<rparr> else r);
          r = (if isInRtxGateRegion r \<and> extMungedSN - extRtxGateSn r > RtxGateWindow
               then r\<lparr>isInRtxGateRegion := False\<rparr> else r)
      in (r, \<lparr>snOrdering = ordr, tp_extSequenceNumber = extMungedSN,
              tp_extTimestamp = extMungedTS\<rparr>))"

text \<open>The value returned beside an error: only the ordering is set.\<close>

definition tp_only :: "SequenceNumberOrdering \<Rightarrow> TranslationParamsRTP" where
  "tp_only ordr = \<lparr>snOrdering = ordr, tp_extSequenceNumber = 0, tp_extTimestamp = 0\<rparr>"

definition translateOutOfOrder :: "RTPMunger \<Rightarrow> ExtPacket \<Rightarrow> TranslationParamsRTP \<times> mungerErr option" where
  "translateOutOfOrder r extPkt =
     (case GetValue (snRangeMap r) (ep_ExtSequenceNumber extPkt) of
        Inl _ \<Rightarrow> (tp_only SequenceNumberOrderingOutOfOrder, Some errOutOfOrderSequenceNumberCacheMiss)
      | Inr off \<Rightarrow>
          let extSequenceNumber = ep_ExtSequenceNumber extPkt - off in
          if extSequenceNumber \<ge> extLastSN r
          then (tp_only SequenceNumberOrderingOutOfOrder, Some errOutOfOrderSequenceNumberCacheMiss)
          else (\<lparr>snOrdering = SequenceNumberOrderingOutOfOrder,
                 tp_extSequenceNumber = extSequenceNumber,
                 tp_extTimestamp = ep_ExtTimestamp extPkt - tsOffset r\<rparr>, None))"

definition UpdateAndGetSnTs :: "RTPMunger \<Rightarrow> ExtPacket \<Rightarrow> bool \<Rightarrow>
    RTPMunger \<times> TranslationParamsRTP \<times> mungerErr option" where
  "UpdateAndGetSnTs r extPkt marker =
     (let diff = sint (ep_ExtSequenceNumber extPkt - extHighestIncomingSN r) in
      if (diff = 1 \<and> length (rtp_Payload (ep_Packet extPkt)) \<noteq> 0) \<or> diff > 1 then
        let ordr = (if diff > 1 then SequenceNumberOrderingGap else SequenceNumberOrderingContiguous);
            (r, tp) = updateInOrder r extPkt marker ordr
        in (r, tp, None)
      else if diff < 0 then
        (r, translateOutOfOrder r extPkt)
      else if diff = 1 then
        let r = r\<lparr>extHighestIncomingSN := ep_ExtSequenceNumber extPkt\<rparr>;
            r = excludeHighest r;
            r = updateSnOffset r
        in (r, tp_only SequenceNumberOrderingContiguous, Some errPaddingOnlyPacket)
      else (r, tp_only SequenceNumberOrderingDuplicate, Some errDuplicatePacket))"

definition munger_FilterRTX :: "RTPMunger \<Rightarrow> u16 list \<Rightarrow> u16 list" where
  "munger_FilterRTX r nacks =
     (if \<not> isInRtxGateRegion r then nacks
      else filter (\<lambda>sn. sn - ucast (extRtxGateSn r) < push_bit 15 1) nacks)"

text \<open>
  The loop of \<open>UpdateAndGetPaddingSnTs\<close>: \<open>n\<close> iterations are left, \<open>i\<close> is the loop index,
  \<open>ts0\<close> the munger's last timestamp and \<open>extLastTS\<close> the running one. The frame time is computed
  in \<open>uint32\<close>.
\<close>

definition frameTime :: "nat \<Rightarrow> nat \<Rightarrow> u32 \<Rightarrow> u32 \<Rightarrow> u64" where
  "frameTime i tsOff clockRate frameRate =
     ucast ((of_nat (i + 1 - tsOff) * clockRate + frameRate - 1) div frameRate)"

fun paddingLoop :: "nat \<Rightarrow> nat \<Rightarrow> u32 \<Rightarrow> u32 \<Rightarrow> bool \<Rightarrow> u64 \<Rightarrow> u64 \<Rightarrow> u64 \<Rightarrow> u64 \<Rightarrow>
    u64 \<times> u64 \<times> SnTs list" where
  "paddingLoop 0 i clockRate frameRate useLast extRtpTimestamp ts0 sn ts = (sn, ts, [])"
| "paddingLoop (Suc n) i clockRate frameRate useLast extRtpTimestamp ts0 sn ts =
     (let sn = sn + 1;
          tsOff = (if useLast then 1 else 0);
          (ts', v) =
            (if frameRate \<noteq> 0 then
               if useLast \<and> i = 0 then (ts, ts0)
               else
                 let ets = extRtpTimestamp + frameTime i tsOff clockRate frameRate;
                     ets = (if sint (ets - ts) \<le> 0 then ts + 1 else ets)
                 in (ets, ets)
             else (ts, ts0));
          (sn', ts'', vals) = paddingLoop n (i + 1) clockRate frameRate useLast extRtpTimestamp ts0 sn ts'
      in (sn', ts'', \<lparr>sn_extSequenceNumber = sn, sn_extTimestamp = v\<rparr> # vals))"

definition UpdateAndGetPaddingSnTs :: "RTPMunger \<Rightarrow> int \<Rightarrow> u32 \<Rightarrow> u32 \<Rightarrow> bool \<Rightarrow> u64 \<Rightarrow>
    RTPMunger \<times> (mungerErr + SnTs list)" where
  "UpdateAndGetPaddingSnTs r num clockRate frameRate forceMarker extRtpTimestamp =
     (if num = 0 then (r, Inr [])
      else if \<not> lastMarker r \<and> \<not> forceMarker then (r, Inl errPaddingNotOnFrameBoundary)
      else if num < 0 then (r, Inl mungerPanic)
      else
        let useLastTSForFirst = \<not> lastMarker r;
            (sn, ts, vals) = paddingLoop (nat num) 0 clockRate frameRate useLastTSForFirst
               extRtpTimestamp (extLastTS r) (extLastSN r) (extLastTS r);
            r = r\<lparr>extSecondLastSN := sn - 1, extLastSN := sn,
                  snRangeMap := DecValue (snRangeMap r) (extHighestIncomingSN r) (of_int num)\<rparr>;
            r = updateSnOffset r;
            r = r\<lparr>extSecondLastTS := (if length vals = 1 then extLastTS r
                                      else sn_extTimestamp (vals ! (length vals - 2)))\<rparr>;
            r = r\<lparr>tsOffset := tsOffset r - (ts - extLastTS r)\<rparr>;
            r = r\<lparr>extLastTS := ts\<rparr>;
            r = r\<lparr>secondLastMarker := lastMarker r\<rparr>;
            r = (if forceMarker then r\<lparr>lastMarker := True\<rparr> else r)
        in (r, Inr vals))"

definition IsOnFrameBoundary :: "RTPMunger \<Rightarrow> bool" where
  "IsOnFrameBoundary r = lastMarker r"

section \<open>Invariant\<close>

text \<open>The cached offset is the one of the range map's tail, and outgoing numbers do not wrap.\<close>

definition munger_inv :: "RTPMunger \<Rightarrow> bool" where
  "munger_inv r \<longleftrightarrow> mcore (snRangeMap r) (extHighestIncomingSN r) (snOffset r)"

definition next_out :: "RTPMunger \<Rightarrow> u64" where
  "next_out r = extHighestIncomingSN r + 1 - snOffset r"

text \<open>The next packet in order continues the outgoing numbers without a hole.\<close>

definition tight :: "RTPMunger \<Rightarrow> bool" where
  "tight r \<longleftrightarrow> next_out r = extLastSN r + 1"

section \<open>Operations\<close>

lemma updateSnOffset_core:
  assumes "mcore (snRangeMap r) (extHighestIncomingSN r) off"
  shows "updateSnOffset r = r\<lparr>snOffset := off\<rparr>"
  using mcoreD(5) [OF assms] by (simp add: updateSnOffset_def)

lemma excludeHighest_core:
  assumes "mcore (snRangeMap r) (extHighestIncomingSN r) off"
    and "open_start (snRangeMap r) \<le> extHighestIncomingSN r"
  obtains m where "excludeHighest r = r\<lparr>snRangeMap := m\<rparr>" "mcore m (extHighestIncomingSN r) (off + 1)"
  using mcore_exclude [OF assms] by (metis excludeHighest_def sum.case(2))

text \<open>The number of a packet that is in order, and the state after it.\<close>

lemma diff_in_order:
  fixes k h :: u64
  assumes "h < 2 ^ 63 - 1" "k < 2 ^ 63 - 1"
  shows "sint (k - h) = uint k - uint h"
proof -
  have "uint h < 2 ^ 63 - 1" "uint k < 2 ^ 63 - 1" "0 \<le> uint h" "0 \<le> uint k"
    using assms by (simp_all add: word_less_def)
  then have "signed_take_bit 63 (uint k - uint h) = uint k - uint h"
    by (intro signed_take_bit_int_eq_self) linarith+
  moreover have "sint (k - h) = signed_take_bit 63 (take_bit 64 (uint k - uint h))"
    by (simp add: sint_uint uint_word_ariths take_bit_eq_mod)
  ultimately show ?thesis by (simp add: signed_take_bit_take_bit)
qed

lemma updateInOrder_simps [simp]:
  "extHighestIncomingSN (fst (updateInOrder r p m ord)) = ep_ExtSequenceNumber p"
  "snRangeMap (fst (updateInOrder r p m ord)) = snRangeMap r"
  "snOffset (fst (updateInOrder r p m ord)) = snOffset r"
  "extLastSN (fst (updateInOrder r p m ord)) = ep_ExtSequenceNumber p - snOffset r"
  "extSecondLastSN (fst (updateInOrder r p m ord)) = extLastSN r"
  "tsOffset (fst (updateInOrder r p m ord)) = tsOffset r"
  "lastMarker (fst (updateInOrder r p m ord)) = m"
  "snOrdering (snd (updateInOrder r p m ord)) = ord"
  "tp_extSequenceNumber (snd (updateInOrder r p m ord)) = ep_ExtSequenceNumber p - snOffset r"
  "tp_extTimestamp (snd (updateInOrder r p m ord)) = ep_ExtTimestamp p - tsOffset r"
  by (simp_all add: updateInOrder_def Let_def)

lemma UpdateAndGetSnTs_cases:
  assumes inv: "munger_inv r" and k: "ep_ExtSequenceNumber p < 2 ^ 63 - 1"
  shows "UpdateAndGetSnTs r p m =
    (let k = ep_ExtSequenceNumber p; h = extHighestIncomingSN r in
     if k = h + 1 \<and> rtp_Payload (ep_Packet p) \<noteq> [] then
       (fst (updateInOrder r p m SequenceNumberOrderingContiguous),
        snd (updateInOrder r p m SequenceNumberOrderingContiguous), None)
     else if h + 1 < k then
       (fst (updateInOrder r p m SequenceNumberOrderingGap),
        snd (updateInOrder r p m SequenceNumberOrderingGap), None)
     else if k < h then (r, translateOutOfOrder r p)
     else if k = h + 1 then
       (updateSnOffset (excludeHighest (r\<lparr>extHighestIncomingSN := k\<rparr>)),
        tp_only SequenceNumberOrderingContiguous, Some errPaddingOnlyPacket)
     else (r, tp_only SequenceNumberOrderingDuplicate, Some errDuplicatePacket))"
proof -
  let ?k = "ep_ExtSequenceNumber p" and ?h = "extHighestIncomingSN r"
  have h: "?h < 2 ^ 63 - 1" using inv by (simp add: munger_inv_def mcore_def)
  note d = diff_in_order [OF h k]
  have c: "sint (?k - ?h) = 1 \<longleftrightarrow> ?k = ?h + 1" "1 < sint (?k - ?h) \<longleftrightarrow> ?h + 1 < ?k"
    "sint (?k - ?h) < 0 \<longleftrightarrow> ?k < ?h"
    using h k uint_ge_0 [of ?h] uint_ge_0 [of ?k]
    by (auto simp: d word_less_def word_uint_eq_iff uint_plus_if')
  have "\<not> ?h + 1 < ?h" using mcoreD(4) inv by (auto simp: munger_inv_def dest: less_asym)
  then show ?thesis by (simp add: UpdateAndGetSnTs_def Let_def c split: prod.split)
qed

text \<open>An in-order packet, with or without a gap before it.\<close>

lemma in_order_inv:
  fixes m :: bool and ord :: SequenceNumberOrdering
  assumes inv: "munger_inv r" and k: "extHighestIncomingSN r < ep_ExtSequenceNumber p"
    and b: "unat (ep_ExtSequenceNumber p) + unat (next_out r) < 2 ^ 63 - 1"
  defines "r' \<equiv> fst (updateInOrder r p m ord)"
  shows "munger_inv r' \<and> tight r' \<and> next_out r \<le> extLastSN r' \<and> extLastSN r' < next_out r'"
proof -
  let ?k = "ep_ExtSequenceNumber p" and ?h = "extHighestIncomingSN r"
  have "mcore (snRangeMap r) ?k (snOffset r)"
    using mcore_advance [of _ ?h "snOffset r" ?k] inv k b by (simp add: munger_inv_def next_out_def)
  moreover have "next_out r \<le> ?k - snOffset r" "?k - snOffset r < ?k - snOffset r + 1"
  proof -
    have "?h + 1 \<le> ?k" using k by (rule inc_le)
    then have "unat (?k - (?h + 1)) = unat ?k - unat (?h + 1)" by (rule unat_sub)
    then have "unat (next_out r + (?k - (?h + 1))) = unat (next_out r) + (unat ?k - unat (?h + 1))"
      using b by (subst unat_add_u64) simp_all
    moreover have "?k - snOffset r = next_out r + (?k - (?h + 1))" by (simp add: next_out_def)
    ultimately have u: "unat (?k - snOffset r) = unat (next_out r) + (unat ?k - unat (?h + 1))"
      by (simp only:)
    then show "next_out r \<le> ?k - snOffset r" by (simp only: word_le_nat_alt)
    have "unat (?k - snOffset r) < 2 ^ 63" using u b by simp
    then show "?k - snOffset r < ?k - snOffset r + 1"
      using unat_add_u64 [of "?k - snOffset r" 1] by (simp add: word_less_nat_alt)
  qed
  ultimately show ?thesis by (simp add: r'_def munger_inv_def tight_def next_out_def algebra_simps)
qed

text \<open>Dropping the packet just translated takes its number back.\<close>

lemma PacketDropped_contiguous:
  fixes m :: bool and ord :: SequenceNumberOrdering
  assumes inv: "munger_inv r" and k: "ep_ExtSequenceNumber p = extHighestIncomingSN r + 1"
    and b: "unat (ep_ExtSequenceNumber p) + unat (next_out r) < 2 ^ 63 - 1"
  defines "r' \<equiv> PacketDropped (fst (updateInOrder r p m ord)) p"
  shows "munger_inv r' \<and> extLastSN r' = extLastSN r \<and> next_out r' = next_out r"
proof -
  let ?k = "ep_ExtSequenceNumber p" and ?h = "extHighestIncomingSN r"
  define r1 where "r1 = fst (updateInOrder r p m ord)"
  have D: "?h < ?h + 1" "open_start (snRangeMap r) \<le> ?h + 1"
    using mcoreD(4) inv by (auto simp: munger_inv_def mcore_def)
  have "munger_inv r1" using in_order_inv [OF inv _ b] D k by (simp add: r1_def)
  then have c1: "mcore (snRangeMap r1) (extHighestIncomingSN r1) (snOffset r)"
    by (simp add: munger_inv_def r1_def)
  have o1: "open_start (snRangeMap r1) \<le> extHighestIncomingSN r1" using D k by (simp add: r1_def)
  obtain m' where x: "excludeHighest r1 = r1\<lparr>snRangeMap := m'\<rparr>"
    and c2: "mcore m' (extHighestIncomingSN r1) (snOffset r + 1)"
    using excludeHighest_core [OF c1 o1] by blast
  define r2 where "r2 = r1\<lparr>snRangeMap := m', extLastSN := extSecondLastSN r1\<rparr>"
  have "updateSnOffset r2 = r2\<lparr>snOffset := snOffset r + 1\<rparr>"
    using c2 by (intro updateSnOffset_core) (simp add: r2_def)
  moreover have "r' = (updateSnOffset r2)\<lparr>extLastTS := extSecondLastTS (updateSnOffset r2),
      lastMarker := secondLastMarker (updateSnOffset r2)\<rparr>"
    by (simp add: r'_def PacketDropped_def r1_def [symmetric] x r2_def Let_def)
      (simp add: r1_def)
  ultimately show ?thesis
    using c2 k by (simp add: munger_inv_def r2_def r1_def next_out_def)
qed

lemma padding_only_inv:
  assumes inv: "munger_inv r" and k: "ep_ExtSequenceNumber p = extHighestIncomingSN r + 1"
    and b: "unat (ep_ExtSequenceNumber p) + unat (next_out r) < 2 ^ 63 - 1"
  defines "r' \<equiv> updateSnOffset (excludeHighest (r\<lparr>extHighestIncomingSN := ep_ExtSequenceNumber p\<rparr>))"
  shows "munger_inv r' \<and> extLastSN r' = extLastSN r \<and> next_out r' = next_out r"
proof -
  let ?k = "ep_ExtSequenceNumber p" and ?h = "extHighestIncomingSN r"
  define r1 where "r1 = r\<lparr>extHighestIncomingSN := ?k\<rparr>"
  have D: "?h \<le> ?k" "open_start (snRangeMap r) \<le> ?k"
    using mcoreD(4) inv k by (force simp: munger_inv_def mcore_def)+
  have c1: "mcore (snRangeMap r1) (extHighestIncomingSN r1) (snOffset r)"
    using mcore_advance [of _ ?h "snOffset r" ?k] inv D b by (simp add: munger_inv_def next_out_def r1_def)
  have o1: "open_start (snRangeMap r1) \<le> extHighestIncomingSN r1" using D by (simp add: r1_def)
  obtain m' where x: "excludeHighest r1 = r1\<lparr>snRangeMap := m'\<rparr>"
    and c2: "mcore m' (extHighestIncomingSN r1) (snOffset r + 1)"
    using excludeHighest_core [OF c1 o1] by blast
  have "updateSnOffset (r1\<lparr>snRangeMap := m'\<rparr>) = r1\<lparr>snRangeMap := m', snOffset := snOffset r + 1\<rparr>"
    using updateSnOffset_core [of "r1\<lparr>snRangeMap := m'\<rparr>"] c2 by simp
  then have "r' = r1\<lparr>snRangeMap := m', snOffset := snOffset r + 1\<rparr>"
    unfolding r'_def r1_def [symmetric] x .
  then show ?thesis using c2 k by (simp add: r1_def munger_inv_def next_out_def)
qed

lemma SetLastSnTs_inv:
  assumes "munger_inv r" "0 < ep_ExtSequenceNumber p" "ep_ExtSequenceNumber p < 2 ^ 63 - 1"
  defines "r' \<equiv> SetLastSnTs r p"
  shows "munger_inv r' \<and> next_out r' = ep_ExtSequenceNumber p \<and>
    extLastSN r' = ep_ExtSequenceNumber p \<and>
    extHighestIncomingSN r' = ep_ExtSequenceNumber p - 1 \<and> snOffset r' = 0"
proof -
  let ?k = "ep_ExtSequenceNumber p"
  have "?k - 0 \<le> 2 ^ 63" using assms(3) by (simp add: word_le_nat_alt word_less_nat_alt)
  then have "mcore (ClearAndResetValue (snRangeMap r) ?k 0) (?k - 1) 0"
    using assms by (intro mcore_reset) (simp_all add: munger_inv_def mcore_def)
  then show ?thesis
    by (simp add: r'_def SetLastSnTs_def Let_def updateSnOffset_core munger_inv_def next_out_def)
qed

lemma UpdateSnTsOffsets_inv:
  fixes ts :: u64
  assumes "munger_inv r" "0 < ep_ExtSequenceNumber p" "ep_ExtSequenceNumber p < 2 ^ 63 - 1"
    and "extLastSN r < 2 ^ 63 - 1"
  defines "r' \<equiv> UpdateSnTsOffsets r p 1 ts"
  shows "munger_inv r' \<and> tight r' \<and> extLastSN r' = extLastSN r \<and>
    extHighestIncomingSN r' = ep_ExtSequenceNumber p - 1"
proof -
  let ?k = "ep_ExtSequenceNumber p" and ?v = "ep_ExtSequenceNumber p - extLastSN r - 1"
  have "?k - ?v \<le> 2 ^ 63" using assms(4) by (simp add: word_nat)
  then have "mcore (ClearAndResetValue (snRangeMap r) ?k ?v) (?k - 1) ?v"
    using assms by (intro mcore_reset) (simp_all add: munger_inv_def mcore_def)
  then show ?thesis
    by (simp add: r'_def UpdateSnTsOffsets_def Let_def updateSnOffset_core munger_inv_def
        next_out_def tight_def)
qed

subsection \<open>Padding\<close>

lemma paddingLoop_sn:
  assumes "paddingLoop n i c f u e ts0 sn ts = (sn', ts', vals)"
  shows "sn' = sn + of_nat n \<and> length vals = n \<and>
    map sn_extSequenceNumber vals = map (\<lambda>j. sn + 1 + of_nat j) [0..<n]"
  using assms
proof (induction n arbitrary: i sn ts vals sn' ts')
  case (Suc n)
  from Suc.prems obtain ts1 v vals1 where
    rec: "paddingLoop n (i + 1) c f u e ts0 (sn + 1) ts1 = (sn', ts', vals1)"
    and vals: "vals = \<lparr>sn_extSequenceNumber = sn + 1, sn_extTimestamp = v\<rparr> # vals1"
    by (auto simp: Let_def split: prod.splits)
  have "map (\<lambda>j. sn + 1 + of_nat j) [0..<Suc n] =
      (sn + 1) # map (\<lambda>j. sn + 1 + 1 + of_nat j) [0..<n]"
    by (simp add: upt_conv_Cons map_Suc_upt [symmetric] del: upt_Suc)
  then show ?case using Suc.IH [OF rec] vals by (simp del: upt_Suc)
qed simp

definition ts_after :: "u64 \<Rightarrow> u64 \<Rightarrow> bool" where
  "ts_after a b \<longleftrightarrow> 0 < sint (b - a)"

lemma ts_after_next: "ts_after ts (if sint (x - ts) \<le> 0 then ts + 1 else x)"
  by (simp add: ts_after_def)

lemma paddingLoop_ts:
  assumes "paddingLoop n i c f u e ts0 sn ts = (sn', ts', vals)" "f \<noteq> 0" "\<not> (u \<and> i = 0)"
  shows "successively ts_after (ts # map sn_extTimestamp vals) \<and>
    ts' = last (ts # map sn_extTimestamp vals)"
  using assms(1,3)
proof (induction n arbitrary: i sn ts vals sn' ts')
  case (Suc n)
  define ets where "ets = e + frameTime i (if u then 1 else 0) c f"
  define v where "v = (if sint (ets - ts) \<le> 0 then ts + 1 else ets)"
  obtain sn1 ts1 vals1 where rec: "paddingLoop n (Suc i) c f u e ts0 (sn + 1) v = (sn1, ts1, vals1)"
    by (metis prod_cases3)
  have "paddingLoop (Suc n) i c f u e ts0 sn ts =
      (sn1, ts1, \<lparr>sn_extSequenceNumber = sn + 1, sn_extTimestamp = v\<rparr> # vals1)"
    using Suc.prems(2) assms(2) rec
    by (cases "u \<and> i = 0") (auto simp: Let_def ets_def [symmetric] v_def [symmetric])
  then have vals: "vals = \<lparr>sn_extSequenceNumber = sn + 1, sn_extTimestamp = v\<rparr> # vals1"
    and "ts' = ts1" using Suc.prems(1) by simp_all
  have "ts_after ts v" unfolding v_def by (rule ts_after_next)
  then show ?case using Suc.IH [OF rec] vals \<open>ts' = ts1\<close> by simp
qed simp

lemma paddingLoop_first:
  assumes "paddingLoop n 0 c f u e ts0 sn ts0 = (sn', ts', vals)" "f \<noteq> 0" "n \<noteq> 0"
  shows "successively ts_after (map sn_extTimestamp vals) \<and> ts' = last (map sn_extTimestamp vals) \<and>
    (if u then sn_extTimestamp (hd vals) = ts0 else ts_after ts0 (sn_extTimestamp (hd vals)))"
proof (cases u)
  case True
  obtain k where n: "n = Suc k" using assms(3) not0_implies_Suc by blast
  then obtain vals1 where rec: "paddingLoop k 1 c f u e ts0 (sn + 1) ts0 = (sn', ts', vals1)"
    and vals: "vals = \<lparr>sn_extSequenceNumber = sn + 1, sn_extTimestamp = ts0\<rparr> # vals1"
    using assms True by (auto simp: Let_def split: prod.splits)
  show ?thesis using paddingLoop_ts [OF rec assms(2)] vals True by simp
next
  case False
  have "vals \<noteq> []" using paddingLoop_sn [OF assms(1)] assms(3) by auto
  then show ?thesis
    using paddingLoop_ts [OF assms(1,2)] False by (cases vals) auto
qed

text \<open>What a padding request that is granted does to the munger.\<close>

lemma padding_unfold:
  assumes "UpdateAndGetPaddingSnTs r num c f fm e = (r', Inr vals)" "num \<noteq> 0"
  obtains ts where "0 < num" "lastMarker r \<or> fm"
    "paddingLoop (nat num) 0 c f (\<not> lastMarker r) e (extLastTS r) (extLastSN r) (extLastTS r) =
      (extLastSN r + of_nat (nat num), ts, vals)"
    "snRangeMap r' = DecValue (snRangeMap r) (extHighestIncomingSN r) (of_nat (nat num))"
    "extHighestIncomingSN r' = extHighestIncomingSN r" "extLastSN r' = extLastSN r + of_nat (nat num)"
    "snOffset r' = (case GetValue (snRangeMap r') (extHighestIncomingSN r + 1) of Inr v \<Rightarrow> v | Inl _ \<Rightarrow> 0)"
    "extLastTS r' = ts" "tsOffset r' = tsOffset r - (ts - extLastTS r)" "lastMarker r'"
proof -
  obtain sn ts vs where p: "paddingLoop (nat num) 0 c f (\<not> lastMarker r) e (extLastTS r) (extLastSN r)
      (extLastTS r) = (sn, ts, vs)" by (metis prod_cases3)
  have sn: "sn = extLastSN r + of_nat (nat num)" using paddingLoop_sn [OF p] by simp
  have num: "0 < num" and fm: "lastMarker r \<or> fm" and vs: "vs = vals"
    using assms p by (auto simp: UpdateAndGetPaddingSnTs_def Let_def split: if_splits)
  define R where "R = fst (UpdateAndGetPaddingSnTs r num c f fm e)"
  have R: "r' = R" using assms(1) by (simp add: R_def)
  note defs = R_def UpdateAndGetPaddingSnTs_def Let_def updateSnOffset_def
  have "(of_int num :: u64) = of_nat (nat num)" using num by simp
  note s = num fm p this
  have m: "snRangeMap R = DecValue (snRangeMap r) (extHighestIncomingSN r) (of_nat (nat num))"
    using s by (auto simp: defs)
  moreover have "extHighestIncomingSN R = extHighestIncomingSN r" using s by (auto simp: defs)
  moreover have "extLastSN R = sn" using s by (auto simp: defs)
  moreover have "snOffset R =
      (case GetValue (snRangeMap R) (extHighestIncomingSN r + 1) of Inr v \<Rightarrow> v | Inl _ \<Rightarrow> 0)"
    unfolding m using s by (auto simp: defs)
  moreover have "extLastTS R = ts" using s by (auto simp: defs)
  moreover have "tsOffset R = tsOffset r - (ts - extLastTS r)" using s by (auto simp: defs)
  moreover have "lastMarker R" using s by (auto simp: defs)
  ultimately show ?thesis using p num fm sn vs by (intro that [of ts]) (simp_all add: R)
qed

lemma padding_inv:
  assumes inv: "munger_inv r" and ok: "UpdateAndGetPaddingSnTs r num c f fm e = (r', Inr vals)" "num \<noteq> 0"
    and b: "unat (next_out r) + nat num < 2 ^ 63"
  shows "munger_inv r' \<and> next_out r' = next_out r + of_nat (nat num)"
proof -
  let ?d = "of_nat (nat num) :: u64"
  obtain ts where p: "snRangeMap r' = DecValue (snRangeMap r) (extHighestIncomingSN r) ?d"
    "extHighestIncomingSN r' = extHighestIncomingSN r"
    "snOffset r' = (case GetValue (snRangeMap r') (extHighestIncomingSN r + 1) of Inr v \<Rightarrow> v | Inl _ \<Rightarrow> 0)"
    using padding_unfold [OF ok] by metis
  have "unat ?d = nat num" using b by (simp add: unat_of_nat)
  then have c: "mcore (snRangeMap r') (extHighestIncomingSN r') (snOffset r - ?d)"
    using mcore_dec [of _ _ "snOffset r" ?d] inv b p by (simp add: munger_inv_def next_out_def)
  then have "snOffset r' = snOffset r - ?d" using p mcoreD(5) [OF c] by simp
  then show ?thesis using c p by (simp add: munger_inv_def next_out_def)
qed

section \<open>Runs\<close>

text \<open>
  What the forwarder does with a munger. It is started by the first packet
  (\<open>processSourceSwitch\<close>, whose packet is then translated) or, for padding before any packet, by
  \<open>maybeStart\<close>. After that a source switch re-bases it with \<open>snAdjust = 1\<close>; a packet is
  translated and then sent, discarded, or, when it was contiguous and is filtered, rolled back
  by \<open>PacketDropped\<close>; padding takes numbers of its own.
\<close>

datatype disposition = Sent | Discarded | RolledBack

datatype mungerEvent =
    Switch ExtPacket u64
  | Incoming ExtPacket bool disposition
  | Padding int u32 u32 bool u64

text \<open>The state after an event and the sequence numbers that leave in order.\<close>

fun munger_exec :: "RTPMunger \<Rightarrow> mungerEvent \<Rightarrow> RTPMunger \<times> u64 list" where
  "munger_exec r (Switch p ts) = (UpdateSnTsOffsets r p 1 ts, [])"
| "munger_exec r (Incoming p m d) =
     (case UpdateAndGetSnTs r p m of
        (r, tp, Some _) \<Rightarrow> (r, [])
      | (r, tp, None) \<Rightarrow>
          if snOrdering tp = SequenceNumberOrderingOutOfOrder then (r, [])
          else if d = RolledBack \<and> snOrdering tp = SequenceNumberOrderingContiguous
          then (PacketDropped r p, [])
          else (r, if d = Sent then [tp_extSequenceNumber tp] else []))"
| "munger_exec r (Padding num c f fm e) =
     (case UpdateAndGetPaddingSnTs r num c f fm e of
        (r, Inl _) \<Rightarrow> (r, []) | (r, Inr vals) \<Rightarrow> (r, map sn_extSequenceNumber vals))"

text \<open>Sequence numbers stay far below the end of \<open>uint64\<close>, and packets follow a start or a switch.\<close>

fun munger_ok :: "RTPMunger \<Rightarrow> mungerEvent \<Rightarrow> bool" where
  "munger_ok r (Switch p ts) \<longleftrightarrow> 0 < ep_ExtSequenceNumber p \<and> ep_ExtSequenceNumber p < 2 ^ 63 - 1 \<and>
     extLastSN r < 2 ^ 63 - 1"
| "munger_ok r (Incoming p m d) \<longleftrightarrow> tight r \<and>
     uint (ep_ExtSequenceNumber p) + uint (next_out r) < 2 ^ 63 - 1"
| "munger_ok r (Padding num c f fm e) \<longleftrightarrow> 0 \<le> num \<and> uint (next_out r) + num < 2 ^ 63"

lemma munger_ok_unat:
  "munger_ok r (Incoming p m d) \<Longrightarrow> unat (ep_ExtSequenceNumber p) + unat (next_out r) < 2 ^ 63 - 1"
  "munger_ok r (Padding num c f fm e) \<Longrightarrow> unat (next_out r) + nat num < 2 ^ 63"
proof -
  assume "munger_ok r (Incoming p m d)"
  then show "unat (ep_ExtSequenceNumber p) + unat (next_out r) < 2 ^ 63 - 1"
    by (intro uint_sum_unat) simp
next
  assume "munger_ok r (Padding num c f fm e)"
  then have "0 \<le> num" "uint (next_out r) + num < 9223372036854775808" by simp_all
  then have "unat (next_out r) + nat num < 9223372036854775808"
    using uint_ge_0 [of "next_out r"] unfolding unat_eq_nat_uint by linarith
  then show "unat (next_out r) + nat num < 2 ^ 63" by simp
qed

fun munger_run :: "RTPMunger \<Rightarrow> mungerEvent list \<Rightarrow> (RTPMunger \<times> u64 list) option" where
  "munger_run r [] = Some (r, [])"
| "munger_run r (e # es) =
     (if munger_ok r e
      then case munger_exec r e of (r1, out1) \<Rightarrow>
        (case munger_run r1 es of None \<Rightarrow> None | Some (r2, out2) \<Rightarrow> Some (r2, out1 @ out2))
      else None)"

text \<open>The two ways to start: a munger that has started and the numbers it sent so far.\<close>

inductive munger_started :: "RTPMunger \<Rightarrow> u64 list \<Rightarrow> bool" where
  first_packet: "0 < ep_ExtSequenceNumber p \<Longrightarrow> ep_ExtSequenceNumber p < 2 ^ 61 \<Longrightarrow>
    rtp_Payload (ep_Packet p) \<noteq> [] \<Longrightarrow>
    UpdateAndGetSnTs (SetLastSnTs NewRTPMunger p) p m = (r, tp, None) \<Longrightarrow>
    munger_started r [tp_extSequenceNumber tp]"
| dummy: "0 < ep_ExtSequenceNumber p \<Longrightarrow> ep_ExtSequenceNumber p < 2 ^ 61 \<Longrightarrow>
    munger_started (SetLastSnTs NewRTPMunger p) []"

text \<open>
  The invariant of a run: \<open>out\<close> are the numbers sent so far. Only before the first packet may the
  last number be the next one.
\<close>

definition run_inv :: "RTPMunger \<Rightarrow> u64 list \<Rightarrow> bool" where
  "run_inv r out \<longleftrightarrow> munger_inv r \<and> extLastSN r \<le> next_out r \<and>
     sorted_wrt (<) out \<and> (\<forall>x\<in>set out. x \<le> extLastSN r)"

lemma NewRTPMunger_inv: "munger_inv NewRTPMunger"
  using rm_reachable.new [of 100]
  by (simp add: munger_inv_def mcore_def NewRTPMunger_def)
    (simp add: NewRangeMap_def initRanges_def)

lemma tight_less: "extLastSN r \<le> next_out r \<Longrightarrow> tight r \<Longrightarrow> extLastSN r < next_out r"
  using le_neq_trans [of "extLastSN r" "next_out r"] by (simp add: tight_def)

text \<open>The numbers of a run of padding follow the last number.\<close>

lemma consecutive_sorted:
  fixes a :: u64
  assumes "unat a + n < 2 ^ 64"
  shows "sorted_wrt (<) (map (\<lambda>j. a + 1 + of_nat j) [0..<n])"
    "\<forall>x\<in>set (map (\<lambda>j. a + 1 + of_nat j) [0..<n]). a < x \<and> x \<le> a + of_nat n"
    "a \<le> a + of_nat n"
proof -
  have u: "unat (a + 1 + of_nat j) = unat a + 1 + j" if "j < n" for j
  proof -
    have e: "a + 1 + of_nat j = a + of_nat (Suc j)" by simp
    have "unat (of_nat (Suc j) :: u64) = Suc j" using that assms by (simp add: unat_of_nat del: of_nat_Suc)
    then show ?thesis unfolding e using that assms by (subst unat_add_u64) simp_all
  qed
  have un: "unat (a + of_nat n) = unat a + n"
    using assms by (subst unat_add_u64) (simp_all add: unat_of_nat)
  show "sorted_wrt (<) (map (\<lambda>j. a + 1 + of_nat j) [0..<n])"
    using u by (auto simp: sorted_wrt_iff_nth_less word_less_nat_alt)
  show "\<forall>x\<in>set (map (\<lambda>j. a + 1 + of_nat j) [0..<n]). a < x \<and> x \<le> a + of_nat n"
    using u un by (auto simp: word_less_nat_alt word_le_nat_alt)
  show "a \<le> a + of_nat n" using un by (simp add: word_le_nat_alt)
qed

lemma sorted_append_above:
  assumes "sorted_wrt (<) out" "sorted_wrt (<) vs" "\<forall>x\<in>set out. x \<le> a"
    and "\<forall>x\<in>set vs. a < x \<and> x \<le> b" "a \<le> b"
  shows "sorted_wrt (<) (out @ vs) \<and> (\<forall>x\<in>set (out @ vs). x \<le> (b :: u64))"
  using assms by (auto simp: sorted_wrt_append dest: le_less_trans order_trans)

text \<open>What an incoming packet does, by its position relative to the highest number.\<close>

lemma Incoming_cases:
  assumes inv: "munger_inv r" and b: "unat (ep_ExtSequenceNumber p) + unat (next_out r) < 2 ^ 63 - 1"
    and x: "munger_exec r (Incoming p m d) = (r', out')"
  obtains (rolled) "ep_ExtSequenceNumber p = extHighestIncomingSN r + 1" "out' = []"
      "r' = PacketDropped (fst (updateInOrder r p m SequenceNumberOrderingContiguous)) p"
  | (in_order) ord where "extHighestIncomingSN r < ep_ExtSequenceNumber p"
      "r' = fst (updateInOrder r p m ord)"
      "out' = (if d = Sent then [ep_ExtSequenceNumber p - snOffset r] else [])" "d = RolledBack \<longrightarrow> ord = SequenceNumberOrderingGap"
      "ord = SequenceNumberOrderingGap \<longrightarrow> extHighestIncomingSN r + 1 < ep_ExtSequenceNumber p"
  | (padding_only) "ep_ExtSequenceNumber p = extHighestIncomingSN r + 1" "out' = []"
      "r' = updateSnOffset (excludeHighest (r\<lparr>extHighestIncomingSN := ep_ExtSequenceNumber p\<rparr>))"
  | (late) "ep_ExtSequenceNumber p \<le> extHighestIncomingSN r" "r' = r" "out' = []"
proof -
  let ?k = "ep_ExtSequenceNumber p" and ?h = "extHighestIncomingSN r"
  let ?u = "\<lambda>o'. (fst (updateInOrder r p m o'), snd (updateInOrder r p m o'), None)"
  have k: "?k < 2 ^ 63 - 1" using b by (simp add: word_less_nat_alt)
  note U = UpdateAndGetSnTs_cases [OF inv k, of m, unfolded Let_def]
  have h1: "?h < ?h + 1" "\<not> ?h + 1 < ?h" using mcoreD(4) inv by (auto simp: munger_inv_def dest: less_asym)
  consider "?k = ?h + 1" "rtp_Payload (ep_Packet p) \<noteq> []" | "?h + 1 < ?k"
    | "?k = ?h + 1" "rtp_Payload (ep_Packet p) = []" | "?k \<le> ?h"
    by (metis inc_le le_less_linear le_neq_trans)
  then show ?thesis
  proof cases
    case 1
    then have "UpdateAndGetSnTs r p m = ?u SequenceNumberOrderingContiguous" by (simp add: U)
    then show ?thesis
      using x 1 h1 rolled in_order [of SequenceNumberOrderingContiguous] by (cases "d = RolledBack") auto
  next
    case 2
    then have "UpdateAndGetSnTs r p m = ?u SequenceNumberOrderingGap" by (auto simp: U)
    moreover have "?h < ?k" using 2 h1 by simp
    ultimately show ?thesis using x 2 in_order [of SequenceNumberOrderingGap] by auto
  next
    case 3
    then have "UpdateAndGetSnTs r p m = (updateSnOffset (excludeHighest (r\<lparr>extHighestIncomingSN := ?k\<rparr>)),
        tp_only SequenceNumberOrderingContiguous, Some errPaddingOnlyPacket)" using h1 by (simp add: U)
    then show ?thesis using x 3 padding_only by auto
  next
    case 4
    then have "r' = r \<and> out' = []"
      using x h1 by (auto simp: U translateOutOfOrder_def Let_def tp_only_def split: if_splits sum.splits)
    then show ?thesis using 4 late by blast
  qed
qed

text \<open>An incoming packet keeps the invariant; only one that is sent after others needs the outgoing numbers to be tight.\<close>

lemma run_inv_incoming:
  assumes inv: "run_inv r out" and b: "unat (ep_ExtSequenceNumber p) + unat (next_out r) < 2 ^ 63 - 1"
    and t: "d = Sent \<Longrightarrow> tight r \<or> out = []" and x: "munger_exec r (Incoming p m d) = (r', out')"
  shows "run_inv r' (out @ out') \<and> extLastSN r \<le> extLastSN r' \<and> (tight r \<or> out' \<noteq> [] \<longrightarrow> tight r')"
proof -
  let ?k = "ep_ExtSequenceNumber p" and ?h = "extHighestIncomingSN r"
  have I: "munger_inv r" and le: "extLastSN r \<le> next_out r" using inv by (simp_all add: run_inv_def)
  have keep: "run_inv r' (out @ []) \<and> extLastSN r \<le> extLastSN r' \<and> (tight r \<longrightarrow> tight r')"
    if "munger_inv r' \<and> extLastSN r' = extLastSN r \<and> next_out r' = next_out r"
    using that inv by (simp add: run_inv_def tight_def)
  show ?thesis
  proof (rule Incoming_cases [OF I b x])
    fix o' assume a: "?h < ?k" "r' = fst (updateInOrder r p m o')"
      "out' = (if d = Sent then [?k - snOffset r] else [])"
    note J = in_order_inv [OF I a(1) b, of m o']
    have "extLastSN r \<le> ?k - snOffset r" "d = Sent \<Longrightarrow> out \<noteq> [] \<Longrightarrow> extLastSN r < ?k - snOffset r"
      using le J tight_less [OF le] t by auto
    then show ?thesis
      using J inv a sorted_append_above [of out out' "extLastSN r" "?k - snOffset r"]
      by (cases "out = []") (auto simp: run_inv_def)
  qed (use keep inv PacketDropped_contiguous [OF I _ b] padding_only_inv [OF I _ b] in auto)
qed

text \<open>Padding continues the numbers.\<close>

lemma run_inv_padding:
  assumes inv: "run_inv r out" and bd: "unat (next_out r) + nat num < 2 ^ 63" and num: "0 \<le> num"
    and x: "munger_exec r (Padding num c f fm e) = (r', out')"
  shows "run_inv r' (out @ out') \<and> extLastSN r \<le> extLastSN r' \<and> (tight r \<longrightarrow> tight r')"
proof -
  obtain q where q: "UpdateAndGetPaddingSnTs r num c f fm e = q" by simp
  show ?thesis
  proof (cases "\<exists>vals. snd q = Inr vals \<and> num \<noteq> 0")
    case False
    then have "r' = r \<and> out' = []"
      using x q num
      by (auto simp: UpdateAndGetPaddingSnTs_def Let_def split: if_splits prod.splits)
    then show ?thesis using inv by simp
  next
    case True
    then obtain vals where v: "UpdateAndGetPaddingSnTs r num c f fm e = (r', Inr vals)" "num \<noteq> 0"
      and out': "out' = map sn_extSequenceNumber vals"
      using x q by (auto split: prod.splits sum.splits)
    let ?n = "nat num"
    obtain ts where l: "extLastSN r' = extLastSN r + of_nat ?n"
      and p: "paddingLoop ?n 0 c f (\<not> lastMarker r) e (extLastTS r) (extLastSN r) (extLastTS r) =
        (extLastSN r + of_nat ?n, ts, vals)"
      using padding_unfold [OF v] by metis
    have vs: "out' = map (\<lambda>j. extLastSN r + 1 + of_nat j) [0..<?n]"
      using paddingLoop_sn [OF p] out' by simp
    have I: "munger_inv r'" "next_out r' = next_out r + of_nat ?n"
      using padding_inv [OF _ v bd] inv by (simp_all add: run_inv_def)
    have le: "extLastSN r \<le> next_out r" using inv by (simp add: run_inv_def)
    have b: "unat (extLastSN r) + ?n < 2 ^ 64" "unat (next_out r) + ?n < 2 ^ 63"
      using le bd by (auto simp: word_le_nat_alt)
    have "unat (of_nat ?n :: u64) = ?n" using b by (simp add: unat_of_nat)
    then have "extLastSN r' \<le> next_out r'"
      unfolding l I(2) word_le_nat_alt using b le
      by (subst (1 2) unat_add_u64) (simp_all add: word_le_nat_alt)
    then show ?thesis
      using consecutive_sorted [OF b(1)] inv I
        sorted_append_above [of out out' "extLastSN r" "extLastSN r'"]
      by (simp add: run_inv_def vs l tight_def)
  qed
qed

lemma run_inv_step:
  assumes inv: "run_inv r out" and ok: "munger_ok r e" and x: "munger_exec r e = (r', out')"
  shows "run_inv r' (out @ out') \<and> extLastSN r \<le> extLastSN r'"
proof (cases e)
  case (Switch p ts)
  then show ?thesis
    using UpdateSnTsOffsets_inv [of r p ts] inv ok x
    by (auto simp: run_inv_def tight_def word_nat)
next
  case (Padding num c f fm e)
  then show ?thesis
    using run_inv_padding [OF inv munger_ok_unat(2) [OF ok [unfolded Padding]] _ x [unfolded Padding]] ok by simp
next
  case (Incoming p m d)
  then show ?thesis
    using run_inv_incoming [OF inv munger_ok_unat(1) [OF ok [unfolded Incoming]] _ x [unfolded Incoming]] ok by simp
qed

lemma run_inv_run:
  assumes "munger_run r es = Some (r', out')" "run_inv r out"
  shows "run_inv r' (out @ out')"
  using assms
proof (induction es arbitrary: r out out')
  case (Cons e es)
  then obtain r1 out1 out2 where x: "munger_exec r e = (r1, out1)" and ok: "munger_ok r e"
    and rest: "munger_run r1 es = Some (r', out2)" and out': "out' = out1 @ out2"
    by (auto split: if_splits prod.splits option.splits)
  have "run_inv r1 (out @ out1)" using run_inv_step [OF Cons.prems(2) ok x] by blast
  from Cons.IH [OF rest this] show ?case by (simp add: out')
qed simp

lemma first_packet_exec:
  assumes "0 < ep_ExtSequenceNumber p" "ep_ExtSequenceNumber p < 2 ^ 61"
    "rtp_Payload (ep_Packet p) \<noteq> []"
  defines "r0 \<equiv> SetLastSnTs NewRTPMunger p"
  shows "UpdateAndGetSnTs r0 p m = (fst (updateInOrder r0 p m SequenceNumberOrderingContiguous),
      snd (updateInOrder r0 p m SequenceNumberOrderingContiguous), None)"
    and "run_inv (fst (updateInOrder r0 p m SequenceNumberOrderingContiguous)) [ep_ExtSequenceNumber p]"
    and "tight (fst (updateInOrder r0 p m SequenceNumberOrderingContiguous))"
    and "run_inv r0 []" "snOffset r0 = 0"
proof -
  let ?k = "ep_ExtSequenceNumber p"
  have k: "?k < 2 ^ 63 - 1" "unat ?k < 2 ^ 61" using assms(2) by (simp_all add: word_less_nat_alt)
  have s: "munger_inv r0" "next_out r0 = ?k" "extLastSN r0 = ?k" "extHighestIncomingSN r0 = ?k - 1"
    "snOffset r0 = 0"
    using SetLastSnTs_inv [OF NewRTPMunger_inv assms(1) k(1)] by (simp_all add: r0_def)
  have lt: "extHighestIncomingSN r0 < ?k" using assms(1) s(4) by (simp add: word_nat)
  have b: "unat ?k + unat (next_out r0) < 2 ^ 63 - 1" using k(2) s(2) by simp
  show "UpdateAndGetSnTs r0 p m = (fst (updateInOrder r0 p m SequenceNumberOrderingContiguous),
      snd (updateInOrder r0 p m SequenceNumberOrderingContiguous), None)"
    using UpdateAndGetSnTs_cases [OF s(1) k(1), of m] s(4) assms(3) by simp
  show "run_inv r0 []" "snOffset r0 = 0" using s by (simp_all add: run_inv_def)
  note J = in_order_inv [OF s(1) lt b, of m SequenceNumberOrderingContiguous]
  then show "run_inv (fst (updateInOrder r0 p m SequenceNumberOrderingContiguous)) [?k]"
    and "tight (fst (updateInOrder r0 p m SequenceNumberOrderingContiguous))"
    using s(5) by (auto simp: run_inv_def)
qed

lemma started_run_inv: "munger_started r out \<Longrightarrow> run_inv r out"
proof (induction rule: munger_started.induct)
  case (first_packet p m r tp)
  note F = first_packet_exec [OF first_packet(1-3)]
  then have "r = fst (updateInOrder (SetLastSnTs NewRTPMunger p) p m SequenceNumberOrderingContiguous)"
    "tp_extSequenceNumber tp = ep_ExtSequenceNumber p" using first_packet(4) by auto
  then show ?case using F(2) by simp
next
  case (dummy p)
  have "ep_ExtSequenceNumber p < 2 ^ 63 - 1" using dummy(2) by (simp add: word_less_nat_alt)
  then show ?case using SetLastSnTs_inv [OF NewRTPMunger_inv dummy(1)] by (simp add: run_inv_def)
qed

subsection \<open>Runs without gaps\<close>

text \<open>No incoming packet leaves a gap and every translated packet is sent or rolled back.\<close>

fun gapless :: "RTPMunger \<Rightarrow> mungerEvent list \<Rightarrow> bool" where
  "gapless r [] \<longleftrightarrow> True"
| "gapless r (e # es) \<longleftrightarrow>
     (case e of Incoming p m d \<Rightarrow> ep_ExtSequenceNumber p \<le> extHighestIncomingSN r + 1 \<and> d \<noteq> Discarded
      | _ \<Rightarrow> True) \<and> gapless (fst (munger_exec r e)) es"

definition consecutive :: "u64 \<Rightarrow> u64 list \<Rightarrow> bool" where
  "consecutive a out \<longleftrightarrow> out = map (\<lambda>j. a + 1 + of_nat j) [0..<length out]"

lemma consecutive_append:
  assumes "consecutive a xs" "consecutive (a + of_nat (length xs)) ys"
  shows "consecutive a (xs @ ys)"
proof -
  have "map (\<lambda>j. a + 1 + of_nat j) [length xs..<length xs + length ys] =
      map (\<lambda>j. a + of_nat (length xs) + 1 + of_nat j) [0..<length ys]"
    by (rule nth_equalityI) (simp_all add: algebra_simps)
  then show ?thesis
    using assms unfolding consecutive_def
    by (simp add: upt_add_eq_append [of 0 "length xs" "length ys"])
qed

lemma exec_consecutive:
  assumes inv: "run_inv r out" and ok: "munger_ok r e" and x: "munger_exec r e = (r', out')"
    and g: "gapless r [e]"
  shows "consecutive (extLastSN r) out' \<and> extLastSN r' = extLastSN r + of_nat (length out')"
proof (cases e)
  case (Switch p ts)
  then show ?thesis using x 
    by (auto simp: UpdateSnTsOffsets_def updateSnOffset_def consecutive_def Let_def)
next
  case (Padding num c f fm e)
  obtain q where q: "UpdateAndGetPaddingSnTs r num c f fm e = q" by simp
  show ?thesis
  proof (cases "\<exists>vals. snd q = Inr vals \<and> num \<noteq> 0")
    case False
    then have "r' = r \<and> out' = []"
      using x q Padding ok
      by (auto simp: UpdateAndGetPaddingSnTs_def Let_def split: if_splits prod.splits)
    then show ?thesis by (simp add: consecutive_def)
  next
    case True
    then obtain vals where v: "UpdateAndGetPaddingSnTs r num c f fm e = (r', Inr vals)" "num \<noteq> 0"
      and out': "out' = map sn_extSequenceNumber vals"
      using x q Padding by (auto split: prod.splits sum.splits)
    obtain ts where l: "extLastSN r' = extLastSN r + of_nat (nat num)"
      and p: "paddingLoop (nat num) 0 c f (\<not> lastMarker r) e (extLastTS r) (extLastSN r) (extLastTS r) =
        (extLastSN r + of_nat (nat num), ts, vals)"
      using padding_unfold [OF v] by metis
    show ?thesis using paddingLoop_sn [OF p] out' l by (simp add: consecutive_def)
  qed
next
  case (Incoming p m d)
  let ?k = "ep_ExtSequenceNumber p" and ?h = "extHighestIncomingSN r"
  have I: "munger_inv r" and t: "tight r" and b: "unat ?k + unat (next_out r) < 2 ^ 63 - 1"
    using inv ok munger_ok_unat(1) [OF ok [unfolded Incoming]] Incoming by (simp_all add: run_inv_def)
  show ?thesis
  proof (rule Incoming_cases [OF I b x [unfolded Incoming]])
    fix o' assume a: "?h < ?k" "r' = fst (updateInOrder r p m o')"
      "out' = (if d = Sent then [?k - snOffset r] else [])"
      "d = RolledBack \<longrightarrow> o' = SequenceNumberOrderingGap" "o' = SequenceNumberOrderingGap \<longrightarrow> ?h + 1 < ?k"
    have "?k \<le> ?h + 1" "d \<noteq> Discarded" using g Incoming by simp_all
    then have "d = Sent" "?k = ?h + 1" using a(1,4,5) inc_le [of ?h ?k] by (cases d; auto)+
    moreover have "?h + 1 - snOffset r = extLastSN r + 1" using t by (simp add: tight_def next_out_def)
    ultimately show ?thesis using a(2,3) by (simp add: consecutive_def)
  qed (use PacketDropped_contiguous [OF I _ b] padding_only_inv [OF I _ b] in \<open>auto simp: consecutive_def\<close>)
qed

lemma run_consecutive:
  assumes "munger_run r es = Some (r', out')" "run_inv r out" "gapless r es"
  shows "consecutive (extLastSN r) out'"
  using assms
proof (induction es arbitrary: r out out')
  case Nil
  then show ?case by (simp add: consecutive_def)
next
  case (Cons e es)
  then obtain r1 out1 out2 where x: "munger_exec r e = (r1, out1)" and ok: "munger_ok r e"
    and rest: "munger_run r1 es = Some (r', out2)" and out': "out' = out1 @ out2"
    by (auto split: if_splits prod.splits option.splits)
  have "run_inv r1 (out @ out1)" using run_inv_step [OF Cons.prems(2) ok x] by blast
  from Cons.IH [OF rest this] have "consecutive (extLastSN r1) out2"
    using Cons.prems(3) x by simp
  moreover have "consecutive (extLastSN r) out1" "extLastSN r1 = extLastSN r + of_nat (length out1)"
    using exec_consecutive [OF Cons.prems(2) ok x] Cons.prems(3) by simp_all
  ultimately show ?case by (simp add: out' consecutive_append)
qed

section \<open>Properties\<close>

text \<open>A run for the witnesses: a start, a rolled back packet, a packet after a gap, and padding.\<close>

definition demo_pkt :: "u64 \<Rightarrow> u64 \<Rightarrow> ExtPacket" where
  "demo_pkt sn ts = \<lparr>ep_VideoLayer = \<lparr>Spatial = 0, Temporal = 0\<rparr>, ep_Arrival = 0,
     ep_ExtSequenceNumber = sn, ep_ExtTimestamp = ts,
     ep_Packet = \<lparr>rtp_SequenceNumber = ucast sn, rtp_Timestamp = ucast ts, rtp_Marker = True,
       rtp_SSRC = 1, rtp_PayloadType = 96, rtp_Payload = [1]\<rparr>,
     ep_Payload = PayloadNone, ep_IsKeyFrame = False, ep_DependencyDescriptor = None,
     ep_IsOutOfOrder = False\<rparr>"

definition demo_munger :: RTPMunger where
  "demo_munger = fst (updateInOrder (SetLastSnTs NewRTPMunger (demo_pkt 100 9000)) (demo_pkt 100 9000) True
     SequenceNumberOrderingContiguous)"

lemma demo_started: "munger_started demo_munger [100]"
proof -
  let ?p = "demo_pkt 100 9000"
  have p: "0 < ep_ExtSequenceNumber ?p" "ep_ExtSequenceNumber ?p < 2 ^ 61" "rtp_Payload (ep_Packet ?p) \<noteq> []"
    by (simp_all add: demo_pkt_def)
  have s0: "snOffset (SetLastSnTs NewRTPMunger ?p) = 0" by (rule first_packet_exec(5) [OF p])
  show ?thesis
    using munger_started.first_packet [OF p first_packet_exec(1) [OF p]]
    by (simp add: demo_munger_def s0) (simp add: demo_pkt_def)
qed

definition demo_events :: "mungerEvent list" where
  "demo_events = [Incoming (demo_pkt 101 12000) True RolledBack, Incoming (demo_pkt 102 15000) True Sent,
     Padding 2 90000 30 False 15000, Incoming (demo_pkt 103 18000) True Sent]"


lemma demo_run: "\<exists>r. munger_run demo_munger demo_events = Some (r, [101, 102, 103, 104])"
proof -
  have "map_option snd (munger_run demo_munger demo_events) = Some [101, 102, 103, 104]" by code_simp
  then show ?thesis by auto
qed

lemma demo_length: "length [101, 102, 103, 104 :: u64] = 4"
  by simp




text \<open>
  A late packet gets its own number: translating a packet older than the highest one changes
  nothing in the munger, fails or gives a number below the last one sent, and that number differs
  from the translation of every other incoming packet that the munger still remembers.
\<close>

theorem late_packet_translation:
  assumes "munger_started r0 out0" "munger_run r0 es = Some (r, out)"
    and "ep_ExtSequenceNumber p < extHighestIncomingSN r"
    and "UpdateAndGetSnTs r p marker = (r', tp, err)"
  shows "r' = r \<and> (err = None \<longrightarrow> tp_extSequenceNumber tp < extLastSN r \<and>
    (\<forall>k v. k \<noteq> ep_ExtSequenceNumber p \<and> k \<le> extHighestIncomingSN r \<and> GetValue (snRangeMap r) k = Inr v \<longrightarrow>
      k - v \<noteq> tp_extSequenceNumber tp))"
proof -
  let ?k = "ep_ExtSequenceNumber p" and ?m = "snRangeMap r" and ?h = "extHighestIncomingSN r"
  have c: "mcore ?m ?h (snOffset r)" and I: "munger_inv r"
    using run_inv_run [OF assms(2) started_run_inv [OF assms(1)]] by (simp_all add: run_inv_def munger_inv_def)
  note D = mcoreD [OF c]
  have "?h < 2 ^ 63 - 1" using c by (simp add: mcore_def)
  then have k: "?k < 2 ^ 63 - 1" using assms(3) less_trans by blast
  have "?k < ?h + 1" using assms(3) D(4) less_trans by blast
  then have "?k \<noteq> ?h + 1" "\<not> ?h + 1 < ?k" by (auto dest: less_asym)
  then have u: "UpdateAndGetSnTs r p marker = (r, translateOutOfOrder r p)"
    using UpdateAndGetSnTs_cases [OF I k, of marker] assms(3) by (simp add: Let_def)
  have nw: "open_start ?m - open_value ?m \<le> x - open_value ?m" if "open_start ?m \<le> x" "x \<le> ?h" for x
    using shift_order(1) [of "open_start ?m" x "?h + 1" "open_value ?m"] that c D(4)
    by (auto simp: mcore_def)
  have inj: "x - v \<noteq> y - w" if "GetValue ?m x = Inr v" "GetValue ?m y = Inr w" "x < y" "y \<le> ?h" for x y v w
    using translated_order [OF D(1,2) that(3)] GetValue_lookup [OF D(1,6)] that nw by force
  show ?thesis
  proof (cases "GetValue ?m ?k")
    case (Inl e)
    then show ?thesis using u assms(4) by (auto simp: translateOutOfOrder_def)
  next
    case (Inr w)
    have "k - v \<noteq> ?k - w" if "k \<noteq> ?k" "k \<le> ?h" "GetValue ?m k = Inr v" for k v
      using inj [OF that(3) Inr] inj [OF Inr that(3)] that assms(3) by (cases k ?k rule: linorder_cases) auto
    then show ?thesis
      using u assms(4) Inr by (auto simp: translateOutOfOrder_def Let_def not_le split: if_splits)
  qed
qed

theorem late_packet_translation_witness:
  "\<exists>r tp. munger_run demo_munger demo_events = Some (r, [101, 102, 103, 104]) \<and>
     UpdateAndGetSnTs r (demo_pkt 102 15000) True = (r, tp, None) \<and>
     tp_extSequenceNumber tp = 101 \<and> tp_extSequenceNumber tp < extLastSN r"
proof -
  obtain r where r: "munger_run demo_munger demo_events = Some (r, [101, 102, 103, 104])"
    using demo_run by blast
  have "map_option (\<lambda>(r, _). (extHighestIncomingSN r, (\<lambda>(_, tp, e). (tp_extSequenceNumber tp, e))
      (UpdateAndGetSnTs r (demo_pkt 102 15000) True)))
      (munger_run demo_munger demo_events) = Some (103, 101, None)" by code_simp
  then obtain r' tp where u: "UpdateAndGetSnTs r (demo_pkt 102 15000) True = (r', tp, None)"
    and t: "tp_extSequenceNumber tp = 101" "extHighestIncomingSN r = 103"
    using r by (auto split: prod.splits)
  have "ep_ExtSequenceNumber (demo_pkt 102 15000) < extHighestIncomingSN r" using t by (simp add: demo_pkt_def)
  from late_packet_translation [OF demo_started r this u] show ?thesis using r u t by auto
qed

text \<open>
  Padding: a granted request returns exactly \<open>num\<close> entries whose sequence numbers continue the
  last one; with a frame rate their timestamps move strictly forward (in the wrapping sense),
  starting at the last timestamp when a frame end is forced and after it otherwise; and the
  timestamp offset moves along, so that a media packet keeps its distance to the last timestamp.
\<close>

theorem padding_sequence:
  assumes "UpdateAndGetPaddingSnTs r num clockRate frameRate forceMarker ets = (r', Inr vals)" "num \<noteq> 0"
  shows "int (length vals) = num \<and>
    map sn_extSequenceNumber vals = map (\<lambda>j. extLastSN r + 1 + of_nat j) [0..<nat num] \<and>
    extLastSN r' = sn_extSequenceNumber (last vals) \<and>
    (frameRate \<noteq> 0 \<longrightarrow> successively ts_after (map sn_extTimestamp vals) \<and>
      extLastTS r' = sn_extTimestamp (last vals) \<and>
      (if lastMarker r then ts_after (extLastTS r) (sn_extTimestamp (hd vals))
       else sn_extTimestamp (hd vals) = extLastTS r)) \<and>
    t - tsOffset r' - extLastTS r' = t - tsOffset r - extLastTS r \<and> lastMarker r'"
proof -
  obtain ts where n: "0 < num"
    and p: "paddingLoop (nat num) 0 clockRate frameRate (\<not> lastMarker r) ets (extLastTS r) (extLastSN r)
      (extLastTS r) = (extLastSN r + of_nat (nat num), ts, vals)"
    and r': "extLastSN r' = extLastSN r + of_nat (nat num)" "extLastTS r' = ts"
      "tsOffset r' = tsOffset r - (ts - extLastTS r)" "lastMarker r'"
    using padding_unfold [OF assms] by metis
  have len: "length vals = nat num" and sn: "map sn_extSequenceNumber vals =
      map (\<lambda>j. extLastSN r + 1 + of_nat j) [0..<nat num]" using paddingLoop_sn [OF p] by auto
  have ne: "vals \<noteq> []" using len n by auto
  have "sn_extSequenceNumber (last vals) = last (map sn_extSequenceNumber vals)" using ne by (simp add: last_map)
  also have "\<dots> = extLastSN r + 1 + of_nat (nat num - 1)" unfolding sn using n by (simp add: last_map)
  also have "\<dots> = extLastSN r + of_nat (nat num)"
    using n of_nat_Suc [of "nat num - 1", where 'a = u64] by simp
  finally have last: "sn_extSequenceNumber (last vals) = extLastSN r'" using r'(1) by simp
  have ts: "frameRate \<noteq> 0 \<longrightarrow> successively ts_after (map sn_extTimestamp vals) \<and>
      ts = sn_extTimestamp (last vals) \<and>
      (if lastMarker r then ts_after (extLastTS r) (sn_extTimestamp (hd vals))
       else sn_extTimestamp (hd vals) = extLastTS r)"
    using paddingLoop_first [OF p] n ne by (auto simp: last_map)
  show ?thesis using n len sn last ts r' by simp
qed

theorem padding_sequence_witness:
  "\<exists>r' vals. UpdateAndGetPaddingSnTs demo_munger 2 90000 30 False 9000 = (r', Inr vals) \<and>
     map sn_extSequenceNumber vals = [101, 102] \<and> map sn_extTimestamp vals = [12000, 15000] \<and>
     successively ts_after [12000, 15000] \<and> extLastSN r' = 102 \<and> lastMarker r'"
proof -
  have m: "lastMarker demo_munger" "extLastSN demo_munger = 100" by code_simp+
  have "map_sum id (\<lambda>vals. (map sn_extSequenceNumber vals, map sn_extTimestamp vals))
      (snd (UpdateAndGetPaddingSnTs demo_munger 2 90000 30 False 9000)) =
      Inr ([101, 102], [12000, 15000])" by code_simp
  then obtain r' vals where u: "UpdateAndGetPaddingSnTs demo_munger 2 90000 30 False 9000 = (r', Inr vals)"
    and v: "map sn_extSequenceNumber vals = [101, 102]" "map sn_extTimestamp vals = [12000, 15000]"
    by (cases "UpdateAndGetPaddingSnTs demo_munger 2 90000 30 False 9000"; cases "snd (UpdateAndGetPaddingSnTs demo_munger 2 90000 30 False 9000)") auto
  have "vals \<noteq> []" using v by auto
  then have "sn_extSequenceNumber (last vals) = last (map sn_extSequenceNumber vals)"
    by (simp add: last_map)
  then show ?thesis using padding_sequence [OF u, of 0] u v m by simp
qed

end
