(* ===== verification/Vp8_Munger.thy ===== *)
theory Vp8_Munger
  imports Packets "HOL-Library.AList" "HOL-Library.DAList"
begin

text \<open>
  \<^verbatim>\<open>pkg/sfu/codecmunger\<close>: the rewriting of VP8 picture ids, TL0PICIDX and KEYIDX
  (\<^verbatim>\<open>vp8.go\<close>) and the codec munger that does nothing (\<^verbatim>\<open>null.go\<close>). Extended picture ids,
  which are \<open>int32\<close> in the code, are integers; the eight and sixteen bit fields are words. The
  caches use the third-party package \<^verbatim>\<open>elliotchance/orderedmap\<close>: its operations are a
  parameter of the model, and the locale \<open>ordered_map\<close> states the documented behaviour the
  munger relies on.
\<close>

section \<open>Ordered maps\<close>

record ('m, 'v) OrderedMapOps =
  om_New :: 'm
  om_Get :: "'m \<Rightarrow> int \<Rightarrow> 'v option"
  om_Set :: "'m \<Rightarrow> int \<Rightarrow> 'v \<Rightarrow> 'm"
  om_Len :: "'m \<Rightarrow> nat"
  om_Front :: "'m \<Rightarrow> int option"
  om_Delete :: "'m \<Rightarrow> int \<Rightarrow> 'm"

text \<open>
  An ordered map is a list of entries in the order of insertion: setting a known key replaces
  its value in place, setting a new key appends it, and deleting removes the entry.
\<close>

locale ordered_map =
  fixes ops :: "('m, 'v) OrderedMapOps" and entries :: "'m \<Rightarrow> (int \<times> 'v) list"
  assumes entries_new: "entries (om_New ops) = []"
    and distinct_keys: "distinct (map fst (entries m))"
    and get_entries: "om_Get ops m k = map_of (entries m) k"
    and set_entries: "entries (om_Set ops m k v) = AList.update k v (entries m)"
    and len_entries: "om_Len ops m = length (entries m)"
    and front_entries: "om_Front ops m = (case entries m of [] \<Rightarrow> None | e # _ \<Rightarrow> Some (fst e))"
    and delete_entries: "entries (om_Delete ops m k) = filter (\<lambda>e. fst e \<noteq> k) (entries m)"
begin

lemma delete_front_length:
  assumes "entries m = e # es"
  shows "entries (om_Delete ops m (fst e)) = es"
proof -
  have "fst e \<notin> fst ` set es" using distinct_keys [of m] assms by simp
  then have "filter (\<lambda>x. fst x \<noteq> fst e) es = es" by (intro filter_True) (metis image_eqI)
  then show ?thesis by (simp add: delete_entries assms)
qed

end

text \<open>The laws can hold: association lists with distinct keys are an instance.\<close>

definition alist_ops :: "((int, 'v) alist, 'v) OrderedMapOps" where
  "alist_ops = \<lparr>om_New = DAList.empty, om_Get = DAList.lookup, om_Set = (\<lambda>m k v. DAList.update k v m),
     om_Len = (\<lambda>m. length (DAList.impl_of m)),
     om_Front = (\<lambda>m. case DAList.impl_of m of [] \<Rightarrow> None | e # _ \<Rightarrow> Some (fst e)),
     om_Delete = (\<lambda>m k. DAList.delete k m)\<rparr>"

interpretation alist_map: ordered_map alist_ops DAList.impl_of
proof unfold_locales
  show "DAList.impl_of (om_Delete alist_ops m k) = filter (\<lambda>e. fst e \<noteq> k) (DAList.impl_of m)" for m :: "(int, 'v) alist" and k
    by (auto simp: alist_ops_def delete.rep_eq AList.delete_eq intro: filter_cong)
qed (simp_all add: alist_ops_def empty.rep_eq lookup.rep_eq update.rep_eq impl_of_distinct)

text \<open>The eviction loop \<open>for m.Len() > threshold { m.Delete(m.Front().Key) }\<close>, with \<open>n\<close> iterations left.\<close>

fun trimLoop :: "('m, 'v) OrderedMapOps \<Rightarrow> nat \<Rightarrow> nat \<Rightarrow> 'm \<Rightarrow> 'm" where
  "trimLoop ops threshold 0 m = m"
| "trimLoop ops threshold (Suc n) m =
     (if om_Len ops m > threshold
      then case om_Front ops m of None \<Rightarrow> m
           | Some k \<Rightarrow> trimLoop ops threshold n (om_Delete ops m k)
      else m)"

definition trimCache :: "('m, 'v) OrderedMapOps \<Rightarrow> nat \<Rightarrow> 'm \<Rightarrow> 'm" where
  "trimCache ops threshold m = trimLoop ops threshold (om_Len ops m) m"

section \<open>Picture id wrap handler\<close>

definition isWrapping7Bit :: "int \<Rightarrow> int \<Rightarrow> bool" where
  "isWrapping7Bit val1 val2 \<longleftrightarrow> val2 < val1 \<and> val1 - val2 > 2 ^ 6"

definition isWrapping15Bit :: "int \<Rightarrow> int \<Rightarrow> bool" where
  "isWrapping15Bit val1 val2 \<longleftrightarrow> val2 < val1 \<and> val1 - val2 > 2 ^ 14"

record VP8PictureIdWrapHandler =
  wh_maxPictureId :: int
  wh_maxMBit :: bool
  wh_totalWrap :: int
  wh_lastWrap :: int

definition wh_Init :: "VP8PictureIdWrapHandler \<Rightarrow> int \<Rightarrow> bool \<Rightarrow> VP8PictureIdWrapHandler" where
  "wh_Init v extPictureId mBit =
     v\<lparr>wh_maxPictureId := extPictureId, wh_maxMBit := mBit, wh_totalWrap := 0, wh_lastWrap := 0\<rparr>"

definition wh_MaxPictureId :: "VP8PictureIdWrapHandler \<Rightarrow> int" where
  "wh_MaxPictureId v = wh_maxPictureId v"

definition wh_Unwrap :: "VP8PictureIdWrapHandler \<Rightarrow> u16 \<Rightarrow> bool \<Rightarrow> VP8PictureIdWrapHandler \<times> int" where
  "wh_Unwrap v pictureId mBit =
     (let maxPictureId =
            (if wh_maxPictureId v > 0
             then if wh_maxMBit v then wh_maxPictureId v AND 0x7fff else wh_maxPictureId v AND 0x7f
             else wh_maxPictureId v);
          newPictureId = (if mBit then uint (pictureId AND 0x7fff) else uint (pictureId AND 0x7f))
      in
      if wh_totalWrap v > 0 \<and>
         wh_maxPictureId v + drop_bit 1 (wh_lastWrap v) < newPictureId + wh_totalWrap v
      then (v, newPictureId + wh_totalWrap v - wh_lastWrap v)
      else
        let wrap =
              (if wh_maxMBit v
               then if isWrapping15Bit maxPictureId newPictureId then 2 ^ 15 else 0
               else if isWrapping7Bit maxPictureId newPictureId then 2 ^ 7 else 0);
            v = v\<lparr>wh_totalWrap := wh_totalWrap v + wrap\<rparr>;
            v = (if wrap \<noteq> 0 then v\<lparr>wh_lastWrap := wrap\<rparr> else v)
        in (v, newPictureId + wh_totalWrap v))"

definition wh_UpdateMaxPictureId :: "VP8PictureIdWrapHandler \<Rightarrow> int \<Rightarrow> bool \<Rightarrow> VP8PictureIdWrapHandler" where
  "wh_UpdateMaxPictureId v extPictureId mBit = v\<lparr>wh_maxPictureId := extPictureId, wh_maxMBit := mBit\<rparr>"

section \<open>VP8 munger\<close>

definition missingPictureIdsThreshold :: nat where "missingPictureIdsThreshold = 50"
definition droppedPictureIdsThreshold :: nat where "droppedPictureIdsThreshold = 20"
definition exemptedPictureIdsThreshold :: nat where "exemptedPictureIdsThreshold = 20"

datatype codecMungerErr =
  ErrNotVP8 | ErrOutOfOrderVP8PictureIdCacheMiss | ErrFilteredVP8TemporalLayer | ErrMarshal vp8Err

record ('m, 'b) VP8Munger =
  pictureIdWrapHandler :: VP8PictureIdWrapHandler
  extLastPictureId :: int
  pictureIdOffset :: int
  pictureIdUsed :: bool
  lastTl0PicIdx :: u8
  tl0PicIdxOffset :: u8
  tl0PicIdxUsed :: bool
  tidUsed :: bool
  lastKeyIdx :: u8
  keyIdxOffset :: u8
  keyIdxUsed :: bool
  missingPictureIds :: 'm
  droppedPictureIds :: 'b
  exemptedPictureIds :: 'b

text \<open>The protobuf message that carries the state of a munger to another node.\<close>

record VP8MungerState =
  vs_ExtLastPictureId :: int
  vs_PictureIdUsed :: bool
  vs_LastTl0PicIdx :: u32
  vs_Tl0PicIdxUsed :: bool
  vs_TidUsed :: bool
  vs_LastKeyIdx :: u32
  vs_KeyIdxUsed :: bool

definition NewVP8 :: "('m, int) OrderedMapOps \<Rightarrow> ('b, bool) OrderedMapOps \<Rightarrow> ('m, 'b) VP8Munger" where
  "NewVP8 mo bo = \<lparr>pictureIdWrapHandler = \<lparr>wh_maxPictureId = 0, wh_maxMBit = False, wh_totalWrap = 0,
       wh_lastWrap = 0\<rparr>, extLastPictureId = 0, pictureIdOffset = 0, pictureIdUsed = False,
     lastTl0PicIdx = 0, tl0PicIdxOffset = 0, tl0PicIdxUsed = False, tidUsed = False, lastKeyIdx = 0,
     keyIdxOffset = 0, keyIdxUsed = False, missingPictureIds = om_New mo,
     droppedPictureIds = om_New bo, exemptedPictureIds = om_New bo\<rparr>"

definition vp8_GetState :: "('m, 'b) VP8Munger \<Rightarrow> VP8MungerState" where
  "vp8_GetState v = \<lparr>vs_ExtLastPictureId = extLastPictureId v, vs_PictureIdUsed = pictureIdUsed v,
     vs_LastTl0PicIdx = ucast (lastTl0PicIdx v), vs_Tl0PicIdxUsed = tl0PicIdxUsed v,
     vs_TidUsed = tidUsed v, vs_LastKeyIdx = ucast (lastKeyIdx v), vs_KeyIdxUsed = keyIdxUsed v\<rparr>"

text \<open>The seed is any value; only one that holds a VP8 munger state is used.\<close>

definition vp8_SeedState :: "('m, 'b) VP8Munger \<Rightarrow> VP8MungerState option \<Rightarrow> ('m, 'b) VP8Munger" where
  "vp8_SeedState v seed =
     (case seed of None \<Rightarrow> v
      | Some state \<Rightarrow>
          v\<lparr>extLastPictureId := vs_ExtLastPictureId state, pictureIdUsed := vs_PictureIdUsed state,
            lastTl0PicIdx := ucast (vs_LastTl0PicIdx state), tl0PicIdxUsed := vs_Tl0PicIdxUsed state,
            tidUsed := vs_TidUsed state, lastKeyIdx := ucast (vs_LastKeyIdx state),
            keyIdxUsed := vs_KeyIdxUsed state\<rparr>)"

definition vp8_SetLast :: "('m, 'b) VP8Munger \<Rightarrow> ExtPacket \<Rightarrow> ('m, 'b) VP8Munger" where
  "vp8_SetLast v extPkt =
     (case ep_Payload extPkt of
        PayloadVP8 vp8 \<Rightarrow>
          let v = v\<lparr>pictureIdUsed := vp8_I vp8\<rparr>;
              v = (if pictureIdUsed v
                   then v\<lparr>pictureIdWrapHandler :=
                            wh_Init (pictureIdWrapHandler v) (uint (vp8_PictureID vp8) - 1) (vp8_M vp8),
                          extLastPictureId := uint (vp8_PictureID vp8)\<rparr>
                   else v);
              v = v\<lparr>tl0PicIdxUsed := vp8_L vp8\<rparr>;
              v = (if tl0PicIdxUsed v then v\<lparr>lastTl0PicIdx := vp8_TL0PICIDX vp8\<rparr> else v);
              v = v\<lparr>tidUsed := vp8_T vp8, keyIdxUsed := vp8_K vp8\<rparr>
          in (if keyIdxUsed v then v\<lparr>lastKeyIdx := vp8_KEYIDX vp8\<rparr> else v)
      | _ \<Rightarrow> v)"

definition vp8_UpdateOffsets :: "('m, int) OrderedMapOps \<Rightarrow> ('b, bool) OrderedMapOps \<Rightarrow>
    ('m, 'b) VP8Munger \<Rightarrow> ExtPacket \<Rightarrow> ('m, 'b) VP8Munger" where
  "vp8_UpdateOffsets mo bo v extPkt =
     (case ep_Payload extPkt of
        PayloadVP8 vp8 \<Rightarrow>
          let v = (if pictureIdUsed v
                   then v\<lparr>pictureIdWrapHandler :=
                            wh_Init (pictureIdWrapHandler v) (uint (vp8_PictureID vp8) - 1) (vp8_M vp8),
                          pictureIdOffset := uint (vp8_PictureID vp8) - extLastPictureId v - 1\<rparr>
                   else v);
              v = (if tl0PicIdxUsed v
                   then v\<lparr>tl0PicIdxOffset := vp8_TL0PICIDX vp8 - lastTl0PicIdx v - 1\<rparr> else v);
              v = (if keyIdxUsed v
                   then v\<lparr>keyIdxOffset := (vp8_KEYIDX vp8 - lastKeyIdx v - 1) AND 0x1f\<rparr> else v)
          in v\<lparr>missingPictureIds := om_New mo, droppedPictureIds := om_New bo,
               exemptedPictureIds := om_New bo\<rparr>
      | _ \<Rightarrow> v)"

text \<open>The descriptor that replaces the one of the packet.\<close>

definition mungedVP8 :: "VP8 \<Rightarrow> u16 \<Rightarrow> u8 \<Rightarrow> u8 \<Rightarrow> VP8" where
  "mungedVP8 vp8 mungedPictureId tl0 keyIdx =
     \<lparr>vp8_FirstByte = vp8_FirstByte vp8, vp8_S = False, vp8_I = vp8_I vp8, vp8_M = mungedPictureId > 127,
      vp8_PictureID = mungedPictureId, vp8_L = vp8_L vp8, vp8_TL0PICIDX = tl0, vp8_T = vp8_T vp8,
      vp8_TID = vp8_TID vp8, vp8_Y = vp8_Y vp8, vp8_K = vp8_K vp8, vp8_KEYIDX = keyIdx,
      vp8_HeaderSize = vp8_HeaderSize vp8 + VPxPictureIdSizeDiff (mungedPictureId > 127) (vp8_M vp8),
      vp8_IsKeyFrame = vp8_IsKeyFrame vp8\<rparr>"

definition marshalled :: "VP8 \<Rightarrow> VP8 \<Rightarrow> codecMungerErr + (int \<times> bytes)" where
  "marshalled vp8 vp8Packet =
     (case vp8_Marshal vp8Packet of Inl e \<Rightarrow> Inl (ErrMarshal e)
      | Inr hdr \<Rightarrow> Inr (vp8_HeaderSize vp8, hdr))"

definition updateOutOfOrder :: "('m, int) OrderedMapOps \<Rightarrow> ('m, 'b) VP8Munger \<Rightarrow> VP8 \<Rightarrow> int \<Rightarrow>
    codecMungerErr + (int \<times> bytes)" where
  "updateOutOfOrder mo v vp8 extPictureId =
     (case om_Get mo (missingPictureIds v) extPictureId of
        None \<Rightarrow> Inl ErrOutOfOrderVP8PictureIdCacheMiss
      | Some off \<Rightarrow>
          let mungedPictureId = word_of_int ((extPictureId - off) AND 0x7fff)
          in marshalled vp8 (mungedVP8 vp8 mungedPictureId (vp8_TL0PICIDX vp8 - tl0PicIdxOffset v)
               (vp8_KEYIDX vp8 - keyIdxOffset v)))"

text \<open>The picture ids a packet missing in a gap can belong to, unless they were dropped.\<close>

definition recordMissing :: "('m, int) OrderedMapOps \<Rightarrow> ('b, bool) OrderedMapOps \<Rightarrow>
    ('m, 'b) VP8Munger \<Rightarrow> int \<Rightarrow> int \<Rightarrow> 'm" where
  "recordMissing mo bo v prevMaxPictureId extPictureId =
     trimCache mo missingPictureIdsThreshold
       (fold (\<lambda>lostPictureId m.
                case om_Get bo (droppedPictureIds v) lostPictureId of
                  None \<Rightarrow> om_Set mo m lostPictureId (pictureIdOffset v) | Some _ \<Rightarrow> m)
          [prevMaxPictureId..extPictureId] (missingPictureIds v))"

definition forwardInOrder :: "('m, 'b) VP8Munger \<Rightarrow> VP8 \<Rightarrow> int \<Rightarrow>
    ('m, 'b) VP8Munger \<times> (codecMungerErr + (int \<times> bytes))" where
  "forwardInOrder v vp8 extPictureId =
     (let extMungedPictureId = extPictureId - pictureIdOffset v;
          mungedPictureId = word_of_int (extMungedPictureId AND 0x7fff);
          mungedTl0PicIdx = vp8_TL0PICIDX vp8 - tl0PicIdxOffset v;
          mungedKeyIdx = (vp8_KEYIDX vp8 - keyIdxOffset v) AND 0x1f;
          v = v\<lparr>extLastPictureId := extMungedPictureId, lastTl0PicIdx := mungedTl0PicIdx,
                lastKeyIdx := mungedKeyIdx\<rparr>
      in (v, marshalled vp8 (mungedVP8 vp8 mungedPictureId mungedTl0PicIdx mungedKeyIdx)))"

definition vp8_UpdateAndGet :: "('m, int) OrderedMapOps \<Rightarrow> ('b, bool) OrderedMapOps \<Rightarrow>
    ('m, 'b) VP8Munger \<Rightarrow> ExtPacket \<Rightarrow> bool \<Rightarrow> bool \<Rightarrow> int \<Rightarrow>
    ('m, 'b) VP8Munger \<times> (codecMungerErr + (int \<times> bytes))" where
  "vp8_UpdateAndGet mo bo v extPkt snOutOfOrder snHasGap maxTemporalLayer =
     (case ep_Payload extPkt of
        PayloadVP8 vp8 \<Rightarrow>
          let (wh, extPictureId) = wh_Unwrap (pictureIdWrapHandler v) (vp8_PictureID vp8) (vp8_M vp8);
              v = v\<lparr>pictureIdWrapHandler := wh\<rparr> in
          if snOutOfOrder then (v, updateOutOfOrder mo v vp8 extPictureId)
          else
            let prevMaxPictureId = wh_MaxPictureId (pictureIdWrapHandler v);
                v = v\<lparr>pictureIdWrapHandler :=
                       wh_UpdateMaxPictureId (pictureIdWrapHandler v) extPictureId (vp8_M vp8)\<rparr>;
                filtered = (Temporal (ep_VideoLayer extPkt) > maxTemporalLayer)
            in
            if snHasGap then
              let v = v\<lparr>missingPictureIds := recordMissing mo bo v prevMaxPictureId extPictureId\<rparr>;
                  v = (if filtered
                       then v\<lparr>exemptedPictureIds := trimCache bo exemptedPictureIdsThreshold
                              (om_Set bo (exemptedPictureIds v) extPictureId True)\<rparr>
                       else v)
              in forwardInOrder v vp8 extPictureId
            else if filtered \<and> om_Get bo (exemptedPictureIds v) extPictureId = None then
              (if vp8_I vp8 \<and> prevMaxPictureId \<noteq> extPictureId
               then v\<lparr>droppedPictureIds := trimCache bo droppedPictureIdsThreshold
                        (om_Set bo (droppedPictureIds v) extPictureId True),
                      pictureIdOffset := pictureIdOffset v + 1\<rparr>
               else v, Inl ErrFilteredVP8TemporalLayer)
            else forwardInOrder v vp8 extPictureId
      | _ \<Rightarrow> (v, Inl ErrNotVP8))"

definition vp8_UpdateAndGetPadding :: "('m, 'b) VP8Munger \<Rightarrow> bool \<Rightarrow>
    ('m, 'b) VP8Munger \<times> (vp8Err + bytes)" where
  "vp8_UpdateAndGetPadding v newPicture =
     (let offset = (if newPicture then 1 else 0 :: nat);
          headerSize = 1 + (if pictureIdUsed v \<or> tl0PicIdxUsed v \<or> tidUsed v \<or> keyIdxUsed v then 1 else 0 :: int);
          extPictureId = (if pictureIdUsed v then extLastPictureId v + int offset else extLastPictureId v);
          (v, headerSize) =
            (if pictureIdUsed v
             then (v\<lparr>extLastPictureId := extPictureId, pictureIdOffset := pictureIdOffset v - int offset\<rparr>,
                   headerSize + (if (extPictureId AND 0x7fff) > 127 then 2 else 1))
             else (v, headerSize));
          pictureId = word_of_int (extPictureId AND 0x7fff) :: u16;
          tl0PicIdx = (if tl0PicIdxUsed v then lastTl0PicIdx v + of_nat offset else 0);
          (v, headerSize) =
            (if tl0PicIdxUsed v
             then (v\<lparr>lastTl0PicIdx := tl0PicIdx, tl0PicIdxOffset := tl0PicIdxOffset v - of_nat offset\<rparr>,
                   headerSize + 1)
             else (v, headerSize));
          headerSize = headerSize + (if tidUsed v \<or> keyIdxUsed v then 1 else 0);
          keyIdx = (if keyIdxUsed v then (lastKeyIdx v + of_nat offset) AND 0x1f else 0);
          v = (if keyIdxUsed v
               then v\<lparr>lastKeyIdx := keyIdx, keyIdxOffset := keyIdxOffset v - of_nat offset\<rparr> else v)
      in (v, vp8_Marshal \<lparr>vp8_FirstByte = 0x10, vp8_S = False, vp8_I = pictureIdUsed v,
            vp8_M = pictureId > 127, vp8_PictureID = pictureId, vp8_L = tl0PicIdxUsed v,
            vp8_TL0PICIDX = tl0PicIdx, vp8_T = tidUsed v, vp8_TID = 0, vp8_Y = True,
            vp8_K = keyIdxUsed v, vp8_KEYIDX = keyIdx, vp8_HeaderSize = headerSize,
            vp8_IsKeyFrame = True\<rparr>))"

section \<open>Null munger\<close>

record 's NullMunger =
  seededState :: "'s option"

definition NewNull :: "'s NullMunger" where
  "NewNull = \<lparr>seededState = None\<rparr>"

definition null_SeedState :: "'s NullMunger \<Rightarrow> 's option \<Rightarrow> 's NullMunger" where
  "null_SeedState n state = n\<lparr>seededState := state\<rparr>"

definition null_GetSeededState :: "'s NullMunger \<Rightarrow> 's option" where
  "null_GetSeededState n = seededState n"

definition null_UpdateAndGet :: "'s NullMunger \<Rightarrow> ExtPacket \<Rightarrow> bool \<Rightarrow> bool \<Rightarrow> int \<Rightarrow>
    'e + (int \<times> bytes)" where
  "null_UpdateAndGet n extPkt snOutOfOrder snHasGap maxTemporal = Inr (0, [])"

text \<open>\<open>NewVP8FromOther\<close>: a VP8 munger that takes over the state another munger was seeded with or has.\<close>

datatype ('m, 'b) CodecMunger = MungerNull "VP8MungerState NullMunger" | MungerVP8 "('m, 'b) VP8Munger"

definition NewVP8FromOther :: "('m, int) OrderedMapOps \<Rightarrow> ('b, bool) OrderedMapOps \<Rightarrow>
    ('m, 'b) CodecMunger \<Rightarrow> ('m, 'b) VP8Munger" where
  "NewVP8FromOther mo bo cm =
     (case cm of MungerNull n \<Rightarrow> vp8_SeedState (NewVP8 mo bo) (null_GetSeededState n)
      | MungerVP8 o' \<Rightarrow> vp8_SeedState (NewVP8 mo bo) (Some (vp8_GetState o')))"

section \<open>Cache bounds\<close>

context ordered_map
begin

lemma trimLoop_entries:
  "length (entries m) \<le> threshold + n \<Longrightarrow>
   entries (trimLoop ops threshold n m) = drop (length (entries m) - threshold) (entries m)"
proof (induction n arbitrary: m)
  case (Suc n)
  show ?case
  proof (cases "length (entries m) > threshold")
    case True
    then obtain e es where m: "entries m = e # es" by (cases "entries m") auto
    then have d: "entries (om_Delete ops m (fst e)) = es" by (rule delete_front_length)
    then have "entries (trimLoop ops threshold n (om_Delete ops m (fst e))) = drop (length es - threshold) es"
      using Suc m by simp
    then show ?thesis using True m by (simp add: len_entries front_entries Suc_diff_le)
  qed (simp add: len_entries)
qed simp

lemma trimCache_len: "om_Len ops (trimCache ops threshold m) \<le> threshold"
  using trimLoop_entries [of m threshold "length (entries m)"]
  by (simp add: trimCache_def len_entries)

end

section \<open>Unwrapping\<close>

text \<open>A stream that uses 15-bit picture ids, seen from the handler.\<close>

definition wh15 :: "VP8PictureIdWrapHandler \<Rightarrow> bool" where
  "wh15 v \<longleftrightarrow> wh_maxMBit v \<and> - 1 \<le> wh_maxPictureId v \<and>
     wh_totalWrap v = (if wh_maxPictureId v < 0 then 0 else 2 ^ 15 * (wh_maxPictureId v div 2 ^ 15)) \<and>
     (0 < wh_totalWrap v \<longrightarrow> wh_lastWrap v = 2 ^ 15)"

lemma int_and_masks: "k AND 0x7fff = k mod 2 ^ 15" for k :: int
  using take_bit_eq_mask [of 15 k] by (simp add: take_bit_eq_mod mask_eq_exp_minus_1)

lemma uint_pid15: "uint (word_of_int (n mod 2 ^ 15) AND 0x7fff :: u16) = n mod 2 ^ 15"
proof -
  have c: "(0x7fff :: u16) = mask 15" by (simp add: mask_eq_exp_minus_1)
  have "uint (word_of_int (n mod 2 ^ 15) AND 0x7fff :: u16) = take_bit 15 (take_bit 16 (n mod 2 ^ 15))"
    unfolding c take_bit_eq_mask [symmetric] unsigned_take_bit_eq by (simp add: uint_word_of_int_eq)
  then show ?thesis by (simp add: take_bit_eq_mod)
qed

lemma Unwrap15:
  assumes v: "wh15 v" and n: "0 \<le> n" "wh_maxPictureId v - 2 ^ 14 < n" "n < wh_maxPictureId v + 2 ^ 14"
  defines "q \<equiv> wh_Unwrap v (word_of_int (n mod 2 ^ 15)) True"
  shows "snd q = n" "wh_maxPictureId (fst q) = wh_maxPictureId v"
    "wh_maxPictureId v \<le> n \<Longrightarrow> wh15 (wh_UpdateMaxPictureId (fst q) n True)"
    "n \<le> wh_maxPictureId v \<Longrightarrow> fst q = v"
proof -
  define m r q' where "m = wh_maxPictureId v" and "r = n mod 2 ^ 15" and "q' = n div 2 ^ 15"
  define mr mq where "mr = m mod 2 ^ 15" and "mq = m div 2 ^ 15"
  have pid: "uint (word_of_int r AND 0x7fff :: u16) = r" unfolding r_def by (rule uint_pid15)
  have nd: "n = 2 ^ 15 * q' + r" "0 \<le> r" "r < 2 ^ 15" by (simp_all add: r_def q'_def)
  have md: "m = 2 ^ 15 * mq + mr" "0 \<le> mr" "mr < 2 ^ 15" by (simp_all add: mr_def mq_def)
  have tw: "wh_totalWrap v = (if m < 0 then 0 else 2 ^ 15 * mq)" and mb: "wh_maxMBit v"
    and lw: "0 < wh_totalWrap v \<longrightarrow> wh_lastWrap v = 2 ^ 15" and m1: "- 1 \<le> m"
    using v by (simp_all add: wh15_def m_def mq_def)
  have nb: "0 \<le> n" "m - 2 ^ 14 < n" "n < m + 2 ^ 14" using n by (simp_all add: m_def)
  define low where "low = (if m > 0 then mr else m)"
  have low: "(if m > 0 then if wh_maxMBit v then m AND 0x7fff else m AND 0x7f else m) = low"
    using mb by (simp add: low_def int_and_masks mr_def)
  let ?pid_back = "0 < wh_totalWrap v \<and> m + drop_bit 1 (wh_lastWrap v) < r + wh_totalWrap v"
  have h: "drop_bit 1 (2 ^ 15 :: int) = 2 ^ 14" by (simp add: drop_bit_eq_div)
  define wrap where "wrap = (if isWrapping15Bit low r then 2 ^ 15 else 0 :: int)"
  have q: "q = (if ?pid_back then (v, r + wh_totalWrap v - wh_lastWrap v)
      else (if wrap \<noteq> 0 then v\<lparr>wh_totalWrap := wh_totalWrap v + wrap, wh_lastWrap := wrap\<rparr> else v, r + wh_totalWrap v + wrap))"
    unfolding q_def r_def [symmetric] wh_Unwrap_def Let_def pid low m_def [symmetric] if_True
    using mb by (simp add: wrap_def)
  have res: "snd q = n \<and> wh_maxPictureId (fst q) = m \<and> (n \<le> m \<longrightarrow> fst q = v) \<and>
      (m \<le> n \<longrightarrow> wh_maxMBit (fst q) \<and> wh_totalWrap (fst q) = 2 ^ 15 * q' \<and>
        (0 < wh_totalWrap (fst q) \<longrightarrow> wh_lastWrap (fst q) = 2 ^ 15))"
  proof (cases "m < 0")
    case True
    then have "m = - 1" using m1 by simp
    moreover have "q' = 0" using nd nb \<open>m = - 1\<close> by simp
    ultimately show ?thesis
      using nd nb tw mb by (simp add: q wrap_def isWrapping15Bit_def low_def m_def [symmetric])
  next
    case False
    then have T: "wh_totalWrap v = 2 ^ 15 * mq" and lr: "low = mr"
      using tw by (auto simp: low_def mr_def)
    have mq: "0 \<le> mq" using False md by simp
    consider "q' = mq" | "q' = mq + 1" | "q' = mq - 1" using nd md nb by (simp) linarith
    then show ?thesis
    proof cases
      case 1
      have "\<not> ?pid_back" using 1 T lw h nd md nb by auto
      moreover have "wrap = 0" using 1 nd md nb lr by (simp add: wrap_def isWrapping15Bit_def)
      ultimately show ?thesis using 1 T lw nd mb by (simp add: q m_def [symmetric])
    next
      case 2
      have "\<not> ?pid_back" using 2 T lw h nd md nb by auto
      moreover have "wrap = 2 ^ 15" using 2 nd md nb lr by (simp add: wrap_def isWrapping15Bit_def)
      moreover have "\<not> n \<le> m" using 2 nd md by simp
      ultimately show ?thesis using 2 T nd mb mq by (simp add: q m_def [symmetric])
    next
      case 3
      then have "0 < mq" using nd nb(1) by simp
      then have "0 < wh_totalWrap v" using T by simp
      moreover have ?pid_back using \<open>0 < wh_totalWrap v\<close> 3 T lw h nd md nb by simp
      moreover have "\<not> m \<le> n" using 3 nd md by simp
      ultimately show ?thesis using 3 T lw nd by (simp add: q m_def [symmetric])
    qed
  qed
  show "snd q = n" "wh_maxPictureId (fst q) = wh_maxPictureId v" "n \<le> wh_maxPictureId v \<Longrightarrow> fst q = v"
    using res by (simp_all add: m_def)
  show "wh15 (wh_UpdateMaxPictureId (fst q) n True)" if "wh_maxPictureId v \<le> n"
    using res that nb(1) by (simp add: wh15_def wh_UpdateMaxPictureId_def m_def q'_def)
qed

section \<open>What is sent\<close>

text \<open>The descriptor a receiver reads from the marshalled one: absent fields read as zero.\<close>

definition received :: "VP8 \<Rightarrow> VP8" where
  "received v = v\<lparr>
     vp8_FirstByte := (if vp8_ext v then vp8_FirstByte v OR 0x80 else vp8_FirstByte v AND NOT 0x80),
     vp8_S := bit (vp8_FirstByte v) 4, vp8_M := vp8_I v \<and> vp8_M v,
     vp8_PictureID := (if vp8_I v then vp8_PictureID v else 0),
     vp8_TL0PICIDX := (if vp8_L v then vp8_TL0PICIDX v else 0),
     vp8_TID := (if vp8_T v then vp8_TID v else 0), vp8_Y := vp8_T v \<and> vp8_Y v,
     vp8_KEYIDX := (if vp8_K v then vp8_KEYIDX v AND 0x1f else 0),
     vp8_HeaderSize := int (vp8_size v)\<rparr>"

lemma received_sel [simp]:
  "vp8_I (received v) = vp8_I v" "vp8_L (received v) = vp8_L v" "vp8_T (received v) = vp8_T v"
  "vp8_K (received v) = vp8_K v" "vp8_ext (received v) = vp8_ext v" "vp8_size (received v) = vp8_size v"
  by (simp_all add: received_def vp8_ext_def vp8_size_def)

lemma first_byte_bits:
  fixes x :: u8
  shows "bit (x OR 0x80) 7" "\<not> bit (x AND NOT 0x80) 7" "bit (x OR 0x80) 4 = bit x 4"
    "bit (x AND NOT 0x80) 4 = bit x 4" "(x OR 0x80) OR 0x80 = x OR 0x80"
    "(x AND NOT 0x80) AND NOT 0x80 = x AND NOT 0x80"
  by (simp_all add: bit_simps bit_consts or.assoc and.assoc)

lemma received_bytes: "vp8_bytes (received v) = vp8_bytes v"
proof -
  have "pid_bytes (received v) = pid_bytes v" by (simp add: pid_bytes_def received_def)
  moreover have "tl0_bytes (received v) = tl0_bytes v" by (simp add: tl0_bytes_def received_def)
  moreover have "tidkey_bytes (received v) = tidkey_bytes v"
    by (simp add: tidkey_bytes_def tidkey_byte_def received_def and.assoc)
  moreover have "ext_byte (received v) = ext_byte v" by (simp add: ext_byte_def)
  ultimately show ?thesis using first_byte_bits(5,6) by (simp add: vp8_bytes_def) (simp add: received_def)
qed

text \<open>What a descriptor must satisfy to be readable again.\<close>

definition sendable :: "VP8 \<Rightarrow> bool" where
  "sendable v \<longleftrightarrow> (vp8_L v \<longrightarrow> vp8_T v) \<and> vp8_TID v < 4 \<and>
     (vp8_I v \<longrightarrow> vp8_PictureID v < (if vp8_M v then 0x8000 else 0x80)) \<and>
     int (vp8_size v) \<le> vp8_HeaderSize v"

lemma received_wf:
  assumes "sendable v"
  shows "vp8_wf (received v)"
proof -
  have f: "vp8_S (received v) = bit (vp8_FirstByte (received v)) 4"
    "bit (vp8_FirstByte (received v)) 7 = vp8_ext v"
    using first_byte_bits [of "vp8_FirstByte v"] by (simp_all add: received_def)
  have p: "if vp8_I v then vp8_PictureID (received v) < (if vp8_M (received v) then 0x8000 else 0x80)
      else \<not> vp8_M (received v) \<and> vp8_PictureID (received v) = 0"
    using assms by (simp add: received_def sendable_def)
  have r: "\<not> vp8_L v \<longrightarrow> vp8_TL0PICIDX (received v) = 0"
    "if vp8_T v then vp8_TID (received v) < 4 else vp8_TID (received v) = 0 \<and> \<not> vp8_Y (received v)"
    "if vp8_K v then vp8_KEYIDX (received v) < 32 else vp8_KEYIDX (received v) = 0"
    "vp8_HeaderSize (received v) = int (vp8_size v)"
    using assms by (simp_all add: received_def sendable_def)
  show ?thesis using f p r assms unfolding vp8_wf_def received_sel sendable_def by blast
qed

lemma sendable_marshal:
  assumes "sendable v"
  shows "\<exists>hdr. vp8_Marshal v = Inr hdr \<and> length hdr = vp8_size v \<and>
    (\<forall>b rest. vp8_Unmarshal VP8_zero (Some (hdr @ b # rest)) =
      ((received v)\<lparr>vp8_IsKeyFrame := (b AND 1) = 0 \<and> vp8_S (received v)\<rparr>, None))"
  using assms Marshal_bytes [of v] Unmarshal_bytes [OF received_wf [OF assms]] length_vp8_bytes [of v]
  by (simp add: sendable_def received_bytes)

lemma pid_less: "word_of_int (x mod 2 ^ 15) < (0x8000 :: u16)"
  by (simp add: word_less_def uint_word_of_int_eq take_bit_eq_mod)

text \<open>Rewriting a parsed descriptor gives a sendable one, with the header adjusted to the id's width.\<close>

lemma munged_sendable:
  assumes p: "vp8_parsed vp8" and b: "pid < 0x8000"
  shows "sendable (mungedVP8 vp8 pid tl0 key)"
proof -
  let ?v = "mungedVP8 vp8 pid tl0 key"
  have "pid \<le> 127 \<Longrightarrow> pid < 0x80" using inc_le [of pid 128] by (simp add: word_le_nat_alt word_less_nat_alt)
  then have pid: "pid < (if 127 < pid then 0x8000 else 0x80)" using b by (cases "127 < pid") (simp_all add: not_less)
  have sz: "int (vp8_size ?v) \<le> vp8_HeaderSize ?v"
  proof (cases "vp8_I vp8")
    case True
    then have "vp8_HeaderSize vp8 = int (vp8_size vp8)" using p by (auto simp: vp8_parsed_def vp8_ext_def)
    then show ?thesis
      using True by (simp add: mungedVP8_def vp8_size_def vp8_ext_def VPxPictureIdSizeDiff_def)
  next
    case False
    then have "\<not> vp8_M vp8" using p by (simp add: vp8_parsed_def)
    moreover have "vp8_size ?v = vp8_size vp8" using False by (simp add: mungedVP8_def vp8_size_def vp8_ext_def)
    ultimately show ?thesis using parsed_size(1) [OF p] by (simp add: mungedVP8_def VPxPictureIdSizeDiff_def)
  qed
  have "vp8_TID vp8 < 4" "vp8_L vp8 \<longrightarrow> vp8_T vp8"
    using p by (cases "vp8_T vp8"; simp add: vp8_parsed_def)+
  moreover have "vp8_TID ?v = vp8_TID vp8" "vp8_L ?v = vp8_L vp8" "vp8_T ?v = vp8_T vp8"
    "vp8_PictureID ?v = pid" "vp8_M ?v = (127 < pid)" by (simp_all add: mungedVP8_def)
  ultimately show ?thesis using pid sz unfolding sendable_def by presburger
qed

lemma marshalled_ok:
  assumes "vp8_parsed vp8" "pid < 0x8000"
  shows "\<exists>hdr. marshalled vp8 (mungedVP8 vp8 pid tl0 key) = Inr (vp8_HeaderSize vp8, hdr) \<and>
    length hdr = vp8_size (mungedVP8 vp8 pid tl0 key) \<and>
    (\<forall>b rest. vp8_Unmarshal VP8_zero (Some (hdr @ b # rest)) =
      ((received (mungedVP8 vp8 pid tl0 key))\<lparr>vp8_IsKeyFrame := (b AND 1) = 0 \<and>
        vp8_S (received (mungedVP8 vp8 pid tl0 key))\<rparr>, None))"
  using sendable_marshal [OF munged_sendable [OF assms, of tl0 key]] by (auto simp: marshalled_def)

section \<open>Runs of contiguous packets\<close>

text \<open>A packet of picture \<open>n\<close> of a stream with 15-bit picture ids.\<close>

definition picture :: "int \<Rightarrow> ExtPacket \<Rightarrow> bool" where
  "picture n p \<longleftrightarrow> (case ep_Payload p of
     PayloadVP8 vp8 \<Rightarrow> vp8_parsed vp8 \<and> vp8_I vp8 \<and> vp8_M vp8 \<and> vp8_PictureID vp8 = word_of_int (n mod 2 ^ 15)
   | _ \<Rightarrow> False)"

text \<open>The munger has just seen picture \<open>n\<close>; the last outgoing id is its translation.\<close>

definition in_sync :: "('m, 'b) VP8Munger \<Rightarrow> int \<Rightarrow> bool" where
  "in_sync v n \<longleftrightarrow> wh15 (pictureIdWrapHandler v) \<and> wh_maxPictureId (pictureIdWrapHandler v) = n \<and>
     extLastPictureId v = n - pictureIdOffset v"

lemma contiguous_step:
  fixes maxT :: int and mo :: "('m, int) OrderedMapOps" and bo :: "('b, bool) OrderedMapOps"
  assumes sync: "in_sync v n0" and pic: "picture n p" and n: "n = n0 \<or> n = n0 + 1" "0 \<le> n"
  defines "q \<equiv> vp8_UpdateAndGet mo bo v p False False maxT"
  shows "in_sync (fst q) n \<and>
    (snd q = Inl ErrFilteredVP8TemporalLayer \<and> extLastPictureId (fst q) = extLastPictureId v \<or>
     (\<exists>hs hdr. snd q = Inr (hs, hdr) \<and> extLastPictureId (fst q) = extLastPictureId v + (n - n0) \<and>
       (\<forall>b rest. \<exists>r. vp8_Unmarshal VP8_zero (Some (hdr @ b # rest)) = (r, None) \<and>
         vp8_PictureID r = word_of_int (extLastPictureId (fst q) mod 2 ^ 15))))"
proof -
  define pid0 :: u16 where "pid0 = word_of_int (n mod 2 ^ 15)"
  obtain vp8 where vp8: "ep_Payload p = PayloadVP8 vp8" "vp8_parsed vp8" "vp8_I vp8" "vp8_M vp8"
    "vp8_PictureID vp8 = pid0"
    using pic by (auto simp: picture_def pid0_def split: codecPayload.splits)
  have w: "wh15 (pictureIdWrapHandler v)" and mx: "wh_maxPictureId (pictureIdWrapHandler v) = n0"
    and el: "extLastPictureId v = n0 - pictureIdOffset v" using sync by (simp_all add: in_sync_def)
  obtain wh' where u: "wh_Unwrap (pictureIdWrapHandler v) pid0 True = (wh', n)"
    and m': "wh_maxPictureId wh' = n0" and w': "wh15 (wh_UpdateMaxPictureId wh' n True)"
    using Unwrap15 [OF w n(2), folded pid0_def] n(1) mx
    by (cases "wh_Unwrap (pictureIdWrapHandler v) pid0 True") auto
  define v1 where "v1 = v\<lparr>pictureIdWrapHandler := wh_UpdateMaxPictureId wh' n True\<rparr>"
  have mn: "wh_maxPictureId (wh_UpdateMaxPictureId wh' n True) = n" by (simp add: wh_UpdateMaxPictureId_def)
  show ?thesis
  proof (cases "Temporal (ep_VideoLayer p) > maxT \<and> om_Get bo (exemptedPictureIds v) n = None")
    case True
    have q: "q = (if n0 \<noteq> n
        then v1\<lparr>droppedPictureIds := trimCache bo droppedPictureIdsThreshold (om_Set bo (droppedPictureIds v) n True),
          pictureIdOffset := pictureIdOffset v + 1\<rparr>
        else v1, Inl ErrFilteredVP8TemporalLayer)"
      using True by (simp add: q_def vp8_UpdateAndGet_def vp8 u Let_def wh_MaxPictureId_def m' v1_def)
    show ?thesis using n(1) w' mn el by (auto simp: q v1_def in_sync_def)
  next
    case False
    let ?id = "n - pictureIdOffset v"
    let ?tl0 = "vp8_TL0PICIDX vp8 - tl0PicIdxOffset v" and ?key = "(vp8_KEYIDX vp8 - keyIdxOffset v) AND 0x1f"
    let ?pid = "word_of_int (?id mod 2 ^ 15) :: u16"
    have q: "q = (v1\<lparr>extLastPictureId := ?id, lastTl0PicIdx := ?tl0, lastKeyIdx := ?key\<rparr>,
        marshalled vp8 (mungedVP8 vp8 ?pid ?tl0 ?key))"
      using False
      by (auto simp: q_def vp8_UpdateAndGet_def vp8 u Let_def wh_MaxPictureId_def m' v1_def
          forwardInOrder_def int_and_masks)
    obtain hdr where m: "marshalled vp8 (mungedVP8 vp8 ?pid ?tl0 ?key) = Inr (vp8_HeaderSize vp8, hdr)"
      and d: "\<forall>b rest. vp8_Unmarshal VP8_zero (Some (hdr @ b # rest)) =
        ((received (mungedVP8 vp8 ?pid ?tl0 ?key))\<lparr>vp8_IsKeyFrame := (b AND 1) = 0 \<and>
          vp8_S (received (mungedVP8 vp8 ?pid ?tl0 ?key))\<rparr>, None)"
      using marshalled_ok [OF vp8(2) pid_less, of ?id ?tl0 ?key] by blast
    have "vp8_PictureID (received (mungedVP8 vp8 ?pid ?tl0 ?key)) = ?pid"
      using vp8(3) by (simp add: received_def mungedVP8_def)
    then show ?thesis using w' mn el d m by (simp add: q v1_def in_sync_def)
  qed
qed

text \<open>
  The munger over packets that arrive in order without gaps, each with the highest temporal layer
  allowed for it: the extended picture ids of the packets that are sent.
\<close>

fun vp8_run :: "('m, int) OrderedMapOps \<Rightarrow> ('b, bool) OrderedMapOps \<Rightarrow> ('m, 'b) VP8Munger \<Rightarrow>
    (ExtPacket \<times> int) list \<Rightarrow> int list" where
  "vp8_run mo bo v [] = []"
| "vp8_run mo bo v ((p, maxT) # ps) =
     (case vp8_UpdateAndGet mo bo v p False False maxT of
        (v', Inl _) \<Rightarrow> vp8_run mo bo v' ps
      | (v', Inr _) \<Rightarrow> extLastPictureId v' # vp8_run mo bo v' ps)"

definition same_or_next :: "int \<Rightarrow> int \<Rightarrow> bool" where
  "same_or_next a b \<longleftrightarrow> b = a \<or> b = a + 1"

lemma vp8_run_continuous:
  assumes "in_sync v n0" "list_all2 (\<lambda>n (p, maxT). picture n p) ns ps" "successively same_or_next (n0 # ns)"
    and "\<forall>n\<in>set ns. 0 \<le> n"
  shows "successively same_or_next (extLastPictureId v # vp8_run mo bo v ps)"
  using assms
proof (induction ps arbitrary: v n0 ns)
  case (Cons pt ps)
  obtain p maxT where pt: "pt = (p, maxT)" by fastforce
  obtain n ns' where ns: "ns = n # ns'" and pic: "picture n p"
    and rest: "list_all2 (\<lambda>n (p, maxT). picture n p) ns' ps"
    using Cons.prems(2) pt by (auto simp: list_all2_Cons2)
  have n: "n = n0 \<or> n = n0 + 1" "0 \<le> n" and suc: "successively same_or_next (n # ns')"
    using Cons.prems(3,4) ns by (auto simp: same_or_next_def successively_Cons)
  obtain v' r where q: "vp8_UpdateAndGet mo bo v p False False maxT = (v', r)" by fastforce
  have step: "in_sync v' n" "r = Inl ErrFilteredVP8TemporalLayer \<and> extLastPictureId v' = extLastPictureId v \<or>
      (\<exists>hs hdr. r = Inr (hs, hdr)) \<and> extLastPictureId v' = extLastPictureId v + (n - n0)"
    using contiguous_step [OF Cons.prems(1) pic n, of mo bo maxT] q by auto
  have "\<forall>n\<in>set ns'. 0 \<le> n" using Cons.prems(4) ns by simp
  note IH = Cons.IH [OF step(1) rest suc this]
  show ?case using step(2) IH n(1) by (auto simp: pt q same_or_next_def)
qed simp

section \<open>Properties\<close>

text \<open>
  Unwrapping is exact: in a stream with 15-bit picture ids the wrap handler reconstructs every
  extended picture id that is less than \<open>2 ^ 14\<close> away from the highest one, in both directions and
  across wrap-arounds, and advancing to a newer picture keeps the handler in this state.
\<close>

theorem picture_id_unwrap_exact:
  assumes "wh15 v" "0 \<le> n" "wh_maxPictureId v - 2 ^ 14 < n" "n < wh_maxPictureId v + 2 ^ 14"
  shows "\<exists>v'. wh_Unwrap v (word_of_int (n mod 2 ^ 15)) True = (v', n) \<and>
    (if wh_maxPictureId v \<le> n then wh15 (wh_UpdateMaxPictureId v' n True) else v' = v)"
  using Unwrap15 [OF assms] by (cases "wh_Unwrap v (word_of_int (n mod 2 ^ 15)) True") auto

definition demo_wh :: VP8PictureIdWrapHandler where
  "demo_wh = \<lparr>wh_maxPictureId = 65530, wh_maxMBit = True, wh_totalWrap = 32768, wh_lastWrap = 32768\<rparr>"

theorem picture_id_unwrap_exact_witness:
  "wh15 demo_wh \<and> (\<exists>v'. wh_Unwrap demo_wh 4 True = (v', 65540)) \<and> wh_Unwrap demo_wh 32700 True = (demo_wh, 65468)"
proof -
  have w: "wh15 demo_wh" by (simp add: wh15_def demo_wh_def)
  have "\<exists>v'. wh_Unwrap demo_wh 4 True = (v', 65540)"
    using picture_id_unwrap_exact [OF w, of 65540] by (auto simp: demo_wh_def)
  moreover have "wh_Unwrap demo_wh 32700 True = (demo_wh, 65468)"
    using picture_id_unwrap_exact [OF w, of 65468] by (auto simp: demo_wh_def)
  ultimately show ?thesis using w by blast
qed

text \<open>
  C24: Outgoing picture ids are continuous: after a switch to a new source, while its packets
  arrive in order without gaps and its pictures follow each other, every packet that is sent has
  the picture id of the previous sent packet or the next one. Dropping the pictures of filtered
  temporal layers, or changing the allowed layer at any packet, leaves no hole, and the first
  picture after the switch continues the old source's ids.
\<close>

theorem picture_ids_continuous:
  assumes "pictureIdUsed v" "picture n p" "0 \<le> n" "n < 2 ^ 15"
    and "list_all2 (\<lambda>k (q, maxT). picture k q) ns ps" "successively same_or_next ((n - 1) # ns)" "\<forall>k\<in>set ns. 0 \<le> k"
  shows "successively same_or_next
    (extLastPictureId v # vp8_run mo bo (vp8_UpdateOffsets mo bo v p) ps)"
proof -
  obtain vp8 where vp8: "ep_Payload p = PayloadVP8 vp8" "vp8_M vp8" "vp8_PictureID vp8 = word_of_int (n mod 2 ^ 15)"
    using assms(2) by (auto simp: picture_def split: codecPayload.splits)
  have "uint (vp8_PictureID vp8) = n" using assms(3,4) by (simp add: vp8 uint_word_of_int_eq take_bit_eq_mod)
  then have "in_sync (vp8_UpdateOffsets mo bo v p) (n - 1)"
    "extLastPictureId (vp8_UpdateOffsets mo bo v p) = extLastPictureId v"
    using assms(1,3,4) by (simp_all add: vp8_UpdateOffsets_def vp8(1,2) in_sync_def wh15_def wh_Init_def Let_def)
  then show ?thesis using vp8_run_continuous [OF _ assms(5,6,7)] by metis
qed

definition demo_vp8_pkt :: "u16 \<Rightarrow> int \<Rightarrow> ExtPacket" where
  "demo_vp8_pkt pid tid = \<lparr>ep_VideoLayer = \<lparr>Spatial = 0, Temporal = tid\<rparr>, ep_Arrival = 0,
     ep_ExtSequenceNumber = 0, ep_ExtTimestamp = 0,
     ep_Packet = \<lparr>rtp_SequenceNumber = 0, rtp_Timestamp = 0, rtp_Marker = True, rtp_SSRC = 1, rtp_PayloadType = 96, rtp_Payload = [1]\<rparr>,
     ep_Payload = PayloadVP8 (vp8_demo\<lparr>vp8_PictureID := pid\<rparr>), ep_IsKeyFrame = False,
     ep_DependencyDescriptor = None, ep_IsOutOfOrder = False\<rparr>"

lemma demo_picture: "pid = word_of_int (n mod 2 ^ 15) \<Longrightarrow> picture n (demo_vp8_pkt pid tid)"
  using pid_less [of n]
  by (auto simp: picture_def demo_vp8_pkt_def vp8_parsed_def vp8_demo_def vp8_ext_def vp8_size_def)

definition demo_vp8 :: "((int, int) alist, (int, bool) alist) VP8Munger" where
  "demo_vp8 = vp8_SetLast (NewVP8 alist_ops alist_ops) (demo_vp8_pkt 700 0)"

theorem picture_ids_continuous_witness:
  "successively same_or_next (700 # vp8_run alist_ops alist_ops
     (vp8_UpdateOffsets alist_ops alist_ops demo_vp8 (demo_vp8_pkt 32767 0))
     [(demo_vp8_pkt 32767 0, 1), (demo_vp8_pkt 0 2, 1), (demo_vp8_pkt 1 0, 1)])"
proof -
  let ?ps = "[(demo_vp8_pkt 32767 0, 1), (demo_vp8_pkt 0 2, 1), (demo_vp8_pkt 1 0, 1)]"
  have d: "pictureIdUsed demo_vp8" "extLastPictureId demo_vp8 = 700"
    by (simp_all add: demo_vp8_def vp8_SetLast_def demo_vp8_pkt_def vp8_demo_def Let_def)
  have p: "picture 32767 (demo_vp8_pkt 32767 0)" "picture 32768 (demo_vp8_pkt 0 2)" "picture 32769 (demo_vp8_pkt 1 0)"
    by (simp_all add: demo_picture)
  then have l: "list_all2 (\<lambda>k (q, maxT). picture k q) [32767, 32768, 32769] ?ps" by simp
  have s: "successively same_or_next ((32767 - 1) # [32767, 32768, 32769])" by (simp add: same_or_next_def)
  show ?thesis
    using picture_ids_continuous [OF d(1) p(1) _ _ l s, of alist_ops alist_ops] d(2) by simp
qed

text \<open>
  The rewritten header is valid: for a packet whose VP8 descriptor was parsed, the munger never
  fails to marshal, and a receiver that parses the new header in front of any payload reads the
  same flags and temporal layer and, for an in-order packet, exactly the picture id, TL0PICIDX and
  KEYIDX that the munger recorded as its last ones.
\<close>

theorem munged_header_readable:
  assumes "ep_Payload p = PayloadVP8 vp8" "vp8_parsed vp8"
    and "vp8_UpdateAndGet mo bo v p snOutOfOrder snHasGap maxT = (v', r)"
  shows "(\<forall>e. r \<noteq> Inl (ErrMarshal e)) \<and>
    (\<forall>hs hdr. r = Inr (hs, hdr) \<longrightarrow> hs = vp8_HeaderSize vp8 \<and>
      (\<forall>b rest. \<exists>d. vp8_Unmarshal VP8_zero (Some (hdr @ b # rest)) = (d, None) \<and>
        vp8_HeaderSize d = int (length hdr) \<and> vp8_I d = vp8_I vp8 \<and> vp8_L d = vp8_L vp8 \<and>
        vp8_T d = vp8_T vp8 \<and> vp8_K d = vp8_K vp8 \<and> (vp8_T vp8 \<longrightarrow> vp8_TID d = vp8_TID vp8 \<and> vp8_Y d = vp8_Y vp8) \<and>
        (\<not> snOutOfOrder \<longrightarrow>
          (vp8_I vp8 \<longrightarrow> vp8_PictureID d = word_of_int (extLastPictureId v' mod 2 ^ 15)) \<and>
          (vp8_L vp8 \<longrightarrow> vp8_TL0PICIDX d = lastTl0PicIdx v') \<and>
          (vp8_K vp8 \<longrightarrow> vp8_KEYIDX d = lastKeyIdx v'))))"
proof -
  obtain wh ext where u: "wh_Unwrap (pictureIdWrapHandler v) (vp8_PictureID vp8) (vp8_M vp8) = (wh, ext)" by fastforce
  have ok: "\<exists>hdr. marshalled vp8 (mungedVP8 vp8 (word_of_int (x AND 0x7fff)) tl0 key) = Inr (vp8_HeaderSize vp8, hdr) \<and>
      (\<forall>b rest. \<exists>d. vp8_Unmarshal VP8_zero (Some (hdr @ b # rest)) = (d, None) \<and>
        vp8_HeaderSize d = int (length hdr) \<and> vp8_I d = vp8_I vp8 \<and> vp8_L d = vp8_L vp8 \<and>
        vp8_T d = vp8_T vp8 \<and> vp8_K d = vp8_K vp8 \<and> (vp8_T vp8 \<longrightarrow> vp8_TID d = vp8_TID vp8 \<and> vp8_Y d = vp8_Y vp8) \<and>
        (vp8_I vp8 \<longrightarrow> vp8_PictureID d = word_of_int (x mod 2 ^ 15)) \<and>
        (vp8_L vp8 \<longrightarrow> vp8_TL0PICIDX d = tl0) \<and> (vp8_K vp8 \<longrightarrow> vp8_KEYIDX d = key AND 0x1f))" for x tl0 key
  proof -
    let ?m = "mungedVP8 vp8 (word_of_int (x mod 2 ^ 15)) tl0 key"
    have "vp8_HeaderSize (received ?m) = int (vp8_size ?m)" by (simp add: received_def)
    then show ?thesis
      using marshalled_ok [OF assms(2) pid_less, of x tl0 key] unfolding int_and_masks
      by (fastforce simp: received_def mungedVP8_def)
  qed
  show ?thesis
  proof (cases snOutOfOrder)
    case True
    then have r: "r = updateOutOfOrder mo (v\<lparr>pictureIdWrapHandler := wh\<rparr>) vp8 ext"
      using assms(1,3) by (auto simp: vp8_UpdateAndGet_def u Let_def)
    show ?thesis
    proof (cases "om_Get mo (missingPictureIds v) ext")
      case None
      then show ?thesis by (simp add: r updateOutOfOrder_def)
    next
      case (Some off)
      then show ?thesis
        using ok [of "ext - off" "vp8_TL0PICIDX vp8 - tl0PicIdxOffset v" "vp8_KEYIDX vp8 - keyIdxOffset v"] True
        by (auto simp: r updateOutOfOrder_def Let_def) blast
    qed
  next
    case False
    then consider "r = Inl ErrFilteredVP8TemporalLayer" | v1 where "forwardInOrder v1 vp8 ext = (v', r)"
      using assms(1,3) by (auto simp: vp8_UpdateAndGet_def u Let_def split: if_splits)
    then show ?thesis
    proof cases
      case 2
      then show ?thesis
        using ok [of "ext - pictureIdOffset v1" "vp8_TL0PICIDX vp8 - tl0PicIdxOffset v1"
            "(vp8_KEYIDX vp8 - keyIdxOffset v1) AND 0x1f"] False
        by (auto simp: forwardInOrder_def Let_def and.assoc)
    qed simp
  qed
qed

lemma vp8_demo_parsed: "vp8_parsed vp8_demo"
  by (simp add: vp8_parsed_def vp8_demo_def vp8_ext_def vp8_size_def)

theorem munged_header_readable_witness:
  "\<exists>v' hdr. vp8_UpdateAndGet alist_ops alist_ops demo_vp8 (demo_vp8_pkt 0x1234 0) False False 2 =
      (v', Inr (6, hdr)) \<and>
     (\<exists>d. vp8_Unmarshal VP8_zero (Some (hdr @ [0x10])) = (d, None) \<and> vp8_TID d = 2 \<and>
       vp8_PictureID d = word_of_int (extLastPictureId v' mod 2 ^ 15))"
proof -
  have p: "ep_Payload (demo_vp8_pkt 0x1234 0) = PayloadVP8 vp8_demo" by (simp add: demo_vp8_pkt_def vp8_demo_def)
  obtain v' r where q: "vp8_UpdateAndGet alist_ops alist_ops demo_vp8 (demo_vp8_pkt 0x1234 0) False False 2 = (v', r)"
    by fastforce
  have t: "vp8_T vp8_demo" "vp8_TID vp8_demo = 2" "vp8_I vp8_demo" "vp8_HeaderSize vp8_demo = 6"
    "Temporal (ep_VideoLayer (demo_vp8_pkt 0x1234 0)) = 0"
    by (simp_all add: vp8_demo_def demo_vp8_pkt_def)
  note M = munged_header_readable [OF p vp8_demo_parsed q]
  obtain wh e where u: "wh_Unwrap (pictureIdWrapHandler demo_vp8) (vp8_PictureID vp8_demo) (vp8_M vp8_demo) = (wh, e)"
    by fastforce
  have "\<exists>x. r = Inr x"
  proof (cases r)
    case (Inl err)
    have "(v', r) = forwardInOrder (demo_vp8\<lparr>pictureIdWrapHandler := wh_UpdateMaxPictureId wh e (vp8_M vp8_demo)\<rparr>) vp8_demo e"
      using q p t by (simp add: vp8_UpdateAndGet_def u Let_def)
    then have "\<exists>e'. r = Inl (ErrMarshal e')"
      using Inl by (auto simp: forwardInOrder_def Let_def marshalled_def split: sum.splits)
    then show ?thesis using M by blast
  qed simp
  then show ?thesis using q M t by fastforce
qed

text \<open>
  Bounded caches: whatever packets arrive, the caches of missing, dropped and exempted picture
  ids never hold more than 50, 20 and 20 entries, given the documented behaviour of the ordered
  map; in particular the eviction loops terminate with the cache at its threshold.
\<close>

theorem picture_id_caches_bounded:
  assumes "ordered_map mo em" "ordered_map bo eb"
    and "om_Len mo (missingPictureIds v) \<le> 50 \<and> om_Len bo (droppedPictureIds v) \<le> 20 \<and>
      om_Len bo (exemptedPictureIds v) \<le> 20"
    and "v' = fst (vp8_UpdateAndGet mo bo v p snOutOfOrder snHasGap maxT) \<or> v' = vp8_UpdateOffsets mo bo v p \<or>
      v' = NewVP8 mo bo"
  shows "om_Len mo (missingPictureIds v') \<le> 50 \<and> om_Len bo (droppedPictureIds v') \<le> 20 \<and>
    om_Len bo (exemptedPictureIds v') \<le> 20"
proof -
  have m: "om_Len mo (trimCache mo missingPictureIdsThreshold x) \<le> 50" for x
    using ordered_map.trimCache_len [OF assms(1)] by (simp add: missingPictureIdsThreshold_def)
  have d: "om_Len bo (trimCache bo droppedPictureIdsThreshold x) \<le> 20" for x
    using ordered_map.trimCache_len [OF assms(2)] by (simp add: droppedPictureIdsThreshold_def)
  have e: "om_Len bo (trimCache bo exemptedPictureIdsThreshold x) \<le> 20" for x
    using ordered_map.trimCache_len [OF assms(2)] by (simp add: exemptedPictureIdsThreshold_def)
  have n: "om_Len mo (om_New mo) = 0" "om_Len bo (om_New bo) = 0"
    using ordered_map.len_entries [OF assms(1)] ordered_map.entries_new [OF assms(1)]
      ordered_map.len_entries [OF assms(2)] ordered_map.entries_new [OF assms(2)] by simp_all
  from assms(4) show ?thesis
  proof (elim disjE)
    assume "v' = fst (vp8_UpdateAndGet mo bo v p snOutOfOrder snHasGap maxT)"
    then show ?thesis
      using assms(3) m d e
      by (auto simp: vp8_UpdateAndGet_def Let_def forwardInOrder_def recordMissing_def
          split: codecPayload.split prod.split)
  qed (use n assms(3) in \<open>auto simp: vp8_UpdateOffsets_def NewVP8_def Let_def split: codecPayload.split\<close>)
qed

theorem picture_id_caches_bounded_witness:
  "om_Len alist_ops (missingPictureIds (fst (vp8_UpdateAndGet alist_ops alist_ops demo_vp8 (demo_vp8_pkt 900 0)
     False True 2))) \<le> 50"
proof -
  have "om_Len alist_ops (missingPictureIds demo_vp8) \<le> 50 \<and> om_Len alist_ops (droppedPictureIds demo_vp8) \<le> 20 \<and>
      om_Len alist_ops (exemptedPictureIds demo_vp8) \<le> 20"
    by (simp add: demo_vp8_def vp8_SetLast_def demo_vp8_pkt_def NewVP8_def Let_def vp8_demo_def
        alist_map.len_entries alist_map.entries_new)
  from picture_id_caches_bounded [OF alist_map.ordered_map_axioms alist_map.ordered_map_axioms this, of _ "demo_vp8_pkt 900 0" False True 2]
  show ?thesis by blast
qed

end
