(* ===== verification/Go_Floats.thy ===== *)
theory Go_Floats
  imports Prelude Complex_Main "HOL-Library.Log_Nat"
begin

text \<open>
  Go's binary floating point numbers, as far as the forwarder uses them: results of conversions and divisions rounded to the
  nearest representable value with ties to even. The exponents that occur are far from the limits of the formats, so numbers
  are rationals with a significand of \<open>p\<close> bits (24 for \<^verbatim>\<open>float32\<close>, 53 for \<^verbatim>\<open>float64\<close>); a division by zero gives an
  infinity or a NaN, which compares false with everything.
\<close>

section \<open>Rounding\<close>

definition pow2 :: "int \<Rightarrow> rat" where
  "pow2 e = (if e \<ge> 0 then 2 ^ nat e else 1 / 2 ^ nat (- e))"

text \<open>The exponent of the leading bit of a positive number.\<close>

definition leadingExp :: "rat \<Rightarrow> int" where
  "leadingExp x = (case quotient_of x of (a, b) \<Rightarrow>
     let e = bitlen a - bitlen b in if pow2 e \<le> x then e else e - 1)"

definition roundHalfEven :: "rat \<Rightarrow> int" where
  "roundHalfEven m =
     (let n = \<lfloor>m\<rfloor>; d = m - of_int n in
      if d < 1 / 2 then n else if d > 1 / 2 then n + 1 else if even n then n else n + 1)"

definition roundBits :: "nat \<Rightarrow> rat \<Rightarrow> rat" where
  "roundBits p x =
     (if x = 0 then 0
      else let ulp = pow2 (leadingExp \<bar>x\<bar> - int p + 1) in of_int (roundHalfEven (x / ulp)) * ulp)"

section \<open>Division and comparison\<close>

datatype goFloat = Fin rat | PosInf | NegInf | NaN

definition floatDiv :: "nat \<Rightarrow> int \<Rightarrow> int \<Rightarrow> goFloat" where
  "floatDiv p a b =
     (if b = 0 then (if a > 0 then PosInf else if a < 0 then NegInf else NaN)
      else Fin (roundBits p (roundBits p (of_int a) / roundBits p (of_int b))))"

fun floatGt :: "goFloat \<Rightarrow> rat \<Rightarrow> bool" where
  "floatGt (Fin x) c \<longleftrightarrow> x > c"
| "floatGt PosInf c \<longleftrightarrow> True"
| "floatGt NegInf c \<longleftrightarrow> False"
| "floatGt NaN c \<longleftrightarrow> False"

fun floatGe :: "goFloat \<Rightarrow> rat \<Rightarrow> bool" where
  "floatGe (Fin x) c \<longleftrightarrow> x \<ge> c"
| "floatGe PosInf c \<longleftrightarrow> True"
| "floatGe NegInf c \<longleftrightarrow> False"
| "floatGe NaN c \<longleftrightarrow> False"

fun floatLt :: "goFloat \<Rightarrow> rat \<Rightarrow> bool" where
  "floatLt (Fin x) c \<longleftrightarrow> x < c"
| "floatLt PosInf c \<longleftrightarrow> False"
| "floatLt NegInf c \<longleftrightarrow> True"
| "floatLt NaN c \<longleftrightarrow> False"

fun floatAbs :: "goFloat \<Rightarrow> goFloat" where
  "floatAbs (Fin x) = Fin \<bar>x\<bar>"
| "floatAbs PosInf = PosInf"
| "floatAbs NegInf = PosInf"
| "floatAbs NaN = NaN"

section \<open>Signs\<close>

lemma pow2_pos [simp]: "pow2 e > 0"
  by (simp add: pow2_def)

lemma pow2_add: "pow2 (a + b) = pow2 a * pow2 b"
proof -
  have "pow2 e = 2 powi e" for e by (simp add: pow2_def power_int_def field_simps)
  then show ?thesis by (simp add: power_int_add)
qed

lemma pow2_nat: "pow2 (int n) = 2 ^ n"
  by (simp add: pow2_def)

lemma leadingExp_le:
  assumes "x > 0"
  shows "pow2 (leadingExp x) \<le> x"
proof -
  obtain a b where q: "quotient_of x = (a, b)" by (cases "quotient_of x")
  then have b: "b > 0" and x: "x = of_int a / of_int b"
    by (auto simp: quotient_of_denom_pos quotient_of_div)
  with assms have a: "a > 0" by (simp add: zero_less_divide_iff)
  define e where "e = bitlen a - bitlen b"
  have "2 ^ nat (bitlen a - 1) \<le> a" "b \<le> 2 ^ nat (bitlen b)" using a b bitlen_bounds [of a] bitlen_bounds [of b] by simp_all
  then have "of_int (2 ^ nat (bitlen a - 1)) \<le> (of_int a :: rat)" "(of_int b :: rat) \<le> of_int (2 ^ nat (bitlen b))"
    unfolding of_int_le_iff .
  moreover have "bitlen a \<ge> 1" using a by (simp add: bitlen_ge_iff_power)
  ultimately have bd: "pow2 (bitlen a - 1) \<le> of_int a" "of_int b \<le> pow2 (bitlen b)"
    using bitlen_nonneg [of b] by (simp_all add: pow2_def)
  have "pow2 (bitlen a - 1) = pow2 (e - 1) * pow2 (bitlen b)" by (simp flip: pow2_add add: e_def)
  then have "pow2 (e - 1) * of_int b \<le> of_int a"
    using bd mult_left_mono [OF bd(2), of "pow2 (e - 1)"] by (smt (verit) pow2_pos order_trans less_imp_le)
  then have "pow2 (e - 1) \<le> x" using b by (simp add: x field_simps)
  then show ?thesis by (simp add: leadingExp_def q Let_def flip: e_def)
qed


lemma roundHalfEven_sign: "m \<ge> 1 \<Longrightarrow> roundHalfEven m \<ge> 1" "m \<le> - 1 \<Longrightarrow> roundHalfEven m \<le> - 1"
proof -
  have "of_int \<lfloor>m\<rfloor> \<le> m" "m < of_int \<lfloor>m\<rfloor> + 1" by linarith+
  then show "m \<ge> 1 \<Longrightarrow> roundHalfEven m \<ge> 1" "m \<le> - 1 \<Longrightarrow> roundHalfEven m \<le> - 1"
    by (auto simp: roundHalfEven_def Let_def) linarith+
qed

lemma scaled_ge_1:
  assumes "x \<noteq> 0" "p \<ge> 1"
  shows "1 \<le> \<bar>x\<bar> / pow2 (leadingExp \<bar>x\<bar> - int p + 1)"
proof -
  have "1 \<le> pow2 (int p - 1)" using assms(2) by (simp add: pow2_def)
  then have "pow2 (leadingExp \<bar>x\<bar> - int p + 1) \<le> pow2 (leadingExp \<bar>x\<bar> - int p + 1) * pow2 (int p - 1)"
    using mult_left_mono [of 1 "pow2 (int p - 1)" "pow2 (leadingExp \<bar>x\<bar> - int p + 1)"] by (simp add: less_imp_le)
  also have "\<dots> = pow2 (leadingExp \<bar>x\<bar>)" by (simp flip: pow2_add)
  also have "\<dots> \<le> \<bar>x\<bar>" using assms(1) by (intro leadingExp_le) simp
  finally show ?thesis by (simp add: le_divide_eq)
qed

lemma roundBits_sign:
  assumes "p \<ge> 1"
  shows "roundBits p x > 0 \<longleftrightarrow> x > 0" "roundBits p x < 0 \<longleftrightarrow> x < 0"
proof -
  define u where "u = pow2 (leadingExp \<bar>x\<bar> - int p + 1)"
  have u: "u > 0" by (simp add: u_def)
  have r: "x \<noteq> 0 \<Longrightarrow> roundBits p x = of_int (roundHalfEven (x / u)) * u" by (simp add: roundBits_def u_def Let_def)
  have "x > 0 \<Longrightarrow> 1 \<le> x / u" "x < 0 \<Longrightarrow> x / u \<le> - 1"
    using scaled_ge_1 [OF _ assms, of x] by (simp_all only: u_def [symmetric]) simp_all
  then have "x > 0 \<Longrightarrow> roundBits p x > 0" "x < 0 \<Longrightarrow> roundBits p x < 0"
    using roundHalfEven_sign [of "x / u"] u r by (auto simp: mult_less_0_iff zero_less_mult_iff)
  moreover have "roundBits p 0 = 0" by (simp add: roundBits_def)
  ultimately show "roundBits p x > 0 \<longleftrightarrow> x > 0" "roundBits p x < 0 \<longleftrightarrow> x < 0"
    by (metis less_asym less_irrefl linorder_neqE)+
qed

text \<open>The sign of a quotient of integers survives the rounding.\<close>

lemma floatDiv_sign:
  assumes "p \<ge> 1" "b > 0"
  shows "floatGt (floatDiv p a b) 0 \<longleftrightarrow> a > 0" "floatLt (floatDiv p a b) 0 \<longleftrightarrow> a < 0" "floatGe (floatDiv p a b) 0 \<longleftrightarrow> a \<ge> 0"
proof -
  have b: "roundBits p (of_int b) > 0" using assms by (simp add: roundBits_sign)
  show "floatGt (floatDiv p a b) 0 \<longleftrightarrow> a > 0" "floatLt (floatDiv p a b) 0 \<longleftrightarrow> a < 0"
    using b assms by (simp_all add: floatDiv_def roundBits_sign zero_less_divide_iff divide_less_0_iff)
  then show "floatGe (floatDiv p a b) 0 \<longleftrightarrow> a \<ge> 0"
    using assms by (simp add: floatDiv_def not_less [symmetric])
qed

end
