(* ===== verification/Forwarder.thy ===== *)
theory Forwarder
  imports RtpMunger Vp8_Munger DD_Selector Go_Floats "HOL-Library.Monad_Syntax"
begin

text \<open>
  The forwarder of a down track (\<^verbatim>\<open>forwarder.go\<close>): its data, the operations that change its settings, and the allocation of
  video layers. The translation of packets is in the theory that follows this one.

  Every method runs under the lock of the forwarder and is one atomic operation here. An operation that can index an array
  or dereference a pointer returns an \<open>option\<close>, where \<open>None\<close> is a run-time panic. Bit rates are integers without a bound: the
  values are far below the limits of \<^verbatim>\<open>int64\<close>. Logging is left out.
\<close>

section \<open>Data\<close>

datatype RTPCodecType = RTPCodecTypeUnknown | RTPCodecTypeAudio | RTPCodecTypeVideo

datatype MimeType = MimeTypeUnknown | MimeTypeVP8 | MimeTypeH264 | MimeTypeH265 | MimeTypeVP9 | MimeTypeAV1 | MimeTypeOther

datatype VideoLayer_Mode = VideoLayer_MODE_UNUSED | VideoLayer_ONE_SPATIAL_LAYER_PER_STREAM |
  VideoLayer_MULTIPLE_SPATIAL_LAYERS_PER_STREAM | VideoLayer_ONE_SPATIAL_LAYER_PER_STREAM_INCOMPLETE_RTCP_SR

datatype VideoPauseReason = VideoPauseReasonNone | VideoPauseReasonMuted | VideoPauseReasonPubMuted |
  VideoPauseReasonFeedDry | VideoPauseReasonBandwidth

text \<open>\<^verbatim>\<open>[DefaultMaxLayerSpatial + 1][DefaultMaxLayerTemporal + 1]int64\<close>\<close>

type_synonym Bitrates = "int list list"

definition noBitrates :: Bitrates where
  "noBitrates = replicate (nat (DefaultMaxLayerSpatial + 1)) (replicate (nat (DefaultMaxLayerTemporal + 1)) 0)"

definition brAt :: "Bitrates \<Rightarrow> VideoLayer \<Rightarrow> int option" where
  "brAt brs l =
     (if 0 \<le> Spatial l \<and> nat (Spatial l) < length brs \<and> 0 \<le> Temporal l \<and> nat (Temporal l) < length (brs ! nat (Spatial l))
      then Some (brs ! nat (Spatial l) ! nat (Temporal l)) else None)"

record VideoAllocation =
  va_PauseReason :: VideoPauseReason
  va_IsDeficient :: bool
  va_BandwidthRequested :: int
  va_BandwidthDelta :: int
  va_BandwidthNeeded :: int
  va_Bitrates :: Bitrates
  va_TargetLayer :: VideoLayer
  va_RequestLayerSpatial :: int
  va_MaxLayer :: VideoLayer
  va_DistanceToDesired :: goFloat

text \<open>The zero value of the struct, and the allocation before any feed is seen.\<close>

definition zeroLayer :: VideoLayer where
  "zeroLayer = \<lparr>Spatial = 0, Temporal = 0\<rparr>"

definition zeroAllocation :: VideoAllocation where
  "zeroAllocation = \<lparr>va_PauseReason = VideoPauseReasonNone, va_IsDeficient = False, va_BandwidthRequested = 0,
     va_BandwidthDelta = 0, va_BandwidthNeeded = 0, va_Bitrates = noBitrates, va_TargetLayer = zeroLayer,
     va_RequestLayerSpatial = 0, va_MaxLayer = zeroLayer, va_DistanceToDesired = Fin 0\<rparr>"

definition VideoAllocationDefault :: VideoAllocation where
  "VideoAllocationDefault = zeroAllocation\<lparr>va_PauseReason := VideoPauseReasonFeedDry, va_TargetLayer := InvalidLayer,
     va_RequestLayerSpatial := InvalidLayerSpatial, va_MaxLayer := InvalidLayer\<rparr>"

record VideoAllocationProvisional =
  pv_muted :: bool
  pv_pubMuted :: bool
  pv_maxSeenLayer :: VideoLayer
  pv_availableLayers :: "int list"
  pv_bitrates :: Bitrates
  pv_maxLayer :: VideoLayer
  pv_currentLayer :: VideoLayer
  pv_allocatedLayer :: VideoLayer

record VideoTransition =
  tx_From :: VideoLayer
  tx_To :: VideoLayer
  tx_BandwidthDelta :: int

definition zeroTransition :: VideoTransition where
  "zeroTransition = \<lparr>tx_From = zeroLayer, tx_To = zeroLayer, tx_BandwidthDelta = 0\<rparr>"

text \<open>The fields of the protobuf message that are read.\<close>

record RTCPSenderReportState =
  sr_RtpTimestamp :: u32
  sr_RtpTimestampExt :: u64
  sr_NtpTimestamp :: u64

record refInfo =
  ri_senderReport :: "RTCPSenderReportState option"
  ri_tsOffset :: u64
  ri_isTSOffsetValid :: bool

definition noRefInfo :: refInfo where
  "noRefInfo = \<lparr>ri_senderReport = None, ri_tsOffset = 0, ri_isTSOffsetValid = False\<rparr>"

text \<open>The implementations of the selector interface. They share the base; only three methods differ.\<close>

datatype VideoLayerSelector = VlsNull SelBase | VlsSimulcast SelBase | VlsVP9 SelBase | VlsDD DDSelector

fun vls_base :: "VideoLayerSelector \<Rightarrow> SelBase" where
  "vls_base (VlsNull b) = b"
| "vls_base (VlsSimulcast b) = b"
| "vls_base (VlsVP9 b) = b"
| "vls_base (VlsDD d) = ds_base d"

fun vls_onBase :: "(SelBase \<Rightarrow> SelBase) \<Rightarrow> VideoLayerSelector \<Rightarrow> VideoLayerSelector" where
  "vls_onBase f (VlsNull b) = VlsNull (f b)"
| "vls_onBase f (VlsSimulcast b) = VlsSimulcast (f b)"
| "vls_onBase f (VlsVP9 b) = VlsVP9 (f b)"
| "vls_onBase f (VlsDD d) = VlsDD (d\<lparr>ds_base := f (ds_base d)\<rparr>)"

fun vls_IsOvershootOkay :: "VideoLayerSelector \<Rightarrow> bool" where
  "vls_IsOvershootOkay (VlsSimulcast b) = True"
| "vls_IsOvershootOkay _ = False"

fun vls_CheckSync :: "VideoLayerSelector \<Rightarrow> bool \<times> int" where
  "vls_CheckSync (VlsDD d) = dds_CheckSync d"
| "vls_CheckSync v = CheckSync (vls_base v)"

definition NewSimulcastFromOther :: "VideoLayerSelector \<Rightarrow> VideoLayerSelector" where
  "NewSimulcastFromOther v = VlsSimulcast (vls_base v)"

definition NewVP9FromOther :: "VideoLayerSelector \<Rightarrow> VideoLayerSelector" where
  "NewVP9FromOther v = VlsVP9 (vls_base v)"

definition NewDependencyDescriptorFromOther :: "VideoLayerSelector \<Rightarrow> VideoLayerSelector" where
  "NewDependencyDescriptorFromOther v = VlsDD (NewDependencyDescriptor\<lparr>ds_base := vls_base v\<rparr>)"

record ('m, 'b) Forwarder =
  f_mime :: MimeType
  f_clockRate :: u32
  f_kind :: RTPCodecType
  f_skipReferenceTS :: bool
  f_disableOpportunisticAllocation :: bool
  f_muted :: bool
  f_pubMuted :: bool
  f_resumeBehindThreshold :: rat
  f_started :: bool
  f_preStartTime :: "int option"
  f_extFirstTS :: u64
  f_lastSSRC :: u32
  f_lastReferencePayloadType :: int
  f_lastSwitchExtIncomingTS :: u64
  f_referenceLayerSpatial :: int
  f_dummyStartTSOffset :: u64
  f_refInfos :: "refInfo list"
  f_refVideoLayerMode :: VideoLayer_Mode
  f_isDDAvailable :: bool
  f_provisional :: "VideoAllocationProvisional option"
  f_lastAllocation :: VideoAllocation
  f_rtpMunger :: RTPMunger
  f_vls :: VideoLayerSelector
  f_codecMunger :: "('m, 'b) CodecMunger"

abbreviation f_max :: "('m, 'b) Forwarder \<Rightarrow> VideoLayer" where "f_max f \<equiv> maxLayer (vls_base (f_vls f))"
abbreviation f_maxSeen :: "('m, 'b) Forwarder \<Rightarrow> VideoLayer" where "f_maxSeen f \<equiv> maxSeenLayer (vls_base (f_vls f))"
abbreviation f_current :: "('m, 'b) Forwarder \<Rightarrow> VideoLayer" where "f_current f \<equiv> currentLayer (vls_base (f_vls f))"
abbreviation f_target :: "('m, 'b) Forwarder \<Rightarrow> VideoLayer" where "f_target f \<equiv> targetLayer (vls_base (f_vls f))"

definition onVls :: "(SelBase \<Rightarrow> SelBase) \<Rightarrow> ('m, 'b) Forwarder \<Rightarrow> ('m, 'b) Forwarder" where
  "onVls g f = f\<lparr>f_vls := vls_onBase g (f_vls f)\<rparr>"

definition ResumeBehindThresholdSeconds :: rat where
  "ResumeBehindThresholdSeconds = roundBits 53 (2 / 10)"

definition ResumeBehindHighThresholdSeconds :: rat where
  "ResumeBehindHighThresholdSeconds = 2"

definition LayerSwitchBehindThresholdSeconds :: rat where
  "LayerSwitchBehindThresholdSeconds = roundBits 53 (5 / 100)"

definition TransitionCostSpatial :: int where
  "TransitionCostSpatial = 10"

definition NewForwarder :: "RTPCodecType \<Rightarrow> bool \<Rightarrow> bool \<Rightarrow> ('m, 'b) Forwarder" where
  "NewForwarder kind skipReferenceTS disableOpportunisticAllocation =
     (let f = \<lparr>f_mime = MimeTypeUnknown, f_clockRate = 0, f_kind = kind, f_skipReferenceTS = skipReferenceTS,
                f_disableOpportunisticAllocation = disableOpportunisticAllocation, f_muted = False, f_pubMuted = False,
                f_resumeBehindThreshold = 0, f_started = False, f_preStartTime = None, f_extFirstTS = 0, f_lastSSRC = 0,
                f_lastReferencePayloadType = - 1, f_lastSwitchExtIncomingTS = 0, f_referenceLayerSpatial = InvalidLayerSpatial,
                f_dummyStartTSOffset = 0, f_refInfos = replicate (nat (DefaultMaxLayerSpatial + 1)) noRefInfo,
                f_refVideoLayerMode = VideoLayer_MODE_UNUSED, f_isDDAvailable = False, f_provisional = None,
                f_lastAllocation = VideoAllocationDefault, f_rtpMunger = NewRTPMunger, f_vls = VlsNull NewBase,
                f_codecMunger = MungerNull NewNull\<rparr>
      in if kind = RTPCodecTypeVideo then onVls (SetMaxTemporal DefaultMaxLayerTemporal) f else f)"

section \<open>Settings\<close>

definition SetMaxPublishedLayer :: "int \<Rightarrow> ('m, 'b) Forwarder \<Rightarrow> ('m, 'b) Forwarder \<times> bool" where
  "SetMaxPublishedLayer maxPublishedLayer f =
     (if maxPublishedLayer \<le> Spatial (f_maxSeen f) then (f, False)
      else (onVls (SetMaxSeenSpatial maxPublishedLayer) f, True))"

definition SetMaxTemporalLayerSeen :: "int \<Rightarrow> ('m, 'b) Forwarder \<Rightarrow> ('m, 'b) Forwarder \<times> bool" where
  "SetMaxTemporalLayerSeen maxTemporalLayerSeen f =
     (if maxTemporalLayerSeen \<le> Temporal (f_maxSeen f) then (f, False)
      else (onVls (SetMaxSeenTemporal maxTemporalLayerSeen) f, True))"

definition IsSimulcastMode :: "VideoLayer_Mode \<Rightarrow> bool" where
  "IsSimulcastMode m \<longleftrightarrow> m = VideoLayer_ONE_SPATIAL_LAYER_PER_STREAM \<or>
     m = VideoLayer_ONE_SPATIAL_LAYER_PER_STREAM_INCOMPLETE_RTCP_SR"

text \<open>
  The selector of a forwarder is never nil, so only the branches that take over the base of the old one are reachable. The
  normalised MIME type and whether the header extension was offered come from the codec parameters.
\<close>

definition DetermineCodec :: "('m, int) OrderedMapOps \<Rightarrow> ('b, bool) OrderedMapOps \<Rightarrow> MimeType \<Rightarrow> u32 \<Rightarrow> bool \<Rightarrow>
    VideoLayer_Mode \<Rightarrow> ('m, 'b) Forwarder \<Rightarrow> ('m, 'b) Forwarder" where
  "DetermineCodec mo bo toMimeType clockRate ddAvailable videoLayerMode f =
     (let f = (if videoLayerMode = VideoLayer_ONE_SPATIAL_LAYER_PER_STREAM_INCOMPLETE_RTCP_SR
               then f\<lparr>f_skipReferenceTS := True\<rparr> else f);
          f = f\<lparr>f_mime := toMimeType, f_clockRate := clockRate, f_refVideoLayerMode := videoLayerMode\<rparr>;
          null = (\<lambda>f. f\<lparr>f_codecMunger := MungerNull NewNull\<rparr>);
          simulcast = (\<lambda>f. f\<lparr>f_vls := NewSimulcastFromOther (f_vls f)\<rparr>) in
      case toMimeType of
        MimeTypeVP8 \<Rightarrow>
          onVls (SetTemporalLayerSelector (Some TlsVP8))
            (simulcast (f\<lparr>f_codecMunger := MungerVP8 (NewVP8FromOther mo bo (f_codecMunger f))\<rparr>))
      | MimeTypeH264 \<Rightarrow> simulcast (null f)
      | MimeTypeH265 \<Rightarrow> simulcast (null f)
      | MimeTypeVP9 \<Rightarrow>
          if IsSimulcastMode videoLayerMode then simulcast (null f)
          else
            let f = (null f)\<lparr>f_isDDAvailable := ddAvailable\<rparr> in
            if ddAvailable then f\<lparr>f_vls := NewDependencyDescriptorFromOther (f_vls f)\<rparr>
            else f\<lparr>f_vls := NewVP9FromOther (f_vls f)\<rparr>
      | MimeTypeAV1 \<Rightarrow>
          if IsSimulcastMode videoLayerMode then simulcast (null f)
          else
            let f = (null f)\<lparr>f_isDDAvailable := ddAvailable\<rparr> in
            if ddAvailable then f\<lparr>f_vls := NewDependencyDescriptorFromOther (f_vls f)\<rparr> else simulcast f
      | _ \<Rightarrow> f)"

definition resyncLocked :: "('m, 'b) Forwarder \<Rightarrow> ('m, 'b) Forwarder" where
  "resyncLocked f =
     (let f = (onVls (SetCurrent InvalidLayer) f)\<lparr>f_lastSSRC := 0\<rparr> in
      if f_pubMuted f then f\<lparr>f_resumeBehindThreshold := ResumeBehindThresholdSeconds\<rparr> else f)"

definition Mute :: "bool \<Rightarrow> bool \<Rightarrow> ('m, 'b) Forwarder \<Rightarrow> ('m, 'b) Forwarder \<times> bool" where
  "Mute muted isSubscribeMutable f =
     (if f_muted f = muted then (f, False)
      else if muted \<and> \<not> isSubscribeMutable then (f, False)
      else
        let f = f\<lparr>f_muted := muted\<rparr> in
        (if muted then resyncLocked f else f, True))"

definition PubMute :: "bool \<Rightarrow> ('m, 'b) Forwarder \<Rightarrow> ('m, 'b) Forwarder \<times> bool" where
  "PubMute pubMuted f =
     (if f_pubMuted f = pubMuted then (f, False)
      else
        let f = f\<lparr>f_pubMuted := pubMuted\<rparr> in
        (if pubMuted then resyncLocked f else f, True))"

definition IsAnyMuted :: "('m, 'b) Forwarder \<Rightarrow> bool" where
  "IsAnyMuted f \<longleftrightarrow> f_muted f \<or> f_pubMuted f"

definition setTargetLayer :: "VideoLayer \<Rightarrow> int \<Rightarrow> ('m, 'b) Forwarder \<Rightarrow> ('m, 'b) Forwarder" where
  "setTargetLayer target requestLayerSpatial f =
     onVls (SetRequestSpatial (if layer_IsValid target then requestLayerSpatial else InvalidLayerSpatial))
       (onVls (SetTarget target) f)"

definition updateAllocation :: "VideoAllocation \<Rightarrow> ('m, 'b) Forwarder \<Rightarrow> ('m, 'b) Forwarder \<times> VideoAllocation" where
  "updateAllocation alloc f =
     (let alloc = (if layer_IsValid (va_TargetLayer alloc) \<and> f_mime f = MimeTypeH264
                   then alloc\<lparr>va_TargetLayer := (va_TargetLayer alloc)\<lparr>Temporal := 0\<rparr>\<rparr> else alloc);
          f = f\<lparr>f_lastAllocation := alloc\<rparr>;
          f = setTargetLayer (va_TargetLayer alloc) (va_RequestLayerSpatial alloc) f;
          f = (if \<not> layer_IsValid (f_target f) then resyncLocked f else f)
      in (f, alloc))"

definition Restart :: "('m, 'b) Forwarder \<Rightarrow> ('m, 'b) Forwarder" where
  "Restart f =
     (let f = setTargetLayer InvalidLayer InvalidLayerSpatial (resyncLocked f)
      in f\<lparr>f_referenceLayerSpatial := InvalidLayerSpatial, f_lastReferencePayloadType := - 1,
           f_refInfos := replicate (length (f_refInfos f)) noRefInfo, f_lastSwitchExtIncomingTS := 0,
           f_refVideoLayerMode := VideoLayer_MODE_UNUSED\<rparr>)"

section \<open>Bandwidth and distance\<close>

text \<open>
  The nested loops over spatial and temporal layers visit a list of layers in order and stop at the first one whose bit rate
  satisfies a condition.
\<close>

definition layersDown :: "int \<Rightarrow> int \<Rightarrow> VideoLayer list" where
  "layersDown maxSpatial maxTemporal =
     concat (map (\<lambda>s. map (\<lambda>t. \<lparr>Spatial = s, Temporal = t\<rparr>) (rev [0..maxTemporal])) (rev [0..maxSpatial]))"

definition layersUp :: "int \<Rightarrow> int \<Rightarrow> int \<Rightarrow> int \<Rightarrow> VideoLayer list" where
  "layersUp minSpatial maxSpatial minTemporal maxTemporal =
     concat (map (\<lambda>s. map (\<lambda>t. \<lparr>Spatial = s, Temporal = t\<rparr>) [minTemporal..maxTemporal]) [minSpatial..maxSpatial])"

fun firstLayer :: "(int \<Rightarrow> bool) \<Rightarrow> Bitrates \<Rightarrow> VideoLayer list \<Rightarrow> (VideoLayer \<times> int) option option" where
  "firstLayer P brs [] = Some None"
| "firstLayer P brs (l # ls) = do { b \<leftarrow> brAt brs l; if P b then Some (Some (l, b)) else firstLayer P brs ls }"

definition getOptimalBandwidthNeeded :: "bool \<Rightarrow> bool \<Rightarrow> int \<Rightarrow> Bitrates \<Rightarrow> VideoLayer \<Rightarrow> int option" where
  "getOptimalBandwidthNeeded muted pubMuted maxPublishedLayer brs mx =
     (if muted \<or> pubMuted \<or> maxPublishedLayer = InvalidLayerSpatial then Some 0
      else do {
        found \<leftarrow> firstLayer (\<lambda>b. b \<noteq> 0) brs (layersDown (Spatial mx) (Temporal mx));
        Some (case found of Some (l, b) \<Rightarrow> b | None \<Rightarrow> 0)
      })"

definition getBandwidthNeeded :: "Bitrates \<Rightarrow> VideoLayer \<Rightarrow> int \<Rightarrow> int option" where
  "getBandwidthNeeded brs layer fallback =
     (if layer_IsValid layer then do { b \<leftarrow> brAt brs layer; Some (if b > 0 then b else fallback) }
      else Some fallback)"

text \<open>The highest available layer as far as bit rates and the stream tracker know, and the temporal layer assumed for it.\<close>

definition maxAvailable :: "VideoLayer \<Rightarrow> int list \<Rightarrow> Bitrates \<Rightarrow> (int \<times> int) option" where
  "maxAvailable maxSeen availableLayers brs = do {
     found \<leftarrow> firstLayer (\<lambda>b. b \<noteq> 0) brs (layersDown (int (length brs) - 1) (int (length (brs ! 0)) - 1));
     let s0 = (case found of Some (l, b) \<Rightarrow> Spatial l | None \<Rightarrow> InvalidLayerSpatial);
     Some (fold (\<lambda>layer (s, t). if layer > s then (layer, Temporal maxSeen) else (s, t)) availableLayers
             (s0, InvalidLayerTemporal))
   }"

text \<open>The layer that the subscriber could get, from which the distance is measured.\<close>

definition adjustedMax :: "VideoLayer \<Rightarrow> int list \<Rightarrow> Bitrates \<Rightarrow> VideoLayer \<Rightarrow> VideoLayer option" where
  "adjustedMax maxSeen availableLayers brs mx = do {
     (availSpatial, availTemporal) \<leftarrow> maxAvailable maxSeen availableLayers brs;
     let sp = min (min (Spatial mx) availSpatial) (Spatial maxSeen);
     found \<leftarrow> (if sp = InvalidLayerSpatial then Some None
               else firstLayer (\<lambda>b. b \<noteq> 0) brs
                      (map (\<lambda>t. \<lparr>Spatial = sp, Temporal = t\<rparr>) (rev [0..int (length (brs ! 0)) - 1])));
     let availTemporal = (case found of Some (l, b) \<Rightarrow> Temporal l | None \<Rightarrow> availTemporal);
     let te = min (min (Temporal mx) availTemporal) (Temporal maxSeen);
     let adj = \<lparr>Spatial = sp, Temporal = te\<rparr>;
     Some (if layer_IsValid adj then adj else zeroLayer)
   }"

definition getDistanceToDesired :: "bool \<Rightarrow> bool \<Rightarrow> VideoLayer \<Rightarrow> int list \<Rightarrow> Bitrates \<Rightarrow> VideoLayer \<Rightarrow> VideoLayer \<Rightarrow>
    goFloat option" where
  "getDistanceToDesired muted pubMuted maxSeen availableLayers brs target mx =
     (if muted \<or> pubMuted \<or> \<not> layer_IsValid maxSeen \<or> \<not> layer_IsValid mx then Some (Fin 0)
      else do {
        adj \<leftarrow> adjustedMax maxSeen availableLayers brs mx;
        let tgt = (if layer_IsValid target then target else zeroLayer);
        let distance = (Spatial adj - Spatial tgt) * (Temporal maxSeen + 1) + (Temporal adj - Temporal tgt);
        let distance = (if layer_IsValid target then distance else distance + (Temporal maxSeen + 1));
        Some (floatDiv 53 distance (Temporal maxSeen + 1))
      })"

definition DistanceToDesired :: "int list \<Rightarrow> Bitrates \<Rightarrow> ('m, 'b) Forwarder \<Rightarrow> goFloat option" where
  "DistanceToDesired availableLayers brs f =
     getDistanceToDesired (f_muted f) (f_pubMuted f) (f_maxSeen f) availableLayers brs (f_target f) (f_max f)"

definition BandwidthRequested :: "Bitrates \<Rightarrow> ('m, 'b) Forwarder \<Rightarrow> int option" where
  "BandwidthRequested brs f = getBandwidthNeeded brs (f_target f) (va_BandwidthRequested (f_lastAllocation f))"

definition GetOptimalBandwidthNeeded :: "Bitrates \<Rightarrow> ('m, 'b) Forwarder \<Rightarrow> int option" where
  "GetOptimalBandwidthNeeded brs f =
     getOptimalBandwidthNeeded (f_muted f) (f_pubMuted f) (Spatial (f_maxSeen f)) brs (f_max f)"

definition SetMaxSpatialLayer :: "int \<Rightarrow> ('m, 'b) Forwarder \<Rightarrow> (('m, 'b) Forwarder \<times> bool \<times> VideoLayer) option" where
  "SetMaxSpatialLayer spatialLayer f =
     (if f_kind f = RTPCodecTypeAudio then Some (f, False, InvalidLayer)
      else if spatialLayer = Spatial (f_max f) then Some (f, False, f_max f)
      else
        let f = onVls (SetMaxSpatial spatialLayer) f in
        if f_disableOpportunisticAllocation f then Some (f, True, f_max f)
        else if Spatial (f_target f) \<noteq> InvalidLayerSpatial \<or> va_IsDeficient (f_lastAllocation f) \<or>
          va_PauseReason (f_lastAllocation f) = VideoPauseReasonMuted \<or>
          va_PauseReason (f_lastAllocation f) = VideoPauseReasonPubMuted then Some (f, True, f_max f)
        else do {
          let alloc = (f_lastAllocation f)\<lparr>va_BandwidthRequested := 0, va_BandwidthDelta := 0, va_Bitrates := noBitrates,
                 va_TargetLayer := f_max f, va_RequestLayerSpatial := Spatial (f_max f), va_MaxLayer := f_max f\<rparr>;
          d \<leftarrow> getDistanceToDesired (f_muted f) (f_pubMuted f) (f_maxSeen f) [] (va_Bitrates alloc) (va_TargetLayer alloc) (f_max f);
          let (f, _) = updateAllocation (alloc\<lparr>va_DistanceToDesired := d\<rparr>) f;
          Some (f, True, f_max f)
        })"

definition SetMaxTemporalLayer :: "int \<Rightarrow> ('m, 'b) Forwarder \<Rightarrow> ('m, 'b) Forwarder \<times> bool \<times> VideoLayer" where
  "SetMaxTemporalLayer temporalLayer f =
     (if f_kind f = RTPCodecTypeAudio then (f, False, InvalidLayer)
      else if temporalLayer = Temporal (f_max f) then (f, False, f_max f)
      else let f = onVls (SetMaxTemporal temporalLayer) f in (f, True, f_max f))"

end
