(* ===== verification/Forwarder_Allocation.thy ===== *)
theory Forwarder_Allocation
  imports Forwarder
begin

text \<open>
  The allocation of video layers (\<^verbatim>\<open>forwarder.go\<close>): the optimal allocation of a track that is not limited, the provisional
  allocation with which the stream allocator shares a congested channel, the boost of a deficient track, and pausing.
\<close>

section \<open>Optimal allocation\<close>

definition optMaxTemporal :: "VideoLayer \<Rightarrow> VideoLayer \<Rightarrow> int" where
  "optMaxTemporal mx maxSeen =
     (if Temporal maxSeen \<noteq> InvalidLayerTemporal \<and> Temporal maxSeen < Temporal mx then Temporal maxSeen else Temporal mx)"

text \<open>The layer to request, the highest and the lowest available layer.\<close>

definition scanAvailable :: "int \<Rightarrow> int list \<Rightarrow> int \<times> int \<times> int" where
  "scanAvailable limit availableLayers =
     fold (\<lambda>al (req, hi, lo).
            (if al > req \<and> al \<le> limit then al else req,
             if al > hi then al else hi,
             if lo = InvalidLayerSpatial \<or> al < lo then al else lo))
       availableLayers (InvalidLayerSpatial, InvalidLayerSpatial, InvalidLayerSpatial)"

text \<open>The layer to request after the check for overshoot, and the lowest available layer.\<close>

definition requestLayer :: "int \<Rightarrow> bool \<Rightarrow> int list \<Rightarrow> int \<times> int" where
  "requestLayer limit overshoot availableLayers =
     (let (req, hi, lo) = scanAvailable limit availableLayers
      in (if req = InvalidLayerSpatial \<and> hi \<noteq> InvalidLayerSpatial \<and> overshoot then hi else req, lo))"

text \<open>The default case of the switch: the target layer and the layer to request.\<close>

definition optimalTarget :: "int list \<Rightarrow> bool \<Rightarrow> bool \<Rightarrow> ('m, 'b) Forwarder \<Rightarrow> VideoLayer \<times> int" where
  "optimalTarget availableLayers allowOvershoot hold f =
     (let mx = f_max f; maxSeen = f_maxSeen f; cur = f_current f;
          requestSp = requestSpatial (vls_base (f_vls f));
          limit = min (Spatial mx) (Spatial maxSeen);
          (req, lo) = requestLayer limit (allowOvershoot \<and> vls_IsOvershootOkay (f_vls f)) availableLayers;
          mt = optMaxTemporal mx maxSeen
      in
      if layer_IsValid cur then
        let target =
          (if req = requestSp \<and> Spatial cur = requestSp \<or> req = InvalidLayerSpatial
           then \<lparr>Spatial = Spatial cur, Temporal = mt\<rparr>
           else if hold then \<lparr>Spatial = lo, Temporal = 0\<rparr>
           else \<lparr>Spatial = req, Temporal = mt\<rparr>)
        in (target, Spatial target)
      else if hold then
        let target = (if lo = InvalidLayerSpatial then \<lparr>Spatial = 0, Temporal = 0\<rparr> else \<lparr>Spatial = lo, Temporal = 0\<rparr>)
        in (target, Spatial target)
      else
        let maxSp = (if allowOvershoot \<and> vls_IsOvershootOkay (f_vls f) \<and> Spatial maxSeen > Spatial mx
                     then Spatial maxSeen else Spatial mx)
        in (\<lparr>Spatial = min (Spatial maxSeen) maxSp, Temporal = mt\<rparr>, if req = InvalidLayerSpatial then limit else req))"

definition AllocateOptimal :: "int list \<Rightarrow> Bitrates \<Rightarrow> bool \<Rightarrow> bool \<Rightarrow> ('m, 'b) Forwarder \<Rightarrow>
    (('m, 'b) Forwarder \<times> VideoAllocation) option" where
  "AllocateOptimal availableLayers brs allowOvershoot hold f =
     (if f_kind f = RTPCodecTypeAudio then Some (f, f_lastAllocation f)
      else do {
        optimal \<leftarrow> getOptimalBandwidthNeeded (f_muted f) (f_pubMuted f) (Spatial (f_maxSeen f)) brs (f_max f);
        let alloc = zeroAllocation\<lparr>va_Bitrates := brs, va_TargetLayer := InvalidLayer,
              va_RequestLayerSpatial := requestSpatial (vls_base (f_vls f)), va_MaxLayer := f_max f,
              va_PauseReason := (if optimal = 0 then VideoPauseReasonFeedDry else VideoPauseReasonNone),
              va_BandwidthNeeded := optimal\<rparr>;
        let alloc =
          (if \<not> layer_IsValid (f_max f) \<or> Spatial (f_maxSeen f) = InvalidLayerSpatial then alloc
           else if f_muted f then alloc\<lparr>va_PauseReason := VideoPauseReasonMuted\<rparr>
           else if f_pubMuted f then alloc\<lparr>va_PauseReason := VideoPauseReasonPubMuted\<rparr>
           else let (target, req) = optimalTarget availableLayers allowOvershoot hold f
                in alloc\<lparr>va_TargetLayer := target, va_RequestLayerSpatial := req\<rparr>);
        let alloc = (if \<not> layer_IsValid (va_TargetLayer alloc)
                     then alloc\<lparr>va_TargetLayer := InvalidLayer, va_RequestLayerSpatial := InvalidLayerSpatial\<rparr> else alloc);
        requested \<leftarrow> (if layer_IsValid (va_TargetLayer alloc)
          then getOptimalBandwidthNeeded (f_muted f) (f_pubMuted f) (Spatial (f_maxSeen f)) brs (va_TargetLayer alloc)
          else Some 0);
        used \<leftarrow> getBandwidthNeeded brs (f_target f) (va_BandwidthRequested (f_lastAllocation f));
        d \<leftarrow> getDistanceToDesired (f_muted f) (f_pubMuted f) (f_maxSeen f) availableLayers brs (va_TargetLayer alloc) (f_max f);
        Some (updateAllocation (alloc\<lparr>va_BandwidthRequested := requested, va_BandwidthDelta := requested - used,
                va_DistanceToDesired := d\<rparr>) f)
      })"

section \<open>Provisional allocation\<close>

definition ProvisionalAllocatePrepare :: "int list \<Rightarrow> Bitrates \<Rightarrow> ('m, 'b) Forwarder \<Rightarrow> ('m, 'b) Forwarder" where
  "ProvisionalAllocatePrepare availableLayers bitrates f =
     f\<lparr>f_provisional := Some \<lparr>pv_muted = f_muted f, pv_pubMuted = f_pubMuted f, pv_maxSeenLayer = f_maxSeen f,
        pv_availableLayers = availableLayers, pv_bitrates = bitrates, pv_maxLayer = f_max f, pv_currentLayer = f_current f,
        pv_allocatedLayer = InvalidLayer\<rparr>\<rparr>"

definition setAllocated :: "VideoLayer \<Rightarrow> VideoAllocationProvisional \<Rightarrow> ('m, 'b) Forwarder \<Rightarrow> ('m, 'b) Forwarder" where
  "setAllocated layer p f = f\<lparr>f_provisional := Some (p\<lparr>pv_allocatedLayer := layer\<rparr>)\<rparr>"

definition ProvisionalAllocateReset :: "('m, 'b) Forwarder \<Rightarrow> ('m, 'b) Forwarder option" where
  "ProvisionalAllocateReset f = do { p \<leftarrow> f_provisional f; Some (setAllocated InvalidLayer p f) }"

definition ProvisionalAllocate :: "int \<Rightarrow> VideoLayer \<Rightarrow> bool \<Rightarrow> bool \<Rightarrow> ('m, 'b) Forwarder \<Rightarrow>
    (('m, 'b) Forwarder \<times> bool \<times> int) option" where
  "ProvisionalAllocate availableChannelCapacity layer allowPause allowOvershoot f = do {
     p \<leftarrow> f_provisional f;
     if pv_muted p \<or> pv_pubMuted p \<or> Spatial (pv_maxSeenLayer p) = InvalidLayerSpatial \<or> \<not> layer_IsValid (pv_maxLayer p) \<or>
       (\<not> allowOvershoot \<or> \<not> vls_IsOvershootOkay (f_vls f)) \<and> GreaterThan layer (pv_maxLayer p)
     then Some (f, False, 0)
     else do {
       required \<leftarrow> brAt (pv_bitrates p) layer;
       if required = 0 then Some (f, False, 0)
       else do {
         already \<leftarrow> (if layer_IsValid (pv_allocatedLayer p) then brAt (pv_bitrates p) (pv_allocatedLayer p) else Some 0);
         if \<not> GreaterThan layer (pv_maxLayer p) \<and> required \<le> availableChannelCapacity + already
         then Some (setAllocated layer p f, True, required - already)
         else if \<not> allowPause \<and> (\<not> layer_IsValid (pv_allocatedLayer p) \<or> \<not> GreaterThan layer (pv_allocatedLayer p))
         then Some (setAllocated layer p f, True, required - already)
         else Some (f, False, 0)
       }
     }
   }"

text \<open>What the two transition functions return beside the transition.\<close>

type_synonym ('m, 'b) transitionResult = "('m, 'b) Forwarder \<times> VideoTransition \<times> int list \<times> Bitrates"

definition transitionTo :: "VideoLayer \<Rightarrow> int \<Rightarrow> VideoAllocationProvisional \<Rightarrow> ('m, 'b) Forwarder \<Rightarrow>
    ('m, 'b) transitionResult" where
  "transitionTo to delta p f =
     (setAllocated to p f, \<lparr>tx_From = f_target f, tx_To = to, tx_BandwidthDelta = delta\<rparr>, pv_availableLayers p, pv_bitrates p)"

text \<open>The part that preserves or lowers an existing target: \<open>Some (layer, delta)\<close> when it decides.\<close>

definition cooperativeKeep :: "VideoAllocationProvisional \<Rightarrow> ('m, 'b) Forwarder \<Rightarrow> (VideoLayer \<times> int) option option" where
  "cooperativeKeep p f =
     (let existing = f_target f in
      if \<not> layer_IsValid existing then Some None
      else do {
        maximal \<leftarrow> firstLayer (\<lambda>b. b \<noteq> 0) (pv_bitrates p) (layersDown (Spatial (pv_maxLayer p)) (Temporal (pv_maxLayer p)));
        case maximal of
          None \<Rightarrow> Some None
        | Some (maximalLayer, maximalBandwidth) \<Rightarrow>
            if \<not> GreaterThan existing maximalLayer then do {
              b \<leftarrow> brAt (pv_bitrates p) existing;
              Some (if b \<noteq> 0 then Some (existing, 0) else None)
            }
            else do {
              used \<leftarrow> getBandwidthNeeded (pv_bitrates p) existing (va_BandwidthRequested (f_lastAllocation f));
              Some (Some (maximalLayer, maximalBandwidth - used))
            }
      })"

text \<open>The part that looks for the lowest layer of a track that is not streaming.\<close>

definition cooperativeStart :: "bool \<Rightarrow> VideoAllocationProvisional \<Rightarrow> ('m, 'b) Forwarder \<Rightarrow> (VideoLayer \<times> int) option option" where
  "cooperativeStart allowOvershoot p f =
     (if layer_IsValid (f_target f) then Some None
      else do {
        minimal \<leftarrow> firstLayer (\<lambda>b. b \<noteq> 0) (pv_bitrates p) (layersUp 0 (Spatial (pv_maxLayer p)) 0 (Temporal (pv_maxLayer p)));
        if minimal = None \<and> layer_IsValid (pv_maxLayer p) \<and> allowOvershoot \<and> vls_IsOvershootOkay (f_vls f)
        then firstLayer (\<lambda>b. b \<noteq> 0) (pv_bitrates p)
               (layersUp (Spatial (pv_maxLayer p) + 1) DefaultMaxLayerSpatial 0 DefaultMaxLayerTemporal)
        else Some minimal
      })"

definition ProvisionalAllocateGetCooperativeTransition :: "bool \<Rightarrow> ('m, 'b) Forwarder \<Rightarrow> ('m, 'b) transitionResult option" where
  "ProvisionalAllocateGetCooperativeTransition allowOvershoot f = do {
     p \<leftarrow> f_provisional f;
     let existing = f_target f;
     if pv_muted p \<or> pv_pubMuted p then do {
       used \<leftarrow> getBandwidthNeeded (pv_bitrates p) existing (va_BandwidthRequested (f_lastAllocation f));
       Some (transitionTo InvalidLayer (- used) p f)
     }
     else do {
       keep \<leftarrow> cooperativeKeep p f;
       case keep of
         Some (layer, delta) \<Rightarrow> Some (transitionTo layer delta p f)
       | None \<Rightarrow> do {
           found \<leftarrow> cooperativeStart allowOvershoot p f;
           (target, required) \<leftarrow> (case found of
              Some (l, b) \<Rightarrow> Some (l, b)
            | None \<Rightarrow>
                if layer_IsValid (pv_currentLayer p)
                then do { b \<leftarrow> brAt (pv_bitrates p) (pv_currentLayer p); Some (pv_currentLayer p, b) }
                else Some (pv_currentLayer p, 0));
           used \<leftarrow> getBandwidthNeeded (pv_bitrates p) existing (va_BandwidthRequested (f_lastAllocation f));
           Some (transitionTo target (required - used) p f)
         }
     }
   }"

text \<open>
  The best offer of a track that can give up bandwidth. The state of the search is the best layer so far, the bandwidth it
  saves and its value, a quotient in \<^verbatim>\<open>float32\<close>.
\<close>

definition transitionCost :: "VideoLayer \<Rightarrow> VideoLayer \<Rightarrow> int \<Rightarrow> int" where
  "transitionCost target l maxReachableTemporal =
     (if Spatial target \<noteq> Spatial l then TransitionCostSpatial else 0) +
     ((maxReachableTemporal + 1) * (Spatial target - Spatial l) + (Temporal target - Temporal l))"

definition offerValue :: "int \<Rightarrow> int \<Rightarrow> goFloat" where
  "offerValue delta cost = (if cost \<noteq> 0 then floatDiv 24 delta cost else Fin 0)"

definition floatLess :: "goFloat \<Rightarrow> goFloat \<Rightarrow> bool" where
  "floatLess a b = (case b of Fin y \<Rightarrow> floatLt a y | PosInf \<Rightarrow> a \<noteq> PosInf \<and> a \<noteq> NaN | _ \<Rightarrow> False)"

fun bestOffer :: "VideoLayer \<Rightarrow> int \<Rightarrow> int \<Rightarrow> Bitrates \<Rightarrow> VideoLayer list \<Rightarrow> VideoLayer \<times> int \<times> goFloat \<Rightarrow>
    (VideoLayer \<times> int \<times> goFloat) option" where
  "bestOffer target mrt existing brs [] best = Some best"
| "bestOffer target mrt existing brs (l # ls) (bestLayer, bestDelta, bestValue) = do {
     b \<leftarrow> brAt brs l;
     let delta = max 0 (existing - b);
     let value = offerValue delta (transitionCost target l mrt);
     bestOffer target mrt existing brs ls
       (if floatLess bestValue value \<or> value = bestValue \<and> value \<noteq> NaN \<and> delta > bestDelta then (l, delta, value)
        else (bestLayer, bestDelta, bestValue))
   }"

text \<open>The layers in the order of the loops; the inner loop is left when it reaches the target itself.\<close>

definition offersBelow :: "VideoLayer \<Rightarrow> VideoLayer list" where
  "offersBelow target = filter (\<lambda>l. l \<noteq> target) (layersUp 0 (Spatial target) 0 (Temporal target))"

definition ProvisionalAllocateGetBestWeightedTransition :: "('m, 'b) Forwarder \<Rightarrow> ('m, 'b) transitionResult option" where
  "ProvisionalAllocateGetBestWeightedTransition f = do {
     p \<leftarrow> f_provisional f;
     let target = f_target f;
     existing \<leftarrow> getBandwidthNeeded (pv_bitrates p) target (va_BandwidthRequested (f_lastAllocation f));
     if pv_muted p \<or> pv_pubMuted p then Some (transitionTo InvalidLayer (0 - existing) p f)
     else do {
       reach \<leftarrow> firstLayer (\<lambda>b. b \<noteq> 0) (pv_bitrates p)
         (concat (map (\<lambda>t. map (\<lambda>s. \<lparr>Spatial = s, Temporal = t\<rparr>) (rev [0..Spatial (pv_maxLayer p)])) (rev [0..Temporal (pv_maxLayer p)])));
       case reach of
         None \<Rightarrow> Some (transitionTo (pv_currentLayer p) (0 - existing) p f)
       | Some (l, _) \<Rightarrow> do {
           (bestLayer, bestDelta, _) \<leftarrow> bestOffer target (Temporal l) existing (pv_bitrates p) (offersBelow target)
             (InvalidLayer, 0, Fin 0);
           Some (transitionTo bestLayer (- bestDelta) p f)
         }
     }
   }"

definition ProvisionalAllocateCommit :: "('m, 'b) Forwarder \<Rightarrow> (('m, 'b) Forwarder \<times> VideoAllocation) option" where
  "ProvisionalAllocateCommit f = do {
     p \<leftarrow> f_provisional f;
     let brs = pv_bitrates p;
     optimal \<leftarrow> getOptimalBandwidthNeeded (pv_muted p) (pv_pubMuted p) (Spatial (pv_maxSeenLayer p)) brs (pv_maxLayer p);
     used \<leftarrow> getBandwidthNeeded brs (f_target f) (va_BandwidthRequested (f_lastAllocation f));
     d \<leftarrow> getDistanceToDesired (pv_muted p) (pv_pubMuted p) (pv_maxSeenLayer p) (pv_availableLayers p) brs
            (pv_allocatedLayer p) (pv_maxLayer p);
     let alloc = zeroAllocation\<lparr>va_BandwidthDelta := 0 - used, va_Bitrates := brs, va_BandwidthNeeded := optimal,
           va_TargetLayer := pv_allocatedLayer p, va_RequestLayerSpatial := Spatial (pv_allocatedLayer p),
           va_MaxLayer := pv_maxLayer p, va_DistanceToDesired := d\<rparr>;
     if pv_muted p then Some (updateAllocation (alloc\<lparr>va_PauseReason := VideoPauseReasonMuted\<rparr>) f)
     else if pv_pubMuted p then Some (updateAllocation (alloc\<lparr>va_PauseReason := VideoPauseReasonPubMuted\<rparr>) f)
     else if optimal = 0 then
       if layer_IsValid (pv_allocatedLayer p) then do {
         b \<leftarrow> brAt brs (pv_allocatedLayer p);
         Some (updateAllocation (alloc\<lparr>va_BandwidthRequested := b, va_BandwidthDelta := b - used\<rparr>) f)
       }
       else
         let alloc = alloc\<lparr>va_PauseReason := VideoPauseReasonFeedDry\<rparr> in
         if layer_IsValid (pv_currentLayer p) \<and> Spatial (pv_currentLayer p) \<le> Spatial (pv_maxLayer p)
         then Some (updateAllocation (alloc\<lparr>va_TargetLayer := pv_currentLayer p,
                      va_RequestLayerSpatial := Spatial (pv_currentLayer p)\<rparr>) (setAllocated (pv_currentLayer p) p f))
         else Some (updateAllocation alloc f)
     else do {
       requested \<leftarrow> (if layer_IsValid (pv_allocatedLayer p) then brAt brs (pv_allocatedLayer p) else Some 0);
       let alloc = alloc\<lparr>va_BandwidthRequested := requested, va_BandwidthDelta := requested - used\<rparr>;
       if GreaterThan (pv_allocatedLayer p) (pv_maxLayer p) \<or> requested \<ge> optimal
       then Some (updateAllocation (alloc\<lparr>va_IsDeficient := False\<rparr>) f)
       else Some (updateAllocation (alloc\<lparr>va_IsDeficient := True,
              va_PauseReason := (if layer_IsValid (pv_allocatedLayer p) then VideoPauseReasonNone else VideoPauseReasonBandwidth)\<rparr>) f)
     }
   }"

section \<open>Boosting and pausing\<close>

text \<open>
  \<open>doAllocation\<close> on a list of layers: nothing available; the next layer does not fit; the new state and allocation.
\<close>

datatype ('m, 'b) attempt = NotAvailable | DoesNotFit | Boosted "('m, 'b) Forwarder" VideoAllocation

definition doAllocation :: "int \<Rightarrow> int list \<Rightarrow> Bitrates \<Rightarrow> bool \<Rightarrow> int \<Rightarrow> int \<Rightarrow> ('m, 'b) Forwarder \<Rightarrow> VideoLayer list \<Rightarrow>
    ('m, 'b) attempt option" where
  "doAllocation availableChannelCapacity availableLayers brs allowOvershoot optimal already f layers = do {
     found \<leftarrow> firstLayer (\<lambda>b. b \<noteq> 0) brs layers;
     case found of
       None \<Rightarrow> Some NotAvailable
     | Some (higher, requested) \<Rightarrow>
         if (\<not> allowOvershoot \<or> \<not> vls_IsOvershootOkay (f_vls f)) \<and> requested - already > availableChannelCapacity
         then Some DoesNotFit
         else do {
           d \<leftarrow> getDistanceToDesired (f_muted f) (f_pubMuted f) (f_maxSeen f) availableLayers brs higher (f_max f);
           let alloc = zeroAllocation\<lparr>va_IsDeficient := \<not> (GreaterThan higher (f_max f) \<or> requested \<ge> optimal),
                 va_BandwidthRequested := requested, va_BandwidthDelta := requested - already, va_BandwidthNeeded := optimal,
                 va_Bitrates := brs, va_TargetLayer := higher, va_RequestLayerSpatial := Spatial higher,
                 va_MaxLayer := f_max f, va_DistanceToDesired := d\<rparr>;
           let (f, alloc) = updateAllocation alloc f;
           Some (Boosted f alloc)
         }
   }"

fun tryAttempts :: "('m, 'b) Forwarder \<Rightarrow> (VideoLayer list \<Rightarrow> ('m, 'b) attempt option) \<Rightarrow> VideoLayer list list \<Rightarrow>
    (('m, 'b) Forwarder \<times> VideoAllocation \<times> bool) option" where
  "tryAttempts f g [] = Some (f, f_lastAllocation f, False)"
| "tryAttempts f g (layers # lss) = do {
     r \<leftarrow> g layers;
     case r of
       NotAvailable \<Rightarrow> tryAttempts f g lss
     | DoesNotFit \<Rightarrow> Some (f, f_lastAllocation f, False)
     | Boosted f' alloc \<Rightarrow> Some (f', alloc, True)
   }"

text \<open>The ranges that are tried: higher temporal layers, higher spatial layers, and layers above the maximum.\<close>

definition higherRanges :: "bool \<Rightarrow> ('m, 'b) Forwarder \<Rightarrow> VideoLayer list list" where
  "higherRanges allowOvershoot f =
     (let target = f_target f; mx = f_max f in
      (if layer_IsValid target then [layersUp (Spatial target) (Spatial target) (Temporal target + 1) (Temporal mx)] else []) @
      [layersUp (Spatial target + 1) (Spatial mx) 0 (Temporal mx)] @
      (if allowOvershoot \<and> vls_IsOvershootOkay (f_vls f) \<and> layer_IsValid mx
       then [layersUp (Spatial mx + 1) DefaultMaxLayerSpatial 0 DefaultMaxLayerTemporal] else []))"

definition AllocateNextHigher :: "int \<Rightarrow> int list \<Rightarrow> Bitrates \<Rightarrow> bool \<Rightarrow> ('m, 'b) Forwarder \<Rightarrow>
    (('m, 'b) Forwarder \<times> VideoAllocation \<times> bool) option" where
  "AllocateNextHigher availableChannelCapacity availableLayers brs allowOvershoot f =
     (if f_kind f = RTPCodecTypeAudio then Some (f, f_lastAllocation f, False)
      else if \<not> va_IsDeficient (f_lastAllocation f) then Some (f, f_lastAllocation f, False)
      else do {
        optimal \<leftarrow> getOptimalBandwidthNeeded (f_muted f) (f_pubMuted f) (Spatial (f_maxSeen f)) brs (f_max f);
        already \<leftarrow> (if layer_IsValid (f_target f) then brAt brs (f_target f) else Some 0);
        tryAttempts f (doAllocation availableChannelCapacity availableLayers brs allowOvershoot optimal already f)
          (higherRanges allowOvershoot f)
      })"

fun findNextHigher :: "VideoLayer \<Rightarrow> Bitrates \<Rightarrow> int \<Rightarrow> VideoLayer list list \<Rightarrow> (VideoTransition \<times> bool) option" where
  "findNextHigher target brs already [] = Some (zeroTransition, False)"
| "findNextHigher target brs already (layers # lss) = do {
     found \<leftarrow> firstLayer (\<lambda>b. \<not> (b = 0 \<or> b < already)) brs layers;
     case found of
       None \<Rightarrow> findNextHigher target brs already lss
     | Some (l, b) \<Rightarrow> Some (\<lparr>tx_From = target, tx_To = l, tx_BandwidthDelta = b - already\<rparr>, True)
   }"

definition GetNextHigherTransition :: "Bitrates \<Rightarrow> bool \<Rightarrow> ('m, 'b) Forwarder \<Rightarrow> (VideoTransition \<times> bool) option" where
  "GetNextHigherTransition brs allowOvershoot f =
     (if f_kind f = RTPCodecTypeAudio then Some (zeroTransition, False)
      else if \<not> va_IsDeficient (f_lastAllocation f) then Some (zeroTransition, False)
      else if layer_IsValid (f_target f) \<and> f_target f \<noteq> f_current f then Some (zeroTransition, False)
      else do {
        already \<leftarrow> (if layer_IsValid (f_target f) then brAt brs (f_target f) else Some 0);
        findNextHigher (f_target f) brs already (higherRanges allowOvershoot f)
      })"

definition Pause :: "int list \<Rightarrow> Bitrates \<Rightarrow> ('m, 'b) Forwarder \<Rightarrow> (('m, 'b) Forwarder \<times> VideoAllocation) option" where
  "Pause availableLayers brs f = do {
     optimal \<leftarrow> getOptimalBandwidthNeeded (f_muted f) (f_pubMuted f) (Spatial (f_maxSeen f)) brs (f_max f);
     used \<leftarrow> getBandwidthNeeded brs (f_target f) (va_BandwidthRequested (f_lastAllocation f));
     d \<leftarrow> getDistanceToDesired (f_muted f) (f_pubMuted f) (f_maxSeen f) availableLayers brs InvalidLayer (f_max f);
     let alloc = zeroAllocation\<lparr>va_BandwidthDelta := 0 - used, va_Bitrates := brs, va_BandwidthNeeded := optimal,
           va_TargetLayer := InvalidLayer, va_RequestLayerSpatial := InvalidLayerSpatial, va_MaxLayer := f_max f,
           va_DistanceToDesired := d\<rparr>;
     Some (updateAllocation
       (if f_muted f then alloc\<lparr>va_PauseReason := VideoPauseReasonMuted\<rparr>
        else if f_pubMuted f then alloc\<lparr>va_PauseReason := VideoPauseReasonPubMuted\<rparr>
        else if optimal = 0 then alloc\<lparr>va_PauseReason := VideoPauseReasonFeedDry\<rparr>
        else alloc\<lparr>va_IsDeficient := True, va_PauseReason := VideoPauseReasonBandwidth\<rparr>) f)
   }"

end
