(* ===== verification/Allocation_Properties.thy ===== *)
theory Allocation_Properties
  imports Forwarder_Allocation
begin

text \<open>
  Properties of the layer allocation: no operation panics and the layers stay in range, what each operation guarantees for the
  bandwidth of the track, and which layer it chooses.
\<close>

section \<open>Ranges\<close>

definition wfBitrates :: "Bitrates \<Rightarrow> bool" where
  "wfBitrates brs \<longleftrightarrow> length brs = 3 \<and> (\<forall>row \<in> set brs. length row = 4 \<and> (\<forall>b \<in> set row. 0 \<le> b))"

definition inBox :: "VideoLayer \<Rightarrow> bool" where
  "inBox l \<longleftrightarrow> 0 \<le> Spatial l \<and> Spatial l \<le> 2 \<and> 0 \<le> Temporal l \<and> Temporal l \<le> 3"

definition inRange :: "VideoLayer \<Rightarrow> bool" where
  "inRange l \<longleftrightarrow> - 1 \<le> Spatial l \<and> Spatial l \<le> 2 \<and> - 1 \<le> Temporal l \<and> Temporal l \<le> 3"

text \<open>The bit rate of a layer, for layers that exist.\<close>

definition br :: "Bitrates \<Rightarrow> VideoLayer \<Rightarrow> int" where
  "br brs l = (case brAt brs l of Some b \<Rightarrow> b | None \<Rightarrow> 0)"

lemmas layer_consts = InvalidLayerSpatial_def InvalidLayerTemporal_def DefaultMaxLayerSpatial_def DefaultMaxLayerTemporal_def

lemma inRange_Invalid [simp]: "inRange InvalidLayer"
  by (simp add: inRange_def InvalidLayer_def layer_consts)

lemma inRange_valid: "inRange l \<Longrightarrow> layer_IsValid l \<longleftrightarrow> inBox l"
  by (auto simp: inRange_def inBox_def layer_IsValid_def layer_consts)

lemma inBox_inRange: "inBox l \<Longrightarrow> inRange l"
  by (simp add: inBox_def inRange_def)

lemma inBox_valid [simp]: "inBox l \<Longrightarrow> layer_IsValid l"
  using inBox_inRange inRange_valid by blast

lemma brAt_box:
  assumes "wfBitrates brs" "inBox l"
  shows "brAt brs l = Some (br brs l)" "0 \<le> br brs l"
proof -
  have s: "nat (Spatial l) < length brs" using assms by (simp add: wfBitrates_def inBox_def nat_less_iff)
  then have "brs ! nat (Spatial l) \<in> set brs" by simp
  then have t: "nat (Temporal l) < length (brs ! nat (Spatial l))" "\<forall>b \<in> set (brs ! nat (Spatial l)). 0 \<le> b"
    using assms by (auto simp: wfBitrates_def inBox_def nat_less_iff)
  show b: "brAt brs l = Some (br brs l)" using assms(2) s t(1) by (simp add: brAt_def br_def inBox_def)
  show "0 \<le> br brs l" using assms(2) s t by (simp add: br_def brAt_def)
qed

lemma wf_noBitrates [simp]: "wfBitrates noBitrates"
  by (auto simp: wfBitrates_def noBitrates_def layer_consts)

section \<open>Scans\<close>

lemma firstLayer_find:
  assumes "wfBitrates brs" "\<forall>l \<in> set ls. inBox l"
  shows "firstLayer P brs ls = Some (map_option (\<lambda>l. (l, br brs l)) (find (\<lambda>l. P (br brs l)) ls))"
  using assms(2) by (induction ls) (simp_all add: brAt_box [OF assms(1)])

lemma set_layersDown: "set (layersDown s t) = {l. 0 \<le> Spatial l \<and> Spatial l \<le> s \<and> 0 \<le> Temporal l \<and> Temporal l \<le> t}"
proof -
  have "l \<in> set (layersDown s t) \<longleftrightarrow> 0 \<le> Spatial l \<and> Spatial l \<le> s \<and> 0 \<le> Temporal l \<and> Temporal l \<le> t" for l
    by (cases l) (auto simp: layersDown_def image_iff)
  then show ?thesis by auto
qed

lemma set_layersUp: "set (layersUp s0 s1 t0 t1) = {l. s0 \<le> Spatial l \<and> Spatial l \<le> s1 \<and> t0 \<le> Temporal l \<and> Temporal l \<le> t1}"
proof -
  have "l \<in> set (layersUp s0 s1 t0 t1) \<longleftrightarrow> s0 \<le> Spatial l \<and> Spatial l \<le> s1 \<and> t0 \<le> Temporal l \<and> Temporal l \<le> t1" for l
    by (cases l) (auto simp: layersUp_def image_iff)
  then show ?thesis by auto
qed

text \<open>Both scans visit the layers in the order of \<open>GreaterThan\<close>.\<close>

lemma sorted_grid:
  assumes "sorted_wrt (\<lambda>x y. P x y) ss" "sorted_wrt (\<lambda>x y. P x y) ts"
    and "\<And>x y t u. P x y \<Longrightarrow> R \<lparr>Spatial = x, Temporal = t\<rparr> \<lparr>Spatial = y, Temporal = u\<rparr>"
    and "\<And>x t u. P t u \<Longrightarrow> R \<lparr>Spatial = x, Temporal = t\<rparr> \<lparr>Spatial = x, Temporal = u\<rparr>"
  shows "sorted_wrt R (concat (map (\<lambda>s. map (\<lambda>t. \<lparr>Spatial = s, Temporal = t\<rparr>) ts) ss))"
  using assms(1)
proof (induction ss)
  case (Cons s ss)
  have "sorted_wrt (\<lambda>x y. R \<lparr>Spatial = s, Temporal = x\<rparr> \<lparr>Spatial = s, Temporal = y\<rparr>) ts"
    using assms(2) by (rule sorted_wrt_mono_rel [rotated]) (rule assms(4))
  with Cons show ?case by (auto simp: sorted_wrt_append sorted_wrt_map intro: assms(3))
qed simp

lemma sorted_layersDown: "sorted_wrt GreaterThan (layersDown s t)"
  unfolding layersDown_def by (rule sorted_grid [where P = "\<lambda>x y. y < x"]) (simp_all add: sorted_wrt_rev GreaterThan_def)

lemma sorted_layersUp: "sorted_wrt (\<lambda>a b. GreaterThan b a) (layersUp s0 s1 t0 t1)"
  unfolding layersUp_def by (rule sorted_grid [where P = "(<)"]) (simp_all add: GreaterThan_def)

text \<open>The first hit of a sorted scan dominates all the others.\<close>

lemma find_sorted:
  assumes "sorted_wrt R ls" "find P ls = Some l"
  shows "l \<in> set ls" "P l" "\<And>x. x \<in> set ls \<Longrightarrow> P x \<Longrightarrow> x = l \<or> R l x"
proof -
  obtain i where "i < length ls" "P (ls ! i)" "l = ls ! i" "\<forall>j < i. \<not> P (ls ! j)"
    using assms(2) by (auto simp: find_Some_iff)
  then have ls: "ls = take i ls @ l # drop (Suc i) ls" "\<forall>x \<in> set (take i ls). \<not> P x"
    by (auto simp: id_take_nth_drop in_set_conv_nth)
  show "l \<in> set ls" "P l" using \<open>i < length ls\<close> \<open>P (ls ! i)\<close> \<open>l = ls ! i\<close> by auto
  show "x = l \<or> R l x" if "x \<in> set ls" "P x" for x
  proof -
    have "x \<in> set (l # drop (Suc i) ls)" using that ls by (metis Un_iff set_append)
    moreover have "sorted_wrt R (take i ls @ l # drop (Suc i) ls)" using assms(1) ls(1) by metis
    ultimately show ?thesis by (auto simp: sorted_wrt_append)
  qed
qed


section \<open>Bandwidth and distance are total\<close>

definition highestLayer :: "Bitrates \<Rightarrow> VideoLayer \<Rightarrow> VideoLayer option" where
  "highestLayer brs mx = find (\<lambda>l. br brs l \<noteq> 0) (layersDown (Spatial mx) (Temporal mx))"

definition optimalBr :: "bool \<Rightarrow> bool \<Rightarrow> int \<Rightarrow> Bitrates \<Rightarrow> VideoLayer \<Rightarrow> int" where
  "optimalBr muted pubMuted published brs mx =
     (if muted \<or> pubMuted \<or> published = InvalidLayerSpatial then 0
      else case highestLayer brs mx of Some l \<Rightarrow> br brs l | None \<Rightarrow> 0)"

definition neededBr :: "Bitrates \<Rightarrow> VideoLayer \<Rightarrow> int \<Rightarrow> int" where
  "neededBr brs l fallback = (if layer_IsValid l \<and> br brs l > 0 then br brs l else fallback)"

lemma layersDown_box: "inRange mx \<Longrightarrow> \<forall>l \<in> set (layersDown (Spatial mx) (Temporal mx)). inBox l"
  by (auto simp: set_layersDown inRange_def inBox_def)

lemma firstLayer_highest:
  assumes "wfBitrates brs" "inRange mx"
  shows "firstLayer (\<lambda>b. b \<noteq> 0) brs (layersDown (Spatial mx) (Temporal mx)) = Some (map_option (\<lambda>l. (l, br brs l)) (highestLayer brs mx))"
  using firstLayer_find [OF assms(1) layersDown_box [OF assms(2)]] by (simp add: highestLayer_def)

lemma highestLayer_Some:
  assumes "highestLayer brs mx = Some l"
  shows "br brs l \<noteq> 0" "0 \<le> Spatial l" "Spatial l \<le> Spatial mx" "0 \<le> Temporal l" "Temporal l \<le> Temporal mx"
  using find_sorted(1,2) [OF sorted_layersDown assms [unfolded highestLayer_def]] by (auto simp: set_layersDown)

lemma highestLayer_max:
  assumes "highestLayer brs mx = Some l" "br brs x \<noteq> 0" "0 \<le> Spatial x" "Spatial x \<le> Spatial mx" "0 \<le> Temporal x" "Temporal x \<le> Temporal mx"
  shows "x = l \<or> GreaterThan l x"
  using find_sorted(3) [OF sorted_layersDown assms(1) [unfolded highestLayer_def], of x] assms by (auto simp: set_layersDown)

lemma highestLayer_None:
  assumes "highestLayer brs mx = None" "0 \<le> Spatial x" "Spatial x \<le> Spatial mx" "0 \<le> Temporal x" "Temporal x \<le> Temporal mx"
  shows "br brs x = 0"
  using assms by (auto simp: highestLayer_def find_None_iff set_layersDown)

lemma optimal_total:
  assumes "wfBitrates brs" "inRange mx"
  shows "getOptimalBandwidthNeeded muted pubMuted published brs mx = Some (optimalBr muted pubMuted published brs mx)"
  using firstLayer_highest [OF assms]
  by (auto simp: getOptimalBandwidthNeeded_def optimalBr_def split: option.splits)

lemma optimalBr_nonneg:
  assumes "wfBitrates brs" "inRange mx"
  shows "0 \<le> optimalBr muted pubMuted mp brs mx"
proof -
  have "0 \<le> br brs l" if "highestLayer brs mx = Some l" for l
    using brAt_box(2) [OF assms(1), of l] highestLayer_Some [OF that] assms(2) by (simp add: inBox_def inRange_def)
  then show ?thesis by (auto simp: optimalBr_def split: option.splits)
qed

lemma needed_total:
  assumes "wfBitrates brs" "inRange l"
  shows "getBandwidthNeeded brs l fallback = Some (neededBr brs l fallback)"
  using brAt_box [OF assms(1), of l] inRange_valid [OF assms(2)]
  by (auto simp: getBandwidthNeeded_def neededBr_def)

lemma maxAvailable_total:
  assumes "wfBitrates brs" "set avail \<subseteq> {0..2}"
  shows "\<exists>s t. maxAvailable maxSeen avail brs = Some (s, t) \<and> - 1 \<le> s \<and> s \<le> 2 \<and> (t = - 1 \<or> t = Temporal maxSeen)"
proof -
  have len: "int (length brs) - 1 = 2" "int (length (brs ! 0)) - 1 = 3"
    using assms(1) by (cases brs; auto simp: wfBitrates_def)+
  have box: "\<forall>l \<in> set (layersDown 2 3). inBox l" by (auto simp: set_layersDown inBox_def)
  have loop: "- 1 \<le> s0 \<and> s0 \<le> 2 \<and> (t0 = - 1 \<or> t0 = Temporal maxSeen) \<Longrightarrow>
    \<exists>s t. fold (\<lambda>layer (s, t). if layer > s then (layer, Temporal maxSeen) else (s, t)) avail (s0, t0) = (s, t) \<and>
      - 1 \<le> s \<and> s \<le> 2 \<and> (t = - 1 \<or> t = Temporal maxSeen)" for s0 t0
    using assms(2) by (induction avail arbitrary: s0 t0) (auto)
  obtain r where r: "firstLayer (\<lambda>b. b \<noteq> 0) brs (layersDown 2 3) = Some r" "\<forall>l b. r = Some (l, b) \<longrightarrow> inBox l"
    using firstLayer_find [OF assms(1) box] find_sorted(1) [OF sorted_layersDown] box by fastforce
  define s0 where "s0 = (case r of Some (l, b) \<Rightarrow> Spatial l | None \<Rightarrow> InvalidLayerSpatial)"
  have "- 1 \<le> s0 \<and> s0 \<le> 2" using r(2) by (auto simp: s0_def layer_consts inBox_def split: option.splits)
  then show ?thesis
    using loop [of s0 "- 1"] by (auto simp: maxAvailable_def len r(1) s0_def [symmetric] layer_consts)
qed

lemma adjustedMax_total:
  assumes "wfBitrates brs" "set avail \<subseteq> {0..2}" "inRange mx" "inRange maxSeen"
  shows "\<exists>l. adjustedMax maxSeen avail brs mx = Some l \<and> inBox l"
proof -
  have len: "int (length (brs ! 0)) - 1 = 3" using assms(1) by (cases brs) (auto simp: wfBitrates_def)
  obtain s t where st: "maxAvailable maxSeen avail brs = Some (s, t)" "- 1 \<le> s" "s \<le> 2" "t = - 1 \<or> t = Temporal maxSeen"
    using maxAvailable_total [OF assms(1,2)] by blast
  define sp where "sp = min (min (Spatial mx) s) (Spatial maxSeen)"
  have sp: "- 1 \<le> sp" "sp \<le> 2" using st assms(3,4) by (auto simp: sp_def inRange_def)
  define row where "row = map (\<lambda>t. \<lparr>Spatial = sp, Temporal = t\<rparr>) (rev [0..3])"
  have "\<exists>r. (if sp = - 1 then Some None else firstLayer (\<lambda>b. b \<noteq> 0) brs row) = Some r \<and> (\<forall>l b. r = Some (l, b) \<longrightarrow> 0 \<le> Temporal l \<and> Temporal l \<le> 3)"
  proof (cases "sp = - 1")
    case False
    then have "\<forall>l \<in> set row. inBox l" using sp by (auto simp: row_def inBox_def)
    from firstLayer_find [OF assms(1) this] show ?thesis using False \<open>\<forall>l \<in> set row. inBox l\<close>
      by (auto simp: find_Some_iff inBox_def)
  qed simp
  then obtain r where "(if sp = - 1 then Some None else firstLayer (\<lambda>b. b \<noteq> 0) brs row) = Some r"
    "\<forall>l b. r = Some (l, b) \<longrightarrow> 0 \<le> Temporal l \<and> Temporal l \<le> 3" by blast
  note r = this
  define te where "te = min (min (Temporal mx) (case r of Some (l, b) \<Rightarrow> Temporal l | None \<Rightarrow> t)) (Temporal maxSeen)"
  have "- 1 \<le> te" "te \<le> 3" using r(2) st(4) assms(3,4) by (auto simp: te_def inRange_def split: option.splits)
  moreover have "adjustedMax maxSeen avail brs mx =
      Some (if sp \<noteq> - 1 \<and> te \<noteq> - 1 then \<lparr>Spatial = sp, Temporal = te\<rparr> else zeroLayer)"
    using st(1) r(1) by (cases "sp = - 1") (simp_all add: adjustedMax_def len layer_consts Let_def sp_def [symmetric]
        row_def [symmetric] te_def layer_IsValid_def)
  ultimately show ?thesis using sp by (auto simp: inBox_def zeroLayer_def)
qed

lemma distance_total:
  assumes "wfBitrates brs" "set avail \<subseteq> {0..2}" "inRange mx" "inRange maxSeen"
  shows "\<exists>d. getDistanceToDesired muted pubMuted maxSeen avail brs target mx = Some d"
  using adjustedMax_total [OF assms] by (auto simp: getDistanceToDesired_def Let_def)


section \<open>State after an allocation\<close>

lemma vls_base_onBase [simp]: "vls_base (vls_onBase g v) = g (vls_base v)"
  by (cases v) simp_all

lemma vls_overshoot_onBase [simp]: "vls_IsOvershootOkay (vls_onBase g v) = vls_IsOvershootOkay v"
  by (cases v) simp_all

lemma base_setters [simp]:
  "maxLayer (SetCurrent l b) = maxLayer b" "maxSeenLayer (SetCurrent l b) = maxSeenLayer b"
  "currentLayer (SetCurrent l b) = l" "targetLayer (SetCurrent l b) = targetLayer b"
  "maxLayer (SetTarget l b) = maxLayer b" "maxSeenLayer (SetTarget l b) = maxSeenLayer b"
  "currentLayer (SetTarget l b) = currentLayer b" "targetLayer (SetTarget l b) = l"
  "maxLayer (SetRequestSpatial s b) = maxLayer b" "maxSeenLayer (SetRequestSpatial s b) = maxSeenLayer b"
  "currentLayer (SetRequestSpatial s b) = currentLayer b" "targetLayer (SetRequestSpatial s b) = targetLayer b"
  "requestSpatial (SetRequestSpatial s b) = s" "requestSpatial (SetCurrent l b) = requestSpatial b"
  "requestSpatial (SetTarget l b) = requestSpatial b"
  by (simp_all add: SetCurrent_def SetTarget_def SetRequestSpatial_def)

lemma onVls_sel [simp]:
  "f_vls (onVls g f) = vls_onBase g (f_vls f)" "f_provisional (onVls g f) = f_provisional f"
  "f_lastAllocation (onVls g f) = f_lastAllocation f" "f_kind (onVls g f) = f_kind f" "f_mime (onVls g f) = f_mime f"
  "f_muted (onVls g f) = f_muted f" "f_pubMuted (onVls g f) = f_pubMuted f"
  by (simp_all add: onVls_def)

lemma resyncLocked_sel [simp]:
  "f_vls (resyncLocked f) = vls_onBase (SetCurrent InvalidLayer) (f_vls f)" "f_provisional (resyncLocked f) = f_provisional f"
  "f_lastAllocation (resyncLocked f) = f_lastAllocation f" "f_kind (resyncLocked f) = f_kind f"
  "f_mime (resyncLocked f) = f_mime f" "f_muted (resyncLocked f) = f_muted f" "f_pubMuted (resyncLocked f) = f_pubMuted f"
  by (simp_all add: resyncLocked_def Let_def)

text \<open>Temporal layers of H.264 are not used.\<close>

definition clampTarget :: "MimeType \<Rightarrow> VideoAllocation \<Rightarrow> VideoAllocation" where
  "clampTarget mime alloc =
     (if layer_IsValid (va_TargetLayer alloc) \<and> mime = MimeTypeH264
      then alloc\<lparr>va_TargetLayer := (va_TargetLayer alloc)\<lparr>Temporal := 0\<rparr>\<rparr> else alloc)"

lemma updateAllocation_sel [simp]:
  "snd (updateAllocation alloc f) = clampTarget (f_mime f) alloc"
  "f_lastAllocation (fst (updateAllocation alloc f)) = clampTarget (f_mime f) alloc"
  "f_target (fst (updateAllocation alloc f)) = va_TargetLayer (clampTarget (f_mime f) alloc)"
  "f_max (fst (updateAllocation alloc f)) = f_max f" "f_maxSeen (fst (updateAllocation alloc f)) = f_maxSeen f"
  "f_current (fst (updateAllocation alloc f)) = (if layer_IsValid (va_TargetLayer alloc) then f_current f else InvalidLayer)"
  "f_provisional (fst (updateAllocation alloc f)) = f_provisional f" "f_kind (fst (updateAllocation alloc f)) = f_kind f"
  "f_mime (fst (updateAllocation alloc f)) = f_mime f" "f_muted (fst (updateAllocation alloc f)) = f_muted f"
  "f_pubMuted (fst (updateAllocation alloc f)) = f_pubMuted f"
  "requestSpatial (vls_base (f_vls (fst (updateAllocation alloc f)))) =
     (if layer_IsValid (va_TargetLayer alloc) then va_RequestLayerSpatial alloc else InvalidLayerSpatial)"
  "vls_IsOvershootOkay (f_vls (fst (updateAllocation alloc f))) = vls_IsOvershootOkay (f_vls f)"
  by (auto simp: updateAllocation_def clampTarget_def setTargetLayer_def Let_def layer_IsValid_def layer_consts)

lemma clampTarget_sel [simp]:
  "va_IsDeficient (clampTarget m alloc) = va_IsDeficient alloc" "va_PauseReason (clampTarget m alloc) = va_PauseReason alloc"
  "va_BandwidthRequested (clampTarget m alloc) = va_BandwidthRequested alloc"
  "va_BandwidthDelta (clampTarget m alloc) = va_BandwidthDelta alloc"
  "Spatial (va_TargetLayer (clampTarget m alloc)) = Spatial (va_TargetLayer alloc)"
  "layer_IsValid (va_TargetLayer (clampTarget m alloc)) = layer_IsValid (va_TargetLayer alloc)"
  by (auto simp: clampTarget_def layer_IsValid_def layer_consts)

lemma clampTarget_range: "inRange (va_TargetLayer alloc) \<Longrightarrow> inRange (va_TargetLayer (clampTarget m alloc))"
  by (auto simp: clampTarget_def inRange_def)

section \<open>Invariant\<close>

definition prov_ok :: "VideoAllocationProvisional \<Rightarrow> bool" where
  "prov_ok p \<longleftrightarrow> inRange (pv_maxSeenLayer p) \<and> inRange (pv_maxLayer p) \<and> inRange (pv_currentLayer p) \<and>
     inRange (pv_allocatedLayer p) \<and> wfBitrates (pv_bitrates p) \<and> set (pv_availableLayers p) \<subseteq> {0..2}"

definition alloc_ok :: "('m, 'b) Forwarder \<Rightarrow> bool" where
  "alloc_ok f \<longleftrightarrow> inRange (f_max f) \<and> inRange (f_maxSeen f) \<and> inRange (f_current f) \<and> inRange (f_target f) \<and>
     pred_option prov_ok (f_provisional f)"

lemma alloc_okD:
  assumes "alloc_ok f"
  shows "inRange (f_max f)" "inRange (f_maxSeen f)" "inRange (f_current f)" "inRange (f_target f)"
    "\<And>p. f_provisional f = Some p \<Longrightarrow> prov_ok p"
  using assms by (auto simp: alloc_ok_def)

lemma prov_okD:
  assumes "prov_ok p"
  shows "inRange (pv_maxSeenLayer p)" "inRange (pv_maxLayer p)" "inRange (pv_currentLayer p)"
     "inRange (pv_allocatedLayer p)" "wfBitrates (pv_bitrates p)" "set (pv_availableLayers p) \<subseteq> {0..2}"
  using assms by (auto simp: prov_ok_def)

lemma alloc_ok_update:
  assumes "alloc_ok f" "inRange (va_TargetLayer alloc)"
  shows "alloc_ok (fst (updateAllocation alloc f))"
  using assms clampTarget_range [OF assms(2)] by (simp add: alloc_ok_def)

lemma alloc_ok_setAllocated: "alloc_ok f \<Longrightarrow> prov_ok p \<Longrightarrow> inRange l \<Longrightarrow> alloc_ok (setAllocated l p f)"
  by (simp add: alloc_ok_def setAllocated_def prov_ok_def)

lemma setAllocated_sel [simp]:
  "f_vls (setAllocated l p f) = f_vls f" "f_provisional (setAllocated l p f) = Some (p\<lparr>pv_allocatedLayer := l\<rparr>)"
  "f_lastAllocation (setAllocated l p f) = f_lastAllocation f" "f_mime (setAllocated l p f) = f_mime f"
  "f_kind (setAllocated l p f) = f_kind f" "f_muted (setAllocated l p f) = f_muted f"
  "f_pubMuted (setAllocated l p f) = f_pubMuted f"
  by (simp_all add: setAllocated_def)


section \<open>Optimal allocation\<close>

text \<open>The highest available layer under a limit, or the invalid layer; the lowest one.\<close>

definition highestUnder :: "int \<Rightarrow> int list \<Rightarrow> int" where
  "highestUnder limit avail = Max (insert (- 1) {al \<in> set avail. al \<le> limit})"

definition lowestOf :: "int list \<Rightarrow> int" where
  "lowestOf avail = (if avail = [] then - 1 else Min (set avail))"

lemma highestUnder_snoc:
  "highestUnder limit (avail @ [al]) = (if al > highestUnder limit avail \<and> al \<le> limit then al else highestUnder limit avail)"
proof -
  let ?S = "insert (- 1) {al \<in> set avail. al \<le> limit}"
  have "insert (- 1) {x \<in> set (avail @ [al]). x \<le> limit} = (if al \<le> limit then insert al ?S else ?S)" by auto
  then have "highestUnder limit (avail @ [al]) = (if al \<le> limit then max al (Max ?S) else Max ?S)"
    by (simp add: highestUnder_def del: Max_insert2)
  then show ?thesis by (simp add: highestUnder_def [symmetric] max_def)
qed

lemma lowestOf_Nil: "avail = [] \<Longrightarrow> lowestOf avail = - 1"
  by (simp add: lowestOf_def)

lemma lowestOf_bounds: "set avail \<subseteq> {0..2} \<Longrightarrow> avail \<noteq> [] \<Longrightarrow> 0 \<le> lowestOf avail \<and> lowestOf avail \<le> 2"
  using Min_in [of "set avail"] subsetD [of "set avail" "{0..2}" "Min (set avail)"] by (simp add: lowestOf_def)

lemma lowestOf_snoc:
  "set avail \<subseteq> {0..2} \<Longrightarrow> lowestOf (avail @ [al]) = (if lowestOf avail = - 1 \<or> al < lowestOf avail then al else lowestOf avail)"
proof (cases "avail = []")
  case False
  assume "set avail \<subseteq> {0..2}"
  then have "Min (set avail) \<noteq> - 1" using False lowestOf_bounds [of avail] by (auto simp: lowestOf_def simp del: Min_ge_iff)
  then have "lowestOf avail \<noteq> - 1" using False by (simp add: lowestOf_def)
  moreover have "lowestOf (avail @ [al]) = min al (lowestOf avail)" using False by (simp add: lowestOf_def)
  ultimately show ?thesis by (simp only: min_def) simp
qed (simp add: lowestOf_def)

lemma highestUnder_bounds:
  assumes "set avail \<subseteq> {0..2}"
  shows "- 1 \<le> highestUnder limit avail" "highestUnder limit avail \<le> 2"
    "highestUnder limit avail \<noteq> - 1 \<Longrightarrow> highestUnder limit avail \<in> set avail \<and> highestUnder limit avail \<le> limit"
proof -
  have "highestUnder limit avail \<in> insert (- 1) {al \<in> set avail. al \<le> limit}"
    unfolding highestUnder_def by (rule Max_in) auto
  then show "- 1 \<le> highestUnder limit avail" "highestUnder limit avail \<le> 2"
    "highestUnder limit avail \<noteq> - 1 \<Longrightarrow> highestUnder limit avail \<in> set avail \<and> highestUnder limit avail \<le> limit"
    using assms by auto
qed

lemma scanAvailable_eq:
  assumes "set avail \<subseteq> {0..2}"
  shows "scanAvailable limit avail = (highestUnder limit avail, highestUnder 2 avail, lowestOf avail)"
  using assms
proof (induction avail rule: rev_induct)
  case (snoc al avail)
  have "scanAvailable limit (avail @ [al]) = (case scanAvailable limit avail of (req, hi, lo) \<Rightarrow>
     (if al > req \<and> al \<le> limit then al else req, if al > hi then al else hi, if lo = InvalidLayerSpatial \<or> al < lo then al else lo))"
    by (simp add: scanAvailable_def split: prod.splits)
  then show ?case using snoc by (simp add: highestUnder_snoc lowestOf_snoc layer_consts)
qed (simp add: scanAvailable_def highestUnder_def lowestOf_def layer_consts)

text \<open>
  The spatial layer of the optimal allocation when it is not held back: the highest available layer within the subscribed and
  published limits, an available one above them if overshooting is allowed, otherwise the current layer; without a current layer,
  the limit itself, so that the track latches on to whatever arrives.
\<close>

definition optimalSpatial :: "int list \<Rightarrow> bool \<Rightarrow> ('m, 'b) Forwarder \<Rightarrow> int" where
  "optimalSpatial avail overshoot f =
     (let limit = min (Spatial (f_max f)) (Spatial (f_maxSeen f)) in
      if layer_IsValid (f_current f) then
        if highestUnder limit avail \<noteq> - 1 then highestUnder limit avail
        else if overshoot \<and> avail \<noteq> [] then highestUnder 2 avail
        else Spatial (f_current f)
      else if overshoot then Spatial (f_maxSeen f) else limit)"

lemma highestUnder_2: "set avail \<subseteq> {0..2} \<Longrightarrow> highestUnder 2 avail = - 1 \<longleftrightarrow> avail = []"
proof
  assume *: "set avail \<subseteq> {0..2}" "highestUnder 2 avail = - 1"
  then have "\<forall>x \<in> insert (- 1) {al \<in> set avail. al \<le> 2}. x \<le> - 1"
    using Max_ge [of "insert (- 1) {al \<in> set avail. al \<le> 2}"] by (auto simp: highestUnder_def)
  with * show "avail = []" by (cases avail) auto
qed (simp add: highestUnder_def)

lemma requestLayer_eq:
  assumes "set avail \<subseteq> {0..2}"
  shows "requestLayer limit overshoot avail =
    (if highestUnder limit avail = - 1 \<and> avail \<noteq> [] \<and> overshoot then highestUnder 2 avail else highestUnder limit avail,
     lowestOf avail)"
  by (simp add: requestLayer_def scanAvailable_eq [OF assms] layer_consts highestUnder_2 [OF assms])

lemma requestLayer_bounds:
  assumes "set avail \<subseteq> {0..2}" "requestLayer limit overshoot avail = (req, lo)"
  shows "req = - 1 \<or> 0 \<le> req \<and> req \<le> 2 \<and> avail \<noteq> []" "avail = [] \<and> lo = - 1 \<or> 0 \<le> lo \<and> lo \<le> 2"
proof -
  note h = highestUnder_bounds [OF assms(1), of limit] highestUnder_bounds [OF assms(1), of 2] highestUnder_2 [OF assms(1)]
  have ne: "highestUnder limit avail \<noteq> - 1 \<Longrightarrow> avail \<noteq> []" using h(3) by auto
  show "req = - 1 \<or> 0 \<le> req \<and> req \<le> 2 \<and> avail \<noteq> []"
    using assms(2) h(1,2,4,5,7) ne by (auto simp: requestLayer_eq [OF assms(1)] split: if_splits)
  show "avail = [] \<and> lo = - 1 \<or> 0 \<le> lo \<and> lo \<le> 2"
  proof -
    have "lo = lowestOf avail" using assms(2) by (simp add: requestLayer_eq [OF assms(1)])
    then show ?thesis using lowestOf_Nil lowestOf_bounds [OF assms(1)] by blast
  qed
qed

lemma optimalTarget_eq:
  assumes "set avail \<subseteq> {0..2}"
  shows "fst (optimalTarget avail allowOvershoot False f) =
    \<lparr>Spatial = optimalSpatial avail (allowOvershoot \<and> vls_IsOvershootOkay (f_vls f)) f,
     Temporal = optMaxTemporal (f_max f) (f_maxSeen f)\<rparr>"
  using highestUnder_2 [OF assms]
  by (simp add: optimalTarget_def optimalSpatial_def requestLayer_eq [OF assms] Let_def layer_consts min.commute)

lemma optimalTarget_range:
  assumes "alloc_ok f" "set avail \<subseteq> {0..2}" "layer_IsValid (f_max f)" "Spatial (f_maxSeen f) \<noteq> - 1"
  shows "inBox (fst (optimalTarget avail allowOvershoot hold f)) \<and>
    Temporal (fst (optimalTarget avail allowOvershoot hold f)) \<le> Temporal (f_max f)"
proof -
  note ok = alloc_okD [OF assms(1)]
  obtain req lo where rl: "requestLayer (min (Spatial (f_max f)) (Spatial (f_maxSeen f))) (allowOvershoot \<and> vls_IsOvershootOkay (f_vls f)) avail = (req, lo)"
    by (cases "requestLayer (min (Spatial (f_max f)) (Spatial (f_maxSeen f))) (allowOvershoot \<and> vls_IsOvershootOkay (f_vls f)) avail")
  note b = requestLayer_bounds [OF assms(2) rl]
  have mx: "inBox (f_max f)" "layer_IsValid (f_current f) \<Longrightarrow> inBox (f_current f)"
    using ok assms(3) inRange_valid by blast+
  have mt: "0 \<le> optMaxTemporal (f_max f) (f_maxSeen f)" "optMaxTemporal (f_max f) (f_maxSeen f) \<le> Temporal (f_max f)"
    using mx(1) ok(2) by (auto simp: optMaxTemporal_def inBox_def inRange_def layer_consts)
  have sp: "0 \<le> Spatial (f_maxSeen f)" "Spatial (f_maxSeen f) \<le> 2" "0 \<le> Spatial (f_max f)" "Spatial (f_max f) \<le> 2"
    using assms(4) ok(2) mx(1) by (auto simp: inRange_def inBox_def)
  have cur: "layer_IsValid (f_current f) \<Longrightarrow> 0 \<le> Spatial (f_current f) \<and> Spatial (f_current f) \<le> 2" using mx(2) by (simp add: inBox_def)
  have m3: "Temporal (f_max f) \<le> 3" "0 \<le> Temporal (f_max f)" using mx(1) by (simp_all add: inBox_def)
  let ?t = "fst (optimalTarget avail allowOvershoot hold f)"
  have "Temporal ?t = 0 \<or> Temporal ?t = optMaxTemporal (f_max f) (f_maxSeen f)" by (simp add: optimalTarget_def rl Let_def)
  moreover have "0 \<le> Spatial ?t \<and> Spatial ?t \<le> 2"
  proof (cases "layer_IsValid (f_current f)")
    case True
    then show ?thesis using b cur by (auto simp: optimalTarget_def rl Let_def layer_consts)
  next
    case False
    then show ?thesis using b sp by (cases hold) (auto simp: optimalTarget_def rl Let_def layer_consts)
  qed
  ultimately show ?thesis using mt m3 by (auto simp: inBox_def)
qed


text \<open>The target that the optimal allocation sets.\<close>

definition optTarget :: "int list \<Rightarrow> bool \<Rightarrow> bool \<Rightarrow> ('m, 'b) Forwarder \<Rightarrow> VideoLayer" where
  "optTarget avail allowOvershoot hold f =
     (if \<not> layer_IsValid (f_max f) \<or> Spatial (f_maxSeen f) = InvalidLayerSpatial \<or> f_muted f \<or> f_pubMuted f then InvalidLayer
      else fst (optimalTarget avail allowOvershoot hold f))"

lemma optTarget_range:
  assumes "alloc_ok f" "set avail \<subseteq> {0..2}"
  shows "inRange (optTarget avail allowOvershoot hold f)"
  using optimalTarget_range [OF assms] by (auto simp: optTarget_def layer_consts intro: inBox_inRange)

lemma InvalidLayer_not_valid [simp]: "\<not> layer_IsValid InvalidLayer"
  by (simp add: layer_IsValid_def InvalidLayer_def)

lemma AllocateOptimal_eq:
  fixes f :: "('m, 'b) Forwarder"
  assumes "alloc_ok f" "wfBitrates brs" "set avail \<subseteq> {0..2}" "f_kind f \<noteq> RTPCodecTypeAudio"
  shows "\<exists>alloc. AllocateOptimal avail brs allowOvershoot hold f = Some (updateAllocation alloc f) \<and> \<not> va_IsDeficient alloc \<and>
    0 \<le> va_BandwidthRequested alloc \<and> va_TargetLayer alloc = optTarget avail allowOvershoot hold f \<and>
    (layer_IsValid (f_max f) \<and> Spatial (f_maxSeen f) \<noteq> InvalidLayerSpatial \<longrightarrow>
      va_PauseReason alloc = (if f_muted f then VideoPauseReasonMuted else if f_pubMuted f then VideoPauseReasonPubMuted
        else if optimalBr False False (Spatial (f_maxSeen f)) brs (f_max f) = 0 then VideoPauseReasonFeedDry
        else VideoPauseReasonNone))"
proof -
  note ok = alloc_okD [OF assms(1)]
  define T where "T = optTarget avail allowOvershoot hold f"
  have T: "inRange T" using optTarget_range [OF assms(1,3)] by (simp add: T_def)
  obtain d where d: "getDistanceToDesired (f_muted f) (f_pubMuted f) (f_maxSeen f) avail brs T (f_max f) = Some d"
    using distance_total [OF assms(2,3) ok(1,2)] by blast
  have valid: "layer_IsValid (fst (optimalTarget avail allowOvershoot hold f))"
    if "layer_IsValid (f_max f)" "Spatial (f_maxSeen f) \<noteq> - 1"
    using optimalTarget_range [OF assms(1,3) that] by simp
  obtain target req where tr: "optimalTarget avail allowOvershoot hold f = (target, req)" by fastforce
  show ?thesis
    using d valid optimal_total [OF assms(2) T] optimalBr_nonneg [OF assms(2) T, of False False 0] assms(4)
    by (auto simp: AllocateOptimal_def Let_def optimal_total [OF assms(2) ok(1)] needed_total [OF assms(2) ok(4)]
        T_def optTarget_def tr layer_consts zeroAllocation_def optimalBr_def)
qed



section \<open>Provisional allocation\<close>

text \<open>A layer may be taken when it fits, or, when pausing is not allowed, when nothing lower has been taken.\<close>

definition provFits :: "int \<Rightarrow> VideoLayer \<Rightarrow> VideoAllocationProvisional \<Rightarrow> bool" where
  "provFits capacity l p \<longleftrightarrow> \<not> GreaterThan l (pv_maxLayer p) \<and>
     br (pv_bitrates p) l \<le> capacity + (if layer_IsValid (pv_allocatedLayer p) then br (pv_bitrates p) (pv_allocatedLayer p) else 0)"

definition provForced :: "bool \<Rightarrow> VideoLayer \<Rightarrow> VideoAllocationProvisional \<Rightarrow> bool" where
  "provForced allowPause l p \<longleftrightarrow>
     \<not> allowPause \<and> (\<not> layer_IsValid (pv_allocatedLayer p) \<or> \<not> GreaterThan l (pv_allocatedLayer p))"

definition provOpen :: "bool \<Rightarrow> VideoLayer \<Rightarrow> VideoAllocationProvisional \<Rightarrow> bool" where
  "provOpen overshoot l p \<longleftrightarrow> \<not> pv_muted p \<and> \<not> pv_pubMuted p \<and> Spatial (pv_maxSeenLayer p) \<noteq> InvalidLayerSpatial \<and>
     layer_IsValid (pv_maxLayer p) \<and> (overshoot \<or> \<not> GreaterThan l (pv_maxLayer p)) \<and> br (pv_bitrates p) l \<noteq> 0"

definition allocatedBr :: "VideoAllocationProvisional \<Rightarrow> int" where
  "allocatedBr p = (if layer_IsValid (pv_allocatedLayer p) then br (pv_bitrates p) (pv_allocatedLayer p) else 0)"

lemma ProvisionalAllocate_eq:
  assumes "f_provisional f = Some p" "prov_ok p" "inBox l"
  shows "ProvisionalAllocate capacity l allowPause allowOvershoot f =
    Some (if provOpen (allowOvershoot \<and> vls_IsOvershootOkay (f_vls f)) l p \<and> (provFits capacity l p \<or> provForced allowPause l p)
          then (setAllocated l p f, True, br (pv_bitrates p) l - allocatedBr p) else (f, False, 0))"
proof -
  note ok = prov_okD [OF assms(2)]
  have b: "brAt (pv_bitrates p) l = Some (br (pv_bitrates p) l)" by (rule brAt_box [OF ok(5) assms(3)])
  have a: "layer_IsValid (pv_allocatedLayer p) \<Longrightarrow> brAt (pv_bitrates p) (pv_allocatedLayer p) = Some (allocatedBr p)"
    using brAt_box [OF ok(5), of "pv_allocatedLayer p"] inRange_valid [OF ok(4)] by (simp add: allocatedBr_def)
  show ?thesis
    using a by (cases "layer_IsValid (pv_allocatedLayer p)")
      (auto simp: ProvisionalAllocate_def assms(1) b Let_def provOpen_def provFits_def provForced_def allocatedBr_def)
qed

lemma ProvisionalAllocate_ok:
  assumes "alloc_ok f" "f_provisional f = Some p" "inBox l"
  shows "\<exists>f' c d p'. ProvisionalAllocate capacity l allowPause allowOvershoot f = Some (f', c, d) \<and> alloc_ok f' \<and>
    f_provisional f' = Some p'"
  using ProvisionalAllocate_eq [OF assms(2) alloc_okD(5) [OF assms(1,2)] assms(3)] alloc_okD(5) [OF assms(1,2)] assms
    alloc_ok_setAllocated [OF assms(1) _ inBox_inRange [OF assms(3)]] by auto

lemma ProvisionalAllocatePrepare_ok:
  assumes "alloc_ok f" "wfBitrates brs" "set avail \<subseteq> {0..2}"
  shows "alloc_ok (ProvisionalAllocatePrepare avail brs f)"
  using assms by (simp add: alloc_ok_def ProvisionalAllocatePrepare_def prov_ok_def)

section \<open>Cooperative transition\<close>

lemma cooperativeKeep_eq:
  assumes "alloc_ok f" "prov_ok p"
  shows "cooperativeKeep p f = Some
    (if layer_IsValid (f_target f) then
       case highestLayer (pv_bitrates p) (pv_maxLayer p) of
         None \<Rightarrow> None
       | Some m \<Rightarrow>
           if GreaterThan (f_target f) m
           then Some (m, br (pv_bitrates p) m - neededBr (pv_bitrates p) (f_target f) (va_BandwidthRequested (f_lastAllocation f)))
           else if br (pv_bitrates p) (f_target f) \<noteq> 0 then Some (f_target f, 0) else None
     else None)"
proof -
  note ok = prov_okD [OF assms(2)] and t = alloc_okD(4) [OF assms(1)]
  have "layer_IsValid (f_target f) \<Longrightarrow> brAt (pv_bitrates p) (f_target f) = Some (br (pv_bitrates p) (f_target f))"
    using brAt_box [OF ok(5)] inRange_valid [OF t] by blast
  then show ?thesis
    by (auto simp: cooperativeKeep_def firstLayer_highest [OF ok(5,2)] needed_total [OF ok(5) t] Let_def split: option.splits)
qed

definition lowestLayer :: "Bitrates \<Rightarrow> int \<Rightarrow> int \<Rightarrow> int \<Rightarrow> VideoLayer option" where
  "lowestLayer brs s0 s1 t1 = find (\<lambda>l. br brs l \<noteq> 0) (layersUp s0 s1 0 t1)"

lemma firstLayer_lowest:
  assumes "wfBitrates brs" "0 \<le> s0" "s1 \<le> 2" "t1 \<le> 3"
  shows "firstLayer (\<lambda>b. b \<noteq> 0) brs (layersUp s0 s1 0 t1) = Some (map_option (\<lambda>l. (l, br brs l)) (lowestLayer brs s0 s1 t1))"
  using firstLayer_find [OF assms(1), of "layersUp s0 s1 0 t1" "\<lambda>b. b \<noteq> 0"] assms
  by (auto simp: lowestLayer_def set_layersUp inBox_def)

lemma lowestLayer_Some:
  assumes "lowestLayer brs s0 s1 t1 = Some l"
  shows "br brs l \<noteq> 0" "s0 \<le> Spatial l" "Spatial l \<le> s1" "0 \<le> Temporal l" "Temporal l \<le> t1"
    "\<And>x. br brs x \<noteq> 0 \<Longrightarrow> s0 \<le> Spatial x \<Longrightarrow> Spatial x \<le> s1 \<Longrightarrow> 0 \<le> Temporal x \<Longrightarrow> Temporal x \<le> t1 \<Longrightarrow> x = l \<or> GreaterThan x l"
  using find_sorted [OF sorted_layersUp assms [unfolded lowestLayer_def]] by (auto simp: set_layersUp)

lemma lowestLayer_None:
  "lowestLayer brs s0 s1 t1 = None \<longleftrightarrow> (\<forall>x. s0 \<le> Spatial x \<longrightarrow> Spatial x \<le> s1 \<longrightarrow> 0 \<le> Temporal x \<longrightarrow> Temporal x \<le> t1 \<longrightarrow> br brs x = 0)"
  by (auto simp: lowestLayer_def find_None_iff set_layersUp)

text \<open>The layer at which a track that is not streaming starts.\<close>

definition startLayer :: "bool \<Rightarrow> VideoAllocationProvisional \<Rightarrow> VideoLayer option" where
  "startLayer overshoot p =
     (case lowestLayer (pv_bitrates p) 0 (Spatial (pv_maxLayer p)) (Temporal (pv_maxLayer p)) of
        Some l \<Rightarrow> Some l
      | None \<Rightarrow> if layer_IsValid (pv_maxLayer p) \<and> overshoot then lowestLayer (pv_bitrates p) (Spatial (pv_maxLayer p) + 1) 2 3 else None)"

lemma cooperativeStart_eq:
  assumes "prov_ok p"
  shows "cooperativeStart allowOvershoot p f = Some
    (if layer_IsValid (f_target f) then None
     else map_option (\<lambda>l. (l, br (pv_bitrates p) l)) (startLayer (allowOvershoot \<and> vls_IsOvershootOkay (f_vls f)) p))"
proof -
  note ok = prov_okD [OF assms]
  have b: "Spatial (pv_maxLayer p) \<le> 2" "Temporal (pv_maxLayer p) \<le> 3" "0 \<le> Spatial (pv_maxLayer p) + 1"
    using ok(2) by (simp_all add: inRange_def)
  show ?thesis
    by (simp add: cooperativeStart_def startLayer_def layer_consts firstLayer_lowest [OF ok(5) order_refl b(1,2)]
        firstLayer_lowest [OF ok(5) b(3) order_refl order_refl] split: option.split)
qed

text \<open>Where the cooperative transition leads.\<close>

definition coopLayer :: "bool \<Rightarrow> VideoAllocationProvisional \<Rightarrow> ('m, 'b) Forwarder \<Rightarrow> VideoLayer" where
  "coopLayer overshoot p f =
     (if pv_muted p \<or> pv_pubMuted p then InvalidLayer
      else if layer_IsValid (f_target f) then
        case highestLayer (pv_bitrates p) (pv_maxLayer p) of
          None \<Rightarrow> pv_currentLayer p
        | Some m \<Rightarrow> if GreaterThan (f_target f) m then m
            else if br (pv_bitrates p) (f_target f) \<noteq> 0 then f_target f else pv_currentLayer p
      else case startLayer overshoot p of Some l \<Rightarrow> l | None \<Rightarrow> pv_currentLayer p)"

definition coopDelta :: "VideoLayer \<Rightarrow> VideoAllocationProvisional \<Rightarrow> ('m, 'b) Forwarder \<Rightarrow> int" where
  "coopDelta l p f =
     (if layer_IsValid l then br (pv_bitrates p) l else 0) -
       neededBr (pv_bitrates p) (f_target f) (va_BandwidthRequested (f_lastAllocation f))"

lemma neededBr_streaming: "br brs l \<noteq> 0 \<Longrightarrow> wfBitrates brs \<Longrightarrow> inBox l \<Longrightarrow> neededBr brs l x = br brs l"
  using brAt_box(2) [of brs l] by (simp add: neededBr_def)

lemma startLayer_box: "prov_ok p \<Longrightarrow> startLayer overshoot p = Some l \<Longrightarrow> inBox l"
  using lowestLayer_Some(2-5) [of "pv_bitrates p" _ _ _ l] prov_okD(2) [of p]
  by (auto simp: startLayer_def inBox_def inRange_def split: option.splits if_splits) fastforce+

lemma coop_eq:
  fixes allowOvershoot :: bool
  assumes "alloc_ok f" "f_provisional f = Some p"
  defines "l \<equiv> coopLayer (allowOvershoot \<and> vls_IsOvershootOkay (f_vls f)) p f"
  shows "ProvisionalAllocateGetCooperativeTransition allowOvershoot f = Some (transitionTo l (coopDelta l p f) p f) \<and> inRange l"
proof -
  note pok = alloc_okD(5) [OF assms(1,2)] and t = alloc_okD(4) [OF assms(1)]
  note ok = prov_okD [OF pok]
  have h: "highestLayer (pv_bitrates p) (pv_maxLayer p) = Some m \<Longrightarrow> inBox m" for m
    using highestLayer_Some [of "pv_bitrates p" "pv_maxLayer p" m] ok(2) by (auto simp: inBox_def inRange_def)
  have c: "layer_IsValid (pv_currentLayer p) \<Longrightarrow> brAt (pv_bitrates p) (pv_currentLayer p) = Some (br (pv_bitrates p) (pv_currentLayer p))"
    using brAt_box [OF ok(5)] inRange_valid [OF ok(3)] by blast
  have k: "layer_IsValid (f_target f) \<Longrightarrow> br (pv_bitrates p) (f_target f) \<noteq> 0 \<Longrightarrow>
      neededBr (pv_bitrates p) (f_target f) x = br (pv_bitrates p) (f_target f)" for x
    using neededBr_streaming [OF _ ok(5)] inRange_valid [OF t] by blast
  have "inRange l"
    using h ok(3) t startLayer_box [OF pok] by (auto simp: l_def coopLayer_def intro: inBox_inRange split: option.splits)
  moreover have "ProvisionalAllocateGetCooperativeTransition allowOvershoot f = Some (transitionTo l (coopDelta l p f) p f)"
    using h c k startLayer_box [OF pok]
    by (auto simp: ProvisionalAllocateGetCooperativeTransition_def assms(2) cooperativeKeep_eq [OF assms(1) pok]
        cooperativeStart_eq [OF pok] needed_total [OF ok(5) t] l_def coopLayer_def coopDelta_def Let_def split: option.splits)
  ultimately show ?thesis by blast
qed


text \<open>
  C18: the cooperative transition that a track makes while the channel is congested. A muted track gives everything back. A
  track that streams at a layer that is available and not above the best available one stays where it is at no cost; if the best
  available layer is lower, it moves down to that one. It moves up only to the layer that is being forwarded already, and only
  when its target has no bit rate. A track that does not stream starts at the lowest available layer of the subscription. The layer
  of the transition is what a following commit uses.
\<close>

theorem cooperative_transition:
  assumes "alloc_ok f" "f_provisional f = Some p" "highestLayer (pv_bitrates p) (pv_maxLayer p) = Some best"
  shows "\<exists>f' tx avail brs. ProvisionalAllocateGetCooperativeTransition allowOvershoot f = Some (f', tx, avail, brs) \<and> alloc_ok f' \<and>
    tx_From tx = f_target f \<and> f_provisional f' = Some (p\<lparr>pv_allocatedLayer := tx_To tx\<rparr>) \<and>
    (pv_muted p \<or> pv_pubMuted p \<longrightarrow> tx_To tx = InvalidLayer \<and>
       tx_BandwidthDelta tx = - neededBr (pv_bitrates p) (f_target f) (va_BandwidthRequested (f_lastAllocation f))) \<and>
    (\<not> pv_muted p \<and> \<not> pv_pubMuted p \<and> layer_IsValid (f_target f) \<longrightarrow>
       (GreaterThan (f_target f) best \<longrightarrow> tx_To tx = best) \<and>
       (\<not> GreaterThan (f_target f) best \<and> br (pv_bitrates p) (f_target f) \<noteq> 0 \<longrightarrow>
          tx_To tx = f_target f \<and> tx_BandwidthDelta tx = 0) \<and>
       (GreaterThan (tx_To tx) (f_target f) \<longrightarrow> tx_To tx = pv_currentLayer p \<and> br (pv_bitrates p) (f_target f) = 0)) \<and>
    (\<not> pv_muted p \<and> \<not> pv_pubMuted p \<and> \<not> layer_IsValid (f_target f) \<longrightarrow>
       br (pv_bitrates p) (tx_To tx) \<noteq> 0 \<and> Spatial (tx_To tx) \<le> Spatial (pv_maxLayer p) \<and>
       (\<forall>x. inBox x \<and> Spatial x \<le> Spatial (pv_maxLayer p) \<and> Temporal x \<le> Temporal (pv_maxLayer p) \<and> br (pv_bitrates p) x \<noteq> 0 \<longrightarrow>
          x = tx_To tx \<or> GreaterThan x (tx_To tx)))"
proof -
  note pok = alloc_okD(5) [OF assms(1,2)] and t = alloc_okD(4) [OF assms(1)]
  note ok = prov_okD [OF pok]
  define l where "l = coopLayer (allowOvershoot \<and> vls_IsOvershootOkay (f_vls f)) p f"
  let ?f = "setAllocated l p f" and ?tx = "\<lparr>tx_From = f_target f, tx_To = l, tx_BandwidthDelta = coopDelta l p f\<rparr>"
  have eq: "ProvisionalAllocateGetCooperativeTransition allowOvershoot f = Some (?f, ?tx, pv_availableLayers p, pv_bitrates p)"
    and l: "inRange l" using coop_eq [OF assms(1,2), of allowOvershoot] by (simp_all add: transitionTo_def l_def)
  have k: "layer_IsValid (f_target f) \<Longrightarrow> br (pv_bitrates p) (f_target f) \<noteq> 0 \<Longrightarrow> coopDelta (f_target f) p f = 0"
    using neededBr_streaming [OF _ ok(5)] inRange_valid [OF t] by (simp add: coopDelta_def)
  have nn: "\<not> GreaterThan best (f_target f)" if "GreaterThan (f_target f) best"
    using that GreaterThan_trans GreaterThan_irrefl by blast
  have start: "\<exists>x. startLayer ov p = Some x \<and> lowestLayer (pv_bitrates p) 0 (Spatial (pv_maxLayer p)) (Temporal (pv_maxLayer p)) = Some x" for ov
    using highestLayer_Some [OF assms(3)] lowestLayer_None [of "pv_bitrates p" 0 "Spatial (pv_maxLayer p)" "Temporal (pv_maxLayer p)"]
    by (cases "lowestLayer (pv_bitrates p) 0 (Spatial (pv_maxLayer p)) (Temporal (pv_maxLayer p))") (auto simp: startLayer_def)
  have low: "br (pv_bitrates p) l \<noteq> 0 \<and> Spatial l \<le> Spatial (pv_maxLayer p) \<and>
     (\<forall>x. inBox x \<and> Spatial x \<le> Spatial (pv_maxLayer p) \<and> Temporal x \<le> Temporal (pv_maxLayer p) \<and> br (pv_bitrates p) x \<noteq> 0 \<longrightarrow>
        x = l \<or> GreaterThan x l)" if "\<not> pv_muted p" "\<not> pv_pubMuted p" "\<not> layer_IsValid (f_target f)"
    using that start [of "allowOvershoot \<and> vls_IsOvershootOkay (f_vls f)"]
      lowestLayer_Some [of "pv_bitrates p" 0 "Spatial (pv_maxLayer p)" "Temporal (pv_maxLayer p)" l]
    by (auto simp: l_def coopLayer_def inBox_def) blast
  show ?thesis
    using eq alloc_ok_setAllocated [OF assms(1) pok l] k low nn GreaterThan_irrefl
    by (intro exI [of _ ?f] exI [of _ ?tx] exI)
      (auto simp: l_def coopLayer_def assms(3) coopDelta_def)
qed

section \<open>Best offer\<close>

definition offerDelta :: "Bitrates \<Rightarrow> int \<Rightarrow> VideoLayer \<Rightarrow> int" where
  "offerDelta brs existing l = max 0 (existing - br brs l)"

definition offerRat :: "VideoLayer \<Rightarrow> int \<Rightarrow> Bitrates \<Rightarrow> int \<Rightarrow> VideoLayer \<Rightarrow> rat" where
  "offerRat target mrt brs existing l =
     roundBits 24 (roundBits 24 (of_int (offerDelta brs existing l)) / roundBits 24 (of_int (transitionCost target l mrt)))"

lemma offersBelow_iff: "l \<in> set (offersBelow target) \<longleftrightarrow>
    l \<noteq> target \<and> 0 \<le> Spatial l \<and> Spatial l \<le> Spatial target \<and> 0 \<le> Temporal l \<and> Temporal l \<le> Temporal target"
  by (auto simp: offersBelow_def set_layersUp)

lemma transitionCost_pos:
  assumes "l \<in> set (offersBelow target)" "- 1 \<le> mrt"
  shows "transitionCost target l mrt > 0"
proof (cases "Spatial l = Spatial target")
  case True
  then have "Temporal l \<noteq> Temporal target" using assms(1) by (cases l; cases target) (auto simp: offersBelow_iff)
  then show ?thesis using True assms(1) by (auto simp: transitionCost_def offersBelow_iff)
next
  case False
  have "0 \<le> (mrt + 1) * (Spatial target - Spatial l)" using assms by (auto simp: offersBelow_iff)
  then show ?thesis using False assms(1) by (auto simp: transitionCost_def offersBelow_iff TransitionCostSpatial_def)
qed

lemma offerValue_rat:
  assumes "l \<in> set (offersBelow target)" "- 1 \<le> mrt"
  shows "offerValue (offerDelta brs existing l) (transitionCost target l mrt) = Fin (offerRat target mrt brs existing l)"
    "offerRat target mrt brs existing l > 0 \<longleftrightarrow> offerDelta brs existing l > 0"
proof -
  note c = transitionCost_pos [OF assms]
  then show "offerValue (offerDelta brs existing l) (transitionCost target l mrt) = Fin (offerRat target mrt brs existing l)"
    by (simp add: offerValue_def floatDiv_def offerRat_def)
  have "roundBits 24 (of_int (transitionCost target l mrt)) > 0" using c by (simp add: roundBits_sign)
  then show "offerRat target mrt brs existing l > 0 \<longleftrightarrow> offerDelta brs existing l > 0"
    by (simp add: offerRat_def roundBits_sign zero_less_divide_iff offerDelta_def)
qed

text \<open>The state of the search after the layers of \<open>S\<close>.\<close>

definition bestInv :: "VideoLayer \<Rightarrow> int \<Rightarrow> Bitrates \<Rightarrow> int \<Rightarrow> VideoLayer set \<Rightarrow> VideoLayer \<times> int \<times> goFloat \<Rightarrow> bool" where
  "bestInv target mrt brs existing S = (\<lambda>(bl, bd, bv). \<exists>r. bv = Fin r \<and> 0 \<le> r \<and> (\<forall>x \<in> S. offerRat target mrt brs existing x \<le> r) \<and>
     (bl = InvalidLayer \<and> bd = 0 \<and> r = 0 \<or>
      bl \<in> S \<and> bd = offerDelta brs existing bl \<and> r = offerRat target mrt brs existing bl \<and> bd > 0))"

lemma bestOffer_inv:
  assumes "wfBitrates brs" "inRange target" "- 1 \<le> mrt" "set ls \<subseteq> set (offersBelow target)" "bestInv target mrt brs existing S b"
  shows "\<exists>b'. bestOffer target mrt existing brs ls b = Some b' \<and> bestInv target mrt brs existing (S \<union> set ls) b'"
  using assms(4,5)
proof (induction ls arbitrary: S b)
  case (Cons l ls)
  obtain bl bd bv where b: "b = (bl, bd, bv)" by (cases b)
  from Cons.prems(2) obtain r where r: "bv = Fin r" "0 \<le> r" "\<forall>x \<in> S. offerRat target mrt brs existing x \<le> r"
    "bl = InvalidLayer \<and> bd = 0 \<and> r = 0 \<or>
      bl \<in> S \<and> bd = offerDelta brs existing bl \<and> r = offerRat target mrt brs existing bl \<and> bd > 0"
    by (auto simp: b bestInv_def)
  have l: "l \<in> set (offersBelow target)" using Cons.prems(1) by simp
  then have "inBox l" using assms(2) by (auto simp: offersBelow_iff inBox_def inRange_def)
  then have br: "brAt brs l = Some (br brs l)" by (rule brAt_box [OF assms(1)])
  note v = offerValue_rat [OF l assms(3), of brs existing]
  define d where "d = offerDelta brs existing l"
  define b2 where "b2 = (if floatLess bv (Fin (offerRat target mrt brs existing l)) \<or>
      Fin (offerRat target mrt brs existing l) = bv \<and> d > bd then (l, d, Fin (offerRat target mrt brs existing l)) else b)"
  have step: "bestOffer target mrt existing brs (l # ls) b = bestOffer target mrt existing brs ls b2"
    using v(1) by (simp add: b br Let_def d_def offerDelta_def b2_def)
  have "bestInv target mrt brs existing (insert l S) b2"
  proof (cases "r < offerRat target mrt brs existing l \<or> offerRat target mrt brs existing l = r \<and> d > bd")
    case True
    moreover have "d > 0" using True v(2) r(2,4) by (auto simp: d_def offerDelta_def)
    ultimately show ?thesis using r(1-3) by (auto simp: b2_def floatLess_def bestInv_def d_def)
  next
    case False
    then show ?thesis using r by (auto simp: b2_def floatLess_def bestInv_def b)
  qed
  from Cons.IH [OF _ this] Cons.prems(1) show ?case by (simp add: step insert_commute)
qed simp


lemma reach_total:
  assumes "wfBitrates brs" "inRange mx"
  shows "\<exists>r. firstLayer (\<lambda>b. b \<noteq> 0) brs
      (concat (map (\<lambda>t. map (\<lambda>s. \<lparr>Spatial = s, Temporal = t\<rparr>) (rev [0..Spatial mx])) (rev [0..Temporal mx]))) = Some r \<and>
    (r = None \<longleftrightarrow> highestLayer brs mx = None) \<and> (\<forall>l b. r = Some (l, b) \<longrightarrow> inBox l)"
proof -
  let ?ls = "concat (map (\<lambda>t. map (\<lambda>s. \<lparr>Spatial = s, Temporal = t\<rparr>) (rev [0..Spatial mx])) (rev [0..Temporal mx]))"
  have "l \<in> set ?ls \<longleftrightarrow> l \<in> set (layersDown (Spatial mx) (Temporal mx))" for l
    by (cases l) (auto simp: set_layersDown image_iff)
  then have set: "set ?ls = set (layersDown (Spatial mx) (Temporal mx))" by blast
  have box: "\<forall>l \<in> set ?ls. inBox l" unfolding set by (rule layersDown_box [OF assms(2)])
  have "find (\<lambda>l. br brs l \<noteq> 0) ?ls = None \<longleftrightarrow> highestLayer brs mx = None"
    unfolding highestLayer_def find_None_iff set ..
  moreover have "find (\<lambda>l. br brs l \<noteq> 0) ?ls = Some l \<Longrightarrow> inBox l" for l
    using box by (metis find_Some_iff nth_mem)
  ultimately show ?thesis using firstLayer_find [OF assms(1) box, of "\<lambda>b. b \<noteq> 0"] by auto
qed



section \<open>Next higher layer\<close>

lemma higherRanges_iff:
  "l \<in> set (concat (higherRanges allowOvershoot f)) \<longleftrightarrow>
     layer_IsValid (f_target f) \<and> Spatial l = Spatial (f_target f) \<and> Temporal (f_target f) < Temporal l \<and> Temporal l \<le> Temporal (f_max f) \<or>
     Spatial (f_target f) < Spatial l \<and> Spatial l \<le> Spatial (f_max f) \<and> 0 \<le> Temporal l \<and> Temporal l \<le> Temporal (f_max f) \<or>
     allowOvershoot \<and> vls_IsOvershootOkay (f_vls f) \<and> layer_IsValid (f_max f) \<and>
       Spatial (f_max f) < Spatial l \<and> Spatial l \<le> 2 \<and> 0 \<le> Temporal l \<and> Temporal l \<le> 3"
proof -
  have r: "l \<in> set (layersUp a a (b + 1) c) \<longleftrightarrow> Spatial l = a \<and> b < Temporal l \<and> Temporal l \<le> c"
    "l \<in> set (layersUp (a + 1) b 0 c) \<longleftrightarrow> a < Spatial l \<and> Spatial l \<le> b \<and> 0 \<le> Temporal l \<and> Temporal l \<le> c" for a b c
    by (auto simp: set_layersUp)
  show ?thesis
    by (cases "layer_IsValid (f_target f)"; cases "allowOvershoot \<and> vls_IsOvershootOkay (f_vls f) \<and> layer_IsValid (f_max f)")
      (simp_all add: higherRanges_def Let_def r layer_consts)
qed

lemma higherRanges_box:
  assumes "alloc_ok f" "l \<in> set (concat (higherRanges allowOvershoot f))"
  shows "inBox l"
proof -
  note ok = alloc_okD [OF assms(1)]
  have t: "layer_IsValid (f_target f) \<Longrightarrow> inBox (f_target f)" using inRange_valid [OF ok(4)] by simp
  have b: "- 1 \<le> Spatial (f_target f)" "Spatial (f_max f) \<le> 2" "Temporal (f_max f) \<le> 3" "- 1 \<le> Spatial (f_max f)"
    using ok(1,4) by (simp_all add: inRange_def)
  from assms(2) show ?thesis
    unfolding higherRanges_iff
  proof (elim disjE conjE)
    assume "layer_IsValid (f_target f)" "Spatial l = Spatial (f_target f)" "Temporal (f_target f) < Temporal l" "Temporal l \<le> Temporal (f_max f)"
    then show ?thesis using t b by (simp add: inBox_def)
  qed (use b in \<open>simp_all add: inBox_def\<close>)
qed

lemma sorted_higherRanges:
  "\<not> (allowOvershoot \<and> vls_IsOvershootOkay (f_vls f)) \<Longrightarrow> sorted_wrt (\<lambda>a b. GreaterThan b a) (concat (higherRanges allowOvershoot f))"
  using sorted_layersUp by (auto simp: higherRanges_def Let_def sorted_wrt_append set_layersUp GreaterThan_def)

text \<open>Trying the ranges one after the other is one scan over all of them.\<close>

definition alreadyBr :: "Bitrates \<Rightarrow> ('m, 'b) Forwarder \<Rightarrow> int" where
  "alreadyBr brs f = (if layer_IsValid (f_target f) then br brs (f_target f) else 0)"

definition boostAlloc :: "int list \<Rightarrow> Bitrates \<Rightarrow> VideoLayer \<Rightarrow> ('m, 'b) Forwarder \<Rightarrow> VideoAllocation" where
  "boostAlloc avail brs l f =
     (let optimal = optimalBr (f_muted f) (f_pubMuted f) (Spatial (f_maxSeen f)) brs (f_max f);
          already = alreadyBr brs f in
      zeroAllocation\<lparr>va_IsDeficient := \<not> (GreaterThan l (f_max f) \<or> br brs l \<ge> optimal), va_BandwidthRequested := br brs l,
        va_BandwidthDelta := br brs l - already, va_BandwidthNeeded := optimal, va_Bitrates := brs, va_TargetLayer := l,
        va_RequestLayerSpatial := Spatial l, va_MaxLayer := f_max f,
        va_DistanceToDesired := (case getDistanceToDesired (f_muted f) (f_pubMuted f) (f_maxSeen f) avail brs l (f_max f) of
          Some d \<Rightarrow> d | None \<Rightarrow> NaN)\<rparr>)"

lemma doAllocation_eq:
  fixes f :: "('m, 'b) Forwarder"
  assumes "alloc_ok f" "wfBitrates brs" "set avail \<subseteq> {0..2}" "\<forall>l \<in> set ls. inBox l"
  shows "doAllocation capacity avail brs allowOvershoot
      (optimalBr (f_muted f) (f_pubMuted f) (Spatial (f_maxSeen f)) brs (f_max f)) (alreadyBr brs f) f ls = Some
    (case find (\<lambda>l. br brs l \<noteq> 0) ls of None \<Rightarrow> NotAvailable
     | Some l \<Rightarrow> if \<not> (allowOvershoot \<and> vls_IsOvershootOkay (f_vls f)) \<and> br brs l - alreadyBr brs f > capacity then DoesNotFit
         else Boosted (fst (updateAllocation (boostAlloc avail brs l f) f)) (clampTarget (f_mime f) (boostAlloc avail brs l f)))"
proof (cases "find (\<lambda>l. br brs l \<noteq> 0) ls")
  case None
  then show ?thesis by (simp add: doAllocation_def firstLayer_find [OF assms(2,4)])
next
  case (Some l)
  obtain d where d: "getDistanceToDesired (f_muted f) (f_pubMuted f) (f_maxSeen f) avail brs l (f_max f) = Some d"
    using distance_total [OF assms(2,3) alloc_okD(1,2) [OF assms(1)]] by blast
  have "updateAllocation a f = (fst (updateAllocation a f), clampTarget (f_mime f) a)" for a by (simp add: prod_eq_iff)
  then have u: "(case updateAllocation a f of (x, y) \<Rightarrow> Some (Boosted x y)) = Some (Boosted (fst (updateAllocation a f)) (clampTarget (f_mime f) a))" for a
    by (metis case_prod_conv)
  show ?thesis
    using Some by (auto simp: doAllocation_def firstLayer_find [OF assms(2,4)] d u boostAlloc_def Let_def)
qed

lemma tryAttempts_concat:
  assumes "\<And>ls. ls \<in> set lss \<Longrightarrow> g ls = Some (case find P ls of None \<Rightarrow> NotAvailable | Some l \<Rightarrow> h l)"
    and "\<And>l. h l \<noteq> NotAvailable"
  shows "tryAttempts f g lss = Some (case find P (concat lss) of None \<Rightarrow> (f, f_lastAllocation f, False)
    | Some l \<Rightarrow> (case h l of Boosted f' a \<Rightarrow> (f', a, True) | _ \<Rightarrow> (f, f_lastAllocation f, False)))"
  using assms(1)
proof (induction lss)
  case (Cons ls lss)
  then show ?case using assms(2) by (auto simp: find_append split: option.split attempt.split)
qed simp

lemma AllocateNextHigher_eq:
  fixes f :: "('m, 'b) Forwarder"
  assumes "alloc_ok f" "wfBitrates brs" "set avail \<subseteq> {0..2}" "f_kind f \<noteq> RTPCodecTypeAudio" "va_IsDeficient (f_lastAllocation f)"
  shows "AllocateNextHigher capacity avail brs allowOvershoot f = Some
    (case find (\<lambda>l. br brs l \<noteq> 0) (concat (higherRanges allowOvershoot f)) of None \<Rightarrow> (f, f_lastAllocation f, False)
     | Some l \<Rightarrow> if \<not> (allowOvershoot \<and> vls_IsOvershootOkay (f_vls f)) \<and> br brs l - alreadyBr brs f > capacity
         then (f, f_lastAllocation f, False)
         else (fst (updateAllocation (boostAlloc avail brs l f) f), clampTarget (f_mime f) (boostAlloc avail brs l f), True))"
proof -
  note ok = alloc_okD [OF assms(1)]
  let ?h = "\<lambda>l. if \<not> (allowOvershoot \<and> vls_IsOvershootOkay (f_vls f)) \<and> br brs l - alreadyBr brs f > capacity then DoesNotFit
         else Boosted (fst (updateAllocation (boostAlloc avail brs l f) f)) (clampTarget (f_mime f) (boostAlloc avail brs l f))"
  let ?g = "doAllocation capacity avail brs allowOvershoot (optimalBr (f_muted f) (f_pubMuted f) (Spatial (f_maxSeen f)) brs (f_max f)) (alreadyBr brs f) f"
  have g: "?g ls = Some (case find (\<lambda>l. br brs l \<noteq> 0) ls of None \<Rightarrow> NotAvailable | Some l \<Rightarrow> ?h l)"
    if "ls \<in> set (higherRanges allowOvershoot f)" for ls
  proof -
    have "\<forall>l \<in> set ls. inBox l" using higherRanges_box [OF assms(1), of _ allowOvershoot] that by auto
    then show ?thesis by (rule doAllocation_eq [OF assms(1-3)])
  qed
  have a: "(if layer_IsValid (f_target f) then brAt brs (f_target f) else Some 0) = Some (alreadyBr brs f)"
    using brAt_box [OF assms(2)] inRange_valid [OF ok(4)] by (simp add: alreadyBr_def)
  have "tryAttempts f ?g (higherRanges allowOvershoot f) = Some (case find (\<lambda>l. br brs l \<noteq> 0) (concat (higherRanges allowOvershoot f)) of
      None \<Rightarrow> (f, f_lastAllocation f, False)
    | Some l \<Rightarrow> (case ?h l of Boosted f' a \<Rightarrow> (f', a, True) | _ \<Rightarrow> (f, f_lastAllocation f, False)))"
    by (rule tryAttempts_concat) (simp_all add: g)
  then show ?thesis
    using assms(4,5) a by (simp add: AllocateNextHigher_def optimal_total [OF assms(2) ok(1)] cong: option.case_cong split: option.split)
qed


lemma boostAlloc_sel [simp]:
  "va_TargetLayer (boostAlloc avail brs l f) = l" "va_BandwidthRequested (boostAlloc avail brs l f) = br brs l"
  "va_BandwidthDelta (boostAlloc avail brs l f) = br brs l - alreadyBr brs f"
  "va_IsDeficient (boostAlloc avail brs l f) \<longleftrightarrow>
     \<not> GreaterThan l (f_max f) \<and> br brs l < optimalBr (f_muted f) (f_pubMuted f) (Spatial (f_maxSeen f)) brs (f_max f)"
  by (auto simp: boostAlloc_def Let_def)

text \<open>
  C17: boosting a deficient track without overshoot. The candidate is the lowest layer above the target that is within the
  subscription and has a bit rate. The track is boosted exactly when there is one and its additional bandwidth fits into the given
  capacity; the target then moves to it (to temporal layer 0 for H.264), the allocation states its bit rate and the
  difference, and the track stays deficient exactly when the bit rate is below that of the best layer it could get. Otherwise
  nothing changes.
\<close>

theorem allocate_next_higher:
  fixes f :: "('m, 'b) Forwarder"
  assumes "alloc_ok f" "wfBitrates brs" "set avail \<subseteq> {0..2}" "f_kind f \<noteq> RTPCodecTypeAudio" "va_IsDeficient (f_lastAllocation f)"
  defines "cands \<equiv> {l. br brs l \<noteq> 0 \<and> (layer_IsValid (f_target f) \<and> Spatial l = Spatial (f_target f) \<and> Temporal (f_target f) < Temporal l \<or>
      Spatial (f_target f) < Spatial l \<and> Spatial l \<le> Spatial (f_max f) \<and> 0 \<le> Temporal l) \<and> Temporal l \<le> Temporal (f_max f)}"
  shows "\<exists>f' alloc boosted. AllocateNextHigher capacity avail brs False f = Some (f', alloc, boosted) \<and> alloc_ok f' \<and>
    (boosted \<longleftrightarrow> (\<exists>l \<in> cands. (\<forall>x \<in> cands. x = l \<or> GreaterThan x l) \<and> br brs l - alreadyBr brs f \<le> capacity)) \<and>
    (\<not> boosted \<longrightarrow> f' = f \<and> alloc = f_lastAllocation f) \<and>
    (boosted \<longrightarrow> (\<exists>l \<in> cands. (\<forall>x \<in> cands. x = l \<or> GreaterThan x l) \<and>
       f_lastAllocation f' = alloc \<and> f_target f' = (if f_mime f = MimeTypeH264 then l\<lparr>Temporal := 0\<rparr> else l) \<and>
       va_BandwidthRequested alloc = br brs l \<and> va_BandwidthDelta alloc = br brs l - alreadyBr brs f \<and>
       (va_IsDeficient alloc \<longleftrightarrow> \<not> GreaterThan l (f_max f) \<and> br brs l < optimalBr (f_muted f) (f_pubMuted f) (Spatial (f_maxSeen f)) brs (f_max f))))"
proof -
  let ?ls = "concat (higherRanges False f)"
  have c: "x \<in> cands \<longleftrightarrow> x \<in> set ?ls \<and> br brs x \<noteq> 0" for x unfolding higherRanges_iff by (auto simp: cands_def)
  note eq = AllocateNextHigher_eq [OF assms(1-5), of capacity False]
  show ?thesis
  proof (cases "find (\<lambda>l. br brs l \<noteq> 0) ?ls")
    case None
    then have "\<not> (\<exists>x \<in> set ?ls. br brs x \<noteq> 0)" unfolding find_None_iff by blast
    then have "cands = {}" using c by blast
    then show ?thesis using eq None assms(1) by (intro exI [of _ f] exI [of _ "f_lastAllocation f"] exI [of _ False]) simp
  next
    case (Some l)
    have l: "l \<in> cands" "\<forall>x \<in> cands. x = l \<or> GreaterThan x l"
      using find_sorted [OF sorted_higherRanges Some] by (auto simp: c)
    have uniq: "l' = l" if "l' \<in> cands" "\<forall>x \<in> cands. x = l' \<or> GreaterThan x l'" for l'
      using bspec [OF that(2) l(1)] bspec [OF l(2) that(1)] GreaterThan_trans GreaterThan_irrefl by metis
    have box: "inBox l" using l(1) c higherRanges_box [OF assms(1)] by blast
    let ?a = "boostAlloc avail brs l f"
    show ?thesis
    proof (cases "br brs l - alreadyBr brs f \<le> capacity")
      case False
      then have "\<not> (\<exists>l \<in> cands. (\<forall>x \<in> cands. x = l \<or> GreaterThan x l) \<and> br brs l - alreadyBr brs f \<le> capacity)" using uniq by blast
      with False show ?thesis using eq Some assms(1) by (intro exI [of _ f] exI [of _ "f_lastAllocation f"] exI [of _ False]) simp
    next
      case True
      then have "AllocateNextHigher capacity avail brs False f = Some (fst (updateAllocation ?a f), clampTarget (f_mime f) ?a, True)"
        using eq Some by simp
      moreover have "alloc_ok (fst (updateAllocation ?a f))" using alloc_ok_update [OF assms(1), of ?a] inBox_inRange [OF box] by simp
      ultimately show ?thesis using l True box
        by (intro exI [of _ "fst (updateAllocation ?a f)"] exI [of _ "clampTarget (f_mime f) ?a"] exI [of _ True])
          (auto simp: clampTarget_def)
    qed
  qed
qed

section \<open>Commit and pause\<close>

definition provOptimal :: "VideoAllocationProvisional \<Rightarrow> int" where
  "provOptimal p = optimalBr (pv_muted p) (pv_pubMuted p) (Spatial (pv_maxSeenLayer p)) (pv_bitrates p) (pv_maxLayer p)"

text \<open>The allocation that a commit makes.\<close>

definition commitsCurrent :: "VideoAllocationProvisional \<Rightarrow> bool" where
  "commitsCurrent p \<longleftrightarrow> \<not> pv_muted p \<and> \<not> pv_pubMuted p \<and> provOptimal p = 0 \<and> \<not> layer_IsValid (pv_allocatedLayer p) \<and>
     layer_IsValid (pv_currentLayer p) \<and> Spatial (pv_currentLayer p) \<le> Spatial (pv_maxLayer p)"

definition commitTarget :: "VideoAllocationProvisional \<Rightarrow> VideoLayer" where
  "commitTarget p = (if commitsCurrent p then pv_currentLayer p else pv_allocatedLayer p)"

definition commitDeficient :: "VideoAllocationProvisional \<Rightarrow> bool" where
  "commitDeficient p \<longleftrightarrow> provOptimal p \<noteq> 0 \<and> \<not> GreaterThan (pv_allocatedLayer p) (pv_maxLayer p) \<and> allocatedBr p < provOptimal p"

definition commitReason :: "VideoAllocationProvisional \<Rightarrow> VideoPauseReason" where
  "commitReason p = (if pv_muted p then VideoPauseReasonMuted else if pv_pubMuted p then VideoPauseReasonPubMuted
     else if layer_IsValid (pv_allocatedLayer p) then VideoPauseReasonNone
     else if provOptimal p = 0 then VideoPauseReasonFeedDry
     else if commitDeficient p then VideoPauseReasonBandwidth else VideoPauseReasonNone)"

definition commitAlloc :: "int \<Rightarrow> goFloat \<Rightarrow> VideoAllocationProvisional \<Rightarrow> VideoAllocation" where
  "commitAlloc used d p = zeroAllocation\<lparr>va_Bitrates := pv_bitrates p, va_BandwidthNeeded := provOptimal p,
     va_BandwidthRequested := (if pv_muted p \<or> pv_pubMuted p then 0 else allocatedBr p),
     va_BandwidthDelta := (if pv_muted p \<or> pv_pubMuted p then 0 else allocatedBr p) - used,
     va_TargetLayer := commitTarget p, va_RequestLayerSpatial := Spatial (commitTarget p), va_MaxLayer := pv_maxLayer p,
     va_DistanceToDesired := d, va_IsDeficient := commitDeficient p, va_PauseReason := commitReason p\<rparr>"

definition commitState :: "VideoAllocationProvisional \<Rightarrow> ('m, 'b) Forwarder \<Rightarrow> ('m, 'b) Forwarder" where
  "commitState p f = (if commitsCurrent p then setAllocated (pv_currentLayer p) p f else f)"

lemma Commit_alloc:
  fixes f :: "('m, 'b) Forwarder"
  assumes "alloc_ok f" "f_provisional f = Some p"
  shows "\<exists>used d. ProvisionalAllocateCommit f = Some (updateAllocation (commitAlloc used d p) (commitState p f))"
proof -
  note pok = alloc_okD(5) [OF assms] and t = alloc_okD(4) [OF assms(1)]
  note ok = prov_okD [OF pok]
  obtain d where d: "getDistanceToDesired (pv_muted p) (pv_pubMuted p) (pv_maxSeenLayer p) (pv_availableLayers p) (pv_bitrates p)
            (pv_allocatedLayer p) (pv_maxLayer p) = Some d"
    using distance_total [OF ok(5,6,2,1)] by blast
  define used where "used = neededBr (pv_bitrates p) (f_target f) (va_BandwidthRequested (f_lastAllocation f))"
  have b: "layer_IsValid (pv_allocatedLayer p) \<Longrightarrow> brAt (pv_bitrates p) (pv_allocatedLayer p) = Some (allocatedBr p)"
    using brAt_box [OF ok(5)] inRange_valid [OF ok(4)] by (simp add: allocatedBr_def)
  have z: "pv_muted p \<or> pv_pubMuted p \<Longrightarrow> provOptimal p = 0" "\<not> layer_IsValid (pv_allocatedLayer p) \<Longrightarrow> allocatedBr p = 0"
    by (auto simp: provOptimal_def optimalBr_def allocatedBr_def)
  have opt: "getOptimalBandwidthNeeded (pv_muted p) (pv_pubMuted p) (Spatial (pv_maxSeenLayer p)) (pv_bitrates p) (pv_maxLayer p) =
      Some (provOptimal p)"
    by (simp add: optimal_total [OF ok(5,2)] provOptimal_def)
  have "ProvisionalAllocateCommit f = Some (updateAllocation (commitAlloc used d p) (commitState p f))"
    unfolding ProvisionalAllocateCommit_def assms(2) bind.bind_lunit Let_def opt d needed_total [OF ok(5) t] used_def [symmetric]
    using b z
    by (cases "pv_muted p"; cases "pv_pubMuted p"; cases "provOptimal p = 0"; cases "layer_IsValid (pv_allocatedLayer p)")
      (simp_all add: zeroAllocation_def commitAlloc_def commitState_def commitsCurrent_def commitTarget_def
        commitDeficient_def commitReason_def)
  then show ?thesis by blast
qed

lemma Commit_ok:
  fixes f :: "('m, 'b) Forwarder"
  assumes "alloc_ok f" "f_provisional f = Some p"
  shows "\<exists>f' a. ProvisionalAllocateCommit f = Some (f', a) \<and> alloc_ok f' \<and> f_lastAllocation f' = a \<and>
    va_BandwidthRequested a = (if pv_muted p \<or> pv_pubMuted p then 0 else allocatedBr p) \<and>
    va_IsDeficient a = commitDeficient p \<and> va_PauseReason a = commitReason p \<and>
    f_max f' = f_max f \<and> f_maxSeen f' = f_maxSeen f \<and> f_kind f' = f_kind f \<and> f_mime f' = f_mime f \<and>
    f_target f' = va_TargetLayer a \<and> Spatial (f_target f') = Spatial (commitTarget p)"
proof -
  note pok = alloc_okD(5) [OF assms]
  note ok = prov_okD [OF pok]
  obtain used d where eq: "ProvisionalAllocateCommit f = Some (updateAllocation (commitAlloc used d p) (commitState p f))"
    using Commit_alloc [OF assms] by blast
  let ?a = "commitAlloc used d p" and ?g = "commitState p f"
  have "updateAllocation ?a ?g = (fst (updateAllocation ?a ?g), clampTarget (f_mime f) ?a)"
    by (simp add: prod_eq_iff commitState_def)
  with eq have "ProvisionalAllocateCommit f = Some (fst (updateAllocation ?a ?g), clampTarget (f_mime f) ?a)" by metis
  moreover have "alloc_ok ?g" using assms(1) alloc_ok_setAllocated [OF assms(1) pok ok(3)] by (simp add: commitState_def)
  then have "alloc_ok (fst (updateAllocation ?a ?g))"
    using ok by (intro alloc_ok_update) (auto simp: commitAlloc_def commitTarget_def)
  ultimately show ?thesis
    by (intro exI [of _ "fst (updateAllocation ?a ?g)"] exI [of _ "clampTarget (f_mime f) ?a"])
      (auto simp: commitState_def commitAlloc_def)
qed

lemma Pause_ok:
  fixes f :: "('m, 'b) Forwarder"
  assumes "alloc_ok f" "wfBitrates brs" "set avail \<subseteq> {0..2}"
  shows "\<exists>f' a. Pause avail brs f = Some (f', a) \<and> alloc_ok f' \<and> f_lastAllocation f' = a \<and> f_target f' = InvalidLayer \<and>
    va_BandwidthRequested a = 0 \<and> f_max f' = f_max f \<and> f_maxSeen f' = f_maxSeen f \<and> f_kind f' = f_kind f \<and> f_mime f' = f_mime f"
proof -
  note ok = alloc_okD [OF assms(1)]
  obtain d where d: "getDistanceToDesired (f_muted f) (f_pubMuted f) (f_maxSeen f) avail brs InvalidLayer (f_max f) = Some d"
    using distance_total [OF assms(2,3) ok(1,2)] by blast
  have "\<exists>a. Pause avail brs f = Some (updateAllocation a f) \<and> va_TargetLayer a = InvalidLayer \<and> va_BandwidthRequested a = 0"
    unfolding Pause_def optimal_total [OF assms(2) ok(1)] needed_total [OF assms(2) ok(4)] d Let_def bind.bind_lunit
    by (rule exI, rule conjI, rule refl) (simp add: zeroAllocation_def)
  then obtain a where a: "Pause avail brs f = Some (updateAllocation a f)" "va_TargetLayer a = InvalidLayer" "va_BandwidthRequested a = 0" by blast
  have "updateAllocation a f = (fst (updateAllocation a f), clampTarget (f_mime f) a)" by (simp add: prod_eq_iff)
  with a(1) have "Pause avail brs f = Some (fst (updateAllocation a f), clampTarget (f_mime f) a)" by metis
  then show ?thesis using alloc_ok_update [OF assms(1), of a] a(2,3)
    by (intro exI [of _ "fst (updateAllocation a f)"] exI [of _ "clampTarget (f_mime f) a"]) (auto simp: clampTarget_def)
qed

section \<open>A concrete track\<close>

text \<open>A VP8 track with three spatial and four temporal layers that streams at the lowest one and is deficient.\<close>

definition demoBitrates :: Bitrates where
  "demoBitrates = [[100, 200, 300, 400], [1000, 1200, 1400, 1600], [3000, 3500, 4000, 4500]]"

definition demoForwarder :: "(unit, unit) Forwarder" where
  "demoForwarder = (onVls (\<lambda>b. b\<lparr>maxLayer := \<lparr>Spatial = 2, Temporal = 3\<rparr>, maxSeenLayer := \<lparr>Spatial = 2, Temporal = 3\<rparr>,
     targetLayer := \<lparr>Spatial = 1, Temporal = 0\<rparr>, currentLayer := zeroLayer\<rparr>) (NewForwarder RTPCodecTypeVideo False False))
     \<lparr>f_mime := MimeTypeVP8, f_lastAllocation := zeroAllocation\<lparr>va_IsDeficient := True, va_BandwidthRequested := 1000\<rparr>\<rparr>"

definition demoPrepared :: "(unit, unit) Forwarder" where
  "demoPrepared = ProvisionalAllocatePrepare [0, 1, 2] demoBitrates demoForwarder"

definition demoProvisional :: VideoAllocationProvisional where
  "demoProvisional = the (f_provisional demoPrepared)"

lemma demoForwarder_sel:
  "f_max demoForwarder = \<lparr>Spatial = 2, Temporal = 3\<rparr>" "f_maxSeen demoForwarder = \<lparr>Spatial = 2, Temporal = 3\<rparr>"
  "f_current demoForwarder = zeroLayer" "f_target demoForwarder = \<lparr>Spatial = 1, Temporal = 0\<rparr>" "f_provisional demoForwarder = None"
  "f_kind demoForwarder = RTPCodecTypeVideo" "va_IsDeficient (f_lastAllocation demoForwarder)" "f_mime demoForwarder = MimeTypeVP8"
  "va_BandwidthRequested (f_lastAllocation demoForwarder) = 1000" "\<not> f_muted demoForwarder" "\<not> f_pubMuted demoForwarder"
  by (simp_all add: demoForwarder_def NewForwarder_def onVls_def zeroLayer_def zeroAllocation_def)

lemma demo_ok: "alloc_ok demoForwarder" "wfBitrates demoBitrates"
  by (simp_all add: alloc_ok_def demoForwarder_sel inRange_def zeroLayer_def wfBitrates_def demoBitrates_def layer_consts)

lemma demoPrepared_sel:
  "f_provisional demoPrepared = Some demoProvisional" "alloc_ok demoPrepared" "pv_bitrates demoProvisional = demoBitrates"
  "pv_maxLayer demoProvisional = \<lparr>Spatial = 2, Temporal = 3\<rparr>" "\<not> pv_muted demoProvisional" "\<not> pv_pubMuted demoProvisional"
  "f_vls demoPrepared = f_vls demoForwarder"
  using ProvisionalAllocatePrepare_ok [OF demo_ok, of "[0, 1, 2]"]
  by (simp_all add: demoPrepared_def demoProvisional_def ProvisionalAllocatePrepare_def demoForwarder_sel)

lemma demo_highest: "highestLayer demoBitrates \<lparr>Spatial = 2, Temporal = 3\<rparr> = Some \<lparr>Spatial = 2, Temporal = 3\<rparr>"
  by code_simp


lemma cooperative_transition_witness:
  "\<exists>f' tx avail brs. ProvisionalAllocateGetCooperativeTransition False demoPrepared = Some (f', tx, avail, brs) \<and>
     tx_From tx = \<lparr>Spatial = 1, Temporal = 0\<rparr> \<and> tx_To tx = \<lparr>Spatial = 1, Temporal = 0\<rparr> \<and> tx_BandwidthDelta tx = 0"
proof -
  have "br demoBitrates \<lparr>Spatial = 1, Temporal = 0\<rparr> = 1000" "\<not> GreaterThan \<lparr>Spatial = 1, Temporal = 0\<rparr> \<lparr>Spatial = 2, Temporal = 3\<rparr>"
    "layer_IsValid \<lparr>Spatial = 1, Temporal = 0\<rparr>" by code_simp+
  then show ?thesis
    using cooperative_transition [OF demoPrepared_sel(2,1), of "\<lparr>Spatial = 2, Temporal = 3\<rparr>" False]
    by (auto simp: demoPrepared_sel demoForwarder_sel demo_highest)
qed


lemma allocate_next_higher_witness:
  "\<exists>f' alloc boosted. AllocateNextHigher 50 [0, 1, 2] demoBitrates False demoForwarder = Some (f', alloc, boosted) \<and>
     alloc_ok f' \<and> (\<not> boosted \<longrightarrow> f' = demoForwarder)"
proof -
  have "set [0, 1, 2 :: int] \<subseteq> {0..2}" "f_kind demoForwarder \<noteq> RTPCodecTypeAudio" by (simp_all add: demoForwarder_sel)
  from allocate_next_higher [OF demo_ok this demoForwarder_sel(7), of 50] obtain f' alloc boosted where
    "AllocateNextHigher 50 [0, 1, 2] demoBitrates False demoForwarder = Some (f', alloc, boosted)" "alloc_ok f'"
    "\<not> boosted \<longrightarrow> f' = demoForwarder \<and> alloc = f_lastAllocation demoForwarder"
    by (elim exE conjE) (rule that)
  then show ?thesis by blast
qed

end
