(* ===== verification/Stream_Allocator.thy ===== *)
theory Stream_Allocator
  imports Allocation_Properties
begin

text \<open>
  The stream allocator of a subscriber (\<^verbatim>\<open>streamallocator.go\<close>, \<^verbatim>\<open>track.go\<close>, \<^verbatim>\<open>streamstateupdate.go\<close>), which shares the capacity of a
  channel among the video tracks: its data and the allocations it makes. The events that cause them are in a theory of their own. The calls to the pacer, the prober and the
  bandwidth estimator do not change the state that is modelled here and are left out; what the estimator reports is an
  argument. The layers and bit rates that a receiver reports are part of its track and do not change inside a handler.

  Go does not specify the order in which a map is traversed, nor how \<^verbatim>\<open>sort.Sort\<close> orders equal elements: both are an argument
  \<open>order\<close>, which may arrange the tracks differently at every call.
\<close>

section \<open>Tracks\<close>

datatype TrackSource = TrackSource_UNKNOWN | TrackSource_CAMERA | TrackSource_MICROPHONE | TrackSource_SCREEN_SHARE |
  TrackSource_SCREEN_SHARE_AUDIO

datatype StreamState = StreamStateInactive | StreamStateActive | StreamStatePaused

record ('m, 'b) Track =
  tr_id :: nat
  tr_source :: TrackSource
  tr_isMultiLayered :: bool
  tr_priority :: u8
  tr_publisherID :: nat
  tr_maxLayer :: VideoLayer
  tr_totalPackets :: u32
  tr_totalRepeatedNacks :: u32
  tr_isDirty :: bool
  tr_streamState :: StreamState
  tr_SSRC :: u32
  tr_SSRCRTX :: u32
  tr_forwarder :: "('m, 'b) Forwarder"
  tr_available :: "int list"
  tr_bitrates :: Bitrates

definition cPriorityDefaultScreenshare :: u8 where "cPriorityDefaultScreenshare = 255"
definition cPriorityDefaultVideo :: u8 where "cPriorityDefaultVideo = 1"

definition SetPriority :: "u8 \<Rightarrow> ('m, 'b) Track \<Rightarrow> ('m, 'b) Track \<times> bool" where
  "SetPriority priority t =
     (let priority = (if priority = 0
                      then (if tr_source t = TrackSource_SCREEN_SHARE then cPriorityDefaultScreenshare else cPriorityDefaultVideo)
                      else priority)
      in if tr_priority t = priority then (t, False) else (t\<lparr>tr_priority := priority\<rparr>, True))"

definition tr_SetMaxLayer :: "VideoLayer \<Rightarrow> ('m, 'b) Track \<Rightarrow> ('m, 'b) Track \<times> bool" where
  "tr_SetMaxLayer layer t = (if tr_maxLayer t = layer then (t, False) else (t\<lparr>tr_maxLayer := layer\<rparr>, True))"

definition SetDirty :: "bool \<Rightarrow> ('m, 'b) Track \<Rightarrow> ('m, 'b) Track \<times> bool" where
  "SetDirty isDirty t = (if tr_isDirty t = isDirty then (t, False) else (t\<lparr>tr_isDirty := isDirty\<rparr>, True))"

definition SetStreamState :: "StreamState \<Rightarrow> ('m, 'b) Track \<Rightarrow> ('m, 'b) Track \<times> bool" where
  "SetStreamState streamState t = (if tr_streamState t = streamState then (t, False) else (t\<lparr>tr_streamState := streamState\<rparr>, True))"

definition IsSubscribeMutable :: "('m, 'b) Track \<Rightarrow> bool" where
  "IsSubscribeMutable t \<longleftrightarrow> tr_streamState t \<noteq> StreamStatePaused"

definition IsManaged :: "('m, 'b) Track \<Rightarrow> bool" where
  "IsManaged t \<longleftrightarrow> tr_source t \<noteq> TrackSource_SCREEN_SHARE \<or> tr_isMultiLayered t"

definition IsDeficient :: "('m, 'b) Track \<Rightarrow> bool" where
  "IsDeficient t \<longleftrightarrow> va_IsDeficient (f_lastAllocation (tr_forwarder t))"

definition tr_BandwidthRequested :: "('m, 'b) Track \<Rightarrow> int option" where
  "tr_BandwidthRequested t = BandwidthRequested (tr_bitrates t) (tr_forwarder t)"

text \<open>The comparison functions of the sorters cannot fail; a distance that cannot be computed would compare as NaN.\<close>

definition tr_Distance :: "('m, 'b) Track \<Rightarrow> goFloat" where
  "tr_Distance t = (case DistanceToDesired (tr_available t) (tr_bitrates t) (tr_forwarder t) of Some d \<Rightarrow> d | None \<Rightarrow> NaN)"

definition TrackSorter_Less :: "('m, 'b) Track \<Rightarrow> ('m, 'b) Track \<Rightarrow> bool" where
  "TrackSorter_Less a b =
     (if tr_priority a \<noteq> tr_priority b then tr_priority a > tr_priority b
      else if Spatial (tr_maxLayer a) \<noteq> Spatial (tr_maxLayer b) then Spatial (tr_maxLayer a) > Spatial (tr_maxLayer b)
      else Temporal (tr_maxLayer a) > Temporal (tr_maxLayer b))"

definition MaxDistanceSorter_Less :: "('m, 'b) Track \<Rightarrow> ('m, 'b) Track \<Rightarrow> bool" where
  "MaxDistanceSorter_Less a b =
     (if tr_priority a \<noteq> tr_priority b then tr_priority a > tr_priority b else floatLess (tr_Distance b) (tr_Distance a))"

definition MinDistanceSorter_Less :: "('m, 'b) Track \<Rightarrow> ('m, 'b) Track \<Rightarrow> bool" where
  "MinDistanceSorter_Less a b =
     (if tr_priority a \<noteq> tr_priority b then tr_priority a < tr_priority b else floatLess (tr_Distance a) (tr_Distance b))"

section \<open>Allocator state\<close>

datatype streamAllocatorState = streamAllocatorStateStable | streamAllocatorStateDeficient

datatype CongestionState = CongestionStateNone | CongestionStateEarlyWarning | CongestionStateCongested

record StreamStateInfo =
  ssi_ParticipantID :: nat
  ssi_TrackID :: nat
  ssi_State :: StreamState

datatype ProbeMode = ProbeModePadding | ProbeModeMedia

text \<open>The goal of a probe cluster that the prober is asked for.\<close>

record ProbeClusterGoal =
  pg_AvailableBandwidthBps :: int
  pg_ExpectedUsageBps :: int
  pg_DesiredBps :: int

text \<open>The signals with the data of their events. The contents of a transport feedback go to the estimator only.\<close>

datatype Event =
    SignalAllocateTrack nat
  | SignalAllocateAllTracks
  | SignalAdjustState
  | SignalEstimate int
  | SignalFeedback
  | SignalPeriodicPing
  | SignalProbeClusterSwitch u32
  | SignalSendProbe int
  | SignalPacerProbeObserverClusterComplete u32
  | SignalResume nat
  | SignalSetAllowPause bool
  | SignalSetChannelCapacity int
  | SignalCongestionStateChange CongestionState CongestionState int

record ('m, 'b) StreamAllocator =
  sa_minChannelCapacity :: int
  sa_disableEstimationUnmanagedTracks :: bool
  sa_ProbeMode :: ProbeMode
  sa_ProbeOveragePct :: int
  sa_ProbeMinBps :: int
  sa_enabled :: bool
  sa_allowPause :: bool
  sa_committedChannelCapacity :: int
  sa_overriddenChannelCapacity :: int
  sa_videoTracks :: "('m, 'b) Track list"
  sa_isAllocateAllPending :: bool
  sa_rembTrackingSSRC :: u32
  sa_state :: streamAllocatorState
  sa_activeProbeClusterId :: u32
  sa_activeProbeGoalReached :: bool
  sa_activeProbeCongesting :: bool
  sa_eventsQueue :: "Event list"
  sa_updates :: "StreamStateInfo list list"
  sa_probes :: "ProbeClusterGoal list"

text \<open>The last two fields collect what was sent to the subscriber and what was asked of the prober.\<close>

text \<open>How Go arranges the tracks at the \<open>n\<close>-th traversal or sort of an operation.\<close>

type_synonym ('m, 'b) trackOrder = "nat \<Rightarrow> (('m, 'b) Track \<Rightarrow> ('m, 'b) Track \<Rightarrow> bool) \<Rightarrow> ('m, 'b) Track list \<Rightarrow> ('m, 'b) Track list"

definition noLess :: "('m, 'b) Track \<Rightarrow> ('m, 'b) Track \<Rightarrow> bool" where
  "noLess a b = False"

definition getTracks :: "('m, 'b) trackOrder \<Rightarrow> nat \<Rightarrow> ('m, 'b) Track list \<Rightarrow> nat list" where
  "getTracks order n ts = map tr_id (order n noLess ts)"

definition getSorted :: "('m, 'b) trackOrder \<Rightarrow> nat \<Rightarrow> ('m, 'b) Track list \<Rightarrow> nat list" where
  "getSorted order n ts = map tr_id (order n TrackSorter_Less (filter IsManaged ts))"

definition getMinDistanceSorted :: "('m, 'b) trackOrder \<Rightarrow> nat \<Rightarrow> nat \<Rightarrow> ('m, 'b) Track list \<Rightarrow> nat list" where
  "getMinDistanceSorted order n exclude ts =
     map tr_id (order n MinDistanceSorter_Less (filter (\<lambda>t. IsManaged t \<and> tr_id t \<noteq> exclude) ts))"

definition getMaxDistanceSortedDeficient :: "('m, 'b) trackOrder \<Rightarrow> nat \<Rightarrow> ('m, 'b) Track list \<Rightarrow> nat list" where
  "getMaxDistanceSortedDeficient order n ts =
     map tr_id (order n MaxDistanceSorter_Less (filter (\<lambda>t. IsManaged t \<and> IsDeficient t) ts))"

text \<open>Operations on the track with a given id; a track that is not there would be a nil pointer.\<close>

fun onTrack :: "nat \<Rightarrow> (('m, 'b) Track \<Rightarrow> (('m, 'b) Track \<times> 'r) option) \<Rightarrow> ('m, 'b) Track list \<Rightarrow> (('m, 'b) Track list \<times> 'r) option" where
  "onTrack i g [] = None"
| "onTrack i g (t # ts) =
     (if tr_id t = i then do { (t', r) \<leftarrow> g t; Some (t' # ts, r) }
      else do { (ts', r) \<leftarrow> onTrack i g ts; Some (t # ts', r) })"

definition onForwarder :: "(('m, 'b) Forwarder \<Rightarrow> (('m, 'b) Forwarder \<times> 'r) option) \<Rightarrow> ('m, 'b) Track \<Rightarrow> (('m, 'b) Track \<times> 'r) option" where
  "onForwarder g t = do { (f, r) \<leftarrow> g (tr_forwarder t); Some (t\<lparr>tr_forwarder := f\<rparr>, r) }"

fun foldM :: "('a \<Rightarrow> 's \<Rightarrow> 's option) \<Rightarrow> 'a list \<Rightarrow> 's \<Rightarrow> 's option" where
  "foldM g [] s = Some s"
| "foldM g (x # xs) s = do { s \<leftarrow> g x s; foldM g xs s }"

section \<open>Stream states\<close>

definition HandleStreamingChange :: "('m, 'b) Track \<Rightarrow> StreamState \<Rightarrow> StreamStateInfo list \<Rightarrow> StreamStateInfo list" where
  "HandleStreamingChange t streamState update =
     (if streamState = StreamStateInactive then update
      else update @ [\<lparr>ssi_ParticipantID = tr_publisherID t, ssi_TrackID = tr_id t, ssi_State = streamState\<rparr>])"

definition updateStreamStateChange :: "VideoAllocation \<Rightarrow> ('m, 'b) Track \<Rightarrow> StreamStateInfo list \<Rightarrow>
    ('m, 'b) Track \<times> StreamStateInfo list" where
  "updateStreamStateChange allocation t update =
     (case va_PauseReason allocation of
        VideoPauseReasonMuted \<Rightarrow> let (t, _) = SetStreamState StreamStateInactive t in (t, update)
      | VideoPauseReasonPubMuted \<Rightarrow> let (t, _) = SetStreamState StreamStateInactive t in (t, update)
      | VideoPauseReasonBandwidth \<Rightarrow>
          let (t, updated) = SetStreamState StreamStatePaused t
          in (t, if updated then HandleStreamingChange t StreamStatePaused update else update)
      | _ \<Rightarrow> (t, update))"

definition maybeSendUpdate :: "StreamStateInfo list \<Rightarrow> ('m, 'b) StreamAllocator \<Rightarrow> ('m, 'b) StreamAllocator" where
  "maybeSendUpdate update s = (if update = [] then s else s\<lparr>sa_updates := sa_updates s @ [update]\<rparr>)"

text \<open>
  Run an allocation of the forwarder of a track and record the change of its stream state: the tracks, the update so far, and
  the allocation.
\<close>

definition allocTrack :: "nat \<Rightarrow> (('m, 'b) Track \<Rightarrow> (('m, 'b) Forwarder \<times> VideoAllocation) option) \<Rightarrow>
    ('m, 'b) Track list \<times> StreamStateInfo list \<Rightarrow> (('m, 'b) Track list \<times> StreamStateInfo list \<times> VideoAllocation) option" where
  "allocTrack i g = (\<lambda>(ts, update). do {
     (ts, update, allocation) \<leftarrow> onTrack i (\<lambda>t. do {
         (f, allocation) \<leftarrow> g t;
         let (t, update) = updateStreamStateChange allocation (t\<lparr>tr_forwarder := f\<rparr>) update;
         Some (t, update, allocation)
       }) ts;
     Some (ts, update, allocation)
   })"

definition setState :: "streamAllocatorState \<Rightarrow> ('m, 'b) StreamAllocator \<Rightarrow> ('m, 'b) StreamAllocator" where
  "setState state s =
     (if sa_state s = state then s
      else let s = s\<lparr>sa_state := state\<rparr> in
        if state = streamAllocatorStateStable then s\<lparr>sa_activeProbeClusterId := 0\<rparr> else s)"

definition adjustState :: "('m, 'b) StreamAllocator \<Rightarrow> ('m, 'b) StreamAllocator" where
  "adjustState s = setState (if list_ex IsDeficient (sa_videoTracks s) then streamAllocatorStateDeficient
     else streamAllocatorStateStable) s"

section \<open>Capacity\<close>

definition getAvailableChannelCapacity :: "bool \<Rightarrow> ('m, 'b) StreamAllocator \<Rightarrow> int" where
  "getAvailableChannelCapacity allowOverride s =
     (let available = max (sa_committedChannelCapacity s) (sa_minChannelCapacity s)
      in if allowOverride \<and> sa_overriddenChannelCapacity s > 0 then sa_overriddenChannelCapacity s else available)"

fun bandwidthOf :: "('m, 'b) Track list \<Rightarrow> int option" where
  "bandwidthOf [] = Some 0"
| "bandwidthOf (t # ts) = do { b \<leftarrow> tr_BandwidthRequested t; rest \<leftarrow> bandwidthOf ts; Some (b + rest) }"

definition getExpectedBandwidthUsage :: "('m, 'b) StreamAllocator \<Rightarrow> int option" where
  "getExpectedBandwidthUsage s = bandwidthOf (sa_videoTracks s)"

definition getExpectedBandwidthUsageWithoutTracks :: "nat list \<Rightarrow> ('m, 'b) StreamAllocator \<Rightarrow> int option" where
  "getExpectedBandwidthUsageWithoutTracks filteredTracks s =
     bandwidthOf (filter (\<lambda>t. tr_id t \<notin> set filteredTracks) (sa_videoTracks s))"

definition getAvailableHeadroom :: "bool \<Rightarrow> ('m, 'b) StreamAllocator \<Rightarrow> int option" where
  "getAvailableHeadroom allowOverride s =
     do { used \<leftarrow> getExpectedBandwidthUsage s; Some (getAvailableChannelCapacity allowOverride s - used) }"

definition getAvailableHeadroomWithoutTracks :: "bool \<Rightarrow> nat list \<Rightarrow> ('m, 'b) StreamAllocator \<Rightarrow> int option" where
  "getAvailableHeadroomWithoutTracks allowOverride filteredTracks s =
     do { used \<leftarrow> getExpectedBandwidthUsageWithoutTracks filteredTracks s; Some (getAvailableChannelCapacity allowOverride s - used) }"

section \<open>Boosting deficient tracks\<close>

text \<open>The tracks, the update so far and the capacity that is left.\<close>

type_synonym ('m, 'b) boostState = "('m, 'b) Track list \<times> StreamStateInfo list \<times> int"

datatype ('m, 'b) boostOutcome = BoostStop "('m, 'b) boostState" | BoostAgain "('m, 'b) boostState"

text \<open>The inner loop: the first track that can be boosted ends it; if the last one cannot, the whole loop ends.\<close>

definition boostTrack :: "int \<Rightarrow> StreamStateInfo list \<Rightarrow> ('m, 'b) Track \<Rightarrow>
    (('m, 'b) Track \<times> StreamStateInfo list \<times> VideoAllocation \<times> bool) option" where
  "boostTrack capacity update t = do {
     (f, allocation, boosted) \<leftarrow> AllocateNextHigher capacity (tr_available t) (tr_bitrates t) False (tr_forwarder t);
     let t = t\<lparr>tr_forwarder := f\<rparr>;
     let (t, update) = (if boosted then updateStreamStateChange allocation t update else (t, update));
     Some (t, update, allocation, boosted)
   }"

fun boostPass :: "nat list \<Rightarrow> ('m, 'b) boostState \<Rightarrow> ('m, 'b) boostOutcome option" where
  "boostPass [] st = Some (BoostAgain st)"
| "boostPass (i # ids) (ts, update, capacity) = do {
     (ts, update, allocation, boosted) \<leftarrow> onTrack i (boostTrack capacity update) ts;
     if boosted then
       let capacity = capacity - va_BandwidthDelta allocation
       in Some (if capacity \<le> 0 then BoostStop (ts, update, capacity) else BoostAgain (ts, update, capacity))
     else if ids = [] then Some (BoostStop (ts, update, capacity))
     else boostPass ids (ts, update, capacity)
   }"

partial_function (option) boostLoop :: "('m, 'b) trackOrder \<Rightarrow> nat \<Rightarrow> nat list \<Rightarrow> ('m, 'b) boostState \<Rightarrow> ('m, 'b) boostState option" where
  "boostLoop order n ids st = do {
     outcome \<leftarrow> boostPass ids st;
     case outcome of
       BoostStop st \<Rightarrow> Some st
     | BoostAgain st \<Rightarrow>
         let ids = getMaxDistanceSortedDeficient order n (fst st)
         in if ids = [] then Some st else boostLoop order (Suc n) ids st
   }"

definition maybeBoostDeficientTracks :: "('m, 'b) trackOrder \<Rightarrow> ('m, 'b) StreamAllocator \<Rightarrow> ('m, 'b) StreamAllocator option" where
  "maybeBoostDeficientTracks order s = do {
     capacity \<leftarrow> getAvailableHeadroom False s;
     if capacity \<le> 0 then Some s
     else do {
       (ts, update, _) \<leftarrow> boostLoop order 1 (getMaxDistanceSortedDeficient order 0 (sa_videoTracks s)) (sa_videoTracks s, [], capacity);
       Some (adjustState (maybeSendUpdate update (s\<lparr>sa_videoTracks := ts\<rparr>)))
     }
   }"


section \<open>Allocating all tracks\<close>

definition isManagedId :: "('m, 'b) Track list \<Rightarrow> nat \<Rightarrow> bool" where
  "isManagedId ts i = list_ex (\<lambda>t. tr_id t = i \<and> IsManaged t) ts"

text \<open>Exempt tracks get their optimal allocation.\<close>

definition allocateExempt :: "bool \<Rightarrow> nat \<Rightarrow> ('m, 'b) boostState \<Rightarrow> ('m, 'b) boostState option" where
  "allocateExempt disableEstimation i = (\<lambda>(ts, update, capacity).
     if isManagedId ts i then Some (ts, update, capacity)
     else do {
       (ts, update, allocation) \<leftarrow> allocTrack i (\<lambda>t. AllocateOptimal (tr_available t) (tr_bitrates t) True False (tr_forwarder t)) (ts, update);
       Some (ts, update, if disableEstimation then capacity else capacity - va_BandwidthRequested allocation)
     })"

definition pauseManaged :: "nat \<Rightarrow> ('m, 'b) Track list \<times> StreamStateInfo list \<Rightarrow> (('m, 'b) Track list \<times> StreamStateInfo list) option" where
  "pauseManaged i = (\<lambda>(ts, update).
     if \<not> isManagedId ts i then Some (ts, update)
     else do {
       (ts, update, _) \<leftarrow> allocTrack i (\<lambda>t. Pause (tr_available t) (tr_bitrates t) (tr_forwarder t)) (ts, update);
       Some (ts, update)
     })"

definition prepareTrack :: "nat \<Rightarrow> ('m, 'b) Track list \<Rightarrow> ('m, 'b) Track list option" where
  "prepareTrack i ts = do {
     (ts, _) \<leftarrow> onTrack i (\<lambda>t. Some (t\<lparr>tr_forwarder := ProvisionalAllocatePrepare (tr_available t) (tr_bitrates t) (tr_forwarder t)\<rparr>, ())) ts;
     Some ts
   }"

definition tryLayer :: "bool \<Rightarrow> VideoLayer \<Rightarrow> nat \<Rightarrow> ('m, 'b) Track list \<times> int \<Rightarrow> (('m, 'b) Track list \<times> int) option" where
  "tryLayer allowPause layer i = (\<lambda>(ts, capacity). do {
     (ts, _, used) \<leftarrow> onTrack i (onForwarder (ProvisionalAllocate capacity layer allowPause False)) ts;
     Some (ts, max 0 (capacity - used))
   })"

definition commitTrack :: "nat \<Rightarrow> ('m, 'b) Track list \<times> StreamStateInfo list \<Rightarrow> (('m, 'b) Track list \<times> StreamStateInfo list) option" where
  "commitTrack i st = do {
     (ts, update, _) \<leftarrow> allocTrack i (\<lambda>t. ProvisionalAllocateCommit (tr_forwarder t)) st;
     Some (ts, update)
   }"

text \<open>The layers in the order in which every track gets a chance at them.\<close>

definition allLayers :: "VideoLayer list" where
  "allLayers = layersUp 0 DefaultMaxLayerSpatial 0 DefaultMaxLayerTemporal"

definition shareCapacity :: "bool \<Rightarrow> nat list \<Rightarrow> ('m, 'b) boostState \<Rightarrow> (('m, 'b) Track list \<times> StreamStateInfo list) option" where
  "shareCapacity allowPause ids = (\<lambda>(ts, update, capacity). do {
     ts \<leftarrow> foldM prepareTrack ids ts;
     (ts, _) \<leftarrow> foldM (\<lambda>layer. foldM (tryLayer allowPause layer) ids) allLayers (ts, capacity);
     foldM commitTrack ids (ts, update)
   })"

definition allocateAllTracks :: "('m, 'b) trackOrder \<Rightarrow> ('m, 'b) StreamAllocator \<Rightarrow> ('m, 'b) StreamAllocator option" where
  "allocateAllTracks order s =
     (if \<not> sa_enabled s then Some s
      else do {
        let videoTracks = getTracks order 0 (sa_videoTracks s);
        (ts, update, capacity) \<leftarrow> foldM (allocateExempt (sa_disableEstimationUnmanagedTracks s)) videoTracks
          (sa_videoTracks s, [], getAvailableChannelCapacity True s);
        let capacity = max 0 capacity;
        (ts, update) \<leftarrow> (if capacity = 0 \<and> sa_allowPause s then foldM pauseManaged videoTracks (ts, update)
                          else shareCapacity (sa_allowPause s) (getSorted order 1 ts) (ts, update, capacity));
        Some (adjustState (maybeSendUpdate update (s\<lparr>sa_videoTracks := ts\<rparr>)))
      })"

section \<open>Allocating one track\<close>

text \<open>Fit the track into the headroom: the best layer that was a candidate. The loop ends when more was used than was available.\<close>

fun fitLoop :: "int \<Rightarrow> bool \<Rightarrow> nat \<Rightarrow> VideoLayer list \<Rightarrow> ('m, 'b) Track list \<times> VideoLayer \<Rightarrow> (('m, 'b) Track list \<times> VideoLayer) option" where
  "fitLoop capacity allowPause i [] st = Some st"
| "fitLoop capacity allowPause i (layer # ls) (ts, best) = do {
     (ts, isCandidate, used) \<leftarrow> onTrack i (onForwarder (ProvisionalAllocate capacity layer allowPause False)) ts;
     if capacity < used then Some (ts, best)
     else fitLoop capacity allowPause i ls (ts, if isCandidate then layer else best)
   }"

definition resetTrack :: "nat \<Rightarrow> ('m, 'b) Track list \<Rightarrow> ('m, 'b) Track list option" where
  "resetTrack i ts = do {
     (ts, _) \<leftarrow> onTrack i (onForwarder (\<lambda>f. do { f \<leftarrow> ProvisionalAllocateReset f; Some (f, ()) })) ts;
     Some ts
   }"

definition coopTransition :: "nat \<Rightarrow> ('m, 'b) Track list \<Rightarrow> (('m, 'b) Track list \<times> VideoTransition) option" where
  "coopTransition i = onTrack i (onForwarder (\<lambda>f. do {
     (f, tx, _, _) \<leftarrow> ProvisionalAllocateGetCooperativeTransition False f; Some (f, tx) }))"

definition bestTransition :: "nat \<Rightarrow> ('m, 'b) Track list \<Rightarrow> (('m, 'b) Track list \<times> VideoTransition) option" where
  "bestTransition i = onTrack i (onForwarder (\<lambda>f. do {
     (f, tx, _, _) \<leftarrow> ProvisionalAllocateGetBestWeightedTransition f; Some (f, tx) }))"

text \<open>Collect offers until enough bandwidth is acquired: the contributing tracks and what they give.\<close>

fun acquire :: "int \<Rightarrow> nat list \<Rightarrow> ('m, 'b) Track list \<times> nat list \<times> int \<Rightarrow> (('m, 'b) Track list \<times> nat list \<times> int) option" where
  "acquire needed [] st = Some st"
| "acquire needed (i # ids) (ts, contributing, acquired) = do {
     (ts, tx) \<leftarrow> bestTransition i ts;
     if tx_BandwidthDelta tx < 0 then
       let contributing = contributing @ [i]; acquired = acquired + - tx_BandwidthDelta tx
       in if acquired \<ge> needed then Some (ts, contributing, acquired) else acquire needed ids (ts, contributing, acquired)
     else acquire needed ids (ts, contributing, acquired)
   }"

definition redistribute :: "('m, 'b) trackOrder \<Rightarrow> nat \<Rightarrow> VideoTransition \<Rightarrow> ('m, 'b) StreamAllocator \<Rightarrow> ('m, 'b) StreamAllocator option" where
  "redistribute order i transition s = do {
     let ids = getMinDistanceSorted order 0 i (sa_videoTracks s);
     ts \<leftarrow> foldM prepareTrack ids (sa_videoTracks s);
     (ts, contributing, acquired) \<leftarrow> acquire (tx_BandwidthDelta transition) ids (ts, [], 0);
     (ts, update) \<leftarrow> (if acquired \<ge> tx_BandwidthDelta transition then foldM commitTrack contributing (ts, []) else Some (ts, []));
     (ts, update, _) \<leftarrow> (if \<not> sa_allowPause s \<or> acquired \<ge> tx_BandwidthDelta transition
        then allocTrack i (\<lambda>t. ProvisionalAllocateCommit (tr_forwarder t)) (ts, update)
        else allocTrack i (\<lambda>t. Pause (tr_available t) (tr_bitrates t) (tr_forwarder t)) (ts, update));
     Some (adjustState (maybeSendUpdate update (s\<lparr>sa_videoTracks := ts\<rparr>)))
   }"

text \<open>A track that needs bandwidth: the best fit for the headroom, or else bandwidth from the other tracks.\<close>

definition fitOrTake :: "('m, 'b) trackOrder \<Rightarrow> nat \<Rightarrow> VideoTransition \<Rightarrow> ('m, 'b) Track list \<Rightarrow> ('m, 'b) StreamAllocator \<Rightarrow> ('m, 'b) StreamAllocator option" where
  "fitOrTake order i transition ts s = do {
     capacity \<leftarrow> getAvailableHeadroomWithoutTracks False [i] (s\<lparr>sa_videoTracks := ts\<rparr>);
     if capacity > 0 then do {
       ts \<leftarrow> resetTrack i ts;
       (ts, best) \<leftarrow> fitLoop capacity (sa_allowPause s) i allLayers (ts, InvalidLayer);
       if layer_IsValid best then do {
         (ts, update) \<leftarrow> (if GreaterThan best (tx_From transition) then commitTrack i (ts, []) else Some (ts, []));
         Some (adjustState (maybeSendUpdate update (s\<lparr>sa_videoTracks := ts\<rparr>)))
       }
       else do {
         ts \<leftarrow> resetTrack i ts;
         (ts, transition) \<leftarrow> coopTransition i ts;
         redistribute order i transition (s\<lparr>sa_videoTracks := ts\<rparr>)
       }
     }
     else redistribute order i transition (s\<lparr>sa_videoTracks := ts\<rparr>)
   }"

definition allocateTrack :: "('m, 'b) trackOrder \<Rightarrow> CongestionState \<Rightarrow> nat \<Rightarrow> ('m, 'b) StreamAllocator \<Rightarrow> ('m, 'b) StreamAllocator option" where
  "allocateTrack order congestion i s =
     (if \<not> sa_enabled s \<or> sa_state s = streamAllocatorStateStable \<and> congestion \<noteq> CongestionStateCongested \<or> \<not> isManagedId (sa_videoTracks s) i
      then do {
        (ts, update, _) \<leftarrow> allocTrack i (\<lambda>t. AllocateOptimal (tr_available t) (tr_bitrates t) True
            (congestion = CongestionStateEarlyWarning) (tr_forwarder t)) (sa_videoTracks s, []);
        Some (maybeSendUpdate update (s\<lparr>sa_videoTracks := ts\<rparr>))
      }
      else do {
        ts \<leftarrow> prepareTrack i (sa_videoTracks s);
        (ts, transition) \<leftarrow> coopTransition i ts;
        if GreaterThan (tx_From transition) (tx_To transition) then do {
          (ts, update) \<leftarrow> commitTrack i (ts, []);
          maybeBoostDeficientTracks order (adjustState (maybeSendUpdate update (s\<lparr>sa_videoTracks := ts\<rparr>)))
        }
        else if tx_From transition = tx_To transition then Some (s\<lparr>sa_videoTracks := ts\<rparr>)
        else fitOrTake order i transition ts s
      })"

end
