(* ===== verification/Stream_Allocation_Properties.thy ===== *)
theory Stream_Allocation_Properties
  imports Stream_Allocator
begin

text \<open>
  Properties of the stream allocator: the loop that boosts deficient tracks ends, sharing the capacity of a congested channel
  never exceeds it, and the state of the allocator agrees with its tracks.
\<close>

section \<open>Well-formed tracks\<close>

text \<open>H.264 is only sent with temporal layer 0, so only that one has a bit rate.\<close>

definition h264_flat :: "('m, 'b) Track \<Rightarrow> bool" where
  "h264_flat t \<longleftrightarrow> (f_mime (tr_forwarder t) = MimeTypeH264 \<longrightarrow> (\<forall>l. Temporal l > 0 \<longrightarrow> br (tr_bitrates t) l = 0))"

text \<open>The bandwidth of the last allocation.\<close>

definition requested :: "('m, 'b) Track \<Rightarrow> int" where
  "requested t = va_BandwidthRequested (f_lastAllocation (tr_forwarder t))"

definition track_ok :: "('m, 'b) Track \<Rightarrow> bool" where
  "track_ok t \<longleftrightarrow> alloc_ok (tr_forwarder t) \<and> wfBitrates (tr_bitrates t) \<and> set (tr_available t) \<subseteq> {0..2} \<and>
     f_kind (tr_forwarder t) \<noteq> RTPCodecTypeAudio \<and> h264_flat t \<and> 0 \<le> requested t"

definition tracks_ok :: "('m, 'b) Track list \<Rightarrow> bool" where
  "tracks_ok ts \<longleftrightarrow> distinct (map tr_id ts) \<and> (\<forall>t \<in> set ts. track_ok t)"

text \<open>What Go guarantees of a traversal or a sort: the same tracks in some order.\<close>

definition order_ok :: "('m, 'b) trackOrder \<Rightarrow> bool" where
  "order_ok order \<longleftrightarrow> (\<forall>n lt ts. mset (order n lt ts) = mset ts)"

lemma order_ok_set: "order_ok order \<Longrightarrow> set (order n lt ts) = set ts"
  unfolding order_ok_def by (metis set_mset_mset)

lemma order_ok_distinct: "order_ok order \<Longrightarrow> distinct (map tr_id ts) \<Longrightarrow> distinct (map tr_id (order n lt ts))"
  unfolding order_ok_def by (metis mset_eq_imp_distinct_iff mset_map)

text \<open>Everything but the forwarder and the stream state of a track stays.\<close>

definition same_track :: "('m, 'b) Track \<Rightarrow> ('m, 'b) Track \<Rightarrow> bool" where
  "same_track t t' \<longleftrightarrow> tr_id t' = tr_id t \<and> tr_source t' = tr_source t \<and> tr_isMultiLayered t' = tr_isMultiLayered t \<and>
     tr_priority t' = tr_priority t \<and> tr_isDirty t' = tr_isDirty t \<and> tr_bitrates t' = tr_bitrates t \<and> tr_available t' = tr_available t \<and>
     f_mime (tr_forwarder t') = f_mime (tr_forwarder t)"

lemma same_track_refl [simp]: "same_track t t"
  by (simp add: same_track_def)

lemma same_track_trans: "same_track a b \<Longrightarrow> same_track b c \<Longrightarrow> same_track a c"
  by (simp add: same_track_def)

lemma same_track_managed: "same_track t t' \<Longrightarrow> IsManaged t' = IsManaged t"
  by (simp add: same_track_def IsManaged_def)

lemma updateStreamStateChange_sel [simp]:
  "tr_forwarder (fst (updateStreamStateChange a t u)) = tr_forwarder t"
  "same_track t (fst (updateStreamStateChange a t u))"
  "track_ok (fst (updateStreamStateChange a t u)) = track_ok t"
  "tr_id (fst (updateStreamStateChange a t u)) = tr_id t" "tr_bitrates (fst (updateStreamStateChange a t u)) = tr_bitrates t"
  "tr_available (fst (updateStreamStateChange a t u)) = tr_available t"
  by (simp_all add: updateStreamStateChange_def SetStreamState_def Let_def same_track_def track_ok_def h264_flat_def requested_def split: VideoPauseReason.split)

text \<open>One track is replaced, the others stay.\<close>

lemma onTrack_at:
  assumes "tracks_ok (pre @ t # post)"
  shows "onTrack (tr_id t) g (pre @ t # post) = (case g t of None \<Rightarrow> None | Some (t', r) \<Rightarrow> Some (pre @ t' # post, r))"
proof -
  have "tr_id t \<notin> tr_id ` set pre" using assms by (simp add: tracks_ok_def)
  then have "\<forall>x \<in> set pre. tr_id x \<noteq> tr_id t" by (metis imageI)
  then show ?thesis by (induction pre) (auto split: option.splits prod.splits)
qed

lemma track_split:
  assumes "tracks_ok ts" "i \<in> tr_id ` set ts"
  obtains pre t post where "ts = pre @ t # post" "tr_id t = i" "track_ok t"
proof -
  from assms(2) obtain t where "t \<in> set ts" "tr_id t = i" by auto
  then show ?thesis using that split_list [of t ts] assms(1) by (auto simp: tracks_ok_def)
qed

lemma tracks_ok_replace:
  assumes "tracks_ok (pre @ t # post)" "same_track t t'" "track_ok t'"
  shows "tracks_ok (pre @ t' # post)" "tr_id ` set (pre @ t' # post) = tr_id ` set (pre @ t # post)"
  using assms by (auto simp: tracks_ok_def same_track_def)

lemma same_tracks_trans: "list_all2 same_track a b \<Longrightarrow> list_all2 same_track b c \<Longrightarrow> list_all2 same_track a c"
  using list_all2_trans [of same_track same_track same_track] same_track_trans by blast

lemma same_tracks_replace: "same_track t t' \<Longrightarrow> list_all2 same_track (pre @ t # post) (pre @ t' # post)"
  by (intro list_all2_appendI) (simp_all add: list_all2_same)

lemma same_tracks_ids:
  assumes "list_all2 same_track ts ts'"
  shows "tr_id ` set ts' = tr_id ` set ts"
proof -
  have "map tr_id ts' = map tr_id ts" using assms by (auto simp: list_all2_conv_all_nth same_track_def intro!: nth_equalityI)
  then show ?thesis by (metis set_map)
qed

section \<open>Termination of the boost\<close>

text \<open>The position of a target among the layers; the sum of what is left is what the loop uses up.\<close>

definition rank :: "VideoLayer \<Rightarrow> nat" where
  "rank l = (if layer_IsValid l then nat (4 * Spatial l + Temporal l + 1) else 0)"

definition boostable :: "('m, 'b) Track list \<Rightarrow> nat" where
  "boostable ts = sum_list (map (\<lambda>t. 12 - rank (f_target (tr_forwarder t))) ts)"

text \<open>The bandwidth a track is expected to use.\<close>

definition trackUsage :: "('m, 'b) Track \<Rightarrow> int" where
  "trackUsage t = neededBr (tr_bitrates t) (f_target (tr_forwarder t)) (va_BandwidthRequested (f_lastAllocation (tr_forwarder t)))"

definition totalUsage :: "('m, 'b) Track list \<Rightarrow> int" where
  "totalUsage ts = sum_list (map trackUsage ts)"

lemma bandwidthOf_total: "\<forall>t \<in> set ts. track_ok t \<Longrightarrow> bandwidthOf ts = Some (totalUsage ts)"
proof (induction ts)
  case (Cons t ts)
  then have "inRange (f_target (tr_forwarder t))" "wfBitrates (tr_bitrates t)" by (simp_all add: track_ok_def alloc_ok_def)
  then have "tr_BandwidthRequested t = Some (trackUsage t)"
    by (simp add: tr_BandwidthRequested_def BandwidthRequested_def needed_total trackUsage_def)
  then show ?case using Cons by (simp add: totalUsage_def)
qed (simp add: totalUsage_def)

lemma rank_le: "inRange l \<Longrightarrow> rank l \<le> 12"
  by (auto simp: rank_def inRange_def)

lemma rank_greater:
  assumes "inRange l" "inBox x" "GreaterThan x l"
  shows "rank l < rank x"
  using assms inRange_valid [OF assms(1)] by (auto simp: rank_def inBox_def GreaterThan_def)

lemma higherRanges_greater:
  assumes "l \<in> set (concat (higherRanges False f))"
  shows "GreaterThan l (f_target f)"
  using assms unfolding higherRanges_iff by (auto simp: GreaterThan_def)

lemma clamp_flat:
  assumes "h264_flat t" "inBox l" "br (tr_bitrates t) l \<noteq> 0" "va_TargetLayer a = l"
  shows "va_TargetLayer (clampTarget (f_mime (tr_forwarder t)) a) = l"
proof (cases "f_mime (tr_forwarder t) = MimeTypeH264")
  case True
  then have "\<not> Temporal l > 0" using assms(1,3) by (auto simp: h264_flat_def)
  then have "l\<lparr>Temporal := 0\<rparr> = l" using assms(2) by (cases l) (simp add: inBox_def)
  then show ?thesis using assms(4) by (simp add: clampTarget_def)
qed (simp add: clampTarget_def assms(4))

text \<open>What a boost does to a track: the state after it, and the bandwidth it takes.\<close>

definition boosts :: "('m, 'b) Track \<Rightarrow> ('m, 'b) Track \<Rightarrow> int \<Rightarrow> bool" where
  "boosts t t' delta \<longleftrightarrow> same_track t t' \<and> track_ok t' \<and>
     rank (f_target (tr_forwarder t)) < rank (f_target (tr_forwarder t')) \<and> trackUsage t' \<le> trackUsage t + delta"

lemma AllocateNextHigher_step:
  assumes "track_ok t"
  defines "f \<equiv> tr_forwarder t"
  shows "\<exists>f' a boosted. AllocateNextHigher capacity (tr_available t) (tr_bitrates t) False f = Some (f', a, boosted) \<and>
    (\<not> boosted \<longrightarrow> f' = f) \<and> (boosted \<longrightarrow> boosts t (t\<lparr>tr_forwarder := f'\<rparr>) (va_BandwidthDelta a) \<and> va_BandwidthDelta a \<le> capacity)"
proof (cases "va_IsDeficient (f_lastAllocation f)")
  case False
  then show ?thesis using assms(1)
    by (intro exI [of _ f] exI [of _ "f_lastAllocation f"] exI [of _ False]) (simp add: AllocateNextHigher_def f_def)
next
  case True
  have ok: "alloc_ok f" "wfBitrates (tr_bitrates t)" "set (tr_available t) \<subseteq> {0..2}" "f_kind f \<noteq> RTPCodecTypeAudio"
    and flat: "h264_flat t" and req: "0 \<le> va_BandwidthRequested (f_lastAllocation f)"
    using assms(1) by (simp_all add: track_ok_def requested_def f_def)
  note eq = AllocateNextHigher_eq [OF ok True, of capacity False]
  show ?thesis
  proof (cases "find (\<lambda>l. br (tr_bitrates t) l \<noteq> 0) (concat (higherRanges False f))")
    case None
    then show ?thesis using eq by (intro exI [of _ f] exI [of _ "f_lastAllocation f"] exI [of _ False]) simp
  next
    case (Some l)
    have l: "l \<in> set (concat (higherRanges False f))" "br (tr_bitrates t) l \<noteq> 0"
      using find_sorted(1,2) [OF sorted_higherRanges Some] by auto
    then have box: "inBox l" using higherRanges_box [OF ok(1)] by blast
    define a where "a = boostAlloc (tr_available t) (tr_bitrates t) l f"
    define f' where "f' = fst (updateAllocation a f)"
    have target: "f_target f' = l" using clamp_flat [OF flat box l(2), of a] by (simp add: f'_def a_def f_def)
    have ok': "alloc_ok f'" using alloc_ok_update [OF ok(1), of a] inBox_inRange [OF box] by (simp add: f'_def a_def)
    have br: "0 < br (tr_bitrates t) l" using brAt_box(2) [OF ok(2) box] l(2) by simp
    have "alreadyBr (tr_bitrates t) f \<le> neededBr (tr_bitrates t) (f_target f) (va_BandwidthRequested (f_lastAllocation f))"
      using req by (auto simp: alreadyBr_def neededBr_def)
    then have "trackUsage (t\<lparr>tr_forwarder := f'\<rparr>) \<le> trackUsage t + va_BandwidthDelta a"
      using box br target by (simp add: trackUsage_def neededBr_def [of _ l] a_def f_def)
    moreover have "rank (f_target f) < rank l"
      using rank_greater [OF alloc_okD(4) [OF ok(1)] box higherRanges_greater [OF l(1)]] .
    moreover have "track_ok (t\<lparr>tr_forwarder := f'\<rparr>)" "same_track t (t\<lparr>tr_forwarder := f'\<rparr>)"
      using ok ok' flat br by (simp_all add: track_ok_def requested_def h264_flat_def same_track_def f'_def a_def f_def)
    ultimately have "boosts t (t\<lparr>tr_forwarder := f'\<rparr>) (va_BandwidthDelta a)" using target by (simp add: boosts_def f_def)
    moreover have "va_BandwidthDelta a = br (tr_bitrates t) l - alreadyBr (tr_bitrates t) f" by (simp add: a_def)
    moreover have "AllocateNextHigher capacity (tr_available t) (tr_bitrates t) False f = Some
        (if br (tr_bitrates t) l - alreadyBr (tr_bitrates t) f > capacity then (f, f_lastAllocation f, False)
         else (f', clampTarget (f_mime f) a, True))"
      using eq Some by (simp add: f'_def a_def)
    ultimately show ?thesis
      by (cases "br (tr_bitrates t) l - alreadyBr (tr_bitrates t) f > capacity") auto
  qed
qed

text \<open>A pass over the sorted tracks either ends the loop or boosts exactly one track.\<close>

lemma boostPass_step:
  assumes "tracks_ok ts" "set ids \<subseteq> tr_id ` set ts"
  shows "\<exists>out ts' u' c'. boostPass ids (ts, u, c) = Some out \<and> (out = BoostStop (ts', u', c') \<or> out = BoostAgain (ts', u', c')) \<and>
    tracks_ok ts' \<and> list_all2 same_track ts ts' \<and> totalUsage ts' + c' \<le> totalUsage ts + c \<and> (0 \<le> c \<longrightarrow> 0 \<le> c') \<and>
    (ids \<noteq> [] \<longrightarrow> out = BoostAgain (ts', u', c') \<longrightarrow> boostable ts' < boostable ts)"
  using assms
proof (induction ids arbitrary: ts u)
  case (Cons i ids)
  have "i \<in> tr_id ` set ts" using Cons.prems(2) by simp
  then obtain pre t post where t: "ts = pre @ t # post" "tr_id t = i" "track_ok t"
    using track_split [OF Cons.prems(1)] by metis
  note at = onTrack_at [OF Cons.prems(1) [unfolded t(1)], folded t(1), unfolded t(2)]
  from AllocateNextHigher_step [OF t(3), of c] obtain f' a boosted where
    ANH: "AllocateNextHigher c (tr_available t) (tr_bitrates t) False (tr_forwarder t) = Some (f', a, boosted)"
    "\<not> boosted \<Longrightarrow> f' = tr_forwarder t" "boosted \<Longrightarrow> boosts t (t\<lparr>tr_forwarder := f'\<rparr>) (va_BandwidthDelta a)"
    "boosted \<Longrightarrow> va_BandwidthDelta a \<le> c" by auto
  show ?case
  proof (cases boosted)
    case False
    then have on: "onTrack i (boostTrack c u) ts = Some (ts, u, a, False)"
      using ANH(1,2) by (simp add: at boostTrack_def t(1) [symmetric])
    show ?thesis
    proof (cases "ids = []")
      case True
      then show ?thesis using Cons.prems on by (simp add: list_all2_same)
    next
      case False
      then show ?thesis using Cons.IH [OF Cons.prems(1), of u] Cons.prems(2) on by auto
    qed
  next
    case True
    define t1 where "t1 = fst (updateStreamStateChange a (t\<lparr>tr_forwarder := f'\<rparr>) u)"
    define u1 where "u1 = snd (updateStreamStateChange a (t\<lparr>tr_forwarder := f'\<rparr>) u)"
    have upd: "updateStreamStateChange a (t\<lparr>tr_forwarder := f'\<rparr>) u = (t1, u1)" by (simp add: t1_def u1_def)
    have "same_track t t1"
      using ANH(3) [OF True] same_track_trans [OF _ updateStreamStateChange_sel(2) [of "t\<lparr>tr_forwarder := f'\<rparr>" a u]]
      by (simp add: boosts_def t1_def)
    then have "boosts t t1 (va_BandwidthDelta a)"
      using ANH(3) [OF True] by (auto simp: boosts_def t1_def trackUsage_def)
    then have t1: "same_track t t1" "track_ok t1" "rank (f_target (tr_forwarder t)) < rank (f_target (tr_forwarder t1))"
      "trackUsage t1 \<le> trackUsage t + va_BandwidthDelta a" by (simp_all add: boosts_def)
    have on: "onTrack i (boostTrack c u) ts = Some (pre @ t1 # post, u1, a, True)"
      using True by (simp add: at boostTrack_def ANH(1) upd)
    have ok: "tracks_ok (pre @ t1 # post)" using tracks_ok_replace(1) [OF _ t1(1)] t1(2) Cons.prems(1) t(1) by auto
    have "inRange (f_target (tr_forwarder t1))" using t1(2) by (simp add: track_ok_def alloc_ok_def)
    then have "12 - rank (f_target (tr_forwarder t1)) < 12 - rank (f_target (tr_forwarder t))"
      using rank_le [of "f_target (tr_forwarder t1)"] t1(3) by simp
    then have "boostable (pre @ t1 # post) < boostable ts" by (simp add: boostable_def t(1))
    moreover have "totalUsage (pre @ t1 # post) + (c - va_BandwidthDelta a) \<le> totalUsage ts + c" using t1(4) by (simp add: totalUsage_def t(1))
    moreover have "list_all2 same_track ts (pre @ t1 # post)" using same_tracks_replace [OF t1(1)] t(1) by simp
    ultimately show ?thesis using on ok ANH(4) [OF True] by (auto simp: Let_def)
  qed
qed (auto simp: list_all2_same)

lemma boostLoop_nonempty:
  assumes "order_ok order" "tracks_ok ts" "set ids \<subseteq> tr_id ` set ts" "ids \<noteq> []" "0 \<le> c"
  shows "\<exists>ts' u' c'. boostLoop order n ids (ts, u, c) = Some (ts', u', c') \<and> tracks_ok ts' \<and> list_all2 same_track ts ts' \<and>
    totalUsage ts' + c' \<le> totalUsage ts + c \<and> 0 \<le> c'"
  using assms(2-5)
proof (induction "boostable ts" arbitrary: ts ids u c n rule: less_induct)
  case less
  obtain out ts' u' c' where out: "boostPass ids (ts, u, c) = Some out" "out = BoostStop (ts', u', c') \<or> out = BoostAgain (ts', u', c')"
    and st: "tracks_ok ts'" "list_all2 same_track ts ts'" "totalUsage ts' + c' \<le> totalUsage ts + c" "0 \<le> c'"
    and dec: "out = BoostAgain (ts', u', c') \<Longrightarrow> boostable ts' < boostable ts"
    using boostPass_step [OF less.prems(1,2), of u c] less.prems(3,4) by auto
  define next_ids where "next_ids = getMaxDistanceSortedDeficient order n ts'"
  have sub: "set next_ids \<subseteq> tr_id ` set ts'"
    using order_ok_set [OF assms(1)] by (auto simp: next_ids_def getMaxDistanceSortedDeficient_def)
  consider (stop) "out = BoostStop (ts', u', c')" | (last) "out = BoostAgain (ts', u', c')" "next_ids = []"
    | (again) "out = BoostAgain (ts', u', c')" "next_ids \<noteq> []" using out(2) by blast
  then show ?case
  proof cases
    case stop
    then show ?thesis using out(1) st by (subst boostLoop.simps) simp
  next
    case last
    then show ?thesis using out(1) st by (subst boostLoop.simps) (simp add: next_ids_def Let_def)
  next
    case again
    from less.hyps [OF dec [OF again(1)] st(1) sub again(2) st(4), of "Suc n" u'] obtain ts2 u2 c2 where
      r: "boostLoop order (Suc n) next_ids (ts', u', c') = Some (ts2, u2, c2)" "tracks_ok ts2" "list_all2 same_track ts' ts2"
        "totalUsage ts2 + c2 \<le> totalUsage ts' + c'" "0 \<le> c2" by blast
    have "boostLoop order n ids (ts, u, c) = Some (ts2, u2, c2)"
      using out(1) again r(1) by (subst boostLoop.simps) (simp add: next_ids_def Let_def)
    then show ?thesis using r same_tracks_trans [OF st(2) r(3)] st(3) by (intro exI [of _ ts2] exI [of _ u2] exI [of _ c2]) simp
  qed
qed

lemma boostLoop_returns:
  assumes "order_ok order" "tracks_ok ts" "set ids \<subseteq> tr_id ` set ts" "0 \<le> c"
  shows "\<exists>ts' u' c'. boostLoop order n ids (ts, u, c) = Some (ts', u', c') \<and> tracks_ok ts' \<and> list_all2 same_track ts ts' \<and>
    totalUsage ts' + c' \<le> totalUsage ts + c \<and> 0 \<le> c'"
proof (cases "ids = []")
  case True
  define next_ids where "next_ids = getMaxDistanceSortedDeficient order n ts"
  have sub: "set next_ids \<subseteq> tr_id ` set ts"
    using order_ok_set [OF assms(1)] by (auto simp: next_ids_def getMaxDistanceSortedDeficient_def)
  have eq: "boostLoop order n ids (ts, u, c) = (if next_ids = [] then Some (ts, u, c) else boostLoop order (Suc n) next_ids (ts, u, c))"
    using True by (subst boostLoop.simps) (simp add: next_ids_def Let_def)
  show ?thesis using boostLoop_nonempty [OF assms(1,2) sub _ assms(4)] assms(2,4)
    by (cases "next_ids = []") (simp_all add: eq list_all2_same)
qed (rule boostLoop_nonempty [OF assms(1-3) _ assms(4)])

lemma adjustState_sel [simp]:
  "sa_videoTracks (adjustState s) = sa_videoTracks s" "sa_videoTracks (maybeSendUpdate u s) = sa_videoTracks s"
  "sa_committedChannelCapacity (adjustState s) = sa_committedChannelCapacity s"
  "sa_committedChannelCapacity (maybeSendUpdate u s) = sa_committedChannelCapacity s"
  "sa_minChannelCapacity (adjustState s) = sa_minChannelCapacity s" "sa_minChannelCapacity (maybeSendUpdate u s) = sa_minChannelCapacity s"
  "sa_state (adjustState s) = (if list_ex IsDeficient (sa_videoTracks s) then streamAllocatorStateDeficient else streamAllocatorStateStable)"
  by (auto simp: adjustState_def setState_def maybeSendUpdate_def Let_def)

text \<open>What every operation on the allocator keeps: the tracks it does not allocate, the queue of events and the pending request.\<close>

definition frame :: "('m, 'b) StreamAllocator \<Rightarrow> ('m, 'b) StreamAllocator \<Rightarrow> bool" where
  "frame s s' \<longleftrightarrow> tracks_ok (sa_videoTracks s') \<and> list_all2 same_track (sa_videoTracks s) (sa_videoTracks s') \<and>
     sa_eventsQueue s' = sa_eventsQueue s \<and> sa_isAllocateAllPending s' = sa_isAllocateAllPending s"

lemma frame_refl: "tracks_ok (sa_videoTracks s) \<Longrightarrow> frame s s"
  by (simp add: frame_def list_all2_same)

lemma frame_trans: "frame a b \<Longrightarrow> frame b c \<Longrightarrow> frame a c"
  using same_tracks_trans by (auto simp: frame_def)

lemma frame_update [simp]:
  "sa_eventsQueue (adjustState s) = sa_eventsQueue s" "sa_isAllocateAllPending (adjustState s) = sa_isAllocateAllPending s"
  "sa_eventsQueue (maybeSendUpdate u s) = sa_eventsQueue s" "sa_isAllocateAllPending (maybeSendUpdate u s) = sa_isAllocateAllPending s"
  by (simp_all add: adjustState_def setState_def maybeSendUpdate_def Let_def)

lemma getExpectedBandwidthUsage_total:
  "tracks_ok (sa_videoTracks s) \<Longrightarrow> getExpectedBandwidthUsage s = Some (totalUsage (sa_videoTracks s))"
  using bandwidthOf_total [of "sa_videoTracks s"] by (simp add: getExpectedBandwidthUsage_def tracks_ok_def)

lemma maybeBoost_ok:
  fixes s :: "('m, 'b) StreamAllocator"
  assumes "order_ok order" "tracks_ok (sa_videoTracks s)"
  shows "\<exists>s'. maybeBoostDeficientTracks order s = Some s' \<and> frame s s' \<and>
    (totalUsage (sa_videoTracks s) < getAvailableChannelCapacity False s \<longrightarrow>
       totalUsage (sa_videoTracks s') \<le> getAvailableChannelCapacity False s \<and>
       (sa_state s' = streamAllocatorStateDeficient \<longleftrightarrow> (\<exists>t \<in> set (sa_videoTracks s'). IsDeficient t))) \<and>
    (getAvailableChannelCapacity False s \<le> totalUsage (sa_videoTracks s) \<longrightarrow> s' = s)"
proof -
  define c where "c = getAvailableChannelCapacity False s - totalUsage (sa_videoTracks s)"
  have head: "getAvailableHeadroom False s = Some c"
    by (simp add: getAvailableHeadroom_def getExpectedBandwidthUsage_total [OF assms(2)] c_def)
  show ?thesis
  proof (cases "c \<le> 0")
    case True
    then show ?thesis using head frame_refl [OF assms(2)] by (simp add: maybeBoostDeficientTracks_def c_def)
  next
    case False
    have "set (getMaxDistanceSortedDeficient order 0 (sa_videoTracks s)) \<subseteq> tr_id ` set (sa_videoTracks s)"
      using order_ok_set [OF assms(1)] by (auto simp: getMaxDistanceSortedDeficient_def)
    from boostLoop_returns [OF assms this, of c 1 "[]"] False obtain ts u c' where
      r: "boostLoop order 1 (getMaxDistanceSortedDeficient order 0 (sa_videoTracks s)) (sa_videoTracks s, [], c) = Some (ts, u, c')"
        "tracks_ok ts" "list_all2 same_track (sa_videoTracks s) ts" "totalUsage ts + c' \<le> totalUsage (sa_videoTracks s) + c" "0 \<le> c'" by auto
    define s' where "s' = adjustState (maybeSendUpdate u (s\<lparr>sa_videoTracks := ts\<rparr>))"
    have "maybeBoostDeficientTracks order s = Some s'" using False head r(1) by (simp add: maybeBoostDeficientTracks_def s'_def)
    moreover have "sa_videoTracks s' = ts" "frame s s'" using r(2,3) by (simp_all add: s'_def frame_def)
    moreover have "sa_state s' = streamAllocatorStateDeficient \<longleftrightarrow> (\<exists>t \<in> set ts. IsDeficient t)" by (simp add: s'_def list_ex_iff)
    moreover have "totalUsage ts \<le> getAvailableChannelCapacity False s" using r(4,5) by (simp add: c_def)
    ultimately show ?thesis using False by (simp add: c_def)
  qed
qed

text \<open>
  C14: boosting deficient tracks ends and stays within the channel. Whatever order Go visits the tracks in, the loop, which has no
  bound of its own, returns: every round moves one target up. The tracks stay well formed, the bandwidth they are expected to
  use afterwards does not exceed the capacity of the channel if it did not before, and the state of the allocator says whether
  a track is still deficient.
\<close>

theorem boost_terminates_within_capacity:
  assumes "order_ok order" "tracks_ok (sa_videoTracks s)"
  shows "\<exists>s' used. maybeBoostDeficientTracks order s = Some s' \<and> tracks_ok (sa_videoTracks s') \<and>
    getExpectedBandwidthUsage s = Some used \<and>
    (used < getAvailableChannelCapacity False s \<longrightarrow>
       (\<exists>used'. getExpectedBandwidthUsage s' = Some used' \<and> used' \<le> getAvailableChannelCapacity False s) \<and>
       (sa_state s' = streamAllocatorStateDeficient \<longleftrightarrow> (\<exists>t \<in> set (sa_videoTracks s'). IsDeficient t))) \<and>
    (getAvailableChannelCapacity False s \<le> used \<longrightarrow> s' = s)"
  using maybeBoost_ok [OF assms] getExpectedBandwidthUsage_total [OF assms(2)] getExpectedBandwidthUsage_total
  by (fastforce simp: frame_def)

section \<open>Loops over the tracks\<close>

text \<open>
  A loop that runs an operation on the tracks with the given ids, each once: the other tracks stay, each of these is changed
  as the operation says, and an invariant of the whole state and the tracks that are left is kept.
\<close>

definition changes :: "(('m, 'b) Track \<Rightarrow> bool) \<Rightarrow> (('m, 'b) Track \<Rightarrow> ('m, 'b) Track \<Rightarrow> bool) \<Rightarrow> ('m, 'b) Track \<Rightarrow> ('m, 'b) Track \<Rightarrow> bool" where
  "changes P Q t t' \<longleftrightarrow> same_track t t' \<and> (if P t then Q t t' else t' = t)"

lemma changes_all: "list_all2 (changes P Q) ts ts' \<Longrightarrow> t' \<in> set ts' \<Longrightarrow> \<exists>t \<in> set ts. changes P Q t t'"
  by (metis in_set_conv_nth list_all2_conv_all_nth)

lemma changes_same: "list_all2 (changes P Q) ts ts' \<Longrightarrow> list_all2 same_track ts ts'"
  by (erule list_all2_mono) (simp add: changes_def)

locale track_loop =
  fixes g :: "nat \<Rightarrow> ('m, 'b) Track list \<times> 's \<Rightarrow> (('m, 'b) Track list \<times> 's) option"
    and P :: "('m, 'b) Track \<Rightarrow> bool" and Q :: "('m, 'b) Track \<Rightarrow> ('m, 'b) Track \<Rightarrow> bool"
    and J :: "nat list \<Rightarrow> ('m, 'b) Track list \<Rightarrow> 's \<Rightarrow> bool"
  assumes step: "\<And>pre t post ids s. tracks_ok (pre @ t # post) \<Longrightarrow> track_ok t \<Longrightarrow> P t \<Longrightarrow> tr_id t \<notin> set ids \<Longrightarrow>
      \<forall>x \<in> set pre \<union> set post. tr_id x \<noteq> tr_id t \<Longrightarrow> J (tr_id t # ids) (pre @ t # post) s \<Longrightarrow>
      \<exists>t' s'. g (tr_id t) (pre @ t # post, s) = Some (pre @ t' # post, s') \<and> same_track t t' \<and> track_ok t' \<and> Q t t' \<and> J ids (pre @ t' # post) s'"
begin

lemma run:
  assumes "tracks_ok ts" "distinct ids" "set ids \<subseteq> tr_id ` set ts" "\<forall>t \<in> set ts. tr_id t \<in> set ids \<longrightarrow> P t" "J ids ts s"
  shows "\<exists>ts' s'. foldM g ids (ts, s) = Some (ts', s') \<and> tracks_ok ts' \<and> J [] ts' s' \<and>
    list_all2 (changes (\<lambda>t. tr_id t \<in> set ids) Q) ts ts'"
  using assms
proof (induction ids arbitrary: ts s)
  case Nil
  then show ?case by (simp add: list_all2_same changes_def)
next
  case (Cons i ids)
  have "i \<in> tr_id ` set ts" using Cons.prems(3) by simp
  then obtain pre t post where t: "ts = pre @ t # post" "tr_id t = i" "track_ok t" using track_split [OF Cons.prems(1)] by metis
  have P: "P t" using Cons.prems(4) t by auto
  have ni: "i \<notin> set ids" using Cons.prems(2) by simp
  have "tr_id t \<notin> tr_id ` (set pre \<union> set post)" using Cons.prems(1) t(1) by (auto simp: tracks_ok_def image_Un)
  then have others: "\<forall>x \<in> set pre \<union> set post. tr_id x \<noteq> tr_id t" by (metis imageI)
  obtain t1 s1 where st: "g i (ts, s) = Some (pre @ t1 # post, s1)" "same_track t t1" "track_ok t1" "Q t t1" "J ids (pre @ t1 # post) s1"
    using step [OF _ t(3) P _ others, of ids s] Cons.prems(1,5) ni t(1,2) by auto
  let ?ts = "pre @ t1 # post"
  have ok: "tracks_ok ?ts" "tr_id ` set ?ts = tr_id ` set ts" using tracks_ok_replace [OF _ st(2,3)] Cons.prems(1) t(1) by auto
  have id1: "tr_id t1 = i" using st(2) t(2) by (simp add: same_track_def)
  have "\<forall>x \<in> set ?ts. tr_id x \<in> set ids \<longrightarrow> P x" using Cons.prems(4) t(1) id1 ni by auto
  then obtain ts' s' where IH: "foldM g ids (?ts, s1) = Some (ts', s')" "tracks_ok ts'" "J [] ts' s'"
    "list_all2 (changes (\<lambda>t. tr_id t \<in> set ids) Q) ?ts ts'"
    using Cons.IH [OF ok(1) _ _ _ st(5)] Cons.prems(2,3) ok(2) by auto
  have "list_all2 (changes (\<lambda>t. tr_id t \<in> set (i # ids)) Q) ts ts'"
  proof -
    from IH(4) obtain pre' t' post' where l: "ts' = pre' @ t' # post'"
      "list_all2 (changes (\<lambda>t. tr_id t \<in> set ids) Q) pre pre'" "list_all2 (changes (\<lambda>t. tr_id t \<in> set ids) Q) post post'" "t' = t1"
      using id1 ni by (auto simp: list_all2_append1 list_all2_Cons1 changes_def)
    have "list_all2 (changes (\<lambda>t. tr_id t \<in> set (i # ids)) Q) pre pre'" "list_all2 (changes (\<lambda>t. tr_id t \<in> set (i # ids)) Q) post post'"
      using l(2,3) others t(2) by (auto elim!: list.rel_mono_strong simp: changes_def)
    then show ?thesis using l(1,4) st(2,4) t by (auto intro!: list_all2_appendI simp: changes_def)
  qed
  then show ?case using IH st(1) by auto
qed

end

text \<open>The same for a loop without further state.\<close>

lemma foldM_unit: "foldM g ids ts = map_option fst (foldM (\<lambda>i (ts, _). map_option (\<lambda>ts. (ts, ())) (g i ts)) ids (ts, ()))"
proof (induction ids arbitrary: ts)
  case (Cons i ids)
  show ?case by (cases "g i ts") (simp_all add: Cons.IH)
qed simp

section \<open>Sharing the capacity\<close>

text \<open>What the tracks that satisfy a predicate have been given.\<close>

definition sumWhere :: "(('m, 'b) Track \<Rightarrow> bool) \<Rightarrow> (('m, 'b) Track \<Rightarrow> int) \<Rightarrow> ('m, 'b) Track list \<Rightarrow> int" where
  "sumWhere P h ts = sum_list (map (\<lambda>t. if P t then h t else 0) ts)"

lemma sumWhere_append [simp]:
  "sumWhere P h (xs @ ys) = sumWhere P h xs + sumWhere P h ys" "sumWhere P h (t # ts) = (if P t then h t else 0) + sumWhere P h ts"
  "sumWhere P h [] = 0"
  by (simp_all add: sumWhere_def)

lemma sumWhere_cong: "(\<And>t. t \<in> set ts \<Longrightarrow> P t = Q t) \<Longrightarrow> sumWhere P h ts = sumWhere Q h ts"
  unfolding sumWhere_def by (rule arg_cong [of _ _ sum_list], rule map_cong) auto

lemma sumWhere_rel:
  assumes "list_all2 R ts ts'" "\<And>t t'. t \<in> set ts \<Longrightarrow> t' \<in> set ts' \<Longrightarrow> R t t' \<Longrightarrow> (if P t' then k t' else 0) \<le> (if P t then h t else 0)"
  shows "sumWhere P k ts' \<le> sumWhere P h ts"
  using assms by (induction rule: list_all2_induct) (fastforce intro: add_mono)+

lemma isManagedId_at:
  assumes "\<forall>x \<in> set pre \<union> set post. tr_id x \<noteq> tr_id t"
  shows "isManagedId (pre @ t # post) (tr_id t) = IsManaged t"
  using assms by (auto simp: isManagedId_def list_ex_iff)

lemma allocTrack_at:
  assumes "tracks_ok (pre @ t # post)" "g t = Some (f, a)"
  shows "allocTrack (tr_id t) g (pre @ t # post, u) =
    (let (t', u') = updateStreamStateChange a (t\<lparr>tr_forwarder := f\<rparr>) u in Some (pre @ t' # post, u', a))"
  using assms by (simp add: allocTrack_def onTrack_at [OF assms(1)] Let_def split: prod.split)

text \<open>An allocation of one track inside a loop.\<close>

lemma allocTrack_step:
  assumes "tracks_ok (pre @ t # post)" "track_ok t" "g t = Some (f, a)" "alloc_ok f" "f_kind f = f_kind (tr_forwarder t)"
    "f_mime f = f_mime (tr_forwarder t)" "f_lastAllocation f = a" "0 \<le> va_BandwidthRequested a"
  shows "\<exists>t' u'. allocTrack (tr_id t) g (pre @ t # post, u) = Some (pre @ t' # post, u', a) \<and> same_track t t' \<and> track_ok t' \<and>
    tr_forwarder t' = f \<and> requested t' = va_BandwidthRequested a \<and> IsDeficient t' = va_IsDeficient a"
proof -
  define x where "x = t\<lparr>tr_forwarder := f\<rparr>"
  define t' where "t' = fst (updateStreamStateChange a x u)"
  define u' where "u' = snd (updateStreamStateChange a x u)"
  have upd: "updateStreamStateChange a x u = (t', u')" by (simp add: t'_def u'_def)
  have "same_track t x" "track_ok x" using assms by (simp_all add: same_track_def track_ok_def h264_flat_def requested_def x_def)
  then have "same_track t t'" "track_ok t'" using same_track_trans [of t x t'] by (simp_all add: t'_def)
  moreover have "tr_forwarder t' = f" by (simp add: t'_def x_def)
  moreover have "allocTrack (tr_id t) g (pre @ t # post, u) = Some (pre @ t' # post, u', a)"
    using allocTrack_at [where g = g, OF assms(1,3), of u] upd by (simp add: x_def Let_def)
  ultimately show ?thesis using assms(7) by (auto simp: requested_def IsDeficient_def)
qed

lemma AllocateOptimal_ok:
  fixes f :: "('m, 'b) Forwarder"
  assumes "alloc_ok f" "wfBitrates brs" "set avail \<subseteq> {0..2}" "f_kind f \<noteq> RTPCodecTypeAudio"
  shows "\<exists>f' a. AllocateOptimal avail brs allowOvershoot hold f = Some (f', a) \<and> alloc_ok f' \<and> f_lastAllocation f' = a \<and>
    \<not> va_IsDeficient a \<and> 0 \<le> va_BandwidthRequested a \<and> f_kind f' = f_kind f \<and> f_mime f' = f_mime f"
proof -
  obtain a where a: "AllocateOptimal avail brs allowOvershoot hold f = Some (updateAllocation a f)" "\<not> va_IsDeficient a"
    "va_TargetLayer a = optTarget avail allowOvershoot hold f" "0 \<le> va_BandwidthRequested a"
    using AllocateOptimal_eq [OF assms, of allowOvershoot hold] by blast
  have "updateAllocation a f = (fst (updateAllocation a f), clampTarget (f_mime f) a)" by (simp add: prod_eq_iff)
  with a(1) have "AllocateOptimal avail brs allowOvershoot hold f = Some (fst (updateAllocation a f), clampTarget (f_mime f) a)" by metis
  then show ?thesis using alloc_ok_update [OF assms(1), of a] optTarget_range [OF assms(1,3)] a(2-4)
    by (intro exI [of _ "fst (updateAllocation a f)"] exI [of _ "clampTarget (f_mime f) a"]) auto
qed

text \<open>The exempt tracks: each gets its optimal allocation, and the capacity goes down by what they request.\<close>

definition exemptDone :: "nat list \<Rightarrow> ('m, 'b) Track \<Rightarrow> bool" where
  "exemptDone left t \<longleftrightarrow> \<not> IsManaged t \<and> tr_id t \<notin> set left"

lemma exemptDone_Nil: "exemptDone [] = (\<lambda>t. \<not> IsManaged t)"
  by (simp add: exemptDone_def fun_eq_iff)

definition exemptInv :: "bool \<Rightarrow> int \<Rightarrow> nat list \<Rightarrow> ('m, 'b) Track list \<Rightarrow> StreamStateInfo list \<times> int \<Rightarrow> bool" where
  "exemptInv d c left ts s \<longleftrightarrow> snd s = c - (if d then 0 else sumWhere (exemptDone left) requested ts)"

interpretation exempt: track_loop "allocateExempt d" track_ok "\<lambda>t t'. \<not> IsManaged t' \<longrightarrow> \<not> IsDeficient t'" "exemptInv d c" for d c
proof
  fix pre t post left and s :: "StreamStateInfo list \<times> int"
  assume ok: "tracks_ok (pre @ t # post)" "track_ok t" and ni: "tr_id t \<notin> set left"
    and others: "\<forall>x \<in> set pre \<union> set post. tr_id x \<noteq> tr_id t" and J: "exemptInv d c (tr_id t # left) (pre @ t # post) s"
  obtain u1 c1 where s: "s = (u1, c1)" by fastforce
  have cong: "sumWhere (exemptDone (tr_id t # left)) requested pre = sumWhere (exemptDone left) requested pre"
    "sumWhere (exemptDone (tr_id t # left)) requested post = sumWhere (exemptDone left) requested post"
    using others by (auto intro!: sumWhere_cong simp: exemptDone_def)
  show "\<exists>t' s'. allocateExempt d (tr_id t) (pre @ t # post, s) = Some (pre @ t' # post, s') \<and> same_track t t' \<and> track_ok t' \<and>
    (\<not> IsManaged t' \<longrightarrow> \<not> IsDeficient t') \<and> exemptInv d c left (pre @ t' # post) s'"
  proof (cases "IsManaged t")
    case True
    then show ?thesis using J ok(2) cong
      by (intro exI [of _ t] exI [of _ s]) (simp add: allocateExempt_def s isManagedId_at [OF others] exemptDone_def exemptInv_def)
  next
    case False
    let ?g = "\<lambda>t. AllocateOptimal (tr_available t) (tr_bitrates t) True False (tr_forwarder t)"
    obtain f a where f: "?g t = Some (f, a)" "alloc_ok f" "f_lastAllocation f = a" "\<not> va_IsDeficient a"
      "f_kind f = f_kind (tr_forwarder t)" "f_mime f = f_mime (tr_forwarder t)" "0 \<le> va_BandwidthRequested a"
      using AllocateOptimal_ok [of "tr_forwarder t" "tr_bitrates t" "tr_available t" True False] ok(2) by (auto simp: track_ok_def)
    obtain t' u' where t': "allocTrack (tr_id t) ?g (pre @ t # post, u1) = Some (pre @ t' # post, u', a)" "same_track t t'" "track_ok t'"
      "requested t' = va_BandwidthRequested a" "IsDeficient t' = va_IsDeficient a"
      using allocTrack_step [where g = ?g, OF ok f(1,2,5,6,3,7), of u1] by blast
    have "exemptDone left t'" "\<not> exemptDone (tr_id t # left) t"
      using t'(2) False ni by (auto simp: exemptDone_def same_track_def IsManaged_def)
    then show ?thesis using t' J cong f(4) False unfolding exemptInv_def
      by (intro exI [of _ t'] exI [of _ "(u', if d then c1 else c1 - va_BandwidthRequested a)"])
        (simp add: allocateExempt_def s isManagedId_at [OF others])
  qed
qed

lemma exempt_phase:
  assumes "tracks_ok ts" "distinct ids" "set ids = tr_id ` set ts"
  shows "\<exists>ts' u' c'. foldM (allocateExempt d) ids (ts, u, c) = Some (ts', u', c') \<and> tracks_ok ts' \<and>
    (\<forall>t \<in> set ts'. \<not> IsManaged t \<longrightarrow> \<not> IsDeficient t) \<and> list_all2 same_track ts ts' \<and>
    c' = c - (if d then 0 else sumWhere (\<lambda>t. \<not> IsManaged t) requested ts')"
proof -
  have "sumWhere (exemptDone ids) requested ts = 0"
    using sumWhere_cong [of ts "exemptDone ids" "\<lambda>_. False" requested] assms(3) by (simp add: exemptDone_def sumWhere_def)
  then have "exemptInv d c ids ts (u, c)" by (simp add: exemptInv_def)
  moreover have "\<forall>t \<in> set ts. track_ok t" using assms(1) by (simp add: tracks_ok_def)
  ultimately obtain ts' u' c' where r: "foldM (allocateExempt d) ids (ts, u, c) = Some (ts', u', c')" "tracks_ok ts'" "exemptInv d c [] ts' (u', c')"
    "list_all2 (changes (\<lambda>t. tr_id t \<in> set ids) (\<lambda>t t'. \<not> IsManaged t' \<longrightarrow> \<not> IsDeficient t')) ts ts'"
    using exempt.run [OF assms(1,2), where d = d and c = c and s = "(u, c)"] assms(3) by auto
  have "\<forall>t' \<in> set ts'. \<not> IsManaged t' \<longrightarrow> \<not> IsDeficient t'" using changes_all [OF r(4)] assms(3) by (auto simp: changes_def)
  then show ?thesis using r(1-3) changes_same [OF r(4)] by (auto simp: exemptDone_Nil exemptInv_def)
qed

text \<open>Pausing: every managed track gives up its bandwidth.\<close>

definition pausedIf :: "('m, 'b) Track \<Rightarrow> ('m, 'b) Track \<Rightarrow> bool" where
  "pausedIf t t' = (if IsManaged t then requested t' = 0 else t' = t)"

interpretation pause: track_loop pauseManaged track_ok pausedIf "\<lambda>_ _ _. True"
proof
  fix pre t post and s :: "StreamStateInfo list"
  assume ok: "tracks_ok (pre @ t # post)" "track_ok t" and others: "\<forall>x \<in> set pre \<union> set post. tr_id x \<noteq> tr_id t"
  let ?g = "\<lambda>t. Pause (tr_available t) (tr_bitrates t) (tr_forwarder t)"
  obtain f a where f: "?g t = Some (f, a)" "alloc_ok f" "f_lastAllocation f = a" "va_BandwidthRequested a = 0"
    "f_kind f = f_kind (tr_forwarder t)" "f_mime f = f_mime (tr_forwarder t)"
    using Pause_ok [of "tr_forwarder t" "tr_bitrates t" "tr_available t"] ok(2) by (auto simp: track_ok_def)
  obtain t' u' where t': "allocTrack (tr_id t) ?g (pre @ t # post, s) = Some (pre @ t' # post, u', a)" "same_track t t'" "track_ok t'"
    "requested t' = va_BandwidthRequested a"
    using allocTrack_step [where g = ?g, OF ok f(1,2,5,6,3), of s] f(4) by auto
  show "\<exists>t' s'. pauseManaged (tr_id t) (pre @ t # post, s) = Some (pre @ t' # post, s') \<and> same_track t t' \<and> track_ok t' \<and> pausedIf t t' \<and> True"
  proof (cases "IsManaged t")
    case True
    then show ?thesis using t' f(4) by (intro exI [of _ t'] exI [of _ u']) (simp add: pausedIf_def pauseManaged_def isManagedId_at [OF others])
  next
    case False
    then show ?thesis using ok(2) by (intro exI [of _ t] exI [of _ s]) (simp add: pausedIf_def pauseManaged_def isManagedId_at [OF others])
  qed
qed

lemma pause_phase:
  assumes "tracks_ok ts" "distinct ids" "set ids = tr_id ` set ts"
  shows "\<exists>ts' u'. foldM pauseManaged ids (ts, u) = Some (ts', u') \<and> tracks_ok ts' \<and>
    list_all2 (changes IsManaged (\<lambda>t t'. requested t' = 0)) ts ts'"
proof -
  have "list_all2 (changes (\<lambda>t. tr_id t \<in> set ids) pausedIf) ts ts' \<Longrightarrow> list_all2 (changes IsManaged (\<lambda>t t'. requested t' = 0)) ts ts'" for ts'
    using assms(3) by (auto elim!: list.rel_mono_strong simp: changes_def pausedIf_def)
  then show ?thesis using pause.run [OF assms(1,2), of u] assms by (auto simp: tracks_ok_def)
qed

text \<open>The bit rate of the layer that a track holds provisionally.\<close>

definition held :: "('m, 'b) Track \<Rightarrow> int" where
  "held t = (case f_provisional (tr_forwarder t) of Some p \<Rightarrow> allocatedBr p | None \<Rightarrow> 0)"

definition prepared :: "('m, 'b) Track \<Rightarrow> bool" where
  "prepared t \<longleftrightarrow> track_ok t \<and> f_provisional (tr_forwarder t) \<noteq> None"

lemma held_nonneg:
  assumes "track_ok t"
  shows "0 \<le> held t"
proof (cases "f_provisional (tr_forwarder t)")
  case (Some p)
  have ok: "prov_ok p" using assms Some by (auto simp: track_ok_def alloc_ok_def)
  have "layer_IsValid (pv_allocatedLayer p) \<Longrightarrow> 0 \<le> br (pv_bitrates p) (pv_allocatedLayer p)"
    using brAt_box(2) [OF prov_okD(5) [OF ok]] inRange_valid [OF prov_okD(4) [OF ok]] by simp
  then show ?thesis using Some by (simp add: held_def allocatedBr_def)
qed (simp add: held_def)

interpretation prepare: track_loop "\<lambda>i (ts, _). map_option (\<lambda>ts. (ts, ())) (prepareTrack i ts)" track_ok "\<lambda>t t'. prepared t' \<and> held t' = 0" "\<lambda>_ _ _. True"
proof
  fix pre t post and s :: unit
  assume ok: "tracks_ok (pre @ t # post)" "track_ok t"
  define t' where "t' = t\<lparr>tr_forwarder := ProvisionalAllocatePrepare (tr_available t) (tr_bitrates t) (tr_forwarder t)\<rparr>"
  have "track_ok t'" "same_track t t'" "held t' = 0" "prepared t'"
    using ok(2) ProvisionalAllocatePrepare_ok [of "tr_forwarder t" "tr_bitrates t" "tr_available t"]
    by (auto simp: track_ok_def h264_flat_def requested_def same_track_def t'_def held_def prepared_def ProvisionalAllocatePrepare_def allocatedBr_def)
  then show "\<exists>t' s'. (\<lambda>i (ts, _). map_option (\<lambda>ts. (ts, ())) (prepareTrack i ts)) (tr_id t) (pre @ t # post, s) = Some (pre @ t' # post, s') \<and> same_track t t' \<and> track_ok t' \<and>
    (prepared t' \<and> held t' = 0) \<and> True"
    by (intro exI [of _ t'] exI [of _ s]) (simp add: prepareTrack_def onTrack_at [OF ok(1)] t'_def)
qed

lemma prepare_phase:
  assumes "tracks_ok ts" "distinct ids" "set ids \<subseteq> tr_id ` set ts"
  shows "\<exists>ts'. foldM prepareTrack ids ts = Some ts' \<and> tracks_ok ts' \<and>
    list_all2 (changes (\<lambda>t. tr_id t \<in> set ids) (\<lambda>t t'. prepared t' \<and> held t' = 0)) ts ts'"
  using prepare.run [OF assms] assms(1) by (subst foldM_unit) (auto simp: tracks_ok_def)

text \<open>
  One layer is offered to every managed track. When pausing is allowed, what the tracks hold and what is left never exceed the
  capacity.
\<close>

definition shared_ok :: "bool \<Rightarrow> int \<Rightarrow> ('m, 'b) Track list \<Rightarrow> int \<Rightarrow> bool" where
  "shared_ok allowPause c0 ts c \<longleftrightarrow> 0 \<le> c \<and> (allowPause \<longrightarrow> sumWhere IsManaged held ts + c \<le> c0)"

lemma ProvisionalAllocate_step:
  assumes "prepared t" "inBox layer" "0 \<le> c"
  shows "\<exists>f' b used. ProvisionalAllocate c layer allowPause False (tr_forwarder t) = Some (f', b, used) \<and>
    same_track t (t\<lparr>tr_forwarder := f'\<rparr>) \<and> prepared (t\<lparr>tr_forwarder := f'\<rparr>) \<and>
    held (t\<lparr>tr_forwarder := f'\<rparr>) = held t + used \<and> (allowPause \<longrightarrow> used \<le> c)"
proof -
  let ?f = "tr_forwarder t"
  obtain p where p: "f_provisional ?f = Some p" and ok: "track_ok t" "alloc_ok ?f" "prov_ok p"
    using assms(1) by (auto simp: prepared_def track_ok_def alloc_ok_def)
  have "prepared (t\<lparr>tr_forwarder := setAllocated layer p ?f\<rparr>)" "same_track t (t\<lparr>tr_forwarder := setAllocated layer p ?f\<rparr>)"
    "held (t\<lparr>tr_forwarder := setAllocated layer p ?f\<rparr>) = br (pv_bitrates p) layer" "held t = allocatedBr p"
    using ok alloc_ok_setAllocated [OF ok(2,3) inBox_inRange [OF assms(2)]] assms(2)
    by (simp_all add: prepared_def track_ok_def h264_flat_def requested_def same_track_def held_def allocatedBr_def p)
  then show ?thesis
    using ProvisionalAllocate_eq [OF p ok(3) assms(2), of c allowPause False] assms(1,3)
    by (auto simp: provFits_def provForced_def allocatedBr_def)
qed

interpretation layer: track_loop "tryLayer allowPause layer" "\<lambda>t. (IsManaged t \<and> inBox layer) \<and> prepared t" "\<lambda>_. prepared"
  "\<lambda>_. shared_ok allowPause c0" for allowPause layer c0
proof
  fix pre t post and c :: int
  assume ok: "tracks_ok (pre @ t # post)" "(IsManaged t \<and> inBox layer) \<and> prepared t" and J: "shared_ok allowPause c0 (pre @ t # post) c"
  have c: "0 \<le> c" using J by (simp add: shared_ok_def)
  from ProvisionalAllocate_step [OF conjunct2 [OF ok(2)] conjunct2 [OF conjunct1 [OF ok(2)]] c, of allowPause] obtain f' b used where
    f': "ProvisionalAllocate c layer allowPause False (tr_forwarder t) = Some (f', b, used)" "same_track t (t\<lparr>tr_forwarder := f'\<rparr>)"
      "prepared (t\<lparr>tr_forwarder := f'\<rparr>)" "held (t\<lparr>tr_forwarder := f'\<rparr>) = held t + used" "allowPause \<Longrightarrow> used \<le> c" by auto
  have "shared_ok allowPause c0 (pre @ t\<lparr>tr_forwarder := f'\<rparr> # post) (max 0 (c - used))"
    using J f'(4,5) ok(2) same_track_managed [OF f'(2)] by (auto simp: shared_ok_def)
  then show "\<exists>t' s'. tryLayer allowPause layer (tr_id t) (pre @ t # post, c) = Some (pre @ t' # post, s') \<and> same_track t t' \<and>
    track_ok t' \<and> prepared t' \<and> shared_ok allowPause c0 (pre @ t' # post) s'"
    using f'(1-3) by (intro exI [of _ "t\<lparr>tr_forwarder := f'\<rparr>"] exI [of _ "max 0 (c - used)"])
      (simp add: tryLayer_def onTrack_at [OF ok(1)] onForwarder_def prepared_def)
qed

lemma layer_phase:
  assumes "tracks_ok ts" "distinct ids" "set ids = tr_id ` {t \<in> set ts. IsManaged t}" "\<forall>t \<in> set ts. IsManaged t \<longrightarrow> prepared t"
    "inBox layer" "shared_ok allowPause c0 ts c"
  shows "\<exists>ts' c'. foldM (tryLayer allowPause layer) ids (ts, c) = Some (ts', c') \<and> tracks_ok ts' \<and> shared_ok allowPause c0 ts' c' \<and>
    list_all2 (changes IsManaged (\<lambda>_. prepared)) ts ts'"
proof -
  have iff: "tr_id t \<in> set ids \<longleftrightarrow> IsManaged t" if "t \<in> set ts" for t
    using assms(1,3) that by (auto simp: tracks_ok_def distinct_map inj_on_def)
  have "list_all2 (changes (\<lambda>t. tr_id t \<in> set ids) (\<lambda>_. prepared)) ts ts' \<Longrightarrow> list_all2 (changes IsManaged (\<lambda>_. prepared)) ts ts'" for ts'
    using iff by (auto elim!: list.rel_mono_strong simp: changes_def)
  moreover have "set ids \<subseteq> tr_id ` set ts" "\<forall>t \<in> set ts. tr_id t \<in> set ids \<longrightarrow> (IsManaged t \<and> inBox layer) \<and> prepared t"
    using assms(3-5) iff by auto
  ultimately show ?thesis using layer.run [OF assms(1,2) _ _ assms(6), of layer] by blast
qed

lemma changes_managed_ids:
  assumes "list_all2 (changes P Q) ts ts'"
  shows "tr_id ` {t \<in> set ts'. IsManaged t} = tr_id ` {t \<in> set ts. IsManaged t}"
proof -
  have "map (\<lambda>t. (tr_id t, IsManaged t)) ts' = map (\<lambda>t. (tr_id t, IsManaged t)) ts"
    using assms by (auto simp: list_all2_conv_all_nth changes_def same_track_def IsManaged_def intro!: nth_equalityI)
  then have "(\<lambda>t. (tr_id t, IsManaged t)) ` set ts' = (\<lambda>t. (tr_id t, IsManaged t)) ` set ts" by (metis set_map)
  then have "{i. (i, True) \<in> (\<lambda>t. (tr_id t, IsManaged t)) ` set ts'} = {i. (i, True) \<in> (\<lambda>t. (tr_id t, IsManaged t)) ` set ts}" by simp
  then show ?thesis by (auto simp: image_iff set_eq_iff)
qed

lemma layers_phase:
  assumes "\<forall>l \<in> set ls. inBox l" "tracks_ok ts" "distinct ids" "set ids = tr_id ` {t \<in> set ts. IsManaged t}"
    "\<forall>t \<in> set ts. IsManaged t \<longrightarrow> prepared t" "shared_ok allowPause c0 ts c"
  shows "\<exists>ts' c'. foldM (\<lambda>layer. foldM (tryLayer allowPause layer) ids) ls (ts, c) = Some (ts', c') \<and> tracks_ok ts' \<and>
    shared_ok allowPause c0 ts' c' \<and> list_all2 (changes IsManaged (\<lambda>_. prepared)) ts ts'"
  using assms
proof (induction ls arbitrary: ts c)
  case Nil
  then show ?case by (simp add: list_all2_same changes_def)
next
  case (Cons l ls)
  from layer_phase [OF Cons.prems(2-5) _ Cons.prems(6), of l] Cons.prems(1) obtain ts1 c1 where
    r: "foldM (tryLayer allowPause l) ids (ts, c) = Some (ts1, c1)" "tracks_ok ts1" "shared_ok allowPause c0 ts1 c1"
      "list_all2 (changes IsManaged (\<lambda>_. prepared)) ts ts1" by auto
  have "\<forall>t \<in> set ts1. IsManaged t \<longrightarrow> prepared t"
    using changes_all [OF r(4)] same_track_managed unfolding changes_def by metis
  then obtain ts2 c2 where r2: "foldM (\<lambda>layer. foldM (tryLayer allowPause layer) ids) ls (ts1, c1) = Some (ts2, c2)" "tracks_ok ts2"
    "shared_ok allowPause c0 ts2 c2" "list_all2 (changes IsManaged (\<lambda>_. prepared)) ts1 ts2"
    using Cons.IH [OF _ r(2) Cons.prems(3) _ _ r(3)] Cons.prems(1,4) changes_managed_ids [OF r(4)] by auto
  have "list_all2 (changes IsManaged (\<lambda>_. prepared)) ts ts2"
    by (rule list_all2_trans [OF _ r(4) r2(4)])
      (auto simp: changes_def same_track_managed intro: same_track_trans split: if_splits)
  then show ?case using r(1) r2 by auto
qed

interpretation commit: track_loop commitTrack prepared "\<lambda>t t'. requested t' \<le> held t" "\<lambda>_ _ _. True"
proof
  fix pre t post and s :: "StreamStateInfo list"
  assume ok: "tracks_ok (pre @ t # post)" "track_ok t" and "prepared t"
  then obtain p where p: "f_provisional (tr_forwarder t) = Some p" by (auto simp: prepared_def)
  let ?g = "\<lambda>t. ProvisionalAllocateCommit (tr_forwarder t)"
  obtain f a where f: "?g t = Some (f, a)" "alloc_ok f" "f_lastAllocation f = a"
    "va_BandwidthRequested a = (if pv_muted p \<or> pv_pubMuted p then 0 else allocatedBr p)"
    "f_kind f = f_kind (tr_forwarder t)" "f_mime f = f_mime (tr_forwarder t)"
    using Commit_ok [OF _ p] ok(2) by (auto simp: track_ok_def)
  have nn: "0 \<le> va_BandwidthRequested a" using f(4) held_nonneg [OF ok(2)] p by (simp add: held_def)
  obtain t' u' where t': "allocTrack (tr_id t) ?g (pre @ t # post, s) = Some (pre @ t' # post, u', a)" "same_track t t'" "track_ok t'"
    "requested t' = va_BandwidthRequested a"
    using allocTrack_step [where g = ?g, OF ok f(1,2,5,6,3) nn, of s] by blast
  moreover have "requested t' \<le> held t" using t'(4) f(4) held_nonneg [OF ok(2)] p by (simp add: held_def)
  ultimately show "\<exists>t' s'. commitTrack (tr_id t) (pre @ t # post, s) = Some (pre @ t' # post, s') \<and> same_track t t' \<and> track_ok t' \<and>
    requested t' \<le> held t \<and> True"
    by (intro exI [of _ t'] exI [of _ u']) (simp add: commitTrack_def)
qed

lemma allLayers_box: "\<forall>l \<in> set allLayers. inBox l"
  by (simp add: allLayers_def set_layersUp inBox_def layer_consts)

lemma share_phase:
  assumes "tracks_ok ts" "distinct ids" "set ids = tr_id ` {t \<in> set ts. IsManaged t}" "0 \<le> c"
  shows "\<exists>ts' u'. shareCapacity allowPause ids (ts, u, c) = Some (ts', u') \<and> tracks_ok ts' \<and>
    list_all2 (changes IsManaged (\<lambda>_ _. True)) ts ts' \<and> (allowPause \<longrightarrow> sumWhere IsManaged requested ts' \<le> c)"
proof -
  have sub: "set ids \<subseteq> tr_id ` set ts" using assms(3) by auto
  have iff: "tr_id t \<in> set ids \<longleftrightarrow> IsManaged t" if "t \<in> set ts" for t
    using assms(1,3) that by (auto simp: tracks_ok_def distinct_map inj_on_def)
  obtain ts1 where p1: "foldM prepareTrack ids ts = Some ts1" "tracks_ok ts1"
    "list_all2 (changes (\<lambda>t. tr_id t \<in> set ids) (\<lambda>t t'. prepared t' \<and> held t' = 0)) ts ts1"
    using prepare_phase [OF assms(1,2) sub] by blast
  have "list_all2 (changes IsManaged (\<lambda>t t'. prepared t' \<and> held t' = 0)) ts ts1"
    using p1(3) iff by (auto elim!: list.rel_mono_strong simp: changes_def)
  note p1 = p1(1,2) this
  have m1: "\<forall>t \<in> set ts1. IsManaged t \<longrightarrow> prepared t \<and> held t = 0"
    using changes_all [OF p1(3)] same_track_managed unfolding changes_def by metis
  then have "sumWhere IsManaged held ts1 = 0" by (induction ts1) auto
  then have "shared_ok allowPause c ts1 c" using assms(4) by (simp add: shared_ok_def)
  then obtain ts2 c2 where p2: "foldM (\<lambda>layer. foldM (tryLayer allowPause layer) ids) allLayers (ts1, c) = Some (ts2, c2)" "tracks_ok ts2"
    "shared_ok allowPause c ts2 c2" "list_all2 (changes IsManaged (\<lambda>_. prepared)) ts1 ts2"
    using layers_phase [OF allLayers_box p1(2) assms(2), of allowPause c c] assms(3) m1 changes_managed_ids [OF p1(3)] by auto
  have ids2: "set ids = tr_id ` {t \<in> set ts2. IsManaged t}"
    using assms(3) changes_managed_ids [OF p1(3)] changes_managed_ids [OF p2(4)] by simp
  have iff2: "tr_id t \<in> set ids \<longleftrightarrow> IsManaged t" if "t \<in> set ts2" for t
    using p2(2) ids2 that by (auto simp: tracks_ok_def distinct_map inj_on_def)
  have m2: "\<forall>t \<in> set ts2. IsManaged t \<longrightarrow> prepared t"
    using changes_all [OF p2(4)] same_track_managed unfolding changes_def by metis
  then obtain ts3 u3 where p3: "foldM commitTrack ids (ts2, u) = Some (ts3, u3)" "tracks_ok ts3"
    "list_all2 (changes (\<lambda>t. tr_id t \<in> set ids) (\<lambda>t t'. requested t' \<le> held t)) ts2 ts3"
    using commit.run [OF p2(2) assms(2), of u] ids2 iff2 by auto
  have "list_all2 (changes IsManaged (\<lambda>t t'. requested t' \<le> held t)) ts2 ts3"
    using p3(3) iff2 by (auto elim!: list.rel_mono_strong simp: changes_def)
  note p3 = p3(1,2) this
  have "sumWhere IsManaged requested ts3 \<le> sumWhere IsManaged held ts2"
    by (rule sumWhere_rel [OF p3(3)]) (auto simp: changes_def same_track_managed split: if_splits)
  moreover have "list_all2 (changes IsManaged (\<lambda>_ _. True)) ts ts3"
    by (rule list_all2_trans [OF _ p1(3) list_all2_trans [OF _ p2(4) p3(3)], where ?P2.0 = "changes IsManaged (\<lambda>_ _. True)"])
      (auto simp: changes_def same_track_managed intro: same_track_trans split: if_splits)
  ultimately show ?thesis using p1(1) p2(1,3) p3(1,2) by (auto simp: shareCapacity_def shared_ok_def)
qed

lemma sorted_ids:
  assumes "order_ok order" "tracks_ok ts"
  shows "distinct (getTracks order n ts)" "set (getTracks order n ts) = tr_id ` set ts"
    "distinct (getSorted order n ts)" "set (getSorted order n ts) = tr_id ` {t \<in> set ts. IsManaged t}"
  using assms order_ok_set [OF assms(1)] order_ok_distinct [OF assms(1), of ts] order_ok_distinct [OF assms(1), of "filter IsManaged ts"]
  by (auto simp: getTracks_def getSorted_def tracks_ok_def distinct_map_filter)

lemma allocateAll_ok:
  fixes s :: "('m, 'b) StreamAllocator"
  assumes "order_ok order" "tracks_ok (sa_videoTracks s)" "sa_enabled s"
  shows "\<exists>s'. allocateAllTracks order s = Some s' \<and> frame s s' \<and>
    (\<forall>t \<in> set (sa_videoTracks s'). \<not> IsManaged t \<longrightarrow> \<not> IsDeficient t) \<and>
    (sa_allowPause s \<longrightarrow> sumWhere IsManaged requested (sa_videoTracks s') \<le> max 0 (getAvailableChannelCapacity True s -
       (if sa_disableEstimationUnmanagedTracks s then 0 else sumWhere (\<lambda>t. \<not> IsManaged t) requested (sa_videoTracks s')))) \<and>
    (sa_state s' = streamAllocatorStateDeficient \<longleftrightarrow> (\<exists>t \<in> set (sa_videoTracks s'). IsDeficient t))"
proof -
  let ?d = "sa_disableEstimationUnmanagedTracks s" and ?ids = "getTracks order 0 (sa_videoTracks s)"
  obtain ts1 u1 c1 where e: "foldM (allocateExempt ?d) ?ids (sa_videoTracks s, [], getAvailableChannelCapacity True s) = Some (ts1, u1, c1)"
    "tracks_ok ts1" "\<forall>t \<in> set ts1. \<not> IsManaged t \<longrightarrow> \<not> IsDeficient t" "list_all2 same_track (sa_videoTracks s) ts1"
    "c1 = getAvailableChannelCapacity True s - (if ?d then 0 else sumWhere (\<lambda>t. \<not> IsManaged t) requested ts1)"
    using exempt_phase [OF assms(2) sorted_ids(1,2) [OF assms(1,2)]] by blast
  define c where "c = max 0 c1"
  define phase where "phase = (if c = 0 \<and> sa_allowPause s then foldM pauseManaged ?ids (ts1, u1)
    else shareCapacity (sa_allowPause s) (getSorted order 1 ts1) (ts1, u1, c))"
  have "\<exists>ts u. phase = Some (ts, u) \<and> tracks_ok ts \<and> list_all2 (changes IsManaged (\<lambda>_ _. True)) ts1 ts \<and>
    (sa_allowPause s \<longrightarrow> sumWhere IsManaged requested ts \<le> c)"
  proof (cases "c = 0 \<and> sa_allowPause s")
    case True
    have "distinct ?ids" "set ?ids = tr_id ` set ts1" using sorted_ids(1,2) [OF assms(1,2)] same_tracks_ids [OF e(4)] by auto
    then obtain ts u where p: "foldM pauseManaged ?ids (ts1, u1) = Some (ts, u)" "tracks_ok ts"
      "list_all2 (changes IsManaged (\<lambda>t t'. requested t' = 0)) ts1 ts"
      using pause_phase [OF e(2), of ?ids u1] by blast
    have "sumWhere IsManaged requested ts \<le> sumWhere IsManaged (\<lambda>_. 0) ts1" "list_all2 (changes IsManaged (\<lambda>_ _. True)) ts1 ts"
      using p(3) by (auto elim!: sumWhere_rel list.rel_mono_strong simp: changes_def same_track_managed split: if_splits)
    moreover have "sumWhere IsManaged (\<lambda>_. 0) ts1 = 0" by (simp add: sumWhere_def)
    ultimately show ?thesis using True p(1,2) by (simp add: phase_def)
  next
    case False
    then show ?thesis using share_phase [OF e(2) sorted_ids(3,4) [OF assms(1) e(2)], where c = c and n1 = 1 and allowPause = "sa_allowPause s" and u = u1]
      by (auto simp: phase_def c_def)
  qed
  then obtain ts u where p: "phase = Some (ts, u)" "tracks_ok ts" "list_all2 (changes IsManaged (\<lambda>_ _. True)) ts1 ts"
    "sa_allowPause s \<Longrightarrow> sumWhere IsManaged requested ts \<le> c" by blast
  have "allocateAllTracks order s = Some (adjustState (maybeSendUpdate u (s\<lparr>sa_videoTracks := ts\<rparr>)))"
    using assms(3) p(1) by (auto simp: allocateAllTracks_def e(1) c_def phase_def Let_def split: if_splits)
  moreover have "\<forall>t \<in> set ts. \<not> IsManaged t \<longrightarrow> \<not> IsDeficient t"
    using changes_all [OF p(3)] e(3) same_track_managed unfolding changes_def by metis
  moreover have "sumWhere (\<lambda>t. \<not> IsManaged t) requested ts = sumWhere (\<lambda>t. \<not> IsManaged t) requested ts1"
    using p(3) by (induction rule: list_all2_induct) (auto simp: changes_def same_track_managed split: if_splits)
  ultimately show ?thesis using p(2,4) same_tracks_trans [OF e(4) changes_same [OF p(3)]] e(5) by (auto simp: c_def list_ex_iff frame_def)
qed

text \<open>
  C13: allocating all tracks of a congested channel stays within it. With well-formed tracks the allocation never fails. When
  tracks may be paused, the bandwidth requested for the managed tracks together is at most the capacity of the channel less what
  the exempt tracks request (or the whole capacity, when exempt tracks are left out of the estimate), and nothing when that is
  used up. Exempt tracks are never left deficient, and the state of the allocator afterwards says whether a track is deficient.
\<close>

theorem allocate_all_within_capacity:
  fixes s :: "('m, 'b) StreamAllocator"
  assumes "order_ok order" "tracks_ok (sa_videoTracks s)" "sa_enabled s"
  shows "\<exists>s'. allocateAllTracks order s = Some s' \<and> tracks_ok (sa_videoTracks s') \<and>
    tr_id ` set (sa_videoTracks s') = tr_id ` set (sa_videoTracks s) \<and>
    (\<forall>t \<in> set (sa_videoTracks s'). \<not> IsManaged t \<longrightarrow> \<not> IsDeficient t) \<and>
    (sa_allowPause s \<longrightarrow> sumWhere IsManaged requested (sa_videoTracks s') \<le> max 0 (getAvailableChannelCapacity True s -
       (if sa_disableEstimationUnmanagedTracks s then 0 else sumWhere (\<lambda>t. \<not> IsManaged t) requested (sa_videoTracks s')))) \<and>
    (sa_state s' = streamAllocatorStateDeficient \<longleftrightarrow> (\<exists>t \<in> set (sa_videoTracks s'). IsDeficient t))"
proof -
  have ids: "frame s s' \<Longrightarrow> tracks_ok (sa_videoTracks s') \<and> tr_id ` set (sa_videoTracks s') = tr_id ` set (sa_videoTracks s)" for s'
    using same_tracks_ids [of "sa_videoTracks s" "sa_videoTracks s'"] by (simp add: frame_def)
  from allocateAll_ok [OF assms] show ?thesis by (elim exE conjE) (intro exI conjI; use ids in blast)
qed

section \<open>A concrete channel\<close>

text \<open>A camera track that is managed and a screen share that is not, on a channel of 3000 bits per second.\<close>

definition demoTrack :: "nat \<Rightarrow> TrackSource \<Rightarrow> (unit, unit) Track" where
  "demoTrack i src = \<lparr>tr_id = i, tr_source = src, tr_isMultiLayered = False, tr_priority = 1, tr_publisherID = 7,
     tr_maxLayer = \<lparr>Spatial = 2, Temporal = 3\<rparr>, tr_totalPackets = 0, tr_totalRepeatedNacks = 0, tr_isDirty = False,
     tr_streamState = StreamStateActive, tr_SSRC = of_nat i, tr_SSRCRTX = 0, tr_forwarder = demoForwarder,
     tr_available = [0, 1, 2], tr_bitrates = demoBitrates\<rparr>"

definition demoAllocator :: "(unit, unit) StreamAllocator" where
  "demoAllocator = \<lparr>sa_minChannelCapacity = 0, sa_disableEstimationUnmanagedTracks = False, sa_ProbeMode = ProbeModePadding,
     sa_ProbeOveragePct = 120, sa_ProbeMinBps = 200000, sa_enabled = True, sa_allowPause = True,
     sa_committedChannelCapacity = 3000, sa_overriddenChannelCapacity = 0,
     sa_videoTracks = [demoTrack 1 TrackSource_CAMERA, demoTrack 2 TrackSource_SCREEN_SHARE], sa_isAllocateAllPending = False,
     sa_rembTrackingSSRC = 0, sa_state = streamAllocatorStateDeficient, sa_activeProbeClusterId = 0, sa_activeProbeGoalReached = False,
     sa_activeProbeCongesting = False, sa_eventsQueue = [], sa_updates = [], sa_probes = []\<rparr>"

lemma demoTrack_ok: "track_ok (demoTrack i src)" "tr_id (demoTrack i src) = i"
  using demo_ok by (simp_all add: demoTrack_def track_ok_def requested_def h264_flat_def demoForwarder_sel)

lemma demoAllocator_ok:
  "order_ok (\<lambda>n lt ts. ts)" "tracks_ok (sa_videoTracks demoAllocator)"
  "sa_enabled demoAllocator" "sa_allowPause demoAllocator" "\<not> sa_disableEstimationUnmanagedTracks demoAllocator"
  "getAvailableChannelCapacity b demoAllocator = 3000"
  by (simp_all add: order_ok_def tracks_ok_def demoAllocator_def demoTrack_ok getAvailableChannelCapacity_def Let_def)

lemma boost_terminates_within_capacity_witness:
  "\<exists>s'. maybeBoostDeficientTracks (\<lambda>n lt ts. ts) demoAllocator = Some s' \<and> tracks_ok (sa_videoTracks s') \<and>
     (\<exists>used'. getExpectedBandwidthUsage s' = Some used' \<and> used' \<le> 3000)"
proof -
  have "getExpectedBandwidthUsage demoAllocator = Some 2000" by code_simp
  then show ?thesis using boost_terminates_within_capacity [OF demoAllocator_ok(1,2)] by (auto simp: demoAllocator_ok)
qed

lemma allocate_all_within_capacity_witness:
  "\<exists>s'. allocateAllTracks (\<lambda>n lt ts. ts) demoAllocator = Some s' \<and> sumWhere IsManaged requested (sa_videoTracks s') \<le>
     max 0 (3000 - sumWhere (\<lambda>t. \<not> IsManaged t) requested (sa_videoTracks s'))"
  using allocate_all_within_capacity [OF demoAllocator_ok(1,2,3)] by (auto simp: demoAllocator_ok)

end
