(* ===== verification/Stream_Allocator_Events.thy ===== *)
theory Stream_Allocator_Events
  imports Stream_Allocator "HOL-Library.Signed_Division"
begin

text \<open>
  The event loop of the stream allocator (\<^verbatim>\<open>streamallocator.go\<close>): the calls from other goroutines, which change the set of tracks or
  post events, and the handlers, which run one at a time on the event queue.

  What a handler asks of the bandwidth estimator, the pacer and the retransmission statistics of the down tracks is an argument.
  The commands to the estimator, the pacer and the ticker (stop or start a probe, reset, change the ping interval) change nothing
  that is modelled and are left out, except the probe clusters asked of the prober.
\<close>

section \<open>Posting events\<close>

definition postEvent :: "Event \<Rightarrow> ('m, 'b) StreamAllocator \<Rightarrow> ('m, 'b) StreamAllocator" where
  "postEvent event s = s\<lparr>sa_eventsQueue := sa_eventsQueue s @ [event]\<rparr>"

text \<open>A method of the track with this id that reports whether it changed something; no track means no change.\<close>

definition modifyTrack :: "nat \<Rightarrow> (('m, 'b) Track \<Rightarrow> ('m, 'b) Track \<times> bool) \<Rightarrow> ('m, 'b) StreamAllocator \<Rightarrow> ('m, 'b) StreamAllocator \<times> bool" where
  "modifyTrack i g s =
     (case onTrack i (\<lambda>t. Some (g t)) (sa_videoTracks s) of None \<Rightarrow> (s, False) | Some (ts, changed) \<Rightarrow> (s\<lparr>sa_videoTracks := ts\<rparr>, changed))"

definition maybePostEventAllocateTrack :: "nat \<Rightarrow> ('m, 'b) StreamAllocator \<Rightarrow> ('m, 'b) StreamAllocator" where
  "maybePostEventAllocateTrack i s =
     (let (s, shouldPost) = modifyTrack i (SetDirty True) s in if shouldPost then postEvent (SignalAllocateTrack i) s else s)"

text \<open>A new track; the layer limits and the state that belong to the down track are passed in.\<close>

definition NewTrack :: "nat \<Rightarrow> TrackSource \<Rightarrow> bool \<Rightarrow> nat \<Rightarrow> u32 \<Rightarrow> u32 \<Rightarrow> ('m, 'b) Forwarder \<Rightarrow> int list \<Rightarrow> Bitrates \<Rightarrow> ('m, 'b) Track" where
  "NewTrack i source isMultiLayered publisherID ssrc ssrcRTX f available brs =
     (let t = \<lparr>tr_id = i, tr_source = source, tr_isMultiLayered = isMultiLayered, tr_priority = 0, tr_publisherID = publisherID,
               tr_maxLayer = zeroLayer, tr_totalPackets = 0, tr_totalRepeatedNacks = 0, tr_isDirty = False,
               tr_streamState = StreamStateInactive, tr_SSRC = ssrc, tr_SSRCRTX = ssrcRTX, tr_forwarder = f, tr_available = available,
               tr_bitrates = brs\<rparr>
      in fst (tr_SetMaxLayer (f_max f) (fst (SetPriority 0 t))))"

definition NewStreamAllocator :: "int \<Rightarrow> bool \<Rightarrow> ProbeMode \<Rightarrow> int \<Rightarrow> int \<Rightarrow> bool \<Rightarrow> bool \<Rightarrow> ('m, 'b) StreamAllocator" where
  "NewStreamAllocator minCapacity disableUnmanaged probeMode overagePct minBps enabled allowPause =
     \<lparr>sa_minChannelCapacity = minCapacity, sa_disableEstimationUnmanagedTracks = disableUnmanaged, sa_ProbeMode = probeMode,
      sa_ProbeOveragePct = overagePct, sa_ProbeMinBps = minBps, sa_enabled = enabled, sa_allowPause = allowPause,
      sa_committedChannelCapacity = 0, sa_overriddenChannelCapacity = 0, sa_videoTracks = [], sa_isAllocateAllPending = False,
      sa_rembTrackingSSRC = 0, sa_state = streamAllocatorStateStable, sa_activeProbeClusterId = 0, sa_activeProbeGoalReached = False,
      sa_activeProbeCongesting = False, sa_eventsQueue = [], sa_updates = [], sa_probes = []\<rparr>"

text \<open>A track with the same id is replaced.\<close>

definition AddTrack :: "('m, 'b) Track \<Rightarrow> u8 \<Rightarrow> ('m, 'b) StreamAllocator \<Rightarrow> ('m, 'b) StreamAllocator" where
  "AddTrack track priority s =
     (if f_kind (tr_forwarder track) \<noteq> RTPCodecTypeVideo then s
      else
        let track = fst (SetPriority priority track);
            s = s\<lparr>sa_videoTracks := filter (\<lambda>t. tr_id t \<noteq> tr_id track) (sa_videoTracks s) @ [track]\<rparr>
        in maybePostEventAllocateTrack (tr_id track) s)"

definition RemoveTrack :: "nat \<Rightarrow> ('m, 'b) StreamAllocator \<Rightarrow> ('m, 'b) StreamAllocator" where
  "RemoveTrack i s = postEvent SignalAdjustState (s\<lparr>sa_videoTracks := filter (\<lambda>t. tr_id t \<noteq> i) (sa_videoTracks s)\<rparr>)"

definition SetTrackPriority :: "nat \<Rightarrow> u8 \<Rightarrow> ('m, 'b) StreamAllocator \<Rightarrow> ('m, 'b) StreamAllocator" where
  "SetTrackPriority i priority s =
     (let (s, changed) = modifyTrack i (SetPriority priority) s
      in if changed \<and> \<not> sa_isAllocateAllPending s
         then postEvent SignalAllocateAllTracks (s\<lparr>sa_isAllocateAllPending := True\<rparr>) else s)"

definition setMaxLayerDirty :: "VideoLayer \<Rightarrow> ('m, 'b) Track \<Rightarrow> ('m, 'b) Track \<times> bool" where
  "setMaxLayerDirty layer t = (let (t, changed) = tr_SetMaxLayer layer t in if changed then SetDirty True t else (t, False))"

definition OnSubscribedLayerChanged :: "nat \<Rightarrow> VideoLayer \<Rightarrow> ('m, 'b) StreamAllocator \<Rightarrow> ('m, 'b) StreamAllocator" where
  "OnSubscribedLayerChanged i layer s =
     (let (s, shouldPost) = modifyTrack i (setMaxLayerDirty layer) s in if shouldPost then postEvent (SignalAllocateTrack i) s else s)"

definition IsBWEEnabled :: "nat \<Rightarrow> ('m, 'b) StreamAllocator \<Rightarrow> bool" where
  "IsBWEEnabled i s =
     (if \<not> sa_disableEstimationUnmanagedTracks s then True
      else case find (\<lambda>t. tr_id t = i) (sa_videoTracks s) of Some t \<Rightarrow> IsManaged t | None \<Rightarrow> True)"

definition sa_IsSubscribeMutable :: "nat \<Rightarrow> ('m, 'b) StreamAllocator \<Rightarrow> bool" where
  "sa_IsSubscribeMutable i s =
     (case find (\<lambda>t. tr_id t = i) (sa_videoTracks s) of Some t \<Rightarrow> IsSubscribeMutable t | None \<Rightarrow> True)"

text \<open>The search for the SSRC that sends the report: the first one that belongs to the track.\<close>

fun lockSSRC :: "u32 \<Rightarrow> u32 \<Rightarrow> u32 list \<Rightarrow> u32 option" where
  "lockSSRC ssrc rtx [] = None"
| "lockSSRC ssrc rtx (x # xs) =
     (if x = 0 then lockSSRC ssrc rtx xs
      else if x = ssrc then Some ssrc
      else if x = rtx then Some rtx
      else lockSSRC ssrc rtx xs)"

definition OnREMB :: "nat \<Rightarrow> u32 list \<Rightarrow> int \<Rightarrow> ('m, 'b) StreamAllocator \<Rightarrow> ('m, 'b) StreamAllocator" where
  "OnREMB i ssrcs bitrate s =
     (if sa_videoTracks s = [] then s
      else
        let (ssrc, rtx) = (case find (\<lambda>t. tr_id t = i) (sa_videoTracks s) of Some t \<Rightarrow> (tr_SSRC t, tr_SSRCRTX t) | None \<Rightarrow> (0, 0)) in
        if sa_rembTrackingSSRC s \<notin> set ssrcs \<and> ssrcs = [] then s
        else
          let s = (if sa_rembTrackingSSRC s \<in> set ssrcs then s
                   else s\<lparr>sa_rembTrackingSSRC := (case lockSSRC ssrc rtx ssrcs of Some x \<Rightarrow> x | None \<Rightarrow> hd ssrcs)\<rparr>) in
          if sa_rembTrackingSSRC s = 0 \<or> sa_rembTrackingSSRC s \<noteq> ssrc \<and> sa_rembTrackingSSRC s \<noteq> rtx then s
          else postEvent (SignalEstimate bitrate) s)"

section \<open>Handlers\<close>

definition handleSignalAllocateTrack :: "('m, 'b) trackOrder \<Rightarrow> CongestionState \<Rightarrow> nat \<Rightarrow> ('m, 'b) StreamAllocator \<Rightarrow> ('m, 'b) StreamAllocator option" where
  "handleSignalAllocateTrack order congestion i s =
     (if list_ex (\<lambda>t. tr_id t = i) (sa_videoTracks s)
      then allocateTrack order congestion i
             (s\<lparr>sa_videoTracks := map (\<lambda>t. if tr_id t = i then fst (SetDirty False t) else t) (sa_videoTracks s)\<rparr>)
      else Some s)"

definition handleSignalAllocateAllTracks :: "('m, 'b) trackOrder \<Rightarrow> ('m, 'b) StreamAllocator \<Rightarrow> ('m, 'b) StreamAllocator option" where
  "handleSignalAllocateAllTracks order s =
     (let s = s\<lparr>sa_isAllocateAllPending := False\<rparr>
      in if sa_state s = streamAllocatorStateDeficient then allocateAllTracks order s else Some s)"

definition handleSignalResume :: "nat \<Rightarrow> ('m, 'b) StreamAllocator \<Rightarrow> ('m, 'b) StreamAllocator" where
  "handleSignalResume i s =
     (case onTrack i (\<lambda>t. let (t, updated) = SetStreamState StreamStateActive t
                     in Some (t, if updated then HandleStreamingChange t StreamStateActive [] else [])) (sa_videoTracks s) of
        None \<Rightarrow> s
      | Some (ts, update) \<Rightarrow> maybeSendUpdate update (s\<lparr>sa_videoTracks := ts\<rparr>))"

definition handleSignalSetAllowPause :: "bool \<Rightarrow> ('m, 'b) StreamAllocator \<Rightarrow> ('m, 'b) StreamAllocator" where
  "handleSignalSetAllowPause allowPause s = s\<lparr>sa_allowPause := allowPause\<rparr>"

definition handleSignalSetChannelCapacity :: "('m, 'b) trackOrder \<Rightarrow> int \<Rightarrow> ('m, 'b) StreamAllocator \<Rightarrow> ('m, 'b) StreamAllocator option" where
  "handleSignalSetChannelCapacity order channelCapacity s =
     (let s = s\<lparr>sa_overriddenChannelCapacity := channelCapacity\<rparr>
      in if sa_overriddenChannelCapacity s > 0 then allocateAllTracks order s else Some s)"

definition allocateHeld :: "nat \<Rightarrow> ('m, 'b) Track list \<times> StreamStateInfo list \<Rightarrow> (('m, 'b) Track list \<times> StreamStateInfo list) option" where
  "allocateHeld i st = do {
     (ts, update, _) \<leftarrow> allocTrack i (\<lambda>t. AllocateOptimal (tr_available t) (tr_bitrates t) True False (tr_forwarder t)) st;
     Some (ts, update)
   }"

definition handleSignalCongestionStateChange :: "('m, 'b) trackOrder \<Rightarrow> CongestionState \<Rightarrow> CongestionState \<Rightarrow> int \<Rightarrow>
    ('m, 'b) StreamAllocator \<Rightarrow> ('m, 'b) StreamAllocator option" where
  "handleSignalCongestionStateChange order fromState toState estimated s = do {
     s \<leftarrow> (if fromState = CongestionStateEarlyWarning \<and> toState = CongestionStateNone \<and> sa_state s = streamAllocatorStateStable
           then do {
             (ts, update) \<leftarrow> foldM allocateHeld (getTracks order 0 (sa_videoTracks s)) (sa_videoTracks s, []);
             Some (maybeSendUpdate update (s\<lparr>sa_videoTracks := ts\<rparr>))
           }
           else Some s);
     if toState = CongestionStateCongested then
       if sa_activeProbeClusterId s \<noteq> 0 then Some (s\<lparr>sa_activeProbeCongesting := True\<rparr>)
       else allocateAllTracks order (s\<lparr>sa_committedChannelCapacity := estimated\<rparr>)
     else Some s
   }"

definition handleSignalAdjustState :: "('m, 'b) StreamAllocator \<Rightarrow> ('m, 'b) StreamAllocator" where
  "handleSignalAdjustState s = adjustState s"

text \<open>The packets and repeated NACKs since the last call, summed with wrap-around over the tracks.\<close>

definition GetNackDelta :: "u32 \<times> u32 \<Rightarrow> ('m, 'b) Track \<Rightarrow> ('m, 'b) Track \<times> u32 \<times> u32" where
  "GetNackDelta = (\<lambda>(totalPackets, totalRepeatedNacks) t.
     (t\<lparr>tr_totalPackets := totalPackets, tr_totalRepeatedNacks := totalRepeatedNacks\<rparr>,
      totalPackets - tr_totalPackets t, totalRepeatedNacks - tr_totalRepeatedNacks t))"

fun getNackDelta :: "(nat \<Rightarrow> u32 \<times> u32) \<Rightarrow> ('m, 'b) Track list \<Rightarrow> ('m, 'b) Track list \<times> u32 \<times> u32" where
  "getNackDelta stats [] = ([], 0, 0)"
| "getNackDelta stats (t # ts) =
     (let (t, p, n) = GetNackDelta (stats (tr_id t)) t; (ts, ps, ns) = getNackDelta stats ts in (t # ts, p + ps, n + ns))"

text \<open>The estimate is handed to the estimator with the expected usage and the NACK counts.\<close>

definition handleSignalEstimate :: "(nat \<Rightarrow> u32 \<times> u32) \<Rightarrow> int \<Rightarrow> ('m, 'b) StreamAllocator \<Rightarrow>
    (('m, 'b) StreamAllocator \<times> int \<times> int \<times> u32 \<times> u32) option" where
  "handleSignalEstimate stats receivedEstimate s =
     (let (ts, packetDelta, repeatedNackDelta) = getNackDelta stats (sa_videoTracks s); s = s\<lparr>sa_videoTracks := ts\<rparr>
      in do { used \<leftarrow> getExpectedBandwidthUsage s; Some (s, receivedEstimate, used, packetDelta, repeatedNackDelta) })"

definition handleSignalProbeClusterSwitch :: "u32 \<Rightarrow> ('m, 'b) StreamAllocator \<Rightarrow> ('m, 'b) StreamAllocator" where
  "handleSignalProbeClusterSwitch pci s =
     s\<lparr>sa_activeProbeClusterId := pci, sa_activeProbeGoalReached := False, sa_activeProbeCongesting := False\<rparr>"

section \<open>Probing\<close>

definition cChannelCapacityInfinity :: int where
  "cChannelCapacityInfinity = 100 * 1000 * 1000"

text \<open>The first deficient track that can be boosted.\<close>

fun mediaPass :: "nat list \<Rightarrow> ('m, 'b) Track list \<Rightarrow> (('m, 'b) Track list \<times> StreamStateInfo list) option" where
  "mediaPass [] ts = Some (ts, [])"
| "mediaPass (i # ids) ts = do {
     (ts, update, _, boosted) \<leftarrow> onTrack i (\<lambda>t. do {
         (f, allocation, boosted) \<leftarrow> AllocateNextHigher cChannelCapacityInfinity (tr_available t) (tr_bitrates t) True (tr_forwarder t);
         let t = t\<lparr>tr_forwarder := f\<rparr>;
         let (t, update) = (if boosted then updateStreamStateChange allocation t [] else (t, []));
         Some (t, update, allocation, boosted)
       }) ts;
     if boosted then Some (ts, update) else mediaPass ids ts
   }"

definition maybeProbeWithMedia :: "('m, 'b) trackOrder \<Rightarrow> ('m, 'b) StreamAllocator \<Rightarrow> ('m, 'b) StreamAllocator option" where
  "maybeProbeWithMedia order s = do {
     (ts, update) \<leftarrow> mediaPass (getMaxDistanceSortedDeficient order 0 (sa_videoTracks s)) (sa_videoTracks s);
     Some (maybeSendUpdate update (s\<lparr>sa_videoTracks := ts\<rparr>))
   }"

text \<open>The transition of the first deficient track that has one and does not give bits back.\<close>

fun paddingPass :: "nat list \<Rightarrow> ('m, 'b) Track list \<Rightarrow> VideoTransition option option" where
  "paddingPass [] ts = Some None"
| "paddingPass (i # ids) ts = do {
     (_, transition, available) \<leftarrow> onTrack i (\<lambda>t. do {
         r \<leftarrow> GetNextHigherTransition (tr_bitrates t) True (tr_forwarder t); Some (t, r) }) ts;
     if \<not> available \<or> tx_BandwidthDelta transition < 0 then paddingPass ids ts else Some (Some transition)
   }"

definition maybeProbeWithPadding :: "('m, 'b) trackOrder \<Rightarrow> ('m, 'b) StreamAllocator \<Rightarrow> ('m, 'b) StreamAllocator option" where
  "maybeProbeWithPadding order s = do {
     found \<leftarrow> paddingPass (getMaxDistanceSortedDeficient order 0 (sa_videoTracks s)) (sa_videoTracks s);
     case found of
       None \<Rightarrow> Some s
     | Some transition \<Rightarrow> do {
         let desired = max (tx_BandwidthDelta transition * sa_ProbeOveragePct s sdiv 100) (sa_ProbeMinBps s);
         used \<leftarrow> getExpectedBandwidthUsage s;
         Some (s\<lparr>sa_probes := sa_probes s @ [\<lparr>pg_AvailableBandwidthBps = sa_committedChannelCapacity s, pg_ExpectedUsageBps = used,
            pg_DesiredBps = used + desired\<rparr>]\<rparr>)
       }
   }"

definition maybeProbe :: "('m, 'b) trackOrder \<Rightarrow> bool \<Rightarrow> ('m, 'b) StreamAllocator \<Rightarrow> ('m, 'b) StreamAllocator option" where
  "maybeProbe order canProbe s =
     (if sa_overriddenChannelCapacity s > 0 \<or> \<not> canProbe then Some s
      else case sa_ProbeMode s of
        ProbeModeMedia \<Rightarrow> do { s \<leftarrow> maybeProbeWithMedia order s; Some (adjustState s) }
      | ProbeModePadding \<Rightarrow> maybeProbeWithPadding order s)"

datatype ProbeSignal = ProbeSignalInconclusive | ProbeSignalCongesting | ProbeSignalNotCongesting

text \<open>
  What the estimator and the pacer answer to a periodic ping: whether nothing was sent for long enough, whether the goal of the
  active probe is reached, the result of a finished probe, and whether probing is possible.
\<close>

record PingView =
  pvw_CongestionState :: CongestionState
  pvw_pausedLong :: bool
  pvw_GoalReached :: bool
  pvw_Finalize :: "(ProbeSignal \<times> int) option"
  pvw_CanProbe :: bool

definition handleSignalPeriodicPing :: "('m, 'b) trackOrder \<Rightarrow> PingView \<Rightarrow> ('m, 'b) StreamAllocator \<Rightarrow> ('m, 'b) StreamAllocator option" where
  "handleSignalPeriodicPing order v s = do {
     let s = (if sa_allowPause s \<and> sa_state s = streamAllocatorStateDeficient \<and> pvw_CongestionState v \<noteq> CongestionStateNone \<and> pvw_pausedLong v
              then s\<lparr>sa_activeProbeClusterId := 0\<rparr> else s);
     s \<leftarrow> (if sa_activeProbeClusterId s \<noteq> 0 then do {
         let s = (if \<not> sa_activeProbeCongesting s \<and> \<not> sa_activeProbeGoalReached s \<and> pvw_GoalReached v
                  then s\<lparr>sa_activeProbeGoalReached := True\<rparr> else s);
         case pvw_Finalize v of
           None \<Rightarrow> Some s
         | Some (signal, channelCapacity) \<Rightarrow>
             let s = s\<lparr>sa_activeProbeClusterId := 0\<rparr> in
             if signal \<noteq> ProbeSignalCongesting
             then maybeBoostDeficientTracks order
                    (if channelCapacity > sa_committedChannelCapacity s then s\<lparr>sa_committedChannelCapacity := channelCapacity\<rparr> else s)
             else Some s
       } else Some s);
     if sa_state s = streamAllocatorStateDeficient then maybeProbe order (pvw_CanProbe v) s else Some s
   }"

section \<open>The event queue\<close>

text \<open>The handler of an event. Writing probe packets and ending a cluster change nothing that is modelled.\<close>

definition handleEvent :: "('m, 'b) trackOrder \<Rightarrow> (nat \<Rightarrow> u32 \<times> u32) \<Rightarrow> PingView \<Rightarrow> Event \<Rightarrow> ('m, 'b) StreamAllocator \<Rightarrow>
    ('m, 'b) StreamAllocator option" where
  "handleEvent order stats v event s = (case event of
       SignalAllocateTrack i \<Rightarrow> handleSignalAllocateTrack order (pvw_CongestionState v) i s
     | SignalAllocateAllTracks \<Rightarrow> handleSignalAllocateAllTracks order s
     | SignalAdjustState \<Rightarrow> Some (handleSignalAdjustState s)
     | SignalEstimate receivedEstimate \<Rightarrow> do { (s, _) \<leftarrow> handleSignalEstimate stats receivedEstimate s; Some s }
     | SignalFeedback \<Rightarrow> Some s
     | SignalPeriodicPing \<Rightarrow> handleSignalPeriodicPing order v s
     | SignalProbeClusterSwitch pci \<Rightarrow> Some (handleSignalProbeClusterSwitch pci s)
     | SignalSendProbe bytesToSend \<Rightarrow> Some s
     | SignalPacerProbeObserverClusterComplete probeClusterId \<Rightarrow> Some s
     | SignalResume i \<Rightarrow> Some (handleSignalResume i s)
     | SignalSetAllowPause allowPause \<Rightarrow> Some (handleSignalSetAllowPause allowPause s)
     | SignalSetChannelCapacity channelCapacity \<Rightarrow> handleSignalSetChannelCapacity order channelCapacity s
     | SignalCongestionStateChange fromState toState estimated \<Rightarrow> handleSignalCongestionStateChange order fromState toState estimated s)"

text \<open>The worker takes the first event off the queue and handles it.\<close>

definition processEvent :: "('m, 'b) trackOrder \<Rightarrow> (nat \<Rightarrow> u32 \<times> u32) \<Rightarrow> PingView \<Rightarrow> ('m, 'b) StreamAllocator \<Rightarrow>
    ('m, 'b) StreamAllocator option" where
  "processEvent order stats v s = (case sa_eventsQueue s of
       [] \<Rightarrow> Some s
     | event # events \<Rightarrow> handleEvent order stats v event (s\<lparr>sa_eventsQueue := events\<rparr>))"

end
