(* ===== verification/Stream_Event_Properties.thy ===== *)
theory Stream_Event_Properties
  imports Stream_Allocation_Properties Stream_Allocator_Events
begin

text \<open>
  Properties of the event loop of the stream allocator: no handler panics, whatever the other goroutines do in between, and a
  request for an allocation is never lost.
\<close>

section \<open>Operations on one track\<close>

lemma best_total:
  assumes "alloc_ok f" "f_provisional f = Some p"
  shows "\<exists>l d. ProvisionalAllocateGetBestWeightedTransition f = Some (transitionTo l d p f) \<and> inRange l"
proof -
  note pok = alloc_okD(5) [OF assms] and t = alloc_okD(4) [OF assms(1)]
  note ok = prov_okD [OF pok]
  define existing where "existing = neededBr (pv_bitrates p) (f_target f) (va_BandwidthRequested (f_lastAllocation f))"
  note eq = ProvisionalAllocateGetBestWeightedTransition_def [of f, unfolded assms(2) needed_total [OF ok(5) t] existing_def [symmetric]
      bind.bind_lunit Let_def]
  show ?thesis
  proof (cases "pv_muted p \<or> pv_pubMuted p")
    case True
    then show ?thesis by (auto simp: eq)
  next
    case False
    obtain r where r: "firstLayer (\<lambda>b. b \<noteq> 0) (pv_bitrates p)
        (concat (map (\<lambda>t. map (\<lambda>s. \<lparr>Spatial = s, Temporal = t\<rparr>) (rev [0..Spatial (pv_maxLayer p)])) (rev [0..Temporal (pv_maxLayer p)]))) = Some r"
      "\<forall>l b. r = Some (l, b) \<longrightarrow> inBox l" using reach_total [OF ok(5,2)] by blast
    show ?thesis
    proof (cases r)
      case None
      then show ?thesis using False r(1) ok(3) by (auto simp: eq)
    next
      case (Some m)
      obtain l b where m: "m = (l, b)" by fastforce
      have mrt: "- 1 \<le> Temporal l" using r(2) Some m by (simp add: inBox_def)
      obtain bl bd bv where best: "bestOffer (f_target f) (Temporal l) existing (pv_bitrates p) (offersBelow (f_target f)) (InvalidLayer, 0, Fin 0) = Some (bl, bd, bv)"
        "bl = InvalidLayer \<or> bl \<in> set (offersBelow (f_target f))"
        using bestOffer_inv [OF ok(5) t mrt order_refl, of existing "{}" "(InvalidLayer, 0, Fin 0)"] by (auto simp: bestInv_def)
      have "inRange bl" using best(2) t by (auto simp: offersBelow_iff inRange_def InvalidLayer_def layer_consts)
      then show ?thesis using False r(1) Some m best(1) by (auto simp: eq)
    qed
  qed
qed

lemma track_ok_setAllocated:
  assumes "track_ok t" "f_provisional (tr_forwarder t) = Some p" "inRange l"
  shows "track_ok (t\<lparr>tr_forwarder := setAllocated l p (tr_forwarder t)\<rparr>)" "prepared (t\<lparr>tr_forwarder := setAllocated l p (tr_forwarder t)\<rparr>)"
    "same_track t (t\<lparr>tr_forwarder := setAllocated l p (tr_forwarder t)\<rparr>)"
proof -
  have "alloc_ok (tr_forwarder t)" "prov_ok p" using assms(1,2) by (auto simp: track_ok_def alloc_ok_def)
  then have "alloc_ok (setAllocated l p (tr_forwarder t))" by (rule alloc_ok_setAllocated [OF _ _ assms(3)])
  then show "track_ok (t\<lparr>tr_forwarder := setAllocated l p (tr_forwarder t)\<rparr>)" "prepared (t\<lparr>tr_forwarder := setAllocated l p (tr_forwarder t)\<rparr>)"
    "same_track t (t\<lparr>tr_forwarder := setAllocated l p (tr_forwarder t)\<rparr>)"
    using assms(1) by (simp_all add: track_ok_def prepared_def h264_flat_def requested_def same_track_def)
qed

text \<open>The tracks stay the same ones and those that are prepared stay prepared.\<close>

definition growsTo :: "('m, 'b) Track \<Rightarrow> ('m, 'b) Track \<Rightarrow> bool" where
  "growsTo t t' \<longleftrightarrow> same_track t t' \<and> (prepared t \<longrightarrow> prepared t')"

definition grows :: "('m, 'b) Track list \<Rightarrow> ('m, 'b) Track list \<Rightarrow> bool" where
  "grows ts ts' \<longleftrightarrow> tracks_ok ts' \<and> list_all2 growsTo ts ts'"

lemma list_all2_right: "list_all2 R xs ys \<Longrightarrow> y \<in> set ys \<Longrightarrow> \<exists>x \<in> set xs. R x y"
  by (metis in_set_conv_nth list_all2_conv_all_nth)

lemma grows_refl: "tracks_ok ts \<Longrightarrow> grows ts ts"
  by (simp add: grows_def growsTo_def list_all2_same)

lemma grows_trans: "grows a b \<Longrightarrow> grows b c \<Longrightarrow> grows a c"
  using list_all2_trans [of growsTo growsTo growsTo a b c] same_track_trans by (auto simp: grows_def growsTo_def)

lemma growsD:
  assumes "grows ts ts'"
  shows "tracks_ok ts'" "list_all2 same_track ts ts'" "tr_id ` set ts' = tr_id ` set ts"
    "\<And>I. \<forall>t \<in> set ts. tr_id t \<in> I \<longrightarrow> prepared t \<Longrightarrow> \<forall>t \<in> set ts'. tr_id t \<in> I \<longrightarrow> prepared t"
proof -
  show "tracks_ok ts'" "list_all2 same_track ts ts'" using assms by (auto simp: grows_def growsTo_def elim: list_all2_mono)
  then show "tr_id ` set ts' = tr_id ` set ts" using same_tracks_ids by blast
  show "\<forall>t \<in> set ts'. tr_id t \<in> I \<longrightarrow> prepared t" if "\<forall>t \<in> set ts. tr_id t \<in> I \<longrightarrow> prepared t" for I
  proof
    fix t' assume "t' \<in> set ts'"
    then obtain t where "t \<in> set ts" "same_track t t'" "prepared t \<longrightarrow> prepared t'"
      using assms list_all2_right [of growsTo ts ts' t'] by (auto simp: grows_def growsTo_def)
    then show "tr_id t' \<in> I \<longrightarrow> prepared t'" using that by (simp add: same_track_def)
  qed
qed

lemma onTrack_grows:
  assumes "tracks_ok ts" "i \<in> tr_id ` set ts" "\<forall>t \<in> set ts. tr_id t = i \<longrightarrow> P t"
    and step: "\<And>t. track_ok t \<Longrightarrow> P t \<Longrightarrow> \<exists>t' r. g t = Some (t', r) \<and> same_track t t' \<and> track_ok t' \<and> (prepared t \<longrightarrow> prepared t') \<and> Q t'"
  shows "\<exists>ts' r. onTrack i g ts = Some (ts', r) \<and> grows ts ts' \<and> (\<forall>t \<in> set ts'. tr_id t = i \<longrightarrow> Q t)"
proof -
  obtain pre t post where t: "ts = pre @ t # post" "tr_id t = i" "track_ok t" using track_split [OF assms(1,2)] .
  obtain t' r where s: "g t = Some (t', r)" "same_track t t'" "track_ok t'" "prepared t \<longrightarrow> prepared t'" "Q t'"
    using step [OF t(3)] assms(3) t by auto
  have "i \<notin> tr_id ` (set pre \<union> set post)" using assms(1) t(1,2) by (auto simp: tracks_ok_def image_Un)
  then have "\<forall>x \<in> set (pre @ t' # post). tr_id x = i \<longrightarrow> Q x" using s(5) by auto
  moreover have "onTrack i g ts = Some (pre @ t' # post, r)" using onTrack_at [of pre t post g] assms(1) t(1,2) s(1) by simp
  moreover have "grows ts (pre @ t' # post)"
    using tracks_ok_replace(1) [OF _ s(2,3)] assms(1) t(1) s(2,4) by (auto simp: grows_def growsTo_def list_all2_same intro!: list_all2_appendI)
  ultimately show ?thesis by blast
qed

lemma prepareTrack_ok:
  assumes "tracks_ok ts" "i \<in> tr_id ` set ts"
  shows "\<exists>ts'. prepareTrack i ts = Some ts' \<and> grows ts ts' \<and> (\<forall>t \<in> set ts'. tr_id t = i \<longrightarrow> prepared t)"
proof -
  let ?g = "\<lambda>t. Some (t\<lparr>tr_forwarder := ProvisionalAllocatePrepare (tr_available t) (tr_bitrates t) (tr_forwarder t)\<rparr>, ())"
  have "\<exists>ts' r. onTrack i ?g ts = Some (ts', r) \<and> grows ts ts' \<and> (\<forall>t \<in> set ts'. tr_id t = i \<longrightarrow> prepared t)"
  proof (rule onTrack_grows [OF assms, where P = "\<lambda>_. True"])
    fix t assume "track_ok t"
    then show "\<exists>t' r. ?g t = Some (t', r) \<and> same_track t t' \<and> track_ok t' \<and> (prepared t \<longrightarrow> prepared t') \<and> prepared t'"
      using ProvisionalAllocatePrepare_ok [of "tr_forwarder t" "tr_bitrates t" "tr_available t"]
      by (auto simp: track_ok_def prepared_def h264_flat_def requested_def same_track_def ProvisionalAllocatePrepare_def)
  qed simp
  then show ?thesis by (auto simp: prepareTrack_def)
qed

text \<open>The operations that only choose a layer for a prepared track.\<close>

definition chooses :: "(('m, 'b) Forwarder \<Rightarrow> (('m, 'b) Forwarder \<times> 'r) option) \<Rightarrow> bool" where
  "chooses g \<longleftrightarrow> (\<forall>f p. alloc_ok f \<and> f_provisional f = Some p \<longrightarrow>
     (\<exists>f' r. g f = Some (f', r) \<and> (f' = f \<or> (\<exists>l. f' = setAllocated l p f \<and> inRange l))))"

lemma onForwarder_ok:
  fixes ts :: "('m, 'b) Track list"
  assumes "chooses g" "tracks_ok ts" "i \<in> tr_id ` set ts" "\<forall>t \<in> set ts. tr_id t = i \<longrightarrow> prepared t"
  shows "\<exists>ts' r. onTrack i (onForwarder g) ts = Some (ts', r) \<and> grows ts ts'"
proof -
  have "\<exists>ts' r. onTrack i (onForwarder g) ts = Some (ts', r) \<and> grows ts ts' \<and> (\<forall>t \<in> set ts'. tr_id t = i \<longrightarrow> True)"
  proof (rule onTrack_grows [OF assms(2-4)])
    fix t :: "('m, 'b) Track" assume t: "track_ok t" "prepared t"
    then obtain p where p: "alloc_ok (tr_forwarder t)" "f_provisional (tr_forwarder t) = Some p" by (auto simp: track_ok_def prepared_def)
    then obtain f' r where g: "g (tr_forwarder t) = Some (f', r)" "f' = tr_forwarder t \<or> (\<exists>l. f' = setAllocated l p (tr_forwarder t) \<and> inRange l)"
      using assms(1) unfolding chooses_def by blast
    have "same_track t (t\<lparr>tr_forwarder := f'\<rparr>) \<and> track_ok (t\<lparr>tr_forwarder := f'\<rparr>) \<and> prepared (t\<lparr>tr_forwarder := f'\<rparr>)"
      using g(2) t track_ok_setAllocated [OF t(1) p(2)] by auto
    then show "\<exists>t' r. onForwarder g t = Some (t', r) \<and> same_track t t' \<and> track_ok t' \<and> (prepared t \<longrightarrow> prepared t') \<and> True"
      using g(1) by (simp add: onForwarder_def)
  qed
  then show ?thesis by blast
qed

lemma chooses_ProvisionalAllocate: "inBox l \<Longrightarrow> chooses (ProvisionalAllocate c l allowPause False)"
  unfolding chooses_def
proof (intro allI impI)
  fix f :: "('m, 'b) Forwarder" and p
  assume "inBox l" "alloc_ok f \<and> f_provisional f = Some p"
  then show "\<exists>f' r. ProvisionalAllocate c l allowPause False f = Some (f', r) \<and> (f' = f \<or> (\<exists>l. f' = setAllocated l p f \<and> inRange l))"
    using ProvisionalAllocate_eq [of f p l c allowPause False] alloc_okD(5) [of f p] inBox_inRange [of l] by auto
qed

lemma chooses_reset: "chooses (\<lambda>f. do { f \<leftarrow> ProvisionalAllocateReset f; Some (f, ()) })"
  by (auto simp: chooses_def ProvisionalAllocateReset_def)

lemma chooses_coop: "chooses (\<lambda>f. do { (f, tx, _, _) \<leftarrow> ProvisionalAllocateGetCooperativeTransition b f; Some (f, tx) })"
  using coop_eq by (fastforce simp: chooses_def transitionTo_def)

lemma chooses_best: "chooses (\<lambda>f. do { (f, tx, _, _) \<leftarrow> ProvisionalAllocateGetBestWeightedTransition f; Some (f, tx) })"
  using best_total by (fastforce simp: chooses_def transitionTo_def)

section \<open>Allocating one track\<close>

text \<open>The commit of a prepared track and the pause of a track, with the stream state update.\<close>

lemma allocTrack_grows:
  assumes "tracks_ok ts" "i \<in> tr_id ` set ts" "\<forall>t \<in> set ts. tr_id t = i \<longrightarrow> P t"
    and step: "\<And>t. track_ok t \<Longrightarrow> P t \<Longrightarrow> \<exists>f a. g t = Some (f, a) \<and> alloc_ok f \<and> f_kind f = f_kind (tr_forwarder t) \<and>
      f_mime f = f_mime (tr_forwarder t) \<and> f_lastAllocation f = a \<and> 0 \<le> va_BandwidthRequested a \<and>
      (f_provisional (tr_forwarder t) \<noteq> None \<longrightarrow> f_provisional f \<noteq> None)"
  shows "\<exists>ts' u' a. allocTrack i g (ts, u) = Some (ts', u', a) \<and> grows ts ts'"
proof -
  obtain pre t post where t: "ts = pre @ t # post" "tr_id t = i" "track_ok t" using track_split [OF assms(1,2)] .
  obtain f a where f: "g t = Some (f, a)" "alloc_ok f" "f_kind f = f_kind (tr_forwarder t)" "f_mime f = f_mime (tr_forwarder t)"
    "f_lastAllocation f = a" "0 \<le> va_BandwidthRequested a" "f_provisional (tr_forwarder t) \<noteq> None \<longrightarrow> f_provisional f \<noteq> None"
    using step [OF t(3)] assms(3) t by auto
  obtain t' u' where t': "allocTrack (tr_id t) g (pre @ t # post, u) = Some (pre @ t' # post, u', a)" "same_track t t'" "track_ok t'"
    "tr_forwarder t' = f"
    using allocTrack_step [where g = g, OF _ t(3) f(1-6), of pre post u] assms(1) t(1) by auto
  have "growsTo t t'" using t'(2-4) f(7) by (simp add: growsTo_def prepared_def)
  then have "grows ts (pre @ t' # post)"
    using tracks_ok_replace(1) [OF _ t'(2,3)] assms(1) t(1) by (auto simp: grows_def growsTo_def list_all2_same intro!: list_all2_appendI)
  then show ?thesis using t'(1) t(1,2) by auto
qed

lemma commitTrack_ok:
  assumes "tracks_ok ts" "i \<in> tr_id ` set ts" "\<forall>t \<in> set ts. tr_id t = i \<longrightarrow> prepared t"
  shows "\<exists>ts' u' a. allocTrack i (\<lambda>t. ProvisionalAllocateCommit (tr_forwarder t)) (ts, u) = Some (ts', u', a) \<and> grows ts ts'"
proof (rule allocTrack_grows [OF assms])
  fix t :: "('a, 'b) Track" assume t: "track_ok t" "prepared t"
  then obtain p where p: "alloc_ok (tr_forwarder t)" "f_provisional (tr_forwarder t) = Some p" by (auto simp: track_ok_def prepared_def)
  obtain f a where f: "ProvisionalAllocateCommit (tr_forwarder t) = Some (f, a)" "alloc_ok f" "f_lastAllocation f = a"
    "va_BandwidthRequested a = (if pv_muted p \<or> pv_pubMuted p then 0 else allocatedBr p)" "f_kind f = f_kind (tr_forwarder t)"
    "f_mime f = f_mime (tr_forwarder t)" using Commit_ok [OF p] by blast
  obtain used d where "ProvisionalAllocateCommit (tr_forwarder t) = Some (updateAllocation (commitAlloc used d p) (commitState p (tr_forwarder t)))"
    using Commit_alloc [OF p] by blast
  then have "f = fst (updateAllocation (commitAlloc used d p) (commitState p (tr_forwarder t)))" using f(1) by (metis fst_conv option.inject)
  then have "f_provisional f \<noteq> None" using p(2) by (simp add: commitState_def)
  moreover have "0 \<le> va_BandwidthRequested a" using f(4) held_nonneg [OF t(1)] p(2) by (simp add: held_def)
  ultimately show "\<exists>f a. ProvisionalAllocateCommit (tr_forwarder t) = Some (f, a) \<and> alloc_ok f \<and> f_kind f = f_kind (tr_forwarder t) \<and>
      f_mime f = f_mime (tr_forwarder t) \<and> f_lastAllocation f = a \<and> 0 \<le> va_BandwidthRequested a \<and>
      (f_provisional (tr_forwarder t) \<noteq> None \<longrightarrow> f_provisional f \<noteq> None)"
    using f by blast
qed

lemma allocTrack_same:
  assumes "tracks_ok ts" "i \<in> tr_id ` set ts"
    and step: "\<And>t. track_ok t \<Longrightarrow> \<exists>f a. g t = Some (f, a) \<and> alloc_ok f \<and> f_lastAllocation f = a \<and> 0 \<le> va_BandwidthRequested a \<and>
      f_kind f = f_kind (tr_forwarder t) \<and> f_mime f = f_mime (tr_forwarder t)"
  shows "\<exists>ts' u' a. allocTrack i g (ts, u) = Some (ts', u', a) \<and> tracks_ok ts' \<and> list_all2 same_track ts ts'"
proof -
  obtain pre t post where t: "ts = pre @ t # post" "tr_id t = i" "track_ok t" using track_split [OF assms(1,2)] .
  obtain f a where f: "g t = Some (f, a)" "alloc_ok f" "f_kind f = f_kind (tr_forwarder t)" "f_mime f = f_mime (tr_forwarder t)"
    "f_lastAllocation f = a" "0 \<le> va_BandwidthRequested a" using step [OF t(3)] by blast
  show ?thesis
    using allocTrack_step [where g = g, OF _ t(3) f, of pre post u] assms(1) t(1,2) tracks_ok_replace(1) [of pre t post] same_tracks_replace [of t _ pre post]
    by (metis (no_types, lifting))
qed

lemma optimalTrack_ok:
  assumes "tracks_ok ts" "i \<in> tr_id ` set ts"
  shows "\<exists>ts' u' a. allocTrack i (\<lambda>t. AllocateOptimal (tr_available t) (tr_bitrates t) b hold (tr_forwarder t)) (ts, u) = Some (ts', u', a) \<and>
    tracks_ok ts' \<and> list_all2 same_track ts ts'"
  using AllocateOptimal_ok by (intro allocTrack_same [OF assms]) (fastforce simp: track_ok_def)

lemma pauseTrack_ok:
  assumes "tracks_ok ts" "i \<in> tr_id ` set ts"
  shows "\<exists>ts' u' a. allocTrack i (\<lambda>t. Pause (tr_available t) (tr_bitrates t) (tr_forwarder t)) (ts, u) = Some (ts', u', a) \<and>
    tracks_ok ts' \<and> list_all2 same_track ts ts'"
  using Pause_ok by (intro allocTrack_same [OF assms]) (fastforce simp: track_ok_def)

lemma fitLoop_ok:
  assumes "tracks_ok ts" "i \<in> tr_id ` set ts" "\<forall>t \<in> set ts. tr_id t = i \<longrightarrow> prepared t" "\<forall>l \<in> set ls. inBox l"
  shows "\<exists>ts' best'. fitLoop c allowPause i ls (ts, best) = Some (ts', best') \<and> grows ts ts'"
  using assms
proof (induction ls arbitrary: ts best)
  case Nil
  then show ?case by (simp add: grows_refl)
next
  case (Cons l ls)
  obtain ts1 b used where s: "onTrack i (onForwarder (ProvisionalAllocate c l allowPause False)) ts = Some (ts1, b, used)" "grows ts ts1"
    using onForwarder_ok [OF chooses_ProvisionalAllocate Cons.prems(1-3), of l c allowPause] Cons.prems(4) by auto
  have "i \<in> tr_id ` set ts1" "\<forall>t \<in> set ts1. tr_id t = i \<longrightarrow> prepared t"
    using growsD(3) [OF s(2)] Cons.prems(2) growsD(4) [OF s(2), of "{i}"] Cons.prems(3) by auto
  from Cons.IH [OF growsD(1) [OF s(2)] this, of "if b then l else best"] Cons.prems(4) obtain ts2 best2 where
    "fitLoop c allowPause i ls (ts1, if b then l else best) = Some (ts2, best2)" "grows ts1 ts2" by auto
  then show ?case using s grows_trans [OF s(2)] by auto
qed

lemma acquire_ok:
  assumes "tracks_ok ts" "set ids \<subseteq> tr_id ` set ts" "\<forall>t \<in> set ts. tr_id t \<in> set ids \<longrightarrow> prepared t"
  shows "\<exists>ts' con' acq'. acquire needed ids (ts, con, acq) = Some (ts', con', acq') \<and> grows ts ts' \<and> (\<exists>xs. con' = con @ xs \<and> set xs \<subseteq> set ids \<and> (distinct ids \<longrightarrow> distinct xs))"
  using assms
proof (induction ids arbitrary: ts con acq)
  case Nil
  then show ?case by (simp add: grows_refl)
next
  case (Cons i ids)
  obtain ts1 tx where s: "bestTransition i ts = Some (ts1, tx)" "grows ts ts1"
    using onForwarder_ok [OF chooses_best Cons.prems(1), of i] Cons.prems(2,3) by (auto simp: bestTransition_def)
  have prem: "set ids \<subseteq> tr_id ` set ts1" "\<forall>t \<in> set ts1. tr_id t \<in> set ids \<longrightarrow> prepared t"
    using growsD(3) [OF s(2)] Cons.prems(2) growsD(4) [OF s(2), of "set ids"] Cons.prems(3) by auto
  have IH: "\<exists>ts' con' acq'. acquire needed ids (ts1, c, a) = Some (ts', con', acq') \<and> grows ts1 ts' \<and> (\<exists>xs. con' = c @ xs \<and> set xs \<subseteq> set ids \<and> (distinct ids \<longrightarrow> distinct xs))" for c a
    using Cons.IH [OF growsD(1) [OF s(2)] prem] .
  show ?case
  proof (cases "tx_BandwidthDelta tx < 0")
    case True
    show ?thesis
      using True s IH [of "con @ [i]" "acq + - tx_BandwidthDelta tx"] grows_trans [OF s(2)]
      by (cases "acq + - tx_BandwidthDelta tx \<ge> needed") (fastforce simp: Let_def intro: exI [of _ "[i]"])+
  next
    case False
    then show ?thesis using s IH [of con acq] grows_trans [OF s(2)] by (fastforce simp: Let_def)
  qed
qed

lemma changes_keeps:
  assumes "list_all2 (changes (\<lambda>t. tr_id t \<in> set ids) Q) ts ts'" "i \<notin> set ids" "\<forall>t \<in> set ts. tr_id t = i \<longrightarrow> prepared t"
  shows "\<forall>t \<in> set ts'. tr_id t = i \<longrightarrow> prepared t"
proof (intro ballI impI)
  fix t' assume "t' \<in> set ts'" "tr_id t' = i"
  then obtain t where "t \<in> set ts" "changes (\<lambda>t. tr_id t \<in> set ids) Q t t'" using list_all2_right [OF assms(1)] by blast
  then have "t' = t" using \<open>tr_id t' = i\<close> assms(2) by (auto simp: changes_def same_track_def split: if_splits)
  then show "prepared t'" using assms(3) \<open>t \<in> set ts\<close> \<open>tr_id t' = i\<close> by simp
qed

lemma redistribute_ok:
  assumes "order_ok order" "tracks_ok (sa_videoTracks s)" "i \<in> tr_id ` set (sa_videoTracks s)"
    "\<forall>t \<in> set (sa_videoTracks s). tr_id t = i \<longrightarrow> prepared t"
  shows "\<exists>s'. redistribute order i tx s = Some s' \<and> frame s s'"
proof -
  let ?ts = "sa_videoTracks s"
  define ids where "ids = getMinDistanceSorted order 0 i ?ts"
  have ids: "distinct ids" "set ids \<subseteq> tr_id ` set ?ts" "i \<notin> set ids"
    using order_ok_set [OF assms(1)] order_ok_distinct [OF assms(1), of "filter (\<lambda>t. IsManaged t \<and> tr_id t \<noteq> i) ?ts"] assms(2)
    by (auto simp: ids_def getMinDistanceSorted_def tracks_ok_def distinct_map_filter)
  obtain ts1 where p: "foldM prepareTrack ids ?ts = Some ts1" "tracks_ok ts1"
    "list_all2 (changes (\<lambda>t. tr_id t \<in> set ids) (\<lambda>t t'. prepared t' \<and> held t' = 0)) ?ts ts1"
    using prepare_phase [OF assms(2) ids(1,2)] by blast
  have prep1: "\<forall>t \<in> set ts1. tr_id t \<in> set ids \<longrightarrow> prepared t"
    using changes_all [OF p(3)] unfolding changes_def same_track_def by metis
  have ids1: "tr_id ` set ts1 = tr_id ` set ?ts" by (rule same_tracks_ids [OF changes_same [OF p(3)]])
  obtain ts2 con acq where a: "acquire (tx_BandwidthDelta tx) ids (ts1, [], 0) = Some (ts2, con, acq)" "grows ts1 ts2" and con: "distinct con" "set con \<subseteq> set ids"
    using acquire_ok [OF p(2) _ prep1, of "tx_BandwidthDelta tx" "[]" 0] ids(1,2) ids1 by auto
  have prep2: "\<forall>t \<in> set ts2. tr_id t \<in> insert i (set ids) \<longrightarrow> prepared t"
    using growsD(4) [OF a(2), of "insert i (set ids)"] prep1 changes_keeps [OF p(3) ids(3) assms(4)] by auto
  obtain ts3 u3 where c: "(if acq \<ge> tx_BandwidthDelta tx then foldM commitTrack con (ts2, []) else Some (ts2, [])) = Some (ts3, u3)"
    "tracks_ok ts3" "list_all2 same_track ts2 ts3" "\<forall>t \<in> set ts3. tr_id t = i \<longrightarrow> prepared t"
  proof (cases "acq \<ge> tx_BandwidthDelta tx")
    case True
    have "set con \<subseteq> tr_id ` set ts2" "\<forall>t \<in> set ts2. tr_id t \<in> set con \<longrightarrow> prepared t"
      using con(2) ids(2) ids1 growsD(3) [OF a(2)] prep2 by auto
    from commit.run [OF growsD(1) [OF a(2)] con(1) this, of "[]"] obtain ts' u' where
      r: "foldM commitTrack con (ts2, []) = Some (ts', u')" "tracks_ok ts'"
        "list_all2 (changes (\<lambda>t. tr_id t \<in> set con) (\<lambda>t t'. requested t' \<le> held t)) ts2 ts'" by auto
    have "i \<notin> set con" using con(2) ids(3) by auto
    then show ?thesis using that [OF _ r(2) changes_same [OF r(3)]] changes_keeps [OF r(3)] r(1) prep2 True by auto
  qed (use that growsD(1) [OF a(2)] prep2 in \<open>auto simp: list_all2_same\<close>)
  have i3: "i \<in> tr_id ` set ts3" using assms(3) ids1 growsD(3) [OF a(2)] same_tracks_ids [OF c(3)] by simp
  obtain ts4 u4 x where d: "(if \<not> sa_allowPause s \<or> acq \<ge> tx_BandwidthDelta tx
        then allocTrack i (\<lambda>t. ProvisionalAllocateCommit (tr_forwarder t)) (ts3, u3)
        else allocTrack i (\<lambda>t. Pause (tr_available t) (tr_bitrates t) (tr_forwarder t)) (ts3, u3)) = Some (ts4, u4, x)"
    "tracks_ok ts4" "list_all2 same_track ts3 ts4"
    using commitTrack_ok [OF c(2) i3 c(4), of u3] pauseTrack_ok [OF c(2) i3, of u3] growsD(1,2)
    by (cases "\<not> sa_allowPause s \<or> acq \<ge> tx_BandwidthDelta tx") (auto, blast+)
  have "redistribute order i tx s = Some (adjustState (maybeSendUpdate u4 (s\<lparr>sa_videoTracks := ts4\<rparr>)))"
    unfolding redistribute_def ids_def [symmetric] Let_def p(1) bind.bind_lunit a(1) prod.case c(1) d(1) ..
  moreover have "list_all2 same_track ?ts ts4"
    using same_tracks_trans [OF changes_same [OF p(3)] same_tracks_trans [OF growsD(2) [OF a(2)] same_tracks_trans [OF c(3) d(3)]]] .
  ultimately show ?thesis using d(2) by (auto simp: frame_def)
qed

lemma resetTrack_ok:
  assumes "tracks_ok ts" "i \<in> tr_id ` set ts" "\<forall>t \<in> set ts. tr_id t = i \<longrightarrow> prepared t"
  shows "\<exists>ts'. resetTrack i ts = Some ts' \<and> grows ts ts'"
  using onForwarder_ok [OF chooses_reset assms] by (auto simp: resetTrack_def)

lemma coopTransition_ok:
  assumes "tracks_ok ts" "i \<in> tr_id ` set ts" "\<forall>t \<in> set ts. tr_id t = i \<longrightarrow> prepared t"
  shows "\<exists>ts' tx. coopTransition i ts = Some (ts', tx) \<and> grows ts ts'"
  using onForwarder_ok [OF chooses_coop assms] by (auto simp: coopTransition_def)

text \<open>The part of the allocation of one track that needs bandwidth: fit it in, or take it from other tracks.\<close>

lemma frame_tracks:
  "tracks_ok ts \<Longrightarrow> list_all2 same_track (sa_videoTracks s) ts \<Longrightarrow> frame s (s\<lparr>sa_videoTracks := ts\<rparr>)"
  by (simp add: frame_def)

lemma frame_ok: "frame s x \<Longrightarrow> tracks_ok (sa_videoTracks x)"
  by (simp add: frame_def)

lemma frame_sent [simp]: "frame s (adjustState x) = frame s x" "frame s (maybeSendUpdate u x) = frame s x"
  by (simp_all add: frame_def)

definition readyFor :: "nat \<Rightarrow> ('m, 'b) Track list \<Rightarrow> bool" where
  "readyFor i ts \<longleftrightarrow> tracks_ok ts \<and> i \<in> tr_id ` set ts \<and> (\<forall>t \<in> set ts. tr_id t = i \<longrightarrow> prepared t)"

lemma readyForD: "readyFor i ts \<Longrightarrow> tracks_ok ts" "readyFor i ts \<Longrightarrow> i \<in> tr_id ` set ts"
  "readyFor i ts \<Longrightarrow> \<forall>t \<in> set ts. tr_id t = i \<longrightarrow> prepared t"
  by (simp_all add: readyFor_def)

lemma readyFor_grows: "readyFor i ts \<Longrightarrow> grows ts ts' \<Longrightarrow> readyFor i ts'"
  using growsD(1,3) [of ts ts'] growsD(4) [of ts ts' "{i}"] by (auto simp: readyFor_def)

lemma redistribute_frame:
  assumes "order_ok order" "readyFor i ts" "list_all2 same_track (sa_videoTracks s) ts"
  shows "\<exists>s'. redistribute order i tx (s\<lparr>sa_videoTracks := ts\<rparr>) = Some s' \<and> frame s s'"
proof -
  have "frame s (s\<lparr>sa_videoTracks := ts\<rparr>)" using assms(2,3) by (simp add: frame_def readyFor_def)
  then show ?thesis
    using redistribute_ok [OF assms(1), of "s\<lparr>sa_videoTracks := ts\<rparr>" i tx] assms(2) frame_trans by (auto simp: readyFor_def)
qed

lemma fitOrTake_ok:
  assumes "order_ok order" "readyFor i ts" "list_all2 same_track (sa_videoTracks s) ts"
  shows "\<exists>s'. fitOrTake order i transition ts s = Some s' \<and> frame s s'"
proof -
  obtain c where c: "getAvailableHeadroomWithoutTracks False [i] (s\<lparr>sa_videoTracks := ts\<rparr>) = Some c"
    using readyForD(1) [OF assms(2)] bandwidthOf_total [of "filter (\<lambda>t. tr_id t \<notin> set [i]) ts"]
    by (auto simp: getAvailableHeadroomWithoutTracks_def getExpectedBandwidthUsageWithoutTracks_def tracks_ok_def)
  show ?thesis
  proof (cases "c > 0")
    case False
    then show ?thesis using redistribute_frame [OF assms] c by (simp add: fitOrTake_def)
  next
    case True
    obtain ts1 where r: "resetTrack i ts = Some ts1" "grows ts ts1" using resetTrack_ok readyForD [OF assms(2)] by blast
    note ready1 = readyFor_grows [OF assms(2) r(2)]
    obtain ts2 best where f: "fitLoop c (sa_allowPause s) i allLayers (ts1, InvalidLayer) = Some (ts2, best)" "grows ts1 ts2"
      using fitLoop_ok [OF readyForD [OF ready1] allLayers_box] by blast
    note ready2 = readyFor_grows [OF ready1 f(2)]
    have same2: "list_all2 same_track (sa_videoTracks s) ts2"
      using same_tracks_trans [OF assms(3)] same_tracks_trans growsD(2) [OF r(2)] growsD(2) [OF f(2)] by blast
    show ?thesis
    proof (cases "layer_IsValid best")
      case valid: True
      obtain ts3 u where "(if GreaterThan best (tx_From transition) then commitTrack i (ts2, []) else Some (ts2, [])) = Some (ts3, u)" "grows ts2 ts3"
        using commitTrack_ok [OF readyForD [OF ready2], of "[]"] grows_refl [OF readyForD(1) [OF ready2]]
        by (cases "GreaterThan best (tx_From transition)") (auto simp: commitTrack_def)
      then show ?thesis
        using c True r(1) f(1) valid same_tracks_trans [OF same2] growsD(1,2) [of ts2 ts3] by (simp add: fitOrTake_def frame_tracks)
    next
      case invalid: False
      obtain ts3 where r3: "resetTrack i ts2 = Some ts3" "grows ts2 ts3" using resetTrack_ok readyForD [OF ready2] by blast
      note ready3 = readyFor_grows [OF ready2 r3(2)]
      obtain ts4 tx where r4: "coopTransition i ts3 = Some (ts4, tx)" "grows ts3 ts4" using coopTransition_ok readyForD [OF ready3] by blast
      have "list_all2 same_track (sa_videoTracks s) ts4"
        using same_tracks_trans [OF same2] same_tracks_trans growsD(2) [OF r3(2)] growsD(2) [OF r4(2)] by blast
      then show ?thesis
        using redistribute_frame [OF assms(1) readyFor_grows [OF ready3 r4(2)], of s tx] c True r(1) f(1) invalid r3(1) r4(1)
        by (simp add: fitOrTake_def)
    qed
  qed
qed

lemma allocateTrack_ok:
  fixes s :: "('m, 'b) StreamAllocator"
  assumes "order_ok order" "tracks_ok (sa_videoTracks s)" "i \<in> tr_id ` set (sa_videoTracks s)"
  shows "\<exists>s'. allocateTrack order congestion i s = Some s' \<and> frame s s'"
proof (cases "\<not> sa_enabled s \<or> sa_state s = streamAllocatorStateStable \<and> congestion \<noteq> CongestionStateCongested \<or> \<not> isManagedId (sa_videoTracks s) i")
  case True
  obtain ts u a where "allocTrack i (\<lambda>t. AllocateOptimal (tr_available t) (tr_bitrates t) True (congestion = CongestionStateEarlyWarning) (tr_forwarder t))
      (sa_videoTracks s, []) = Some (ts, u, a)" "tracks_ok ts" "list_all2 same_track (sa_videoTracks s) ts"
    using optimalTrack_ok [OF assms(2,3)] by blast
  then show ?thesis using True by (simp add: allocateTrack_def frame_tracks)
next
  case False
  obtain ts1 where p: "prepareTrack i (sa_videoTracks s) = Some ts1" "grows (sa_videoTracks s) ts1" "\<forall>t \<in> set ts1. tr_id t = i \<longrightarrow> prepared t"
    using prepareTrack_ok [OF assms(2,3)] by blast
  have ready1: "readyFor i ts1" using p(3) growsD(1,3) [OF p(2)] assms(3) by (simp add: readyFor_def)
  obtain ts2 tx where c: "coopTransition i ts1 = Some (ts2, tx)" "grows ts1 ts2" using coopTransition_ok [OF readyForD [OF ready1]] by blast
  note ready2 = readyFor_grows [OF ready1 c(2)]
  have same2: "list_all2 same_track (sa_videoTracks s) ts2" by (rule same_tracks_trans [OF growsD(2) [OF p(2)] growsD(2) [OF c(2)]])
  have eq: "allocateTrack order congestion i s =
      (if GreaterThan (tx_From tx) (tx_To tx) then do {
          (ts, update) \<leftarrow> commitTrack i (ts2, []);
          maybeBoostDeficientTracks order (adjustState (maybeSendUpdate update (s\<lparr>sa_videoTracks := ts\<rparr>)))
        }
        else if tx_From tx = tx_To tx then Some (s\<lparr>sa_videoTracks := ts2\<rparr>)
        else fitOrTake order i tx ts2 s)"
    unfolding allocateTrack_def if_not_P [OF False] p(1) bind.bind_lunit c(1) prod.case ..
  show ?thesis
  proof (cases "GreaterThan (tx_From tx) (tx_To tx)")
    case True
    obtain ts3 u where d: "commitTrack i (ts2, []) = Some (ts3, u)" "grows ts2 ts3"
      using commitTrack_ok [OF readyForD [OF ready2], of "[]"] by (auto simp: commitTrack_def)
    define x where "x = adjustState (maybeSendUpdate u (s\<lparr>sa_videoTracks := ts3\<rparr>))"
    have x: "frame s x" using growsD(1) [OF d(2)] same_tracks_trans [OF same2 growsD(2) [OF d(2)]] by (simp add: x_def frame_tracks)
    then obtain s' where "maybeBoostDeficientTracks order x = Some s'" "frame x s'"
      using maybeBoost_ok [OF assms(1), of x] by (auto simp: frame_def)
    then show ?thesis using True d(1) frame_trans [OF x] by (simp add: eq x_def)
  next
    case down: False
    show ?thesis
    proof (cases "tx_From tx = tx_To tx")
      case True
      then show ?thesis using down readyForD(1) [OF ready2] same2 by (simp add: eq frame_tracks)
    next
      case False
      then show ?thesis using down fitOrTake_ok [OF assms(1) ready2 same2] by (simp add: eq)
    qed
  qed
qed

section \<open>Handlers\<close>

lemma allocateAllTracks_frame:
  assumes "order_ok order" "tracks_ok (sa_videoTracks s)"
  shows "\<exists>s'. allocateAllTracks order s = Some s' \<and> frame s s'"
proof (cases "sa_enabled s")
  case True
  show ?thesis using allocateAll_ok [OF assms True] by (elim exE conjE) (intro exI conjI)
next
  case False
  then show ?thesis using frame_refl [OF assms(2)] by (simp add: allocateAllTracks_def)
qed

lemma optimal_step:
  fixes t :: "('m, 'b) Track"
  assumes "tracks_ok (pre @ t # post)" "track_ok t"
  shows "\<exists>t' s'. allocateHeld (tr_id t) (pre @ t # post, u) = Some (pre @ t' # post, s') \<and> same_track t t' \<and> track_ok t'"
proof -
  let ?g = "\<lambda>t. AllocateOptimal (tr_available t) (tr_bitrates t) True False (tr_forwarder t)"
  obtain f a where f: "?g t = Some (f, a)" "alloc_ok f" "f_kind f = f_kind (tr_forwarder t)" "f_mime f = f_mime (tr_forwarder t)"
    "f_lastAllocation f = a" "0 \<le> va_BandwidthRequested a"
    using AllocateOptimal_ok [of "tr_forwarder t" "tr_bitrates t" "tr_available t" True False] assms(2) by (auto simp: track_ok_def)
  show ?thesis using allocTrack_step [where g = ?g, OF assms f, of u] by (auto simp: allocateHeld_def)
qed

interpretation held: track_loop allocateHeld track_ok "\<lambda>_ _. True" "\<lambda>_ _ _. True"
  by unfold_locales (use optimal_step in auto)

lemma congestion_ok:
  fixes s :: "('m, 'b) StreamAllocator"
  assumes "order_ok order" "tracks_ok (sa_videoTracks s)"
  shows "\<exists>s'. handleSignalCongestionStateChange order fromState toState estimated s = Some s' \<and> frame s s'"
proof -
  let ?hold = "fromState = CongestionStateEarlyWarning \<and> toState = CongestionStateNone \<and> sa_state s = streamAllocatorStateStable"
  have "\<forall>t \<in> set (sa_videoTracks s). track_ok t" using assms(2) by (simp add: tracks_ok_def)
  then obtain ts u where h: "foldM allocateHeld (getTracks order 0 (sa_videoTracks s)) (sa_videoTracks s, []) = Some (ts, u)"
    "tracks_ok ts" "list_all2 same_track (sa_videoTracks s) ts"
    using held.run [OF assms(2) sorted_ids(1) [OF assms], of 0 "[]"] sorted_ids(2) [OF assms, of 0] by (auto dest!: changes_same)
  obtain s1 where s1: "(if ?hold then do {
             (ts, update) \<leftarrow> foldM allocateHeld (getTracks order 0 (sa_videoTracks s)) (sa_videoTracks s, []);
             Some (maybeSendUpdate update (s\<lparr>sa_videoTracks := ts\<rparr>))
           } else Some s) = Some s1" "frame s s1"
    using h frame_tracks [OF h(2,3)] frame_refl [OF assms(2)] by (cases ?hold) auto
  have ok1: "tracks_ok (sa_videoTracks s1)" using s1(2) by (simp add: frame_def)
  have cong: "frame s1 (s1\<lparr>sa_activeProbeCongesting := True\<rparr>)" using frame_refl [OF ok1] by (simp add: frame_def)
  obtain s2 where s2: "allocateAllTracks order (s1\<lparr>sa_committedChannelCapacity := estimated\<rparr>) = Some s2" "frame (s1\<lparr>sa_committedChannelCapacity := estimated\<rparr>) s2"
    using allocateAllTracks_frame [OF assms(1), of "s1\<lparr>sa_committedChannelCapacity := estimated\<rparr>"] ok1 by auto
  have "frame s1 s2" using s2(2) by (simp add: frame_def)
  then show ?thesis
    unfolding handleSignalCongestionStateChange_def s1(1) bind.bind_lunit
    using s2(1) frame_trans [OF s1(2)] cong s1(2) by auto
qed

lemma track_ok_boostAlloc:
  fixes t :: "('m, 'b) Track"
  assumes "track_ok t" "l \<in> set (concat (higherRanges b (tr_forwarder t)))"
  defines "f' \<equiv> fst (updateAllocation (boostAlloc (tr_available t) (tr_bitrates t) l (tr_forwarder t)) (tr_forwarder t))"
  shows "same_track t (t\<lparr>tr_forwarder := f'\<rparr>)" "track_ok (t\<lparr>tr_forwarder := f'\<rparr>)"
proof -
  have ok: "alloc_ok (tr_forwarder t)" "wfBitrates (tr_bitrates t)" using assms(1) by (simp_all add: track_ok_def)
  have box: "inBox l" by (rule higherRanges_box [OF ok(1) assms(2)])
  have "alloc_ok f'" using alloc_ok_update [OF ok(1)] inBox_inRange [OF box] by (simp add: f'_def)
  then show "same_track t (t\<lparr>tr_forwarder := f'\<rparr>)" "track_ok (t\<lparr>tr_forwarder := f'\<rparr>)"
    using assms(1) brAt_box(2) [OF ok(2) box] by (simp_all add: same_track_def track_ok_def h264_flat_def requested_def f'_def)
qed

lemma AllocateNextHigher_ok:
  fixes t :: "('m, 'b) Track"
  assumes "track_ok t"
  shows "\<exists>f' a boosted. AllocateNextHigher c (tr_available t) (tr_bitrates t) b (tr_forwarder t) = Some (f', a, boosted) \<and>
    same_track t (t\<lparr>tr_forwarder := f'\<rparr>) \<and> track_ok (t\<lparr>tr_forwarder := f'\<rparr>)"
proof -
  let ?f = "tr_forwarder t"
  have ok: "alloc_ok ?f" "wfBitrates (tr_bitrates t)" "set (tr_available t) \<subseteq> {0..2}" "f_kind ?f \<noteq> RTPCodecTypeAudio"
    using assms by (simp_all add: track_ok_def)
  show ?thesis
  proof (cases "va_IsDeficient (f_lastAllocation ?f)")
    case False
    then show ?thesis using assms by (auto simp: AllocateNextHigher_def intro: exI [of _ False])
  next
    case True
    show ?thesis
    proof (cases "find (\<lambda>l. br (tr_bitrates t) l \<noteq> 0) (concat (higherRanges b ?f))")
      case None
      then show ?thesis using assms AllocateNextHigher_eq [OF ok True, of c b] by (auto intro: exI [of _ False])
    next
      case (Some l)
      then have "l \<in> set (concat (higherRanges b ?f))" unfolding find_Some_iff by (metis nth_mem)
      then show ?thesis using assms track_ok_boostAlloc [OF assms, of l b] Some AllocateNextHigher_eq [OF ok True, of c b]
        by (cases "\<not> (b \<and> vls_IsOvershootOkay (f_vls ?f)) \<and> br (tr_bitrates t) l - alreadyBr (tr_bitrates t) ?f > c") (auto intro: exI [of _ False] exI [of _ True])
    qed
  qed
qed

lemma mediaPass_ok:
  assumes "tracks_ok ts" "set ids \<subseteq> tr_id ` set ts"
  shows "\<exists>ts' u. mediaPass ids ts = Some (ts', u) \<and> tracks_ok ts' \<and> list_all2 same_track ts ts'"
  using assms
proof (induction ids arbitrary: ts)
  case Nil
  then show ?case by (simp add: list_all2_same)
next
  case (Cons i ids)
  have "i \<in> tr_id ` set ts" using Cons.prems(2) by simp
  then obtain pre t post where t: "ts = pre @ t # post" "tr_id t = i" "track_ok t" using track_split [OF Cons.prems(1)] by metis
  obtain f' a boosted where n: "AllocateNextHigher cChannelCapacityInfinity (tr_available t) (tr_bitrates t) True (tr_forwarder t) = Some (f', a, boosted)"
    "same_track t (t\<lparr>tr_forwarder := f'\<rparr>)" "track_ok (t\<lparr>tr_forwarder := f'\<rparr>)" using AllocateNextHigher_ok [OF t(3)] by blast
  define r where "r = (if boosted then updateStreamStateChange a (t\<lparr>tr_forwarder := f'\<rparr>) [] else (t\<lparr>tr_forwarder := f'\<rparr>, []))"
  have r: "same_track t (fst r)" "track_ok (fst r)"
    using n(2,3) same_track_trans [OF n(2) updateStreamStateChange_sel(2)] by (auto simp: r_def)
  have ok: "tracks_ok (pre @ fst r # post)" "list_all2 same_track ts (pre @ fst r # post)"
    using tracks_ok_replace(1) [OF _ r] Cons.prems(1) t(1) same_tracks_replace [OF r(1)] by auto
  let ?g = "\<lambda>t. do {
         (f, allocation, boosted) \<leftarrow> AllocateNextHigher cChannelCapacityInfinity (tr_available t) (tr_bitrates t) True (tr_forwarder t);
         let t = t\<lparr>tr_forwarder := f\<rparr>;
         let (t, update) = (if boosted then updateStreamStateChange allocation t [] else (t, []));
         Some (t, update, allocation, boosted)
       }"
  have "onTrack i ?g ts = Some (pre @ fst r # post, snd r, a, boosted)"
    using onTrack_at [of pre t post ?g] Cons.prems(1) t n(1) by (simp add: r_def case_prod_beta Let_def)
  moreover have "set ids \<subseteq> tr_id ` set (pre @ fst r # post)" using Cons.prems(2) same_tracks_ids [OF ok(2)] by simp
  ultimately show ?case using Cons.IH [OF ok(1)] ok same_tracks_trans [OF ok(2)] by (cases boosted) fastforce+
qed

lemma findNextHigher_ok:
  assumes "wfBitrates brs" "\<forall>ls \<in> set lss. \<forall>l \<in> set ls. inBox l"
  shows "\<exists>tx av. findNextHigher target brs already lss = Some (tx, av)"
  using assms(2)
proof (induction lss)
  case (Cons ls lss)
  then show ?case using firstLayer_find [OF assms(1), of ls "\<lambda>b. \<not> (b = 0 \<or> b < already)"]
    by (cases "find (\<lambda>l. \<not> (br brs l = 0 \<or> br brs l < already)) ls") auto
qed (auto intro: exI [of _ False])

lemma GetNextHigherTransition_ok:
  assumes "track_ok t"
  shows "\<exists>tx av. GetNextHigherTransition (tr_bitrates t) b (tr_forwarder t) = Some (tx, av)"
proof -
  let ?f = "tr_forwarder t"
  have ok: "alloc_ok ?f" "wfBitrates (tr_bitrates t)" using assms by (simp_all add: track_ok_def)
  have "(if layer_IsValid (f_target ?f) then brAt (tr_bitrates t) (f_target ?f) else Some 0) = Some (alreadyBr (tr_bitrates t) ?f)"
    using brAt_box [OF ok(2)] inRange_valid [OF alloc_okD(4) [OF ok(1)]] by (simp add: alreadyBr_def)
  moreover have "\<forall>ls \<in> set (higherRanges b ?f). \<forall>l \<in> set ls. inBox l" using higherRanges_box [OF ok(1), of _ b] by auto
  ultimately show ?thesis using findNextHigher_ok [OF ok(2)] by (auto simp: GetNextHigherTransition_def)
qed

lemma paddingPass_ok:
  assumes "tracks_ok ts" "set ids \<subseteq> tr_id ` set ts"
  shows "\<exists>r. paddingPass ids ts = Some r"
  using assms(2)
proof (induction ids)
  case (Cons i ids)
  have "i \<in> tr_id ` set ts" using Cons.prems by simp
  then obtain pre t post where t: "ts = pre @ t # post" "tr_id t = i" "track_ok t" using track_split [OF assms(1)] by metis
  obtain tx av where "GetNextHigherTransition (tr_bitrates t) True (tr_forwarder t) = Some (tx, av)" using GetNextHigherTransition_ok [OF t(3)] by blast
  then have "onTrack i (\<lambda>t. do { r \<leftarrow> GetNextHigherTransition (tr_bitrates t) True (tr_forwarder t); Some (t, r) }) ts = Some (ts, tx, av)"
    using onTrack_at [of pre t post "\<lambda>t. do { r \<leftarrow> GetNextHigherTransition (tr_bitrates t) True (tr_forwarder t); Some (t, r) }"] assms(1) t(1,2) by simp
  then show ?case using Cons by auto
qed simp

lemma deficient_ids: "order_ok order \<Longrightarrow> set (getMaxDistanceSortedDeficient order n ts) \<subseteq> tr_id ` set ts"
  using order_ok_set [of order] by (auto simp: getMaxDistanceSortedDeficient_def)

lemma maybeProbe_ok:
  assumes "order_ok order" "tracks_ok (sa_videoTracks s)"
  shows "\<exists>s'. maybeProbe order canProbe s = Some s' \<and> frame s s'"
proof -
  obtain ts u where m: "mediaPass (getMaxDistanceSortedDeficient order 0 (sa_videoTracks s)) (sa_videoTracks s) = Some (ts, u)"
    "tracks_ok ts" "list_all2 same_track (sa_videoTracks s) ts" using mediaPass_ok [OF assms(2) deficient_ids [OF assms(1)]] by blast
  obtain r where p: "paddingPass (getMaxDistanceSortedDeficient order 0 (sa_videoTracks s)) (sa_videoTracks s) = Some r"
    using paddingPass_ok [OF assms(2) deficient_ids [OF assms(1)]] by blast
  note f = frame_refl [OF assms(2)]
  have pad: "\<exists>s'. maybeProbeWithPadding order s = Some s' \<and> frame s s'"
    using f by (auto simp: maybeProbeWithPadding_def p getExpectedBandwidthUsage_total [OF assms(2)] frame_def Let_def split: option.split)
  show ?thesis
  proof (cases "sa_overriddenChannelCapacity s > 0 \<or> \<not> canProbe")
    case True
    then show ?thesis using f by (simp add: maybeProbe_def)
  next
    case False
    then show ?thesis using pad frame_tracks [OF m(2,3)] by (cases "sa_ProbeMode s") (auto simp: maybeProbe_def maybeProbeWithMedia_def m(1))
  qed
qed

lemma ping_ok:
  assumes "order_ok order" "tracks_ok (sa_videoTracks s)"
  shows "\<exists>s'. handleSignalPeriodicPing order v s = Some s' \<and> frame s s'"
proof -
  define s1 where "s1 = (if sa_allowPause s \<and> sa_state s = streamAllocatorStateDeficient \<and> pvw_CongestionState v \<noteq> CongestionStateNone \<and> pvw_pausedLong v
              then s\<lparr>sa_activeProbeClusterId := 0\<rparr> else s)"
  define s2 where "s2 = (if \<not> sa_activeProbeCongesting s1 \<and> \<not> sa_activeProbeGoalReached s1 \<and> pvw_GoalReached v
                  then s1\<lparr>sa_activeProbeGoalReached := True\<rparr> else s1)"
  define s3 where "s3 = s2\<lparr>sa_activeProbeClusterId := 0\<rparr>"
  have f1: "frame s s1" and f2: "frame s s2" and f3: "frame s s3"
    using frame_refl [OF assms(2)] by (simp_all add: s1_def s2_def s3_def frame_def)
  have boost: "\<exists>s'. maybeBoostDeficientTracks order (if c > sa_committedChannelCapacity s3 then s3\<lparr>sa_committedChannelCapacity := c\<rparr> else s3) = Some s' \<and> frame s s'" for c
  proof -
    define x where "x = (if c > sa_committedChannelCapacity s3 then s3\<lparr>sa_committedChannelCapacity := c\<rparr> else s3)"
    have x: "frame s x" using f3 by (simp add: x_def frame_def)
    obtain s' where "maybeBoostDeficientTracks order x = Some s'" "frame x s'" using maybeBoost_ok [OF assms(1) frame_ok [OF x]] by blast
    then show ?thesis using frame_trans [OF x] by (simp add: x_def)
  qed
  have "\<exists>s4. (if sa_activeProbeClusterId s1 \<noteq> 0 then (case pvw_Finalize v of None \<Rightarrow> Some s2
       | Some (signal, c) \<Rightarrow> if signal \<noteq> ProbeSignalCongesting
             then maybeBoostDeficientTracks order (if c > sa_committedChannelCapacity s3 then s3\<lparr>sa_committedChannelCapacity := c\<rparr> else s3)
             else Some s3) else Some s1) = Some s4 \<and> frame s s4"
    using f1 f2 f3 boost by (auto split: option.split)
  then obtain s4 where s4: "(if sa_activeProbeClusterId s1 \<noteq> 0 then (case pvw_Finalize v of None \<Rightarrow> Some s2
       | Some (signal, c) \<Rightarrow> if signal \<noteq> ProbeSignalCongesting
             then maybeBoostDeficientTracks order (if c > sa_committedChannelCapacity s3 then s3\<lparr>sa_committedChannelCapacity := c\<rparr> else s3)
             else Some s3) else Some s1) = Some s4" "frame s s4" by blast
  have "handleSignalPeriodicPing order v s = (if sa_state s4 = streamAllocatorStateDeficient then maybeProbe order (pvw_CanProbe v) s4 else Some s4)"
    unfolding handleSignalPeriodicPing_def Let_def s1_def [symmetric] s2_def [symmetric] s3_def [symmetric] s4(1) bind.bind_lunit ..
  then show ?thesis using maybeProbe_ok [OF assms(1) frame_ok [OF s4(2)], of "pvw_CanProbe v"] frame_trans [OF s4(2)] s4(2) by auto
qed

lemma nack_map: "fst (getNackDelta stats ts) = map (\<lambda>t. fst (GetNackDelta (stats (tr_id t)) t)) ts"
  by (induction ts) (auto simp: Let_def split: prod.splits)

lemma nack_track: "same_track t (fst (GetNackDelta x t))" "track_ok (fst (GetNackDelta x t)) = track_ok t" "tr_id (fst (GetNackDelta x t)) = tr_id t"
  by (simp_all add: GetNackDelta_def same_track_def track_ok_def h264_flat_def requested_def case_prod_beta)

lemma nack_ok: "tracks_ok ts \<Longrightarrow> tracks_ok (fst (getNackDelta stats ts))" "list_all2 same_track ts (fst (getNackDelta stats ts))"
  by (simp_all add: nack_map tracks_ok_def nack_track list_all2_conv_all_nth comp_def)

section \<open>Runs of the allocator\<close>

text \<open>
  What can happen, in any order: the calls of the other goroutines, events from outside, an activity of a down track that leaves its
  forwarder well formed, and the processing of the first event of the queue.
\<close>

inductive sa_step :: "('m, 'b) StreamAllocator \<Rightarrow> ('m, 'b) StreamAllocator \<Rightarrow> bool" where
  add: "track_ok t \<Longrightarrow> \<not> tr_isDirty t \<Longrightarrow> sa_step s (AddTrack t priority s)"
| remove: "sa_step s (RemoveTrack i s)"
| priority: "sa_step s (SetTrackPriority i p s)"
| subscribed: "sa_step s (OnSubscribedLayerChanged i layer s)"
| request: "sa_step s (maybePostEventAllocateTrack i s)"
| remb: "sa_step s (OnREMB i ssrcs bitrate s)"
| post: "sa_step s (postEvent event s)"
| downtrack: "sa_videoTracks s = pre @ t # post \<Longrightarrow> track_ok (t\<lparr>tr_forwarder := f, tr_available := av, tr_bitrates := brs\<rparr>) \<Longrightarrow>
    sa_step s (s\<lparr>sa_videoTracks := pre @ t\<lparr>tr_forwarder := f, tr_available := av, tr_bitrates := brs\<rparr> # post\<rparr>)"
| process: "order_ok order \<Longrightarrow> processEvent order stats v s = Some s' \<Longrightarrow> sa_step s s'"

inductive sa_reachable :: "('m, 'b) StreamAllocator \<Rightarrow> bool" where
  init: "sa_reachable (NewStreamAllocator minCapacity disableUnmanaged probeMode overagePct minBps enabled allowPause)"
| step: "sa_reachable s \<Longrightarrow> sa_step s s' \<Longrightarrow> sa_reachable s'"

text \<open>The invariant: well-formed tracks, and an event in the queue for every request.\<close>

definition requests_queued :: "('m, 'b) StreamAllocator \<Rightarrow> bool" where
  "requests_queued s \<longleftrightarrow> (\<forall>t \<in> set (sa_videoTracks s). tr_isDirty t \<longrightarrow> SignalAllocateTrack (tr_id t) \<in> set (sa_eventsQueue s)) \<and>
     (sa_isAllocateAllPending s \<longrightarrow> SignalAllocateAllTracks \<in> set (sa_eventsQueue s))"

definition sa_inv :: "('m, 'b) StreamAllocator \<Rightarrow> bool" where
  "sa_inv s \<longleftrightarrow> tracks_ok (sa_videoTracks s) \<and> requests_queued s"

lemma frame_requests:
  assumes "frame s s'" "requests_queued s"
  shows "requests_queued s'"
proof -
  have "\<exists>t \<in> set (sa_videoTracks s). same_track t t'" if "t' \<in> set (sa_videoTracks s')" for t'
    using list_all2_right that assms(1) unfolding frame_def by metis
  then show ?thesis using assms unfolding requests_queued_def frame_def same_track_def by metis
qed

lemma track_ok_settings:
  "track_ok (fst (SetPriority p t)) = track_ok t" "track_ok (fst (SetDirty b t)) = track_ok t" "track_ok (fst (tr_SetMaxLayer l t)) = track_ok t"
  "track_ok (fst (SetStreamState x t)) = track_ok t" "track_ok (fst (setMaxLayerDirty l t)) = track_ok t"
  "tr_id (fst (SetPriority p t)) = tr_id t" "tr_id (fst (SetDirty b t)) = tr_id t" "tr_id (fst (tr_SetMaxLayer l t)) = tr_id t"
  "tr_id (fst (SetStreamState x t)) = tr_id t" "tr_id (fst (setMaxLayerDirty l t)) = tr_id t"
  "tr_isDirty (fst (SetPriority p t)) = tr_isDirty t" "tr_isDirty (fst (SetStreamState x t)) = tr_isDirty t"
  "\<not> tr_isDirty (fst (SetDirty False t))"
  by (simp_all add: SetPriority_def SetDirty_def tr_SetMaxLayer_def SetStreamState_def setMaxLayerDirty_def track_ok_def h264_flat_def
      requested_def Let_def)

text \<open>A method of one track: the other tracks stay.\<close>

lemma modifyTrack_cases:
  assumes "tracks_ok (sa_videoTracks s)" "\<And>t. track_ok (fst (g t)) = track_ok t" "\<And>t. tr_id (fst (g t)) = tr_id t"
  obtains "modifyTrack i g s = (s, False)"
  | pre t post where "sa_videoTracks s = pre @ t # post" "tr_id t = i"
      "modifyTrack i g s = (s\<lparr>sa_videoTracks := pre @ fst (g t) # post\<rparr>, snd (g t))" "tracks_ok (pre @ fst (g t) # post)"
proof (cases "i \<in> tr_id ` set (sa_videoTracks s)")
  case True
  obtain pre t post where t: "sa_videoTracks s = pre @ t # post" "tr_id t = i" "track_ok t" using track_split [OF assms(1) True] .
  have "onTrack i (\<lambda>t. Some (g t)) (sa_videoTracks s) = Some (pre @ fst (g t) # post, snd (g t))"
    using onTrack_at [of pre t post "\<lambda>t. Some (g t)"] assms(1) t(1,2) by (simp add: case_prod_beta)
  moreover have "tracks_ok (pre @ fst (g t) # post)" using assms t(1) by (auto simp: tracks_ok_def)
  ultimately show ?thesis using that(2) [OF t(1,2)] by (simp add: modifyTrack_def)
next
  case False
  then have "onTrack i (\<lambda>t. Some (g t)) ts = None" if "set ts \<subseteq> set (sa_videoTracks s)" for ts
    using that by (induction ts) auto
  then show ?thesis using that(1) by (simp add: modifyTrack_def)
qed

lemma resume_frame:
  assumes "tracks_ok (sa_videoTracks s)"
  shows "frame s (handleSignalResume i s)"
proof (cases "i \<in> tr_id ` set (sa_videoTracks s)")
  case True
  obtain pre t post where t: "sa_videoTracks s = pre @ t # post" "tr_id t = i" "track_ok t" using track_split [OF assms True] .
  let ?t = "fst (SetStreamState StreamStateActive t)"
  have same: "same_track t ?t" "track_ok ?t" using t(3) by (simp_all add: track_ok_settings) (simp add: SetStreamState_def same_track_def)
  let ?g = "\<lambda>t. let (t, updated) = SetStreamState StreamStateActive t
                     in Some (t, if updated then HandleStreamingChange t StreamStateActive [] else [])"
  obtain u where "onTrack i ?g (sa_videoTracks s) = Some (pre @ ?t # post, u)"
    using onTrack_at [of pre t post ?g] assms t(1,2) by (simp add: case_prod_beta Let_def)
  then show ?thesis
    using tracks_ok_replace(1) [OF _ same] assms t(1) same_tracks_replace [OF same(1), of pre post] by (simp add: handleSignalResume_def frame_tracks)
next
  case False
  then have "onTrack i g ts = None" if "set ts \<subseteq> set (sa_videoTracks s)" for ts and g :: "('a, 'b) Track \<Rightarrow> (('a, 'b) Track \<times> StreamStateInfo list) option"
    using that by (induction ts) auto
  then show ?thesis using frame_refl [OF assms] by (simp add: handleSignalResume_def)
qed

text \<open>The handlers, apart from the two that answer a request, keep the frame.\<close>

lemma handleEvent_frame:
  assumes "order_ok order" "tracks_ok (sa_videoTracks s)" "\<And>i. event \<noteq> SignalAllocateTrack i" "event \<noteq> SignalAllocateAllTracks"
  shows "\<exists>s'. handleEvent order stats v event s = Some s' \<and> frame s s'"
proof (cases event)
  case (SignalEstimate r)
  let ?ts = "fst (getNackDelta stats (sa_videoTracks s))"
  have ok: "list_all2 same_track (sa_videoTracks s) ?ts" "tracks_ok ?ts"
    using nack_ok(2) nack_ok(1) [OF assms(2), of stats] by simp_all
  then show ?thesis using getExpectedBandwidthUsage_total [of "s\<lparr>sa_videoTracks := ?ts\<rparr>"] frame_tracks [OF ok(2,1)] SignalEstimate
    by (auto simp: handleEvent_def handleSignalEstimate_def case_prod_beta Let_def)
next
  case (SignalSetChannelCapacity c)
  obtain s' where "allocateAllTracks order (s\<lparr>sa_overriddenChannelCapacity := c\<rparr>) = Some s'" "frame (s\<lparr>sa_overriddenChannelCapacity := c\<rparr>) s'"
    using allocateAllTracks_frame [OF assms(1), of "s\<lparr>sa_overriddenChannelCapacity := c\<rparr>"] assms(2) by auto
  then show ?thesis using SignalSetChannelCapacity assms(2) frame_refl [OF assms(2)]
    by (cases "0 < c") (simp_all add: handleEvent_def handleSignalSetChannelCapacity_def frame_def Let_def)
next
  case (SignalResume i)
  then show ?thesis using resume_frame [OF assms(2), of i] by (simp add: handleEvent_def)
next
  case SignalPeriodicPing
  then show ?thesis using ping_ok [OF assms(1,2), of v] by (simp add: handleEvent_def)
next
  case (SignalCongestionStateChange a b c)
  then show ?thesis using congestion_ok [OF assms(1,2), of a b c] by (simp add: handleEvent_def)
qed (use assms(3,4) frame_refl [OF assms(2)] in \<open>simp_all add: handleEvent_def handleSignalAdjustState_def handleSignalProbeClusterSwitch_def
    handleSignalSetAllowPause_def frame_def\<close>)

lemma allocateTrackEvent_ok:
  fixes s :: "('m, 'b) StreamAllocator"
  assumes "order_ok order" "sa_inv s" "sa_eventsQueue s = SignalAllocateTrack i # events"
  shows "\<exists>s'. handleSignalAllocateTrack order c i (s\<lparr>sa_eventsQueue := events\<rparr>) = Some s' \<and> sa_inv s'"
proof -
  define ts where "ts = map (\<lambda>t. if tr_id t = i then fst (SetDirty False t) else t) (sa_videoTracks s)"
  define s0 where "s0 = s\<lparr>sa_eventsQueue := events, sa_videoTracks := ts\<rparr>"
  have ids: "map tr_id ts = map tr_id (sa_videoTracks s)" by (simp add: ts_def track_ok_settings)
  have "\<forall>t \<in> set ts. track_ok t" using assms(2) by (auto simp: sa_inv_def tracks_ok_def ts_def track_ok_settings)
  then have ok: "tracks_ok ts" using assms(2) by (simp add: sa_inv_def tracks_ok_def ids)
  have clean: "\<not> tr_isDirty t" if t: "t \<in> set ts" "tr_id t = i" for t
  proof -
    obtain x where "x \<in> set (sa_videoTracks s)" "t = (if tr_id x = i then fst (SetDirty False x) else x)"
      using t(1) unfolding ts_def set_map by blast
    then show ?thesis using t(2) by (cases "tr_id x = i") (simp_all add: track_ok_settings)
  qed
  have "SignalAllocateTrack (tr_id t) \<in> set events" if "t \<in> set ts" "tr_isDirty t" for t
  proof -
    have i: "tr_id t \<noteq> i" using clean that by blast
    then have "t \<in> set (sa_videoTracks s)" using that(1) by (auto simp: ts_def track_ok_settings split: if_splits)
    then show ?thesis using assms(2,3) that(2) i by (auto simp: sa_inv_def requests_queued_def)
  qed
  then have inv0: "sa_inv s0" using ok assms(2,3) by (auto simp: sa_inv_def s0_def requests_queued_def)
  show ?thesis
  proof (cases "i \<in> tr_id ` set (sa_videoTracks s)")
    case True
    then have "i \<in> tr_id ` set ts" using ids by (metis set_map)
    then obtain s' where "allocateTrack order c i s0 = Some s'" "frame s0 s'" using allocateTrack_ok [OF assms(1), of s0 i c] ok by (auto simp: s0_def)
    then show ?thesis using True frame_requests [of s0 s'] inv0 frame_ok [of s0 s']
      by (auto simp: handleSignalAllocateTrack_def list_ex_iff sa_inv_def s0_def ts_def)
  next
    case False
    then have "ts = sa_videoTracks s" by (auto simp: ts_def intro!: map_idI)
    then show ?thesis using False inv0 by (auto simp: handleSignalAllocateTrack_def list_ex_iff s0_def image_iff)
  qed
qed

lemma allocateAllEvent_ok:
  assumes "order_ok order" "sa_inv s" "sa_eventsQueue s = SignalAllocateAllTracks # events"
  shows "\<exists>s'. handleSignalAllocateAllTracks order (s\<lparr>sa_eventsQueue := events\<rparr>) = Some s' \<and> sa_inv s'"
proof -
  define s0 where "s0 = s\<lparr>sa_eventsQueue := events, sa_isAllocateAllPending := False\<rparr>"
  have inv0: "sa_inv s0" using assms(2,3) by (auto simp: sa_inv_def s0_def requests_queued_def)
  then obtain s' where "allocateAllTracks order s0 = Some s'" "frame s0 s'"
    using allocateAllTracks_frame [OF assms(1), of s0] by (auto simp: sa_inv_def)
  then show ?thesis using frame_requests [of s0 s'] inv0 frame_ok [of s0 s']
    by (cases "sa_state s = streamAllocatorStateDeficient") (auto simp: handleSignalAllocateAllTracks_def sa_inv_def s0_def)
qed

lemma processEvent_ok:
  assumes "order_ok order" "sa_inv s"
  shows "\<exists>s'. processEvent order stats v s = Some s' \<and> sa_inv s'"
proof (cases "sa_eventsQueue s")
  case Nil
  then show ?thesis using assms(2) by (simp add: processEvent_def)
next
  case (Cons event events)
  let ?s = "s\<lparr>sa_eventsQueue := events\<rparr>"
  consider i where "event = SignalAllocateTrack i" | "event = SignalAllocateAllTracks"
    | (other) "\<And>i. event \<noteq> SignalAllocateTrack i" "event \<noteq> SignalAllocateAllTracks" by blast
  then show ?thesis
  proof cases
    case other
    have ok: "tracks_ok (sa_videoTracks ?s)" "requests_queued ?s" using assms(2) Cons other by (auto simp: sa_inv_def requests_queued_def)
    obtain s' where "handleEvent order stats v event ?s = Some s'" "frame ?s s'" using handleEvent_frame [OF assms(1) ok(1) other] by blast
    then show ?thesis using Cons frame_requests [OF _ ok(2)] frame_ok by (auto simp: processEvent_def sa_inv_def)
  qed (use allocateTrackEvent_ok [OF assms] allocateAllEvent_ok [OF assms] Cons in \<open>auto simp: processEvent_def handleEvent_def\<close>)
qed

text \<open>The calls of the other goroutines.\<close>

lemma request_inv:
  assumes "tracks_ok (sa_videoTracks s)" "\<forall>t \<in> set (sa_videoTracks s). tr_isDirty t \<longrightarrow> SignalAllocateTrack (tr_id t) \<in> set (sa_eventsQueue s)"
    "sa_isAllocateAllPending s \<longrightarrow> SignalAllocateAllTracks \<in> set (sa_eventsQueue s)"
    "\<And>t. track_ok (fst (g t)) = track_ok t" "\<And>t. tr_id (fst (g t)) = tr_id t" "\<And>t. tr_isDirty (fst (g t)) \<longrightarrow> snd (g t) \<or> tr_isDirty t"
  shows "sa_inv (let (s, shouldPost) = modifyTrack i g s in if shouldPost then postEvent (SignalAllocateTrack i) s else s)"
  using assms(1,4,5)
proof (cases rule: modifyTrack_cases [where i = i])
  case 1
  then show ?thesis using assms(1-3) by (simp add: sa_inv_def requests_queued_def)
next
  case (2 pre t post)
  then show ?thesis using assms(2,3,5,6) by (auto simp: sa_inv_def requests_queued_def postEvent_def)
qed

lemma flagged:
  "tr_isDirty (fst (SetDirty True t)) \<Longrightarrow> \<not> snd (SetDirty True t) \<Longrightarrow> tr_isDirty t"
  "tr_isDirty (fst (setMaxLayerDirty l t)) \<Longrightarrow> \<not> snd (setMaxLayerDirty l t) \<Longrightarrow> tr_isDirty t"
  by (auto simp: setMaxLayerDirty_def tr_SetMaxLayer_def SetDirty_def split: if_splits)

lemma priority_inv:
  assumes "sa_inv s"
  shows "sa_inv (SetTrackPriority i p s)"
proof -
  have ok: "tracks_ok (sa_videoTracks s)" using assms by (simp add: sa_inv_def)
  show ?thesis
    using ok track_ok_settings(1) [of p] track_ok_settings(6) [of p]
  proof (cases rule: modifyTrack_cases [where i = i])
    case 1
    then show ?thesis using assms by (simp add: SetTrackPriority_def)
  next
    case (2 pre t post)
    then show ?thesis using assms
      by (auto simp: SetTrackPriority_def sa_inv_def requests_queued_def postEvent_def track_ok_settings)
  qed
qed

lemma add_inv:
  assumes "sa_inv s" "track_ok t" "\<not> tr_isDirty t"
  shows "sa_inv (AddTrack t priority s)"
proof (cases "f_kind (tr_forwarder t) = RTPCodecTypeVideo")
  case True
  define t1 where "t1 = fst (SetPriority priority t)"
  define s1 where "s1 = s\<lparr>sa_videoTracks := filter (\<lambda>x. tr_id x \<noteq> tr_id t1) (sa_videoTracks s) @ [t1]\<rparr>"
  have "track_ok t1" "\<not> tr_isDirty t1" using assms(2,3) by (simp_all add: t1_def track_ok_settings)
  then have "tracks_ok (sa_videoTracks s1)" "requests_queued s1"
    using assms(1) by (auto simp: s1_def sa_inv_def tracks_ok_def requests_queued_def distinct_map_filter)
  then have "sa_inv (maybePostEventAllocateTrack (tr_id t1) s1)"
    unfolding maybePostEventAllocateTrack_def requests_queued_def
    by (intro request_inv) (use flagged in \<open>auto simp: track_ok_settings\<close>)
  then show ?thesis using True by (simp add: AddTrack_def t1_def s1_def Let_def)
qed (use assms(1) in \<open>simp add: AddTrack_def\<close>)

lemma sa_step_inv:
  assumes "sa_step s s'" "sa_inv s"
  shows "sa_inv s'"
  using assms
proof cases
  case (process order stats v)
  then show ?thesis using processEvent_ok [OF process(1) assms(2), of stats v] by simp
next
  case (downtrack pre t post f av brs)
  then show ?thesis using assms(2) by (auto simp: sa_inv_def tracks_ok_def requests_queued_def)
next
  case (remb i ssrcs bitrate)
  have "sa_videoTracks s' = sa_videoTracks s" "sa_isAllocateAllPending s' = sa_isAllocateAllPending s"
    "set (sa_eventsQueue s) \<subseteq> set (sa_eventsQueue s')"
    by (auto simp: remb OnREMB_def postEvent_def case_prod_beta Let_def)
  then show ?thesis using assms(2) by (auto simp: sa_inv_def requests_queued_def)
next
  case (subscribed i layer)
  then show ?thesis using assms(2) unfolding subscribed OnSubscribedLayerChanged_def sa_inv_def requests_queued_def
    by (intro request_inv [unfolded sa_inv_def requests_queued_def]) (use flagged in \<open>auto simp: track_ok_settings\<close>)
next
  case (request i)
  then show ?thesis using assms(2) unfolding request maybePostEventAllocateTrack_def sa_inv_def requests_queued_def
    by (intro request_inv [unfolded sa_inv_def requests_queued_def]) (use flagged in \<open>auto simp: track_ok_settings\<close>)
next
  case (add t priority)
  then show ?thesis using assms(2) add_inv by blast
next
  case (priority i p)
  then show ?thesis using assms(2) priority_inv by blast
qed (use assms(2) in \<open>auto simp: RemoveTrack_def postEvent_def sa_inv_def tracks_ok_def requests_queued_def distinct_map_filter\<close>)

lemma sa_reachable_inv: "sa_reachable s \<Longrightarrow> sa_inv s"
proof (induction rule: sa_reachable.induct)
  case (init minCapacity disableUnmanaged probeMode overagePct minBps enabled allowPause)
  show ?case by (simp add: sa_inv_def NewStreamAllocator_def tracks_ok_def requests_queued_def)
qed (rule sa_step_inv)

text \<open>
  C12: the stream allocator never panics. In every run of the allocator, whatever the other goroutines call, whatever the down tracks do to
  their forwarders, and whatever the estimator answers, the tracks stay well formed and the handler of the next event returns, in
  whichever order Go visits the tracks.
\<close>

theorem allocator_never_panics:
  assumes "sa_reachable s" "order_ok order"
  shows "tracks_ok (sa_videoTracks s) \<and> (\<exists>s'. processEvent order stats v s = Some s' \<and> sa_reachable s')"
proof -
  have inv: "sa_inv s" by (rule sa_reachable_inv [OF assms(1)])
  obtain s' where "processEvent order stats v s = Some s'" using processEvent_ok [OF assms(2) inv] by blast
  then show ?thesis using inv sa_reachable.step [OF assms(1) sa_step.process [OF assms(2)]] by (auto simp: sa_inv_def)
qed

text \<open>
  C15: a request for an allocation is never lost. In every run, a track that is marked dirty has its event in the queue, and so has a
  pending request to allocate all tracks, although further requests for the same track are not posted while it is marked.
\<close>

theorem requests_never_lost:
  assumes "sa_reachable s"
  shows "(\<forall>t \<in> set (sa_videoTracks s). tr_isDirty t \<longrightarrow> SignalAllocateTrack (tr_id t) \<in> set (sa_eventsQueue s)) \<and>
    (sa_isAllocateAllPending s \<longrightarrow> SignalAllocateAllTracks \<in> set (sa_eventsQueue s))"
  using sa_reachable_inv [OF assms] by (simp add: sa_inv_def requests_queued_def)

section \<open>A concrete run\<close>

text \<open>A camera track is added to a new allocator; its allocation is in the queue.\<close>

definition demoRun :: "(unit, unit) StreamAllocator" where
  "demoRun = AddTrack (demoTrack 1 TrackSource_CAMERA) 0 (NewStreamAllocator 0 False ProbeModePadding 120 200000 True True)"

lemma demoRun_reachable: "sa_reachable demoRun"
  unfolding demoRun_def
  by (rule sa_reachable.step [OF sa_reachable.init], rule sa_step.add [OF demoTrack_ok(1)]) (simp add: demoTrack_def)

definition demoView :: PingView where
  "demoView = \<lparr>pvw_CongestionState = CongestionStateNone, pvw_pausedLong = False, pvw_GoalReached = False, pvw_Finalize = None, pvw_CanProbe = True\<rparr>"

lemma allocator_never_panics_witness:
  "\<exists>s'. sa_eventsQueue demoRun = [SignalAllocateTrack 1] \<and> processEvent (\<lambda>n lt ts. ts) (\<lambda>_. (0, 0)) demoView demoRun = Some s' \<and> sa_reachable s'"
proof -
  have "sa_eventsQueue demoRun = [SignalAllocateTrack 1]" by code_simp
  then show ?thesis using allocator_never_panics [OF demoRun_reachable demoAllocator_ok(1)] by blast
qed

lemma requests_never_lost_witness:
  "(\<exists>t \<in> set (sa_videoTracks demoRun). tr_isDirty t) \<and> SignalAllocateTrack 1 \<in> set (sa_eventsQueue demoRun)"
proof -
  have "map (\<lambda>t. (tr_id t, tr_isDirty t)) (sa_videoTracks demoRun) = [(1, True)]" by code_simp
  then obtain t where "sa_videoTracks demoRun = [t]" "tr_id t = 1" "tr_isDirty t" by auto
  then show ?thesis using requests_never_lost [OF demoRun_reachable] by simp
qed

end
