(* ===== verification/Forwarder_Translate.thy ===== *)
theory Forwarder_Translate
  imports Forwarder "HOL-Library.Signed_Division"
begin

text \<open>
  The translation of packets by the forwarder of a down track (\<^verbatim>\<open>forwarder.go\<close>): the parameters of every incoming packet,
  the timestamp chosen when the source of the feed changes, padding and blank frames, and the state that follows a
  participant to another node.

  A method returns an \<open>option\<close>, where \<open>None\<close> is a run-time panic, and a state with a result inside; an error returned by the
  code is a value of \<open>forwarderErr\<close>. The clock, the random numbers, the statistics of the down track and the two conversions of
  the transport utility libraries (NTP time stamps to wall clock time, durations to RTP ticks) are in \<open>FwdEnv\<close>.
\<close>

section \<open>Data\<close>

datatype forwarderErr =
    errSkipStartOnOutOfOrderPacket | errSwitchPointTooFarBehind | errUnknownKind
  | errInvalidLayers int int | errUnavailableLayerRef int int | errUnavailableLayerTarget int int
  | errMunger mungerErr | errCodec codecMungerErr

record TranslationParams =
  tp_shouldDrop :: bool
  tp_isResuming :: bool
  tp_isSwitching :: bool
  tp_rtp :: TranslationParamsRTP
  tp_ddBytes :: bytes
  tp_incomingHeaderSize :: int
  tp_codecBytes :: bytes
  tp_marker :: bool

definition zeroParams :: TranslationParams where
  "zeroParams = \<lparr>tp_shouldDrop = False, tp_isResuming = False, tp_isSwitching = False,
     tp_rtp = tp_only SequenceNumberOrderingContiguous, tp_ddBytes = [], tp_incomingHeaderSize = 0, tp_codecBytes = [],
     tp_marker = False\<rparr>"

text \<open>The fields of the down track's statistics that give the expected timestamp. Times are in nanoseconds.\<close>

record SenderStats =
  rs_firstTime :: int
  rs_clockRate :: u32
  rs_extStartTS :: u64

record FwdEnv =
  env_now :: int
  env_ntpTime :: "u64 \<Rightarrow> int"
  env_toRTPExt :: "int \<Rightarrow> u64"
  env_rtpStats :: "SenderStats option"

text \<open>The difference of two times is a \<^verbatim>\<open>time.Duration\<close>, which saturates.\<close>

definition timeSub :: "int \<Rightarrow> int \<Rightarrow> int" where
  "timeSub t u = max (- (2 ^ 63)) (min (2 ^ 63 - 1) (t - u))"

text \<open>\<^verbatim>\<open>d.Nanoseconds() * int64(clockRate) / 1e9\<close>: the product wraps, the quotient is truncated.\<close>

definition rtpTicks :: "int \<Rightarrow> u32 \<Rightarrow> u64" where
  "rtpTicks ns clockRate = word_of_int (signed_take_bit 63 (ns * uint clockRate) sdiv 1000000000)"

definition GetExpectedRTPTimestamp :: "FwdEnv \<Rightarrow> SenderStats \<Rightarrow> u64 option" where
  "GetExpectedRTPTimestamp env r =
     (if rs_firstTime r = 0 \<or> rs_clockRate r = 0 then None
      else Some (rs_extStartTS r + env_toRTPExt env (timeSub (env_now env) (rs_firstTime r))))"

section \<open>Selector and codec munger interfaces\<close>

fun vls_Select :: "ExtPacket \<Rightarrow> int \<Rightarrow> VideoLayerSelector \<Rightarrow> (VideoLayerSelector \<times> VideoLayerSelectorResult) option" where
  "vls_Select extPkt layer (VlsNull b) = Some (map_prod VlsNull id (base_Select extPkt layer b))"
| "vls_Select extPkt layer (VlsSimulcast b) = Some (map_prod VlsSimulcast id (simulcast_Select extPkt layer b))"
| "vls_Select extPkt layer (VlsVP9 b) = Some (map_prod VlsVP9 id (vp9_Select extPkt b))"
| "vls_Select extPkt layer (VlsDD d) = (case dds_Select extPkt d of Inl _ \<Rightarrow> None | Inr r \<Rightarrow> Some (map_prod VlsDD id r))"

fun vls_Rollback :: "VideoLayerSelector \<Rightarrow> VideoLayerSelector" where
  "vls_Rollback (VlsDD d) = VlsDD (dds_Rollback d)"
| "vls_Rollback v = vls_onBase Rollback v"

definition vls_SelectTemporal :: "ExtPacket \<Rightarrow> VideoLayerSelector \<Rightarrow> VideoLayerSelector \<times> int" where
  "vls_SelectTemporal extPkt v =
     (vls_onBase (\<lambda>b. fst (SelectTemporal extPkt b)) v, snd (SelectTemporal extPkt (vls_base v)))"

fun cm_GetState :: "('m, 'b) CodecMunger \<Rightarrow> VP8MungerState option" where
  "cm_GetState (MungerNull n) = None"
| "cm_GetState (MungerVP8 v) = Some (vp8_GetState v)"

fun cm_SeedState :: "VP8MungerState option \<Rightarrow> ('m, 'b) CodecMunger \<Rightarrow> ('m, 'b) CodecMunger" where
  "cm_SeedState seed (MungerNull n) = MungerNull (null_SeedState n seed)"
| "cm_SeedState seed (MungerVP8 v) = MungerVP8 (vp8_SeedState v seed)"

fun cm_SetLast :: "ExtPacket \<Rightarrow> ('m, 'b) CodecMunger \<Rightarrow> ('m, 'b) CodecMunger" where
  "cm_SetLast extPkt (MungerNull n) = MungerNull n"
| "cm_SetLast extPkt (MungerVP8 v) = MungerVP8 (vp8_SetLast v extPkt)"

fun cm_UpdateOffsets :: "('m, int) OrderedMapOps \<Rightarrow> ('b, bool) OrderedMapOps \<Rightarrow> ExtPacket \<Rightarrow>
    ('m, 'b) CodecMunger \<Rightarrow> ('m, 'b) CodecMunger" where
  "cm_UpdateOffsets mo bo extPkt (MungerNull n) = MungerNull n"
| "cm_UpdateOffsets mo bo extPkt (MungerVP8 v) = MungerVP8 (vp8_UpdateOffsets mo bo v extPkt)"

fun cm_UpdateAndGet :: "('m, int) OrderedMapOps \<Rightarrow> ('b, bool) OrderedMapOps \<Rightarrow> ExtPacket \<Rightarrow> bool \<Rightarrow> bool \<Rightarrow> int \<Rightarrow>
    ('m, 'b) CodecMunger \<Rightarrow> ('m, 'b) CodecMunger \<times> (codecMungerErr + (int \<times> bytes))" where
  "cm_UpdateAndGet mo bo extPkt snOutOfOrder snHasGap maxTemporal (MungerNull n) =
     (MungerNull n, null_UpdateAndGet n extPkt snOutOfOrder snHasGap maxTemporal)"
| "cm_UpdateAndGet mo bo extPkt snOutOfOrder snHasGap maxTemporal (MungerVP8 v) =
     map_prod MungerVP8 id (vp8_UpdateAndGet mo bo v extPkt snOutOfOrder snHasGap maxTemporal)"

fun cm_UpdateAndGetPadding :: "bool \<Rightarrow> ('m, 'b) CodecMunger \<Rightarrow> ('m, 'b) CodecMunger \<times> (vp8Err + bytes)" where
  "cm_UpdateAndGetPadding newPicture (MungerNull n) = (MungerNull n, Inr [])"
| "cm_UpdateAndGetPadding newPicture (MungerVP8 v) = map_prod MungerVP8 id (vp8_UpdateAndGetPadding v newPicture)"

section \<open>Moving to another node\<close>

text \<open>The message; a start time of zero stands for none.\<close>

record RTPForwarderState =
  fs_Started :: bool
  fs_ReferenceLayerSpatial :: int
  fs_PreStartTime :: int
  fs_ExtFirstTimestamp :: u64
  fs_DummyStartTimestampOffset :: u64
  fs_RtpMunger :: RTPMungerState
  fs_CodecMunger :: "VP8MungerState option"
  fs_SenderReportState :: "RTCPSenderReportState option list"

definition fwd_GetState :: "('m, 'b) Forwarder \<Rightarrow> RTPForwarderState option" where
  "fwd_GetState f =
     (if \<not> f_started f then None
      else Some \<lparr>fs_Started = f_started f, fs_ReferenceLayerSpatial = f_referenceLayerSpatial f,
             fs_PreStartTime = (case f_preStartTime f of None \<Rightarrow> 0 | Some t \<Rightarrow> t),
             fs_ExtFirstTimestamp = f_extFirstTS f, fs_DummyStartTimestampOffset = f_dummyStartTSOffset f,
             fs_RtpMunger = GetState (f_rtpMunger f), fs_CodecMunger = cm_GetState (f_codecMunger f),
             fs_SenderReportState = map ri_senderReport (f_refInfos f)\<rparr>)"

definition seedRefInfo :: "RTCPSenderReportState option \<Rightarrow> refInfo" where
  "seedRefInfo sr =
     (case sr of None \<Rightarrow> noRefInfo
      | Some s \<Rightarrow> if sr_NtpTimestamp s \<noteq> 0 then noRefInfo\<lparr>ri_senderReport := Some s\<rparr> else noRefInfo)"

text \<open>More reports than layers are an index out of range.\<close>

definition fwd_SeedState :: "RTPForwarderState option \<Rightarrow> ('m, 'b) Forwarder \<Rightarrow> ('m, 'b) Forwarder option" where
  "fwd_SeedState state f =
     (case state of None \<Rightarrow> Some f
      | Some s \<Rightarrow>
        if \<not> fs_Started s then Some f
        else if length (fs_SenderReportState s) > length (f_refInfos f) then None
        else
          let reports = map seedRefInfo (fs_SenderReportState s);
              f = f\<lparr>f_refInfos := reports @ drop (length reports) (f_refInfos f)\<rparr>;
              f = f\<lparr>f_rtpMunger := SeedState (f_rtpMunger f) (fs_RtpMunger s),
                    f_codecMunger := cm_SeedState (fs_CodecMunger s) (f_codecMunger f),
                    f_started := True, f_referenceLayerSpatial := fs_ReferenceLayerSpatial s\<rparr>;
              f = (if fs_PreStartTime s \<noteq> 0 then f\<lparr>f_preStartTime := Some (fs_PreStartTime s)\<rparr> else f)
          in Some (f\<lparr>f_extFirstTS := fs_ExtFirstTimestamp s, f_dummyStartTSOffset := fs_DummyStartTimestampOffset s\<rparr>))"

section \<open>Sender reports\<close>

definition refInfoAt :: "('m, 'b) Forwarder \<Rightarrow> int \<Rightarrow> refInfo option" where
  "refInfoAt f layer =
     (if 0 \<le> layer \<and> nat layer < length (f_refInfos f) then Some (f_refInfos f ! nat layer) else None)"

definition GetMaxSubscribedSpatial :: "('m, 'b) Forwarder \<Rightarrow> int option" where
  "GetMaxSubscribedSpatial f =
     (if f_muted f then Some InvalidLayerSpatial
      else
        let layer = max (Spatial (f_max f)) (Spatial (f_current f)) in
        if f_referenceLayerSpatial f \<noteq> InvalidLayerSpatial \<and> layer < f_referenceLayerSpatial f
        then do {
          ri \<leftarrow> refInfoAt f (f_referenceLayerSpatial f);
          Some (if ri_senderReport ri = None then f_referenceLayerSpatial f else layer)
        }
        else Some layer)"

definition getRefLayer :: "('m, 'b) Forwarder \<Rightarrow> int \<times> int" where
  "getRefLayer f =
     (if f_lastSSRC f = 0 then (InvalidLayerSpatial, InvalidLayerSpatial)
      else if f_kind f = RTPCodecTypeAudio then (0, 0)
      else
        let currentLayerSpatial = Spatial (f_current f) in
        if currentLayerSpatial < 0 \<or> currentLayerSpatial > DefaultMaxLayerSpatial then (InvalidLayerSpatial, InvalidLayerSpatial)
        else if f_refVideoLayerMode f = VideoLayer_MULTIPLE_SPATIAL_LAYERS_PER_STREAM then (0, currentLayerSpatial)
        else (currentLayerSpatial, currentLayerSpatial))"

definition SetRefSenderReport :: "int \<Rightarrow> RTCPSenderReportState \<Rightarrow> ('m, 'b) Forwarder \<Rightarrow> ('m, 'b) Forwarder" where
  "SetRefSenderReport layer srData f =
     (if 0 \<le> layer \<and> nat layer < length (f_refInfos f) then
        let ri = noRefInfo\<lparr>ri_senderReport := Some srData\<rparr>;
            refLayer = fst (getRefLayer f);
            ri = (if layer = refLayer \<and> sr_RtpTimestampExt srData \<ge> f_lastSwitchExtIncomingTS f
                  then ri\<lparr>ri_tsOffset := GetTSOffset (f_rtpMunger f), ri_isTSOffsetValid := True\<rparr> else ri)
        in f\<lparr>f_refInfos := (f_refInfos f)[nat layer := ri]\<rparr>
      else f)"

definition GetSenderReportParams :: "('m, 'b) Forwarder \<Rightarrow> (int \<times> bool \<times> u64 \<times> RTCPSenderReportState option) option" where
  "GetSenderReportParams f =
     (let (refLayer, currentLayerSpatial) = getRefLayer f;
          none = (InvalidLayerSpatial, False, 0, None) in
      if refLayer = InvalidLayerSpatial then Some none
      else do {
        ri \<leftarrow> refInfoAt f refLayer;
        Some (if ri_senderReport ri = None \<or> \<not> ri_isTSOffsetValid ri then none
              else (currentLayerSpatial, f_refVideoLayerMode f = VideoLayer_MULTIPLE_SPATIAL_LAYERS_PER_STREAM,
                    ri_tsOffset ri, ri_senderReport ri))
      })"

section \<open>Retransmissions\<close>

definition FlagFilterRTX :: bool where "FlagFilterRTX = False"
definition FlagFilterRTXLayers :: bool where "FlagFilterRTXLayers = True"
definition FlagPauseOnDowngrade :: bool where "FlagPauseOnDowngrade = True"

definition FilterRTX :: "u16 list \<Rightarrow> ('m, 'b) Forwarder \<Rightarrow> u16 list \<times> bool list" where
  "FilterRTX nacks f =
     (if \<not> FlagFilterRTX then nacks else munger_FilterRTX (f_rtpMunger f) nacks,
      map (\<lambda>layer. FlagFilterRTXLayers \<and> va_IsDeficient (f_lastAllocation f) \<and>
             (Spatial (f_target f) < Spatial (f_current f) \<or> layer > Spatial (f_current f)))
        [0..DefaultMaxLayerSpatial])"

section \<open>Source switch\<close>

text \<open>The bounds check admits the length of the array; such an index panics when the entry is read.\<close>

definition getRefLayerRTPTimestamp :: "FwdEnv \<Rightarrow> u32 \<Rightarrow> int \<Rightarrow> int \<Rightarrow> ('m, 'b) Forwarder \<Rightarrow> (forwarderErr + u32) option" where
  "getRefLayerRTPTimestamp env ts refLayer tgtLayer f =
     (if refLayer < 0 \<or> refLayer > int (length (f_refInfos f)) \<or> tgtLayer < 0 \<or> tgtLayer > int (length (f_refInfos f))
      then Some (Inl (errInvalidLayers refLayer tgtLayer))
      else if refLayer = tgtLayer \<or> f_refVideoLayerMode f = VideoLayer_MULTIPLE_SPATIAL_LAYERS_PER_STREAM
      then Some (Inr ts)
      else do {
        riRef \<leftarrow> refInfoAt f refLayer;
        riTarget \<leftarrow> refInfoAt f tgtLayer;
        Some (case ri_senderReport riRef of None \<Rightarrow> Inl (errUnavailableLayerRef refLayer tgtLayer)
          | Some srRef \<Rightarrow>
            if sr_NtpTimestamp srRef = 0 then Inl (errUnavailableLayerRef refLayer tgtLayer)
            else (case ri_senderReport riTarget of None \<Rightarrow> Inl (errUnavailableLayerTarget refLayer tgtLayer)
            | Some srTarget \<Rightarrow>
              if sr_NtpTimestamp srTarget = 0 then Inl (errUnavailableLayerTarget refLayer tgtLayer)
              else
                let ntpDiff = timeSub (env_ntpTime env (sr_NtpTimestamp srRef)) (env_ntpTime env (sr_NtpTimestamp srTarget));
                    rtpDiff = rtpTicks ntpDiff (f_clockRate f);
                    normalizedOtherTS = sr_RtpTimestamp srTarget + ucast rtpDiff;
                    offset = sr_RtpTimestamp srRef - normalizedOtherTS
                in Inr (ts + offset)))
      })"

text \<open>The reference timestamp, extended to lie within half the range of the last one.\<close>

definition extendRefTS :: "u64 \<Rightarrow> u32 \<Rightarrow> u64 \<Rightarrow> u64" where
  "extendRefTS extLast refTS dummyStartTSOffset =
     (let extRefTS = (extLast AND 0xFFFFFFFF00000000) + ucast refTS + dummyStartTSOffset;
          lastTS = ucast extLast :: u32;
          refTS = ucast extRefTS :: u32;
          extRefTS = (if refTS - lastTS < 0x80000000 \<and> refTS < lastTS then extRefTS + 0x100000000 else extRefTS)
      in if lastTS - refTS < 0x80000000 \<and> lastTS < refTS \<and> extRefTS \<ge> 0x100000000
         then extRefTS - 0x100000000 else extRefTS)"

text \<open>The expected timestamp, and the reference timestamp after the offset of a dummy start is known: \<open>(f, expected, reference)\<close>.\<close>

definition expectedTS :: "FwdEnv \<Rightarrow> u64 \<Rightarrow> u64 \<Rightarrow> ('m, 'b) Forwarder \<Rightarrow> ('m, 'b) Forwarder \<times> u64 \<times> u64" where
  "expectedTS env extLast extRefTS f =
     (let refTS = ucast extRefTS :: u32 in
      case env_rtpStats env of None \<Rightarrow> (f, extLast, extRefTS)
      | Some stats \<Rightarrow>
        case GetExpectedRTPTimestamp env stats of
          Some tsExt \<Rightarrow>
            if f_lastReferencePayloadType f = - 1
            then (f\<lparr>f_dummyStartTSOffset := tsExt - ucast refTS\<rparr>, tsExt, tsExt)
            else (f, tsExt, extRefTS)
        | None \<Rightarrow>
          case f_preStartTime f of None \<Rightarrow> (f, extLast, extRefTS)
          | Some t \<Rightarrow>
            let extExpectedTS = f_extFirstTS f + rtpTicks (timeSub (env_now env) t) (f_clockRate f) in
            if f_dummyStartTSOffset f = 0
            then (f\<lparr>f_dummyStartTSOffset := extExpectedTS - ucast refTS\<rparr>, extExpectedTS, extExpectedTS)
            else (f, extExpectedTS, extRefTS))"

definition diffSeconds :: "u64 \<Rightarrow> u64 \<Rightarrow> u32 \<Rightarrow> goFloat" where
  "diffSeconds a b clockRate = floatDiv 53 (sint (a - b)) (uint clockRate)"

text \<open>The timestamp of the first packet after the switch.\<close>

definition resumeTS :: "u64 \<Rightarrow> u64 \<Rightarrow> ('m, 'b) Forwarder \<Rightarrow> u64" where
  "resumeTS extExpectedTS extRefTS f =
     (let diff = diffSeconds extExpectedTS extRefTS (f_clockRate f) in
      if floatGe diff 0 then
        if f_resumeBehindThreshold f > 0 \<and> floatGt diff (f_resumeBehindThreshold f) then extExpectedTS
        else if floatGt diff ResumeBehindHighThresholdSeconds then extExpectedTS
        else extRefTS
      else extRefTS)"

definition layerSwitchTS :: "u64 \<Rightarrow> u64 \<Rightarrow> u32 \<Rightarrow> forwarderErr + u64" where
  "layerSwitchTS extRefTS extLast clockRate =
     (let diff = diffSeconds extRefTS extLast clockRate in
      if floatLt diff 0 then
        if floatGt (floatAbs diff) LayerSwitchBehindThresholdSeconds then Inl errSwitchPointTooFarBehind
        else Inr (extLast + 1)
      else Inr extRefTS)"

definition nextTS :: "u64 \<Rightarrow> u64 \<Rightarrow> u64 \<Rightarrow> ('m, 'b) Forwarder \<Rightarrow> ('m, 'b) Forwarder \<times> (forwarderErr + u64)" where
  "nextTS extExpectedTS extRefTS extLast f =
     (if f_lastSSRC f = 0
      then (f\<lparr>f_resumeBehindThreshold := 0\<rparr>, Inr (resumeTS extExpectedTS extRefTS f))
      else (f, layerSwitchTS extRefTS extLast (f_clockRate f)))"

text \<open>The offsets for the first packet of the new source, whose timestamp on the reference layer is \<open>refTS\<close>.\<close>

definition switchOffsets :: "('m, int) OrderedMapOps \<Rightarrow> ('b, bool) OrderedMapOps \<Rightarrow> FwdEnv \<Rightarrow> ExtPacket \<Rightarrow> u32 \<Rightarrow>
    ('m, 'b) Forwarder \<Rightarrow> ('m, 'b) Forwarder \<times> forwarderErr option" where
  "switchOffsets mo bo env extPkt refTS f =
     (let extLast = st_ExtLastTimestamp (GetState (f_rtpMunger f));
          extRefTS = extendRefTS extLast refTS (f_dummyStartTSOffset f);
          (f, extExpectedTS, extRefTS) = expectedTS env extLast extRefTS f in
      case nextTS extExpectedTS extRefTS extLast f of
        (f, Inl e) \<Rightarrow> (f, Some e)
      | (f, Inr extNextTS) \<Rightarrow>
        let extNextTS = (if sint (extNextTS - extLast) \<le> 0 then extLast + 1 else extNextTS)
        in (f\<lparr>f_rtpMunger := UpdateSnTsOffsets (f_rtpMunger f) extPkt 1 (extNextTS - extLast),
              f_codecMunger := cm_UpdateOffsets mo bo extPkt (f_codecMunger f)\<rparr>, None))"

text \<open>The switch of a forwarder that has a reference layer.\<close>

definition switchSource :: "('m, int) OrderedMapOps \<Rightarrow> ('b, bool) OrderedMapOps \<Rightarrow> FwdEnv \<Rightarrow> ExtPacket \<Rightarrow> int \<Rightarrow>
    ('m, 'b) Forwarder \<Rightarrow> (('m, 'b) Forwarder \<times> forwarderErr option) option" where
  "switchSource mo bo env extPkt layer f = do {
     ref \<leftarrow> (if f_skipReferenceTS f then Some (Inr (ucast (st_ExtLastTimestamp (GetState (f_rtpMunger f)))))
             else getRefLayerRTPTimestamp env (rtp_Timestamp (ep_Packet extPkt)) (f_referenceLayerSpatial f) layer f);
     Some (case ref of Inl e \<Rightarrow> (f, Some e) | Inr refTS \<Rightarrow> switchOffsets mo bo env extPkt refTS f)
   }"

definition processSourceSwitch :: "('m, int) OrderedMapOps \<Rightarrow> ('b, bool) OrderedMapOps \<Rightarrow> FwdEnv \<Rightarrow> ExtPacket \<Rightarrow> int \<Rightarrow>
    ('m, 'b) Forwarder \<Rightarrow> (('m, 'b) Forwarder \<times> forwarderErr option) option" where
  "processSourceSwitch mo bo env extPkt layer f =
     (if \<not> f_started f then
        if ep_IsOutOfOrder extPkt then Some (f, Some errSkipStartOnOutOfOrderPacket)
        else Some (f\<lparr>f_started := True, f_referenceLayerSpatial := layer,
                     f_rtpMunger := SetLastSnTs (f_rtpMunger f) extPkt,
                     f_codecMunger := cm_SetLast extPkt (f_codecMunger f)\<rparr>, None)
      else if f_referenceLayerSpatial f = InvalidLayerSpatial then
        if ep_IsOutOfOrder extPkt then Some (f, Some errSkipStartOnOutOfOrderPacket)
        else switchSource mo bo env extPkt layer
               (f\<lparr>f_referenceLayerSpatial := layer, f_codecMunger := cm_SetLast extPkt (f_codecMunger f)\<rparr>)
      else switchSource mo bo env extPkt layer f)"

section \<open>Translation\<close>

definition translateCodecHeader :: "('m, int) OrderedMapOps \<Rightarrow> ('b, bool) OrderedMapOps \<Rightarrow> ExtPacket \<Rightarrow> TranslationParams \<Rightarrow>
    ('m, 'b) Forwarder \<Rightarrow> ('m, 'b) Forwarder \<times> TranslationParams \<times> forwarderErr option" where
  "translateCodecHeader mo bo extPkt tp f =
     (let (v, tlayer) = vls_SelectTemporal extPkt (f_vls f);
          (cm, res) = cm_UpdateAndGet mo bo extPkt (snOrdering (tp_rtp tp) = SequenceNumberOrderingOutOfOrder)
             (snOrdering (tp_rtp tp) = SequenceNumberOrderingGap) tlayer (f_codecMunger f);
          f = f\<lparr>f_vls := v, f_codecMunger := cm\<rparr> in
      case res of
        Inl ErrFilteredVP8TemporalLayer \<Rightarrow>
          (f\<lparr>f_rtpMunger := PacketDropped (f_rtpMunger f) extPkt\<rparr>, tp\<lparr>tp_shouldDrop := True\<rparr>, None)
      | Inl ErrOutOfOrderVP8PictureIdCacheMiss \<Rightarrow> (f, tp\<lparr>tp_shouldDrop := True\<rparr>, None)
      | Inl e \<Rightarrow> (f, tp\<lparr>tp_shouldDrop := True\<rparr>, Some (errCodec e))
      | Inr (inputSize, codecBytes) \<Rightarrow> (f, tp\<lparr>tp_incomingHeaderSize := inputSize, tp_codecBytes := codecBytes\<rparr>, None))"

text \<open>The part of \<open>getTranslationParamsCommon\<close> after the source is settled.\<close>

definition translatePacket :: "('m, int) OrderedMapOps \<Rightarrow> ('b, bool) OrderedMapOps \<Rightarrow> ExtPacket \<Rightarrow> TranslationParams \<Rightarrow>
    ('m, 'b) Forwarder \<Rightarrow> ('m, 'b) Forwarder \<times> TranslationParams \<times> forwarderErr option" where
  "translatePacket mo bo extPkt tp f =
     (case UpdateAndGetSnTs (f_rtpMunger f) extPkt (tp_marker tp) of
        (r, tpRTP, Some e) \<Rightarrow>
          (f\<lparr>f_rtpMunger := r\<rparr>, tp\<lparr>tp_shouldDrop := True\<rparr>,
           if e = errPaddingOnlyPacket \<or> e = errDuplicatePacket \<or> e = errOutOfOrderSequenceNumberCacheMiss then None
           else Some (errMunger e))
      | (r, tpRTP, None) \<Rightarrow>
          let f = f\<lparr>f_rtpMunger := r\<rparr>; tp = tp\<lparr>tp_rtp := tpRTP\<rparr> in
          if length (rtp_Payload (ep_Packet extPkt)) > 0 then translateCodecHeader mo bo extPkt tp f else (f, tp, None))"

definition getTranslationParamsCommon :: "('m, int) OrderedMapOps \<Rightarrow> ('b, bool) OrderedMapOps \<Rightarrow> FwdEnv \<Rightarrow> ExtPacket \<Rightarrow> int \<Rightarrow>
    TranslationParams \<Rightarrow> ('m, 'b) Forwarder \<Rightarrow> (('m, 'b) Forwarder \<times> TranslationParams \<times> forwarderErr option) option" where
  "getTranslationParamsCommon mo bo env extPkt layer tp f =
     (if f_lastSSRC f \<noteq> rtp_SSRC (ep_Packet extPkt) then do {
        (f, err) \<leftarrow> processSourceSwitch mo bo env extPkt layer f;
        if err \<noteq> None then Some (f\<lparr>f_vls := vls_Rollback (f_vls f)\<rparr>, tp\<lparr>tp_shouldDrop := True\<rparr>, None)
        else Some (translatePacket mo bo extPkt tp
               (f\<lparr>f_lastSSRC := rtp_SSRC (ep_Packet extPkt),
                  f_lastReferencePayloadType := sint (rtp_PayloadType (ep_Packet extPkt)),
                  f_lastSwitchExtIncomingTS := ep_ExtTimestamp extPkt\<rparr>))
      }
      else Some (translatePacket mo bo extPkt tp f))"

definition getTranslationParamsAudio :: "('m, int) OrderedMapOps \<Rightarrow> ('b, bool) OrderedMapOps \<Rightarrow> FwdEnv \<Rightarrow> ExtPacket \<Rightarrow> int \<Rightarrow>
    ('m, 'b) Forwarder \<Rightarrow> (('m, 'b) Forwarder \<times> TranslationParams \<times> forwarderErr option) option" where
  "getTranslationParamsAudio mo bo env extPkt layer f = do {
     (f, tp, err) \<leftarrow> getTranslationParamsCommon mo bo env extPkt layer zeroParams f;
     Some (f, if err \<noteq> None then tp\<lparr>tp_shouldDrop := True\<rparr> else tp, err)
   }"

text \<open>A packet that the selector rejects: a feed without descriptors turns them off, and the munger learns of the packet.\<close>

definition rejectPacket :: "ExtPacket \<Rightarrow> VideoLayerSelectorResult \<Rightarrow> ('m, 'b) Forwarder \<Rightarrow> ('m, 'b) Forwarder" where
  "rejectPacket extPkt result f =
     (let f = (if f_isDDAvailable f \<and> ep_DependencyDescriptor extPkt = None then
                 let f = f\<lparr>f_isDDAvailable := False\<rparr> in
                 (case f_mime f of MimeTypeVP9 \<Rightarrow> f\<lparr>f_vls := NewVP9FromOther (f_vls f)\<rparr>
                  | MimeTypeAV1 \<Rightarrow> f\<lparr>f_vls := NewSimulcastFromOther (f_vls f)\<rparr>
                  | _ \<Rightarrow> f)
               else f) in
      if f_started f \<and> IsRelevant result then
        case UpdateAndGetSnTs (f_rtpMunger f) extPkt (RTPMarker result) of
          (r, tpRTP, None) \<Rightarrow>
            f\<lparr>f_rtpMunger := (if snOrdering tpRTP = SequenceNumberOrderingContiguous then PacketDropped r extPkt else r)\<rparr>
        | (r, tpRTP, Some e) \<Rightarrow> f\<lparr>f_rtpMunger := r\<rparr>
      else f)"

definition getTranslationParamsVideo :: "('m, int) OrderedMapOps \<Rightarrow> ('b, bool) OrderedMapOps \<Rightarrow> FwdEnv \<Rightarrow> ExtPacket \<Rightarrow> int \<Rightarrow>
    ('m, 'b) Forwarder \<Rightarrow> (('m, 'b) Forwarder \<times> TranslationParams \<times> forwarderErr option) option" where
  "getTranslationParamsVideo mo bo env extPkt layer f =
     (if \<not> layer_IsValid (f_target f) then Some (f, zeroParams\<lparr>tp_shouldDrop := True\<rparr>, None)
      else do {
        (v, result) \<leftarrow> vls_Select extPkt layer (f_vls f);
        let f = f\<lparr>f_vls := v\<rparr>;
        if \<not> IsSelected result then Some (rejectPacket extPkt result f, zeroParams\<lparr>tp_shouldDrop := True\<rparr>, None)
        else do {
          (f, tp, err) \<leftarrow> getTranslationParamsCommon mo bo env extPkt layer
            (zeroParams\<lparr>tp_isResuming := IsResuming result, tp_isSwitching := IsSwitching result,
               tp_ddBytes := DependencyDescriptorExtension result, tp_marker := RTPMarker result\<rparr>) f;
          Some (if tp_shouldDrop tp then (f, tp, err)
                else if FlagPauseOnDowngrade \<and> va_IsDeficient (f_lastAllocation f) \<and> Spatial (f_target f) < Spatial (f_current f)
                then (f, tp\<lparr>tp_shouldDrop := True\<rparr>, None)
                else (f, tp, None))
        }
      })"

definition GetTranslationParams :: "('m, int) OrderedMapOps \<Rightarrow> ('b, bool) OrderedMapOps \<Rightarrow> FwdEnv \<Rightarrow> ExtPacket \<Rightarrow> int \<Rightarrow>
    ('m, 'b) Forwarder \<Rightarrow> (('m, 'b) Forwarder \<times> TranslationParams \<times> forwarderErr option) option" where
  "GetTranslationParams mo bo env extPkt layer f =
     (if f_muted f \<or> f_pubMuted f then Some (f, zeroParams\<lparr>tp_shouldDrop := True\<rparr>, None)
      else case f_kind f of
        RTPCodecTypeAudio \<Rightarrow> getTranslationParamsAudio mo bo env extPkt layer f
      | RTPCodecTypeVideo \<Rightarrow> getTranslationParamsVideo mo bo env extPkt layer f
      | _ \<Rightarrow> Some (f, zeroParams\<lparr>tp_shouldDrop := True\<rparr>, Some errUnknownKind))"

section \<open>Padding\<close>

text \<open>The packet of a dummy start, from two random numbers below \<^verbatim>\<open>1<<14\<close> and \<^verbatim>\<open>1<<30\<close>.\<close>

definition dummyPacket :: "u16 \<Rightarrow> u32 \<Rightarrow> ExtPacket" where
  "dummyPacket sequenceNumber timestamp =
     \<lparr>ep_VideoLayer = zeroLayer, ep_Arrival = 0, ep_ExtSequenceNumber = ucast sequenceNumber,
      ep_ExtTimestamp = ucast timestamp,
      ep_Packet = \<lparr>rtp_SequenceNumber = sequenceNumber, rtp_Timestamp = timestamp, rtp_Marker = False, rtp_SSRC = 0,
        rtp_PayloadType = 0, rtp_Payload = []\<rparr>,
      ep_Payload = PayloadNone, ep_IsKeyFrame = False, ep_DependencyDescriptor = None, ep_IsOutOfOrder = False\<rparr>"

definition maybeStart :: "int \<Rightarrow> nat \<Rightarrow> nat \<Rightarrow> ('m, 'b) Forwarder \<Rightarrow> ('m, 'b) Forwarder" where
  "maybeStart now rndSN rndTS f =
     (if f_started f then f
      else
        let sequenceNumber = of_nat rndSN + 0x8000;
            timestamp = of_nat rndTS + 0x80000000
        in f\<lparr>f_started := True, f_preStartTime := Some now,
             f_rtpMunger := SetLastSnTs (f_rtpMunger f) (dummyPacket sequenceNumber timestamp),
             f_extFirstTS := ucast timestamp\<rparr>)"

definition GetSnTsForPadding :: "int \<Rightarrow> nat \<Rightarrow> nat \<Rightarrow> int \<Rightarrow> u32 \<Rightarrow> bool \<Rightarrow> ('m, 'b) Forwarder \<Rightarrow>
    ('m, 'b) Forwarder \<times> (mungerErr + SnTs list)" where
  "GetSnTsForPadding now rndSN rndTS num frameRate forceMarker f =
     (let f = maybeStart now rndSN rndTS f;
          forceMarker = (if \<not> layer_IsValid (f_target f) then True else forceMarker);
          (r, res) = UpdateAndGetPaddingSnTs (f_rtpMunger f) num (f_clockRate f) frameRate forceMarker
             (st_ExtLastTimestamp (GetState (f_rtpMunger f)))
      in (f\<lparr>f_rtpMunger := r\<rparr>, res))"

definition GetSnTsForBlankFrames :: "FwdEnv \<Rightarrow> nat \<Rightarrow> nat \<Rightarrow> u32 \<Rightarrow> int \<Rightarrow> ('m, 'b) Forwarder \<Rightarrow>
    ('m, 'b) Forwarder \<times> (mungerErr + SnTs list) \<times> bool" where
  "GetSnTsForBlankFrames env rndSN rndTS frameRate numPackets f =
     (let f = maybeStart (env_now env) rndSN rndTS f;
          frameEndNeeded = (\<not> IsOnFrameBoundary (f_rtpMunger f));
          numPackets = (if frameEndNeeded then numPackets + 1 else numPackets);
          extLast = st_ExtLastTimestamp (GetState (f_rtpMunger f));
          extExpectedTS = (case env_rtpStats env of None \<Rightarrow> extLast
             | Some stats \<Rightarrow> (case GetExpectedRTPTimestamp env stats of Some tsExt \<Rightarrow> tsExt | None \<Rightarrow> extLast));
          extExpectedTS = (if sint (extExpectedTS - extLast) \<le> 0 then extLast + 1 else extExpectedTS);
          (r, res) = UpdateAndGetPaddingSnTs (f_rtpMunger f) numPackets (f_clockRate f) frameRate frameEndNeeded extExpectedTS
      in (f\<lparr>f_rtpMunger := r\<rparr>, res, frameEndNeeded))"

definition GetPadding :: "bool \<Rightarrow> ('m, 'b) Forwarder \<Rightarrow> ('m, 'b) Forwarder \<times> (vp8Err + bytes)" where
  "GetPadding frameEndNeeded f =
     (let (cm, res) = cm_UpdateAndGetPadding (\<not> frameEndNeeded) (f_codecMunger f) in (f\<lparr>f_codecMunger := cm\<rparr>, res))"

end
