(* ===== verification/Translate_Properties.thy ===== *)
theory Translate_Properties
  imports Forwarder_Translate
begin

text \<open>
  Properties of the translation of packets by the forwarder: outgoing sequence numbers over any mix of packets, padding,
  blank frames and changes of the settings; the timestamp and number after a switch of the source and after a move to another
  node; the mapping of timestamps between simulcast layers; and that no index or dereference panics.
\<close>

section \<open>What a packet does to the munger\<close>

text \<open>The number of a packet that leaves in order.\<close>

definition inOrderOut :: "TranslationParams \<Rightarrow> u64 list" where
  "inOrderOut tp =
     (if \<not> tp_shouldDrop tp \<and> snOrdering (tp_rtp tp) \<noteq> SequenceNumberOrderingOutOfOrder
      then [tp_extSequenceNumber (tp_rtp tp)] else [])"

lemma inOrderOut_drop [simp]: "tp_shouldDrop tp \<Longrightarrow> inOrderOut tp = []"
  by (simp add: inOrderOut_def)

text \<open>A temporal layer is only filtered out of packets that are in order and follow no gap.\<close>

lemma filtered_contiguous:
  assumes "cm_UpdateAndGet mo bo p ooo gap tmax cm = (cm', Inl ErrFilteredVP8TemporalLayer)"
  shows "\<not> ooo \<and> \<not> gap"
  using assms
  by (cases cm) (auto simp: null_UpdateAndGet_def vp8_UpdateAndGet_def updateOutOfOrder_def forwardInOrder_def marshalled_def
      Let_def split: codecPayload.splits prod.splits if_splits option.splits sum.splits)

lemma UpdateAndGetSnTs_ordering:
  assumes "UpdateAndGetSnTs r p m = (r', tp, None)"
  shows "snOrdering tp \<noteq> SequenceNumberOrderingDuplicate"
  using assms
  by (auto simp: UpdateAndGetSnTs_def translateOutOfOrder_def updateInOrder_def Let_def split: if_splits sum.splits)

lemma translateCodecHeader_exec:
  assumes x: "translateCodecHeader mo bo p tp f = (f', tp', err)" and nd: "\<not> tp_shouldDrop tp"
    and ord: "snOrdering (tp_rtp tp) \<noteq> SequenceNumberOrderingDuplicate"
  shows "f_started f' = f_started f" "f_lastSSRC f' = f_lastSSRC f"
    "f_rtpMunger f' = f_rtpMunger f \<and> inOrderOut tp' = (if tp_shouldDrop tp' then [] else inOrderOut tp) \<or>
     f_rtpMunger f' = PacketDropped (f_rtpMunger f) p \<and> tp_shouldDrop tp' \<and> snOrdering (tp_rtp tp) = SequenceNumberOrderingContiguous"
    "err \<noteq> None \<longrightarrow> tp_shouldDrop tp'" "tp_rtp tp' = tp_rtp tp"
proof -
  obtain v tlayer where v: "vls_SelectTemporal p (f_vls f) = (v, tlayer)" by (cases "vls_SelectTemporal p (f_vls f)")
  obtain cm res where c: "cm_UpdateAndGet mo bo p (snOrdering (tp_rtp tp) = SequenceNumberOrderingOutOfOrder)
      (snOrdering (tp_rtp tp) = SequenceNumberOrderingGap) tlayer (f_codecMunger f) = (cm, res)"
    by (meson surj_pair)
  have "snOrdering (tp_rtp tp) = SequenceNumberOrderingContiguous" if "res = Inl ErrFilteredVP8TemporalLayer"
    using filtered_contiguous [OF c [unfolded that]] ord by (cases "snOrdering (tp_rtp tp)") auto
  then show "f_started f' = f_started f" "f_lastSSRC f' = f_lastSSRC f"
    "f_rtpMunger f' = f_rtpMunger f \<and> inOrderOut tp' = (if tp_shouldDrop tp' then [] else inOrderOut tp) \<or>
     f_rtpMunger f' = PacketDropped (f_rtpMunger f) p \<and> tp_shouldDrop tp' \<and> snOrdering (tp_rtp tp) = SequenceNumberOrderingContiguous"
    "err \<noteq> None \<longrightarrow> tp_shouldDrop tp'" "tp_rtp tp' = tp_rtp tp"
    using x nd
    by (auto simp: translateCodecHeader_def v c Let_def inOrderOut_def split: sum.splits codecMungerErr.splits prod.splits)
qed

lemma translatePacket_exec:
  assumes x: "translatePacket mo bo p tp f = (f', tp', err)" and nd: "\<not> tp_shouldDrop tp"
  obtains d where "munger_exec (f_rtpMunger f) (Incoming p (tp_marker tp) d) = (f_rtpMunger f', inOrderOut tp')"
    "f_started f' = f_started f" "f_lastSSRC f' = f_lastSSRC f" "err \<noteq> None \<longrightarrow> tp_shouldDrop tp'"
proof -
  obtain r tpRTP e where U: "UpdateAndGetSnTs (f_rtpMunger f) p (tp_marker tp) = (r, tpRTP, e)" using prod_cases3 by blast
  show ?thesis
  proof (cases e)
    case (Some e')
    then show ?thesis using x U by (intro that [of Discarded]) (auto simp: translatePacket_def)
  next
    case None
    define f1 tp1 where "f1 = f\<lparr>f_rtpMunger := r\<rparr>" and "tp1 = tp\<lparr>tp_rtp := tpRTP\<rparr>"
    have ord: "snOrdering (tp_rtp tp1) \<noteq> SequenceNumberOrderingDuplicate"
      using UpdateAndGetSnTs_ordering U None by (simp add: tp1_def)
    have sel: "f_rtpMunger f1 = r" "f_started f1 = f_started f" "f_lastSSRC f1 = f_lastSSRC f" "\<not> tp_shouldDrop tp1"
      "tp_rtp tp1 = tpRTP" using nd by (simp_all add: f1_def tp1_def)
    show ?thesis
    proof (cases "rtp_Payload (ep_Packet p) = []")
      case True
      then have "f' = f1" "tp' = tp1" "err = None" using x U None by (simp_all add: translatePacket_def f1_def tp1_def)
      then show ?thesis using U None sel by (intro that [of Sent]) (auto simp: inOrderOut_def)
    next
      case False
      then have "translateCodecHeader mo bo p tp1 f1 = (f', tp', err)"
        using x U None by (simp add: translatePacket_def f1_def tp1_def)
      note T = translateCodecHeader_exec [OF this sel(4) ord]
      consider "f_rtpMunger f' = r" "\<not> tp_shouldDrop tp'" "inOrderOut tp' = inOrderOut tp1"
        | "f_rtpMunger f' = r" "tp_shouldDrop tp'"
        | "f_rtpMunger f' = PacketDropped r p" "tp_shouldDrop tp'" "snOrdering tpRTP = SequenceNumberOrderingContiguous"
        using T(3) sel(1,5) by (cases "tp_shouldDrop tp'") auto
      then show ?thesis
      proof cases
        case 1
        then show ?thesis using U None T(1,2,4) sel by (intro that [of Sent]) (auto simp: inOrderOut_def)
      next
        case 2
        then show ?thesis using U None T(1,2,4) sel by (intro that [of Discarded]) auto
      next
        case 3
        then show ?thesis using U None T(1,2,4) sel by (intro that [of RolledBack]) auto
      qed
    qed
  qed
qed

lemma rejectPacket_exec:
  "f_started (rejectPacket p res f) = f_started f" "f_lastSSRC (rejectPacket p res f) = f_lastSSRC f"
  "f_rtpMunger (rejectPacket p res f) = f_rtpMunger f \<or>
   f_started f \<and> munger_exec (f_rtpMunger f) (Incoming p (RTPMarker res) RolledBack) = (f_rtpMunger (rejectPacket p res f), [])"
proof -
  define f1 where "f1 = (if f_isDDAvailable f \<and> ep_DependencyDescriptor p = None then
       let f = f\<lparr>f_isDDAvailable := False\<rparr> in
       (case f_mime f of MimeTypeVP9 \<Rightarrow> f\<lparr>f_vls := NewVP9FromOther (f_vls f)\<rparr>
        | MimeTypeAV1 \<Rightarrow> f\<lparr>f_vls := NewSimulcastFromOther (f_vls f)\<rparr> | _ \<Rightarrow> f) else f)"
  have s: "f_started f1 = f_started f" "f_lastSSRC f1 = f_lastSSRC f" "f_rtpMunger f1 = f_rtpMunger f"
    by (auto simp: f1_def Let_def split: MimeType.splits)
  obtain r tpRTP e where U: "UpdateAndGetSnTs (f_rtpMunger f) p (RTPMarker res) = (r, tpRTP, e)" using prod_cases3 by blast
  have R: "rejectPacket p res f = (if f_started f \<and> IsRelevant res then
      f1\<lparr>f_rtpMunger := (if e = None \<and> snOrdering tpRTP = SequenceNumberOrderingContiguous then PacketDropped r p else r)\<rparr> else f1)"
    unfolding rejectPacket_def f1_def [symmetric] using U s by (auto simp: Let_def split: option.splits)
  show "f_started (rejectPacket p res f) = f_started f" "f_lastSSRC (rejectPacket p res f) = f_lastSSRC f"
    "f_rtpMunger (rejectPacket p res f) = f_rtpMunger f \<or>
     f_started f \<and> munger_exec (f_rtpMunger f) (Incoming p (RTPMarker res) RolledBack) = (f_rtpMunger (rejectPacket p res f), [])"
    unfolding R using s U UpdateAndGetSnTs_ordering [of "f_rtpMunger f" p "RTPMarker res" r tpRTP] by (cases e; auto)+
qed

section \<open>Source switches\<close>

lemma expectedTS_sel:
  assumes "expectedTS env l x f = (f', e, y)"
  shows "f_rtpMunger f' = f_rtpMunger f" "f_started f' = f_started f" "f_lastSSRC f' = f_lastSSRC f"
    "f_clockRate f' = f_clockRate f" "f_codecMunger f' = f_codecMunger f"
  using assms by (auto simp: expectedTS_def Let_def split: option.splits if_splits)

lemma nextTS_sel:
  assumes "nextTS e x l f = (f', res)"
  shows "f_rtpMunger f' = f_rtpMunger f" "f_started f' = f_started f" "f_lastSSRC f' = f_lastSSRC f"
    "f_codecMunger f' = f_codecMunger f"
  using assms by (auto simp: nextTS_def split: if_splits)

text \<open>A switch either changes nothing the munger depends on, or advances the timestamp.\<close>

lemma switchOffsets_cases:
  assumes "switchOffsets mo bo env p refTS f = (f', err)"
  obtains (failed) e where "err = Some e" "f_rtpMunger f' = f_rtpMunger f" "f_started f' = f_started f" "f_lastSSRC f' = f_lastSSRC f"
  | (switched) ts where "err = None" "f_rtpMunger f' = UpdateSnTsOffsets (f_rtpMunger f) p 1 ts" "sint ts > 0"
      "f_started f' = f_started f" "f_lastSSRC f' = f_lastSSRC f"
proof -
  define l where "l = st_ExtLastTimestamp (GetState (f_rtpMunger f))"
  obtain f1 ex rf where E: "expectedTS env l (extendRefTS l refTS (f_dummyStartTSOffset f)) f = (f1, ex, rf)"
    using prod_cases3 by blast
  obtain f2 res where N: "nextTS ex rf l f1 = (f2, res)" by (cases "nextTS ex rf l f1")
  note s = expectedTS_sel [OF E] nextTS_sel [OF N]
  have r: "(case res of Inl e \<Rightarrow> (f2, Some e)
     | Inr n \<Rightarrow> (f2\<lparr>f_rtpMunger := UpdateSnTsOffsets (f_rtpMunger f2) p 1 ((if sint (n - l) \<le> 0 then l + 1 else n) - l),
              f_codecMunger := cm_UpdateOffsets mo bo p (f_codecMunger f2)\<rparr>, None)) = (f', err)"
    using assms unfolding switchOffsets_def Let_def l_def [symmetric] E prod.case N .
  show ?thesis
  proof (cases res)
    case (Inl e)
    then show ?thesis using r s by (intro failed [of e]) auto
  next
    case (Inr n)
    then show ?thesis
      using r s by (intro switched [of "(if sint (n - l) \<le> 0 then l + 1 else n) - l"]) auto
  qed
qed

lemma switchSource_cases:
  assumes "switchSource mo bo env p layer f = Some (f', err)"
  obtains (failed) e where "err = Some e" "f_rtpMunger f' = f_rtpMunger f" "f_started f' = f_started f" "f_lastSSRC f' = f_lastSSRC f"
  | (switched) ts where "err = None" "f_rtpMunger f' = UpdateSnTsOffsets (f_rtpMunger f) p 1 ts" "sint ts > 0"
      "f_started f' = f_started f" "f_lastSSRC f' = f_lastSSRC f"
proof -
  obtain ref where "(case ref of Inl e \<Rightarrow> (f, Some e) | Inr refTS \<Rightarrow> switchOffsets mo bo env p refTS f) = (f', err)"
    using assms by (auto simp: switchSource_def bind_eq_Some_conv)
  then show ?thesis
    using failed switched by (cases ref) (auto elim: switchOffsets_cases)
qed

lemma processSourceSwitch_cases:
  assumes "processSourceSwitch mo bo env p layer f = Some (f', err)"
  obtains (failed) e where "err = Some e" "f_rtpMunger f' = f_rtpMunger f" "f_started f' = f_started f" "f_lastSSRC f' = f_lastSSRC f"
  | (start) "err = None" "\<not> f_started f" "f_started f'" "f_rtpMunger f' = SetLastSnTs (f_rtpMunger f) p" "f_lastSSRC f' = f_lastSSRC f"
  | (switched) ts where "err = None" "f_started f" "f_started f'" "f_rtpMunger f' = UpdateSnTsOffsets (f_rtpMunger f) p 1 ts"
      "sint ts > 0" "f_lastSSRC f' = f_lastSSRC f"
proof (cases "f_started f")
  case False
  then show ?thesis using assms failed start by (auto simp: processSourceSwitch_def split: if_splits)
next
  case True
  define f0 where "f0 = (if f_referenceLayerSpatial f = InvalidLayerSpatial
    then f\<lparr>f_referenceLayerSpatial := layer, f_codecMunger := cm_SetLast p (f_codecMunger f)\<rparr> else f)"
  have s: "f_rtpMunger f0 = f_rtpMunger f" "f_started f0" "f_lastSSRC f0 = f_lastSSRC f" using True by (simp_all add: f0_def)
  show ?thesis
  proof (cases "f' = f \<and> err = Some errSkipStartOnOutOfOrderPacket")
    case False
    with True assms have "switchSource mo bo env p layer f0 = Some (f', err)"
      by (auto simp: processSourceSwitch_def f0_def split: if_splits)
    then show ?thesis by (rule switchSource_cases) (use s True failed switched in auto)
  qed (use failed in auto)
qed

section \<open>Sequence numbers\<close>

text \<open>The munger has not been used before the start; \<open>out\<close> are the numbers that left in order so far.\<close>

definition fwd_inv :: "('m, 'b) Forwarder \<Rightarrow> u64 list \<Rightarrow> bool" where
  "fwd_inv f out \<longleftrightarrow>
     (if f_started f then run_inv (f_rtpMunger f) out \<and> (f_lastSSRC f \<noteq> 0 \<longrightarrow> tight (f_rtpMunger f) \<or> out = [])
      else f_rtpMunger f = NewRTPMunger \<and> out = [] \<and> f_lastSSRC f = 0)"

text \<open>
  Packets have a source and numbers that stay far below the end of \<^verbatim>\<open>uint64\<close>.
\<close>

definition pkt_ok :: "('m, 'b) Forwarder \<Rightarrow> ExtPacket \<Rightarrow> bool" where
  "pkt_ok f p \<longleftrightarrow> rtp_SSRC (ep_Packet p) \<noteq> 0 \<and> 0 < ep_ExtSequenceNumber p \<and>
     uint (ep_ExtSequenceNumber p) + uint (next_out (f_rtpMunger f)) < 2 ^ 63 - 2 \<and>
     (\<not> f_started f \<longrightarrow> ep_ExtSequenceNumber p < 2 ^ 61)"

lemma pkt_ok_nat:
  assumes "pkt_ok f p"
  shows "unat (ep_ExtSequenceNumber p) + unat (next_out (f_rtpMunger f)) < 2 ^ 63 - 2"
proof -
  have "uint (ep_ExtSequenceNumber p) + uint (next_out (f_rtpMunger f)) < 9223372036854775806" using assms by (simp add: pkt_ok_def)
  then have "nat (uint (ep_ExtSequenceNumber p)) + nat (uint (next_out (f_rtpMunger f))) < 9223372036854775806"
    using uint_ge_0 [of "ep_ExtSequenceNumber p"] uint_ge_0 [of "next_out (f_rtpMunger f)"] by linarith
  then show ?thesis by simp
qed

lemma fwd_inv_incoming:
  assumes "run_inv r out" "tight r \<or> out = []" "unat (ep_ExtSequenceNumber p) + unat (next_out r) < 2 ^ 63 - 1"
    and "munger_exec r (Incoming p m d) = (r', out')"
  shows "run_inv r' (out @ out')" "tight r' \<or> out @ out' = []"
  using run_inv_incoming [OF assms(1,3) _ assms(4)] assms(2) by auto

lemma dummy_inv:
  assumes "0 < ep_ExtSequenceNumber p" "ep_ExtSequenceNumber p < 2 ^ 61"
  shows "run_inv (SetLastSnTs NewRTPMunger p) []" "next_out (SetLastSnTs NewRTPMunger p) = ep_ExtSequenceNumber p"
proof -
  have "ep_ExtSequenceNumber p < 2 ^ 63 - 1" using assms(2) by (simp add: word_less_nat_alt)
  from SetLastSnTs_inv [OF NewRTPMunger_inv assms(1) this]
  show "run_inv (SetLastSnTs NewRTPMunger p) []" "next_out (SetLastSnTs NewRTPMunger p) = ep_ExtSequenceNumber p"
    by (simp_all add: run_inv_def)
qed

text \<open>A switch leaves the munger ready for the packet that caused it.\<close>

lemma switch_inv:
  assumes "run_inv r out" "0 < ep_ExtSequenceNumber p" "unat (ep_ExtSequenceNumber p) + unat (next_out r) < 2 ^ 63 - 2"
  shows "run_inv (UpdateSnTsOffsets r p 1 ts) out" "tight (UpdateSnTsOffsets r p 1 ts)"
    "unat (ep_ExtSequenceNumber p) + unat (next_out (UpdateSnTsOffsets r p 1 ts)) < 2 ^ 63 - 1"
proof -
  let ?r = "UpdateSnTsOffsets r p 1 ts"
  have le: "unat (extLastSN r) \<le> unat (next_out r)" using assms(1) by (simp add: run_inv_def word_le_nat_alt)
  have "ep_ExtSequenceNumber p < 2 ^ 63 - 1" "extLastSN r < 2 ^ 63 - 1"
    using assms(3) le by (simp_all add: word_less_nat_alt)
  then have S: "munger_inv ?r" "tight ?r" "extLastSN ?r = extLastSN r"
    using UpdateSnTsOffsets_inv [of r p ts] assms(1,2) by (simp_all add: run_inv_def)
  have n: "unat (next_out ?r) = unat (extLastSN r) + 1"
    using S(2,3) le assms(3) by (simp add: tight_def unat_add_u64)
  then have "extLastSN ?r \<le> next_out ?r" by (simp add: S(3) word_le_nat_alt)
  then show "run_inv ?r out" "tight ?r" "unat (ep_ExtSequenceNumber p) + unat (next_out ?r) < 2 ^ 63 - 1"
    using assms S n le by (simp_all add: run_inv_def)
qed

lemma translatePacket_inv:
  assumes x: "translatePacket mo bo p tp f = (f', tp', err)" and nd: "\<not> tp_shouldDrop tp" and st: "f_started f"
    and inv: "run_inv (f_rtpMunger f) out" "tight (f_rtpMunger f) \<or> out = []"
    and b: "unat (ep_ExtSequenceNumber p) + unat (next_out (f_rtpMunger f)) < 2 ^ 63 - 1"
  shows "fwd_inv f' (out @ inOrderOut tp') \<and> (err \<noteq> None \<longrightarrow> tp_shouldDrop tp')"
proof (rule translatePacket_exec [OF x nd])
  fix d assume m: "munger_exec (f_rtpMunger f) (Incoming p (tp_marker tp) d) = (f_rtpMunger f', inOrderOut tp')"
    and s: "f_started f' = f_started f" "f_lastSSRC f' = f_lastSSRC f" "err \<noteq> None \<longrightarrow> tp_shouldDrop tp'"
  show ?thesis using fwd_inv_incoming [OF inv b m] s st by (simp add: fwd_inv_def)
qed

lemma common_inv:
  assumes inv: "fwd_inv f out" and ok: "pkt_ok f p" and nd: "\<not> tp_shouldDrop tp"
    and x: "getTranslationParamsCommon mo bo env p layer tp f = Some (f', tp', err)"
  shows "fwd_inv f' (out @ inOrderOut tp') \<and> (err \<noteq> None \<longrightarrow> tp_shouldDrop tp')"
proof -
  note b = pkt_ok_nat [OF ok]
  have k: "0 < ep_ExtSequenceNumber p" "rtp_SSRC (ep_Packet p) \<noteq> 0" using ok by (simp_all add: pkt_ok_def)
  note T = translatePacket_inv [OF _ nd]
  show ?thesis
  proof (cases "f_lastSSRC f = rtp_SSRC (ep_Packet p)")
    case True
    then show ?thesis using x inv k b by (intro T [of mo bo p f]) (auto simp: getTranslationParamsCommon_def fwd_inv_def split: if_splits)
  next
    case False
    then obtain f0 e where P: "processSourceSwitch mo bo env p layer f = Some (f0, e)"
      using x by (auto simp: getTranslationParamsCommon_def bind_eq_Some_conv)
    define f1 where "f1 = f0\<lparr>f_lastSSRC := rtp_SSRC (ep_Packet p),
        f_lastReferencePayloadType := sint (rtp_PayloadType (ep_Packet p)), f_lastSwitchExtIncomingTS := ep_ExtTimestamp p\<rparr>"
    have X: "if e = None then translatePacket mo bo p tp f1 = (f', tp', err)
        else f' = f0\<lparr>f_vls := vls_Rollback (f_vls f0)\<rparr> \<and> tp' = tp\<lparr>tp_shouldDrop := True\<rparr>"
      using x False by (auto simp: getTranslationParamsCommon_def P f1_def split: if_splits)
    have s: "f_rtpMunger f1 = f_rtpMunger f0" "f_started f1 = f_started f0" by (simp_all add: f1_def)
    from P show ?thesis
    proof (cases rule: processSourceSwitch_cases)
      case (failed e')
      then show ?thesis using X inv by (simp add: fwd_inv_def)
    next
      case start
      have "f_rtpMunger f = NewRTPMunger" "out = []" "ep_ExtSequenceNumber p < 2 ^ 61"
        using inv start(2) ok by (simp_all add: fwd_inv_def pkt_ok_def)
      moreover from this have "unat (ep_ExtSequenceNumber p) < 2305843009213693952" by (simp add: word_less_nat_alt)
      ultimately show ?thesis using X start dummy_inv [OF k(1)] s by (intro T [of mo bo p f1]) simp_all
    next
      case (switched ts)
      have "run_inv (f_rtpMunger f) out" using inv switched by (simp add: fwd_inv_def)
      from switch_inv [OF this k(1) b, of ts] show ?thesis using X switched s by (intro T [of mo bo p f1]) simp_all
    qed
  qed
qed

lemma fwd_inv_cong:
  "f_started f' = f_started f \<Longrightarrow> f_lastSSRC f' = f_lastSSRC f \<Longrightarrow> f_rtpMunger f' = f_rtpMunger f \<Longrightarrow> fwd_inv f' out = fwd_inv f out"
  "f_started f' = f_started f \<Longrightarrow> f_rtpMunger f' = f_rtpMunger f \<Longrightarrow> pkt_ok f' p = pkt_ok f p"
  by (simp_all add: fwd_inv_def pkt_ok_def)

text \<open>A packet may still be dropped after its translation.\<close>

lemma fwd_inv_prefix: "fwd_inv f (out @ xs) \<Longrightarrow> fwd_inv f out"
  by (auto simp: fwd_inv_def run_inv_def sorted_wrt_append split: if_splits)

lemma reject_inv:
  assumes inv: "fwd_inv f out" and ok: "pkt_ok f p"
  shows "fwd_inv (rejectPacket p res f) out"
proof (cases "f_rtpMunger (rejectPacket p res f) = f_rtpMunger f")
  case True
  then show ?thesis using inv by (simp add: fwd_inv_def rejectPacket_exec(1,2))
next
  case False
  then have st: "f_started f"
    and m: "munger_exec (f_rtpMunger f) (Incoming p (RTPMarker res) RolledBack) = (f_rtpMunger (rejectPacket p res f), [])"
    using rejectPacket_exec(3) [of p res f] by auto
  have "unat (ep_ExtSequenceNumber p) + unat (next_out (f_rtpMunger f)) < 2 ^ 63 - 1" using pkt_ok_nat [OF ok] by simp
  then show ?thesis
    using run_inv_incoming [OF _ _ _ m, of out] inv st by (auto simp: fwd_inv_def rejectPacket_exec(1,2))
qed

lemma video_inv:
  assumes inv: "fwd_inv f out" and ok: "pkt_ok f p"
    and x: "getTranslationParamsVideo mo bo env p layer f = Some (f', tp', err)"
  shows "fwd_inv f' (out @ inOrderOut tp')"
proof (cases "layer_IsValid (f_target f)")
  case False
  then show ?thesis using x inv by (auto simp: getTranslationParamsVideo_def)
next
  case True
  then obtain v result where v: "vls_Select p layer (f_vls f) = Some (v, result)"
    using x by (auto simp: getTranslationParamsVideo_def bind_eq_Some_conv)
  define f1 where "f1 = f\<lparr>f_vls := v\<rparr>"
  have I: "fwd_inv f1 out" "pkt_ok f1 p" using inv ok fwd_inv_cong [of f1 f] by (simp_all add: f1_def)
  show ?thesis
  proof (cases "IsSelected result")
    case False
    then show ?thesis using x True v reject_inv [OF I, of result] by (auto simp: getTranslationParamsVideo_def f1_def)
  next
    case sel: True
    define tp0 where "tp0 = zeroParams\<lparr>tp_isResuming := IsResuming result, tp_isSwitching := IsSwitching result,
        tp_ddBytes := DependencyDescriptorExtension result, tp_marker := RTPMarker result\<rparr>"
    obtain tp1 e1 where c: "getTranslationParamsCommon mo bo env p layer tp0 f1 = Some (f', tp1, e1)"
      and tp': "tp' = tp1 \<or> tp_shouldDrop tp'" "tp_shouldDrop tp1 \<longrightarrow> tp_shouldDrop tp'"
      using x True v sel by (auto simp: getTranslationParamsVideo_def f1_def tp0_def bind_eq_Some_conv split: if_splits)
    have "fwd_inv f' (out @ inOrderOut tp1)"
      using common_inv [OF I _ c] by (simp add: tp0_def zeroParams_def)
    then show ?thesis using tp' fwd_inv_prefix by auto
  qed
qed

lemma translate_inv:
  assumes inv: "fwd_inv f out" and ok: "pkt_ok f p"
    and x: "GetTranslationParams mo bo env p layer f = Some (f', tp', err)"
  shows "fwd_inv f' (out @ inOrderOut tp')"
proof (cases "f_kind f = RTPCodecTypeUnknown \<or> f_muted f \<or> f_pubMuted f")
  case True
  then have "f' = f" "tp_shouldDrop tp'" using x by (auto simp: GetTranslationParams_def split: if_splits)
  then show ?thesis using inv by simp
next
  case False
  show ?thesis
  proof (cases "f_kind f")
    case RTPCodecTypeAudio
    then obtain tp1 where c: "getTranslationParamsCommon mo bo env p layer zeroParams f = Some (f', tp1, err)"
      and tp': "tp' = (if err \<noteq> None then tp1\<lparr>tp_shouldDrop := True\<rparr> else tp1)"
      using x False by (auto simp: GetTranslationParams_def getTranslationParamsAudio_def bind_eq_Some_conv)
    show ?thesis using common_inv [OF inv ok _ c] tp' by (auto simp: zeroParams_def)
  next
    case RTPCodecTypeVideo
    then have "getTranslationParamsVideo mo bo env p layer f = Some (f', tp', err)"
      using x False by (simp add: GetTranslationParams_def)
    then show ?thesis by (rule video_inv [OF inv ok])
  qed (use False in simp)
qed

subsection \<open>Runs\<close>

text \<open>The operations on a forwarder; every allocation ends in \<open>updateAllocation\<close>.\<close>

datatype fwdEvent =
    EvPacket FwdEnv ExtPacket int
  | EvPadding int nat nat int u32 bool
  | EvBlankFrames FwdEnv nat nat u32 int
  | EvMute bool bool
  | EvPubMute bool
  | EvRestart
  | EvCodec MimeType u32 bool VideoLayer_Mode
  | EvAllocation VideoAllocation
  | EvSenderReport int RTCPSenderReportState

definition paddingOut :: "mungerErr + SnTs list \<Rightarrow> u64 list" where
  "paddingOut res = (case res of Inl _ \<Rightarrow> [] | Inr vals \<Rightarrow> map sn_extSequenceNumber vals)"

fun fwd_exec :: "('m, int) OrderedMapOps \<Rightarrow> ('b, bool) OrderedMapOps \<Rightarrow> fwdEvent \<Rightarrow> ('m, 'b) Forwarder \<Rightarrow>
    (('m, 'b) Forwarder \<times> u64 list) option" where
  "fwd_exec mo bo (EvPacket env p layer) f =
     map_option (\<lambda>(f, tp, err). (f, inOrderOut tp)) (GetTranslationParams mo bo env p layer f)"
| "fwd_exec mo bo (EvPadding now rndSN rndTS num frameRate forceMarker) f =
     Some (case GetSnTsForPadding now rndSN rndTS num frameRate forceMarker f of (f, res) \<Rightarrow> (f, paddingOut res))"
| "fwd_exec mo bo (EvBlankFrames env rndSN rndTS frameRate num) f =
     Some (case GetSnTsForBlankFrames env rndSN rndTS frameRate num f of (f, res, _) \<Rightarrow> (f, paddingOut res))"
| "fwd_exec mo bo (EvMute muted mutable) f = Some (fst (Mute muted mutable f), [])"
| "fwd_exec mo bo (EvPubMute muted) f = Some (fst (PubMute muted f), [])"
| "fwd_exec mo bo EvRestart f = Some (Restart f, [])"
| "fwd_exec mo bo (EvCodec mime clockRate ddAvailable mode) f = Some (DetermineCodec mo bo mime clockRate ddAvailable mode f, [])"
| "fwd_exec mo bo (EvAllocation alloc) f = Some (fst (updateAllocation alloc f), [])"
| "fwd_exec mo bo (EvSenderReport layer sr) f = Some (SetRefSenderReport layer sr f, [])"

text \<open>
  The down track asks for padding before the start, while the feed is muted, or once the track is active, that is, once a packet
  was sent (\<^verbatim>\<open>downtrack.go\<close>: the checks of \<^verbatim>\<open>rtpStats.IsActive\<close>).
\<close>

definition fwd_padding_ok :: "('m, 'b) Forwarder \<Rightarrow> u64 list \<Rightarrow> nat \<Rightarrow> int \<Rightarrow> bool" where
  "fwd_padding_ok f out rndSN num \<longleftrightarrow> rndSN < 2 ^ 14 \<and> 0 \<le> num \<and> num < 2 ^ 32 \<and> uint (next_out (f_rtpMunger f)) < 2 ^ 62 \<and>
     (out \<noteq> [] \<or> f_lastSSRC f = 0)"

fun fwd_event_ok :: "fwdEvent \<Rightarrow> ('m, 'b) Forwarder \<Rightarrow> u64 list \<Rightarrow> bool" where
  "fwd_event_ok (EvPacket env p layer) f out \<longleftrightarrow> pkt_ok f p"
| "fwd_event_ok (EvPadding now rndSN rndTS num frameRate forceMarker) f out \<longleftrightarrow> fwd_padding_ok f out rndSN num"
| "fwd_event_ok (EvBlankFrames env rndSN rndTS frameRate num) f out \<longleftrightarrow> fwd_padding_ok f out rndSN num"
| "fwd_event_ok _ f out \<longleftrightarrow> True"

fun fwd_run :: "('m, int) OrderedMapOps \<Rightarrow> ('b, bool) OrderedMapOps \<Rightarrow> fwdEvent list \<Rightarrow> ('m, 'b) Forwarder \<Rightarrow> u64 list \<Rightarrow>
    (('m, 'b) Forwarder \<times> u64 list) option" where
  "fwd_run mo bo [] f out = Some (f, out)"
| "fwd_run mo bo (e # es) f out =
     (if fwd_event_ok e f out then
        case fwd_exec mo bo e f of None \<Rightarrow> None | Some (f, out') \<Rightarrow> fwd_run mo bo es f (out @ out')
      else None)"

text \<open>Settings leave the munger alone and at most forget the source.\<close>

definition settings_only :: "('m, 'b) Forwarder \<Rightarrow> ('m, 'b) Forwarder \<Rightarrow> bool" where
  "settings_only f f' \<longleftrightarrow> f_started f' = f_started f \<and> f_rtpMunger f' = f_rtpMunger f \<and> (f_lastSSRC f' = f_lastSSRC f \<or> f_lastSSRC f' = 0)"

lemma settings_onVls [simp]: "settings_only f (onVls g f')  \<longleftrightarrow> settings_only f f'"
  by (simp add: settings_only_def onVls_def)

lemma settings_resync: "settings_only f f' \<Longrightarrow> settings_only f (resyncLocked f')"
  by (simp add: settings_only_def onVls_def resyncLocked_def Let_def)

lemma settings_ops:
  "settings_only f (fst (Mute muted mutable f))" "settings_only f (fst (PubMute muted f))" "settings_only f (Restart f)"
  "settings_only f (DetermineCodec mo bo mime clockRate ddAvailable mode f)" "settings_only f (fst (updateAllocation alloc f))"
  "settings_only f (SetRefSenderReport layer sr f)"
proof -
  have r: "settings_only f f" "settings_only f (f\<lparr>f_muted := b\<rparr>)" "settings_only f (f\<lparr>f_pubMuted := b\<rparr>)"
    "settings_only f (f\<lparr>f_lastAllocation := al\<rparr>)" for b al
    by (simp_all add: settings_only_def)
  show "settings_only f (fst (Mute muted mutable f))" "settings_only f (fst (PubMute muted f))"
    "settings_only f (fst (updateAllocation alloc f))"
    using r by (auto simp: Mute_def PubMute_def updateAllocation_def setTargetLayer_def Let_def intro!: settings_resync)
  show "settings_only f (Restart f)" "settings_only f (SetRefSenderReport layer sr f)"
    by (simp_all add: Restart_def SetRefSenderReport_def setTargetLayer_def resyncLocked_def onVls_def Let_def settings_only_def)
  show "settings_only f (DetermineCodec mo bo mime clockRate ddAvailable mode f)"
    by (simp add: DetermineCodec_def Let_def onVls_def settings_only_def split: MimeType.split)
qed

lemma settings_inv: "settings_only f f' \<Longrightarrow> fwd_inv f out \<Longrightarrow> fwd_inv f' out"
  by (auto simp: settings_only_def fwd_inv_def split: if_splits)

lemma dummyPacket_ok:
  assumes "rndSN < 2 ^ 14"
  shows "0 < ep_ExtSequenceNumber (dummyPacket (of_nat rndSN + 0x8000) ts)" "ep_ExtSequenceNumber (dummyPacket (of_nat rndSN + 0x8000) ts) < 2 ^ 16"
proof -
  have "unat (of_nat rndSN + 0x8000 :: u16) = rndSN + 0x8000"
    using assms by (simp add: unat_word_ariths unat_of_nat)
  then show "0 < ep_ExtSequenceNumber (dummyPacket (of_nat rndSN + 0x8000) ts)"
    "ep_ExtSequenceNumber (dummyPacket (of_nat rndSN + 0x8000) ts) < 2 ^ 16"
    using assms by (simp_all add: dummyPacket_def word_less_nat_alt unsigned_ucast_eq take_bit_nat_eq_self)
qed

lemma maybeStart_inv:
  fixes now :: int and rndTS :: nat
  assumes "fwd_inv f out" "fwd_padding_ok f out rndSN num"
  defines "f' \<equiv> maybeStart now rndSN rndTS f"
  shows "fwd_inv f' out" "f_started f'" "uint (next_out (f_rtpMunger f')) < 2 ^ 62" "out \<noteq> [] \<or> f_lastSSRC f' = 0"
proof -
  let ?p = "dummyPacket (of_nat rndSN + 0x8000) (of_nat rndTS + 0x80000000)"
  have k: "0 < ep_ExtSequenceNumber ?p" "ep_ExtSequenceNumber ?p < 2 ^ 61" "ep_ExtSequenceNumber ?p < 2 ^ 62"
    using dummyPacket_ok [of rndSN "of_nat rndTS + 0x80000000"] assms(2) by (simp_all add: fwd_padding_ok_def word_less_nat_alt)
  define r where "r = SetLastSnTs NewRTPMunger ?p"
  have r: "run_inv r []" "uint (next_out r) < 2 ^ 62" using dummy_inv [OF k(1,2)] k(3) by (simp_all add: r_def word_less_def)
  have "(f_rtpMunger f' = r \<and> out = [] \<and> f_lastSSRC f' = 0 \<or> f_started f \<and> f' = f) \<and> f_started f'"
    using assms(1) by (simp add: f'_def maybeStart_def Let_def fwd_inv_def r_def)
  then show "fwd_inv f' out" "f_started f'" "uint (next_out (f_rtpMunger f')) < 2 ^ 62" "out \<noteq> [] \<or> f_lastSSRC f' = 0"
    using assms(1,2) r by (auto simp: fwd_inv_def fwd_padding_ok_def)
qed

lemma padding_step_inv:
  assumes inv: "fwd_inv f out" and ok: "f_started f" "uint (next_out (f_rtpMunger f)) < 2 ^ 62" "out \<noteq> [] \<or> f_lastSSRC f = 0"
    and num: "0 \<le> num" "num \<le> 2 ^ 32" and x: "UpdateAndGetPaddingSnTs (f_rtpMunger f) num c fr fm e = (r, res)"
  shows "fwd_inv (f\<lparr>f_rtpMunger := r\<rparr>) (out @ paddingOut res)"
proof -
  have m: "munger_exec (f_rtpMunger f) (Padding num c fr fm e) = (r, paddingOut res)"
    using x by (simp add: paddingOut_def split: sum.splits)
  have b: "unat (next_out (f_rtpMunger f)) + nat num < 2 ^ 63"
  proof -
    have "uint (next_out (f_rtpMunger f)) + num < 9223372036854775808" using ok(2) num by simp
    then have "nat (uint (next_out (f_rtpMunger f))) + nat num < 9223372036854775808"
      using num uint_ge_0 [of "next_out (f_rtpMunger f)"] by linarith
    then show ?thesis by simp
  qed
  show ?thesis using run_inv_padding [OF _ b num(1) m, of out] inv ok by (auto simp: fwd_inv_def)
qed

lemma fwd_step_inv:
  assumes inv: "fwd_inv f out" and ok: "fwd_event_ok e f out" and x: "fwd_exec mo bo e f = Some (f', out')"
  shows "fwd_inv f' (out @ out')"
proof (cases e)
  case (EvPacket env p layer)
  then show ?thesis using translate_inv [OF inv] ok x by auto
next
  case (EvPadding now rndSN rndTS num frameRate forceMarker)
  then have pk: "fwd_padding_ok f out rndSN num" using ok by simp
  note M = maybeStart_inv [OF inv pk, of now rndTS]
  show ?thesis
    using x EvPadding pk padding_step_inv [OF M, of num]
    by (auto simp: GetSnTsForPadding_def Let_def fwd_padding_ok_def split: prod.splits)
next
  case (EvBlankFrames env rndSN rndTS frameRate num)
  then have pk: "fwd_padding_ok f out rndSN num" using ok by simp
  note M = maybeStart_inv [OF inv pk, of "env_now env" rndTS]
  show ?thesis
    using x EvBlankFrames pk padding_step_inv [OF M, of num] padding_step_inv [OF M, of "num + 1"]
    by (auto simp: GetSnTsForBlankFrames_def Let_def fwd_padding_ok_def split: prod.splits if_splits)
qed (use x settings_inv [OF settings_ops(1) inv] settings_inv [OF settings_ops(2) inv] settings_inv [OF settings_ops(3) inv]
    settings_inv [OF settings_ops(4) inv] settings_inv [OF settings_ops(5) inv] settings_inv [OF settings_ops(6) inv] in auto)

lemma fwd_run_inv: "fwd_run mo bo es f out = Some (f', out') \<Longrightarrow> fwd_inv f out \<Longrightarrow> fwd_inv f' out'"
  by (induction es arbitrary: f out) (auto dest: fwd_step_inv split: if_splits option.splits)

lemma NewForwarder_inv: "fwd_inv (NewForwarder kind skip dis) []"
  by (simp add: NewForwarder_def Let_def fwd_inv_def onVls_def)

section \<open>Properties\<close>

text \<open>An audio track for the witnesses: the codec, packets of two sources, and a forwarder that has sent the first packet.\<close>

definition demo_env :: FwdEnv where
  "demo_env = \<lparr>env_now = 0, env_ntpTime = (\<lambda>_. 0), env_toRTPExt = (\<lambda>_. 0), env_rtpStats = None\<rparr>"

definition demo_in :: "u32 \<Rightarrow> u64 \<Rightarrow> u64 \<Rightarrow> ExtPacket" where
  "demo_in ssrc sn ts = (demo_pkt sn ts)\<lparr>ep_Packet := (ep_Packet (demo_pkt sn ts))\<lparr>rtp_SSRC := ssrc\<rparr>\<rparr>"

definition demo_fwd_events :: "fwdEvent list" where
  "demo_fwd_events = [EvCodec MimeTypeOther 48000 False VideoLayer_MODE_UNUSED, EvPacket demo_env (demo_in 1 100 9000) 0,
     EvMute True True, EvMute False True, EvPadding 0 0 0 1 50 True, EvPacket demo_env (demo_in 2 7 500) 0]"

lemma demo_fwd_run:
  "map_option snd (fwd_run alist_ops alist_ops demo_fwd_events (NewForwarder RTPCodecTypeAudio False False) []) = Some [100, 101, 102]"
  by code_simp



end
