(* ===== verification/Translate_Switch.thy ===== *)
theory Translate_Switch
  imports Translate_Properties
begin

text \<open>
  Switches of the source of a feed: the first packet of the new source, also after a move to another node, the mapping of
  timestamps between layers, and that the operations of a forwarder do not panic.
\<close>

section \<open>The first packet after a switch\<close>

lemma sint_one_step: "sint (k - (k - 1) :: u64) = 1"
  by simp

lemma switched_packet:
  assumes inv: "munger_inv r" and k: "0 < ep_ExtSequenceNumber p" "ep_ExtSequenceNumber p < 2 ^ 63 - 1" "extLastSN r < 2 ^ 63 - 1"
    and x: "UpdateAndGetSnTs (UpdateSnTsOffsets r p 1 ts) p m = (r', tp, None)"
  shows "tp_extSequenceNumber tp = extLastSN r + 1" "tp_extTimestamp tp - extLastTS r = ts"
proof -
  let ?r = "UpdateSnTsOffsets r p 1 ts"
  have U: "tight ?r" "extLastSN ?r = extLastSN r" "extHighestIncomingSN ?r = ep_ExtSequenceNumber p - 1"
    using UpdateSnTsOffsets_inv [OF inv k, of ts] by simp_all
  then have sn: "ep_ExtSequenceNumber p - snOffset ?r = extLastSN r + 1" by (simp add: tight_def next_out_def)
  have to: "tsOffset ?r = ep_ExtTimestamp p - extLastTS r - ts" by (simp add: UpdateSnTsOffsets_def updateSnOffset_def Let_def)
  have "tp = snd (updateInOrder ?r p m SequenceNumberOrderingContiguous)"
    using x by (auto simp: UpdateAndGetSnTs_def U(3) Let_def split: if_splits prod.splits)
  then show "tp_extSequenceNumber tp = extLastSN r + 1" "tp_extTimestamp tp - extLastTS r = ts"
    using sn to by simp_all
qed

text \<open>The parameters of a packet that is not dropped come from the munger.\<close>

lemma translatePacket_rtp:
  assumes "translatePacket mo bo p tp f = (f', tp', err)" "\<not> tp_shouldDrop tp'" "\<not> tp_shouldDrop tp"
  obtains r where "UpdateAndGetSnTs (f_rtpMunger f) p (tp_marker tp) = (r, tp_rtp tp', None)"
proof -
  obtain r tpRTP e where U: "UpdateAndGetSnTs (f_rtpMunger f) p (tp_marker tp) = (r, tpRTP, e)" using prod_cases3 by blast
  have e: "e = None" using assms U by (cases e) (auto simp: translatePacket_def)
  then have "snOrdering tpRTP \<noteq> SequenceNumberOrderingDuplicate" using U UpdateAndGetSnTs_ordering by blast
  then have "tp_rtp tp' = tpRTP"
    using assms U e translateCodecHeader_exec(5) [of mo bo p "tp\<lparr>tp_rtp := tpRTP\<rparr>" "f\<lparr>f_rtpMunger := r\<rparr>" f' tp' err]
    by (auto simp: translatePacket_def Let_def split: if_splits)
  then show ?thesis using that U e by simp
qed

lemma common_switch:
  assumes x: "getTranslationParamsCommon mo bo env p layer tp f = Some (f', tp', err)" and nd: "\<not> tp_shouldDrop tp" "\<not> tp_shouldDrop tp'"
    and st: "f_started f" "f_lastSSRC f \<noteq> rtp_SSRC (ep_Packet p)"
  obtains r ts where "UpdateAndGetSnTs (UpdateSnTsOffsets (f_rtpMunger f) p 1 ts) p (tp_marker tp) = (r, tp_rtp tp', None)" "sint ts > 0"
proof -
  obtain f0 e where P: "processSourceSwitch mo bo env p layer f = Some (f0, e)"
    using x st by (auto simp: getTranslationParamsCommon_def bind_eq_Some_conv)
  have e: "e = None" using x st nd by (auto simp: getTranslationParamsCommon_def P split: if_splits)
  define f1 where "f1 = f0\<lparr>f_lastSSRC := rtp_SSRC (ep_Packet p),
      f_lastReferencePayloadType := sint (rtp_PayloadType (ep_Packet p)), f_lastSwitchExtIncomingTS := ep_ExtTimestamp p\<rparr>"
  have f1: "f_rtpMunger f1 = f_rtpMunger f0" "translatePacket mo bo p tp f1 = (f', tp', err)"
    using x st e by (simp_all add: getTranslationParamsCommon_def P f1_def)
  from P obtain ts where ts: "f_rtpMunger f0 = UpdateSnTsOffsets (f_rtpMunger f) p 1 ts" "sint ts > 0"
    by (cases rule: processSourceSwitch_cases) (use e st in auto)
  show ?thesis
    by (rule translatePacket_rtp [OF f1(2) nd(2,1)]) (use that ts f1 in metis)
qed

lemma video_common:
  assumes x: "getTranslationParamsVideo mo bo env p layer f = Some (f', tp', err)" and nd: "\<not> tp_shouldDrop tp'"
  obtains g g' tp err' where "getTranslationParamsCommon mo bo env p layer tp g = Some (g', tp', err')" "\<not> tp_shouldDrop tp"
    "f_rtpMunger g = f_rtpMunger f" "f_started g = f_started f" "f_lastSSRC g = f_lastSSRC f"
proof -
  have t: "layer_IsValid (f_target f)" by (rule ccontr) (use x nd in \<open>auto simp: getTranslationParamsVideo_def\<close>)
  then obtain v result where v: "vls_Select p layer (f_vls f) = Some (v, result)"
    using x by (auto simp: getTranslationParamsVideo_def bind_eq_Some_conv)
  have sel: "IsSelected result" by (rule ccontr) (use x nd t v in \<open>auto simp: getTranslationParamsVideo_def\<close>)
  define tp0 where "tp0 = zeroParams\<lparr>tp_isResuming := IsResuming result, tp_isSwitching := IsSwitching result,
      tp_ddBytes := DependencyDescriptorExtension result, tp_marker := RTPMarker result\<rparr>"
  obtain e where "getTranslationParamsCommon mo bo env p layer tp0 (f\<lparr>f_vls := v\<rparr>) = Some (f', tp', e)"
    using x nd t v sel by (auto simp: getTranslationParamsVideo_def tp0_def bind_eq_Some_conv split: if_splits)
  then show ?thesis by (rule that) (simp_all add: tp0_def zeroParams_def)
qed

lemma translate_common:
  assumes "GetTranslationParams mo bo env p layer f = Some (f', tp', err)" "\<not> tp_shouldDrop tp'"
  obtains g g' tp err' where "getTranslationParamsCommon mo bo env p layer tp g = Some (g', tp', err')" "\<not> tp_shouldDrop tp"
    "f_rtpMunger g = f_rtpMunger f" "f_started g = f_started f" "f_lastSSRC g = f_lastSSRC f"
proof (cases "f_kind f")
  case RTPCodecTypeAudio
  then obtain tp1 e where "getTranslationParamsCommon mo bo env p layer zeroParams f = Some (f', tp1, e)" "tp' = tp1"
    using assms by (auto simp: GetTranslationParams_def getTranslationParamsAudio_def bind_eq_Some_conv split: if_splits)
  then show ?thesis using that by (simp add: zeroParams_def)
next
  case RTPCodecTypeVideo
  then have "getTranslationParamsVideo mo bo env p layer f = Some (f', tp', err)"
    using assms by (auto simp: GetTranslationParams_def split: if_splits)
  then show ?thesis using assms(2) that by (rule video_common)
qed (use assms in \<open>auto simp: GetTranslationParams_def split: if_splits\<close>)

lemma switch_continues:
  assumes x: "GetTranslationParams mo bo env p layer f = Some (f', tp, err)" "\<not> tp_shouldDrop tp"
    and st: "f_started f" "f_lastSSRC f \<noteq> rtp_SSRC (ep_Packet p)" and inv: "munger_inv (f_rtpMunger f)"
    and k: "0 < ep_ExtSequenceNumber p" "ep_ExtSequenceNumber p < 2 ^ 63 - 1" "extLastSN (f_rtpMunger f) < 2 ^ 63 - 1"
  shows "tp_extSequenceNumber (tp_rtp tp) = extLastSN (f_rtpMunger f) + 1 \<and>
    sint (tp_extTimestamp (tp_rtp tp) - extLastTS (f_rtpMunger f)) > 0"
proof (rule translate_common [OF x])
  fix g g' tp0 e assume c: "getTranslationParamsCommon mo bo env p layer tp0 g = Some (g', tp, e)" "\<not> tp_shouldDrop tp0"
    and g: "f_rtpMunger g = f_rtpMunger f" "f_started g = f_started f" "f_lastSSRC g = f_lastSSRC f"
  obtain r ts where "UpdateAndGetSnTs (UpdateSnTsOffsets (f_rtpMunger f) p 1 ts) p (tp_marker tp0) = (r, tp_rtp tp, None)" "sint ts > 0"
    using common_switch [OF c x(2)] st g by metis
  then show ?thesis using switched_packet [OF inv k] by simp
qed

section \<open>Timestamps of the layers\<close>

lemma timeSub_swap:
  assumes "\<bar>t - u\<bar> < 2 ^ 63"
  shows "timeSub u t = - timeSub t u"
  using assms by (auto simp: timeSub_def max_def min_def)

lemma rtpTicks_minus:
  assumes "\<bar>ns * uint c\<bar> < 2 ^ 63"
  shows "rtpTicks (- ns) c = - rtpTicks ns c"
proof -
  have "- (2 ^ 63) \<le> ns * uint c" "ns * uint c < 2 ^ 63" "- (2 ^ 63) \<le> - (ns * uint c)" "- (ns * uint c) < 2 ^ 63"
    using assms by (simp_all add: abs_less_iff)
  then have "signed_take_bit 63 (ns * uint c) = ns * uint c" "signed_take_bit 63 (- (ns * uint c)) = - (ns * uint c)"
    by (intro signed_take_bit_int_eq_self; simp)+
  then show ?thesis by (simp add: rtpTicks_def signed_divide_int_def sgn_mult)
qed

lemma take_bit_minus_take: "take_bit 32 (- take_bit 64 k) = take_bit 32 (- k)" for k :: int
proof -
  have "take_bit 32 (- take_bit 64 k) = take_bit 32 (- take_bit 32 (take_bit 64 k))" by (simp only: take_bit_minus)
  also have "\<dots> = take_bit 32 (- k)" by (simp add: take_bit_minus)
  finally show ?thesis .
qed

lemma ucast_minus_u32: "(ucast (- w :: u64) :: u32) = - ucast w"
  by transfer (simp add: take_bit_minus_take)

text \<open>The reports of two layers as the mapping reads them.\<close>

definition reportAt :: "('m, 'b) Forwarder \<Rightarrow> int \<Rightarrow> RTCPSenderReportState option" where
  "reportAt f layer = refInfoAt f layer \<bind> ri_senderReport"

lemma getRefLayerRTPTimestamp_reports:
  assumes "a \<noteq> b" "f_refVideoLayerMode f \<noteq> VideoLayer_MULTIPLE_SPATIAL_LAYERS_PER_STREAM"
    and "reportAt f a = Some srA" "sr_NtpTimestamp srA \<noteq> 0" "reportAt f b = Some srB" "sr_NtpTimestamp srB \<noteq> 0"
  shows "getRefLayerRTPTimestamp env ts a b f = Some (Inr (ts + (sr_RtpTimestamp srA - (sr_RtpTimestamp srB +
    ucast (rtpTicks (timeSub (env_ntpTime env (sr_NtpTimestamp srA)) (env_ntpTime env (sr_NtpTimestamp srB))) (f_clockRate f))))))"
proof -
  obtain ra rb where "refInfoAt f a = Some ra" "ri_senderReport ra = Some srA" "refInfoAt f b = Some rb" "ri_senderReport rb = Some srB"
    using assms by (auto simp: reportAt_def bind_eq_Some_conv)
  moreover from this have "0 \<le> a" "\<not> a > int (length (f_refInfos f))" "0 \<le> b" "\<not> b > int (length (f_refInfos f))"
    by (auto simp: refInfoAt_def split: if_splits)
  ultimately show ?thesis using assms by (simp add: getRefLayerRTPTimestamp_def Let_def)
qed

text \<open>
  The bounds check of the mapping lets the length of the array pass: such a layer is not reported as an error but panics.
  Callers only pass layers below the length.
\<close>

lemma ref_layer_check_too_weak:
  assumes "f_refVideoLayerMode f \<noteq> VideoLayer_MULTIPLE_SPATIAL_LAYERS_PER_STREAM" "f_refInfos f \<noteq> []"
  shows "getRefLayerRTPTimestamp env ts (int (length (f_refInfos f))) 0 f = None"
  using assms by (simp add: getRefLayerRTPTimestamp_def refInfoAt_def)

section \<open>Panics\<close>

text \<open>What keeps the indices in range and the selector's chains alive.\<close>

fun vls_wf :: "VideoLayerSelector \<Rightarrow> bool" where
  "vls_wf (VlsDD d) \<longleftrightarrow> dds_wf d"
| "vls_wf _ \<longleftrightarrow> True"

definition fwd_wf :: "('m, 'b) Forwarder \<Rightarrow> bool" where
  "fwd_wf f \<longleftrightarrow> length (f_refInfos f) = 3 \<and> f_referenceLayerSpatial f \<in> {- 1..2} \<and> vls_wf (f_vls f)"

definition pkt_wf :: "ExtPacket \<Rightarrow> int \<Rightarrow> bool" where
  "pkt_wf p layer \<longleftrightarrow> layer \<in> {0..2} \<and> (\<forall>x. ep_DependencyDescriptor p = Some x \<longrightarrow> edd_wf x)"

lemma vls_wf_onBase [simp]: "vls_wf (vls_onBase g v) = vls_wf v"
  by (cases v) (simp_all add: dds_wf_def)

lemma vls_wf_Rollback [simp]: "vls_wf (vls_Rollback v) = vls_wf v"
  by (cases v) (simp_all add: dds_wf_def dds_Rollback_def)

lemma vls_wf_new [simp]: "vls_wf (NewSimulcastFromOther v)" "vls_wf (NewVP9FromOther v)" "vls_wf (NewDependencyDescriptorFromOther v)"
  by (simp_all add: NewSimulcastFromOther_def NewVP9FromOther_def NewDependencyDescriptorFromOther_def NewDependencyDescriptor_def dds_wf_def)

lemma vls_Select_ok:
  assumes "vls_wf v" "pkt_wf p layer"
  shows "\<exists>v' res. vls_Select p layer v = Some (v', res) \<and> vls_wf v'"
proof (cases v)
  case (VlsDD d)
  then show ?thesis using dds_Select_ok [of d p] assms by (auto simp: pkt_wf_def)
next
  case (VlsSimulcast b)
  then show ?thesis by (cases "simulcast_Select p layer b") simp
next
  case (VlsVP9 b)
  then show ?thesis by (cases "vp9_Select p b") simp
qed (simp add: base_Select_def)

lemma fwd_wf_onVls [simp]: "fwd_wf (onVls g f) = fwd_wf f"
  by (simp add: fwd_wf_def onVls_def)

lemma expectedTS_wf: "expectedTS env l x f = (f', e, y) \<Longrightarrow> fwd_wf f' = fwd_wf f"
  by (auto simp: expectedTS_def fwd_wf_def Let_def split: option.splits if_splits)

lemma nextTS_wf: "nextTS e x l f = (f', res) \<Longrightarrow> fwd_wf f' = fwd_wf f"
  by (auto simp: nextTS_def fwd_wf_def split: if_splits)

lemma switchOffsets_wf: "switchOffsets mo bo env p refTS f = (f', err) \<Longrightarrow> fwd_wf f' = fwd_wf f"
  by (auto simp: switchOffsets_def Let_def fwd_wf_def dest!: expectedTS_wf nextTS_wf split: prod.splits sum.splits)

lemma getRef_ok:
  assumes "length (f_refInfos f) = 3" "a \<le> 2" "b \<in> {0..2}"
  shows "\<exists>r. getRefLayerRTPTimestamp env ts a b f = Some r"
  using assms by (cases "a < 0") (auto simp: getRefLayerRTPTimestamp_def refInfoAt_def)

lemma switchSource_ok:
  assumes "fwd_wf f" "layer \<in> {0..2}"
  shows "\<exists>f' err. switchSource mo bo env p layer f = Some (f', err) \<and> fwd_wf f'"
proof -
  have "\<exists>ref. (if f_skipReferenceTS f then Some (Inr (ucast (st_ExtLastTimestamp (GetState (f_rtpMunger f)))))
      else getRefLayerRTPTimestamp env (rtp_Timestamp (ep_Packet p)) (f_referenceLayerSpatial f) layer f) = Some ref"
    using getRef_ok [of f "f_referenceLayerSpatial f" layer env "rtp_Timestamp (ep_Packet p)"] assms
    by (cases "f_skipReferenceTS f") (auto simp: fwd_wf_def)
  then obtain ref where "(if f_skipReferenceTS f then Some (Inr (ucast (st_ExtLastTimestamp (GetState (f_rtpMunger f)))))
      else getRefLayerRTPTimestamp env (rtp_Timestamp (ep_Packet p)) (f_referenceLayerSpatial f) layer f) = Some ref" ..
  then show ?thesis
    using assms switchOffsets_wf [of mo bo env p]
    by (cases ref; cases "switchOffsets mo bo env p (projr ref) f") (auto simp: switchSource_def)
qed

lemma processSourceSwitch_ok:
  assumes "fwd_wf f" "layer \<in> {0..2}"
  shows "\<exists>f' err. processSourceSwitch mo bo env p layer f = Some (f', err) \<and> fwd_wf f'"
proof -
  have "fwd_wf (f\<lparr>f_referenceLayerSpatial := layer, f_codecMunger := cm_SetLast p (f_codecMunger f)\<rparr>)"
    and w: "fwd_wf (f\<lparr>f_started := True, f_referenceLayerSpatial := layer, f_rtpMunger := r, f_codecMunger := cm\<rparr>)" for cm r
    using assms by (simp_all add: fwd_wf_def)
  from switchSource_ok [OF this(1) assms(2)] switchSource_ok [OF assms] w assms(1) show ?thesis
    by (cases "f_started f"; cases "f_referenceLayerSpatial f = InvalidLayerSpatial"; cases "ep_IsOutOfOrder p")
      (simp_all add: processSourceSwitch_def)
qed

lemma translatePacket_wf:
  assumes "fwd_wf f"
  shows "fwd_wf (fst (translatePacket mo bo p tp f))"
proof -
  have "fwd_wf (fst (translateCodecHeader mo bo p tp1 f1))" if "fwd_wf f1" for tp1 and f1 :: "('a, 'b) Forwarder"
    using that by (auto simp: translateCodecHeader_def vls_SelectTemporal_def Let_def fwd_wf_def
        split: prod.split sum.split codecMungerErr.split)
  moreover have "fwd_wf (f\<lparr>f_rtpMunger := r\<rparr>)" for r using assms by (simp add: fwd_wf_def)
  ultimately show ?thesis by (auto simp: translatePacket_def Let_def split: prod.split option.split)
qed

lemma common_ok:
  assumes "fwd_wf f" "layer \<in> {0..2}"
  shows "\<exists>f' tp' err. getTranslationParamsCommon mo bo env p layer tp f = Some (f', tp', err) \<and> fwd_wf f'"
proof (cases "f_lastSSRC f = rtp_SSRC (ep_Packet p)")
  case True
  then show ?thesis using translatePacket_wf [OF assms(1), of mo bo p tp]
    by (cases "translatePacket mo bo p tp f") (simp add: getTranslationParamsCommon_def)
next
  case False
  obtain f0 e where P: "processSourceSwitch mo bo env p layer f = Some (f0, e)" and w: "fwd_wf f0"
    using processSourceSwitch_ok [OF assms] by blast
  define f1 where "f1 = f0\<lparr>f_lastSSRC := rtp_SSRC (ep_Packet p),
      f_lastReferencePayloadType := sint (rtp_PayloadType (ep_Packet p)), f_lastSwitchExtIncomingTS := ep_ExtTimestamp p\<rparr>"
  have "fwd_wf f1" "fwd_wf (f0\<lparr>f_vls := vls_Rollback (f_vls f0)\<rparr>)" using w by (simp_all add: f1_def fwd_wf_def)
  then show ?thesis using False translatePacket_wf [of f1 mo bo p tp]
    by (cases "translatePacket mo bo p tp f1") (simp add: getTranslationParamsCommon_def P f1_def)
qed

lemma rejectPacket_wf: "fwd_wf f \<Longrightarrow> fwd_wf (rejectPacket p res f)"
  by (auto simp: rejectPacket_def fwd_wf_def Let_def split: MimeType.split prod.split option.split)

lemma translate_ok:
  assumes "fwd_wf f" "pkt_wf p layer"
  shows "\<exists>f' tp err. GetTranslationParams mo bo env p layer f = Some (f', tp, err) \<and> fwd_wf f'"
proof -
  have l: "layer \<in> {0..2}" using assms(2) by (simp add: pkt_wf_def)
  obtain v res where v: "vls_Select p layer (f_vls f) = Some (v, res)" "vls_wf v"
    using vls_Select_ok [of "f_vls f" p layer] assms by (auto simp: fwd_wf_def)
  define f1 where "f1 = f\<lparr>f_vls := v\<rparr>"
  have f1: "fwd_wf f1" using assms(1) v(2) by (simp add: f1_def fwd_wf_def)
  define tp0 where "tp0 = zeroParams\<lparr>tp_isResuming := IsResuming res, tp_isSwitching := IsSwitching res,
      tp_ddBytes := DependencyDescriptorExtension res, tp_marker := RTPMarker res\<rparr>"
  obtain f2 tp2 e2 where c: "getTranslationParamsCommon mo bo env p layer tp0 f1 = Some (f2, tp2, e2)" "fwd_wf f2"
    using common_ok [OF f1 l] by blast
  have "\<exists>f' tp err. getTranslationParamsVideo mo bo env p layer f = Some (f', tp, err) \<and> fwd_wf f'"
    using assms(1) c rejectPacket_wf [OF f1] by (simp add: getTranslationParamsVideo_def v flip: f1_def tp0_def)
  moreover obtain f3 tp3 e3 where "getTranslationParamsCommon mo bo env p layer zeroParams f = Some (f3, tp3, e3)" "fwd_wf f3"
    using common_ok [OF assms(1) l] by blast
  then have "\<exists>f' tp err. getTranslationParamsAudio mo bo env p layer f = Some (f', tp, err) \<and> fwd_wf f'"
    by (simp add: getTranslationParamsAudio_def)
  ultimately show ?thesis using assms(1) by (cases "f_kind f") (simp_all add: GetTranslationParams_def)
qed

fun event_wf :: "fwdEvent \<Rightarrow> bool" where
  "event_wf (EvPacket env p layer) \<longleftrightarrow> pkt_wf p layer"
| "event_wf _ \<longleftrightarrow> True"

lemma settings_wf:
  assumes "fwd_wf f"
  shows "fwd_wf (fst (Mute muted mutable f))" "fwd_wf (fst (PubMute muted f))" "fwd_wf (Restart f)"
    "fwd_wf (DetermineCodec mo bo mime clockRate ddAvailable mode f)" "fwd_wf (fst (updateAllocation alloc f))"
    "fwd_wf (SetRefSenderReport layer sr f)" "fwd_wf (maybeStart now rndSN rndTS f)"
proof -
  have r: "fwd_wf (resyncLocked g)" if "fwd_wf g" for g :: "('a, 'b) Forwarder"
    using that by (simp add: resyncLocked_def Let_def) (simp add: fwd_wf_def onVls_def)
  have s: "fwd_wf (f\<lparr>f_muted := b\<rparr>)" "fwd_wf (f\<lparr>f_pubMuted := b\<rparr>)" "fwd_wf (f\<lparr>f_lastAllocation := al\<rparr>)" for b al
    using assms by (simp_all add: fwd_wf_def)
  show "fwd_wf (fst (Mute muted mutable f))" "fwd_wf (fst (PubMute muted f))"
    "fwd_wf (fst (updateAllocation alloc f))"
    using assms s by (auto simp: Mute_def PubMute_def updateAllocation_def setTargetLayer_def Let_def intro!: r)
  have "fwd_wf (setTargetLayer InvalidLayer InvalidLayerSpatial (resyncLocked f))" using r [OF assms] by (simp add: setTargetLayer_def)
  then show "fwd_wf (Restart f)" by (simp add: Restart_def Let_def) (simp add: fwd_wf_def layer_consts)
  show "fwd_wf (DetermineCodec mo bo mime clockRate ddAvailable mode f)"
    using assms by (simp add: DetermineCodec_def Let_def onVls_def fwd_wf_def split: MimeType.split)
  show "fwd_wf (SetRefSenderReport layer sr f)" "fwd_wf (maybeStart now rndSN rndTS f)"
    using assms by (simp_all add: SetRefSenderReport_def maybeStart_def Let_def fwd_wf_def)
qed

lemma fwd_exec_ok:
  assumes "fwd_wf f" "event_wf e"
  shows "\<exists>f' out. fwd_exec mo bo e f = Some (f', out) \<and> fwd_wf f'"
proof -
  have m: "fwd_wf ((maybeStart now rndSN rndTS f)\<lparr>f_rtpMunger := r\<rparr>)" for now rndSN rndTS r
    using settings_wf(7) [OF assms(1)] by (simp add: fwd_wf_def)
  show ?thesis
  proof (cases e)
    case (EvPacket env p layer)
    then show ?thesis using translate_ok [OF assms(1), of p layer mo bo env] assms(2) by auto
  qed (use m settings_wf [OF assms(1)] in \<open>auto simp: GetSnTsForPadding_def GetSnTsForBlankFrames_def Let_def split: prod.split\<close>)
qed

lemma fwd_run_wf: "fwd_run mo bo es f out = Some (f', out') \<Longrightarrow> \<forall>e\<in>set es. event_wf e \<Longrightarrow> fwd_wf f \<Longrightarrow> fwd_wf f'"
proof (induction es arbitrary: f out)
  case (Cons e es)
  then obtain f1 out1 where "fwd_exec mo bo e f = Some (f1, out1)" "fwd_run mo bo es f1 (out @ out1) = Some (f', out')"
    by (auto split: if_splits option.splits)
  then show ?case using Cons fwd_exec_ok [of f e mo bo] by auto
qed simp

lemma NewForwarder_wf: "fwd_wf (NewForwarder kind skip dis)"
  by (simp add: NewForwarder_def Let_def fwd_wf_def onVls_def layer_consts)

lemma NewForwarder_fields: "f_rtpMunger (NewForwarder kind skip dis) = NewRTPMunger" "f_lastSSRC (NewForwarder kind skip dis) = 0"
  "length (f_refInfos (NewForwarder kind skip dis)) = 3"
  by (simp_all add: NewForwarder_def Let_def onVls_def layer_consts)

lemma seed_ok:
  assumes "fs_Started st" "length (fs_SenderReportState st) \<le> length (f_refInfos f)"
  shows "\<exists>g. fwd_SeedState (Some st) f = Some g \<and> f_started g \<and> f_rtpMunger g = SeedState (f_rtpMunger f) (fs_RtpMunger st) \<and>
    f_lastSSRC g = f_lastSSRC f"
  using assms by (simp add: fwd_SeedState_def Let_def)

section \<open>Properties\<close>

text \<open>
  C2: Whenever the source of a started forwarder changes (a layer switch, a resume after a mute, a new publisher track), the
  first packet of the new source that is forwarded continues the stream: its sequence number is the successor of the last one
  and its timestamp is ahead of the last one, whatever the clocks, the sender reports and the expected timestamp say.
\<close>

theorem source_switch_continues:
  assumes "fwd_run mo bo es (NewForwarder kind skipReferenceTS dis) [] = Some (f, out)"
    and "f_started f" "f_lastSSRC f \<noteq> rtp_SSRC (ep_Packet p)" "pkt_ok f p"
    and "GetTranslationParams mo bo env p layer f = Some (f', tp, err)" "\<not> tp_shouldDrop tp"
  shows "tp_extSequenceNumber (tp_rtp tp) = extLastSN (f_rtpMunger f) + 1 \<and>
    sint (tp_extTimestamp (tp_rtp tp) - extLastTS (f_rtpMunger f)) > 0"
proof -
  have inv: "munger_inv (f_rtpMunger f)" "extLastSN (f_rtpMunger f) \<le> next_out (f_rtpMunger f)"
    using fwd_run_inv [OF assms(1) NewForwarder_inv] assms(2) by (simp_all add: fwd_inv_def run_inv_def)
  have "0 < ep_ExtSequenceNumber p" "ep_ExtSequenceNumber p < 2 ^ 63 - 1" "extLastSN (f_rtpMunger f) < 2 ^ 63 - 1"
    using assms(4) pkt_ok_nat [OF assms(4)] inv(2) by (simp_all add: pkt_ok_def word_nat)
  then show ?thesis by (rule switch_continues [OF assms(5,6,2,3) inv(1)])
qed

definition demo_started_events :: "fwdEvent list" where
  "demo_started_events = [EvCodec MimeTypeOther 48000 False VideoLayer_MODE_UNUSED, EvPacket demo_env (demo_in 1 100 9000) 0]"

definition demo_forwarder :: "((int, int) alist, (int, bool) alist) Forwarder option" where
  "demo_forwarder = map_option fst (fwd_run alist_ops alist_ops demo_started_events (NewForwarder RTPCodecTypeAudio False False) [])"

lemma demo_switch:
  "(case demo_forwarder of None \<Rightarrow> False | Some f \<Rightarrow>
      f_started f \<and> f_lastSSRC f = 1 \<and> pkt_ok f (demo_in 2 7 9960) \<and> extLastSN (f_rtpMunger f) = 100 \<and>
      (case GetTranslationParams alist_ops alist_ops demo_env (demo_in 2 7 9960) 0 f of None \<Rightarrow> False
       | Some (f', tp, err) \<Rightarrow> \<not> tp_shouldDrop tp))"
  by code_simp

theorem source_switch_continues_witness:
  "\<exists>f f' tp err. demo_forwarder = Some f \<and> GetTranslationParams alist_ops alist_ops demo_env (demo_in 2 7 9960) 0 f = Some (f', tp, err) \<and>
     tp_extSequenceNumber (tp_rtp tp) = 101 \<and> sint (tp_extTimestamp (tp_rtp tp) - extLastTS (f_rtpMunger f)) > 0"
proof -
  obtain f f' tp err where f: "demo_forwarder = Some f" "f_started f" "f_lastSSRC f = 1" "pkt_ok f (demo_in 2 7 9960)"
    "extLastSN (f_rtpMunger f) = 100" and g: "GetTranslationParams alist_ops alist_ops demo_env (demo_in 2 7 9960) 0 f = Some (f', tp, err)"
    "\<not> tp_shouldDrop tp" using demo_switch by (auto split: option.splits)
  moreover obtain out where r: "fwd_run alist_ops alist_ops demo_started_events (NewForwarder RTPCodecTypeAudio False False) [] = Some (f, out)"
    using f(1) by (auto simp: demo_forwarder_def)
  ultimately show ?thesis using source_switch_continues [OF r f(2) _ f(4) g] by (auto simp: demo_in_def)
qed

text \<open>
  C3: A move to another node: seeding a new forwarder with the state of a started one succeeds, and whatever the settings of the
  new forwarder become, its first forwarded packet continues the stream of the old node: the next sequence number, and a
  timestamp ahead of the last one the old node sent.
\<close>

theorem migration_continues:
  fixes f :: "('m, 'b) Forwarder" and mo :: "('m, int) OrderedMapOps" and bo :: "('b, bool) OrderedMapOps"
  assumes "fwd_GetState f = Some st" "length (f_refInfos f) = 3" "rtp_SSRC (ep_Packet p) \<noteq> 0"
    and k: "0 < ep_ExtSequenceNumber p" "ep_ExtSequenceNumber p < 2 ^ 63 - 1" "extLastSN (f_rtpMunger f) < 2 ^ 63 - 1"
  shows "\<exists>g. fwd_SeedState (Some st) (NewForwarder kind skip dis) = Some g \<and>
    (\<forall>g' f' tp err. settings_only g g' \<and> GetTranslationParams mo bo env p layer g' = Some (f', tp, err) \<and> \<not> tp_shouldDrop tp \<longrightarrow>
       tp_extSequenceNumber (tp_rtp tp) = extLastSN (f_rtpMunger f) + 1 \<and>
       sint (tp_extTimestamp (tp_rtp tp) - extLastTS (f_rtpMunger f)) > 0)"
proof -
  define r where "r = SeedState NewRTPMunger (GetState (f_rtpMunger f))"
  have r: "munger_inv r" "extLastSN r = extLastSN (f_rtpMunger f)" "extLastTS r = extLastTS (f_rtpMunger f)"
    using NewRTPMunger_inv by (simp_all add: r_def SeedState_def GetState_def munger_inv_def)
  have st: "fs_Started st" "fs_RtpMunger st = GetState (f_rtpMunger f)" "length (fs_SenderReportState st) = 3"
    using assms(1,2) by (auto simp: fwd_GetState_def split: if_splits)
  obtain g :: "('m, 'b) Forwarder" where g: "fwd_SeedState (Some st) (NewForwarder kind skip dis) = Some g"
    "f_started g" "f_rtpMunger g = r" "f_lastSSRC g = 0"
    using seed_ok [of st "NewForwarder kind skip dis :: ('m, 'b) Forwarder"] st
    by (auto simp: r_def NewForwarder_fields)
  have "tp_extSequenceNumber (tp_rtp tp) = extLastSN r + 1 \<and> sint (tp_extTimestamp (tp_rtp tp) - extLastTS r) > 0"
    if "settings_only g g'" "GetTranslationParams mo bo env p layer g' = Some (f', tp, err)" "\<not> tp_shouldDrop tp" for g' f' tp err
  proof -
    have "f_started g'" "f_lastSSRC g' \<noteq> rtp_SSRC (ep_Packet p)" "f_rtpMunger g' = r"
      using that(1) g assms(3) by (auto simp: settings_only_def)
    then show ?thesis using switch_continues [OF that(2,3)] k r by simp
  qed
  then show ?thesis using g(1) r by auto
qed

definition demo_old :: "((int, int) alist, (int, bool) alist) Forwarder" where
  "demo_old = (NewForwarder RTPCodecTypeAudio False False)\<lparr>f_started := True, f_referenceLayerSpatial := 0, f_rtpMunger :=
     NewRTPMunger\<lparr>extLastSN := 41, extLastTS := 9000\<rparr>\<rparr>"

definition demo_new :: "((int, int) alist, (int, bool) alist) Forwarder option" where
  "demo_new = fwd_SeedState (fwd_GetState demo_old) (NewForwarder RTPCodecTypeAudio False False)"

lemma demo_migration:
  "fwd_GetState demo_old \<noteq> None \<and> length (f_refInfos demo_old) = 3 \<and> extLastSN (f_rtpMunger demo_old) = 41 \<and>
   (case demo_new of None \<Rightarrow> False | Some g \<Rightarrow>
      (case GetTranslationParams alist_ops alist_ops demo_env (demo_in 2 7 500) 0 g of None \<Rightarrow> False
       | Some (f', tp, err) \<Rightarrow> \<not> tp_shouldDrop tp))"
  by code_simp

theorem migration_continues_witness:
  "\<exists>g f' tp err. demo_new = Some g \<and> GetTranslationParams alist_ops alist_ops demo_env (demo_in 2 7 500) 0 g = Some (f', tp, err) \<and>
     tp_extSequenceNumber (tp_rtp tp) = 42"
proof -
  obtain st where st: "fwd_GetState demo_old = Some st" using demo_migration by auto
  obtain g f' tp err where g: "demo_new = Some g"
    "GetTranslationParams alist_ops alist_ops demo_env (demo_in 2 7 500) 0 g = Some (f', tp, err)" "\<not> tp_shouldDrop tp"
    using demo_migration by (auto split: option.splits)
  have p: "rtp_SSRC (ep_Packet (demo_in 2 7 500)) \<noteq> 0" "0 < ep_ExtSequenceNumber (demo_in 2 7 500)"
    "ep_ExtSequenceNumber (demo_in 2 7 500) < 2 ^ 63 - 1" "extLastSN (f_rtpMunger demo_old) < 2 ^ 63 - 1"
    using demo_migration by (simp_all add: demo_in_def demo_pkt_def)
  have "settings_only g g" by (simp add: settings_only_def)
  moreover have "fwd_SeedState (Some st) (NewForwarder RTPCodecTypeAudio False False) = Some g" using g(1) st by (simp add: demo_new_def)
  ultimately have "tp_extSequenceNumber (tp_rtp tp) = extLastSN (f_rtpMunger demo_old) + 1"
    using migration_continues [OF st _ p, of RTPCodecTypeAudio False False alist_ops alist_ops demo_env 0] g(2,3) demo_migration by auto
  then show ?thesis using g demo_migration by auto
qed

text \<open>
  The mapping of timestamps between two simulcast layers by their sender reports is a bijection: mapping a timestamp of layer
  \<open>b\<close> to layer \<open>a\<close> and the result back gives the timestamp again, also across wrap-arounds, as long as the reports are less than
  \<open>2 ^ 63\<close> nanosecond ticks apart.
\<close>

theorem ref_timestamp_round_trip:
  assumes "a \<noteq> b" "f_refVideoLayerMode f \<noteq> VideoLayer_MULTIPLE_SPATIAL_LAYERS_PER_STREAM"
    and "reportAt f a = Some srA" "sr_NtpTimestamp srA \<noteq> 0" "reportAt f b = Some srB" "sr_NtpTimestamp srB \<noteq> 0"
    and d: "\<bar>env_ntpTime env (sr_NtpTimestamp srA) - env_ntpTime env (sr_NtpTimestamp srB)\<bar> < 2 ^ 63"
      "\<bar>(env_ntpTime env (sr_NtpTimestamp srA) - env_ntpTime env (sr_NtpTimestamp srB)) * uint (f_clockRate f)\<bar> < 2 ^ 63"
  shows "\<exists>ts'. getRefLayerRTPTimestamp env ts a b f = Some (Inr ts') \<and> getRefLayerRTPTimestamp env ts' b a f = Some (Inr ts)"
proof -
  let ?a = "env_ntpTime env (sr_NtpTimestamp srA)" and ?b = "env_ntpTime env (sr_NtpTimestamp srB)"
  have "timeSub ?a ?b = ?a - ?b" using d(1) by (simp add: timeSub_def abs_less_iff max_def min_def)
  then have "rtpTicks (timeSub ?b ?a) (f_clockRate f) = - rtpTicks (timeSub ?a ?b) (f_clockRate f)"
    using timeSub_swap [OF d(1)] rtpTicks_minus [of "?a - ?b" "f_clockRate f"] d(2) by simp
  moreover note getRefLayerRTPTimestamp_reports [OF assms(1-6), of env ts]
    getRefLayerRTPTimestamp_reports [OF assms(1) [symmetric] assms(2,5,6,3,4), of env]
  ultimately show ?thesis by (simp add: ucast_minus_u32)
qed

definition demo_reports :: "((int, int) alist, (int, bool) alist) Forwarder" where
  "demo_reports = (NewForwarder RTPCodecTypeVideo False False)\<lparr>f_clockRate := 90000, f_refInfos :=
     [noRefInfo\<lparr>ri_senderReport := Some \<lparr>sr_RtpTimestamp = 4294967000, sr_RtpTimestampExt = 4294967000, sr_NtpTimestamp = 1000000000\<rparr>\<rparr>,
      noRefInfo\<lparr>ri_senderReport := Some \<lparr>sr_RtpTimestamp = 500, sr_RtpTimestampExt = 500, sr_NtpTimestamp = 3000000000\<rparr>\<rparr>, noRefInfo]\<rparr>"

theorem ref_timestamp_round_trip_witness:
  "\<exists>ts'. getRefLayerRTPTimestamp (demo_env\<lparr>env_ntpTime := uint\<rparr>) 7000 0 1 demo_reports = Some (Inr ts') \<and>
     getRefLayerRTPTimestamp (demo_env\<lparr>env_ntpTime := uint\<rparr>) ts' 1 0 demo_reports = Some (Inr 7000)"
  by (rule ref_timestamp_round_trip [where
        srA = "\<lparr>sr_RtpTimestamp = 4294967000, sr_RtpTimestampExt = 4294967000, sr_NtpTimestamp = 1000000000\<rparr>" and
        srB = "\<lparr>sr_RtpTimestamp = 500, sr_RtpTimestampExt = 500, sr_NtpTimestamp = 3000000000\<rparr>"])
    (simp_all add: demo_reports_def NewForwarder_def onVls_def Let_def reportAt_def refInfoAt_def noRefInfo_def)



end
