(* ===== verification/Data_Track.thy ===== *)
theory Data_Track
  imports Prelude
begin

text \<open>
  \<^verbatim>\<open>pkg/rtc/datatrack\<close>: the wire format of data track packets (\<^verbatim>\<open>packet.go\<close>) and the extension that names the sender
  (\<^verbatim>\<open>extension_participant_sid.go\<close>). A packet comes from the network, so \<open>Unmarshal\<close> sees arbitrary bytes; a run-time panic is
  the error \<open>dtPanic\<close>. Slices have no spare capacity: the data channel copies every message into a buffer of its length.
\<close>

section \<open>Big-endian numbers\<close>

definition PutUint16 :: "u16 \<Rightarrow> bytes" where
  "PutUint16 v = [ucast (drop_bit 8 v), ucast v]"

definition Uint16 :: "bytes \<Rightarrow> u16" where
  "Uint16 b = ucast (b ! 1) OR push_bit 8 (ucast (b ! 0))"

definition PutUint32 :: "u32 \<Rightarrow> bytes" where
  "PutUint32 v = [ucast (drop_bit 24 v), ucast (drop_bit 16 v), ucast (drop_bit 8 v), ucast v]"

definition Uint32 :: "bytes \<Rightarrow> u32" where
  "Uint32 b = ucast (b ! 3) OR push_bit 8 (ucast (b ! 2)) OR push_bit 16 (ucast (b ! 1)) OR push_bit 24 (ucast (b ! 0))"

lemma length_PutUint [simp]: "length (PutUint16 v) = 2" "length (PutUint32 w) = 4"
  by (simp_all add: PutUint16_def PutUint32_def)

lemma Uint16_Put [simp]: "Uint16 (PutUint16 v) = v"
  by (rule bit_word_eqI) (auto simp: Uint16_def PutUint16_def bit_simps)

lemma Uint32_Put [simp]: "Uint32 (PutUint32 v) = v"
proof (rule bit_word_eqI)
  fix n assume "n < LENGTH(32)"
  then have "n < 32" by simp
  then have "n < 8 \<or> 8 \<le> n \<and> n < 16 \<or> 16 \<le> n \<and> n < 24 \<or> 24 \<le> n \<and> n < 32" by arith
  then show "bit (Uint32 (PutUint32 v)) n = bit v n"
    by (auto simp: Uint32_def PutUint32_def bit_simps)
qed

section \<open>Headers\<close>

datatype dtErr = errHeaderSizeInsufficient | errBufferSizeInsufficient | errExtensionSizeInsufficient | errExtensionNotFound
  | errExtensionSizeTooBig | dtPanic

record Extension =
  ext_id :: u8
  ext_data :: bytes

record Header =
  h_Version :: u8
  h_IsStartOfFrame :: bool
  h_IsFinalOfFrame :: bool
  h_HasExtensions :: bool
  h_Handle :: u16
  h_SequenceNumber :: u16
  h_FrameNumber :: u16
  h_Timestamp :: u32
  h_ExtensionsSize :: u16
  h_Extensions :: "Extension list"

definition zeroHeader :: Header where
  "zeroHeader = \<lparr>h_Version = 0, h_IsStartOfFrame = False, h_IsFinalOfFrame = False, h_HasExtensions = False, h_Handle = 0,
     h_SequenceNumber = 0, h_FrameNumber = 0, h_Timestamp = 0, h_ExtensionsSize = 0, h_Extensions = []\<rparr>"

definition slice :: "bytes \<Rightarrow> nat \<Rightarrow> nat \<Rightarrow> bytes" where
  "slice b i n = take n (drop i b)"

text \<open>
  The loop over the extensions: \<open>buf\<close> is what is left of the buffer. It ends with the sizes that are left and that the header has,
  and the extensions.
\<close>

fun unmarshalExtensions :: "bytes \<Rightarrow> int \<Rightarrow> int \<Rightarrow> Extension list \<Rightarrow> dtErr + (int \<times> int \<times> Extension list)" where
  "unmarshalExtensions buf remainingSize hdrSize exts =
     (if remainingSize = 0 then Inr (remainingSize, hdrSize, exts)
      else if length buf < 1 \<or> remainingSize < 1 then Inl errExtensionSizeInsufficient
      else if buf ! 0 = 0 then Inr (remainingSize, hdrSize + remainingSize, exts)
      else if length buf - 1 < 1 \<or> remainingSize < 1 then Inl errExtensionSizeInsufficient
      else
        let sz = unat (buf ! 1); remainingSize = remainingSize - 2; rst = drop 2 buf in
        if length rst < sz \<or> remainingSize < int sz then Inl errExtensionSizeInsufficient
        else unmarshalExtensions (drop sz rst) (remainingSize - int sz) (hdrSize + 2 + int sz)
               (exts @ [\<lparr>ext_id = buf ! 0, ext_data = take sz rst\<rparr>]))"

declare unmarshalExtensions.simps [simp del]

definition hdr_Unmarshal :: "bytes \<Rightarrow> Header \<Rightarrow> dtErr + (Header \<times> int)" where
  "hdr_Unmarshal buf h =
     (if length buf < 12 then Inl errHeaderSizeInsufficient
      else
        let h = h\<lparr>h_Version := drop_bit 5 (buf ! 0) AND 7, h_IsStartOfFrame := drop_bit 4 (buf ! 0) AND 1 > 0,
                  h_IsFinalOfFrame := drop_bit 3 (buf ! 0) AND 1 > 0, h_HasExtensions := drop_bit 2 (buf ! 0) AND 1 > 0,
                  h_Handle := Uint16 (slice buf 2 2), h_SequenceNumber := Uint16 (slice buf 4 2),
                  h_FrameNumber := Uint16 (slice buf 6 2), h_Timestamp := Uint32 (slice buf 8 4)\<rparr> in
        if h_HasExtensions h then
          if length buf < 14 then Inl dtPanic
          else
            let extensionsSize = (Uint16 (slice buf 12 2) + 1) * 4 - 2 in
            bindR (unmarshalExtensions (drop 14 buf) (uint extensionsSize) 14 (h_Extensions h))
              (\<lambda>(remainingSize, hdrSize, exts).
                 Inr (h\<lparr>h_Extensions := exts, h_ExtensionsSize := extensionsSize - word_of_int remainingSize\<rparr>, hdrSize))
        else Inr (h, 12))"

definition extSize :: "Extension \<Rightarrow> nat" where
  "extSize e = length (ext_data e) + 2"

definition hdr_MarshalSize :: "Header \<Rightarrow> nat" where
  "hdr_MarshalSize h =
     (let extensionsSize = (if h_HasExtensions h then 2 + sum_list (map extSize (h_Extensions h)) else 0)
      in 12 + (extensionsSize + 3) div 4 * 4)"

text \<open>Assignments to a range of a buffer, and \<^verbatim>\<open>copy\<close>, which stops at its end.\<close>

definition writeAt :: "nat \<Rightarrow> bytes \<Rightarrow> bytes \<Rightarrow> dtErr + bytes" where
  "writeAt i bs buf =
     (if i + length bs \<le> length buf then Inr (take i buf @ bs @ drop (i + length bs) buf) else Inl dtPanic)"

definition copyAt :: "nat \<Rightarrow> bytes \<Rightarrow> bytes \<Rightarrow> dtErr + bytes" where
  "copyAt i bs buf =
     (if i \<le> length buf then Inr (take i buf @ take (length buf - i) bs @ drop (i + length bs) buf) else Inl dtPanic)"

definition firstByte :: "Header \<Rightarrow> u8" where
  "firstByte h = push_bit 5 (h_Version h) OR (if h_IsStartOfFrame h then push_bit 4 1 else 0) OR
     (if h_IsFinalOfFrame h then push_bit 3 1 else 0) OR (if h_HasExtensions h then push_bit 2 1 else 0)"

fun marshalExtensions :: "Extension list \<Rightarrow> nat \<Rightarrow> bytes \<Rightarrow> dtErr + (bytes \<times> nat)" where
  "marshalExtensions [] idx buf = Inr (buf, idx)"
| "marshalExtensions (e # exts) idx buf =
     bindR (writeAt idx [ext_id e] buf) (\<lambda>buf.
       if length (ext_data e) > 255 then Inl errExtensionSizeTooBig
       else
         bindR (writeAt (idx + 1) [of_nat (length (ext_data e))] buf) (\<lambda>buf.
         bindR (copyAt (idx + 2) (ext_data e) buf) (\<lambda>buf.
           marshalExtensions exts (idx + extSize e) buf)))"

text \<open>The size field and the extensions, rounded up to whole words.\<close>

definition extensionWords :: "u16 \<Rightarrow> u16" where
  "extensionWords extensionsSize = (2 + extensionsSize + 3) div 4 * 4"

definition hdr_MarshalTo :: "Header \<Rightarrow> bytes \<Rightarrow> dtErr + (bytes \<times> nat)" where
  "hdr_MarshalTo h buf =
     (if length buf < 12 then Inl errHeaderSizeInsufficient
      else
        bindR (writeAt 0 [firstByte h] buf) (\<lambda>buf.
        bindR (writeAt 2 (PutUint16 (h_Handle h)) buf) (\<lambda>buf.
        bindR (writeAt 4 (PutUint16 (h_SequenceNumber h)) buf) (\<lambda>buf.
        bindR (writeAt 6 (PutUint16 (h_FrameNumber h)) buf) (\<lambda>buf.
        bindR (writeAt 8 (PutUint32 (h_Timestamp h)) buf) (\<lambda>buf.
          if h_HasExtensions h then
            let extensionsSize = extensionWords (h_ExtensionsSize h) in
            bindR (writeAt 12 (PutUint16 (extensionsSize div 4 - 1)) buf) (\<lambda>buf.
            bindR (marshalExtensions (h_Extensions h) 14 buf) (\<lambda>(buf, idx).
              let addedSize = idx - 14;
                  paddingSize = unat (extensionsSize - 2 - of_nat addedSize) in
              bindR (writeAt idx (replicate paddingSize 0) buf) (\<lambda>buf. Inr (buf, idx + paddingSize))))
          else Inr (buf, 12)))))))"

fun replaceExtension :: "Extension \<Rightarrow> Extension list \<Rightarrow> (bytes \<times> Extension list) option" where
  "replaceExtension ext [] = None"
| "replaceExtension ext (e # es) =
     (if ext_id e = ext_id ext then Some (ext_data e, e\<lparr>ext_data := ext_data ext\<rparr> # es)
      else map_option (\<lambda>(old, es). (old, e # es)) (replaceExtension ext es))"

definition AddExtension :: "Extension \<Rightarrow> Header \<Rightarrow> Header" where
  "AddExtension ext h =
     (case replaceExtension ext (h_Extensions h) of
        Some (old, es) \<Rightarrow>
          h\<lparr>h_ExtensionsSize := h_ExtensionsSize h - of_nat (length old + 2) + of_nat (extSize ext), h_Extensions := es\<rparr>
      | None \<Rightarrow> h\<lparr>h_Extensions := h_Extensions h @ [ext], h_ExtensionsSize := h_ExtensionsSize h + of_nat (extSize ext),
                  h_HasExtensions := True\<rparr>)"

definition GetExtension :: "u8 \<Rightarrow> Header \<Rightarrow> dtErr + Extension" where
  "GetExtension i h =
     (case find (\<lambda>e. ext_id e = i) (h_Extensions h) of Some e \<Rightarrow> Inr e | None \<Rightarrow> Inl errExtensionNotFound)"

section \<open>Packets\<close>

record Packet =
  p_Header :: Header
  p_Payload :: bytes

definition pkt_Unmarshal :: "bytes \<Rightarrow> Packet \<Rightarrow> dtErr + Packet" where
  "pkt_Unmarshal buf p =
     bindR (hdr_Unmarshal buf (p_Header p)) (\<lambda>(h, hdrSize).
       if hdrSize > int (length buf) then Inl dtPanic
       else Inr (p\<lparr>p_Header := h, p_Payload := drop (nat hdrSize) buf\<rparr>))"

definition pkt_MarshalTo :: "Packet \<Rightarrow> bytes \<Rightarrow> dtErr + bytes" where
  "pkt_MarshalTo p buf =
     (if length buf < hdr_MarshalSize (p_Header p) + length (p_Payload p) then Inl errBufferSizeInsufficient
      else bindR (hdr_MarshalTo (p_Header p) buf) (\<lambda>(buf, hdrSize). copyAt hdrSize (p_Payload p) buf))"

definition pkt_Marshal :: "Packet \<Rightarrow> dtErr + bytes" where
  "pkt_Marshal p = pkt_MarshalTo p (replicate (hdr_MarshalSize (p_Header p) + length (p_Payload p)) 0)"

section \<open>Participant extension\<close>

datatype sidErr = errParticipantIDTooLong | errInvalidExtensionID | errEmptyExtensionData

text \<open>The id comes from the protocol definitions.\<close>

definition NewExtensionParticipantSid :: "bytes \<Rightarrow> sidErr + bytes" where
  "NewExtensionParticipantSid participantID =
     (if length participantID \<ge> 256 then Inl errParticipantIDTooLong else Inr participantID)"

definition sid_Marshal :: "u8 \<Rightarrow> bytes \<Rightarrow> Extension" where
  "sid_Marshal sidExtensionID participantID = \<lparr>ext_id = sidExtensionID, ext_data = participantID\<rparr>"

definition sid_Unmarshal :: "u8 \<Rightarrow> Extension \<Rightarrow> sidErr + bytes" where
  "sid_Unmarshal sidExtensionID ext =
     (if ext_id ext \<noteq> sidExtensionID then Inl errInvalidExtensionID
      else if length (ext_data ext) = 0 then Inl errEmptyExtensionData
      else Inr (ext_data ext))"

section \<open>Lookup after insertion\<close>

text \<open>The sum of the extension sizes is kept beside the list, modulo \<open>2 ^ 16\<close>.\<close>

definition sizes_ok :: "Header \<Rightarrow> bool" where
  "sizes_ok h \<longleftrightarrow> h_ExtensionsSize h = of_nat (sum_list (map extSize (h_Extensions h)))"

lemma replaceExtension_None: "replaceExtension e es = None \<longleftrightarrow> (\<forall>x\<in>set es. ext_id x \<noteq> ext_id e)"
  by (induction es) auto

lemma replaceExtension_Some:
  assumes "replaceExtension e es = Some (old, es')"
  shows "sum_list (map extSize es') + (length old + 2) = sum_list (map extSize es) + extSize e"
    "find (\<lambda>x. ext_id x = i) es' = (if i = ext_id e then Some e else find (\<lambda>x. ext_id x = i) es)"
    "map ext_id es' = map ext_id es"
  using assms by (induction es arbitrary: es') (auto simp: extSize_def split: if_splits)

lemma replaceExtension_set: "replaceExtension e es = Some (old, es') \<Longrightarrow> set es' \<subseteq> insert e (set es)"
  by (induction es arbitrary: es') (auto split: if_splits)

lemma AddExtension_sizes:
  assumes "sizes_ok h"
  shows "sizes_ok (AddExtension ext h)"
proof (cases "replaceExtension ext (h_Extensions h)")
  case None
  then show ?thesis using assms by (simp add: AddExtension_def sizes_ok_def)
next
  case (Some a)
  obtain old es where a: "a = (old, es)" by (cases a)
  have "of_nat (sum_list (map extSize es)) + of_nat (length old + 2) = (of_nat (sum_list (map extSize (h_Extensions h))) + of_nat (extSize ext) :: u16)"
    using replaceExtension_Some(1) [OF Some [unfolded a]] by (metis of_nat_add)
  then show ?thesis using assms Some a by (simp add: AddExtension_def sizes_ok_def algebra_simps)
qed

lemma GetExtension_Add:
  "GetExtension i (AddExtension e h) = (if i = ext_id e then Inr e else GetExtension i h)"
proof (cases "replaceExtension e (h_Extensions h)")
  case None
  then have "find (\<lambda>x. ext_id x = ext_id e) (h_Extensions h) = None" by (auto simp: replaceExtension_None find_None_iff)
  then show ?thesis using None by (auto simp: AddExtension_def GetExtension_def find_append split: option.split)
next
  case (Some a)
  obtain old es where a: "a = (old, es)" by (cases a)
  show ?thesis
    using replaceExtension_Some(2) [OF Some [unfolded a], of i] by (simp add: AddExtension_def GetExtension_def Some a)
qed

section \<open>Bytes of a packet\<close>

definition extBytes :: "Extension list \<Rightarrow> bytes" where
  "extBytes es = concat (map (\<lambda>e. ext_id e # of_nat (length (ext_data e)) # ext_data e) es)"

lemma length_extBytes [simp]: "length (extBytes es) = sum_list (map extSize es)"
  by (induction es) (simp_all add: extBytes_def extSize_def)

lemma extBytes_Cons: "extBytes (e # es) = ext_id e # of_nat (length (ext_data e)) # ext_data e @ extBytes es"
  by (simp add: extBytes_def)

lemma writeAt_append:
  "length pre = i \<Longrightarrow> length bs \<le> length rst \<Longrightarrow> writeAt i bs (pre @ rst) = Inr (pre @ bs @ drop (length bs) rst)"
  by (auto simp: writeAt_def)

lemma copyAt_append:
  "length pre = i \<Longrightarrow> length bs \<le> length rst \<Longrightarrow> copyAt i bs (pre @ rst) = Inr (pre @ bs @ drop (length bs) rst)"
  by (auto simp: copyAt_def)

text \<open>The loop writes the extensions one after the other.\<close>

lemma marshalExtensions_append:
  assumes "\<forall>e\<in>set es. length (ext_data e) \<le> 255" "length pre = idx" "sum_list (map extSize es) \<le> length rst"
  shows "marshalExtensions es idx (pre @ rst) = Inr (pre @ extBytes es @ drop (sum_list (map extSize es)) rst, idx + sum_list (map extSize es))"
  using assms
proof (induction es arbitrary: pre idx rst)
  case Nil
  then show ?case by (simp add: extBytes_def)
next
  case (Cons e es)
  let ?n = "length (ext_data e)"
  have e: "extSize e = ?n + 2" by (simp add: extSize_def)
  have n: "?n + 2 + sum_list (map extSize es) \<le> length rst" "?n \<le> 255" using Cons.prems e by simp_all
  obtain a b r where r: "rst = a # b # r" using n by (cases rst; cases "drop 1 rst") auto
  have w: "writeAt idx [ext_id e] (pre @ rst) = Inr (pre @ ext_id e # b # r)"
    "writeAt (idx + 1) [of_nat ?n] (pre @ ext_id e # b # r) = Inr (pre @ ext_id e # of_nat ?n # r)"
    "copyAt (idx + 2) (ext_data e) (pre @ ext_id e # of_nat ?n # r) = Inr (pre @ ext_id e # of_nat ?n # ext_data e @ drop ?n r)"
    using writeAt_append [of pre idx "[ext_id e]" rst] writeAt_append [of "pre @ [ext_id e]" "idx + 1" "[of_nat ?n]" "b # r"]
      copyAt_append [of "pre @ [ext_id e, of_nat ?n]" "idx + 2" "ext_data e" r] Cons.prems(2) n r by simp_all
  have "marshalExtensions es (idx + extSize e) ((pre @ ext_id e # of_nat ?n # ext_data e) @ drop ?n r) =
      Inr ((pre @ ext_id e # of_nat ?n # ext_data e) @ extBytes es @ drop (sum_list (map extSize es)) (drop ?n r),
           idx + extSize e + sum_list (map extSize es))"
    using Cons.prems n r e by (intro Cons.IH) auto
  then show ?case using w n e by (simp add: extBytes_Cons r add_ac)
qed

text \<open>What the loop of \<open>Unmarshal\<close> does on these bytes, followed by \<open>k\<close> bytes of padding.\<close>

lemma unmarshalExtensions_append:
  assumes "\<forall>e\<in>set es. length (ext_data e) \<le> 255 \<and> ext_id e \<noteq> 0"
  shows "unmarshalExtensions (extBytes es @ replicate k 0 @ rst) (int (sum_list (map extSize es)) + int k) hs exts =
    Inr (int k, hs + int (sum_list (map extSize es)) + int k, exts @ es)"
  using assms
proof (induction es arbitrary: hs exts)
  case Nil
  show ?case by (cases k) (simp_all add: unmarshalExtensions.simps extBytes_def)
next
  case (Cons e es)
  let ?n = "length (ext_data e)"
  have e: "extSize e = ?n + 2" "\<lparr>ext_id = ext_id e, ext_data = ext_data e\<rparr> = e" by (simp_all add: extSize_def)
  have n: "unat (of_nat ?n :: u8) = ?n" "ext_id e \<noteq> 0" using Cons.prems by (simp_all add: unat_of_nat)
  have "unmarshalExtensions (extBytes (e # es) @ replicate k 0 @ rst) (int (sum_list (map extSize (e # es))) + int k) hs exts =
      unmarshalExtensions (extBytes es @ replicate k 0 @ rst) (int (sum_list (map extSize es)) + int k) (hs + 2 + int ?n) (exts @ [e])"
    using n by (subst unmarshalExtensions.simps) (simp add: extBytes_Cons e Let_def)
  then show ?case using Cons e by simp
qed

text \<open>The packet on the wire.\<close>

definition paddingLen :: "nat \<Rightarrow> nat" where
  "paddingLen tot = (tot + 5) div 4 * 4 - 2 - tot"

definition data_pkt_wf :: "Packet \<Rightarrow> bool" where
  "data_pkt_wf p \<longleftrightarrow> (let h = p_Header p in h_Version h < 8 \<and> sizes_ok h \<and> (h_HasExtensions h \<or> h_Extensions h = []) \<and>
     (\<forall>e\<in>set (h_Extensions h). length (ext_data e) \<le> 255 \<and> ext_id e \<noteq> 0) \<and>
     sum_list (map extSize (h_Extensions h)) < 2 ^ 16 - 5)"

definition fixedPart :: "Header \<Rightarrow> bytes" where
  "fixedPart h = firstByte h # 0 # PutUint16 (h_Handle h) @ PutUint16 (h_SequenceNumber h) @ PutUint16 (h_FrameNumber h) @
     PutUint32 (h_Timestamp h)"

definition hdrBytes :: "Header \<Rightarrow> bytes" where
  "hdrBytes h = fixedPart h @
     (if h_HasExtensions h then
        let tot = sum_list (map extSize (h_Extensions h))
        in PutUint16 (of_nat ((tot + 5) div 4 - 1)) @ extBytes (h_Extensions h) @ replicate (paddingLen tot) 0
      else [])"

lemma length_fixedPart [simp]: "length (fixedPart h) = 12"
  by (simp add: fixedPart_def)

lemma paddingLen_sum: "2 + tot + paddingLen tot = (tot + 5) div 4 * 4"
  by (simp add: paddingLen_def)

lemma length_hdrBytes: "length (hdrBytes h) = hdr_MarshalSize h"
  using paddingLen_sum [of "sum_list (map extSize (h_Extensions h))"] by (simp add: hdrBytes_def hdr_MarshalSize_def Let_def add_ac)

text \<open>The word arithmetic of \<open>MarshalTo\<close> does not wrap.\<close>

lemma extension_words:
  fixes sz :: u16
  assumes "sz = of_nat tot" "tot < 2 ^ 16 - 5"
  defines "es \<equiv> extensionWords sz"
  shows "es div 4 - 1 = of_nat ((tot + 5) div 4 - 1)" "unat (es - 2 - of_nat tot) = paddingLen tot"
    "(es div 4 - 1 + 1) * 4 - 2 = es - 2" "uint (es - 2) = int tot + int (paddingLen tot)"
proof -
  have "unat (2 + sz + 3) = tot + 5" using assms by (simp add: unat_word_ariths unat_of_nat)
  then have d: "unat ((2 + sz + 3) div 4) = (tot + 5) div 4" by (simp add: unat_div)
  have b: "(tot + 5) div 4 * 4 < 65536" using assms(2) by simp
  define x where "x = (2 + sz + 3) div 4"
  have e: "unat es = (tot + 5) div 4 * 4"
    using b d unfolding es_def extensionWords_def x_def [symmetric] by (simp add: unat_word_ariths)
  have e': "es = of_nat ((tot + 5) div 4 * 4)" by (simp flip: e)
  have ed: "es div 4 = of_nat ((tot + 5) div 4)"
  proof -
    have "unat (es div 4) = (tot + 5) div 4" by (simp add: unat_div e)
    then show ?thesis by (simp flip: \<open>unat (es div 4) = (tot + 5) div 4\<close>)
  qed
  show "es div 4 - 1 = of_nat ((tot + 5) div 4 - 1)" unfolding ed by (simp add: of_nat_diff)
  have "es - 2 - of_nat tot = of_nat (paddingLen tot)"
    unfolding e' using paddingLen_sum [of tot, symmetric] by simp
  moreover have "paddingLen tot < 65536" using paddingLen_sum [of tot] b by simp
  ultimately show "unat (es - 2 - of_nat tot) = paddingLen tot" by (simp add: unat_of_nat)
  have "es div 4 * 4 = es" unfolding ed by (simp add: e')
  then show "(es div 4 - 1 + 1) * 4 - 2 = es - 2" by simp
  have "es - 2 = of_nat (tot + paddingLen tot)" unfolding e' using paddingLen_sum [of tot, symmetric] by simp
  moreover have "tot + paddingLen tot < 65536" using paddingLen_sum [of tot] b by simp
  ultimately have "unat (es - 2) = tot + paddingLen tot" by (simp add: unat_of_nat del: of_nat_add)
  then show "uint (es - 2) = int tot + int (paddingLen tot)" by (metis of_nat_add uint_nat)
qed

lemma replicate_12: "n \<ge> 12 \<Longrightarrow> replicate n (0 :: u8) = [0,0,0,0,0,0,0,0,0,0,0,0] @ replicate (n - 12) 0"
  by (auto dest!: le_Suc_ex simp: numeral_eq_Suc)

lemma marshal_fixed:
  assumes "n \<ge> 12"
  shows "bindR (writeAt 0 [firstByte h] (replicate n 0)) (\<lambda>buf.
    bindR (writeAt 2 (PutUint16 (h_Handle h)) buf) (\<lambda>buf.
    bindR (writeAt 4 (PutUint16 (h_SequenceNumber h)) buf) (\<lambda>buf.
    bindR (writeAt 6 (PutUint16 (h_FrameNumber h)) buf) (\<lambda>buf.
    bindR (writeAt 8 (PutUint32 (h_Timestamp h)) buf) f)))) = f (fixedPart h @ replicate (n - 12) 0)"
  using assms by (simp add: replicate_12 writeAt_def fixedPart_def PutUint16_def PutUint32_def)

lemma marshal_bytes:
  assumes "data_pkt_wf p"
  shows "pkt_Marshal p = Inr (hdrBytes (p_Header p) @ p_Payload p)"
proof -
  let ?h = "p_Header p" and ?n = "hdr_MarshalSize (p_Header p) + length (p_Payload p)"
  let ?tot = "sum_list (map extSize (h_Extensions ?h))"
  have w: "h_ExtensionsSize ?h = of_nat ?tot" "?tot < 2 ^ 16 - 5" "\<forall>e\<in>set (h_Extensions ?h). length (ext_data e) \<le> 255"
    using assms by (simp_all add: data_pkt_wf_def sizes_ok_def Let_def)
  note E = extension_words [OF w(1,2)]
  have n: "12 \<le> ?n" by (simp add: hdr_MarshalSize_def Let_def)
  have M: "hdr_MarshalTo ?h (replicate ?n 0) = Inr (hdrBytes ?h @ replicate (length (p_Payload p)) 0, hdr_MarshalSize ?h)"
  proof (cases "h_HasExtensions ?h")
    case False
    then show ?thesis using n by (simp add: hdr_MarshalTo_def marshal_fixed hdrBytes_def hdr_MarshalSize_def Let_def)
  next
    case True
    define k where "k = paddingLen ?tot + length (p_Payload p)"
    have k: "?n - 12 = 2 + (?tot + k)"
      using True paddingLen_sum [of ?tot] by (simp add: hdr_MarshalSize_def k_def add_ac)
    define cnt where "cnt = PutUint16 (of_nat ((?tot + 5) div 4 - 1))"
    have cnt: "PutUint16 (extensionWords (h_ExtensionsSize ?h) div 4 - 1) = cnt" unfolding E(1) cnt_def ..
    have a: "writeAt 12 cnt (fixedPart ?h @ replicate (?n - 12) 0) = Inr ((fixedPart ?h @ cnt) @ replicate (?tot + k) 0)"
      using writeAt_append [of "fixedPart ?h" 12 cnt "replicate (?n - 12) 0"] k by (simp add: cnt_def)
    have b: "marshalExtensions (h_Extensions ?h) 14 ((fixedPart ?h @ cnt) @ replicate (?tot + k) 0) =
        Inr ((fixedPart ?h @ cnt @ extBytes (h_Extensions ?h)) @ replicate k 0, 14 + ?tot)"
      using marshalExtensions_append [OF w(3), of "fixedPart ?h @ cnt" 14 "replicate (?tot + k) 0"] by (simp add: cnt_def)
    have c: "writeAt (14 + ?tot) (replicate (paddingLen ?tot) 0) ((fixedPart ?h @ cnt @ extBytes (h_Extensions ?h)) @ replicate k 0) =
        Inr (hdrBytes ?h @ replicate (length (p_Payload p)) 0)"
      using writeAt_append [of "fixedPart ?h @ cnt @ extBytes (h_Extensions ?h)" "14 + ?tot" "replicate (paddingLen ?tot) 0" "replicate k 0"] True
      by (simp add: cnt_def k_def hdrBytes_def Let_def)
    have s: "14 + ?tot + paddingLen ?tot = hdr_MarshalSize ?h"
      using True paddingLen_sum [of ?tot] by (simp add: hdr_MarshalSize_def add_ac)
    show ?thesis
      using n True a b c s by (simp add: hdr_MarshalTo_def marshal_fixed cnt E(2) Let_def)
  qed
  show ?thesis
    unfolding pkt_Marshal_def pkt_MarshalTo_def M using copyAt_append [of "hdrBytes ?h" "hdr_MarshalSize ?h" "p_Payload p"] length_hdrBytes [of ?h]
    by simp
qed

lemma firstByte_fields:
  assumes "h_Version h < 8"
  shows "drop_bit 5 (firstByte h) AND 7 = h_Version h" "drop_bit 4 (firstByte h) AND 1 > 0 \<longleftrightarrow> h_IsStartOfFrame h"
    "drop_bit 3 (firstByte h) AND 1 > 0 \<longleftrightarrow> h_IsFinalOfFrame h" "drop_bit 2 (firstByte h) AND 1 > 0 \<longleftrightarrow> h_HasExtensions h"
proof -
  have v: "n < 3" if "bit (h_Version h) n" for n
    using bit_less_exp [OF _ that, of 3] assms by (simp add: word_less_nat_alt)
  have c: "bit (16 :: int) n \<longleftrightarrow> n = 4" "bit (8 :: int) n \<longleftrightarrow> n = 3" "bit (4 :: int) n \<longleftrightarrow> n = 2" for n
    using bit_exp_iff [of 4 n, where 'a = int] bit_exp_iff [of 3 n, where 'a = int] bit_exp_iff [of 2 n, where 'a = int] by auto
  have b: "bit (firstByte h) n \<longleftrightarrow> 5 \<le> n \<and> n < 8 \<and> bit (h_Version h) (n - 5) \<or> n = 4 \<and> h_IsStartOfFrame h \<or> n = 3 \<and> h_IsFinalOfFrame h \<or>
      n = 2 \<and> h_HasExtensions h" for n
    by (auto simp: firstByte_def bit_simps c)
  have "w AND 1 > 0 \<longleftrightarrow> bit w 0" for w :: u8 using and_gt_0_bit [of w 0] by simp
  then show "drop_bit 4 (firstByte h) AND 1 > 0 \<longleftrightarrow> h_IsStartOfFrame h" "drop_bit 3 (firstByte h) AND 1 > 0 \<longleftrightarrow> h_IsFinalOfFrame h"
    "drop_bit 2 (firstByte h) AND 1 > 0 \<longleftrightarrow> h_HasExtensions h"
    by (simp_all add: bit_drop_bit_eq b)
  show "drop_bit 5 (firstByte h) AND 7 = h_Version h"
    using v by (intro bit_word_eqI) (auto simp: bit_simps b bit_consts)
qed

lemma slice_app: "length pre = i \<Longrightarrow> length x = n \<Longrightarrow> slice (pre @ x @ y) i n = x"
  by (simp add: slice_def)

lemma slice_fixed:
  "slice (fixedPart h @ r) 2 2 = PutUint16 (h_Handle h)" "slice (fixedPart h @ r) 4 2 = PutUint16 (h_SequenceNumber h)"
  "slice (fixedPart h @ r) 6 2 = PutUint16 (h_FrameNumber h)" "slice (fixedPart h @ r) 8 4 = PutUint32 (h_Timestamp h)"
  "(fixedPart h @ r) ! 0 = firstByte h"
  by (simp_all add: slice_def fixedPart_def PutUint16_def PutUint32_def)

lemma unmarshal_bytes:
  assumes "data_pkt_wf p"
  shows "pkt_Unmarshal (hdrBytes (p_Header p) @ p_Payload p) \<lparr>p_Header = zeroHeader, p_Payload = []\<rparr> = Inr p"
proof -
  let ?h = "p_Header p" and ?buf = "hdrBytes (p_Header p) @ p_Payload p"
  let ?tot = "sum_list (map extSize (h_Extensions ?h))"
  have w: "h_ExtensionsSize ?h = of_nat ?tot" "?tot < 2 ^ 16 - 5" "\<forall>e\<in>set (h_Extensions ?h). length (ext_data e) \<le> 255 \<and> ext_id e \<noteq> 0"
    "h_Version ?h < 8" "h_HasExtensions ?h \<or> h_Extensions ?h = []"
    using assms by (simp_all add: data_pkt_wf_def sizes_ok_def Let_def)
  note E = extension_words [OF w(1,2)]
  define r where "r = drop 12 ?buf"
  have buf: "?buf = fixedPart ?h @ r" by (simp add: r_def hdrBytes_def)
  define h1 where "h1 = zeroHeader\<lparr>h_Version := h_Version ?h, h_IsStartOfFrame := h_IsStartOfFrame ?h, h_IsFinalOfFrame := h_IsFinalOfFrame ?h,
     h_HasExtensions := h_HasExtensions ?h, h_Handle := h_Handle ?h, h_SequenceNumber := h_SequenceNumber ?h, h_FrameNumber := h_FrameNumber ?h,
     h_Timestamp := h_Timestamp ?h\<rparr>"
  have "hdr_Unmarshal ?buf zeroHeader = Inr (?h, int (hdr_MarshalSize ?h))"
  proof (cases "h_HasExtensions ?h")
    case False
    then have "h1 = ?h" using w by (cases ?h) (simp add: h1_def zeroHeader_def)
    then show ?thesis using False
      by (simp add: hdr_Unmarshal_def buf slice_fixed firstByte_fields [OF w(4)] Let_def hdr_MarshalSize_def h1_def)
  next
    case True
    define cnt where "cnt = (of_nat ((?tot + 5) div 4 - 1) :: u16)"
    define sz where "sz = (cnt + 1) * 4 - 2"
    have r: "r = PutUint16 cnt @ extBytes (h_Extensions ?h) @ replicate (paddingLen ?tot) 0 @ p_Payload p"
      using True by (simp add: r_def hdrBytes_def cnt_def Let_def)
    have s: "slice ?buf 12 2 = PutUint16 cnt" "drop 14 ?buf = extBytes (h_Extensions ?h) @ replicate (paddingLen ?tot) 0 @ p_Payload p"
      "length ?buf \<ge> 14" unfolding buf r by (simp_all add: slice_def)
    have u: "uint sz = int ?tot + int (paddingLen ?tot)" using E by (simp add: sz_def cnt_def)
    have "sz - of_nat (paddingLen ?tot) = h_ExtensionsSize ?h"
    proof -
      have "sz = of_nat (?tot + paddingLen ?tot)" by (metis u of_int_of_nat_eq of_nat_add word_of_int_uint)
      then show ?thesis using w(1) by simp
    qed
    moreover have "unmarshalExtensions (drop 14 ?buf) (uint sz) 14 [] =
        Inr (int (paddingLen ?tot), 14 + int ?tot + int (paddingLen ?tot), h_Extensions ?h)"
      unfolding s(2) u using unmarshalExtensions_append [OF w(3), of "paddingLen ?tot" "p_Payload p" 14 "[]"] by simp
    moreover have "h1\<lparr>h_Extensions := h_Extensions ?h, h_ExtensionsSize := h_ExtensionsSize ?h\<rparr> = ?h" "h_HasExtensions h1"
      "h_Extensions h1 = []" using True by (cases ?h; simp add: h1_def zeroHeader_def)+
    moreover have "14 + int ?tot + int (paddingLen ?tot) = int (hdr_MarshalSize ?h)"
      using True length_hdrBytes [of ?h] by (simp add: hdrBytes_def Let_def)
    moreover have "hdr_Unmarshal ?buf zeroHeader = bindR (unmarshalExtensions (drop 14 ?buf) (uint sz) 14 (h_Extensions h1))
        (\<lambda>(remainingSize, hdrSize, exts). Inr (h1\<lparr>h_Extensions := exts, h_ExtensionsSize := sz - word_of_int remainingSize\<rparr>, hdrSize))"
      using True s(1,3) slice_fixed [of ?h r] firstByte_fields [OF w(4)]
      by (simp add: hdr_Unmarshal_def Let_def h1_def sz_def flip: buf)
    ultimately show ?thesis by simp
  qed
  then show ?thesis using length_hdrBytes [of ?h] by (simp add: pkt_Unmarshal_def)
qed

lemma AddExtension_wf:
  assumes "data_pkt_wf p" "ext_id e \<noteq> 0" "length (ext_data e) \<le> 255"
    and "sum_list (map extSize (h_Extensions (p_Header p))) + extSize e < 2 ^ 16 - 5"
  shows "data_pkt_wf (p\<lparr>p_Header := AddExtension e (p_Header p)\<rparr>)"
proof (cases "replaceExtension e (h_Extensions (p_Header p))")
  case None
  then show ?thesis using assms AddExtension_sizes [of "p_Header p" e] by (auto simp: data_pkt_wf_def AddExtension_def Let_def)
next
  case (Some a)
  obtain old es where a: "a = (old, es)" by (cases a)
  note R = replaceExtension_Some [OF Some [unfolded a]] replaceExtension_set [OF Some [unfolded a]]
  have "h_Extensions (p_Header p) \<noteq> []" using Some by auto
  then show ?thesis using assms AddExtension_sizes [of "p_Header p" e] R by (auto simp: data_pkt_wf_def AddExtension_def Let_def Some a)
qed

section \<open>Properties\<close>

text \<open>
  C34: A data track packet survives the wire: a packet with a three bit version, a consistent extension size and extensions that
  fit (non-zero ids, at most 255 bytes each) is marshalled into exactly the announced number of bytes, and unmarshalling these
  gives the packet back, every field, extension and the payload.
\<close>

theorem data_track_round_trip:
  assumes "data_pkt_wf p"
  shows "\<exists>buf. pkt_Marshal p = Inr buf \<and> length buf = hdr_MarshalSize (p_Header p) + length (p_Payload p) \<and>
    pkt_Unmarshal buf \<lparr>p_Header = zeroHeader, p_Payload = []\<rparr> = Inr p"
  using marshal_bytes [OF assms] unmarshal_bytes [OF assms] by (simp add: length_hdrBytes)

definition demo_data_packet :: Packet where
  "demo_data_packet = \<lparr>p_Header = AddExtension \<lparr>ext_id = 2, ext_data = [7, 8, 9]\<rparr>
     (zeroHeader\<lparr>h_Version := 1, h_IsFinalOfFrame := True, h_Handle := 0x1234, h_Timestamp := 0xCAFE0001\<rparr>), p_Payload = [1, 2]\<rparr>"

lemma demo_data_packet_wf: "data_pkt_wf demo_data_packet"
  by (simp add: data_pkt_wf_def demo_data_packet_def AddExtension_def zeroHeader_def sizes_ok_def extSize_def Let_def)

theorem data_track_round_trip_witness:
  "\<exists>buf. pkt_Marshal demo_data_packet = Inr buf \<and> pkt_Unmarshal buf \<lparr>p_Header = zeroHeader, p_Payload = []\<rparr> = Inr demo_data_packet"
  using data_track_round_trip [OF demo_data_packet_wf] by blast

text \<open>
  The sender of a data track message reaches the receiver: the participant id that is added as an extension, replacing one
  that was already there, is what the receiver of the marshalled packet reads from it; every other extension is delivered as it
  was, and the payload too.
\<close>

theorem participant_sid_delivered:
  assumes wf: "data_pkt_wf p" and sid: "NewExtensionParticipantSid sid = Inr sid'" "sid \<noteq> []" "i \<noteq> 0"
    and fits: "sum_list (map extSize (h_Extensions (p_Header p))) + length sid + 2 < 2 ^ 16 - 5"
  shows "\<exists>buf q. pkt_Marshal (p\<lparr>p_Header := AddExtension (sid_Marshal i sid') (p_Header p)\<rparr>) = Inr buf \<and>
    pkt_Unmarshal buf \<lparr>p_Header = zeroHeader, p_Payload = []\<rparr> = Inr q \<and>
    bindR (GetExtension i (p_Header q)) (\<lambda>e. case sid_Unmarshal i e of Inr s \<Rightarrow> Inr s | Inl _ \<Rightarrow> Inl dtPanic) = Inr sid \<and>
    (\<forall>j. j \<noteq> i \<longrightarrow> GetExtension j (p_Header q) = GetExtension j (p_Header p)) \<and> p_Payload q = p_Payload p"
proof -
  let ?e = "sid_Marshal i sid'" and ?h = "p_Header p"
  let ?q = "p\<lparr>p_Header := AddExtension ?e ?h\<rparr>"
  have s: "sid' = sid" "length sid \<le> 255" using sid(1) by (auto simp: NewExtensionParticipantSid_def split: if_splits)
  have "data_pkt_wf ?q" using AddExtension_wf [OF wf, of ?e] s sid(3) fits by (simp add: sid_Marshal_def extSize_def)
  from marshal_bytes [OF this] unmarshal_bytes [OF this]
  obtain buf where "pkt_Marshal ?q = Inr buf" "pkt_Unmarshal buf \<lparr>p_Header = zeroHeader, p_Payload = []\<rparr> = Inr ?q" by simp
  moreover have "GetExtension j (p_Header ?q) = (if j = i then Inr ?e else GetExtension j ?h)" for j
    using GetExtension_Add [of j ?e ?h] by (simp add: sid_Marshal_def)
  moreover have "sid_Unmarshal i ?e = Inr sid" using s sid(2) by (simp add: sid_Unmarshal_def sid_Marshal_def)
  ultimately show ?thesis by (intro exI [of _ buf] exI [of _ ?q]) simp
qed

theorem participant_sid_delivered_witness:
  "\<exists>buf q. pkt_Marshal (demo_data_packet\<lparr>p_Header := AddExtension (sid_Marshal 1 [80, 65]) (p_Header demo_data_packet)\<rparr>) = Inr buf \<and>
    pkt_Unmarshal buf \<lparr>p_Header = zeroHeader, p_Payload = []\<rparr> = Inr q \<and>
    bindR (GetExtension 1 (p_Header q)) (\<lambda>e. case sid_Unmarshal 1 e of Inr s \<Rightarrow> Inr s | Inl _ \<Rightarrow> Inl dtPanic) = Inr [80, 65]"
  using participant_sid_delivered [OF demo_data_packet_wf, of "[80, 65]" "[80, 65]" 1]
  by (auto simp: NewExtensionParticipantSid_def demo_data_packet_def AddExtension_def zeroHeader_def extSize_def)

text \<open>
  C35: Bytes from the network can make \<open>Unmarshal\<close> panic: a packet of twelve bytes with the extension bit set is sliced beyond
  its end when the extension size is read, and a packet whose extension size promises more padding than it has makes the payload
  start beyond its end. Packets without the extension bit never panic.
\<close>

theorem data_track_unmarshal_panics:
  "pkt_Unmarshal (0x04 # replicate 11 0) p = Inl dtPanic \<and>
   pkt_Unmarshal [4, 0, 0, 0, 0, 0, 0, 0, 0, 0, 0, 0, 0, 5, 0] p = Inl dtPanic \<and>
   (\<forall>b bs. \<not> bit b 2 \<longrightarrow> pkt_Unmarshal (b # bs) p \<noteq> Inl dtPanic)"
proof -
  have x: "drop_bit 2 b AND 1 > 0 \<longleftrightarrow> bit b 2" for b :: u8
    using and_gt_0_bit [of "drop_bit 2 b" 0] by (simp add: bit_drop_bit_eq)
  have "pkt_Unmarshal (b # bs) p \<noteq> Inl dtPanic" if "\<not> bit b 2" for b bs
    using that by (simp add: pkt_Unmarshal_def hdr_Unmarshal_def x Let_def)
  moreover have "Uint16 [0, 5] = 5" by (simp add: Uint16_def)
  then have "pkt_Unmarshal [4, 0, 0, 0, 0, 0, 0, 0, 0, 0, 0, 0, 0, 5, 0] p = Inl dtPanic"
    by (simp add: pkt_Unmarshal_def hdr_Unmarshal_def slice_def unmarshalExtensions.simps Let_def)
  moreover have "pkt_Unmarshal (0x04 # replicate 11 0) p = Inl dtPanic"
    by (simp add: pkt_Unmarshal_def hdr_Unmarshal_def Let_def)
  ultimately show ?thesis by blast
qed

theorem data_track_unmarshal_panics_witness:
  "pkt_Unmarshal (0x04 # replicate 11 0) demo_data_packet = Inl dtPanic \<and>
   pkt_Unmarshal [4, 0, 0, 0, 0, 0, 0, 0, 0, 0, 0, 0, 0, 5, 0] demo_data_packet = Inl dtPanic \<and>
   \<not> bit (0x1B :: u8) 2 \<and> pkt_Unmarshal [0x1B, 7] demo_data_packet \<noteq> Inl dtPanic"
proof -
  have "\<not> bit (0x1B :: u8) 2" by (simp add: bit_consts)
  then show ?thesis using data_track_unmarshal_panics [of demo_data_packet] by blast
qed

end
