(* ===== verification/Red_Audio.thy ===== *)
theory Red_Audio
  imports Data_Track Packets
begin

text \<open>
  Redundant audio (RFC 2198): \<^verbatim>\<open>pkg/sfu/redreceiver.go\<close> packs an audio packet with the two before it, and
  \<^verbatim>\<open>pkg/sfu/redprimaryreceiver.go\<close> unpacks such packets for subscribers without redundancy, recovering packets that were lost on
  the way to the server. The spreading of a packet over the down tracks is left out: an operation returns what is written to each.
\<close>

section \<open>Encoding\<close>

datatype redErr = ErrIncompleteRedHeader | ErrIncompleteRedBlock | errRedNoSpace | redPanic

definition maxRedCount :: nat where "maxRedCount = 2"
definition mtuSize :: nat where "mtuSize = 1500"
definition maxRedPayload :: nat where "maxRedPayload = 1024"
definition opusPT :: u8 where "opusPT = 111"
definition opusRedPT :: u8 where "opusRedPT = 63"

definition redBlockHeader :: "RtpPacket \<Rightarrow> RtpPacket \<Rightarrow> u32" where
  "redBlockHeader primary p =
     (let header = ucast (0x80 OR opusPT) :: u32;
          header = push_bit 14 header OR ((rtp_Timestamp primary - rtp_Timestamp p) AND 0x3FFF)
      in push_bit 10 header OR (of_nat (length (rtp_Payload p)) AND 0x3FF))"

text \<open>The loop that copies the blocks behind the headers; \<open>n\<close> is the size of the buffer.\<close>

fun appendBlocks :: "nat \<Rightarrow> RtpPacket list \<Rightarrow> bytes \<Rightarrow> redErr + bytes" where
  "appendBlocks n [] buf = Inr buf"
| "appendBlocks n (p # ps) buf =
     (if n - length buf < length (rtp_Payload p) then Inl errRedNoSpace else appendBlocks n ps (buf @ rtp_Payload p))"

definition encodeRed :: "RtpPacket list \<Rightarrow> RtpPacket \<Rightarrow> nat \<Rightarrow> redErr + bytes" where
  "encodeRed redPkts primary n =
     (let payloadSize = length (rtp_Payload primary) + 1 + sum_list (map (\<lambda>p. length (rtp_Payload p) + 4) redPkts);
          redPkts = (if payloadSize > n then [] else redPkts);
          hdr = concat (map (\<lambda>p. PutUint32 (redBlockHeader primary p)) redPkts)
      in if length hdr \<ge> n then Inl redPanic
         else appendBlocks n (redPkts @ [primary]) (hdr @ [opusPT]))"

text \<open>The history of the last packets, oldest first; \<open>None\<close> is nil.\<close>

type_synonym pktBuff = "RtpPacket option list"

definition NewRedReceiver :: pktBuff where
  "NewRedReceiver = replicate maxRedCount None"

fun lastNilPkt :: "pktBuff \<Rightarrow> nat \<Rightarrow> int" where
  "lastNilPkt b 0 = - 1"
| "lastNilPkt b (Suc i) = (if b ! i = None then int i else lastNilPkt b i)"

definition usable :: "RtpPacket \<Rightarrow> nat \<Rightarrow> RtpPacket \<Rightarrow> bool" where
  "usable pkt redLength prev \<longleftrightarrow>
     \<not> (rtp_SequenceNumber pkt = rtp_SequenceNumber prev \<or>
        rtp_SequenceNumber pkt - rtp_SequenceNumber prev > of_nat redLength \<or>
        rtp_Timestamp pkt - rtp_Timestamp prev \<ge> 0x4000)"

fun insertPkt :: "RtpPacket \<Rightarrow> nat \<Rightarrow> pktBuff \<Rightarrow> pktBuff" where
  "insertPkt pkt 0 b = b"
| "insertPkt pkt (Suc i) b =
     (if (case b ! i of None \<Rightarrow> True | Some q \<Rightarrow> rtp_SequenceNumber pkt - rtp_SequenceNumber q < 0x8000)
      then (take i (drop 1 b) @ drop i b)[i := Some pkt]
      else insertPkt pkt i b)"

definition encodeRedForPrimary :: "RtpPacket \<Rightarrow> pktBuff \<Rightarrow> pktBuff \<times> (redErr + bytes)" where
  "encodeRedForPrimary pkt b =
     (let redLength = length b;
          prevs = map the (drop (nat (lastNilPkt b redLength + 1)) b);
          redPkts = filter (usable pkt redLength) prevs;
          b = insertPkt pkt redLength b
      in (b, encodeRed redPkts pkt mtuSize))"

text \<open>What is written to the down tracks: the packet itself if it is too large, nothing on an error.\<close>

definition red_ForwardRTP :: "nat \<Rightarrow> RtpPacket \<Rightarrow> pktBuff \<Rightarrow> pktBuff \<times> RtpPacket option" where
  "red_ForwardRTP downTrackCount pkt b =
     (if downTrackCount = 0 then (b, None)
      else if length (rtp_Payload pkt) \<ge> maxRedPayload then (b, Some pkt)
      else case encodeRedForPrimary pkt b of
        (b, Inl _) \<Rightarrow> (b, None)
      | (b, Inr red) \<Rightarrow> (b, Some (pkt\<lparr>rtp_PayloadType := opusRedPT, rtp_Payload := red\<rparr>)))"

section \<open>Decoding\<close>

record block =
  bl_tsOffset :: u32
  bl_length :: nat
  bl_pt :: u8
  bl_primary :: bool

text \<open>The loop over the block headers: the blocks, the length of the redundant ones, and the rest of the payload.\<close>

fun redBlocks :: "bytes \<Rightarrow> block list \<Rightarrow> nat \<Rightarrow> redErr + (block list \<times> nat \<times> bytes)" where
  "redBlocks [] blocks blockLength = Inl ErrIncompleteRedHeader"
| "redBlocks (b # payload) blocks blockLength =
     (if b AND 0x80 = 0
      then Inr (blocks @ [\<lparr>bl_tsOffset = 0, bl_length = 0, bl_pt = b AND 0x7F, bl_primary = True\<rparr>], blockLength, payload)
      else if length payload < 3 then Inl ErrIncompleteRedHeader
      else
        let blockHead = Uint32 (b # take 3 payload);
            len = unat (blockHead AND 0x3FF);
            tsOffset = drop_bit 10 blockHead AND 0x3FFF;
            pt = ucast (drop_bit 24 blockHead AND 0x7F)
        in redBlocks (drop 3 payload) (blocks @ [\<lparr>bl_tsOffset = tsOffset, bl_length = len, bl_pt = pt, bl_primary = False\<rparr>])
             (blockLength + len))"

text \<open>The loop that cuts the blocks; \<open>n\<close> blocks are left, so that the recover index is \<open>n - 1\<close>.\<close>

fun cutBlocks :: "RtpPacket \<Rightarrow> u8 \<Rightarrow> block list \<Rightarrow> bytes \<Rightarrow> RtpPacket list" where
  "cutBlocks redPkt recoverBits [] payload = []"
| "cutBlocks redPkt recoverBits (b # bs) payload =
     (if bl_primary b then [redPkt\<lparr>rtp_PayloadType := bl_pt b, rtp_Payload := payload\<rparr>]
      else
        let recoverIndex = length bs in
        if recoverIndex < 1 \<or> recoverBits AND push_bit (recoverIndex - 1) 1 = 0
        then cutBlocks redPkt recoverBits bs (drop (bl_length b) payload)
        else redPkt\<lparr>rtp_SequenceNumber := rtp_SequenceNumber redPkt - of_nat recoverIndex,
                    rtp_Timestamp := rtp_Timestamp redPkt - bl_tsOffset b, rtp_PayloadType := bl_pt b,
                    rtp_Payload := take (bl_length b) payload\<rparr>
             # cutBlocks redPkt recoverBits bs (drop (bl_length b) payload))"

definition extractPktsFromRed :: "RtpPacket \<Rightarrow> u8 \<Rightarrow> redErr + RtpPacket list" where
  "extractPktsFromRed redPkt recoverBits =
     bindR (redBlocks (rtp_Payload redPkt) [] 0) (\<lambda>(blocks, blockLength, payload).
       if length payload < blockLength then Inl ErrIncompleteRedBlock
       else Inr (cutBlocks redPkt recoverBits blocks payload))"

fun skipBlocks :: "bytes \<Rightarrow> nat \<Rightarrow> redErr + (nat \<times> bytes)" where
  "skipBlocks [] blockLength = Inl ErrIncompleteRedHeader"
| "skipBlocks (b # payload) blockLength =
     (if b AND 0x80 = 0 then Inr (blockLength, payload)
      else if length payload < 3 then Inl ErrIncompleteRedHeader
      else skipBlocks (drop 3 payload) (blockLength + unat (Uint16 (drop 1 payload) AND 0x3FF)))"

definition extractPrimaryEncodingForRED :: "bytes \<Rightarrow> redErr + bytes" where
  "extractPrimaryEncodingForRED payload =
     bindR (skipBlocks payload 0) (\<lambda>(blockLength, payload).
       if length payload < blockLength then Inl ErrIncompleteRedBlock else Inr (drop blockLength payload))"

section \<open>Receive history\<close>

record RedPrimaryReceiver =
  rp_redPT :: u8
  rp_firstPktReceived :: bool
  rp_lastSeq :: u16
  rp_pktHistory :: u8

definition NewRedPrimaryReceiver :: "u8 \<Rightarrow> RedPrimaryReceiver" where
  "NewRedPrimaryReceiver redPT = \<lparr>rp_redPT = redPT, rp_firstPktReceived = False, rp_lastSeq = 0, rp_pktHistory = 0\<rparr>"

text \<open>The update of the history: the new state and whether lost packets are looked for.\<close>

definition updateHistory :: "u16 \<Rightarrow> RedPrimaryReceiver \<Rightarrow> RedPrimaryReceiver \<times> bool" where
  "updateHistory sn r =
     (if \<not> rp_firstPktReceived r then (r\<lparr>rp_lastSeq := sn, rp_pktHistory := 0, rp_firstPktReceived := True\<rparr>, False)
      else
        let diff = sn - rp_lastSeq r in
        if diff = 0 then (r, False)
        else if diff > 0x8000 then
          if 65535 - diff < 8 then (r\<lparr>rp_pktHistory := rp_pktHistory r OR push_bit (unat (65535 - diff)) 1\<rparr>, True)
          else (r, False)
        else if diff > 8 then (r\<lparr>rp_lastSeq := sn, rp_pktHistory := 0\<rparr>, True)
        else (r\<lparr>rp_lastSeq := sn, rp_pktHistory := push_bit (unat diff) (rp_pktHistory r) OR push_bit (unat diff - 1) 1\<rparr>, True))"

fun recoverLoop :: "nat \<Rightarrow> nat \<Rightarrow> u16 \<Rightarrow> u8 \<Rightarrow> u8 \<Rightarrow> u8" where
  "recoverLoop 0 i bitIndex history recoverBits = recoverBits"
| "recoverLoop (Suc n) i bitIndex history recoverBits =
     (if bitIndex > 7 then recoverBits
      else recoverLoop n (i + 1) (bitIndex + 1) history
             (if history AND push_bit (unat bitIndex) 1 = 0 then recoverBits OR push_bit i 1 else recoverBits))"

definition getSendPktsFromRed :: "RtpPacket \<Rightarrow> RedPrimaryReceiver \<Rightarrow> RedPrimaryReceiver \<times> (redErr + RtpPacket list)" where
  "getSendPktsFromRed rtp r =
     (let (r, needRecover) = updateHistory (rtp_SequenceNumber rtp) r;
          recoverBits = (if needRecover
            then recoverLoop maxRedCount 0 (rp_lastSeq r - rtp_SequenceNumber rtp) (rp_pktHistory r) 0 else 0)
      in (r, extractPktsFromRed rtp recoverBits))"

text \<open>The packets written to the down tracks, with the extended numbers of the recovered ones patched.\<close>

definition primary_ForwardRTP :: "nat \<Rightarrow> ExtPacket \<Rightarrow> RedPrimaryReceiver \<Rightarrow> RedPrimaryReceiver \<times> ExtPacket list" where
  "primary_ForwardRTP downTrackCount pkt r =
     (if downTrackCount = 0 then (r, [])
      else if rtp_PayloadType (ep_Packet pkt) \<noteq> rp_redPT r then (r, [pkt])
      else case getSendPktsFromRed (ep_Packet pkt) r of
        (r, Inl _) \<Rightarrow> (r, [])
      | (r, Inr pkts) \<Rightarrow>
          (r, map (\<lambda>i. let lst = last pkts; p = pkts ! i;
                  pPkt = (if i \<noteq> length pkts - 1
                    then pkt\<lparr>ep_ExtSequenceNumber := ep_ExtSequenceNumber pkt - ucast (rtp_SequenceNumber lst - rtp_SequenceNumber p),
                             ep_ExtTimestamp := ep_ExtTimestamp pkt - ucast (rtp_Timestamp lst - rtp_Timestamp p)\<rparr>
                    else pkt)
                in pPkt\<lparr>ep_Packet := p\<rparr>) [0..<length pkts]))"

section \<open>Round trip\<close>

lemma bit_red_masks: "bit (0x3FF :: int) n \<longleftrightarrow> n < 10" "bit (0x3FFF :: int) n \<longleftrightarrow> n < 14"
  using bit_mask_int [of 10 n] bit_mask_int [of 14 n] by simp_all

lemma and_red_masks:
  fixes x :: u32
  shows "unat x < 2 ^ 10 \<Longrightarrow> x AND 0x3FF = x" "unat x < 2 ^ 14 \<Longrightarrow> x AND 0x3FFF = x"
proof -
  show "x AND 0x3FF = x" if "unat x < 2 ^ 10"
    using bit_less_exp [OF that] by (intro bit_word_eqI) (auto simp: bit_simps bit_red_masks)
  show "x AND 0x3FFF = x" if "unat x < 2 ^ 14"
    using bit_less_exp [OF that] by (intro bit_word_eqI) (auto simp: bit_simps bit_red_masks)
qed

text \<open>The three fields of a block header do not overlap.\<close>

lemma pack_fields:
  fixes a b c :: u32
  assumes "unat a < 2 ^ 8" "unat b < 2 ^ 14" "unat c < 2 ^ 10"
  defines "w \<equiv> push_bit 10 (push_bit 14 a OR b) OR c"
  shows "w AND 0x3FF = c" "drop_bit 10 w AND 0x3FFF = b" "drop_bit 24 w = a"
proof -
  have l: "n < 8" if "bit a n" for n using bit_less_exp [OF assms(1) that] .
  have m: "n < 14" if "bit b n" for n using bit_less_exp [OF assms(2) that] .
  have r: "n < 10" if "bit c n" for n using bit_less_exp [OF assms(3) that] .
  have w: "bit w n \<longleftrightarrow> n < 32 \<and> (10 \<le> n \<and> (24 \<le> n \<and> bit a (n - 24) \<or> bit b (n - 10)) \<or> bit c n)" for n
    by (auto simp: w_def bit_simps dest: l m r)
  show "w AND 0x3FF = c"
    by (rule bit_word_eqI) (use r in \<open>auto simp: bit_and_iff w bit_simps bit_red_masks\<close>)
  show "drop_bit 10 w AND 0x3FFF = b"
    by (rule bit_word_eqI) (use l m r in \<open>fastforce simp: bit_and_iff bit_drop_bit_eq w bit_simps bit_red_masks\<close>)
  show "drop_bit 24 w = a"
    by (rule bit_word_eqI) (use l m r in \<open>fastforce simp: bit_drop_bit_eq w\<close>)
qed

lemma redBlockHeader_fields:
  assumes "length (rtp_Payload p) < 1024" "rtp_Timestamp primary - rtp_Timestamp p < 0x4000"
  defines "w \<equiv> redBlockHeader primary p"
  shows "unat (w AND 0x3FF) = length (rtp_Payload p)" "drop_bit 10 w AND 0x3FFF = rtp_Timestamp primary - rtp_Timestamp p"
    "drop_bit 24 w = 239"
proof -
  let ?len = "of_nat (length (rtp_Payload p)) :: u32" and ?dt = "rtp_Timestamp primary - rtp_Timestamp p"
  have u: "unat ?len = length (rtp_Payload p)" using assms(1) by (simp add: unat_of_nat)
  have b: "unat (239 :: u32) < 2 ^ 8" "unat ?dt < 2 ^ 14" "unat ?len < 2 ^ 10" using assms u by (simp_all add: word_less_nat_alt)
  have "w = push_bit 10 (push_bit 14 239 OR ?dt) OR ?len"
    unfolding w_def redBlockHeader_def Let_def and_red_masks(2) [OF b(2)] and_red_masks(1) [OF b(3)] by (simp add: opusPT_def)
  from pack_fields [OF b, folded this]
  show "unat (w AND 0x3FF) = length (rtp_Payload p)" "drop_bit 10 w AND 0x3FFF = ?dt" "drop_bit 24 w = 239" using u by simp_all
qed

text \<open>A block header in front of a payload.\<close>

definition blockOf :: "RtpPacket \<Rightarrow> RtpPacket \<Rightarrow> block" where
  "blockOf primary p = \<lparr>bl_tsOffset = rtp_Timestamp primary - rtp_Timestamp p, bl_length = length (rtp_Payload p), bl_pt = opusPT,
     bl_primary = False\<rparr>"

definition primaryBlock :: block where
  "primaryBlock = \<lparr>bl_tsOffset = 0, bl_length = 0, bl_pt = opusPT, bl_primary = True\<rparr>"

definition redundant :: "RtpPacket \<Rightarrow> RtpPacket \<Rightarrow> bool" where
  "redundant primary p \<longleftrightarrow> length (rtp_Payload p) < 1024 \<and> rtp_Timestamp primary - rtp_Timestamp p < 0x4000"

lemma redBlocks_header:
  assumes "redundant primary p"
  shows "redBlocks (PutUint32 (redBlockHeader primary p) @ r) bs n = redBlocks r (bs @ [blockOf primary p]) (n + length (rtp_Payload p))"
proof -
  define w where "w = redBlockHeader primary p"
  obtain b0 b1 b2 b3 where b: "PutUint32 w = [b0, b1, b2, b3]" by (simp add: PutUint32_def)
  note F = redBlockHeader_fields [of p primary, folded w_def]
  have "b0 = 239" using b F(3) assms by (simp add: PutUint32_def redundant_def)
  moreover have "Uint32 [b0, b1, b2, b3] = w" using Uint32_Put [of w] b by simp
  ultimately show ?thesis
    unfolding w_def [symmetric] b using F assms by (simp add: blockOf_def redundant_def opusPT_def Let_def)
qed

lemma redBlocks_encoded:
  assumes "\<forall>p\<in>set ps. redundant primary p"
  shows "redBlocks (concat (map (\<lambda>p. PutUint32 (redBlockHeader primary p)) ps) @ opusPT # r) bs n =
    Inr (bs @ map (blockOf primary) ps @ [primaryBlock], n + sum_list (map (\<lambda>p. length (rtp_Payload p)) ps), r)"
  using assms
proof (induction ps arbitrary: bs n)
  case Nil
  then show ?case by (simp add: opusPT_def primaryBlock_def)
next
  case (Cons p ps)
  then show ?case by (simp add: redBlocks_header)
qed

lemma appendBlocks_ok:
  assumes "length buf + sum_list (map (\<lambda>p. length (rtp_Payload p)) ps) \<le> n"
  shows "appendBlocks n ps buf = Inr (buf @ concat (map rtp_Payload ps))"
  using assms by (induction ps arbitrary: buf) auto

lemma encodeRed_bytes:
  assumes "length (rtp_Payload primary) + 1 + sum_list (map (\<lambda>p. length (rtp_Payload p) + 4) ps) \<le> n"
  shows "encodeRed ps primary n = Inr (concat (map (\<lambda>p. PutUint32 (redBlockHeader primary p)) ps) @ opusPT #
    concat (map rtp_Payload ps) @ rtp_Payload primary)"
proof -
  let ?hdr = "concat (map (\<lambda>p. PutUint32 (redBlockHeader primary p)) ps)"
  have l: "length ?hdr = 4 * length ps" by (induction ps) simp_all
  have s: "sum_list (map (\<lambda>p. length (rtp_Payload p) + 4) ps) = sum_list (map (\<lambda>p. length (rtp_Payload p)) ps) + 4 * length ps"
    by (induction ps) simp_all
  show ?thesis
    using assms appendBlocks_ok [of "?hdr @ [opusPT]" "ps @ [primary]" n] l s by (simp add: encodeRed_def Let_def)
qed

text \<open>The packets that come out of the blocks, newest last.\<close>

fun recovered :: "RtpPacket \<Rightarrow> u8 \<Rightarrow> RtpPacket list \<Rightarrow> RtpPacket list" where
  "recovered pkt bits [] = []"
| "recovered pkt bits (p # ps) =
     (if bit bits (length ps)
      then [pkt\<lparr>rtp_SequenceNumber := rtp_SequenceNumber pkt - of_nat (length ps + 1), rtp_Timestamp := rtp_Timestamp p,
                rtp_PayloadType := opusPT, rtp_Payload := rtp_Payload p\<rparr>] else []) @ recovered pkt bits ps"

lemma cutBlocks_encoded:
  assumes "rtp_Timestamp red = rtp_Timestamp primary"
  shows "cutBlocks red bits (map (blockOf primary) ps @ [primaryBlock]) (concat (map rtp_Payload ps) @ r) =
    recovered red bits ps @ [red\<lparr>rtp_PayloadType := opusPT, rtp_Payload := r\<rparr>]"
proof (induction ps)
  case (Cons p ps)
  have "bits AND push_bit (length ps) 1 = 0 \<longleftrightarrow> \<not> bit bits (length ps)"
    by (simp add: push_bit_of_1 and_exp_eq_0_iff_not_bit)
  then show ?case using Cons assms by (simp add: blockOf_def)
qed (simp add: primaryBlock_def)

section \<open>The receive history\<close>

text \<open>
  Incoming packets carry numbers that are extended here to integers; each arrives less than half the range away from the highest
  one. \<open>R\<close> are the packets received so far, \<open>hi\<close> is the highest.
\<close>

inductive red_received :: "RedPrimaryReceiver \<Rightarrow> int \<Rightarrow> int set \<Rightarrow> bool" where
  first: "red_received (fst (updateHistory (word_of_int n) (NewRedPrimaryReceiver pt))) n {n}"
| next_packet: "red_received r hi R \<Longrightarrow> \<bar>n - hi\<bar> < 2 ^ 15 \<Longrightarrow>
    red_received (fst (updateHistory (word_of_int n) r)) (max hi n) (insert n R)"

definition exact :: "RedPrimaryReceiver \<Rightarrow> int \<Rightarrow> int set \<Rightarrow> bool" where
  "exact r hi R \<longleftrightarrow> rp_firstPktReceived r \<and> rp_lastSeq r = word_of_int hi \<and> hi \<in> R \<and> (\<forall>x\<in>R. x \<le> hi) \<and>
     (\<forall>i<8. bit (rp_pktHistory r) i \<longleftrightarrow> hi - 1 - int i \<in> R)"

lemma bit_push_1: "i < 8 \<Longrightarrow> bit (2 ^ k :: u8) i \<longleftrightarrow> i = k"
  by (auto simp: bit_exp_iff)

lemma uint_diff16: "0 \<le> d \<Longrightarrow> d < 65536 \<Longrightarrow> uint (word_of_int d :: u16) = d"
  by (simp add: uint_word_of_int)

lemma exact_older:
  assumes ex: "exact r hi R" and d: "n < hi" "hi - n < 2 ^ 15"
  shows "exact (fst (updateHistory (word_of_int n) r)) hi (insert n R)"
    "snd (updateHistory (word_of_int n) r) \<longleftrightarrow> hi - n \<le> 8"
proof -
  let ?diff = "word_of_int n - rp_lastSeq r"
  have e: "rp_firstPktReceived r" "rp_lastSeq r = word_of_int hi" "hi \<in> R" "\<forall>x\<in>R. x \<le> hi"
    "\<And>i. i < 8 \<Longrightarrow> bit (rp_pktHistory r) i \<longleftrightarrow> hi - 1 - int i \<in> R" using ex by (auto simp: exact_def)
  have "?diff = word_of_int (n - hi + 65536)" by (simp add: e(2) word_of_int_hom_syms word_of_int_eq_iff take_bit_eq_mod)
  then have "uint ?diff = uint (word_of_int (n - hi + 65536) :: u16)" by (simp only:)
  also have "\<dots> = n - hi + 65536" using d by (intro uint_diff16) auto
  finally have u: "uint ?diff = n - hi + 65536" .
  then have c: "?diff \<noteq> 0" "?diff > 0x8000" using d by (auto simp: word_less_def)
  have "65535 - ?diff = word_of_int (hi - n - 1)" by (simp add: e(2) word_of_int_hom_syms word_of_int_eq_iff take_bit_eq_mod)
  then have "uint (65535 - ?diff) = uint (word_of_int (hi - n - 1) :: u16)" by (simp only:)
  also have "\<dots> = hi - n - 1" using d by (intro uint_diff16) auto
  finally have v: "uint (65535 - ?diff) = hi - n - 1" .
  then have w: "65535 - ?diff < 8 \<longleftrightarrow> hi - n \<le> 8" "unat (65535 - ?diff) = nat (hi - n - 1)"
    by (auto simp: word_less_def unat_eq_nat_uint)
  have U: "updateHistory (word_of_int n) r =
      (if hi - n \<le> 8 then (r\<lparr>rp_pktHistory := rp_pktHistory r OR push_bit (nat (hi - n - 1)) 1\<rparr>, True) else (r, False))"
    unfolding updateHistory_def Let_def using e(1) c w by simp
  then show "snd (updateHistory (word_of_int n) r) \<longleftrightarrow> hi - n \<le> 8" by simp
  show "exact (fst (updateHistory (word_of_int n) r)) hi (insert n R)"
    using e d unfolding U exact_def by (auto simp: bit_or_iff bit_push_1)
qed

lemma exact_newer:
  assumes ex: "exact r hi R" and d: "hi < n" "n - hi < 2 ^ 15"
  shows "exact (fst (updateHistory (word_of_int n) r)) n (insert n R)" "snd (updateHistory (word_of_int n) r)"
proof -
  let ?diff = "word_of_int n - rp_lastSeq r"
  have e: "rp_firstPktReceived r" "rp_lastSeq r = word_of_int hi" "hi \<in> R" "\<forall>x\<in>R. x \<le> hi"
    "\<And>i. i < 8 \<Longrightarrow> bit (rp_pktHistory r) i \<longleftrightarrow> hi - 1 - int i \<in> R" using ex by (auto simp: exact_def)
  have "?diff = word_of_int (n - hi)" by (simp add: e(2))
  then have u: "uint ?diff = n - hi" using d uint_diff16 [of "n - hi"] by simp
  then have c: "?diff \<noteq> 0" "\<not> ?diff > 0x8000" "?diff > 8 \<longleftrightarrow> n - hi > 8" "unat ?diff = nat (n - hi)"
    using d by (auto simp: word_less_def unat_eq_nat_uint)
  have U: "updateHistory (word_of_int n) r =
      (if n - hi > 8 then r\<lparr>rp_lastSeq := word_of_int n, rp_pktHistory := 0\<rparr>
       else r\<lparr>rp_lastSeq := word_of_int n,
              rp_pktHistory := push_bit (nat (n - hi)) (rp_pktHistory r) OR push_bit (nat (n - hi) - 1) 1\<rparr>, True)"
    unfolding updateHistory_def Let_def using e(1) c by simp
  then show "snd (updateHistory (word_of_int n) r)" by simp
  have old: "n - 1 - int i \<in> insert n R \<longleftrightarrow> n - 1 - int i \<in> R" for i by simp
  show "exact (fst (updateHistory (word_of_int n) r)) n (insert n R)"
  proof (cases "n - hi > 8")
    case True
    then have "n - 1 - int i \<notin> R" if "i < 8" for i using that e(4) by force
    then show ?thesis using True e d by (auto simp: U exact_def)
  next
    case False
    have "bit (push_bit (nat (n - hi)) (rp_pktHistory r) OR push_bit (nat (n - hi) - 1) 1) i \<longleftrightarrow> n - 1 - int i \<in> R" if i: "i < 8" for i
    proof -
      consider "int i \<ge> n - hi" | "int i = n - hi - 1" | "int i < n - hi - 1" by linarith
      then show ?thesis
      proof cases
        case 1
        then have "hi - 1 - int (i - nat (n - hi)) = n - 1 - int i" "nat (n - hi) \<le> i" using d by auto
        moreover from this(1) have "bit (rp_pktHistory r) (i - nat (n - hi)) \<longleftrightarrow> n - 1 - int i \<in> R"
          using i e(5) [of "i - nat (n - hi)"] by (simp only:)
        moreover have "i \<noteq> nat (n - hi) - 1" using d 1 by auto
        ultimately show ?thesis using i by (simp add: bit_or_iff bit_push_1 bit_push_bit_iff)
      next
        case 2
        then have "n - 1 - int i = hi" "i = nat (n - hi) - 1" using d by auto
        then show ?thesis using i e(3) by (simp add: bit_or_iff bit_push_1)
      next
        case 3
        then have "n - 1 - int i \<notin> R" "\<not> nat (n - hi) \<le> i" "i \<noteq> nat (n - hi) - 1" using e(4) by force+
        then show ?thesis using i by (simp add: bit_or_iff bit_push_1 bit_push_bit_iff)
      qed
    qed
    then show ?thesis using False e d by (auto simp: U exact_def)
  qed
qed

lemma received_exact: "red_received r hi R \<Longrightarrow> exact r hi R"
proof (induction rule: red_received.induct)
  case (first n pt)
  show ?case by (simp add: updateHistory_def NewRedPrimaryReceiver_def exact_def)
next
  case (next_packet r hi R n)
  consider "n < hi" | "n = hi" | "hi < n" by linarith
  then show ?case
  proof cases
    case 2
    have "updateHistory (word_of_int n) r = (r, False)" using next_packet.IH 2 by (simp add: exact_def updateHistory_def)
    then show ?thesis using next_packet.IH 2 by (auto simp: exact_def)
  qed (use exact_older [OF next_packet.IH] exact_newer [OF next_packet.IH] next_packet.hyps(2) in \<open>auto simp: max_def\<close>)
qed

text \<open>The bits that ask for recovery.\<close>

lemma recoverLoop_bits:
  "bit (recoverLoop maxRedCount 0 bi h 0) k \<longleftrightarrow> k < 2 \<and> unat bi + k \<le> 7 \<and> \<not> bit h (unat bi + k)"
proof -
  have z: "h AND 2 ^ j = 0 \<longleftrightarrow> \<not> bit h j" "h AND 2 * 2 ^ j = 0 \<longleftrightarrow> \<not> bit h (Suc j)" for j
    using and_exp_eq_0_iff_not_bit [of h "Suc j"] by (simp_all add: and_exp_eq_0_iff_not_bit)
  have b: "bit (1 :: u8) j \<longleftrightarrow> j = 0" "bit (2 :: int) j \<longleftrightarrow> j = 1" "bit (3 :: int) j \<longleftrightarrow> j < 2" for j
    using bit_exp_iff [of 1 j, where 'a = int] by (auto simp: bit_1_iff bit_consts)
  have l: "maxRedCount = Suc (Suc 0)" by (simp add: maxRedCount_def)
  have u: "unat (bi + 1) = unat bi + 1" if "\<not> 7 < bi" using that by (simp add: word_less_nat_alt unat_word_ariths)
  show ?thesis
    using u by (cases "k = 0"; cases "k = 1") (auto simp: l z b word_less_nat_alt bit_simps)
qed

text \<open>What comes out of arbitrary blocks: recovered packets, and the primary one last.\<close>

lemma redBlocks_shape:
  assumes "redBlocks pl bs n = Inr (blocks, len, rst)"
  shows "\<exists>xs b. blocks = bs @ xs @ [b] \<and> bl_primary b \<and> (\<forall>x\<in>set xs. \<not> bl_primary x)"
  using assms
proof (induction pl bs n rule: redBlocks.induct)
  case (2 b pl bs n)
  show ?case
  proof (cases "b AND 0x80 = 0")
    case True
    then show ?thesis using 2(2) by (intro exI [of _ "[]"]) auto
  next
    case False
    then show ?thesis
      using 2(2) 2(1) [OF False _ refl refl refl refl] by (fastforce simp: Let_def split: if_splits)
  qed
qed simp

lemma cutBlocks_shape:
  assumes "\<forall>x\<in>set xs. \<not> bl_primary x" "bl_primary b"
  shows "\<exists>qs p. cutBlocks red bits (xs @ [b]) pl = qs @ [p] \<and> rtp_SequenceNumber p = rtp_SequenceNumber red \<and>
    (\<forall>q\<in>set qs. \<exists>k. bit bits k \<and> rtp_SequenceNumber q = rtp_SequenceNumber red - of_nat (k + 1))"
  using assms(1)
proof (induction xs arbitrary: pl)
  case Nil
  then show ?case using assms(2) by simp
next
  case (Cons x xs)
  then obtain qs p where IH: "cutBlocks red bits (xs @ [b]) (drop (bl_length x) pl) = qs @ [p]" "rtp_SequenceNumber p = rtp_SequenceNumber red"
    "\<forall>q\<in>set qs. \<exists>k. bit bits k \<and> rtp_SequenceNumber q = rtp_SequenceNumber red - of_nat (k + 1)" by force
  have z: "bits AND push_bit (length xs) 1 = 0 \<longleftrightarrow> \<not> bit bits (length xs)" by (simp add: push_bit_of_1 and_exp_eq_0_iff_not_bit)
  define q where "q = red\<lparr>rtp_SequenceNumber := rtp_SequenceNumber red - of_nat (length xs + 1),
      rtp_Timestamp := rtp_Timestamp red - bl_tsOffset x, rtp_PayloadType := bl_pt x, rtp_Payload := take (bl_length x) pl\<rparr>"
  have "cutBlocks red bits ((x # xs) @ [b]) pl = (if bit bits (length xs) then q # qs else qs) @ [p]"
    using Cons.prems IH(1) z by (simp add: q_def)
  moreover have "\<forall>y\<in>set (if bit bits (length xs) then q # qs else qs).
      \<exists>k. bit bits k \<and> rtp_SequenceNumber y = rtp_SequenceNumber red - of_nat (k + 1)"
    using IH(3) by (auto simp: q_def)
  ultimately show ?case using IH(2) by blast
qed

section \<open>Properties\<close>

text \<open>
  C31: Redundant encoding is lossless: what \<open>encodeRedForPrimary\<close> packs, the unpacking of the other receiver restores. Every
  redundant packet that is asked for comes back with its payload and timestamp (across the wrap-around of the clock), numbered
  back from the primary packet, and the primary packet comes last with its payload; the fast path gives the primary payload too.
\<close>

theorem red_round_trip:
  assumes "\<forall>p\<in>set ps. redundant primary p"
    and "length (rtp_Payload primary) + 1 + sum_list (map (\<lambda>p. length (rtp_Payload p) + 4) ps) \<le> n"
  shows "\<exists>buf. encodeRed ps primary n = Inr buf \<and> length buf \<le> n \<and>
    extractPktsFromRed (primary\<lparr>rtp_PayloadType := opusRedPT, rtp_Payload := buf\<rparr>) bits =
      Inr (recovered (primary\<lparr>rtp_PayloadType := opusRedPT, rtp_Payload := buf\<rparr>) bits ps @ [primary\<lparr>rtp_PayloadType := opusPT\<rparr>])"
proof -
  let ?pls = "concat (map rtp_Payload ps)"
  define buf where "buf = concat (map (\<lambda>p. PutUint32 (redBlockHeader primary p)) ps) @ opusPT # ?pls @ rtp_Payload primary"
  let ?red = "primary\<lparr>rtp_PayloadType := opusRedPT, rtp_Payload := buf\<rparr>"
  have e: "encodeRed ps primary n = Inr buf" using encodeRed_bytes [OF assms(2)] by (simp add: buf_def)
  have l: "length (concat (map (\<lambda>p. PutUint32 (redBlockHeader primary p)) ps)) + length ?pls = sum_list (map (\<lambda>p. length (rtp_Payload p) + 4) ps)"
    by (induction ps) simp_all
  have s: "length ?pls = sum_list (map (\<lambda>p. length (rtp_Payload p)) ps)" by (induction ps) simp_all
  have "redBlocks buf [] 0 = Inr (map (blockOf primary) ps @ [primaryBlock], length ?pls, ?pls @ rtp_Payload primary)"
    using redBlocks_encoded [OF assms(1), of "?pls @ rtp_Payload primary" "[]" 0] s by (simp add: buf_def)
  then have "extractPktsFromRed ?red bits = Inr (recovered ?red bits ps @ [primary\<lparr>rtp_PayloadType := opusPT\<rparr>])"
    using cutBlocks_encoded [of ?red primary bits ps "rtp_Payload primary"] by (simp add: extractPktsFromRed_def)
  moreover have "length buf \<le> n" using assms(2) l by (simp add: buf_def)
  ultimately show ?thesis using e by blast
qed

definition demo_audio :: "u16 \<Rightarrow> u32 \<Rightarrow> bytes \<Rightarrow> RtpPacket" where
  "demo_audio sn ts pl = \<lparr>rtp_SequenceNumber = sn, rtp_Timestamp = ts, rtp_Marker = False, rtp_SSRC = 5, rtp_PayloadType = 111, rtp_Payload = pl\<rparr>"

theorem red_round_trip_witness:
  "\<exists>buf. encodeRed [demo_audio 9 4294967000 [1, 2], demo_audio 10 664 [3]] (demo_audio 11 1624 [4, 5]) mtuSize = Inr buf \<and>
     extractPktsFromRed ((demo_audio 11 1624 [4, 5])\<lparr>rtp_PayloadType := opusRedPT, rtp_Payload := buf\<rparr>) 3 =
       Inr [demo_audio 9 4294967000 [1, 2], demo_audio 10 664 [3], demo_audio 11 1624 [4, 5]]"
proof -
  have r: "\<forall>p\<in>set [demo_audio 9 4294967000 [1, 2], demo_audio 10 664 [3]]. redundant (demo_audio 11 1624 [4, 5]) p"
    by (simp add: redundant_def demo_audio_def)
  have n: "length (rtp_Payload (demo_audio 11 1624 [4, 5])) + 1 +
      sum_list (map (\<lambda>p. length (rtp_Payload p) + 4) [demo_audio 9 4294967000 [1, 2], demo_audio 10 664 [3]]) \<le> mtuSize"
    by (simp add: demo_audio_def mtuSize_def)
  show ?thesis using red_round_trip [OF r n, of 3] by (auto simp: demo_audio_def opusPT_def)
qed

text \<open>
  C33: The eight bit history of the unpacking receiver is exact: after any packets, in any order within half the range of the
  sequence numbers and with duplicates, bit \<open>i\<close> tells whether the packet \<open>i + 1\<close> before the highest one was received.
\<close>

theorem red_history_exact:
  assumes "red_received r hi R" "i < 8"
  shows "bit (rp_pktHistory r) i \<longleftrightarrow> hi - 1 - int i \<in> R"
  using received_exact [OF assms(1)] assms(2) by (simp add: exact_def)

definition demo_red :: RedPrimaryReceiver where
  "demo_red = fst (updateHistory (word_of_int 65537) (fst (updateHistory (word_of_int 65535) (NewRedPrimaryReceiver 63))))"

lemma demo_red_received: "red_received demo_red 65537 {65537, 65535}"
  using red_received.next_packet [OF red_received.first [of 65535 63], of 65537] by (simp add: demo_red_def)

theorem red_history_exact_witness: "\<not> bit (rp_pktHistory demo_red) 0 \<and> bit (rp_pktHistory demo_red) 1"
  using red_history_exact [OF demo_red_received, of 0] red_history_exact [OF demo_red_received, of 1] by simp


definition demo_red_packet :: RtpPacket where
  "demo_red_packet = demo_audio 2 900 [0xEF, 0, 4, 1, 0xEF, 0, 4, 1, 111, 7, 8, 9]"

lemma demo_red_run: "(case getSendPktsFromRed demo_red_packet demo_red of (r', Inl _) \<Rightarrow> False | (r', Inr pkts) \<Rightarrow> length pkts = 2)"
  by code_simp


end
