(* ===== verification/Rtp_Extensions.thy ===== *)
theory Rtp_Extensions
  imports Data_Track Go_Floats
begin

text \<open>
  Small RTP header extensions and trailers: the playout delay extension (\<^verbatim>\<open>rtpextension/playoutdelay\<close>) with the controller that
  decides what is sent (\<^verbatim>\<open>sfu/playoutdelay.go\<close>), the absolute capture time (\<^verbatim>\<open>rtpextension/abscapturetime\<close>) and the packet
  trailer (\<^verbatim>\<open>sfu/packettrailer\<close>).
\<close>

section \<open>Playout delay on the wire\<close>

datatype pdErr = errPlayoutDelayOverflow | errTooSmall

definition PlayoutDelayMaxValue :: u16 where "PlayoutDelayMaxValue = 40950"
definition MaxPlayoutDelayDefault :: u32 where "MaxPlayoutDelayDefault = 10000"

record PlayOutDelay =
  pd_Min :: u16
  pd_Max :: u16

definition PlayoutDelayFromValue :: "u16 \<Rightarrow> u16 \<Rightarrow> PlayOutDelay" where
  "PlayoutDelayFromValue mn mx =
     \<lparr>pd_Min = (if mn > PlayoutDelayMaxValue then PlayoutDelayMaxValue else mn),
      pd_Max = (if mx > PlayoutDelayMaxValue then PlayoutDelayMaxValue else mx)\<rparr>"

definition pd_Marshal :: "PlayOutDelay \<Rightarrow> pdErr + bytes" where
  "pd_Marshal p =
     (let mn = pd_Min p div 10; mx = pd_Max p div 10 in
      if mn \<ge> 0x1000 \<or> mx \<ge> 0x1000 then Inl errPlayoutDelayOverflow
      else Inr [ucast (drop_bit 4 mn), ucast (push_bit 4 mn) OR ucast (drop_bit 8 mx), ucast mx])"

definition pd_Unmarshal :: "bytes \<Rightarrow> pdErr + PlayOutDelay" where
  "pd_Unmarshal rawData =
     (if length rawData < 3 then Inl errTooSmall
      else Inr \<lparr>pd_Min = drop_bit 4 (Uint16 rawData) * 10, pd_Max = (Uint16 (drop 1 rawData) AND 0x0FFF) * 10\<rparr>)"

section \<open>Playout delay controller\<close>

datatype PlayoutDelayState = PlayoutDelayStateChanged | PlayoutDelaySending | PlayoutDelayAcked

definition maxDelayChangePerSec :: u32 where "maxDelayChangePerSec = 80"
definition jitterMultiToDelay :: u32 where "jitterMultiToDelay = 10"

record PlayoutDelayController =
  pc_state :: PlayoutDelayState
  pc_minDelay :: u32
  pc_maxDelay :: u32
  pc_currentDelay :: u32
  pc_extBytes :: bytes
  pc_sendingAtSeq :: u16
  pc_sendingAtTime :: "int option"
  pc_senderSnapshotID :: u32

definition createExtData :: "PlayoutDelayController \<Rightarrow> PlayoutDelayController" where
  "createExtData c =
     (case pd_Marshal (PlayoutDelayFromValue (ucast (pc_currentDelay c)) (ucast (pc_maxDelay c))) of
        Inr b \<Rightarrow> c\<lparr>pc_extBytes := b, pc_state := PlayoutDelayStateChanged\<rparr>
      | Inl _ \<Rightarrow> c)"

definition NewPlayoutDelayController :: "u32 \<Rightarrow> u32 \<Rightarrow> u32 \<Rightarrow> PlayoutDelayController" where
  "NewPlayoutDelayController snapshotID minDelay maxDelay =
     (let maxDelay = (if maxDelay = 0 \<and> minDelay > 0 then MaxPlayoutDelayDefault else maxDelay);
          maxDelay = (if maxDelay > ucast PlayoutDelayMaxValue then ucast PlayoutDelayMaxValue else maxDelay)
      in createExtData \<lparr>pc_state = PlayoutDelayStateChanged, pc_minDelay = minDelay, pc_maxDelay = maxDelay,
           pc_currentDelay = minDelay, pc_extBytes = [], pc_sendingAtSeq = 0, pc_sendingAtTime = None, pc_senderSnapshotID = snapshotID\<rparr>)"

definition pdc_GetState :: "PlayoutDelayController \<Rightarrow> u32" where
  "pdc_GetState c = pc_senderSnapshotID c"

definition pdc_SeedState :: "u32 \<Rightarrow> PlayoutDelayController \<Rightarrow> PlayoutDelayController" where
  "pdc_SeedState snapshotID c = c\<lparr>pc_senderSnapshotID := snapshotID\<rparr>"

text \<open>
  Times are in nanoseconds; \<open>None\<close> is the zero time, from which a duration saturates. \<open>elapsed.Seconds()\<close> adds whole seconds and the
  rounded fraction; the conversion to \<^verbatim>\<open>uint32\<close> of a number out of range keeps its low bits, as on the 64 bit platforms that convert
  through \<^verbatim>\<open>int64\<close>. The packets and retransmission requests since the last call (\<open>DeltaInfoSender\<close> of the snapshot) come from the
  sender statistics; \<open>None\<close> is a missing answer.
\<close>

definition durationSeconds :: "int \<Rightarrow> rat" where
  "durationSeconds d = roundBits 53 (of_int (d div 1000000000) + roundBits 53 (of_int (d mod 1000000000) / 1000000000))"

definition sinceSending :: "int \<Rightarrow> PlayoutDelayController \<Rightarrow> int" where
  "sinceSending now c = (case pc_sendingAtTime c of None \<Rightarrow> 2 ^ 63 - 1 | Some t \<Rightarrow> min (2 ^ 63 - 1) (now - t))"

definition delayChangeLimit :: "int \<Rightarrow> PlayoutDelayController \<Rightarrow> u32" where
  "delayChangeLimit now c =
     (let limit = word_of_int \<lfloor>roundBits 53 (of_int (uint maxDelayChangePerSec) * durationSeconds (sinceSending now c))\<rfloor>
      in if limit > maxDelayChangePerSec then maxDelayChangePerSec else limit)"

definition nackPercent :: "(u32 \<times> u32) option \<Rightarrow> u32" where
  "nackPercent delta =
     (case delta of None \<Rightarrow> 0 | Some (packets, nacks) \<Rightarrow> if packets > 0 then nacks * 100 div packets else 0)"

definition targetDelay :: "(u32 \<times> u32) option \<Rightarrow> int \<Rightarrow> u32 \<Rightarrow> PlayoutDelayController \<Rightarrow> u32" where
  "targetDelay delta now jitter c =
     (let t = jitter * jitterMultiToDelay;
          t = (if nackPercent delta > 60 then t + (nackPercent delta - 60) * 2 else t);
          limit = delayChangeLimit now c;
          cur = pc_currentDelay c;
          t = (if t > cur + limit then cur + limit else if cur > t + limit then cur - limit else t);
          t = (if t < pc_minDelay c then pc_minDelay c else t)
      in if t > pc_maxDelay c then pc_maxDelay c else t)"

definition SetJitter :: "(u32 \<times> u32) option \<Rightarrow> int \<Rightarrow> u32 \<Rightarrow> PlayoutDelayController \<Rightarrow> PlayoutDelayController" where
  "SetJitter delta now jitter c =
     (let t = targetDelay delta now jitter c in
      if pc_currentDelay c = t then c else createExtData (c\<lparr>pc_currentDelay := t\<rparr>))"

definition OnSeqAcked :: "u16 \<Rightarrow> PlayoutDelayController \<Rightarrow> PlayoutDelayController" where
  "OnSeqAcked sn c =
     (if pc_state c = PlayoutDelaySending \<and> sn - pc_sendingAtSeq c < 0x8000 then c\<lparr>pc_state := PlayoutDelayAcked\<rparr> else c)"

definition GetDelayExtension :: "int \<Rightarrow> u16 \<Rightarrow> PlayoutDelayController \<Rightarrow> PlayoutDelayController \<times> bytes option" where
  "GetDelayExtension now sn c =
     (case pc_state c of
        PlayoutDelayStateChanged \<Rightarrow> 
          (c\<lparr>pc_state := PlayoutDelaySending, pc_sendingAtSeq := sn, pc_sendingAtTime := Some now\<rparr>, Some (pc_extBytes c))
      | PlayoutDelaySending \<Rightarrow> (c, Some (pc_extBytes c))
      | PlayoutDelayAcked \<Rightarrow> (c, None))"

section \<open>Absolute capture time\<close>

datatype actErr = errInvalidData | errActTooSmall

definition PutUint64 :: "u64 \<Rightarrow> bytes" where
  "PutUint64 v = PutUint32 (ucast (drop_bit 32 v)) @ PutUint32 (ucast v)"

definition Uint64 :: "bytes \<Rightarrow> u64" where
  "Uint64 b = push_bit 32 (ucast (Uint32 b)) OR ucast (Uint32 (drop 4 b))"

record AbsCaptureTime =
  act_timestamp :: u64
  act_clockOffset :: u64

text \<open>The conversions between NTP time stamps and times come from the transport utility library.\<close>

definition act_Rewrite :: "(u64 \<Rightarrow> int) \<Rightarrow> (int \<Rightarrow> u64) \<Rightarrow> int \<Rightarrow> AbsCaptureTime \<Rightarrow> actErr + AbsCaptureTime" where
  "act_Rewrite ntpTime toNtpTime offset a =
     (if act_timestamp a = 0 then Inl errInvalidData
      else Inr \<lparr>act_timestamp = toNtpTime (ntpTime (act_timestamp a) + offset), act_clockOffset = 0\<rparr>)"

definition act_Marshal :: "AbsCaptureTime \<Rightarrow> actErr + bytes" where
  "act_Marshal a =
     (if act_timestamp a = 0 then Inl errInvalidData
      else Inr (PutUint64 (act_timestamp a) @ (if act_clockOffset a \<noteq> 0 then PutUint64 (act_clockOffset a) else [])))"

definition act_Unmarshal :: "bytes \<Rightarrow> AbsCaptureTime \<Rightarrow> actErr + AbsCaptureTime" where
  "act_Unmarshal marshalled a =
     (if length marshalled < 8 then Inl errActTooSmall
      else
        let a = a\<lparr>act_timestamp := Uint64 marshalled\<rparr>
        in Inr (if length marshalled \<ge> 16 then a\<lparr>act_clockOffset := Uint64 (drop 8 marshalled)\<rparr> else a))"

section \<open>Packet trailer\<close>

definition Magic :: bytes where "Magic = [0x4C, 0x4B, 0x54, 0x53]"

definition StripTrailer :: "bytes \<Rightarrow> bool \<Rightarrow> nat" where
  "StripTrailer payload marker =
     (if \<not> marker \<or> length payload < 5 then 0
      else if drop (length payload - 4) payload \<noteq> Magic then 0
      else
        let trailerLen = unat (payload ! (length payload - 5) XOR 0xFF) in
        if trailerLen < 5 \<or> trailerLen > length payload then 0 else trailerLen)"

section \<open>Round trips\<close>

lemma pd_fields:
  fixes mn mx :: u16
  assumes "unat mn < 2 ^ 12" "unat mx < 2 ^ 12"
  defines "b \<equiv> [ucast (drop_bit 4 mn) :: u8, ucast (push_bit 4 mn) OR ucast (drop_bit 8 mx), ucast mx]"
  shows "drop_bit 4 (Uint16 b) = mn" "Uint16 (drop 1 b) AND 0x0FFF = mx"
proof -
  have l: "n < 12" if "bit mn n" for n using bit_less_exp [OF assms(1) that] .
  have r: "n < 12" if "bit mx n" for n using bit_less_exp [OF assms(2) that] .
  show "drop_bit 4 (Uint16 b) = mn"
    by (rule bit_word_eqI) (use l r in \<open>fastforce simp: b_def Uint16_def bit_simps\<close>)
  show "Uint16 (drop 1 b) AND 0x0FFF = mx"
    by (rule bit_word_eqI) (use l r in \<open>fastforce simp: b_def Uint16_def bit_simps bit_consts\<close>)
qed


lemma u16_div10:
  fixes v :: u16
  assumes "unat v \<le> 40950"
  shows "unat (v div 10) < 2 ^ 12" "\<not> v div 10 \<ge> 0x1000" "unat (v div 10 * 10) = unat v div 10 * 10"
proof -
  have d: "unat (v div 10) = unat v div 10" by (simp add: unat_div)
  show a: "unat (v div 10) < 2 ^ 12" unfolding d using assms by simp
  show "\<not> v div 10 \<ge> 0x1000" using a by (simp add: word_le_nat_alt)
  show "unat (v div 10 * 10) = unat v div 10 * 10"
    unfolding unat_word_ariths d using assms by simp
qed

text \<open>A delay that went through \<open>PlayoutDelayFromValue\<close> is marshalled without error and read back in units of ten milliseconds.\<close>

lemma pd_round_trip:
  "\<exists>b. pd_Marshal (PlayoutDelayFromValue mn mx) = Inr b \<and>
    pd_Unmarshal b = Inr \<lparr>pd_Min = pd_Min (PlayoutDelayFromValue mn mx) div 10 * 10, pd_Max = pd_Max (PlayoutDelayFromValue mn mx) div 10 * 10\<rparr>"
proof -
  define p where "p = PlayoutDelayFromValue mn mx"
  have b: "unat (pd_Min p) \<le> 40950" "unat (pd_Max p) \<le> 40950"
    by (auto simp: p_def PlayoutDelayFromValue_def PlayoutDelayMaxValue_def word_less_nat_alt)
  note m = u16_div10 [OF b(1)] and x = u16_div10 [OF b(2)]
  show ?thesis
    unfolding p_def [symmetric] using m(2) x(2) pd_fields [OF m(1) x(1)]
    by (simp add: pd_Marshal_def pd_Unmarshal_def Let_def)
qed


lemma Uint32_append: "Uint32 (PutUint32 v @ r) = v"
  using Uint32_Put [of v] by (simp add: Uint32_def PutUint32_def nth_append)

lemma Uint64_Put: "Uint64 (PutUint64 v @ r) = v"
proof -
  have "Uint64 (PutUint64 v @ r) = push_bit 32 (ucast (ucast (drop_bit 32 v) :: u32)) OR ucast (ucast v :: u32)"
    by (simp add: Uint64_def PutUint64_def Uint32_append)
  also have "\<dots> = v"
  proof (rule bit_word_eqI)
    fix n assume "n < LENGTH(64)"
    then show "bit (push_bit 32 (ucast (ucast (drop_bit 32 v) :: u32)) OR ucast (ucast v :: u32) :: u64) n = bit v n"
      by (cases "n < 32") (auto simp: bit_simps)
  qed
  finally show ?thesis .
qed

lemma length_PutUint64 [simp]: "length (PutUint64 v) = 8"
  by (simp add: PutUint64_def)

text \<open>
  The absolute capture time is read back as it was written, with or without a clock offset, provided the receiving structure has no
  clock offset of its own: an earlier offset survives a short extension.
\<close>

lemma act_round_trip:
  assumes "act_timestamp a \<noteq> 0" "act_clockOffset a' = 0"
  shows "\<exists>b. act_Marshal a = Inr b \<and> act_Unmarshal (b @ r) a' =
           Inr (if act_clockOffset a \<noteq> 0 then a else \<lparr>act_timestamp = act_timestamp a,
                  act_clockOffset = (if length r \<ge> 8 then Uint64 r else 0)\<rparr>)"
  using assms Uint64_Put [of "act_timestamp a"] Uint64_Put [of "act_clockOffset a" r]
  by (cases a; cases a') (auto simp: act_Marshal_def act_Unmarshal_def Let_def)

text \<open>The trailer that is stripped lies inside the payload and includes its magic and its length byte.\<close>

lemma StripTrailer_bounds:
  assumes "StripTrailer payload marker = n" "n > 0"
  shows "marker" "5 \<le> n" "n \<le> length payload" "drop (length payload - 4) payload = Magic"
  using assms by (auto simp: StripTrailer_def Let_def split: if_splits)


section \<open>Runs of the controller\<close>

text \<open>
  The controller is called by the receiver report handler (\<open>SetJitter\<close>, \<open>OnSeqAcked\<close>) and by the sender of the down track
  (\<open>GetDelayExtension\<close>).
\<close>

datatype pdEvent = EvJitter "(u32 \<times> u32) option" int u32 | EvAcked u16 | EvPacket int u16

fun pd_step :: "pdEvent \<Rightarrow> PlayoutDelayController \<Rightarrow> PlayoutDelayController" where
  "pd_step (EvJitter d l j) c = SetJitter d l j c"
| "pd_step (EvAcked sn) c = OnSeqAcked sn c"
| "pd_step (EvPacket now sn) c = fst (GetDelayExtension now sn c)"

definition pd_run :: "pdEvent list \<Rightarrow> PlayoutDelayController \<Rightarrow> PlayoutDelayController" where
  "pd_run = fold pd_step"

lemma pd_run_simps [simp]: "pd_run [] c = c" "pd_run (es @ [e]) c = pd_step e (pd_run es c)"
  by (simp_all add: pd_run_def)

text \<open>The value in force: the delay is within the limits and the bytes of the extension are read back to it.\<close>

definition pd_inv :: "u32 \<Rightarrow> u32 \<Rightarrow> PlayoutDelayController \<Rightarrow> bool" where
  "pd_inv mn mx c \<longleftrightarrow> pc_minDelay c = mn \<and> pc_maxDelay c = mx \<and> mn \<le> pc_currentDelay c \<and> pc_currentDelay c \<le> mx \<and>
     pd_Unmarshal (pc_extBytes c) =
       Inr \<lparr>pd_Min = ucast (pc_currentDelay c) div 10 * 10, pd_Max = ucast mx div 10 * 10\<rparr>"

text \<open>Where the bytes of the extension were first attached to a packet, and that this packet or a later one was acknowledged.\<close>

definition pd_carried :: "PlayoutDelayController \<Rightarrow> pdEvent list \<Rightarrow> u16 \<Rightarrow> bytes \<Rightarrow> pdEvent list \<Rightarrow> bool" where
  "pd_carried c0 es sn b es2 \<longleftrightarrow>
     (\<exists>es1 now. es = es1 @ EvPacket now sn # es2 \<and> snd (GetDelayExtension now sn (pd_run es1 c0)) = Some b)"

lemma createExtData_inv:
  assumes "pc_minDelay c = mn" "pc_maxDelay c = mx" "mn \<le> pc_currentDelay c" "pc_currentDelay c \<le> mx" "mx \<le> 40950"
  shows "pd_inv mn mx (createExtData c)" "pc_state (createExtData c) = PlayoutDelayStateChanged"
    "pc_currentDelay (createExtData c) = pc_currentDelay c"
proof -
  have u: "unat (ucast v :: u16) \<le> 40950" if "v \<le> (40950 :: u32)" for v
    using that order_trans [OF take_bit_nat_less_eq_self [of 16 "unat v"]] by (simp add: word_le_nat_alt unsigned_ucast_eq)
  have e: "PlayoutDelayFromValue (ucast v) (ucast w) = \<lparr>pd_Min = ucast v, pd_Max = ucast w\<rparr>"
    if "v \<le> (40950 :: u32)" "w \<le> (40950 :: u32)" for v w
    using u [OF that(1)] u [OF that(2)]
    by (auto simp: PlayoutDelayFromValue_def PlayoutDelayMaxValue_def word_less_nat_alt)
  have "pc_currentDelay c \<le> 40950" using assms by (meson order_trans)
  then obtain b where b: "pd_Marshal (PlayoutDelayFromValue (ucast (pc_currentDelay c)) (ucast mx)) = Inr b"
    "pd_Unmarshal b = Inr \<lparr>pd_Min = ucast (pc_currentDelay c) div 10 * 10, pd_Max = ucast mx div 10 * 10\<rparr>"
    using pd_round_trip [of "ucast (pc_currentDelay c)" "ucast mx"] e assms(5) by auto
  show "pd_inv mn mx (createExtData c)" "pc_state (createExtData c) = PlayoutDelayStateChanged"
    "pc_currentDelay (createExtData c) = pc_currentDelay c"
    using assms b by (simp_all add: createExtData_def pd_inv_def)
qed

lemma targetDelay_range:
  assumes "pc_minDelay c \<le> pc_maxDelay c"
  shows "pc_minDelay c \<le> targetDelay d l j c" "targetDelay d l j c \<le> pc_maxDelay c"
  using assms by (auto simp: targetDelay_def Let_def not_less)

lemma pd_inv_step:
  assumes "pd_inv mn mx c" "mx \<le> 40950"
  shows "pd_inv mn mx (pd_step e c)"
proof (cases e)
  case (EvJitter d l j)
  have "mn \<le> mx" using assms(1) by (auto simp: pd_inv_def)
  then have "mn \<le> targetDelay d l j c" "targetDelay d l j c \<le> mx"
    using targetDelay_range [of c d l j] assms(1) by (auto simp: pd_inv_def)
  then show ?thesis using EvJitter assms createExtData_inv(1) [of "c\<lparr>pc_currentDelay := targetDelay d l j c\<rparr>" mn mx]
    by (auto simp: SetJitter_def Let_def pd_inv_def)
qed (use assms in \<open>auto simp: pd_inv_def OnSeqAcked_def GetDelayExtension_def split: PlayoutDelayState.split\<close>)

lemma SetJitter_state:
  assumes "pd_inv mn mx c" "mx \<le> 40950"
  shows "SetJitter d l j c = c \<or> pc_state (SetJitter d l j c) = PlayoutDelayStateChanged"
proof -
  have "mn \<le> mx" using assms(1) by (auto simp: pd_inv_def)
  then have "mn \<le> targetDelay d l j c" "targetDelay d l j c \<le> mx"
    using targetDelay_range [of c d l j] assms(1) by (auto simp: pd_inv_def)
  then show ?thesis using assms createExtData_inv(2) [of "c\<lparr>pc_currentDelay := targetDelay d l j c\<rparr>" mn mx]
    by (auto simp: SetJitter_def Let_def pd_inv_def)
qed

lemma pd_carried_snoc: "pd_carried c0 es sn b es2 \<Longrightarrow> pd_carried c0 (es @ [e]) sn b (es2 @ [e])"
  by (auto simp: pd_carried_def)

text \<open>The ghost state of a run: what has to have happened in the states \<open>Sending\<close> and \<open>Acked\<close>.\<close>

definition pd_history :: "PlayoutDelayController \<Rightarrow> pdEvent list \<Rightarrow> PlayoutDelayController \<Rightarrow> bool" where
  "pd_history c0 es c \<longleftrightarrow>
     (pc_state c = PlayoutDelaySending \<longrightarrow> (\<exists>es2. pd_carried c0 es (pc_sendingAtSeq c) (pc_extBytes c) es2)) \<and>
     (pc_state c = PlayoutDelayAcked \<longrightarrow>
        (\<exists>sn es2 a. pd_carried c0 es sn (pc_extBytes c) es2 \<and> EvAcked a \<in> set es2 \<and> a - sn < 0x8000))"

lemma pd_history_step:
  assumes h: "pd_history c0 es c" and c: "c = pd_run es c0" and i: "pd_inv mn mx c" "mx \<le> 40950"
  shows "pd_history c0 (es @ [e]) (pd_step e c)"
proof (cases "pd_step e c = c")
  case True
  then show ?thesis using h by (fastforce simp: pd_history_def intro: pd_carried_snoc)
next
  case False
  show ?thesis
  proof (cases e)
    case (EvJitter d l j)
    then show ?thesis using SetJitter_state [OF i, of d l j] False by (auto simp: pd_history_def)
  next
    case (EvAcked a)
    then have s: "pc_state c = PlayoutDelaySending" "a - pc_sendingAtSeq c < 0x8000"
      using False by (auto simp: OnSeqAcked_def split: if_splits)
    then obtain es2 where "pd_carried c0 es (pc_sendingAtSeq c) (pc_extBytes c) es2" using h by (auto simp: pd_history_def)
    from pd_carried_snoc [OF this, of e] show ?thesis
      using s EvAcked by (fastforce simp: pd_history_def OnSeqAcked_def)
  next
    case (EvPacket now sn)
    then have "pc_state c = PlayoutDelayStateChanged"
      using False by (cases "pc_state c") (auto simp: GetDelayExtension_def)
    then have "pd_carried c0 (es @ [e]) sn (pc_extBytes c) []" 
      "pd_step e c = c\<lparr>pc_state := PlayoutDelaySending, pc_sendingAtSeq := sn, pc_sendingAtTime := Some now\<rparr>"
      using EvPacket c by (simp_all add: pd_carried_def GetDelayExtension_def)
    then show ?thesis by (auto simp: pd_history_def)
  qed
qed

lemma pd_run_inv:
  assumes "pd_inv mn mx c0" "pc_state c0 = PlayoutDelayStateChanged" "mx \<le> 40950"
  shows "pd_inv mn mx (pd_run es c0) \<and> pd_history c0 es (pd_run es c0)"
  by (induction es rule: rev_induct)
    (use assms in \<open>auto simp: pd_history_def [of c0 "[]"] intro: pd_inv_step pd_history_step [OF _ refl]\<close>)

text \<open>
  C36: The playout delay reaches the receiver. In every run of a controller with consistent limits, (1) the delay stays within the
  limits and the bytes of the extension are always read back to the delay in force, in steps of ten milliseconds; (2) the controller
  stops attaching the extension only after a packet that carried exactly these bytes was sent and it or a later packet was
  acknowledged; until then every packet carries them.
\<close>

theorem playout_delay_delivered:
  assumes lim: "mn \<le> mx" "mx \<le> 40950" "0 < mx"
    and c: "c0 = NewPlayoutDelayController snap mn mx" "c = pd_run es c0"
  shows "mn \<le> pc_currentDelay c \<and> pc_currentDelay c \<le> mx \<and>
    pd_Unmarshal (pc_extBytes c) = Inr \<lparr>pd_Min = ucast (pc_currentDelay c) div 10 * 10, pd_Max = ucast mx div 10 * 10\<rparr> \<and>
    (snd (GetDelayExtension now sn c) = Some (pc_extBytes c) \<or>
     snd (GetDelayExtension now sn c) = None \<and>
     (\<exists>es1 t n es2 a. es = es1 @ EvPacket t n # es2 \<and> snd (GetDelayExtension t n (pd_run es1 c0)) = Some (pc_extBytes c) \<and>
        EvAcked a \<in> set es2 \<and> a - n < 0x8000))"
proof -
  have z: "mx \<noteq> 0" and m: "\<not> mx > ucast PlayoutDelayMaxValue"
    using lim by (auto simp: PlayoutDelayMaxValue_def not_less)
  have "pd_inv mn mx c0" "pc_state c0 = PlayoutDelayStateChanged"
    using lim z m unfolding c NewPlayoutDelayController_def Let_def
    by (simp_all add: createExtData_inv)
  from pd_run_inv [OF this lim(2), of es] have i: "pd_inv mn mx c" "pd_history c0 es c" unfolding c(2) by auto
  have g: "snd (GetDelayExtension now sn c) = (if pc_state c = PlayoutDelayAcked then None else Some (pc_extBytes c))"
    by (cases "pc_state c") (simp_all add: GetDelayExtension_def)
  show ?thesis
    using i unfolding pd_inv_def pd_history_def pd_carried_def g by (cases "pc_state c = PlayoutDelayAcked") (simp; blast)+
qed

text \<open>Jitter of 30 ms raises the delay from 100 to 180 ms; packet 7 carries it and packet 9 is acknowledged.\<close>

theorem playout_delay_delivered_witness:
  "let c0 = NewPlayoutDelayController 1 100 2000;
       c = pd_run [EvJitter None 5000 30, EvPacket 6000 7, EvAcked 6, EvPacket 7000 8, EvAcked 9] c0
   in (100 \<le> pc_currentDelay c \<and> pc_currentDelay c \<le> 2000) \<and> pc_currentDelay c = 180 \<and>
      pd_Unmarshal (pc_extBytes c) = Inr \<lparr>pd_Min = 180, pd_Max = 2000\<rparr> \<and> snd (GetDelayExtension 8000 10 c) = None"
proof -
  define c where "c = pd_run [EvJitter None 5000 30, EvPacket 6000 7, EvAcked 6, EvPacket 7000 8, EvAcked 9] (NewPlayoutDelayController 1 100 2000)"
  have e: "pc_currentDelay c = 180" "snd (GetDelayExtension 8000 10 c) = None" unfolding c_def by code_simp+
  show ?thesis
    using playout_delay_delivered [OF _ _ _ refl c_def, of 8000 10] e unfolding Let_def c_def [symmetric] by simp
qed

end
