(* ===== verification/Ops_Queue.thy ===== *)
theory Ops_Queue
  imports Prelude
begin

text \<open>
  \<^verbatim>\<open>pkg/utils/opsqueue.go\<close>: a queue of operations that one goroutine runs in order. Callers and the goroutine share the queue
  under its lock and the channel \<open>wake\<close>, which holds one token. Every section between \<^verbatim>\<open>lock\<close> and \<^verbatim>\<open>unlock\<close>, every receive and every
  run of an operation is one step, and steps interleave freely. An operation is a value; what it does when it runs is left to the
  caller, and it may call the queue again. A send on a closed channel and closing it twice are panics (\<open>None\<close>).
\<close>

section \<open>State\<close>

text \<open>Where the goroutine \<open>process\<close> stands: at the receive, at the top of the inner loop, inside \<open>op.run()\<close>, or returned.\<close>

datatype 'a processAt = NotStarted | AtWake | AtLoop | AtRun 'a | Returned

record 'a opsQueueBase =
  oq_FlushOnStop :: bool
  oq_ops :: "'a list"
  oq_wake :: bool
  oq_wakeClosed :: bool
  oq_isStarted :: bool
  oq_isStopped :: bool
  oq_process :: "'a processAt"

definition newOpsQueueBase :: "bool \<Rightarrow> 'a opsQueueBase" where
  "newOpsQueueBase flushOnStop =
     \<lparr>oq_FlushOnStop = flushOnStop, oq_ops = [], oq_wake = False, oq_wakeClosed = False, oq_isStarted = False,
      oq_isStopped = False, oq_process = NotStarted\<rparr>"

section \<open>Operations\<close>

definition oq_Start :: "'a opsQueueBase \<Rightarrow> 'a opsQueueBase" where
  "oq_Start q = (if oq_isStarted q then q else q\<lparr>oq_isStarted := True, oq_process := AtWake\<rparr>)"

definition oq_Stop :: "'a opsQueueBase \<Rightarrow> 'a opsQueueBase option" where
  "oq_Stop q =
     (if oq_isStopped q then Some q
      else if oq_wakeClosed q then None
      else Some (q\<lparr>oq_isStopped := True, oq_wakeClosed := True\<rparr>))"

definition oq_Enqueue :: "'a \<Rightarrow> 'a opsQueueBase \<Rightarrow> 'a opsQueueBase option" where
  "oq_Enqueue op q =
     (if oq_isStopped q then Some q
      else
        let q = q\<lparr>oq_ops := oq_ops q @ [op]\<rparr> in
        if length (oq_ops q) = 1 then
          if oq_wakeClosed q then None else Some (q\<lparr>oq_wake := True\<rparr>)
        else Some q)"

text \<open>One step of the goroutine; \<open>None\<close> when it is blocked, has returned or was never started.\<close>

definition processStep :: "'a opsQueueBase \<Rightarrow> 'a opsQueueBase option" where
  "processStep q =
     (case oq_process q of
        NotStarted \<Rightarrow> None
      | AtWake \<Rightarrow>
          if oq_wake q then Some (q\<lparr>oq_wake := False, oq_process := AtLoop\<rparr>)
          else if oq_wakeClosed q then Some (q\<lparr>oq_process := AtLoop\<rparr>)
          else None
      | AtLoop \<Rightarrow>
          if oq_isStopped q \<and> (\<not> oq_FlushOnStop q \<or> length (oq_ops q) = 0) then Some (q\<lparr>oq_process := Returned\<rparr>)
          else (case oq_ops q of
            [] \<Rightarrow> Some (q\<lparr>oq_process := AtWake\<rparr>)
          | op # ops \<Rightarrow> Some (q\<lparr>oq_ops := ops, oq_process := AtRun op\<rparr>))
      | AtRun op \<Rightarrow> Some (q\<lparr>oq_process := AtLoop\<rparr>)
      | Returned \<Rightarrow> None)"

section \<open>Runs\<close>

fun running :: "'a processAt \<Rightarrow> 'a list" where
  "running (AtRun op) = [op]"
| "running _ = []"

text \<open>
  A run of the queue with the operations that were accepted, those enqueued before the queue was stopped, and the operations that
  have been run, each in order.
\<close>

inductive oq_run :: "bool \<Rightarrow> 'a opsQueueBase \<Rightarrow> 'a list \<Rightarrow> 'a list \<Rightarrow> bool" for flush where
  New: "oq_run flush (newOpsQueueBase flush) [] []"
| Start: "oq_run flush q acc done_ops \<Longrightarrow> oq_run flush (oq_Start q) acc done_ops"
| Stop: "oq_run flush q acc done_ops \<Longrightarrow> oq_Stop q = Some q' \<Longrightarrow> oq_run flush q' acc done_ops"
| Enqueue: "oq_run flush q acc done_ops \<Longrightarrow> oq_Enqueue op q = Some q' \<Longrightarrow>
    oq_run flush q' (if oq_isStopped q then acc else acc @ [op]) done_ops"
| Process: "oq_run flush q acc done_ops \<Longrightarrow> processStep q = Some q' \<Longrightarrow> oq_run flush q' acc (done_ops @ running (oq_process q))"

definition oq_inv :: "bool \<Rightarrow> 'a opsQueueBase \<Rightarrow> 'a list \<Rightarrow> 'a list \<Rightarrow> bool" where
  "oq_inv flush q acc done_ops \<longleftrightarrow>
     oq_FlushOnStop q = flush \<and> (oq_wakeClosed q \<longleftrightarrow> oq_isStopped q) \<and>
     (oq_process q = NotStarted \<longleftrightarrow> \<not> oq_isStarted q) \<and>
     (oq_process q \<in> {NotStarted, AtWake} \<and> oq_ops q \<noteq> [] \<longrightarrow> oq_wake q \<or> oq_isStopped q) \<and>
     (oq_process q = Returned \<longrightarrow> oq_isStopped q \<and> (flush \<longrightarrow> oq_ops q = [])) \<and>
     acc = done_ops @ running (oq_process q) @ oq_ops q"

lemma oq_run_inv: "oq_run flush q acc done_ops \<Longrightarrow> oq_inv flush q acc done_ops"
proof (induction rule: oq_run.induct)
  case New then show ?case by (simp add: oq_inv_def newOpsQueueBase_def)
next
  case Start then show ?case by (auto simp: oq_inv_def oq_Start_def)
next
  case Stop then show ?case by (auto simp: oq_inv_def oq_Stop_def split: if_splits)
next
  case Enqueue then show ?case by (auto simp: oq_inv_def oq_Enqueue_def Let_def split: if_splits)
next
  case (Process q acc done_ops q')
  then show ?case
    by (cases "oq_process q"; cases "oq_ops q")
      (clarsimp simp: oq_inv_def processStep_def split: if_splits)+
qed

section \<open>The goroutine on its own\<close>

primrec processRun :: "nat \<Rightarrow> 'a opsQueueBase \<times> 'a list \<Rightarrow> 'a opsQueueBase \<times> 'a list" where
  "processRun 0 s = s"
| "processRun (Suc n) s =
     (case processStep (fst s) of None \<Rightarrow> s | Some q \<Rightarrow> processRun n (q, snd s @ running (oq_process (fst s))))"

lemma drain_loop:
  assumes "oq_process q = AtLoop" "oq_FlushOnStop q \<or> \<not> oq_isStopped q"
  shows "\<exists>q'. processRun (2 * length (oq_ops q)) (q, done_ops) = (q', done_ops @ oq_ops q) \<and> oq_ops q' = []"
  using assms
proof (induction "oq_ops q" arbitrary: q done_ops)
  case (Cons op ops)
  define q1 where "q1 = q\<lparr>oq_ops := ops, oq_process := AtLoop\<rparr>"
  have s: "oq_ops q = op # ops" using Cons.hyps by simp
  have "processRun (2 * length (oq_ops q)) (q, done_ops) = processRun (2 * length ops) (q1, done_ops @ [op])"
    using Cons.prems by (auto simp: s q1_def processStep_def)
  with Cons.hyps(1) [of q1 "done_ops @ [op]"] Cons.prems show ?case by (auto simp: q1_def s)
qed auto

lemma drain_step:
  assumes "processStep q = Some q1" "oq_process q1 = AtLoop" "oq_FlushOnStop q1 \<or> \<not> oq_isStopped q1"
  shows "\<exists>n q'. processRun n (q, done_ops) = (q', done_ops @ running (oq_process q) @ oq_ops q1) \<and> oq_ops q' = []"
proof -
  obtain q' where "processRun (2 * length (oq_ops q1)) (q1, done_ops @ running (oq_process q)) = (q', done_ops @ running (oq_process q) @ oq_ops q1)"
    "oq_ops q' = []" using drain_loop [OF assms(2,3), of "done_ops @ running (oq_process q)"] by auto
  then have "processRun (Suc (2 * length (oq_ops q1))) (q, done_ops) = (q', done_ops @ running (oq_process q) @ oq_ops q1)"
    using assms(1) by simp
  with \<open>oq_ops q' = []\<close> show ?thesis by blast
qed

lemma queue_drains:
  assumes run: "oq_run flush q acc done_ops" and started: "oq_isStarted q" and flush: "flush \<or> \<not> oq_isStopped q"
  shows "(\<exists>n q'. processRun n (q, done_ops) = (q', acc) \<and> oq_ops q' = []) \<and>
    (processStep q = None \<longrightarrow> acc = done_ops \<and> (oq_process q = AtWake \<and> \<not> oq_isStopped q \<or> oq_process q = Returned \<and> oq_isStopped q))"
proof -
  have i: "oq_inv flush q acc done_ops" using oq_run_inv [OF run] .
  have f: "oq_FlushOnStop q \<or> \<not> oq_isStopped q" using i flush by (auto simp: oq_inv_def)
  have "\<exists>n q'. processRun n (q, done_ops) = (q', done_ops @ running (oq_process q) @ oq_ops q) \<and> oq_ops q' = []"
  proof (cases "oq_process q")
    case AtWake
    show ?thesis
    proof (cases "processStep q")
      case None
      then have "oq_ops q = []" using AtWake i by (auto simp: processStep_def oq_inv_def split: if_splits)
      then have "processRun 0 (q, done_ops) = (q, done_ops @ running (oq_process q) @ oq_ops q)" using AtWake by simp
      with \<open>oq_ops q = []\<close> show ?thesis by blast
    next
      case (Some q1)
      then show ?thesis using drain_step [OF Some, of done_ops] AtWake f by (auto simp: processStep_def split: if_splits)
    qed
  next
    case AtLoop
    then show ?thesis using drain_loop [OF AtLoop f, of done_ops] by auto
  next
    case (AtRun op)
    then show ?thesis using drain_step [of q "q\<lparr>oq_process := AtLoop\<rparr>" done_ops] f by (auto simp: processStep_def)
  next
    case Returned
    then have "oq_ops q = []" "processRun 0 (q, done_ops) = (q, done_ops @ running (oq_process q) @ oq_ops q)"
      using i flush by (auto simp: oq_inv_def)
    then show ?thesis by blast
  qed (use i started in \<open>auto simp: oq_inv_def\<close>)
  moreover have "acc = done_ops @ running (oq_process q) @ oq_ops q" using i by (simp add: oq_inv_def)
  moreover have "acc = done_ops \<and> (oq_process q = AtWake \<and> \<not> oq_isStopped q \<or> oq_process q = Returned \<and> oq_isStopped q)"
    if "processStep q = None"
    using that i started flush
    by (cases "oq_process q") (auto simp: oq_inv_def processStep_def split: if_splits list.splits)
  ultimately show ?thesis by simp
qed

section \<open>Interface\<close>

text \<open>
  What a client of the queue relies on: the runs of the queue with the accepted and the finished operations, and the goroutine on its
  own. What has been done is a prefix of what was accepted, and a ready queue gets everything done.
\<close>

locale ordered_delivery =
  fixes queue_run :: "'q \<Rightarrow> 'a list \<Rightarrow> 'a list \<Rightarrow> bool"
    and work :: "nat \<Rightarrow> 'q \<times> 'a list \<Rightarrow> 'q \<times> 'a list"
    and ready :: "'q \<Rightarrow> bool"
  assumes in_order: "queue_run q acc done_ops \<Longrightarrow> \<exists>pending. acc = done_ops @ pending"
    and all_done: "queue_run q acc done_ops \<Longrightarrow> ready q \<Longrightarrow> \<exists>n q'. work n (q, done_ops) = (q', acc)"
begin

text \<open>The last operation that a client sees is the last one that was enqueued, and until then it sees them in order.\<close>

lemma last_delivered:
  assumes "queue_run q acc done_ops" "ready q" "acc \<noteq> []"
  shows "\<exists>n q' calls. work n (q, done_ops) = (q', calls) \<and> calls \<noteq> [] \<and> last calls = last acc"
  using all_done [OF assms(1,2)] assms(3) by blast

lemma nth_delivered: "queue_run q acc done_ops \<Longrightarrow> i < length done_ops \<Longrightarrow> done_ops ! i = acc ! i"
  using in_order [of q acc done_ops] by (auto simp: nth_append)

end

lemma queue_in_order: "oq_run flush q acc done_ops \<Longrightarrow> \<exists>pending. acc = done_ops @ pending"
  using oq_run_inv [of flush q acc done_ops] by (auto simp: oq_inv_def)

text \<open>A started queue accepts whatever is enqueued.\<close>

lemma queue_accepts: "\<exists>q. oq_run True q xs [] \<and> oq_isStarted q \<and> \<not> oq_isStopped q"
proof (induction xs rule: rev_induct)
  case Nil
  have "oq_run True (oq_Start (newOpsQueueBase True)) [] []" by (intro oq_run.intros)
  then show ?case by (intro exI) (auto simp: oq_Start_def newOpsQueueBase_def)
next
  case (snoc x xs)
  then obtain q where q: "oq_run True q xs []" "oq_isStarted q" "\<not> oq_isStopped q" by blast
  then have "oq_Enqueue x q \<noteq> None" using oq_run_inv [OF q(1)] by (auto simp: oq_inv_def oq_Enqueue_def Let_def)
  then obtain q' where e: "oq_Enqueue x q = Some q'" by blast
  then have "oq_isStarted q'" "\<not> oq_isStopped q'" using q(2,3) by (auto simp: oq_Enqueue_def Let_def split: if_splits)
  then show ?case using oq_run.Enqueue [OF q(1) e] q(3) by auto
qed

interpretation oq: ordered_delivery "oq_run True" processRun oq_isStarted
proof unfold_locales
  show "\<exists>pending. acc = done_ops @ pending" if "oq_run True q acc done_ops" for q :: "'a opsQueueBase" and acc done_ops
    using queue_in_order [OF that] .
  show "\<exists>n q'. processRun n (q, done_ops) = (q', acc)" if "oq_run True q acc done_ops" "oq_isStarted q"
    for q :: "'a opsQueueBase" and acc done_ops
    using queue_drains [OF that] by auto
qed

section \<open>Properties\<close>

text \<open>
  The operations queue is first in, first out. In every interleaving of callers and the goroutine, the operations that have run,
  the one that is running and the queued ones are together exactly the accepted ones in the order of their calls; no operation runs
  twice or overtakes another. \<open>Enqueue\<close> and \<open>Stop\<close> never panic on the channel, and \<open>Enqueue\<close> after \<open>Stop\<close> has no effect.
\<close>

theorem ops_queue_fifo:
  assumes "oq_run flush q acc done_ops"
  shows "acc = done_ops @ running (oq_process q) @ oq_ops q \<and> oq_Enqueue op q \<noteq> None \<and> oq_Stop q \<noteq> None \<and>
    (oq_isStopped q \<longrightarrow> oq_Enqueue op q = Some q)"
  using oq_run_inv [OF assms] by (auto simp: oq_inv_def oq_Enqueue_def oq_Stop_def Let_def)

text \<open>Two operations are enqueued before the queue is started, a third one while the first one runs.\<close>

lemma demo_queue_run:
  "\<exists>q. oq_run True q [1 :: int, 2, 3] [1] \<and> oq_process q = AtRun 2 \<and> oq_ops q = [3] \<and> oq_isStopped q \<and> oq_isStarted q"
proof -
  note new = oq_run.New [where 'a = int and flush = True]
  note e1 = oq_run.Enqueue [OF new, of 1, simplified oq_Enqueue_def newOpsQueueBase_def Let_def, simplified, OF refl]
  note e2 = oq_run.Enqueue [OF e1, of 2, simplified oq_Enqueue_def Let_def, simplified, OF refl]
  note p1 = oq_run.Process [OF oq_run.Start [OF e2], simplified oq_Start_def processStep_def, simplified, OF refl]
  note p2 = oq_run.Process [OF p1, simplified processStep_def, simplified, OF refl]
  note e3 = oq_run.Enqueue [OF p2, of 3, simplified oq_Enqueue_def Let_def, simplified, OF refl]
  note p3 = oq_run.Process [OF e3, simplified processStep_def, simplified, OF refl]
  note s = oq_run.Stop [OF p3, simplified oq_Stop_def, simplified, OF refl]
  show ?thesis
    by (rule exI, rule conjI, rule oq_run.Process [OF s, simplified processStep_def, simplified, OF refl]) simp
qed

theorem ops_queue_fifo_witness:
  "\<exists>q. oq_run True q [1 :: int, 2, 3] [1] \<and> [1, 2, 3] = [1] @ running (oq_process q) @ oq_ops q \<and> oq_Enqueue 4 q = Some q"
  using demo_queue_run ops_queue_fifo by metis

text \<open>
  C8: No wake-up is lost and no operation is left behind. Whenever the queue has been started, and it either was not stopped or flushes
  on stop, the goroutine on its own runs everything that has been accepted, whatever the interleaving was before. Without operations
  left, a goroutine that cannot step is at the receive of an open queue or has returned after \<open>Stop\<close>.
\<close>

theorem ops_queue_drains:
  assumes run: "oq_run flush q acc done_ops" and started: "oq_isStarted q" and flush: "flush \<or> \<not> oq_isStopped q"
  shows "(\<exists>n q'. processRun n (q, done_ops) = (q', acc) \<and> oq_ops q' = []) \<and>
    (processStep q = None \<longrightarrow> acc = done_ops \<and> (oq_process q = AtWake \<and> \<not> oq_isStopped q \<or> oq_process q = Returned \<and> oq_isStopped q))"
  using queue_drains [OF assms] .

theorem ops_queue_drains_witness:
  "\<exists>q n q'. oq_run True q [1 :: int, 2, 3] [1] \<and> oq_isStarted q \<and> oq_isStopped q \<and> processRun n (q, [1]) = (q', [1, 2, 3])"
  using demo_queue_run ops_queue_drains by metis

end
