(* ===== verification/Dynacast.thy ===== *)
theory Dynacast
  imports Prelude "HOL-Library.AList" "HOL-Library.Monad_Syntax"
begin

text \<open>
  \<^verbatim>\<open>pkg/rtc/dynacast\<close> for video: the quality object of a codec (\<^verbatim>\<open>dynacastqualityvideo.go\<close>) collects what subscribers and subscribing
  nodes want of it, the manager (\<^verbatim>\<open>dynacastmanagerbase.go\<close>, \<^verbatim>\<open>dynacastmanagervideo.go\<close>) combines the codecs of a track and tells the
  publisher which layers to send. Maps are association lists with distinct keys; where the code ranges over a map the order is that
  of the list, or a parameter where the order can be observed. A quality object is named by its codec: the manager creates one per
  codec and never replaces it. Timers are flags (armed or not) and their firing is an operation of its own. What the manager enqueues
  for its listener is kept in the order of the calls, which is the order the operations queue runs it in (theory \<^verbatim>\<open>Ops_Queue\<close>).
\<close>

section \<open>Data\<close>

datatype VideoQuality = LOW | MEDIUM | HIGH | OFF

text \<open>The numbers of the protocol's enumeration, by which the code compares.\<close>

primrec quality_number :: "VideoQuality \<Rightarrow> nat" where
  "quality_number LOW = 0"
| "quality_number MEDIUM = 1"
| "quality_number HIGH = 2"
| "quality_number OFF = 3"

lemma quality_number_inject: "quality_number a = quality_number b \<longleftrightarrow> a = b"
  by (cases a; cases b) simp_all

instantiation VideoQuality :: linorder
begin

definition less_eq_VideoQuality :: "VideoQuality \<Rightarrow> VideoQuality \<Rightarrow> bool" where
  "less_eq_VideoQuality a b \<longleftrightarrow> quality_number a \<le> quality_number b"

definition less_VideoQuality :: "VideoQuality \<Rightarrow> VideoQuality \<Rightarrow> bool" where
  "less_VideoQuality a b \<longleftrightarrow> quality_number a < quality_number b"

instance
  by standard (auto simp: less_eq_VideoQuality_def less_VideoQuality_def quality_number_inject)

end

type_synonym codecMime = string
type_synonym qualityMap = "(string \<times> VideoQuality) list"

definition codecUnknown :: codecMime where "codecUnknown = ''MimeTypeUnknown''"

section \<open>Quality object of a codec\<close>

record dynacastQualityVideo =
  dq_initialized :: bool
  dq_maxSubscriberQuality :: qualityMap
  dq_maxSubscriberNodeQuality :: qualityMap
  dq_maxSubscribedQuality :: VideoQuality
  dq_maxQualityTimer :: bool
  dq_regressTo :: "codecMime option"

definition newDynacastQualityVideo :: dynacastQualityVideo where
  "newDynacastQualityVideo =
     \<lparr>dq_initialized = False, dq_maxSubscriberQuality = [], dq_maxSubscriberNodeQuality = [], dq_maxSubscribedQuality = LOW,
      dq_maxQualityTimer = False, dq_regressTo = None\<rparr>"

definition startMaxQualityTimer :: "dynacastQualityVideo \<Rightarrow> dynacastQualityVideo" where
  "startMaxQualityTimer d = d\<lparr>dq_maxQualityTimer := True\<rparr>"

definition stopMaxQualityTimer :: "dynacastQualityVideo \<Rightarrow> dynacastQualityVideo" where
  "stopMaxQualityTimer d = d\<lparr>dq_maxQualityTimer := False\<rparr>"

definition dq_reset :: "dynacastQualityVideo \<Rightarrow> dynacastQualityVideo" where
  "dq_reset d = startMaxQualityTimer (d\<lparr>dq_initialized := False\<rparr>)"

definition highestQuality :: "qualityMap \<Rightarrow> VideoQuality \<Rightarrow> VideoQuality" where
  "highestQuality qs =
     fold (\<lambda>(_, q) m. if m = OFF \<or> q \<noteq> OFF \<and> q > m then q else m) qs"

text \<open>The second component is the call of the listener, \<open>OnUpdateMaxQualityForMime\<close>, which the code makes after unlocking.\<close>

definition updateQualityChange :: "bool \<Rightarrow> dynacastQualityVideo \<Rightarrow> dynacastQualityVideo \<times> VideoQuality option" where
  "updateQualityChange force d =
     (let m = highestQuality (dq_maxSubscriberNodeQuality d) (highestQuality (dq_maxSubscriberQuality d) OFF) in
      if m = dq_maxSubscribedQuality d \<and> dq_initialized d \<and> \<not> force then (d, None)
      else (d\<lparr>dq_initialized := True, dq_maxSubscribedQuality := m\<rparr>, Some m))"

definition setQuality :: "string \<Rightarrow> VideoQuality \<Rightarrow> qualityMap \<Rightarrow> qualityMap" where
  "setQuality k q m = (if q = OFF then AList.delete k m else AList.update k q m)"

text \<open>The calls below are for an object without \<open>regressTo\<close>; the manager's operations follow the chain of regressions first.\<close>

definition dq_NotifySubscriberMaxQuality :: "string \<Rightarrow> VideoQuality \<Rightarrow> dynacastQualityVideo \<Rightarrow> dynacastQualityVideo \<times> VideoQuality option" where
  "dq_NotifySubscriberMaxQuality subscriberID q d =
     updateQualityChange False (d\<lparr>dq_maxSubscriberQuality := setQuality subscriberID q (dq_maxSubscriberQuality d)\<rparr>)"

definition dq_NotifySubscriberNodeMaxQuality :: "string \<Rightarrow> VideoQuality \<Rightarrow> dynacastQualityVideo \<Rightarrow> dynacastQualityVideo \<times> VideoQuality option" where
  "dq_NotifySubscriberNodeMaxQuality nodeID q d =
     (if dq_regressTo d \<noteq> None then (d, None)
      else updateQualityChange False (d\<lparr>dq_maxSubscriberNodeQuality := setQuality nodeID q (dq_maxSubscriberNodeQuality d)\<rparr>))"

definition dq_ClearSubscriberNodes :: "dynacastQualityVideo \<Rightarrow> dynacastQualityVideo \<times> VideoQuality option" where
  "dq_ClearSubscriberNodes d = updateQualityChange False (d\<lparr>dq_maxSubscriberNodeQuality := []\<rparr>)"

definition mergeQualities :: "qualityMap \<Rightarrow> qualityMap \<Rightarrow> qualityMap" where
  "mergeQualities = fold (\<lambda>(k, q) m. case map_of m k of
       Some oldQuality \<Rightarrow> if q > oldQuality then AList.update k q m else m
     | None \<Rightarrow> AList.update k q m)"

definition dq_Replace :: "qualityMap \<Rightarrow> qualityMap \<Rightarrow> dynacastQualityVideo \<Rightarrow> dynacastQualityVideo" where
  "dq_Replace subs nodes d =
     dq_reset (d\<lparr>dq_maxSubscriberQuality := mergeQualities subs (dq_maxSubscriberQuality d),
                 dq_maxSubscriberNodeQuality := mergeQualities nodes (dq_maxSubscriberNodeQuality d)\<rparr>)"

definition maxQualityTimerFired :: "dynacastQualityVideo \<Rightarrow> dynacastQualityVideo \<times> VideoQuality option" where
  "maxQualityTimerFired d = updateQualityChange True (stopMaxQualityTimer d)"

section \<open>Manager\<close>

record SubscribedCodec =
  sc_Codec :: codecMime
  sc_Qualities :: "(VideoQuality \<times> bool) list"

text \<open>
  \<open>dm_debounced\<close>: the function last given to the debouncer is \<open>update(true)\<close> and has not run yet. \<open>dm_isClosed\<close> is the field of the
  video manager, which hides the one of its base (\<open>dm_baseClosed\<close>) and is never set. \<open>dm_notified\<close>: the calls of the listener that
  the operations queue accepted, in order.
\<close>

record dynacastManagerVideo =
  dm_hasListener :: bool
  dm_hasDebounce :: bool
  dm_regressedCodec :: "codecMime list"
  dm_dynacastQuality :: "(codecMime \<times> dynacastQualityVideo) list"
  dm_baseClosed :: bool
  dm_isClosed :: bool
  dm_maxSubscribedQuality :: qualityMap
  dm_committedMaxSubscribedQuality :: qualityMap
  dm_debouncePending :: bool
  dm_debounced :: bool
  dm_queueStopped :: bool
  dm_notified :: "(SubscribedCodec list \<times> qualityMap) list"

definition NewDynacastManagerVideo :: "bool \<Rightarrow> int \<Rightarrow> dynacastManagerVideo" where
  "NewDynacastManagerVideo hasListener dynacastPauseDelay =
     \<lparr>dm_hasListener = hasListener, dm_hasDebounce = (dynacastPauseDelay > 0), dm_regressedCodec = [], dm_dynacastQuality = [],
      dm_baseClosed = False, dm_isClosed = False, dm_maxSubscribedQuality = [], dm_committedMaxSubscribedQuality = [],
      dm_debouncePending = False, dm_debounced = False, dm_queueStopped = False, dm_notified = []\<rparr>"

definition subscribedCodec :: "codecMime \<times> VideoQuality \<Rightarrow> SubscribedCodec" where
  "subscribedCodec = (\<lambda>(c, q).
     \<lparr>sc_Codec = c,
      sc_Qualities =
        (if q = OFF then [(LOW, False), (MEDIUM, False), (HIGH, False)]
         else map (\<lambda>l. (l, l \<le> q)) [LOW, MEDIUM, HIGH])\<rparr>)"

definition enqueueSubscribedQualityChange :: "dynacastManagerVideo \<Rightarrow> dynacastManagerVideo" where
  "enqueueSubscribedQualityChange m =
     (if dm_isClosed m \<or> \<not> dm_hasListener m then m
      else if dm_queueStopped m then m
      else m\<lparr>dm_notified := dm_notified m @
             [(map subscribedCodec (dm_committedMaxSubscribedQuality m), dm_committedMaxSubscribedQuality m)]\<rparr>)"

definition isUpgrade :: "VideoQuality \<Rightarrow> VideoQuality \<Rightarrow> bool" where
  "isUpgrade cq q \<longleftrightarrow> cq = OFF \<and> q \<noteq> OFF \<or> cq \<noteq> OFF \<and> q \<noteq> OFF \<and> cq < q"

text \<open>The loop of \<open>update\<close> over the wanted qualities: whether something changed and whether all changes are downgrades.\<close>

fun compareLoop :: "qualityMap \<Rightarrow> qualityMap \<Rightarrow> bool \<Rightarrow> bool \<Rightarrow> bool \<times> bool" where
  "compareLoop committed [] changed downgradesOnly = (changed, downgradesOnly)"
| "compareLoop committed ((c, q) # qs) changed downgradesOnly =
     (case map_of committed c of
        None \<Rightarrow> compareLoop committed qs changed downgradesOnly
      | Some cq \<Rightarrow> compareLoop committed qs (changed \<or> cq \<noteq> q) (downgradesOnly \<and> \<not> isUpgrade cq q))"

definition commit :: "dynacastManagerVideo \<Rightarrow> dynacastManagerVideo" where
  "commit m =
     (let m = (if dm_hasDebounce m then m\<lparr>dm_debounced := False, dm_debouncePending := False\<rparr> else m)
      in enqueueSubscribedQualityChange (m\<lparr>dm_committedMaxSubscribedQuality := dm_maxSubscribedQuality m\<rparr>))"

definition dm_update :: "bool \<Rightarrow> dynacastManagerVideo \<Rightarrow> dynacastManagerVideo" where
  "dm_update force m =
     (if length (dm_maxSubscribedQuality m) = 0 then m
      else
        let changed = length (dm_maxSubscribedQuality m) \<noteq> length (dm_committedMaxSubscribedQuality m);
            (changed, downgradesOnly) =
              (if changed then (True, False)
               else compareLoop (dm_committedMaxSubscribedQuality m) (dm_maxSubscribedQuality m) False True)
        in if \<not> force \<and> \<not> changed then m
           else if \<not> force \<and> downgradesOnly \<and> dm_hasDebounce m then
             if \<not> dm_debouncePending m then m\<lparr>dm_debounced := True, dm_debouncePending := True\<rparr> else m
           else commit m)"

definition OnUpdateMaxQualityForMime :: "codecMime \<Rightarrow> VideoQuality \<Rightarrow> dynacastManagerVideo \<Rightarrow> dynacastManagerVideo" where
  "OnUpdateMaxQualityForMime c q m =
     dm_update False
       (if c \<in> set (dm_regressedCodec m) then m
        else m\<lparr>dm_maxSubscribedQuality := AList.update c q (dm_maxSubscribedQuality m)\<rparr>)"

text \<open>A call of a quality object, first without and then with the listener call it makes.\<close>

definition setObject :: "codecMime \<Rightarrow> dynacastQualityVideo \<Rightarrow> dynacastManagerVideo \<Rightarrow> dynacastManagerVideo" where
  "setObject c d m = m\<lparr>dm_dynacastQuality := AList.update c d (dm_dynacastQuality m)\<rparr>"

definition callObject ::
  "(dynacastQualityVideo \<Rightarrow> dynacastQualityVideo \<times> VideoQuality option) \<Rightarrow> codecMime \<Rightarrow> dynacastManagerVideo \<Rightarrow> dynacastManagerVideo" where
  "callObject f c m =
     (case map_of (dm_dynacastQuality m) c of
        None \<Rightarrow> m
      | Some d \<Rightarrow>
          (case f d of
             (d', None) \<Rightarrow> setObject c d' m
           | (d', Some q) \<Rightarrow> OnUpdateMaxQualityForMime c q (setObject c d' m)))"

definition getOrCreateDynacastQuality :: "codecMime \<Rightarrow> dynacastManagerVideo \<Rightarrow> dynacastManagerVideo \<times> dynacastQualityVideo option" where
  "getOrCreateDynacastQuality c m =
     (if dm_baseClosed m \<or> c = codecUnknown then (m, None)
      else (case map_of (dm_dynacastQuality m) c of
        Some d \<Rightarrow> (m, Some d)
      | None \<Rightarrow> let d = dq_reset newDynacastQualityVideo in (setObject c d m, Some d)))"

definition AddCodec :: "codecMime \<Rightarrow> dynacastManagerVideo \<Rightarrow> dynacastManagerVideo" where
  "AddCodec c m = fst (getOrCreateDynacastQuality c m)"

text \<open>\<open>NotifySubscriberMaxQuality\<close> of a regressed object calls the object it regressed to; a cycle of regressions never returns.\<close>

partial_function (option) regressTarget :: "(codecMime \<times> dynacastQualityVideo) list \<Rightarrow> codecMime \<Rightarrow> codecMime option" where
  "regressTarget dqs c =
     (case map_of dqs c of
        None \<Rightarrow> Some c
      | Some d \<Rightarrow> (case dq_regressTo d of None \<Rightarrow> Some c | Some r \<Rightarrow> regressTarget dqs r))"

declare regressTarget.simps [code]

definition NotifySubscriberMaxQuality :: "string \<Rightarrow> codecMime \<Rightarrow> VideoQuality \<Rightarrow> dynacastManagerVideo \<Rightarrow> dynacastManagerVideo option" where
  "NotifySubscriberMaxQuality subscriberID c q m =
     (case getOrCreateDynacastQuality c m of
        (m, None) \<Rightarrow> Some m
      | (m, Some d) \<Rightarrow>
          do { t \<leftarrow> regressTarget (dm_dynacastQuality m) c;
               Some (callObject (dq_NotifySubscriberMaxQuality subscriberID q) t m) })"

fun NotifySubscriberNodeMaxQuality :: "string \<Rightarrow> (codecMime \<times> VideoQuality) list \<Rightarrow> dynacastManagerVideo \<Rightarrow> dynacastManagerVideo" where
  "NotifySubscriberNodeMaxQuality nodeID [] m = m"
| "NotifySubscriberNodeMaxQuality nodeID ((c, q) # qs) m =
     (case getOrCreateDynacastQuality c m of
        (m, None) \<Rightarrow> NotifySubscriberNodeMaxQuality nodeID qs m
      | (m, Some d) \<Rightarrow> NotifySubscriberNodeMaxQuality nodeID qs (callObject (dq_NotifySubscriberNodeMaxQuality nodeID q) c m))"

definition onRegressCodec :: "codecMime \<Rightarrow> codecMime \<Rightarrow> dynacastManagerVideo \<Rightarrow> dynacastManagerVideo" where
  "onRegressCodec fromMime toMime m =
     (let qs = AList.update fromMime OFF (dm_maxSubscribedQuality m)
      in m\<lparr>dm_maxSubscribedQuality := (if map_of qs toMime = None then AList.update toMime HIGH qs else qs)\<rparr>)"

text \<open>\<open>RegressTo\<close>: the entries move to the other object. Both objects are in the manager's map.\<close>

definition RegressTo :: "codecMime \<Rightarrow> codecMime \<Rightarrow> dynacastManagerVideo \<Rightarrow> dynacastManagerVideo" where
  "RegressTo fromMime toMime m =
     (case map_of (dm_dynacastQuality m) fromMime of
        None \<Rightarrow> m
      | Some d \<Rightarrow>
          let m = setObject fromMime (d\<lparr>dq_regressTo := Some toMime, dq_maxSubscriberQuality := [], dq_maxSubscriberNodeQuality := []\<rparr>) m
          in callObject (\<lambda>t. (dq_Replace (dq_maxSubscriberQuality d) (dq_maxSubscriberNodeQuality d) t, None)) toMime m)"

text \<open>\<open>None\<close> is the panic of \<open>RegressTo\<close> on the nil object of an unknown codec.\<close>

definition HandleCodecRegression :: "codecMime \<Rightarrow> codecMime \<Rightarrow> dynacastManagerVideo \<Rightarrow> dynacastManagerVideo option" where
  "HandleCodecRegression fromMime toMime m =
     (case getOrCreateDynacastQuality fromMime m of
        (m, fromDq) \<Rightarrow>
          if dm_baseClosed m \<or> fromDq = None then Some m
          else
            let m = m\<lparr>dm_regressedCodec := List.insert fromMime (dm_regressedCodec m)\<rparr>;
                m = dm_update False (onRegressCodec fromMime toMime m);
                m = callObject (\<lambda>d. (stopMaxQualityTimer d, None)) fromMime m
            in (case getOrCreateDynacastQuality toMime m of
                  (m, None) \<Rightarrow> None
                | (m, Some _) \<Rightarrow> Some (RegressTo fromMime toMime m)))"

definition dm_Restart :: "codecMime list \<Rightarrow> dynacastManagerVideo \<Rightarrow> dynacastManagerVideo" where
  "dm_Restart order m = fold (callObject (\<lambda>d. (dq_reset d, None))) order (m\<lparr>dm_committedMaxSubscribedQuality := []\<rparr>)"

text \<open>The stopped objects are no longer reachable from the manager.\<close>

definition dm_Close :: "dynacastManagerVideo \<Rightarrow> dynacastManagerVideo" where
  "dm_Close m = m\<lparr>dm_queueStopped := True, dm_dynacastQuality := [], dm_baseClosed := True\<rparr>"

definition ForceUpdate :: "dynacastManagerVideo \<Rightarrow> dynacastManagerVideo" where
  "ForceUpdate m = dm_update True m"

definition ForceQuality :: "VideoQuality \<Rightarrow> dynacastManagerVideo \<Rightarrow> dynacastManagerVideo" where
  "ForceQuality q m =
     enqueueSubscribedQualityChange
       (m\<lparr>dm_committedMaxSubscribedQuality := map (\<lambda>(c, _). (c, q)) (dm_committedMaxSubscribedQuality m)\<rparr>)"

definition dm_ClearSubscriberNodes :: "codecMime list \<Rightarrow> dynacastManagerVideo \<Rightarrow> dynacastManagerVideo" where
  "dm_ClearSubscriberNodes order m = fold (callObject dq_ClearSubscriberNodes) order m"

text \<open>The timer of a quality object and the debouncer fire.\<close>

definition fireQualityTimer :: "codecMime \<Rightarrow> dynacastManagerVideo \<Rightarrow> dynacastManagerVideo" where
  "fireQualityTimer c m =
     (case map_of (dm_dynacastQuality m) c of
        None \<Rightarrow> m
      | Some d \<Rightarrow> if dq_maxQualityTimer d then callObject maxQualityTimerFired c m else m)"

definition fireDebounce :: "dynacastManagerVideo \<Rightarrow> dynacastManagerVideo" where
  "fireDebounce m = (if dm_debounced m then dm_update True (m\<lparr>dm_debounced := False\<rparr>) else m)"

end
