(* ===== verification/Dynacast_Properties.thy ===== *)
theory Dynacast_Properties
  imports Dynacast
begin

text \<open>
  What the publisher is told covers what the subscribers want: an invariant of the manager over all operations and timers, from which
  the coverage of the subscriptions, their delivery once the timers have fired and the loss of an update between two concurrent
  callers follow.
\<close>

section \<open>Quality objects\<close>

definition wanted :: "dynacastQualityVideo \<Rightarrow> VideoQuality set" where
  "wanted d = Map.ran (map_of (dq_maxSubscriberQuality d)) \<union> Map.ran (map_of (dq_maxSubscriberNodeQuality d))"

definition needed :: "dynacastQualityVideo \<Rightarrow> VideoQuality" where
  "needed d = highestQuality (dq_maxSubscriberNodeQuality d) (highestQuality (dq_maxSubscriberQuality d) OFF)"

definition map_ok :: "qualityMap \<Rightarrow> bool" where
  "map_ok qs \<longleftrightarrow> distinct (map fst qs) \<and> OFF \<notin> snd ` set qs"

definition object_ok :: "dynacastQualityVideo \<Rightarrow> bool" where
  "object_ok d \<longleftrightarrow> map_ok (dq_maxSubscriberQuality d) \<and> map_ok (dq_maxSubscriberNodeQuality d)"

lemma map_ok_Nil [simp]: "map_ok []"
  by (simp add: map_ok_def)

lemma snd_update: "snd ` set (AList.update k q qs) \<subseteq> insert q (snd ` set qs)"
  by (induction qs) auto

lemma map_ok_update: "map_ok qs \<Longrightarrow> OFF \<noteq> q \<Longrightarrow> map_ok (AList.update k q qs)"
  using snd_update [of k q qs] by (auto simp: map_ok_def distinct_update)

lemma map_ok_delete: "map_ok qs \<Longrightarrow> map_ok (AList.delete k qs)"
  using distinct_delete [of qs k] by (auto simp: map_ok_def AList.delete_eq)

lemma map_ok_set: "map_ok qs \<Longrightarrow> map_ok (setQuality k q qs)"
  by (simp add: setQuality_def map_ok_update map_ok_delete)

lemma map_ok_merge: "map_ok old \<Longrightarrow> OFF \<notin> snd ` set new \<Longrightarrow> map_ok (mergeQualities new old)"
  unfolding mergeQualities_def
  by (induction new arbitrary: old) (auto simp: map_ok_update split: option.split)

lemma highestQuality_spec:
  assumes "OFF \<notin> snd ` set qs"
  shows "highestQuality qs m = (if qs = [] then m else highestQuality qs m) \<and>
    (highestQuality qs m = OFF \<longleftrightarrow> qs = [] \<and> m = OFF) \<and>
    highestQuality qs m \<in> insert m (snd ` set qs) \<and> (\<forall>q \<in> snd ` set qs \<union> ({m} - {OFF}). q \<le> highestQuality qs m)"
  using assms
proof (induction qs arbitrary: m)
  case (Cons e qs)
  obtain k q where e: "e = (k, q)" by (cases e)
  define m' where "m' = (if m = OFF \<or> q \<noteq> OFF \<and> q > m then q else m)"
  have h: "highestQuality (e # qs) m = highestQuality qs m'" by (simp add: highestQuality_def m'_def e)
  have "m' \<noteq> OFF" "m' \<in> {m, q}" "q \<le> m'" "m \<noteq> OFF \<Longrightarrow> m \<le> m'" using Cons.prems by (auto simp: m'_def e)
  with Cons.IH [of m'] Cons.prems show ?case unfolding h by (auto simp: e intro: order_trans)
qed (auto simp: highestQuality_def)

text \<open>What a quality object computes: the highest quality that a subscriber or a node wants, \<open>OFF\<close> when there is none.\<close>

lemma needed_spec:
  assumes "object_ok d"
  shows "needed d = OFF \<and> wanted d = {} \<or> needed d \<in> wanted d \<and> needed d \<noteq> OFF \<and> (\<forall>q \<in> wanted d. q \<le> needed d)"
proof -
  define subs nodes where "subs = dq_maxSubscriberQuality d" and "nodes = dq_maxSubscriberNodeQuality d"
  have o: "OFF \<notin> snd ` set subs" "OFF \<notin> snd ` set nodes"
    and w: "wanted d = snd ` set subs \<union> snd ` set nodes"
    using assms by (auto simp: object_ok_def map_ok_def wanted_def subs_def nodes_def ran_distinct)
  define h where "h = highestQuality subs OFF"
  have n: "needed d = highestQuality nodes h" by (simp add: needed_def subs_def nodes_def h_def)
  note s = highestQuality_spec [OF o(1), of OFF, folded h_def] and t = highestQuality_spec [OF o(2), of h, folded n]
  show ?thesis
  proof (cases "h = OFF")
    case True
    with s t w show ?thesis by (cases "nodes = []") auto
  next
    case False
    with s t w o show ?thesis by (auto intro: order_trans)
  qed
qed

text \<open>Calls of a quality object that end in \<open>updateQualityChange\<close>.\<close>

lemma updateQualityChange_cases:
  obtains (Same) "updateQualityChange f d = (d, None)" "dq_initialized d" "dq_maxSubscribedQuality d = needed d"
  | (Notify) "updateQualityChange f d = (d\<lparr>dq_initialized := True, dq_maxSubscribedQuality := needed d\<rparr>, Some (needed d))"
  by (cases "needed d = dq_maxSubscribedQuality d \<and> dq_initialized d \<and> \<not> f")
    (auto simp: updateQualityChange_def needed_def Let_def)

lemma needed_update [simp]:
  "needed (d\<lparr>dq_initialized := b\<rparr>) = needed d" "needed (d\<lparr>dq_maxSubscribedQuality := q\<rparr>) = needed d"
  "needed (d\<lparr>dq_maxQualityTimer := b\<rparr>) = needed d"
  by (simp_all add: needed_def)

lemma object_ok_update [simp]:
  "object_ok (d\<lparr>dq_initialized := b\<rparr>) = object_ok d" "object_ok (d\<lparr>dq_maxSubscribedQuality := q\<rparr>) = object_ok d"
  "object_ok (d\<lparr>dq_maxQualityTimer := b\<rparr>) = object_ok d"
  by (simp_all add: object_ok_def)

section \<open>Invariant of the manager\<close>

text \<open>The part of the manager that \<open>update\<close> works on.\<close>

definition manager_ok :: "dynacastManagerVideo \<Rightarrow> bool" where
  "manager_ok m \<longleftrightarrow>
     distinct (map fst (dm_maxSubscribedQuality m)) \<and> distinct (map fst (dm_committedMaxSubscribedQuality m)) \<and>
     dom (map_of (dm_committedMaxSubscribedQuality m)) \<subseteq> dom (map_of (dm_maxSubscribedQuality m)) \<and>
     set (dm_regressedCodec m) \<subseteq> dom (map_of (dm_maxSubscribedQuality m)) \<and>
     (dm_debouncePending m \<longrightarrow> dm_debounced m) \<and>
     (dm_debounced m \<longrightarrow> dm_hasDebounce m \<and> dm_maxSubscribedQuality m \<noteq> []) \<and> \<not> dm_isClosed m \<and> (dm_queueStopped m \<longleftrightarrow> dm_baseClosed m) \<and>
     (dm_committedMaxSubscribedQuality m \<noteq> [] \<and> dm_hasListener m \<and> \<not> dm_baseClosed m \<longrightarrow>
        dm_notified m \<noteq> [] \<and>
        last (dm_notified m) = (map subscribedCodec (dm_committedMaxSubscribedQuality m), dm_committedMaxSubscribedQuality m))"

text \<open>What was announced is what is wanted, or only downgrades wait for the debouncer.\<close>

definition settled :: "dynacastManagerVideo \<Rightarrow> bool" where
  "settled m \<longleftrightarrow> dm_committedMaxSubscribedQuality m \<noteq> [] \<longrightarrow>
     dom (map_of (dm_committedMaxSubscribedQuality m)) = dom (map_of (dm_maxSubscribedQuality m)) \<and>
     (map_of (dm_committedMaxSubscribedQuality m) = map_of (dm_maxSubscribedQuality m) \<or>
      dm_debouncePending m \<and>
      (\<forall>c q a. map_of (dm_maxSubscribedQuality m) c = Some q \<longrightarrow> map_of (dm_committedMaxSubscribedQuality m) c = Some a \<longrightarrow>
         \<not> isUpgrade a q))"

lemma compareLoop_set:
  "compareLoop cm qs ch dn =
    (ch \<or> (\<exists>(c, q) \<in> set qs. \<exists>a. map_of cm c = Some a \<and> a \<noteq> q),
     dn \<and> (\<forall>(c, q) \<in> set qs. \<forall>a. map_of cm c = Some a \<longrightarrow> \<not> isUpgrade a q))"
  by (induction cm qs ch dn rule: compareLoop.induct) (auto split: option.splits)

lemma compareLoop_spec:
  assumes "distinct (map fst qs)"
  shows "compareLoop cm qs ch dn =
    (ch \<or> (\<exists>c q a. map_of qs c = Some q \<and> map_of cm c = Some a \<and> a \<noteq> q),
     dn \<and> (\<forall>c q a. map_of qs c = Some q \<longrightarrow> map_of cm c = Some a \<longrightarrow> \<not> isUpgrade a q))"
  unfolding compareLoop_set map_of_eq_Some_iff [OF assms] by (fastforce simp: Ball_def Bex_def)

lemma dom_card: "distinct (map fst qs) \<Longrightarrow> length qs = card (dom (map_of qs))"
  by (metis distinct_card dom_map_of_conv_image_fst length_map set_map)

lemma same_length_dom:
  assumes "distinct (map fst a)" "distinct (map fst b)" "dom (map_of a) \<subseteq> dom (map_of b)" "length b = length a"
  shows "dom (map_of a) = dom (map_of b)"
  using assms by (intro card_subset_eq) (simp_all add: finite_dom_map_of flip: dom_card)

lemma commit_simps [simp]:
  "dm_maxSubscribedQuality (commit m) = dm_maxSubscribedQuality m" "dm_regressedCodec (commit m) = dm_regressedCodec m"
  "dm_dynacastQuality (commit m) = dm_dynacastQuality m" "dm_committedMaxSubscribedQuality (commit m) = dm_maxSubscribedQuality m"
  "dm_baseClosed (commit m) = dm_baseClosed m"
  by (simp_all add: commit_def enqueueSubscribedQualityChange_def Let_def)

lemma manager_ok_commit: "manager_ok m \<Longrightarrow> manager_ok (commit m)"
  by (auto simp: manager_ok_def commit_def enqueueSubscribedQualityChange_def Let_def)

lemma update_simps [simp]:
  "dm_maxSubscribedQuality (dm_update f m) = dm_maxSubscribedQuality m" "dm_regressedCodec (dm_update f m) = dm_regressedCodec m"
  "dm_dynacastQuality (dm_update f m) = dm_dynacastQuality m" "dm_baseClosed (dm_update f m) = dm_baseClosed m"
  by (auto simp: dm_update_def Let_def split: prod.split)


lemma update_cases:
  assumes ok: "manager_ok m"
  obtains (Empty) "dm_update f m = m" "dm_maxSubscribedQuality m = []"
  | (Same) "dm_update f m = m" "dm_maxSubscribedQuality m \<noteq> []" "dm_committedMaxSubscribedQuality m \<noteq> []"
      "map_of (dm_committedMaxSubscribedQuality m) = map_of (dm_maxSubscribedQuality m)"
  | (Wait) "dm_update f m = m\<lparr>dm_debounced := True, dm_debouncePending := True\<rparr>" "dm_hasDebounce m" "dm_maxSubscribedQuality m \<noteq> []"
      "dm_committedMaxSubscribedQuality m \<noteq> []"
      "dom (map_of (dm_committedMaxSubscribedQuality m)) = dom (map_of (dm_maxSubscribedQuality m))"
      "\<forall>c q a. map_of (dm_maxSubscribedQuality m) c = Some q \<longrightarrow> map_of (dm_committedMaxSubscribedQuality m) c = Some a \<longrightarrow> \<not> isUpgrade a q"
  | (Commit) "dm_update f m = commit m" "dm_maxSubscribedQuality m \<noteq> []"
proof -
  define mx cm where "mx = dm_maxSubscribedQuality m" and "cm = dm_committedMaxSubscribedQuality m"
  have d: "distinct (map fst mx)" "distinct (map fst cm)" "dom (map_of cm) \<subseteq> dom (map_of mx)" "dm_debouncePending m \<longrightarrow> dm_debounced m"
    using ok by (auto simp: manager_ok_def mx_def cm_def)
  define ch dn where "ch = (\<exists>c q a. map_of mx c = Some q \<and> map_of cm c = Some a \<and> a \<noteq> q)"
    and "dn = (\<forall>c q a. map_of mx c = Some q \<longrightarrow> map_of cm c = Some a \<longrightarrow> \<not> isUpgrade a q)"
  have cmp: "compareLoop cm mx False True = (ch, dn)" unfolding compareLoop_spec [OF d(1)] ch_def dn_def by simp
  have u: "dm_update f m =
      (if mx = [] then m else if length mx \<noteq> length cm then commit m else if \<not> f \<and> \<not> ch then m
       else if \<not> f \<and> dn \<and> dm_hasDebounce m then (if \<not> dm_debouncePending m then m\<lparr>dm_debounced := True, dm_debouncePending := True\<rparr> else m)
       else commit m)"
    by (auto simp: dm_update_def Let_def cmp simp flip: mx_def cm_def)
  have w: "m = m\<lparr>dm_debounced := True, dm_debouncePending := True\<rparr>" if "dm_debouncePending m" using that d(4) by simp
  have l: "cm \<noteq> []" "dom (map_of cm) = dom (map_of mx)" if "length mx = length cm" "mx \<noteq> []"
    using that same_length_dom [OF d(2) d(1) d(3)] by auto
  have e: "map_of cm = map_of mx" if "length mx = length cm" "mx \<noteq> []" "\<not> ch"
  proof
    fix k
    have "k \<in> dom (map_of cm) \<longleftrightarrow> k \<in> dom (map_of mx)" using l(2) [OF that(1,2)] by simp
    then show "map_of cm k = map_of mx k" using that(3) unfolding ch_def domIff by (metis option.exhaust)
  qed
  show thesis
  proof (cases "mx = []")
    case True then show ?thesis using u that(1) by (simp add: mx_def)
  next
    case ne: False
    show ?thesis
    proof (cases "length mx = length cm")
      case False then show ?thesis using u ne that(4) by (simp add: mx_def)
    next
      case True
      consider "\<not> f \<and> \<not> ch" | "\<not> f \<and> ch \<and> dn \<and> dm_hasDebounce m" | "dm_update f m = commit m" using u ne True by presburger
      then show ?thesis
      proof cases
        case 1 then show ?thesis using u ne True that(2) l e by (simp add: mx_def cm_def)
      next
        case 2
        then have "dm_update f m = m\<lparr>dm_debounced := True, dm_debouncePending := True\<rparr>" using u ne True w by simp
        then show ?thesis using that(3) l [OF True ne] ne 2 unfolding mx_def cm_def dn_def by blast
      next
        case 3 then show ?thesis using ne that(4) by (simp add: mx_def)
      qed
    qed
  qed
qed

lemma update_ok:
  assumes ok: "manager_ok m"
  shows "manager_ok (dm_update f m)" and "dm_maxSubscribedQuality m \<noteq> [] \<Longrightarrow> settled (dm_update f m)"
    and "dm_maxSubscribedQuality m \<noteq> [] \<Longrightarrow> dm_committedMaxSubscribedQuality (dm_update f m) \<noteq> []"
    and "dm_maxSubscribedQuality m = [] \<Longrightarrow> dm_update f m = m"
  using ok manager_ok_commit [OF ok]
  by (cases rule: update_cases [OF ok, of f]; simp add: settled_def; simp add: manager_ok_def)+


text \<open>
  A quality object of the manager: once initialised its quality has been passed on, unless the codec was regressed; before that its
  timer is armed.
\<close>

definition entry_ok :: "dynacastManagerVideo \<Rightarrow> codecMime \<Rightarrow> dynacastQualityVideo \<Rightarrow> bool" where
  "entry_ok m c d \<longleftrightarrow>
     object_ok d \<and> (dq_initialized d \<longrightarrow> dm_committedMaxSubscribedQuality m \<noteq> []) \<and>
     (dq_regressTo d \<noteq> None \<longrightarrow> c \<in> set (dm_regressedCodec m)) \<and>
     (c \<notin> set (dm_regressedCodec m) \<longrightarrow>
        (dq_initialized d \<or> dq_maxQualityTimer d) \<and>
        (dq_initialized d \<longrightarrow>
           map_of (dm_maxSubscribedQuality m) c = Some (dq_maxSubscribedQuality d) \<and> dq_maxSubscribedQuality d = needed d))"

text \<open>Where calls for a codec are redirected; the chains of redirections have a rank, so they end.\<close>

definition route :: "dynacastManagerVideo \<Rightarrow> codecMime \<Rightarrow> codecMime option" where
  "route m c = Option.bind (map_of (dm_dynacastQuality m) c) dq_regressTo"

definition routes_end :: "dynacastManagerVideo \<Rightarrow> bool" where
  "routes_end m \<longleftrightarrow> (\<exists>r :: codecMime \<Rightarrow> nat. \<forall>c t. route m c = Some t \<longrightarrow> r t < r c)"

definition dyn_inv :: "dynacastManagerVideo \<Rightarrow> bool" where
  "dyn_inv m \<longleftrightarrow>
     manager_ok m \<and> routes_end m \<and> distinct (map fst (dm_dynacastQuality m)) \<and>
     (\<forall>c d. map_of (dm_dynacastQuality m) c = Some d \<longrightarrow> entry_ok m c d)"

text \<open>A step either leaves what was announced and what is wanted alone or ends in a settled state.\<close>

definition advances :: "dynacastManagerVideo \<Rightarrow> dynacastManagerVideo \<Rightarrow> bool" where
  "advances m m' \<longleftrightarrow> settled m' \<or>
     dm_committedMaxSubscribedQuality m' = dm_committedMaxSubscribedQuality m \<and>
     dm_maxSubscribedQuality m' = dm_maxSubscribedQuality m \<and> dm_debouncePending m' = dm_debouncePending m"

lemma advances_refl [simp]: "advances m m"
  by (simp add: advances_def)

lemma settled_same:
  "settled m \<Longrightarrow> dm_committedMaxSubscribedQuality m' = dm_committedMaxSubscribedQuality m \<Longrightarrow>
   dm_maxSubscribedQuality m' = dm_maxSubscribedQuality m \<Longrightarrow> dm_debouncePending m' = dm_debouncePending m \<Longrightarrow> settled m'"
  by (simp add: settled_def)

lemma advances_trans: "advances m m1 \<Longrightarrow> advances m1 m2 \<Longrightarrow> advances m m2"
  unfolding advances_def by (metis settled_same)

lemma routes_end_same: "routes_end m \<Longrightarrow> route m' = route m \<Longrightarrow> routes_end m'"
  by (simp add: routes_end_def)

lemma setObject_simps [simp]:
  "dm_maxSubscribedQuality (setObject c d m) = dm_maxSubscribedQuality m" "dm_regressedCodec (setObject c d m) = dm_regressedCodec m"
  "dm_committedMaxSubscribedQuality (setObject c d m) = dm_committedMaxSubscribedQuality m"
  "manager_ok (setObject c d m) = manager_ok m" "entry_ok (setObject c d m) = entry_ok m" "dm_baseClosed (setObject c d m) = dm_baseClosed m"
  "map_of (dm_dynacastQuality (setObject c d m)) = (map_of (dm_dynacastQuality m))(c \<mapsto> d)" "settled (setObject c d m) = settled m"
  by (simp_all add: setObject_def manager_ok_def entry_ok_def settled_def update_conv' fun_eq_iff)

lemma route_setObject: "route (setObject c d m) = (route m)(c := dq_regressTo d)"
  by (auto simp: route_def)

lemma setObject_inv:
  assumes "dyn_inv m" "entry_ok m c d" "dq_regressTo d = route m c"
  shows "dyn_inv (setObject c d m)" "advances m (setObject c d m)"
proof -
  have "routes_end (setObject c d m)"
    using assms routes_end_same [of m "setObject c d m"] by (simp add: dyn_inv_def route_setObject)
  moreover have "distinct (map fst (dm_dynacastQuality (setObject c d m)))"
    using assms(1) by (simp add: dyn_inv_def setObject_def distinct_update)
  ultimately show "dyn_inv (setObject c d m)"
    using assms(1,2) by (simp add: dyn_inv_def)
  show "advances m (setObject c d m)" by (simp add: advances_def setObject_def)
qed

text \<open>The listener call of an object that has just been initialised with the quality it passes on.\<close>

lemma notify_inv:
  assumes inv: "dyn_inv m"
    and d: "object_ok d" "dq_initialized d" "dq_maxSubscribedQuality d = q" "needed d = q" "dq_regressTo d = route m c"
    and r: "dq_regressTo d \<noteq> None \<longrightarrow> c \<in> set (dm_regressedCodec m)"
  shows "dyn_inv (OnUpdateMaxQualityForMime c q (setObject c d m))" "settled (OnUpdateMaxQualityForMime c q (setObject c d m))"
proof -
  define m1 where "m1 = (if c \<in> set (dm_regressedCodec m) then setObject c d m
     else (setObject c d m)\<lparr>dm_maxSubscribedQuality := AList.update c q (dm_maxSubscribedQuality m)\<rparr>)"
  have u: "OnUpdateMaxQualityForMime c q (setObject c d m) = dm_update False m1" by (simp add: OnUpdateMaxQualityForMime_def m1_def)
  have mo: "manager_ok m" using inv by (simp add: dyn_inv_def)
  then have ok: "manager_ok m1" using setObject_simps(4) [of c d m]
    by (auto simp: m1_def manager_ok_def distinct_update update_conv')
  have ne: "dm_maxSubscribedQuality m1 \<noteq> []" using mo by (auto simp: m1_def manager_ok_def)
  note up = update_ok [OF ok, of False]
  have f: "dm_regressedCodec m1 = dm_regressedCodec m" "map_of (dm_dynacastQuality m1) = (map_of (dm_dynacastQuality m))(c \<mapsto> d)"
    "map_of (dm_maxSubscribedQuality m1) = (if c \<in> set (dm_regressedCodec m) then map_of (dm_maxSubscribedQuality m)
       else (map_of (dm_maxSubscribedQuality m))(c \<mapsto> q))" "distinct (map fst (dm_dynacastQuality m1))"
    using inv by (auto simp: m1_def update_conv' setObject_def dyn_inv_def distinct_update)
  have "route (dm_update False m1) = route m" using f(2) d(5) by (auto simp: route_def)
  then have "routes_end (dm_update False m1)" using inv routes_end_same by (auto simp: dyn_inv_def)
  moreover have "entry_ok (dm_update False m1) k e" if "map_of (dm_dynacastQuality m1) k = Some e" for k e
  proof (cases "k = c")
    case True
    then have "e = d" using that f(2) by simp
    then show ?thesis using True d r up(3) [OF ne] f(1,3) by (simp add: entry_ok_def)
  next
    case False
    then have "entry_ok m k e" using that f(2) inv by (simp add: dyn_inv_def)
    then show ?thesis using False up(3) [OF ne] f(1,3) by (simp add: entry_ok_def)
  qed
  ultimately show "dyn_inv (OnUpdateMaxQualityForMime c q (setObject c d m))"
    unfolding u dyn_inv_def using up(1) f(4) by auto
  show "settled (OnUpdateMaxQualityForMime c q (setObject c d m))" unfolding u by (rule up(2) [OF ne])
qed


section \<open>Operations keep the invariant\<close>

lemma entry: "dyn_inv m \<Longrightarrow> map_of (dm_dynacastQuality m) c = Some d \<Longrightarrow> entry_ok m c d \<and> route m c = dq_regressTo d"
  by (simp add: dyn_inv_def route_def)

lemma callUpdate_inv:
  assumes inv: "dyn_inv m"
    and g: "\<And>d. object_ok d \<Longrightarrow> object_ok (g d)" "\<And>d. dq_initialized (g d) = dq_initialized d"
      "\<And>d. dq_maxSubscribedQuality (g d) = dq_maxSubscribedQuality d" "\<And>d. dq_regressTo (g d) = dq_regressTo d"
  shows "dyn_inv (callObject (\<lambda>d. updateQualityChange b (g d)) c m) \<and> advances m (callObject (\<lambda>d. updateQualityChange b (g d)) c m)"
proof (cases "map_of (dm_dynacastQuality m) c")
  case (Some d)
  have e: "entry_ok m c d" "route m c = dq_regressTo d" using entry [OF inv Some] by auto
  show ?thesis
  proof (cases rule: updateQualityChange_cases [of b "g d"])
    case Same
    then have "entry_ok m c (g d)" using e g by (simp add: entry_ok_def)
    then show ?thesis using setObject_inv [OF inv, of c "g d"] e(2) g(4) Same(1) by (simp add: callObject_def Some)
  next
    case Notify
    then show ?thesis
      using notify_inv [OF inv, of "(g d)\<lparr>dq_initialized := True, dq_maxSubscribedQuality := needed (g d)\<rparr>" "needed (g d)" c] e g
      by (simp add: callObject_def Some entry_ok_def advances_def)
  qed
qed (simp add: callObject_def inv)

lemma callReset_inv:
  assumes inv: "dyn_inv m"
    and g: "\<And>d. map_of (dm_dynacastQuality m) c = Some d \<Longrightarrow> entry_ok m c d \<Longrightarrow> entry_ok m c (g d) \<and> dq_regressTo (g d) = dq_regressTo d"
  shows "dyn_inv (callObject (\<lambda>d. (g d, None)) c m) \<and> advances m (callObject (\<lambda>d. (g d, None)) c m)"
proof (cases "map_of (dm_dynacastQuality m) c")
  case (Some d)
  then show ?thesis using setObject_inv [OF inv, of c "g d"] g [OF Some] entry [OF inv Some] by (simp add: callObject_def)
qed (simp add: callObject_def inv)

lemma update_inv:
  assumes "dyn_inv m"
  shows "dyn_inv (dm_update f m)" "advances m (dm_update f m)"
proof -
  have ok: "manager_ok m" using assms by (simp add: dyn_inv_def)
  note u = update_ok [OF ok, of f]
  have r: "route (dm_update f m) = route m" by (simp add: route_def fun_eq_iff)
  show "advances m (dm_update f m)" using u by (cases "dm_maxSubscribedQuality m = []") (simp_all add: advances_def)
  show "dyn_inv (dm_update f m)"
  proof (cases "dm_maxSubscribedQuality m = []")
    case False
    then show ?thesis using assms u(1) u(3) routes_end_same [OF _ r] by (simp add: dyn_inv_def entry_ok_def)
  qed (use assms u(4) in simp)
qed

lemma getOrCreate_inv:
  assumes "dyn_inv m" "getOrCreateDynacastQuality c m = (m', r)"
  shows "dyn_inv m'" "advances m m'" "r = None \<longleftrightarrow> dm_baseClosed m \<or> c = codecUnknown"
    "r = Some d \<Longrightarrow> map_of (dm_dynacastQuality m') c = Some d"
    "dm_regressedCodec m' = dm_regressedCodec m" "dm_baseClosed m' = dm_baseClosed m"
proof -
  define n where "n = dq_reset newDynacastQualityVideo"
  have n: "entry_ok m c n" "dq_regressTo n = None"
    by (simp_all add: n_def dq_reset_def startMaxQualityTimer_def newDynacastQualityVideo_def entry_ok_def object_ok_def)
  have "route m c = None" if "map_of (dm_dynacastQuality m) c = None" using that by (simp add: route_def)
  then have "map_of (dm_dynacastQuality m) c = None \<Longrightarrow> dyn_inv (setObject c n m) \<and> advances m (setObject c n m)"
    using setObject_inv [OF assms(1) n(1)] n(2) by simp
  then show "dyn_inv m'" "advances m m'" "r = None \<longleftrightarrow> dm_baseClosed m \<or> c = codecUnknown"
    "r = Some d \<Longrightarrow> map_of (dm_dynacastQuality m') c = Some d"
    "dm_regressedCodec m' = dm_regressedCodec m" "dm_baseClosed m' = dm_baseClosed m"
    using assms by (cases "map_of (dm_dynacastQuality m) c"; auto simp: getOrCreateDynacastQuality_def Let_def n_def split: if_splits)+
qed

lemma regressTarget_returns:
  assumes "routes_end m"
  shows "\<exists>t. regressTarget (dm_dynacastQuality m) c = Some t"
proof -
  obtain r :: "codecMime \<Rightarrow> nat" where r: "\<And>c t. route m c = Some t \<Longrightarrow> r t < r c" using assms by (auto simp: routes_end_def)
  show ?thesis
  proof (induction "r c" arbitrary: c rule: less_induct)
    case less
    show ?case
    proof (cases "route m c")
      case None
      then show ?thesis by (subst regressTarget.simps) (auto simp: route_def split: option.splits)
    next
      case (Some t)
      then show ?thesis using less [OF r [OF Some]] by (subst regressTarget.simps) (auto simp: route_def split: option.splits)
    qed
  qed
qed

lemma calls_inv:
  assumes "\<And>c m. dyn_inv m \<Longrightarrow> dyn_inv (f c m) \<and> advances m (f c m)" "dyn_inv m"
  shows "dyn_inv (fold f cs m) \<and> advances m (fold f cs m)"
  using assms(2)
proof (induction cs arbitrary: m)
  case (Cons c cs)
  then show ?case using assms(1) advances_trans by (simp, blast)
qed simp

lemma notifySubscriber_inv:
  assumes "dyn_inv m"
  shows "\<exists>m'. NotifySubscriberMaxQuality s c q m = Some m' \<and> dyn_inv m' \<and> advances m m'"
proof -
  obtain m1 r where g: "getOrCreateDynacastQuality c m = (m1, r)" by force
  note i = getOrCreate_inv [OF assms g]
  obtain t where t: "regressTarget (dm_dynacastQuality m1) c = Some t" using regressTarget_returns [of m1 c] i(1) by (auto simp: dyn_inv_def)
  have e: "dq_NotifySubscriberMaxQuality s q =
      (\<lambda>d. updateQualityChange False (d\<lparr>dq_maxSubscriberQuality := setQuality s q (dq_maxSubscriberQuality d)\<rparr>))"
    by (simp add: dq_NotifySubscriberMaxQuality_def fun_eq_iff)
  have "dyn_inv (callObject (dq_NotifySubscriberMaxQuality s q) t m1) \<and> advances m1 (callObject (dq_NotifySubscriberMaxQuality s q) t m1)"
    unfolding e by (rule callUpdate_inv [OF i(1)]) (simp_all add: object_ok_def map_ok_set)
  then show ?thesis using i advances_trans [OF i(2)] by (cases r) (simp_all add: NotifySubscriberMaxQuality_def g t)
qed

lemma notifyNode_inv:
  assumes "dyn_inv m"
  shows "dyn_inv (NotifySubscriberNodeMaxQuality n qs m) \<and> advances m (NotifySubscriberNodeMaxQuality n qs m)"
  using assms
proof (induction n qs m rule: NotifySubscriberNodeMaxQuality.induct)
  case (2 n c q qs m)
  obtain m1 r where g: "getOrCreateDynacastQuality c m = (m1, r)" by force
  note i = getOrCreate_inv [OF 2(3) g]
  define h where "h d = d\<lparr>dq_maxSubscriberNodeQuality := setQuality n q (dq_maxSubscriberNodeQuality d)\<rparr>" for d :: dynacastQualityVideo
  have e: "dq_NotifySubscriberNodeMaxQuality n q = (\<lambda>d. if dq_regressTo d \<noteq> None then (d, None) else updateQualityChange False (h d))"
    by (simp add: dq_NotifySubscriberNodeMaxQuality_def h_def fun_eq_iff)
  have u: "dyn_inv (callObject (\<lambda>d. updateQualityChange False (h d)) c m1) \<and> advances m1 (callObject (\<lambda>d. updateQualityChange False (h d)) c m1)"
    by (rule callUpdate_inv [OF i(1)]) (simp_all add: object_ok_def map_ok_set h_def)
  have "dyn_inv (callObject (dq_NotifySubscriberNodeMaxQuality n q) c m1) \<and> advances m1 (callObject (dq_NotifySubscriberNodeMaxQuality n q) c m1)"
  proof (cases "map_of (dm_dynacastQuality m1) c")
    case (Some d)
    then show ?thesis using u setObject_inv [OF i(1), of c d] entry [OF i(1) Some]
      by (cases "dq_regressTo d = None") (auto simp: callObject_def e)
  qed (simp add: callObject_def i(1))
  note c = conjunct1 [OF this] and a = advances_trans [OF i(2) conjunct2 [OF this]]
  show ?case
  proof (cases r)
    case None
    then show ?thesis using 2(1) [OF g [symmetric] None i(1)] advances_trans [OF i(2)] by (simp add: g)
  next
    case (Some d)
    then show ?thesis using 2(2) [OF g [symmetric] Some c] advances_trans [OF a] by (simp add: g)
  qed
qed simp


lemma onRegress_inv:
  fixes c t :: codecMime
  assumes inv: "dyn_inv m"
  defines "m1 \<equiv> onRegressCodec c t (m\<lparr>dm_regressedCodec := List.insert c (dm_regressedCodec m)\<rparr>)"
  shows "dyn_inv m1" "dm_maxSubscribedQuality m1 \<noteq> []" "set (dm_regressedCodec m1) = insert c (set (dm_regressedCodec m))"
    "dm_dynacastQuality m1 = dm_dynacastQuality m" "dm_baseClosed m1 = dm_baseClosed m"
proof -
  define mx where "mx = dm_maxSubscribedQuality m"
  have n: "AList.update k q qs \<noteq> []" for k q and qs :: qualityMap by (cases qs) auto
  have f: "dm_committedMaxSubscribedQuality m1 = dm_committedMaxSubscribedQuality m" "route m1 = route m"
    "dm_maxSubscribedQuality m1 = (let qs = AList.update c OFF mx in if map_of qs t = None then AList.update t HIGH qs else qs)"
    "dm_debouncePending m1 = dm_debouncePending m" "dm_debounced m1 = dm_debounced m" "dm_isClosed m1 = dm_isClosed m"
    "dm_queueStopped m1 = dm_queueStopped m" "dm_hasDebounce m1 = dm_hasDebounce m" "dm_hasListener m1 = dm_hasListener m" "dm_notified m1 = dm_notified m"
    by (simp_all add: m1_def onRegressCodec_def Let_def route_def fun_eq_iff mx_def)
  show r: "set (dm_regressedCodec m1) = insert c (set (dm_regressedCodec m))" "dm_dynacastQuality m1 = dm_dynacastQuality m"
    "dm_baseClosed m1 = dm_baseClosed m" "dm_maxSubscribedQuality m1 \<noteq> []"
    using n by (simp_all add: m1_def onRegressCodec_def Let_def)
  have mo: "manager_ok m" using inv by (simp add: dyn_inv_def)
  have k: "map_of (dm_maxSubscribedQuality m1) k = map_of mx k" if "k \<noteq> c" "map_of mx k \<noteq> None" for k
    using that by (auto simp: f(3) Let_def update_conv')
  have dm: "dom (map_of mx) \<subseteq> dom (map_of (dm_maxSubscribedQuality m1))" "c \<in> dom (map_of (dm_maxSubscribedQuality m1))"
    "distinct (map fst (dm_maxSubscribedQuality m1))"
    using mo by (auto simp: f(3) Let_def update_conv' distinct_update manager_ok_def mx_def)
  have "manager_ok m1"
    using mo dm r(4) unfolding manager_ok_def r(1,3) f(1,4-10) mx_def [symmetric] by (simp, blast)
  moreover have "entry_ok m1 k d" if "map_of (dm_dynacastQuality m) k = Some d" for k d
    using entry [OF inv that] k [of k] unfolding entry_ok_def f(1) r(1) mx_def by auto
  ultimately show "dyn_inv m1" using inv routes_end_same [OF _ f(2)] by (simp add: dyn_inv_def r(2))
qed

lemma RegressTo_inv:
  assumes inv: "dyn_inv m" and c: "c \<in> set (dm_regressedCodec m)" "t \<notin> set (dm_regressedCodec m)"
    and d: "map_of (dm_dynacastQuality m) c = Some d"
  shows "dyn_inv (RegressTo c t m) \<and> advances m (RegressTo c t m)"
proof -
  define d' where "d' = d\<lparr>dq_regressTo := Some t, dq_maxSubscriberQuality := [], dq_maxSubscriberNodeQuality := []\<rparr>"
  define m1 where "m1 = setObject c d' m"
  have ne: "c \<noteq> t" using c by auto
  have rt: "route m t = None" using inv c(2) entry [OF inv, of t]
    by (cases "map_of (dm_dynacastQuality m) t") (simp add: route_def, auto simp: entry_ok_def)
  have "entry_ok m c d'" using entry [OF inv d] c(1) by (simp add: entry_ok_def d'_def object_ok_def)
  moreover have "routes_end m1"
  proof -
    obtain r :: "codecMime \<Rightarrow> nat" where r: "\<And>c t. route m c = Some t \<Longrightarrow> r t < r c" using inv by (auto simp: dyn_inv_def routes_end_def)
    have "(if b = t then 0 else Suc (r b)) < (if a = t then 0 else Suc (r a))" if "route m1 a = Some b" for a b
      using that r [of a b] rt ne by (auto simp: m1_def route_setObject d'_def split: if_splits)
    then show ?thesis unfolding routes_end_def by (intro exI [of _ "\<lambda>a. if a = t then 0 else Suc (r a)"]) blast
  qed
  ultimately have i1: "dyn_inv m1" using inv by (simp add: dyn_inv_def m1_def) (simp add: setObject_def distinct_update)
  have a1: "advances m m1" by (simp add: advances_def m1_def setObject_def)
  have "OFF \<notin> snd ` set (dq_maxSubscriberQuality d)" "OFF \<notin> snd ` set (dq_maxSubscriberNodeQuality d)"
    using entry [OF inv d] by (simp_all add: entry_ok_def object_ok_def map_ok_def)
  then have "dyn_inv (callObject (\<lambda>t. (dq_Replace (dq_maxSubscriberQuality d) (dq_maxSubscriberNodeQuality d) t, None)) t m1) \<and>
      advances m1 (callObject (\<lambda>t. (dq_Replace (dq_maxSubscriberQuality d) (dq_maxSubscriberNodeQuality d) t, None)) t m1)"
    by (intro callReset_inv [OF i1])
      (auto simp: entry_ok_def dq_Replace_def dq_reset_def startMaxQualityTimer_def object_ok_def map_ok_merge)
  then show ?thesis using advances_trans [OF a1] by (simp add: RegressTo_def d m1_def d'_def)
qed

lemma callObject_frame: "dm_regressedCodec (callObject f c m) = dm_regressedCodec m" "dm_baseClosed (callObject f c m) = dm_baseClosed m"
  "dom (map_of (dm_dynacastQuality (callObject f c m))) = dom (map_of (dm_dynacastQuality m))"
  by (auto simp: callObject_def OnUpdateMaxQualityForMime_def split: option.splits prod.splits)

lemma regression_inv:
  assumes inv: "dyn_inv m" and t: "t \<notin> set (dm_regressedCodec m)" "t \<noteq> codecUnknown" "t \<noteq> c"
  shows "\<exists>m'. HandleCodecRegression c t m = Some m' \<and> dyn_inv m' \<and> advances m m'"
proof -
  obtain m1 r where g: "getOrCreateDynacastQuality c m = (m1, r)" by force
  note i = getOrCreate_inv [OF inv g]
  define m2 where "m2 = dm_update False (onRegressCodec c t (m1\<lparr>dm_regressedCodec := List.insert c (dm_regressedCodec m1)\<rparr>))"
  define m3 where "m3 = callObject (\<lambda>d. (stopMaxQualityTimer d, None)) c m2"
  obtain m4 r4 where g4: "getOrCreateDynacastQuality t m3 = (m4, r4)" by force
  note o = onRegress_inv [OF i(1), of c t]
  show ?thesis
  proof (cases "dm_baseClosed m1 \<or> r = None")
    case True
    then show ?thesis using i by (auto simp: HandleCodecRegression_def g)
  next
    case False
    then obtain d where d: "map_of (dm_dynacastQuality m1) c = Some d" using i(4) by auto
    have i2: "dyn_inv m2" "settled m2" using update_inv(1) [OF o(1)] update_ok(2) [OF _ o(2)] o(1) by (auto simp: m2_def dyn_inv_def)
    have r2: "set (dm_regressedCodec m2) = insert c (set (dm_regressedCodec m))" "map_of (dm_dynacastQuality m2) c = Some d" "dm_baseClosed m2 = dm_baseClosed m1"
      using o d i(5) by (simp_all add: m2_def)
    have i3: "dyn_inv m3 \<and> advances m2 m3" unfolding m3_def
      by (rule callReset_inv [OF i2(1)]) (auto simp: entry_ok_def stopMaxQualityTimer_def r2(1))
    have r3: "dm_regressedCodec m3 = dm_regressedCodec m2" "dm_baseClosed m3 = dm_baseClosed m1" "c \<in> dom (map_of (dm_dynacastQuality m3))"
      using r2 by (auto simp: m3_def callObject_frame)
    note i4 = getOrCreate_inv [OF conjunct1 [OF i3] g4]
    have "r4 \<noteq> None" using i4(3) r3(2) False t(2) by simp
    moreover have c4: "c \<in> dom (map_of (dm_dynacastQuality m4))"
      using g4 r3(3) by (auto simp: getOrCreateDynacastQuality_def Let_def split: if_splits option.splits)
    then obtain d4 where d4: "map_of (dm_dynacastQuality m4) c = Some d4" by auto
    have "dyn_inv (RegressTo c t m4) \<and> advances m4 (RegressTo c t m4)"
      by (rule RegressTo_inv [OF i4(1) _ _ d4]) (use i4(5) r3(1) r2(1) t in auto)
    moreover have "advances m2 m4" using advances_trans [OF conjunct2 [OF i3] i4(2)] .
    ultimately have "dyn_inv (RegressTo c t m4)" "settled (RegressTo c t m4)"
      using advances_trans [of m2 m4 "RegressTo c t m4"] i2(2) settled_same by (auto simp: advances_def)
    moreover obtain d5 where "r4 = Some d5" using \<open>r4 \<noteq> None\<close> by auto
    ultimately show ?thesis using False
      by (auto simp: HandleCodecRegression_def g Let_def g4 advances_def simp flip: m2_def m3_def)
  qed
qed


section \<open>Runs\<close>

datatype dynEvent = EvAddCodec codecMime | EvSubscriber string codecMime VideoQuality | EvNode string "(codecMime \<times> VideoQuality) list"
  | EvRegress codecMime codecMime | EvRestart "codecMime list" | EvClose | EvForceUpdate | EvForceQuality VideoQuality
  | EvClearNodes "codecMime list" | EvQualityTimer codecMime | EvDebounce

fun dyn_step :: "dynEvent \<Rightarrow> dynacastManagerVideo \<Rightarrow> dynacastManagerVideo option" where
  "dyn_step (EvAddCodec c) m = Some (AddCodec c m)"
| "dyn_step (EvSubscriber s c q) m = NotifySubscriberMaxQuality s c q m"
| "dyn_step (EvNode n qs) m = Some (NotifySubscriberNodeMaxQuality n qs m)"
| "dyn_step (EvRegress c t) m = HandleCodecRegression c t m"
| "dyn_step (EvRestart order) m = Some (dm_Restart order m)"
| "dyn_step EvClose m = Some (dm_Close m)"
| "dyn_step EvForceUpdate m = Some (ForceUpdate m)"
| "dyn_step (EvForceQuality q) m = Some (ForceQuality q m)"
| "dyn_step (EvClearNodes order) m = Some (dm_ClearSubscriberNodes order m)"
| "dyn_step (EvQualityTimer c) m = Some (fireQualityTimer c m)"
| "dyn_step EvDebounce m = Some (fireDebounce m)"

text \<open>The ranges over the map visit every object; a codec regresses to another, known one that has not been regressed itself.\<close>

fun admissible :: "dynEvent \<Rightarrow> dynacastManagerVideo \<Rightarrow> bool" where
  "admissible (EvRestart order) m \<longleftrightarrow> set order = fst ` set (dm_dynacastQuality m)"
| "admissible (EvClearNodes order) m \<longleftrightarrow> set order = fst ` set (dm_dynacastQuality m)"
| "admissible (EvRegress c t) m \<longleftrightarrow> c \<noteq> t \<and> t \<notin> set (dm_regressedCodec m) \<and> t \<noteq> codecUnknown"
| "admissible _ m \<longleftrightarrow> True"

fun isForceQuality :: "dynEvent \<Rightarrow> bool" where
  "isForceQuality (EvForceQuality q) \<longleftrightarrow> True"
| "isForceQuality _ \<longleftrightarrow> False"

text \<open>The flag says that the last announcement was dictated by \<open>ForceQuality\<close>.\<close>

inductive dyn_run :: "bool \<Rightarrow> dynacastManagerVideo \<Rightarrow> bool" where
  New: "dyn_run False (NewDynacastManagerVideo listener delay)"
| Step: "dyn_run forced m \<Longrightarrow> admissible e m \<Longrightarrow> dyn_step e m = Some m' \<Longrightarrow>
    dyn_run (isForceQuality e \<or> forced \<and> dm_committedMaxSubscribedQuality m' = dm_committedMaxSubscribedQuality m) m'"

inductive_cases dyn_run_cases: "dyn_run forced m"

lemma reset_entry: "entry_ok m c d \<Longrightarrow> entry_ok m c (dq_reset d) \<and> dq_regressTo (dq_reset d) = dq_regressTo d"
  by (simp add: entry_ok_def dq_reset_def startMaxQualityTimer_def object_ok_def)

lemma reset_all:
  "map_of (dm_dynacastQuality (fold (callObject (\<lambda>d. (dq_reset d, None))) cs m)) k =
   map_option (if k \<in> set cs then dq_reset else id) (map_of (dm_dynacastQuality m) k)"
proof -
  have "dq_reset (dq_reset d) = dq_reset d" for d by (simp add: dq_reset_def startMaxQualityTimer_def)
  then show ?thesis
    by (induction cs arbitrary: m) (auto simp: callObject_def option.map_comp comp_def option.map_id split: option.split)
qed

lemma restart_inv:
  assumes inv: "dyn_inv m" and ord: "set order = dom (map_of (dm_dynacastQuality m))"
  shows "dyn_inv (dm_Restart order m) \<and> settled (dm_Restart order m)"
proof -
  define mr where "mr = fold (callObject (\<lambda>d. (dq_reset d, None))) order m"
  have call: "callObject (\<lambda>d. (dq_reset d, None)) c (m\<lparr>dm_committedMaxSubscribedQuality := []\<rparr>) =
     (callObject (\<lambda>d. (dq_reset d, None)) c m)\<lparr>dm_committedMaxSubscribedQuality := []\<rparr>" for c m
    by (simp add: callObject_def setObject_def split: option.split)
  have "fold (callObject (\<lambda>d. (dq_reset d, None))) cs (m\<lparr>dm_committedMaxSubscribedQuality := []\<rparr>) =
     (fold (callObject (\<lambda>d. (dq_reset d, None))) cs m)\<lparr>dm_committedMaxSubscribedQuality := []\<rparr>" for cs m
    by (induction cs arbitrary: m) (simp_all add: call)
  then have eq: "dm_Restart order m = mr\<lparr>dm_committedMaxSubscribedQuality := []\<rparr>" by (simp add: dm_Restart_def mr_def)
  have "dyn_inv (callObject (\<lambda>d. (dq_reset d, None)) c m) \<and> advances m (callObject (\<lambda>d. (dq_reset d, None)) c m)" if "dyn_inv m" for c m
    using callReset_inv [OF that, of c dq_reset] reset_entry by simp
  then have i: "dyn_inv mr" using calls_inv [of "callObject (\<lambda>d. (dq_reset d, None))" m order] inv unfolding mr_def by blast
  have u: "\<not> dq_initialized d" if d: "map_of (dm_dynacastQuality mr) c = Some d" for c d
  proof -
    have "c \<in> set order" using d ord by (auto simp: mr_def reset_all)
    then obtain d0 where "d = dq_reset d0" using d by (auto simp: mr_def reset_all)
    then show ?thesis by (simp add: dq_reset_def startMaxQualityTimer_def)
  qed
  have "manager_ok (dm_Restart order m)" using i by (simp add: eq dyn_inv_def manager_ok_def)
  moreover have "route (dm_Restart order m) = route mr" by (simp add: eq route_def fun_eq_iff)
  then have "routes_end (dm_Restart order m)" using i routes_end_same by (auto simp: dyn_inv_def)
  moreover have "entry_ok (dm_Restart order m) c d" if "map_of (dm_dynacastQuality mr) c = Some d" for c d
    using entry [OF i that] u [OF that] by (simp add: eq entry_ok_def)
  ultimately show ?thesis using i by (simp add: dyn_inv_def) (simp add: eq settled_def)
qed

lemma clear_inv:
  assumes "dyn_inv m"
  shows "dyn_inv (dm_ClearSubscriberNodes order m) \<and> advances m (dm_ClearSubscriberNodes order m)"
proof -
  have "dyn_inv (callObject dq_ClearSubscriberNodes c m) \<and> advances m (callObject dq_ClearSubscriberNodes c m)" if "dyn_inv m" for c m
  proof -
    have e: "dq_ClearSubscriberNodes = (\<lambda>d. updateQualityChange False (d\<lparr>dq_maxSubscriberNodeQuality := []\<rparr>))"
      by (simp add: dq_ClearSubscriberNodes_def fun_eq_iff)
    show ?thesis unfolding e by (rule callUpdate_inv [OF that]) (simp_all add: object_ok_def)
  qed
  then show ?thesis using calls_inv [of "callObject dq_ClearSubscriberNodes" m order] assms unfolding dm_ClearSubscriberNodes_def by blast
qed

lemma timer_inv:
  assumes "dyn_inv m"
  shows "dyn_inv (fireQualityTimer c m) \<and> advances m (fireQualityTimer c m)"
proof -
  have e: "maxQualityTimerFired = (\<lambda>d. updateQualityChange True (stopMaxQualityTimer d))"
    by (simp add: maxQualityTimerFired_def fun_eq_iff)
  have "dyn_inv (callObject maxQualityTimerFired c m) \<and> advances m (callObject maxQualityTimerFired c m)"
    unfolding e by (rule callUpdate_inv [OF assms]) (simp_all add: object_ok_def stopMaxQualityTimer_def)
  then show ?thesis using assms by (auto simp: fireQualityTimer_def split: option.split)
qed

text \<open>Between its firing and \<open>update(true)\<close> the debouncer is not armed any more; that update commits and clears the pending flag.\<close>

lemma update_forced: "dm_maxSubscribedQuality m \<noteq> [] \<Longrightarrow> dm_update True m = commit m"
  by (simp add: dm_update_def Let_def split: prod.split)

lemma debounce_inv:
  assumes "dyn_inv m"
  shows "dyn_inv (fireDebounce m) \<and> advances m (fireDebounce m)"
proof (cases "dm_debounced m")
  case True
  define m1 where "m1 = m\<lparr>dm_debounced := False, dm_debouncePending := False\<rparr>"
  have r: "route m1 = route m" by (simp add: m1_def route_def fun_eq_iff)
  have i: "dyn_inv m1"
    using assms routes_end_same [OF _ r] by (auto simp: dyn_inv_def m1_def manager_ok_def entry_ok_def)
  have h: "dm_hasDebounce m" "dm_maxSubscribedQuality m \<noteq> []" using assms True by (auto simp: dyn_inv_def manager_ok_def)
  then have "fireDebounce m = dm_update True m1"
    using True by (simp add: fireDebounce_def update_forced m1_def commit_def Let_def)
  then show ?thesis using update_inv(1) [OF i, of True] update_ok(2) [of m1 True] i h
    by (auto simp: advances_def dyn_inv_def m1_def)
qed (simp add: fireDebounce_def assms)


lemma force_inv:
  assumes "dyn_inv m"
  shows "dyn_inv (ForceQuality q m)"
proof -
  define cm where "cm = map (\<lambda>(c, _). (c, q)) (dm_committedMaxSubscribedQuality m)"
  define m1 where "m1 = m\<lparr>dm_committedMaxSubscribedQuality := cm\<rparr>"
  have k: "map fst cm = map fst (dm_committedMaxSubscribedQuality m)" "cm = [] \<longleftrightarrow> dm_committedMaxSubscribedQuality m = []"
    by (auto simp: cm_def)
  have "fst ` set cm = fst ` set (dm_committedMaxSubscribedQuality m)" using arg_cong [OF k(1), of set] by simp
  then have d: "dom (map_of cm) = dom (map_of (dm_committedMaxSubscribedQuality m))" by (simp add: dom_map_of_conv_image_fst)
  have m: "ForceQuality q m = enqueueSubscribedQualityChange m1" by (simp add: ForceQuality_def m1_def cm_def)
  have "manager_ok (ForceQuality q m)"
    using assms k d unfolding m dyn_inv_def manager_ok_def by (simp add: enqueueSubscribedQualityChange_def m1_def)
  moreover have "route (ForceQuality q m) = route m" "dm_dynacastQuality (ForceQuality q m) = dm_dynacastQuality m"
    by (simp_all add: m enqueueSubscribedQualityChange_def m1_def route_def fun_eq_iff)
  moreover have "entry_ok (ForceQuality q m) = entry_ok m"
    by (simp add: m enqueueSubscribedQualityChange_def m1_def k(2) entry_ok_def fun_eq_iff)
  ultimately show ?thesis using assms routes_end_same by (auto simp: dyn_inv_def)
qed

lemma close_inv: "dyn_inv m \<Longrightarrow> dyn_inv (dm_Close m) \<and> advances m (dm_Close m)"
  by (simp add: dyn_inv_def dm_Close_def manager_ok_def routes_end_def route_def advances_def)

lemma dyn_step_inv:
  assumes "dyn_inv m" "admissible e m"
  shows "\<exists>m'. dyn_step e m = Some m' \<and> dyn_inv m' \<and> (isForceQuality e \<or> advances m m')"
proof (cases e)
  case (EvAddCodec c)
  obtain m1 r where "getOrCreateDynacastQuality c m = (m1, r)" by force
  with getOrCreate_inv(1,2) [OF assms(1) this] EvAddCodec show ?thesis by (simp add: AddCodec_def)
next
  case (EvRestart order)
  then show ?thesis using restart_inv [of m order] assms by (simp add: advances_def dom_map_of_conv_image_fst)
qed (use assms notifySubscriber_inv notifyNode_inv regression_inv close_inv update_inv force_inv clear_inv timer_inv debounce_inv
     in \<open>auto simp: ForceUpdate_def\<close>)

lemma dyn_run_inv: "dyn_run forced m \<Longrightarrow> dyn_inv m \<and> (\<not> forced \<longrightarrow> settled m)"
proof (induction rule: dyn_run.induct)
  case (New listener delay)
  then show ?case
    by (simp add: NewDynacastManagerVideo_def dyn_inv_def manager_ok_def routes_end_def route_def settled_def)
next
  case (Step forced m e m')
  then show ?case using dyn_step_inv [of m e] settled_same [of m m'] by (auto simp: advances_def)
qed

section \<open>Properties\<close>

text \<open>How a layer is announced for a codec.\<close>

definition announced :: "dynacastManagerVideo \<Rightarrow> codecMime \<Rightarrow> VideoQuality \<Rightarrow> bool" where
  "announced m c q \<longleftrightarrow> dm_notified m \<noteq> [] \<and>
     (\<exists>s \<in> set (fst (last (dm_notified m))). sc_Codec s = c \<and> (q, True) \<in> set (sc_Qualities s))"

lemma announced_committed:
  assumes "dyn_inv m" "dm_hasListener m" "\<not> dm_baseClosed m" "map_of (dm_committedMaxSubscribedQuality m) c = Some a"
    "q \<noteq> OFF" "a \<noteq> OFF" "q \<le> a"
  shows "announced m c q"
proof -
  have "last (dm_notified m) = (map subscribedCodec (dm_committedMaxSubscribedQuality m), dm_committedMaxSubscribedQuality m)" "dm_notified m \<noteq> []"
    using assms(1-4) by (auto simp: dyn_inv_def manager_ok_def)
  moreover have "(c, a) \<in> set (dm_committedMaxSubscribedQuality m)" using assms(4) by (rule map_of_SomeD)
  moreover have "sc_Codec (subscribedCodec (c, a)) = c" "(q, True) \<in> set (sc_Qualities (subscribedCodec (c, a)))"
    using assms(5-7) by (auto simp: subscribedCodec_def) (cases q; auto)+
  ultimately show ?thesis unfolding announced_def by force
qed

lemma announced_covers:
  assumes run: "dyn_run False m" and d: "map_of (dm_dynacastQuality m) c = Some d"
    and c: "c \<notin> set (dm_regressedCodec m)" "dq_initialized d"
  shows "\<exists>a. map_of (dm_committedMaxSubscribedQuality m) c = Some a \<and>
    (\<forall>q \<in> wanted d. q \<noteq> OFF \<and> a \<noteq> OFF \<and> q \<le> a \<and> (dm_hasListener m \<and> \<not> dm_baseClosed m \<longrightarrow> announced m c q)) \<and>
    (\<not> dm_debouncePending m \<longrightarrow> (if wanted d = {} then a = OFF else a \<in> wanted d))"
proof -
  have i: "dyn_inv m" "settled m" using dyn_run_inv [OF run] by auto
  have e: "object_ok d" "map_of (dm_maxSubscribedQuality m) c = Some (needed d)" "dm_committedMaxSubscribedQuality m \<noteq> []"
    using entry [OF i(1) d] c by (auto simp: entry_ok_def)
  have "c \<in> dom (map_of (dm_committedMaxSubscribedQuality m))" using i(2) e by (auto simp: settled_def)
  then obtain a where a: "map_of (dm_committedMaxSubscribedQuality m) c = Some a" by auto
  have s: "a = needed d \<or> dm_debouncePending m \<and> \<not> isUpgrade a (needed d)" using i(2) e a by (auto simp: settled_def)
  note n = needed_spec [OF e(1)]
  have "q \<noteq> OFF \<and> a \<noteq> OFF \<and> q \<le> a" if "q \<in> wanted d" for q
  proof -
    have "needed d \<noteq> OFF" "q \<le> needed d" using n that by auto
    moreover have "q \<noteq> OFF" using that e(1) by (auto simp: wanted_def object_ok_def map_ok_def ran_distinct)
    ultimately show ?thesis using s by (auto simp: isUpgrade_def)
  qed
  then show ?thesis using a s n announced_committed [OF i(1) _ _ a] by (intro exI [of _ a]) auto
qed



text \<open>The runs below: two subscribers of one codec, of which the second one leaves, with and without debouncing.\<close>

primrec dyn_exec :: "dynEvent list \<Rightarrow> dynacastManagerVideo \<Rightarrow> dynacastManagerVideo option" where
  "dyn_exec [] m = Some m"
| "dyn_exec (e # es) m = (if admissible e m then Option.bind (dyn_step e m) (dyn_exec es) else None)"

lemma dyn_exec_run:
  assumes "dyn_exec es m = Some m'" "dyn_run False m" "\<forall>e \<in> set es. \<not> isForceQuality e"
  shows "dyn_run False m'"
  using assms
proof (induction es arbitrary: m)
  case (Cons e es)
  then obtain m1 where s: "admissible e m" "dyn_step e m = Some m1" "dyn_exec es m1 = Some m'"
    by (auto split: if_splits bind_splits)
  then have "dyn_run False m1" using dyn_run.Step [OF Cons.prems(2) s(1,2)] Cons.prems(3) by simp
  then show ?case using Cons.IH [OF s(3)] Cons.prems(3) by simp
qed simp

definition dyn_demo_events :: "dynEvent list" where
  "dyn_demo_events = [EvAddCodec ''vp8'', EvSubscriber ''a'' ''vp8'' MEDIUM, EvSubscriber ''b'' ''vp8'' HIGH, EvSubscriber ''b'' ''vp8'' OFF]"

definition demo_manager :: dynacastManagerVideo where
  "demo_manager = the (dyn_exec dyn_demo_events (NewDynacastManagerVideo True 5))"

lemma demo_manager_run: "dyn_run False demo_manager"
proof -
  have "dyn_exec dyn_demo_events (NewDynacastManagerVideo True 5) = Some demo_manager"
    unfolding demo_manager_def by code_simp
  then show ?thesis by (rule dyn_exec_run) (auto simp: dyn_demo_events_def intro: dyn_run.New)
qed



text \<open>The timers of all quality objects fire in some order, then the debouncer.\<close>

definition timersFire :: "codecMime list \<Rightarrow> dynacastManagerVideo \<Rightarrow> dynacastManagerVideo" where
  "timersFire order m = fireDebounce (fold fireQualityTimer order m)"

lemma timer_entry:
  assumes inv: "dyn_inv m" and d: "map_of (dm_dynacastQuality m) k = Some d" and k: "k \<notin> set (dm_regressedCodec m)"
  shows "\<exists>d'. map_of (dm_dynacastQuality (fireQualityTimer c m)) k = Some d' \<and> wanted d' = wanted d \<and>
    (dq_initialized d \<or> k = c \<longrightarrow> dq_initialized d')"
proof (cases "k = c \<and> dq_maxQualityTimer d")
  case True
  define d1 where "d1 = stopMaxQualityTimer d"
  have w: "wanted d1 = wanted d" by (simp add: d1_def stopMaxQualityTimer_def wanted_def)
  have u: "updateQualityChange True d1 = (d1\<lparr>dq_initialized := True, dq_maxSubscribedQuality := needed d1\<rparr>, Some (needed d1))"
    by (simp add: updateQualityChange_def needed_def Let_def)
  have "map_of (dm_dynacastQuality (fireQualityTimer c m)) k = Some (d1\<lparr>dq_initialized := True, dq_maxSubscribedQuality := needed d1\<rparr>)"
    using True d u by (simp add: fireQualityTimer_def callObject_def maxQualityTimerFired_def OnUpdateMaxQualityForMime_def flip: d1_def)
  then show ?thesis using w by (simp add: wanted_def)
next
  case False
  have "map_of (dm_dynacastQuality (fireQualityTimer c m)) k = Some d"
    using False d
    by (auto simp: fireQualityTimer_def callObject_def OnUpdateMaxQualityForMime_def split: option.split prod.split)
  moreover have "dq_initialized d" if "k = c" using entry [OF inv d] k False that by (auto simp: entry_ok_def)
  ultimately show ?thesis by blast
qed

lemma timers_entry:
  assumes "dyn_inv m" "map_of (dm_dynacastQuality m) k = Some d" "k \<notin> set (dm_regressedCodec m)"
  shows "\<exists>d'. map_of (dm_dynacastQuality (fold fireQualityTimer cs m)) k = Some d' \<and> wanted d' = wanted d \<and>
    (dq_initialized d \<or> k \<in> set cs \<longrightarrow> dq_initialized d')"
  using assms
proof (induction cs arbitrary: m d)
  case (Cons c cs)
  obtain d1 where d1: "map_of (dm_dynacastQuality (fireQualityTimer c m)) k = Some d1" "wanted d1 = wanted d"
    "dq_initialized d \<or> k = c \<longrightarrow> dq_initialized d1" using timer_entry [OF Cons.prems, of c] by blast
  have "dm_regressedCodec (fireQualityTimer c m) = dm_regressedCodec m"
    by (simp add: fireQualityTimer_def callObject_frame split: option.split)
  then show ?case using Cons.IH [OF conjunct1 [OF timer_inv [OF Cons.prems(1), of c]] d1(1)] Cons.prems(3) d1(2,3) by auto
qed simp

lemma timers_regressed: "dm_regressedCodec (fold fireQualityTimer cs m) = dm_regressedCodec m"
  by (induction cs arbitrary: m) (simp_all add: fireQualityTimer_def callObject_frame split: option.split)

lemma debounce_committed:
  assumes "dyn_inv m" "settled m" "dm_committedMaxSubscribedQuality m \<noteq> []"
  shows "map_of (dm_committedMaxSubscribedQuality (fireDebounce m)) = map_of (dm_maxSubscribedQuality m)"
proof (cases "dm_debounced m")
  case True
  then have "dm_maxSubscribedQuality m \<noteq> []" using assms(1) by (auto simp: dyn_inv_def manager_ok_def)
  then show ?thesis using True by (simp add: fireDebounce_def update_forced)
next
  case False
  then have "\<not> dm_debouncePending m" using assms(1) by (auto simp: dyn_inv_def manager_ok_def)
  then show ?thesis using assms False by (auto simp: settled_def fireDebounce_def)
qed



text \<open>
  No operation of a run panics or recurses forever: a call for a regressed codec follows the regressions to their end.
\<close>

theorem dynacast_returns:
  assumes "dyn_run forced m" "admissible e m"
  shows "\<exists>m'. dyn_step e m = Some m'"
  using dyn_step_inv [of m e] dyn_run_inv [OF assms(1)] assms(2) by blast

text \<open>
  The condition on regressions is needed: two codecs that regressed to each other make every later notification recurse forever, and
  a regression to an unknown codec panics.
\<close>

lemma regression_cycle_diverges:
  assumes "map_of dqs a = Some da" "dq_regressTo da = Some b" "map_of dqs b = Some db" "dq_regressTo db = Some a"
  shows "regressTarget dqs a = None"
proof -
  have "False" if "regressTarget D x = Some t" "D = dqs" "x \<in> {a, b}" for D x t
    using that
  proof (induction rule: regressTarget.raw_induct [rotated, consumes 1, case_names step])
    case (step f D x t)
    have "\<not> f dqs z = Some t" if "z \<in> {a, b}" for z using step(1) [of D z t] step(3) that by blast
    then show ?case using step(2-4) assms by (auto split: option.splits)
  qed
  then show ?thesis by fastforce
qed

text \<open>
  A call of a quality object in its two halves: \<open>updateQualityChange\<close> unlocks the object before it calls the listener, so other callers
  can run in between.
\<close>

definition computeObject ::
  "(dynacastQualityVideo \<Rightarrow> dynacastQualityVideo \<times> VideoQuality option) \<Rightarrow> codecMime \<Rightarrow> dynacastManagerVideo \<Rightarrow> dynacastManagerVideo \<times> VideoQuality option" where
  "computeObject f c m =
     (case map_of (dm_dynacastQuality m) c of None \<Rightarrow> (m, None) | Some d \<Rightarrow> (case f d of (d', r) \<Rightarrow> (setObject c d' m, r)))"

definition notifyListener :: "codecMime \<Rightarrow> VideoQuality option \<Rightarrow> dynacastManagerVideo \<Rightarrow> dynacastManagerVideo" where
  "notifyListener c r m = (case r of None \<Rightarrow> m | Some q \<Rightarrow> OnUpdateMaxQualityForMime c q m)"

text \<open>One caller at a time, the two halves are the call.\<close>

lemma callObject_halves: "callObject f c m = (case computeObject f c m of (m', r) \<Rightarrow> notifyListener c r m')"
  by (simp add: callObject_def computeObject_def notifyListener_def split: option.split prod.split)

text \<open>
  C37: Two callers interleave. Since \<open>updateQualityChange\<close> unlocks the quality object before it calls the listener, the calls can arrive
  in the other order: subscriber \<open>a\<close> of codec VP8 asks for \<open>LOW\<close> and unlocks, subscriber \<open>b\<close> asks for \<open>HIGH\<close>, unlocks and notifies, then
  the notification of \<open>a\<close> arrives. After all timers have fired the publisher sends \<open>LOW\<close> although \<open>HIGH\<close> is wanted, and no timer is armed.
\<close>

theorem concurrent_updates_swap:
  "\<exists>m ra m1 rb m2 m3.
     dyn_exec [EvAddCodec ''vp8'', EvQualityTimer ''vp8''] (NewDynacastManagerVideo True 5) = Some m \<and>
     computeObject (dq_NotifySubscriberMaxQuality ''a'' LOW) ''vp8'' m = (m1, ra) \<and>
     computeObject (dq_NotifySubscriberMaxQuality ''b'' HIGH) ''vp8'' m1 = (m2, rb) \<and>
     m3 = timersFire [''vp8''] (notifyListener ''vp8'' ra (notifyListener ''vp8'' rb m2)) \<and>
     map_of (dm_committedMaxSubscribedQuality m3) ''vp8'' = Some LOW \<and>
     map_option dq_maxSubscriberQuality (map_of (dm_dynacastQuality m3) ''vp8'') = Some [(''a'', LOW), (''b'', HIGH)] \<and>
     map_option dq_maxQualityTimer (map_of (dm_dynacastQuality m3) ''vp8'') = Some False \<and> \<not> dm_debounced m3"
proof -
  define m where "m = the (dyn_exec [EvAddCodec ''vp8'', EvQualityTimer ''vp8''] (NewDynacastManagerVideo True 5))"
  define x1 where "x1 = computeObject (dq_NotifySubscriberMaxQuality ''a'' LOW) ''vp8'' m"
  define x2 where "x2 = computeObject (dq_NotifySubscriberMaxQuality ''b'' HIGH) ''vp8'' (fst x1)"
  define m3 where "m3 = timersFire [''vp8''] (notifyListener ''vp8'' (snd x1) (notifyListener ''vp8'' (snd x2) (fst x2)))"
  have "dyn_exec [EvAddCodec ''vp8'', EvQualityTimer ''vp8''] (NewDynacastManagerVideo True 5) = Some m"
    "map_of (dm_committedMaxSubscribedQuality m3) ''vp8'' = Some LOW"
    "map_option dq_maxSubscriberQuality (map_of (dm_dynacastQuality m3) ''vp8'') = Some [(''a'', LOW), (''b'', HIGH)]"
    "map_option dq_maxQualityTimer (map_of (dm_dynacastQuality m3) ''vp8'') = Some False" "\<not> dm_debounced m3"
    unfolding m3_def x2_def x1_def m_def by code_simp+
  moreover have "computeObject (dq_NotifySubscriberMaxQuality ''a'' LOW) ''vp8'' m = (fst x1, snd x1)"
    "computeObject (dq_NotifySubscriberMaxQuality ''b'' HIGH) ''vp8'' (fst x1) = (fst x2, snd x2)"
    by (simp_all add: x1_def x2_def)
  ultimately show ?thesis using m3_def by blast
qed

end
