(* ===== verification/Spec2Isabelle.thy ===== *)
theory Spec2Isabelle
  imports Sequencer DD_Parser Stream_Event_Properties Translate_Switch Red_Audio Rtp_Extensions Ops_Queue Dynacast_Properties
begin

text \<open>
  A verification library for the HubLive media server, the Go code under \<^verbatim>\<open>src/SERVER/pkg\<close>. The server is a selective
  forwarding unit: publishers send several layers of a video, and for every subscriber a \<^emph>\<open>down track\<close> forwards one of them, rewritten
  so that the subscriber sees one continuous stream. The library models the logic of that path and of the decisions around it.

  \<^bold>\<open>The program and its models.\<close> File names are relative to \<^verbatim>\<open>src/SERVER/pkg\<close>.

  \<^item> What a packet is: \<^verbatim>\<open>Packets\<close> (\<^verbatim>\<open>sfu/buffer/videolayer.go\<close>, the structures of \<^verbatim>\<open>buffer_base.go\<close> and of the dependency
    descriptor), \<^verbatim>\<open>Vp8_Descriptor\<close> (the VP8 part of \<^verbatim>\<open>sfu/buffer/helpers.go\<close>), \<^verbatim>\<open>Bitstream\<close> and \<^verbatim>\<open>Dependency_Descriptor\<close>
    (\<^verbatim>\<open>sfu/rtpextension/dependencydescriptor\<close>: bit reader and writer, descriptor reader and writer), with
    \<^verbatim>\<open>Dependency_Descriptor_Codec\<close>, \<^verbatim>\<open>_Roundtrip\<close> and \<^verbatim>\<open>_Parsed\<close> for its properties.
  \<^item> Arrival: \<^verbatim>\<open>Frame_Integrity\<close> (\<^verbatim>\<open>sfu/buffer/frameintegrity.go\<close>), \<^verbatim>\<open>DD_Parser\<close> (\<^verbatim>\<open>dependencydescriptorparser.go\<close>).
  \<^item> Choice of the layer, \<^verbatim>\<open>sfu/videolayerselector\<close>: \<^verbatim>\<open>Layer_Selector\<close> (base, simulcast, VP9, null, VP8 temporal layers),
    \<^verbatim>\<open>Decision_Cache\<close> and \<^verbatim>\<open>Frame_Chains\<close> (decision ring, chains and their callbacks), \<^verbatim>\<open>DD_Selector\<close> (dependency descriptors).
  \<^item> Rewriting: \<^verbatim>\<open>RangeMap\<close> (\<^verbatim>\<open>sfu/utils/rangemap.go\<close>), \<^verbatim>\<open>OffsetTail\<close> (its use by the next two), \<^verbatim>\<open>RtpMunger\<close>
    (\<^verbatim>\<open>sfu/rtpmunger.go\<close>), \<^verbatim>\<open>Vp8_Munger\<close> (\<^verbatim>\<open>sfu/codecmunger\<close>), \<^verbatim>\<open>Sequencer\<close> (\<^verbatim>\<open>sfu/sequencer.go\<close>, what was sent, for
    retransmissions).
  \<^item> The forwarder of a down track, \<^verbatim>\<open>sfu/forwarder.go\<close>: \<^verbatim>\<open>Forwarder\<close> (state and settings), \<^verbatim>\<open>Forwarder_Allocation\<close> (layer
    allocation), \<^verbatim>\<open>Forwarder_Translate\<close> (translation of packets, source switches, padding, state transfer), with
    \<^verbatim>\<open>Allocation_Properties\<close>, \<^verbatim>\<open>Translate_Properties\<close> and \<^verbatim>\<open>Translate_Switch\<close>. \<^verbatim>\<open>Go_Floats\<close> is the floating point arithmetic
    the code decides with.
  \<^item> Sharing the channel of a subscriber, \<^verbatim>\<open>sfu/streamallocator\<close>: \<^verbatim>\<open>Stream_Allocator\<close>, \<^verbatim>\<open>Stream_Allocator_Events\<close>, with
    \<^verbatim>\<open>Stream_Allocation_Properties\<close> and \<^verbatim>\<open>Stream_Event_Properties\<close>.
  \<^item> Beside the video path: \<^verbatim>\<open>Red_Audio\<close> (\<^verbatim>\<open>sfu/redreceiver.go\<close>, \<^verbatim>\<open>sfu/redprimaryreceiver.go\<close>), \<^verbatim>\<open>Rtp_Extensions\<close>
    (\<^verbatim>\<open>sfu/playoutdelay.go\<close>, \<^verbatim>\<open>sfu/rtpextension\<close>, \<^verbatim>\<open>sfu/packettrailer\<close>), \<^verbatim>\<open>Data_Track\<close> (\<^verbatim>\<open>rtc/datatrack\<close>).
  \<^item> Telling the publisher what to send: \<^verbatim>\<open>Dynacast\<close> and \<^verbatim>\<open>Dynacast_Properties\<close> (\<^verbatim>\<open>rtc/dynacast\<close>, video), whose calls of
    the listener go through \<^verbatim>\<open>Ops_Queue\<close> (\<^verbatim>\<open>utils/opsqueue.go\<close>).

  A packet passes parser, selector, RTP munger and codec munger inside \<open>GetTranslationParams\<close>; the stream allocator sets the target
  layer of the selectors through the allocation operations; the sequencer records what was sent. This theory holds the
  properties of compositions: the parser feeding the selector, and the dynacast manager feeding the queue.

  \<^bold>\<open>Conventions.\<close> Go structs are records, enumerations datatypes, fixed-width integers words, methods functions from the old to the new
  state; a method under a lock is one operation, and where the code releases the lock inside an operation, or goroutines meet, the
  parts are separate steps. Errors are values (\<open>Inl\<close>); a run-time panic is an error of its own or \<open>None\<close>, so that a theorem
  that something returns excludes panics. Maps are association lists or option-valued functions, and where Go's
  map order can be observed the order is a parameter. Loops are structural recursions. Two loops have no bound in the code:
  the boost of deficient tracks is a partial function that is shown to return for every order (a measure on the
  tracks that can still be boosted), and the chain of codec regressions is one that is shown to return for admissible
  regressions. No fuel is used except for the number of steps of the queue's goroutine, of which enough are shown to exist.

  \<^bold>\<open>Parameters.\<close> Code outside the repository is a parameter: the wrap-around counters of the transport utilities (\<open>WrapAroundOps\<close>,
  nothing assumed), the ordered map of the VP8 munger (\<open>OrderedMapOps\<close>, laws in the locale \<open>ordered_map\<close>, interpreted on association
  lists), clock and timestamp conversions (\<open>FwdEnv\<close>, nothing assumed), answers of the estimators and the down tracks to the stream
  allocator, random numbers, and the wall clock.

  \<^bold>\<open>Interfaces.\<close> \<open>bit_codec\<close> pairs an emitter of bits with a parser and lifts round trips to sequences; \<open>offset_map\<close> states what munger
  and sequencer need of a range map; \<open>ordered_map\<close> is the map of the VP8 munger; \<open>track_loop\<close> is the pattern of the allocator's loops
  over tracks, interpreted for each of them; \<open>ordered_delivery\<close> is what a client needs of the operations queue.

  \<^bold>\<open>What is shown.\<close> \<^emph>\<open>Forwarding:\<close> outgoing sequence numbers increase over all operations of the munger and of the forwarder, are
  consecutive when nothing is lost, continue over source switches and moves between nodes with advancing timestamps; VP8 picture ids
  are continuous; no state that a forwarder reaches panics. \<^emph>\<open>Selection:\<close> simulcast starts at key frames, a packet chosen by
  dependency descriptors is decodable, intact chains have lost no frame. \<^emph>\<open>Retransmission:\<close> what was pushed is found,
  requests are limited. \<^emph>\<open>Allocation:\<close> each operation of the forwarder computes what its comment promises, the
  allocator keeps within the capacity, its loops end, its event queue loses no request and it never panics. \<^emph>\<open>Wire formats:\<close> round
  trips for VP8 descriptors, dependency descriptors, redundant audio, data track packets and playout delays, and
  well-formedness of what is parsed from arbitrary bytes. \<^emph>\<open>Dynacast:\<close> what is announced covers what is wanted, and reaches
  the publisher through the queue, which is first in first out and loses no wake-up. Where the code does not do what it means to, a
  theorem shows the behaviour: the lost packet when VP9 resumes, the template of the wrong layer, the panics of data track
  packets, the layer bound of the reference timestamps, and the swapped updates of concurrent subscribers.

  \<^bold>\<open>Not modelled.\<close> Peer connections, negotiation and data channels (the transport library does the work), rooms, participants and
  subscriptions (protocol messages and input and output), services, routing, storage, telemetry and configuration, the
  jitter buffer and the retransmission bucket (external libraries), statistics, bandwidth estimation, scoring and audio levels
  (floating point over measurements), goroutines that only move packets (receivers, pacer, prober), the audio variant of dynacast,
  generated test doubles, and the clients in other languages. Log calls are left out everywhere.
\<close>

section \<open>Dependency descriptors from the wire to the selector\<close>

text \<open>
  The part of the receive buffer that runs the parser (\<^verbatim>\<open>buffer_base.go\<close>): a packet without the extension goes
  on without a descriptor, and switches the parser off for VP8 and VP9; any other error drops the packet.
\<close>

definition receiveDD :: "'w WrapAroundOps \<Rightarrow> bool \<Rightarrow> int \<Rightarrow> bytes option \<Rightarrow> ExtPacket \<Rightarrow> 'w DependencyDescriptorParser option \<Rightarrow>
    'w DependencyDescriptorParser option \<times> (ddpErr + ExtPacket)" where
  "receiveDD wa isVP8orVP9 now ddBuf ep ddParser =
     (let ep = ep\<lparr>ep_VideoLayer := (ep_VideoLayer ep)\<lparr>Temporal := 0\<rparr>\<rparr> in
      case ddParser of
        None \<Rightarrow> (None, Inr ep)
      | Some r \<Rightarrow>
        case ddp_Parse wa now (rtp_SequenceNumber (ep_Packet ep)) ddBuf r of
          (r, Inl e, _, _) \<Rightarrow>
            if e = ErrDDExtentionNotFound then (if isVP8orVP9 then None else Some r, Inr ep) else (Some r, Inl e)
        | (r, Inr x, videoLayer, _) \<Rightarrow> (Some r, Inr (ep\<lparr>ep_DependencyDescriptor := Some x, ep_VideoLayer := videoLayer\<rparr>)))"

text \<open>A stream of packets through the parser and one selector: the packets that were selected.\<close>

fun ddPipeline :: "'w WrapAroundOps \<Rightarrow> bool \<Rightarrow> (int \<times> bytes option \<times> ExtPacket) list \<Rightarrow>
    'w DependencyDescriptorParser option \<times> DDSelector \<Rightarrow> ddsErr + ExtPacket list" where
  "ddPipeline wa vp [] (r, d) = Inr []"
| "ddPipeline wa vp ((now, ddBuf, ep) # evs) (r, d) =
     (case receiveDD wa vp now ddBuf ep r of
        (r, Inl _) \<Rightarrow> ddPipeline wa vp evs (r, d)
      | (r, Inr ep) \<Rightarrow>
          bindR (dds_Select ep d) (\<lambda>(d, res).
            bindR (ddPipeline wa vp evs (r, d)) (\<lambda>sel. Inr (if IsSelected res then ep # sel else sel))))"

lemma ddPipeline_total:
  assumes "\<forall>(now, ddBuf, ep) \<in> set evs. ep_DependencyDescriptor ep = None"
    and "\<forall>p. r = Some p \<longrightarrow> pr_wf p" "dds_wf d"
  shows "\<exists>sel. ddPipeline wa vp evs (r, d) = Inr sel"
  using assms
proof (induction evs arbitrary: r d)
  case (Cons ev evs)
  obtain now ddBuf ep where ev: "ev = (now, ddBuf, ep)" by (cases ev)
  obtain r' res where rec: "receiveDD wa vp now ddBuf ep r = (r', res)" by (cases "receiveDD wa vp now ddBuf ep r")
  have ok: "(\<forall>p. r' = Some p \<longrightarrow> pr_wf p) \<and> (\<forall>ep'. res = Inr ep' \<longrightarrow> (\<forall>x. ep_DependencyDescriptor ep' = Some x \<longrightarrow> edd_wf x))"
  proof (cases r)
    case None
    then show ?thesis using rec Cons.prems(1) by (auto simp: ev receiveDD_def Let_def)
  next
    case (Some p)
    obtain p' pres layer c where parse: "ddp_Parse wa now (rtp_SequenceNumber (ep_Packet ep)) ddBuf p = (p', pres, layer, c)"
      by (metis prod_cases4)
    have "pr_wf p" using Cons.prems(2) Some by simp
    from ddp_Parse_ok [OF this parse] show ?thesis
      using rec Some parse Cons.prems(1) by (cases pres) (auto simp: ev receiveDD_def Let_def split: if_splits)
  qed
  show ?case
  proof (cases res)
    case (Inl e)
    then show ?thesis using Cons.IH [of r' d] Cons.prems ok rec by (simp add: ev)
  next
    case (Inr ep')
    then obtain d' sr where "dds_Select ep' d = Inr (d', sr)" "dds_wf d'"
      using dds_Select_ok [of d ep'] Cons.prems(3) ok by blast
    moreover from this obtain sel where "ddPipeline wa vp evs (r', d') = Inr sel"
      using Cons.IH [of r' d'] Cons.prems(1) ok by auto
    ultimately show ?thesis using Inr rec by (simp add: ev)
  qed
qed simp



section \<open>From the subscription to the publisher\<close>



end
